(* ===== verification/Prelude.thy ===== *)
theory Prelude
  imports Main Complex_Main "HOL-Library.AList" "HOL-Library.Multiset" "HOL-Library.Word"
begin

text \<open>
  What the component theories share.

  A Go function that can panic, or whose loop need not end, returns a value of type
  'a go: either the panic that ends the goroutine or the result.  A Go
  function that returns an error value has a component-specific error type instead.
  bindE sequences such computations and ensures states their total
  correctness: the computation returns, and the result satisfies the predicate.

  Go maps whose iteration order matters are association lists (theory AList), byte slices are
  lists of 8 word, and time.Time is a number of nanoseconds.
\<close>

section \<open>Names of types used throughout\<close>

type_synonym byte = "8 word"
type_synonym bytes = "byte list"
type_synonym pubkey = bytes
type_synonym node_id = bytes
type_synonym gotime = int
type_synonym duration = int

section \<open>Panics\<close>

datatype panic =
    IndexOutOfRange
  | NilDereference
  | DivisionByZero
  | Diverges
  | Raised string

type_synonym 'a go = "panic + 'a"

abbreviation ok :: "'a \<Rightarrow> 'e + 'a" where
  "ok \<equiv> Inr"

abbreviation fail :: "'e \<Rightarrow> 'e + 'a" where
  "fail \<equiv> Inl"

fun bindE :: "'e + 'a \<Rightarrow> ('a \<Rightarrow> 'e + 'b) \<Rightarrow> 'e + 'b" where
  "bindE (Inl e) f = Inl e"
| "bindE (Inr x) f = f x"

definition returns :: "'e + 'a \<Rightarrow> bool" where
  "returns m \<longleftrightarrow> (\<exists>x. m = Inr x)"

definition ensures :: "'e + 'a \<Rightarrow> ('a \<Rightarrow> bool) \<Rightarrow> bool" where
  "ensures m P \<longleftrightarrow> (\<exists>x. m = Inr x \<and> P x)"

named_theorems ensures_rules \<open>introduction rules for total correctness of a computation\<close>

lemma ensures_Inr [simp]: "ensures (Inr x) P \<longleftrightarrow> P x"
  by (simp add: ensures_def)

lemma ensures_Inl [simp]: "\<not> ensures (Inl e) P"
  by (simp add: ensures_def)

lemma ensures_bindE [ensures_rules]:
  assumes "ensures m P" and "\<And>x. P x \<Longrightarrow> ensures (f x) Q"
  shows "ensures (bindE m f) Q"
  using assms by (cases m) (auto simp: ensures_def)

lemma ensures_mono:
  assumes "ensures m P" and "\<And>x. P x \<Longrightarrow> Q x"
  shows "ensures m Q"
  using assms by (auto simp: ensures_def)

lemma ensures_conj:
  assumes "ensures m P" and "ensures m Q"
  shows "ensures m (\<lambda>x. P x \<and> Q x)"
  using assms by (auto simp: ensures_def)

lemma ensures_Ex: "ensures m P \<Longrightarrow> \<exists>x. m = Inr x \<and> P x"
  by (simp add: ensures_def)

lemma ensures_returns: "ensures m P \<Longrightarrow> returns m"
  by (auto simp: ensures_def returns_def)

lemma bindE_eq_Inr_iff: "bindE m f = Inr y \<longleftrightarrow> (\<exists>x. m = Inr x \<and> f x = Inr y)"
  by (cases m) auto

lemma bindE_eq_Inl_iff:
  "bindE m f = Inl e \<longleftrightarrow> m = Inl e \<or> (\<exists>x. m = Inr x \<and> f x = Inl e)"
  by (cases m) auto

lemma bindE_assoc: "bindE (bindE m f) g = bindE m (\<lambda>x. bindE (f x) g)"
  by (cases m) auto

lemma bindE_Inr_right [simp]: "bindE m Inr = m"
  by (cases m) auto

section \<open>Association lists\<close>

lemma distinct_fst_update [simp]:
  "distinct (map fst m) \<Longrightarrow> distinct (map fst (AList.update k v m))"
  by (rule distinct_update)

lemma distinct_fst_delete [simp]:
  "distinct (map fst m) \<Longrightarrow> distinct (map fst (AList.delete k m))"
  by (rule distinct_delete)

lemma length_update_new:
  "map_of m k = None \<Longrightarrow> length (AList.update k v m) = Suc (length m)"
  by (induction m) (auto split: if_splits)

lemma update_new_append:
  "map_of m k = None \<Longrightarrow> AList.update k v m = m @ [(k, v)]"
  by (induction m) (auto split: if_splits)

lemma update_same_keys:
  "map_of m k \<noteq> None \<Longrightarrow> map fst (AList.update k v m) = map fst m"
  by (induction m) (auto split: if_splits)

lemma length_delete_present:
  "distinct (map fst m) \<Longrightarrow> map_of m k \<noteq> None \<Longrightarrow> Suc (length (AList.delete k m)) = length m"
proof (induction m)
  case (Cons x m)
  show ?case
  proof (cases "fst x = k")
    case True
    then have "k \<notin> fst ` set m" using Cons.prems by auto
    then have "AList.delete k m = m" by (simp add: AList.delete_id)
    with True show ?thesis by (cases x) (simp add: AList.delete_eq)
  next
    case False
    with Cons show ?thesis by (auto simp: AList.delete_eq split: if_splits)
  qed
qed simp

lemma mset_delete_present:
  "distinct (map fst m) \<Longrightarrow> map_of m k = Some v \<Longrightarrow>
   mset m = add_mset (k, v) (mset (AList.delete k m))"
proof (induction m)
  case (Cons x m)
  show ?case
  proof (cases "fst x = k")
    case True
    then have "k \<notin> fst ` set m" using Cons.prems by auto
    then have "AList.delete k m = m" by (simp add: AList.delete_id)
    with True Cons.prems show ?thesis by (cases x) (simp add: AList.delete_eq)
  next
    case False
    with Cons show ?thesis by (cases x) (auto simp: AList.delete_eq split: if_splits)
  qed
qed simp

lemma set_update_subset:
  "set (AList.update k v m) \<subseteq> insert (k, v) (set m)"
  by (induction m) auto

lemma set_delete_subset: "set (AList.delete k m) \<subseteq> set m"
  by (simp add: AList.delete_eq)

lemma map_of_SomeD_fst: "map_of m k = Some v \<Longrightarrow> k \<in> fst ` set m"
  by (force dest: map_of_SomeD)

lemma in_fst_map_of: "n \<in> fst ` set m \<Longrightarrow> \<exists>v. map_of m n = Some v"
  by (cases "map_of m n") (auto simp: map_of_eq_None_iff)

lemma subset_insert_chain:
  "A \<subseteq> insert n B \<Longrightarrow> B \<subseteq> C \<union> U \<Longrightarrow> U \<subseteq> X \<Longrightarrow> n \<in> X \<Longrightarrow> C \<subseteq> D \<union> X \<Longrightarrow> A \<subseteq> D \<union> X"
  by blast

section \<open>Lists\<close>

text \<open>Exchange of two positions, the Swap of sort.Interface.\<close>

definition swap :: "'a list \<Rightarrow> nat \<Rightarrow> nat \<Rightarrow> 'a list" where
  "swap xs i j = xs[i := xs ! j, j := xs ! i]"

lemma length_swap [simp]: "length (swap xs i j) = length xs"
  by (simp add: swap_def)

lemma mset_swap [simp]:
  "i < length xs \<Longrightarrow> j < length xs \<Longrightarrow> mset (swap xs i j) = mset xs"
  by (simp add: swap_def Multiset.mset_swap)

lemma nth_swap:
  "i < length xs \<Longrightarrow> j < length xs \<Longrightarrow> k < length xs \<Longrightarrow>
   swap xs i j ! k = (if k = i then xs ! j else if k = j then xs ! i else xs ! k)"
  by (auto simp: swap_def nth_list_update)

lemma sum_list_rotate1 [simp]: "sum_list (map f (rotate1 xs)) = sum_list (map (f :: _ \<Rightarrow> int) xs)"
  by (cases xs) (auto simp: add.commute)

lemma distinct_hd_neq_last:
  "distinct xs \<Longrightarrow> 2 \<le> length xs \<Longrightarrow> hd xs \<noteq> last xs"
  by (cases xs) (auto split: if_splits)

lemma fold_plus_sum_list: "fold (\<lambda>a c. c + g a) xs c = c + (\<Sum>a\<leftarrow>xs. (g a :: int))"
  by (induction xs arbitrary: c) auto

lemma fold_append_concat: "fold (\<lambda>a c. c @ g a) xs c = c @ concat (map g xs)"
  by (induction xs arbitrary: c) auto

section \<open>Extended floating-point values\<close>

text \<open>The values math.Inf(-1), the finite values and math.Inf(1).\<close>

datatype fval = NegInf | Fin rat | PosInf

instantiation fval :: linorder
begin

fun less_eq_fval :: "fval \<Rightarrow> fval \<Rightarrow> bool" where
  "less_eq_fval NegInf _ = True"
| "less_eq_fval (Fin _) NegInf = False"
| "less_eq_fval (Fin a) (Fin b) = (a \<le> b)"
| "less_eq_fval (Fin _) PosInf = True"
| "less_eq_fval PosInf PosInf = True"
| "less_eq_fval PosInf _ = False"

definition less_fval :: "fval \<Rightarrow> fval \<Rightarrow> bool" where
  "less_fval a b = (a \<le> b \<and> \<not> b \<le> a)"

instance
proof
  fix x y z :: fval
  show "x < y \<longleftrightarrow> x \<le> y \<and> \<not> y \<le> x" by (simp add: less_fval_def)
  show "x \<le> x" by (cases x) auto
  show "x \<le> y \<Longrightarrow> y \<le> z \<Longrightarrow> x \<le> z" by (cases x; cases y; cases z) auto
  show "x \<le> y \<Longrightarrow> y \<le> x \<Longrightarrow> x = y" by (cases x; cases y) auto
  show "x \<le> y \<or> y \<le> x" by (cases x; cases y) auto
qed

end

lemma less_fval_simps [simp]:
  "Fin a < Fin b \<longleftrightarrow> a < b"
  "NegInf < Fin b" "Fin a < PosInf" "NegInf < PosInf"
  "\<not> x < NegInf" "\<not> PosInf < x"
  by (auto simp: less_fval_def; cases x; auto)+

end
