(* ===== verification/GoHeap.thy ===== *)
theory GoHeap
  imports Prelude
begin

text \<open>
  The binary heap of Go's standard library (container/heap: Push,
  Pop, up, down) over an arbitrary Less, on the slice that
  implements heap.Interface.  heap_order is the contract Less has to
  meet (a strict weak order); under it Push and Pop keep the heap shape, keep
  the elements, and Pop delivers a minimal one.  priority_queue is the
  interface the scheduler's queues rely on.
\<close>

section \<open>Operations\<close>

function (sequential) heap_up :: "('a \<Rightarrow> 'a \<Rightarrow> bool) \<Rightarrow> 'a list \<Rightarrow> nat \<Rightarrow> 'a list" where
  "heap_up lt h j =
     (let i = (j - 1) div 2
      in if i = j \<or> \<not> lt (h ! j) (h ! i) then h
         else heap_up lt (swap h i j) i)"
  by pat_completeness auto
termination
  by (relation "measure (\<lambda>(_, _, j). j)") auto

function (sequential) heap_down :: "('a \<Rightarrow> 'a \<Rightarrow> bool) \<Rightarrow> 'a list \<Rightarrow> nat \<Rightarrow> nat \<Rightarrow> 'a list" where
  "heap_down lt h i n =
     (let j1 = 2 * i + 1
      in if n \<le> j1 then h
         else let j2 = j1 + 1;
                  j = (if j2 < n \<and> lt (h ! j2) (h ! j1) then j2 else j1)
              in if \<not> lt (h ! j) (h ! i) then h
                 else heap_down lt (swap h i j) j n)"
  by pat_completeness auto
termination
  by (relation "measure (\<lambda>(_, _, i, n). n - i)") (auto split: if_splits)

definition heap_push :: "('a \<Rightarrow> 'a \<Rightarrow> bool) \<Rightarrow> 'a \<Rightarrow> 'a list \<Rightarrow> 'a list" where
  "heap_push lt x h = heap_up lt (h @ [x]) (length h)"

definition heap_pop :: "('a \<Rightarrow> 'a \<Rightarrow> bool) \<Rightarrow> 'a list \<Rightarrow> ('a \<times> 'a list) go" where
  "heap_pop lt h =
     (if h = [] then fail IndexOutOfRange
      else let n = length h - 1;
               h' = heap_down lt (swap h 0 n) 0 n
           in ok (last h', butlast h'))"

declare heap_up.simps [simp del] heap_down.simps [simp del]

section \<open>Elements are kept\<close>

lemma length_heap_up [simp]: "length (heap_up lt h j) = length h"
proof (induction lt h j rule: heap_up.induct)
  case (1 lt h j)
  show ?case by (subst heap_up.simps) (auto simp: Let_def 1)
qed

lemma mset_heap_up [simp]: "j < length h \<Longrightarrow> mset (heap_up lt h j) = mset h"
proof (induction lt h j rule: heap_up.induct)
  case (1 lt h j)
  then have "(j - 1) div 2 < length h" by auto
  with 1 show ?case by (subst heap_up.simps) (auto simp: Let_def)
qed

lemma length_heap_down [simp]: "length (heap_down lt h i n) = length h"
proof (induction lt h i n rule: heap_down.induct)
  case (1 lt h i n)
  show ?case by (subst heap_down.simps) (auto simp: Let_def 1)
qed

lemma mset_heap_down [simp]: "n \<le> length h \<Longrightarrow> mset (heap_down lt h i n) = mset h"
proof (induction lt h i n rule: heap_down.induct)
  case (1 lt h i n)
  then show ?case by (subst heap_down.simps) (auto simp: Let_def)
qed

lemma nth_heap_down_beyond:
  "n \<le> k \<Longrightarrow> k < length h \<Longrightarrow> heap_down lt h i n ! k = h ! k"
proof (induction lt h i n rule: heap_down.induct)
  case (1 lt h i n)
  then show ?case by (subst heap_down.simps) (auto simp: Let_def nth_swap)
qed

lemma mset_heap_push [simp]: "mset (heap_push lt x h) = add_mset x (mset h)"
  by (simp add: heap_push_def)

lemma length_heap_push [simp]: "length (heap_push lt x h) = Suc (length h)"
  by (simp add: heap_push_def)

lemma set_heap_push [simp]: "set (heap_push lt x h) = insert x (set h)"
  by (metis mset_heap_push set_mset_add_mset_insert set_mset_mset)

section \<open>The heap shape\<close>

abbreviation parent :: "nat \<Rightarrow> nat" where
  "parent k \<equiv> (k - 1) div 2"

definition heap_to :: "('a \<Rightarrow> 'a \<Rightarrow> bool) \<Rightarrow> 'a list \<Rightarrow> nat \<Rightarrow> bool" where
  "heap_to lt h n \<longleftrightarrow> (\<forall>k < n. 0 < k \<longrightarrow> \<not> lt (h ! k) (h ! parent k))"

abbreviation is_heap :: "('a \<Rightarrow> 'a \<Rightarrow> bool) \<Rightarrow> 'a list \<Rightarrow> bool" where
  "is_heap lt h \<equiv> heap_to lt h (length h)"

text \<open>The heap with a hole at j, on the way up and on the way down.\<close>

definition heap_hole_up :: "('a \<Rightarrow> 'a \<Rightarrow> bool) \<Rightarrow> 'a list \<Rightarrow> nat \<Rightarrow> bool" where
  "heap_hole_up lt h j \<longleftrightarrow>
     (\<forall>k < length h. 0 < k \<longrightarrow> k \<noteq> j \<longrightarrow> \<not> lt (h ! k) (h ! parent k)) \<and>
     (\<forall>k < length h. 0 < k \<longrightarrow> parent k = j \<longrightarrow> 0 < j \<longrightarrow> \<not> lt (h ! k) (h ! parent j))"

definition heap_hole_down :: "('a \<Rightarrow> 'a \<Rightarrow> bool) \<Rightarrow> 'a list \<Rightarrow> nat \<Rightarrow> nat \<Rightarrow> bool" where
  "heap_hole_down lt h i n \<longleftrightarrow>
     (\<forall>k < n. 0 < k \<longrightarrow> parent k \<noteq> i \<longrightarrow> \<not> lt (h ! k) (h ! parent k)) \<and>
     (\<forall>k < n. 0 < k \<longrightarrow> parent k = i \<longrightarrow> 0 < i \<longrightarrow> \<not> lt (h ! k) (h ! parent i))"

locale heap_order =
  fixes lt :: "'a \<Rightarrow> 'a \<Rightarrow> bool"
  assumes less_asym: "lt x y \<Longrightarrow> \<not> lt y x"
    and not_less_trans: "\<not> lt x y \<Longrightarrow> \<not> lt y z \<Longrightarrow> \<not> lt x z"
begin

lemma less_irrefl [simp]: "\<not> lt x x"
  using less_asym by blast

lemma heap_up_heap:
  "j < length h \<Longrightarrow> heap_hole_up lt h j \<Longrightarrow> is_heap lt (heap_up lt h j)"
proof (induction j arbitrary: h rule: less_induct)
  case (less j)
  let ?i = "parent j"
  show ?case
  proof (cases "?i = j \<or> \<not> lt (h ! j) (h ! ?i)")
    case True
    then have "heap_up lt h j = h" by (subst heap_up.simps) (auto simp: Let_def)
    moreover have "is_heap lt h"
      using less.prems True unfolding heap_hole_up_def heap_to_def
      by (metis bot_nat_0.not_eq_extremum diff_less div_le_dividend leD le_trans less_numeral_extra(1))
    ultimately show ?thesis by simp
  next
    case False
    then have lt: "lt (h ! j) (h ! ?i)" and ij: "?i < j" by auto
    let ?h = "swap h ?i j"
    have hole: "heap_hole_up lt ?h ?i"
      unfolding heap_hole_up_def
    proof (intro conjI allI impI)
      fix k assume k: "k < length ?h" "0 < k" "k \<noteq> ?i"
      show "\<not> lt (?h ! k) (?h ! parent k)"
      proof (cases "k = j")
        case True
        then show ?thesis using lt ij less.prems less_asym by (simp add: nth_swap)
      next
        case kj: False
        have old: "\<not> lt (h ! k) (h ! parent k)"
          using less.prems k kj by (simp add: heap_hole_up_def)
        have pk: "parent k < length h" using k by auto
        show ?thesis
        proof (cases "parent k = j")
          case True
          then have "\<not> lt (h ! k) (h ! ?i)"
            using less.prems k ij by (simp add: heap_hole_up_def)
          then show ?thesis using True k kj ij less.prems by (simp add: nth_swap)
        next
          case pj: False
          show ?thesis
          proof (cases "parent k = ?i")
            case True
            then have "\<not> lt (h ! k) (h ! j)"
              using old lt less_asym not_less_trans by metis
            then show ?thesis using True k kj ij less.prems by (simp add: nth_swap)
          next
            case False
            then show ?thesis using old k kj pj ij pk less.prems by (simp add: nth_swap)
          qed
        qed
      qed
    next
      fix k assume k: "k < length ?h" "0 < k" "parent k = ?i" "0 < ?i"
      have pi: "parent ?i < ?i" using k(4) by auto
      have i_ok: "\<not> lt (h ! ?i) (h ! parent ?i)"
        using less.prems ij k(4) by (simp add: heap_hole_up_def)
      show "\<not> lt (?h ! k) (?h ! parent ?i)"
      proof (cases "k = j")
        case True
        then show ?thesis using i_ok ij pi less.prems by (simp add: nth_swap)
      next
        case False
        then have "\<not> lt (h ! k) (h ! ?i)"
          using less.prems k by (auto simp: heap_hole_up_def)
        then have "\<not> lt (h ! k) (h ! parent ?i)" using i_ok not_less_trans by blast
        moreover have "k \<noteq> ?i" using k by auto
        ultimately show ?thesis using False ij pi k less.prems by (simp add: nth_swap)
      qed
    qed
    have "heap_up lt h j = heap_up lt ?h ?i"
      using False by (subst heap_up.simps) (auto simp: Let_def)
    with less.IH [OF ij _ hole] ij less.prems show ?thesis by simp
  qed
qed

lemma is_heap_push: "is_heap lt h \<Longrightarrow> is_heap lt (heap_push lt x h)"
  unfolding heap_push_def
proof (rule heap_up_heap)
  assume h: "is_heap lt h"
  show "heap_hole_up lt (h @ [x]) (length h)"
    using h unfolding heap_hole_up_def heap_to_def by (auto simp: nth_append)
qed simp

lemma heap_down_heap:
  "n \<le> length h \<Longrightarrow> heap_hole_down lt h i n \<Longrightarrow> heap_to lt (heap_down lt h i n) n"
proof (induction "n - i" arbitrary: h i rule: less_induct)
  case less
  let ?j1 = "2 * i + 1"
  define j where "j = (if ?j1 + 1 < n \<and> lt (h ! (?j1 + 1)) (h ! ?j1) then ?j1 + 1 else ?j1)"
  have down: "heap_down lt h i n =
      (if n \<le> ?j1 \<or> \<not> lt (h ! j) (h ! i) then h else heap_down lt (swap h i j) j n)"
    by (subst heap_down.simps) (simp add: Let_def j_def)
  have children: "k = ?j1 \<or> k = ?j1 + 1" if "parent k = i" "0 < k" for k
    using that by auto
  have j_min: "\<not> lt (h ! k) (h ! j)" if "parent k = i" "0 < k" "k < n" for k
    using children [OF that(1,2)] that(3) less_asym by (auto simp: j_def)
  have pj: "parent j = i" and j0: "0 < j" and ij: "i < j"
    and jn: "\<not> n \<le> ?j1 \<Longrightarrow> j < n"
    by (auto simp: j_def)
  show ?case
  proof (cases "n \<le> ?j1 \<or> \<not> lt (h ! j) (h ! i)")
    case True
    then have "heap_down lt h i n = h" using down by simp
    moreover have "heap_to lt h n"
      unfolding heap_to_def
    proof (intro allI impI)
      fix k assume k: "k < n" "0 < k"
      show "\<not> lt (h ! k) (h ! parent k)"
      proof (cases "parent k = i")
        case p: True
        then have "?j1 < n" using children k by fastforce
        with True have i: "\<not> lt (h ! j) (h ! i)" by (simp add: not_le)
        show ?thesis unfolding p by (rule not_less_trans [OF j_min [OF p k(2,1)] i])
      next
        case False
        then show ?thesis using less.prems k by (simp add: heap_hole_down_def)
      qed
    qed
    ultimately show ?thesis by simp
  next
    case False
    then have jn: "j < n" and lt: "lt (h ! j) (h ! i)" using jn by auto
    let ?h = "swap h i j"
    have len: "i < length h" "j < length h" using jn ij less.prems by linarith+
    note nth = nth_swap [OF len]
    have "heap_hole_down lt ?h j n"
      unfolding heap_hole_down_def
    proof (intro conjI allI impI)
      fix k assume k: "k < n" "0 < k" "parent k \<noteq> j"
      have kl: "k < length h" "parent k < length h" using k less.prems by auto
      show "\<not> lt (?h ! k) (?h ! parent k)"
      proof (cases "k = j")
        case True
        then show ?thesis using pj lt less_asym nth kl ij by (metis less_irrefl_nat)
      next
        case kj: False
        show ?thesis
        proof (cases "parent k = i")
          case True
          then have "k \<noteq> i" using k by auto
          then show ?thesis using True j_min [OF True k(2,1)] nth kl kj by metis
        next
          case pi: False
          then have old: "\<not> lt (h ! k) (h ! parent k)"
            using less.prems k by (simp add: heap_hole_down_def)
          show ?thesis
          proof (cases "k = i")
            case True
            then have "\<not> lt (h ! j) (h ! parent i)"
              using less.prems j0 pj jn k by (simp add: heap_hole_down_def)
            then show ?thesis using True nth kl kj k pi by metis
          next
            case False
            then show ?thesis using old nth kl kj pi k by metis
          qed
        qed
      qed
    next
      fix k assume k: "k < n" "0 < k" "parent k = j" "0 < j"
      have "\<not> lt (h ! k) (h ! parent k)"
        using less.prems(2) k(1,2) k(3) ij unfolding heap_hole_down_def by (metis less_irrefl_nat)
      then have "\<not> lt (h ! k) (h ! j)" unfolding k(3) .
      moreover have "?h ! k = h ! k"
      proof -
        have "k \<noteq> j" "k \<noteq> i" using k(2,3) ij by presburger+
        then show ?thesis using nth k less.prems by auto
      qed
      moreover have "?h ! parent j = h ! j" using pj nth len ij by metis
      ultimately show "\<not> lt (?h ! k) (?h ! parent j)" by metis
    qed
    moreover have "n - j < n - i" using ij jn by linarith
    moreover have "heap_down lt h i n = heap_down lt ?h j n"
      using False down by simp
    ultimately show ?thesis using less.hyps [of j ?h] less.prems by (metis length_swap)
  qed
qed

lemma heap_root_least: "is_heap lt h \<Longrightarrow> k < length h \<Longrightarrow> \<not> lt (h ! k) (h ! 0)"
proof (induction k rule: less_induct)
  case (less k)
  show ?case
  proof (cases "k = 0")
    case False
    then have "\<not> lt (h ! k) (h ! parent k)" "\<not> lt (h ! parent k) (h ! 0)"
      using less by (auto simp: heap_to_def)
    then show ?thesis using not_less_trans by blast
  qed simp
qed

lemma heap_pop_spec:
  assumes "is_heap lt h" and "h \<noteq> []"
  shows "ensures (heap_pop lt h) (\<lambda>(x, h').
           x = hd h \<and> mset h = add_mset x (mset h') \<and> is_heap lt h' \<and>
           (\<forall>y \<in> set h. \<not> lt y x))"
proof -
  let ?n = "length h - 1"
  let ?s = "swap h 0 ?n"
  let ?d = "heap_down lt ?s 0 ?n"
  have n: "?n < length h" using assms(2) by (cases h) auto
  have "heap_hole_down lt ?s 0 ?n"
    using assms n unfolding heap_hole_down_def heap_to_def by (auto simp: nth_swap)
  then have heap: "heap_to lt ?d ?n" by (intro heap_down_heap) auto
  have d: "?d \<noteq> []" using assms(2) by (metis length_0_conv length_heap_down length_swap)
  then have "last ?d = ?d ! ?n" by (simp add: last_conv_nth)
  also have "\<dots> = ?s ! ?n" using n by (intro nth_heap_down_beyond) auto
  also have "\<dots> = hd h" using n assms(2) by (simp add: nth_swap hd_conv_nth)
  finally have last: "last ?d = hd h" .
  have "mset h = mset ?d" using n assms(2) by simp
  also have "\<dots> = add_mset (last ?d) (mset (butlast ?d))"
    using d by (metis append_butlast_last_id mset_append add_mset_add_single mset.simps)
  finally have ms: "mset h = add_mset (hd h) (mset (butlast ?d))" unfolding last .
  have "is_heap lt (butlast ?d)"
    using heap by (auto simp: heap_to_def nth_butlast)
  moreover have "\<forall>y \<in> set h. \<not> lt y (hd h)"
    using heap_root_least [OF assms(1)] assms(2) by (metis hd_conv_nth in_set_conv_nth)
  ultimately show ?thesis
    using assms(2) ms last by (simp add: heap_pop_def Let_def)
qed

lemma heap_pop_empty: "heap_pop lt [] = fail IndexOutOfRange"
  by (simp add: heap_pop_def)

end

section \<open>The interface the users of a heap rely on\<close>

locale priority_queue =
  fixes lt :: "'a \<Rightarrow> 'a \<Rightarrow> bool"
    and push :: "'a \<Rightarrow> 'q \<Rightarrow> 'q"
    and pop :: "'q \<Rightarrow> ('a \<times> 'q) go"
    and elems :: "'q \<Rightarrow> 'a multiset"
    and invar :: "'q \<Rightarrow> bool"
  assumes push_invar: "invar q \<Longrightarrow> invar (push x q)"
    and push_elems: "elems (push x q) = add_mset x (elems q)"
    and pop_ok: "invar q \<Longrightarrow> elems q \<noteq> {#} \<Longrightarrow>
      ensures (pop q) (\<lambda>(x, q'). invar q' \<and> elems q = add_mset x (elems q') \<and>
                                  (\<forall>y \<in># elems q. \<not> lt y x))"
begin

text \<open>Popping until the queue is empty delivers the elements in order.\<close>

fun drain :: "nat \<Rightarrow> 'q \<Rightarrow> ('a list \<times> 'q) go" where
  "drain 0 q = ok ([], q)"
| "drain (Suc n) q =
     bindE (pop q) (\<lambda>(x, q'). bindE (drain n q') (\<lambda>(xs, q''). ok (x # xs, q'')))"

lemma drain_sorted:
  "invar q \<Longrightarrow> size (elems q) = n \<Longrightarrow>
   ensures (drain n q) (\<lambda>(xs, q').
     mset xs = elems q \<and> sorted_wrt (\<lambda>x y. \<not> lt y x) xs \<and> invar q' \<and> elems q' = {#})"
proof (induction n arbitrary: q)
  case (Suc n)
  have "elems q \<noteq> {#}" using Suc.prems(2) by auto
  from pop_ok [OF Suc.prems(1) this] show ?case
    unfolding drain.simps
  proof (rule ensures_bindE, clarify)
    fix x q' assume q': "invar q'" "elems q = add_mset x (elems q')" "\<forall>y \<in># elems q. \<not> lt y x"
    have "size (elems q') = n" using q'(2) Suc.prems(2) by simp
    from Suc.IH [OF q'(1) this]
    show "ensures (bindE (drain n q') (\<lambda>(xs, q''). ok (x # xs, q''))) (\<lambda>(xs, q').
            mset xs = elems q \<and> sorted_wrt (\<lambda>x y. \<not> lt y x) xs \<and> invar q' \<and> elems q' = {#})"
      by (rule ensures_bindE) (use q' in \<open>auto simp flip: set_mset_mset\<close>)
  qed
qed simp

end

sublocale heap_order \<subseteq> heap: priority_queue lt "heap_push lt" "heap_pop lt" mset "is_heap lt"
proof (unfold_locales, goal_cases)
  case (1 q x)
  then show ?case by (rule is_heap_push)
next
  case (2 x q)
  then show ?case by simp
next
  case (3 q)
  then have "q \<noteq> []" by auto
  from heap_pop_spec [OF 3(1) this] show ?case
    by (rule ensures_mono) auto
qed

end
