(* ===== verification/NodeQueue.thy ===== *)
theory NodeQueue
  imports GoHeap
begin

text \<open>
  packages/core/mesh_old/schedulerutils/nodequeue.go: the queue of one issuing node.
  Submitted blocks wait in the map submitted; Ready moves them to the heap
  inbox, ordered by issuing time; size counts both.

  The external identity.NewID is the parameter newID.  The order in which Go
  ranges over the map submitted is the parameter ord where it is visible.
\<close>

section \<open>Elements\<close>

type_synonym ElementID = bytes

definition ElementIDLength :: nat where
  "ElementIDLength = 32 + 8"

definition ElementIDFromBytes :: "bytes \<Rightarrow> ElementID go" where
  "ElementIDFromBytes data =
     (if length data < ElementIDLength
      then fail (Raised ''bytes not long enough to encode a valid block id'')
      else ok (take ElementIDLength data))"

record Element =
  IDBytes :: bytes
  elem_Size :: int
  IssuerPublicKey :: pubkey
  IssuingTime :: gotime

section \<open>ElementHeap\<close>

definition ElementHeap_Less :: "Element \<Rightarrow> Element \<Rightarrow> bool" where
  "ElementHeap_Less a b \<longleftrightarrow> IssuingTime a < IssuingTime b"

abbreviation ElementHeap_Push :: "Element \<Rightarrow> Element list \<Rightarrow> Element list" where
  "ElementHeap_Push \<equiv> heap_push ElementHeap_Less"

abbreviation ElementHeap_Pop :: "Element list \<Rightarrow> (Element \<times> Element list) go" where
  "ElementHeap_Pop \<equiv> heap_pop ElementHeap_Less"

interpretation element_heap: heap_order ElementHeap_Less
  by unfold_locales (auto simp: ElementHeap_Less_def)

section \<open>NodeQueue\<close>

record NodeQueue =
  nodeID :: node_id
  submitted :: "(ElementID \<times> Element) list"
  inbox :: "Element list"
  nq_size :: int

definition NewNodeQueue :: "node_id \<Rightarrow> NodeQueue" where
  "NewNodeQueue i = \<lparr>nodeID = i, submitted = [], inbox = [], nq_size = 0\<rparr>"

text \<open>A nil queue is None.\<close>

fun NodeQueue_Size :: "NodeQueue option \<Rightarrow> int" where
  "NodeQueue_Size None = 0"
| "NodeQueue_Size (Some q) = nq_size q"

definition NodeQueue_Submit ::
  "(pubkey \<Rightarrow> node_id) \<Rightarrow> NodeQueue \<Rightarrow> Element \<Rightarrow> (bool \<times> NodeQueue) go" where
  "NodeQueue_Submit newID q e =
     (if nodeID q \<noteq> newID (IssuerPublicKey e)
      then fail (Raised ''nodequeue: queue node ID and issuer ID does not match.'')
      else bindE (ElementIDFromBytes (IDBytes e)) (\<lambda>i.
        if map_of (submitted q) i \<noteq> None then ok (False, q)
        else ok (True, q\<lparr>submitted := AList.update i e (submitted q), nq_size := nq_size q + 1\<rparr>)))"

definition NodeQueue_Unsubmit :: "NodeQueue \<Rightarrow> Element \<Rightarrow> (bool \<times> NodeQueue) go" where
  "NodeQueue_Unsubmit q e =
     bindE (ElementIDFromBytes (IDBytes e)) (\<lambda>i.
       if map_of (submitted q) i = None then ok (False, q)
       else ok (True, q\<lparr>submitted := AList.delete i (submitted q), nq_size := nq_size q - 1\<rparr>))"

definition NodeQueue_Ready :: "NodeQueue \<Rightarrow> Element \<Rightarrow> (bool \<times> NodeQueue) go" where
  "NodeQueue_Ready q e =
     bindE (ElementIDFromBytes (IDBytes e)) (\<lambda>i.
       if map_of (submitted q) i = None then ok (False, q)
       else ok (True, q\<lparr>submitted := AList.delete i (submitted q),
                        inbox := ElementHeap_Push e (inbox q)\<rparr>))"

fun idsOfInbox :: "Element list \<Rightarrow> ElementID list go" where
  "idsOfInbox [] = ok []"
| "idsOfInbox (e # es) =
     bindE (ElementIDFromBytes (IDBytes e)) (\<lambda>i. bindE (idsOfInbox es) (\<lambda>is. ok (i # is)))"

definition NodeQueue_IDs ::
  "((ElementID \<times> Element) list \<Rightarrow> (ElementID \<times> Element) list) \<Rightarrow> NodeQueue \<Rightarrow> ElementID list go" where
  "NodeQueue_IDs ord q =
     bindE (idsOfInbox (inbox q)) (\<lambda>is. ok (map fst (ord (submitted q)) @ is))"

fun NodeQueue_Front :: "NodeQueue option \<Rightarrow> Element option" where
  "NodeQueue_Front None = None"
| "NodeQueue_Front (Some q) = (case inbox q of [] \<Rightarrow> None | e # _ \<Rightarrow> Some e)"

definition NodeQueue_PopFront :: "NodeQueue \<Rightarrow> (Element \<times> NodeQueue) go" where
  "NodeQueue_PopFront q =
     bindE (ElementHeap_Pop (inbox q)) (\<lambda>(e, h). ok (e, q\<lparr>inbox := h, nq_size := nq_size q - 1\<rparr>))"

section \<open>Invariant\<close>

definition valid_elem :: "(pubkey \<Rightarrow> node_id) \<Rightarrow> node_id \<Rightarrow> Element \<Rightarrow> bool" where
  "valid_elem newID n e \<longleftrightarrow> ElementIDLength \<le> length (IDBytes e) \<and> newID (IssuerPublicKey e) = n"

definition elem_id :: "Element \<Rightarrow> ElementID" where
  "elem_id e = take ElementIDLength (IDBytes e)"

definition nq_inv :: "(pubkey \<Rightarrow> node_id) \<Rightarrow> NodeQueue \<Rightarrow> bool" where
  "nq_inv newID q \<longleftrightarrow>
     distinct (map fst (submitted q)) \<and>
     (\<forall>(i, e) \<in> set (submitted q). i = elem_id e \<and> valid_elem newID (nodeID q) e) \<and>
     (\<forall>e \<in> set (inbox q). valid_elem newID (nodeID q) e) \<and>
     nq_size q = int (length (submitted q)) + int (length (inbox q)) \<and>
     is_heap ElementHeap_Less (inbox q)"

text \<open>What a queue holds: the elements waiting and those ready.\<close>

definition nq_waiting :: "NodeQueue \<Rightarrow> Element multiset" where
  "nq_waiting q = image_mset snd (mset (submitted q))"

definition nq_ready :: "NodeQueue \<Rightarrow> Element multiset" where
  "nq_ready q = mset (inbox q)"

definition nq_all :: "NodeQueue \<Rightarrow> Element multiset" where
  "nq_all q = nq_waiting q + nq_ready q"

lemma ElementIDFromBytes_valid [simp]:
  "valid_elem newID n e \<Longrightarrow> ElementIDFromBytes (IDBytes e) = ok (elem_id e)"
  by (simp add: valid_elem_def ElementIDFromBytes_def elem_id_def)

lemma valid_elem_issuer: "valid_elem newID n e \<Longrightarrow> newID (IssuerPublicKey e) = n"
  by (simp add: valid_elem_def)

lemma nq_inv_size: "nq_inv newID q \<Longrightarrow> nq_size q = int (size (nq_all q))"
  by (simp add: nq_inv_def nq_all_def nq_waiting_def nq_ready_def)

lemma nq_inv_valid: "nq_inv newID q \<Longrightarrow> e \<in># nq_all q \<Longrightarrow> valid_elem newID (nodeID q) e"
  by (auto simp: nq_inv_def nq_all_def nq_waiting_def nq_ready_def)

lemma nq_inv_New [simp]: "nq_inv newID (NewNodeQueue n)"
  by (simp add: nq_inv_def NewNodeQueue_def heap_to_def)

lemma New_simps [simp]:
  "nodeID (NewNodeQueue n) = n" "nq_size (NewNodeQueue n) = 0" "nq_all (NewNodeQueue n) = {#}"
  "submitted (NewNodeQueue n) = []" "inbox (NewNodeQueue n) = []"
  by (simp_all add: NewNodeQueue_def nq_all_def nq_waiting_def nq_ready_def)

section \<open>What each operation does\<close>

lemma nq_Submit_spec:
  assumes "nq_inv newID q" and "valid_elem newID (nodeID q) e"
  shows "ensures (NodeQueue_Submit newID q e) (\<lambda>(b, q').
           nq_inv newID q' \<and> nodeID q' = nodeID q \<and> inbox q' = inbox q \<and>
           b = (map_of (submitted q) (elem_id e) = None) \<and>
           nq_all q' = (if b then add_mset e (nq_all q) else nq_all q) \<and>
           nq_size q' = nq_size q + (if b then 1 else 0) \<and>
           map_of (submitted q') (elem_id e) \<noteq> None \<and> (\<not> b \<longrightarrow> q' = q))"
proof (cases "map_of (submitted q) (elem_id e)")
  case None
  then have "elem_id e \<notin> fst ` set (submitted q)" by (simp add: map_of_eq_None_iff)
  with None assms show ?thesis
    by (auto simp: NodeQueue_Submit_def valid_elem_issuer [OF assms(2)] update_new_append
        nq_inv_def nq_all_def nq_waiting_def nq_ready_def)
next
  case (Some e')
  with assms show ?thesis
    by (auto simp: NodeQueue_Submit_def valid_elem_issuer [OF assms(2)])
qed

lemma nq_Unsubmit_spec:
  assumes "nq_inv newID q" and "valid_elem newID n e"
  shows "ensures (NodeQueue_Unsubmit q e) (\<lambda>(b, q').
           nq_inv newID q' \<and> nodeID q' = nodeID q \<and> inbox q' = inbox q \<and>
           b = (map_of (submitted q) (elem_id e) \<noteq> None) \<and>
           map_of (submitted q') (elem_id e) = None \<and>
           nq_size q' = nq_size q - (if b then 1 else 0) \<and> (\<not> b \<longrightarrow> q' = q) \<and>
           (\<forall>e'. map_of (submitted q) (elem_id e) = Some e' \<longrightarrow> nq_all q = add_mset e' (nq_all q')))"
proof (cases "map_of (submitted q) (elem_id e)")
  case None
  with assms show ?thesis by (simp add: NodeQueue_Unsubmit_def)
next
  case (Some e')
  have d: "distinct (map fst (submitted q))" using assms by (simp add: nq_inv_def)
  have m: "mset (submitted q) = add_mset (elem_id e, e') (mset (AList.delete (elem_id e) (submitted q)))"
    using mset_delete_present [OF d Some] .
  have l: "length (submitted q) = Suc (length (AList.delete (elem_id e) (submitted q)))"
    using length_delete_present [OF d] Some by simp
  show ?thesis
    using assms Some m l set_delete_subset [of "elem_id e" "submitted q"]
    by (auto simp: NodeQueue_Unsubmit_def nq_inv_def nq_all_def nq_waiting_def nq_ready_def
        delete_conv')
qed

lemma nq_Ready_spec:
  assumes "nq_inv newID q" and "valid_elem newID n e"
    and "map_of (submitted q) (elem_id e) \<noteq> None \<Longrightarrow> map_of (submitted q) (elem_id e) = Some e"
  shows "ensures (NodeQueue_Ready q e) (\<lambda>(b, q').
           nq_inv newID q' \<and> nodeID q' = nodeID q \<and> nq_size q' = nq_size q \<and>
           b = (map_of (submitted q) (elem_id e) \<noteq> None) \<and> nq_all q' = nq_all q \<and>
           nq_ready q' = (if b then add_mset e (nq_ready q) else nq_ready q) \<and>
           map_of (submitted q') (elem_id e) = None)"
proof (cases "map_of (submitted q) (elem_id e)")
  case None
  with assms show ?thesis by (simp add: NodeQueue_Ready_def)
next
  case (Some e')
  then have Some: "map_of (submitted q) (elem_id e) = Some e" using assms(3) by simp
  have d: "distinct (map fst (submitted q))" using assms by (simp add: nq_inv_def)
  have m: "mset (submitted q) = add_mset (elem_id e, e) (mset (AList.delete (elem_id e) (submitted q)))"
    using mset_delete_present [OF d Some] .
  have l: "length (submitted q) = Suc (length (AList.delete (elem_id e) (submitted q)))"
    using length_delete_present [OF d] Some by simp
  have v: "valid_elem newID (nodeID q) e"
    using assms(1) map_of_SomeD [OF Some] by (auto simp: nq_inv_def)
  have hp: "heap_to ElementHeap_Less (ElementHeap_Push e (inbox q)) (Suc (length (inbox q)))"
    using element_heap.is_heap_push [of "inbox q" e] assms(1) by (simp add: nq_inv_def)
  show ?thesis
    using assms Some m l v hp set_delete_subset [of "elem_id e" "submitted q"]
    by (auto simp: NodeQueue_Ready_def nq_inv_def nq_all_def nq_waiting_def nq_ready_def
        delete_conv')
qed

lemma nq_Front_iff: "NodeQueue_Front (Some q) = None \<longleftrightarrow> nq_ready q = {#}"
  by (auto simp: nq_ready_def split: list.split)

lemma nq_Front_least:
  assumes "nq_inv newID q" and "NodeQueue_Front (Some q) = Some e"
  shows "e \<in># nq_ready q" and "\<forall>e' \<in># nq_ready q. IssuingTime e \<le> IssuingTime e'"
proof -
  have h: "is_heap ElementHeap_Less (inbox q)" using assms(1) by (simp add: nq_inv_def)
  from assms(2) have e: "inbox q \<noteq> []" "e = inbox q ! 0" by (auto split: list.splits)
  then show "e \<in># nq_ready q" by (simp add: nq_ready_def)
  show "\<forall>e' \<in># nq_ready q. IssuingTime e \<le> IssuingTime e'"
    using element_heap.heap_root_least [OF h] e
    by (auto simp: nq_ready_def in_set_conv_nth ElementHeap_Less_def not_less)
qed

lemma nq_PopFront_spec:
  assumes "nq_inv newID q" and "nq_ready q \<noteq> {#}"
  shows "ensures (NodeQueue_PopFront q) (\<lambda>(e, q').
           nq_inv newID q' \<and> nodeID q' = nodeID q \<and> submitted q' = submitted q \<and>
           NodeQueue_Front (Some q) = Some e \<and>
           nq_ready q = add_mset e (nq_ready q') \<and> nq_all q = add_mset e (nq_all q') \<and>
           nq_size q' = nq_size q - 1)"
  unfolding NodeQueue_PopFront_def
proof (rule ensures_bindE)
  show "ensures (ElementHeap_Pop (inbox q)) (\<lambda>(x, h').
          x = hd (inbox q) \<and> mset (inbox q) = add_mset x (mset h') \<and>
          is_heap ElementHeap_Less h' \<and> (\<forall>y \<in> set (inbox q). \<not> ElementHeap_Less y x))"
    using assms by (intro element_heap.heap_pop_spec) (auto simp: nq_inv_def nq_ready_def)
next
  fix r assume r: "case r of (x, h') \<Rightarrow> x = hd (inbox q) \<and> mset (inbox q) = add_mset x (mset h') \<and>
          is_heap ElementHeap_Less h' \<and> (\<forall>y \<in> set (inbox q). \<not> ElementHeap_Less y x)"
  obtain x h' where x: "r = (x, h')" by (cases r)
  from r x have m: "mset (inbox q) = add_mset x (mset h')" by simp
  then have len: "length (inbox q) = Suc (length h')" by (metis size_mset size_add_mset)
  have set: "set (inbox q) = insert x (set h')" using m by (metis set_mset_add_mset_insert set_mset_mset)
  have ne: "inbox q \<noteq> []" using assms(2) by (auto simp: nq_ready_def)
  show "ensures (case r of (e, h) \<Rightarrow> ok (e, q\<lparr>inbox := h, nq_size := nq_size q - 1\<rparr>)) (\<lambda>(e, q').
           nq_inv newID q' \<and> nodeID q' = nodeID q \<and> submitted q' = submitted q \<and>
           NodeQueue_Front (Some q) = Some e \<and>
           nq_ready q = add_mset e (nq_ready q') \<and> nq_all q = add_mset e (nq_all q') \<and>
           nq_size q' = nq_size q - 1)"
    using r x m len set ne assms(1)
    by (auto simp: nq_inv_def nq_ready_def nq_all_def nq_waiting_def split: list.splits)
qed

lemma idsOfInbox_valid:
  "\<forall>e \<in> set es. valid_elem newID n e \<Longrightarrow> idsOfInbox es = ok (map elem_id es)"
  by (induction es) auto

lemma nq_IDs_spec:
  assumes "nq_inv newID q" and "mset (ord (submitted q)) = mset (submitted q)"
  shows "ensures (NodeQueue_IDs ord q) (\<lambda>is. mset is = image_mset elem_id (nq_all q))"
proof -
  have "idsOfInbox (inbox q) = ok (map elem_id (inbox q))"
    using assms(1) by (intro idsOfInbox_valid) (auto simp: nq_inv_def)
  moreover have "image_mset fst (mset (submitted q)) = image_mset elem_id (image_mset snd (mset (submitted q)))"
    using assms(1) by (auto simp: nq_inv_def multiset.map_comp intro!: image_mset_cong)
  ultimately show ?thesis
    using assms(2) by (simp add: NodeQueue_IDs_def nq_all_def nq_waiting_def nq_ready_def)
qed

section \<open>Properties\<close>

text \<open>A pop of a node queue that has a ready block delivers a ready block than which no
  ready block was issued earlier, takes exactly that block out, and keeps the queue's invariant.\<close>

theorem nodequeue_pop_oldest:
  assumes "nq_inv newID q" and "inbox q \<noteq> []"
  shows "\<exists>e q'. NodeQueue_PopFront q = ok (e, q') \<and> nq_inv newID q' \<and>
    (\<forall>e' \<in> set (inbox q). IssuingTime e \<le> IssuingTime e') \<and>
    mset (inbox q) = add_mset e (mset (inbox q')) \<and> submitted q' = submitted q \<and>
    NodeQueue_Size (Some q') = NodeQueue_Size (Some q) - 1"
proof -
  have "nq_ready q \<noteq> {#}" using assms(2) by (simp add: nq_ready_def)
  from nq_PopFront_spec [OF assms(1) this] obtain e q' where
    e: "NodeQueue_PopFront q = ok (e, q')" "nq_inv newID q'" "submitted q' = submitted q"
      "NodeQueue_Front (Some q) = Some e" "nq_ready q = add_mset e (nq_ready q')" "nq_size q' = nq_size q - 1"
    by (auto simp: ensures_def)
  with nq_Front_least [OF assms(1) e(4)] show ?thesis by (auto simp: nq_ready_def)
qed

definition demo_elem :: "byte \<Rightarrow> byte \<Rightarrow> int \<Rightarrow> gotime \<Rightarrow> Element" where
  "demo_elem node i sz t =
     \<lparr>IDBytes = replicate 40 i, elem_Size = sz, IssuerPublicKey = [node], IssuingTime = t\<rparr>"

definition demo_queue :: NodeQueue where
  "demo_queue = \<lparr>nodeID = [1], submitted = [(replicate 40 9, demo_elem 1 9 10 1)],
     inbox = [demo_elem 1 5 10 3, demo_elem 1 6 10 7, demo_elem 1 7 10 4], nq_size = 4\<rparr>"

lemma demo_queue_inv: "nq_inv id demo_queue"
  by (auto simp: nq_inv_def demo_queue_def demo_elem_def elem_id_def valid_elem_def ElementIDLength_def
      heap_to_def ElementHeap_Less_def less_Suc_eq numeral_3_eq_3)

lemma nodequeue_pop_oldest_witness:
  "\<exists>e q'. NodeQueue_PopFront demo_queue = ok (e, q') \<and> nq_inv id q' \<and>
    (\<forall>e' \<in> set (inbox demo_queue). IssuingTime e \<le> IssuingTime e')"
proof -
  have "inbox demo_queue \<noteq> []" by (simp add: demo_queue_def)
  from nodequeue_pop_oldest [OF demo_queue_inv this] show ?thesis by blast
qed

end
