(* ===== verification/Ring.thy ===== *)
theory Ring
  imports Prelude
begin

text \<open>
  The circular list of Go's standard library (container/ring): cells with a
  next and a prev pointer and a value, kept in a store indexed by addresses.
  is_ring says that a list of addresses is the ring in next order.  The two
  loop shapes the repository walks a ring with are for_ring (once around, from a start
  cell back to it) and for_until (up to a stop cell); ring_cursor is the
  interface of a structure with a current cell that they are proved correct for.
\<close>

section \<open>Cells\<close>

type_synonym addr = nat

record 'v ring_store =
  ring_next :: "addr \<Rightarrow> addr"
  ring_prev :: "addr \<Rightarrow> addr"
  ring_value :: "addr \<Rightarrow> 'v"
  ring_fresh :: addr

text \<open>ring.New(1) with its value set.\<close>

definition ring_New :: "'v \<Rightarrow> 'v ring_store \<Rightarrow> addr \<times> 'v ring_store" where
  "ring_New v h =
     (let p = ring_fresh h
      in (p, h\<lparr>ring_next := (ring_next h)(p := p), ring_prev := (ring_prev h)(p := p),
               ring_value := (ring_value h)(p := v), ring_fresh := p + 1\<rparr>))"

text \<open>r.Link(s) for a non-nil s: the assignments in program order.\<close>

definition ring_Link :: "addr \<Rightarrow> addr \<Rightarrow> 'v ring_store \<Rightarrow> addr \<times> 'v ring_store" where
  "ring_Link r s h =
     (let n = ring_next h r;
          p = ring_prev h s;
          h1 = h\<lparr>ring_next := (ring_next h)(r := s)\<rparr>;
          h2 = h1\<lparr>ring_prev := (ring_prev h1)(s := r)\<rparr>;
          h3 = h2\<lparr>ring_prev := (ring_prev h2)(n := p)\<rparr>;
          h4 = h3\<lparr>ring_next := (ring_next h3)(p := n)\<rparr>
      in (n, h4))"

definition ring_put :: "addr \<Rightarrow> 'v \<Rightarrow> 'v ring_store \<Rightarrow> 'v ring_store" where
  "ring_put a v h = h\<lparr>ring_value := (ring_value h)(a := v)\<rparr>"

definition is_ring :: "'v ring_store \<Rightarrow> addr list \<Rightarrow> bool" where
  "is_ring h xs \<longleftrightarrow>
     xs \<noteq> [] \<and> distinct xs \<and> map (ring_next h) xs = rotate1 xs \<and>
     map (ring_prev h) (rotate1 xs) = xs \<and> (\<forall>x \<in> set xs. x < ring_fresh h)"

lemma ring_put_simps [simp]:
  "ring_next (ring_put a v h) = ring_next h" "ring_prev (ring_put a v h) = ring_prev h"
  "ring_fresh (ring_put a v h) = ring_fresh h"
  "ring_value (ring_put a v h) = (ring_value h)(a := v)"
  by (simp_all add: ring_put_def)

lemma is_ring_put [simp]: "is_ring (ring_put a v h) xs \<longleftrightarrow> is_ring h xs"
  by (simp add: is_ring_def)

lemma is_ring_distinct: "is_ring h xs \<Longrightarrow> distinct xs"
  by (simp add: is_ring_def)

lemma is_ring_rotate1: "is_ring h xs \<Longrightarrow> is_ring h (rotate1 xs)"
  by (simp add: is_ring_def rotate1_map [symmetric])

lemma is_ring_next:
  "is_ring h (x # xs) \<Longrightarrow> ring_next h x = hd (xs @ [x])"
  unfolding is_ring_def by (cases xs) auto

lemma is_ring_prev:
  "is_ring h (x # xs) \<Longrightarrow> ring_prev h x = last (x # xs)"
  by (cases xs rule: rev_cases) (auto simp: is_ring_def)

lemma length_is_ring: "is_ring h xs \<Longrightarrow> length xs \<le> ring_fresh h"
proof -
  assume r: "is_ring h xs"
  then have "set xs \<subseteq> {..<ring_fresh h}" by (auto simp: is_ring_def)
  then have "card (set xs) \<le> ring_fresh h" using card_mono [of "{..<ring_fresh h}"] by simp
  with r show ?thesis by (simp add: is_ring_def distinct_card)
qed

lemma is_ring_single:
  "ring_New v h = (p, h') \<Longrightarrow> is_ring h' [p]"
  by (auto simp: ring_New_def Let_def is_ring_def)

text \<open>A new cell linked before the current one becomes the last in ring order.\<close>

lemma is_ring_insert:
  assumes "is_ring h (x # xs)" and "ring_New v h = (p, h')"
  shows "is_ring (snd (ring_Link p x h')) (x # xs @ [p])" and "fst (ring_Link p x h') = p"
    and "ring_value (snd (ring_Link p x h')) = (ring_value h)(p := v)"
proof -
  have p: "p = ring_fresh h" using assms(2) by (simp add: ring_New_def Let_def)
  have notin: "p \<notin> set (x # xs)" using assms(1) p by (auto simp: is_ring_def)
  have prev: "ring_prev h x = last (x # xs)" using is_ring_prev [OF assms(1)] .
  have h': "ring_next h' = (ring_next h)(p := p)" "ring_prev h' = (ring_prev h)(p := p)"
    "ring_value h' = (ring_value h)(p := v)" "ring_fresh h' = p + 1"
    using assms(2) p by (auto simp: ring_New_def Let_def)
  show "fst (ring_Link p x h') = p" by (simp add: ring_Link_def Let_def h')
  show "ring_value (snd (ring_Link p x h')) = (ring_value h)(p := v)"
    by (simp add: ring_Link_def Let_def h')
  let ?h = "snd (ring_Link p x h')"
  have nxt: "ring_next ?h = (ring_next h)(p := x, last (x # xs) := p)"
    using notin prev by (auto simp: ring_Link_def Let_def h')
  have prv: "ring_prev ?h = (ring_prev h)(x := p, p := last (x # xs))"
    using notin prev by (auto simp: ring_Link_def Let_def h')
  have fr: "ring_fresh ?h = p + 1" by (simp add: ring_Link_def Let_def h')
  have d: "distinct (x # xs)" and fresh: "\<forall>y \<in> set (x # xs). y < p"
    and nm: "map (ring_next h) (x # xs) = xs @ [x]" and pm: "map (ring_prev h) (xs @ [x]) = x # xs"
    using assms(1) p by (auto simp: is_ring_def)
  show "is_ring ?h (x # xs @ [p])"
  proof (cases xs rule: rev_cases)
    case Nil
    then show ?thesis using nxt prv fr d fresh notin by (auto simp: is_ring_def)
  next
    case (snoc ys y)
    have "map (ring_next ?h) (x # xs @ [p]) = xs @ [p, x]"
      using snoc nm d notin nxt by auto
    moreover have "map (ring_prev ?h) (xs @ [p, x]) = x # xs @ [p]"
      using snoc pm d notin prv by auto
    ultimately show ?thesis using d fresh notin fr by (auto simp: is_ring_def)
  qed
qed

text \<open>Linking the predecessor of the current cell to its successor takes it out.\<close>

lemma is_ring_remove:
  assumes "is_ring h (x # y # xs)"
  shows "is_ring (snd (ring_Link (ring_prev h x) (ring_next h x) h)) (y # xs)"
    and "ring_value (snd (ring_Link (ring_prev h x) (ring_next h x) h)) = ring_value h"
proof -
  have prev: "ring_prev h x = last (y # xs)" using is_ring_prev [OF assms(1)] by simp
  have nextx: "ring_next h x = y" using is_ring_next [OF assms(1)] by simp
  have d: "distinct (x # y # xs)" and fresh: "\<forall>z \<in> set (x # y # xs). z < ring_fresh h"
    and nm: "map (ring_next h) (x # y # xs) = (y # xs) @ [x]"
    and pm: "map (ring_prev h) ((y # xs) @ [x]) = x # y # xs"
    using assms(1) by (auto simp: is_ring_def)
  have nl: "ring_next h (last (y # xs)) = x"
    using nm by (cases xs rule: rev_cases) auto
  have py: "ring_prev h y = x" using pm by simp
  let ?h = "snd (ring_Link (ring_prev h x) (ring_next h x) h)"
  show "ring_value ?h = ring_value h" by (simp add: ring_Link_def Let_def)
  have nxt: "ring_next ?h = (ring_next h)(last (y # xs) := y, x := x)"
    by (simp add: ring_Link_def Let_def prev nextx nl py del: last.simps)
  have prv: "ring_prev ?h = (ring_prev h)(y := last (y # xs), x := x)"
    by (simp add: ring_Link_def Let_def prev nextx nl py del: last.simps)
  have fr: "ring_fresh ?h = ring_fresh h" by (simp add: ring_Link_def Let_def)
  show "is_ring ?h (y # xs)"
  proof (cases xs rule: rev_cases)
    case Nil
    then show ?thesis using nxt prv fr d fresh by (auto simp: is_ring_def)
  next
    case (snoc zs z)
    have "map (ring_next ?h) (y # xs) = xs @ [y]"
      using snoc nm d nxt by auto
    moreover have "map (ring_prev ?h) (xs @ [y]) = y # xs"
      using snoc pm d prv by auto
    ultimately show ?thesis using d fresh fr by (auto simp: is_ring_def)
  qed
qed

section \<open>Loops around a ring\<close>

text \<open>
  for q := start; ; { body; q = Next(); if q == start { break } }: the loop-local
  variables are l, the structure holding the ring is b.  The fuel bounds the
  iterations; running out of it is the loop not ending.
\<close>

fun for_ring ::
  "nat \<Rightarrow> ('b \<Rightarrow> addr option \<times> 'b) \<Rightarrow> addr \<Rightarrow> (addr \<Rightarrow> 'l \<times> 'b \<Rightarrow> ('l \<times> 'b) go) \<Rightarrow>
   addr \<Rightarrow> 'l \<times> 'b \<Rightarrow> ('l \<times> 'b) go" where
  "for_ring 0 nxt start body q s = fail Diverges"
| "for_ring (Suc n) nxt start body q s =
     bindE (body q s) (\<lambda>(l, b).
       case nxt b of
         (None, b') \<Rightarrow> fail NilDereference
       | (Some q', b') \<Rightarrow> if q' = start then ok (l, b') else for_ring n nxt start body q' (l, b'))"

text \<open>for q := start; q != stop; q = Next() { body }.\<close>

fun for_until ::
  "nat \<Rightarrow> ('b \<Rightarrow> addr option \<times> 'b) \<Rightarrow> addr \<Rightarrow> (addr \<Rightarrow> 'b \<Rightarrow> 'b go) \<Rightarrow> addr \<Rightarrow> 'b \<Rightarrow> 'b go" where
  "for_until n nxt stop body q b =
     (if q = stop then ok b
      else case n of
        0 \<Rightarrow> fail Diverges
      | Suc m \<Rightarrow> bindE (body q b) (\<lambda>b1.
          case nxt b1 of
            (None, b2) \<Rightarrow> fail NilDereference
          | (Some q', b2) \<Rightarrow> for_until m nxt stop body q' b2))"

declare for_until.simps [simp del]

section \<open>A cursor on a ring\<close>

text \<open>
  order b xs: from the current cell of b the ring is xs;
  same b b': the two differ in the current cell only.
\<close>

locale ring_cursor =
  fixes nxt :: "'b \<Rightarrow> addr option \<times> 'b"
    and order :: "'b \<Rightarrow> addr list \<Rightarrow> bool"
    and same :: "'b \<Rightarrow> 'b \<Rightarrow> bool"
  assumes nxt_ok: "order b (x # xs) \<Longrightarrow>
      \<exists>b'. nxt b = (Some (hd (xs @ [x])), b') \<and> order b' (xs @ [x]) \<and> same b b'"
    and order_distinct: "order b xs \<Longrightarrow> distinct xs"
begin

text \<open>
  Rule for a full round: I ys l b holds after the cells ys have been
  visited; it must not depend on which cell is current.
\<close>

lemma for_ring_step:
  assumes "order b (x # zs @ ys)" and "distinct (ys @ x # zs)"
    and n: "length (x # zs) \<le> n"
    and I: "I ys l b"
    and stable: "\<And>ys l b b'. I ys l b \<Longrightarrow> same b b' \<Longrightarrow> I ys l b'"
    and step: "\<And>us y vs l b. ys @ x # zs = us @ y # vs \<Longrightarrow> I us l b \<Longrightarrow> order b (y # vs @ us) \<Longrightarrow>
        ensures (body y (l, b)) (\<lambda>(l', b'). order b' (y # vs @ us) \<and> I (us @ [y]) l' b')"
  shows "ensures (for_ring n nxt (hd (ys @ [x])) body x (l, b))
           (\<lambda>(l', b'). order b' (ys @ x # zs) \<and> I (ys @ x # zs) l' b')"
  using assms
proof (induction zs arbitrary: ys x n l b)
  case (Cons z zs)
  then obtain m where m: "n = Suc m" by (cases n) auto
  have body: "ensures (body x (l, b)) (\<lambda>(l', b'). order b' (x # (z # zs) @ ys) \<and> I (ys @ [x]) l' b')"
    using Cons.prems by (intro Cons.prems(6)) auto
  have "z \<noteq> hd (ys @ [x])" using Cons.prems(2) by (cases ys) auto
  show ?case unfolding m for_ring.simps
  proof (rule ensures_bindE [OF body], clarify)
    fix l' b' assume b': "order b' (x # (z # zs) @ ys)" "I (ys @ [x]) l' b'"
    from nxt_ok [OF b'(1)] obtain b2 where
      b2: "nxt b' = (Some z, b2)" "order b2 (z # zs @ ys @ [x])" "same b' b2" by auto
    have "ensures (for_ring m nxt (hd ((ys @ [x]) @ [z])) body z (l', b2))
            (\<lambda>(l', b'). order b' ((ys @ [x]) @ z # zs) \<and> I ((ys @ [x]) @ z # zs) l' b')"
      using Cons.prems b2 b' m
      by (intro Cons.IH) (auto simp: stable intro: Cons.prems(5))
    moreover have "hd ((ys @ [x]) @ [z]) = hd (ys @ [x])" by (cases ys) auto
    ultimately show "ensures
         (case nxt b' of (None, b'a) \<Rightarrow> fail NilDereference
          | (Some q', b'a) \<Rightarrow>
              if q' = hd (ys @ [x]) then ok (l', b'a)
              else for_ring m nxt (hd (ys @ [x])) body q' (l', b'a))
         (\<lambda>(l', b'). order b' (ys @ x # z # zs) \<and> I (ys @ x # z # zs) l' b')"
      using b2 \<open>z \<noteq> hd (ys @ [x])\<close> by simp
  qed
next
  case Nil
  then obtain m where m: "n = Suc m" by (cases n) auto
  have body: "ensures (body x (l, b)) (\<lambda>(l', b'). order b' (x # [] @ ys) \<and> I (ys @ [x]) l' b')"
    using Nil.prems by (intro Nil.prems(6)) auto
  show ?case unfolding m for_ring.simps
  proof (rule ensures_bindE [OF body], clarify)
    fix l' b' assume b': "order b' (x # [] @ ys)" "I (ys @ [x]) l' b'"
    from nxt_ok [of b' x ys] b' obtain b2 where
      b2: "nxt b' = (Some (hd (ys @ [x])), b2)" "order b2 (ys @ [x])" "same b' b2" by auto
    then show "ensures
         (case nxt b' of (None, b'a) \<Rightarrow> fail NilDereference
          | (Some q', b'a) \<Rightarrow>
              if q' = hd (ys @ [x]) then ok (l', b'a)
              else for_ring m nxt (hd (ys @ [x])) body q' (l', b'a))
         (\<lambda>(l', b'). order b' (ys @ [x]) \<and> I (ys @ [x]) l' b')"
      using Nil.prems(5) [OF b'(2) b2(3)] by simp
  qed
qed

lemma for_ring_rule:
  assumes "order b xs" and "xs \<noteq> []" and "length xs \<le> n" and "I [] l b"
    and "\<And>ys l b b'. I ys l b \<Longrightarrow> same b b' \<Longrightarrow> I ys l b'"
    and "\<And>us y vs l b. xs = us @ y # vs \<Longrightarrow> I us l b \<Longrightarrow> order b (y # vs @ us) \<Longrightarrow>
        ensures (body y (l, b)) (\<lambda>(l', b'). order b' (y # vs @ us) \<and> I (us @ [y]) l' b')"
  shows "ensures (for_ring n nxt (hd xs) body (hd xs) (l, b)) (\<lambda>(l', b'). order b' xs \<and> I xs l' b')"
proof -
  obtain x zs where xs: "xs = x # zs" using assms(2) by (cases xs) auto
  have "distinct xs" using assms(1) by (rule order_distinct)
  then show ?thesis
    using for_ring_step [of b x zs "[]" n I l body] assms xs by simp
qed

text \<open>Rule for the cells before the stop cell.\<close>

lemma for_until_rule:
  assumes "order b (zs @ stop # ws @ ys)" and "distinct (ys @ zs @ stop # ws)"
    and "length zs \<le> n" and "I ys b"
    and "\<And>ys b b'. I ys b \<Longrightarrow> same b b' \<Longrightarrow> I ys b'"
    and "\<And>us y vs b. ys @ zs = us @ y # vs \<Longrightarrow> I us b \<Longrightarrow> order b (y # vs @ stop # ws @ us) \<Longrightarrow>
        ensures (body y b) (\<lambda>b'. order b' (y # vs @ stop # ws @ us) \<and> I (us @ [y]) b')"
  shows "ensures (for_until n nxt stop body (hd (zs @ [stop])) b)
           (\<lambda>b'. order b' (stop # ws @ ys @ zs) \<and> I (ys @ zs) b')"
  using assms
proof (induction zs arbitrary: ys n b)
  case Nil
  then show ?case by (subst for_until.simps) simp
next
  case (Cons z zs)
  then obtain m where m: "n = Suc m" by (cases n) auto
  have ne: "z \<noteq> stop" using Cons.prems(2) by auto
  have body: "ensures (body z b) (\<lambda>b'. order b' (z # zs @ stop # ws @ ys) \<and> I (ys @ [z]) b')"
    using Cons.prems by (intro Cons.prems(6)) auto
  show ?case
    unfolding m
  proof (subst for_until.simps, simp add: ne, rule ensures_bindE [OF body], clarify)
    fix b' assume b': "order b' (z # zs @ stop # ws @ ys)" "I (ys @ [z]) b'"
    from nxt_ok [OF b'(1)] obtain b2 where
      b2: "nxt b' = (Some (hd (zs @ [stop])), b2)" "order b2 (zs @ stop # ws @ ys @ [z])" "same b' b2"
      by (cases zs) auto
    have "ensures (for_until m nxt stop body (hd (zs @ [stop])) b2)
            (\<lambda>b'. order b' (stop # ws @ (ys @ [z]) @ zs) \<and> I ((ys @ [z]) @ zs) b')"
      using Cons.prems b2 b' m by (intro Cons.IH) (auto intro: Cons.prems(5))
    then show "ensures
         (case nxt b' of (None, b2) \<Rightarrow> fail NilDereference
          | (Some q', b2) \<Rightarrow> for_until m nxt stop body q' b2)
         (\<lambda>b'. order b' (stop # ws @ ys @ z # zs) \<and> I (ys @ z # zs) b')"
      using b2 by simp
  qed
qed

end

end
