(* ===== verification/BufferQueue.thy ===== *)
theory BufferQueue
  imports NodeQueue Ring
begin

text \<open>
  packages/core/mesh_old/schedulerutils/bufferqueue.go: the scheduler's buffer, a
  ring of node queues walked round robin, indexed by activeNode.

  A *ring.Ring is an address into the store; each cell holds its own
  NodeQueue, so comparing two queue pointers (q == start) is comparing the
  addresses of their cells.  The mana retriever is a function mana to the rationals
  and rnd rounds the one floating-point division.
\<close>

section \<open>State\<close>

record BufferQueue =
  maxBuffer :: int
  maxQueue :: rat
  activeNode :: "(node_id \<times> addr) list"
  bq_ring :: "addr option"
  bq_size :: int
  bq_store :: "NodeQueue ring_store"

definition empty_store :: "NodeQueue ring_store" where
  "empty_store = \<lparr>ring_next = (\<lambda>_. 0), ring_prev = (\<lambda>_. 0),
     ring_value = (\<lambda>_. NewNodeQueue []), ring_fresh = 0\<rparr>"

definition NewBufferQueue :: "int \<Rightarrow> rat \<Rightarrow> BufferQueue" where
  "NewBufferQueue mb mq =
     \<lparr>maxBuffer = mb, maxQueue = mq, activeNode = [], bq_ring = None, bq_size = 0,
      bq_store = empty_store\<rparr>"

abbreviation bq_get :: "BufferQueue \<Rightarrow> addr \<Rightarrow> NodeQueue" where
  "bq_get b a \<equiv> ring_value (bq_store b) a"

definition bq_put :: "addr \<Rightarrow> NodeQueue \<Rightarrow> BufferQueue \<Rightarrow> BufferQueue" where
  "bq_put a q b = b\<lparr>bq_store := ring_put a q (bq_store b)\<rparr>"

datatype submit_error = BlockAlreadySubmitted

section \<open>Ring operations\<close>

definition ringInsert :: "NodeQueue \<Rightarrow> BufferQueue \<Rightarrow> addr \<times> BufferQueue" where
  "ringInsert v b =
     (let (p, h) = ring_New v (bq_store b)
      in case bq_ring b of
           None \<Rightarrow> (p, b\<lparr>bq_ring := Some p, bq_store := h\<rparr>)
         | Some r \<Rightarrow> (let (n, h') = ring_Link p r h in (n, b\<lparr>bq_store := h'\<rparr>)))"

definition ringRemove :: "addr \<Rightarrow> BufferQueue \<Rightarrow> BufferQueue go" where
  "ringRemove r b =
     (case bq_ring b of
        None \<Rightarrow> fail NilDereference
      | Some cur \<Rightarrow>
          (let n = ring_next (bq_store b) cur;
               link = (\<lambda>b. b\<lparr>bq_store := snd (ring_Link (ring_prev (bq_store b) r) n (bq_store b))\<rparr>)
           in if r = cur
              then if n = cur then ok (b\<lparr>bq_ring := None\<rparr>)
                   else ok (link (b\<lparr>bq_ring := Some n\<rparr>))
              else ok (link b)))"

definition BufferQueue_Next :: "BufferQueue \<Rightarrow> addr option \<times> BufferQueue" where
  "BufferQueue_Next b =
     (case bq_ring b of
        None \<Rightarrow> (None, b)
      | Some r \<Rightarrow> (let r' = ring_next (bq_store b) r in (Some r', b\<lparr>bq_ring := Some r'\<rparr>)))"

definition BufferQueue_Current :: "BufferQueue \<Rightarrow> addr option" where
  "BufferQueue_Current b = bq_ring b"

definition NumActiveNodes :: "BufferQueue \<Rightarrow> nat" where
  "NumActiveNodes b = length (activeNode b)"

definition BufferQueue_NodeQueue :: "BufferQueue \<Rightarrow> node_id \<Rightarrow> NodeQueue option" where
  "BufferQueue_NodeQueue b n = map_option (bq_get b) (map_of (activeNode b) n)"

text \<open>Walking the whole ring from the current queue, with loop variables l.\<close>

definition bq_round ::
  "(addr \<Rightarrow> 'l \<times> BufferQueue \<Rightarrow> ('l \<times> BufferQueue) go) \<Rightarrow> addr \<Rightarrow> 'l \<times> BufferQueue \<Rightarrow> ('l \<times> BufferQueue) go" where
  "bq_round body start s = for_ring (ring_fresh (bq_store (snd s))) BufferQueue_Next start body start s"

section \<open>Submitting and dropping\<close>

definition BufferQueue_Unsubmit ::
  "(pubkey \<Rightarrow> node_id) \<Rightarrow> BufferQueue \<Rightarrow> Element \<Rightarrow> (bool \<times> BufferQueue) go" where
  "BufferQueue_Unsubmit newID b e =
     (case map_of (activeNode b) (newID (IssuerPublicKey e)) of
        None \<Rightarrow> ok (False, b)
      | Some a \<Rightarrow> bindE (NodeQueue_Unsubmit (bq_get b a) e) (\<lambda>(done, q).
          if done then ok (True, (bq_put a q b)\<lparr>bq_size := bq_size b - 1\<rparr>) else ok (False, b)))"

text \<open>The scan for the longest mana-scaled queue.\<close>

definition longest_step ::
  "(rat \<Rightarrow> rat) \<Rightarrow> (node_id \<Rightarrow> rat) \<Rightarrow> addr \<Rightarrow> (fval \<times> node_id) \<times> BufferQueue \<Rightarrow>
   ((fval \<times> node_id) \<times> BufferQueue) go" where
  "longest_step rnd mana a = (\<lambda>((maxScale, maxNodeID), b).
     (let q = bq_get b a; nodeMana = mana (nodeID q)
      in if 0 < nodeMana
         then (let scale = Fin (rnd (of_int (nq_size q) / nodeMana))
               in if maxScale < scale then ok ((scale, nodeID q), b)
                  else ok ((maxScale, maxNodeID), b))
         else if 0 < nq_size q then ok ((PosInf, nodeID q), b)
         else ok ((maxScale, maxNodeID), b)))"

fun oldestSubmitted :: "Element option \<Rightarrow> (ElementID \<times> Element) list \<Rightarrow> Element option" where
  "oldestSubmitted old [] = old"
| "oldestSubmitted old ((_, v) # m) =
     (case old of
        None \<Rightarrow> oldestSubmitted (Some v) m
      | Some o' \<Rightarrow> oldestSubmitted (if IssuingTime v < IssuingTime o' then Some v else old) m)"

text \<open>One round of dropHead after the longest queue has been found.\<close>

definition dropOne ::
  "(pubkey \<Rightarrow> node_id) \<Rightarrow> ((ElementID \<times> Element) list \<Rightarrow> (ElementID \<times> Element) list) \<Rightarrow>
   node_id \<Rightarrow> BufferQueue \<Rightarrow> (ElementID \<times> BufferQueue) go" where
  "dropOne newID ord n b =
     (case map_of (activeNode b) n of
        None \<Rightarrow> fail NilDereference
      | Some a \<Rightarrow>
          (let q = bq_get b a;
               oldest = oldestSubmitted None (ord (submitted q));
               front = NodeQueue_Front (Some q);
               popReady = bindE (NodeQueue_PopFront q) (\<lambda>(e, q').
                 bindE (ElementIDFromBytes (IDBytes e)) (\<lambda>i.
                   ok (i, (bq_put a q' b)\<lparr>bq_size := bq_size b - 1\<rparr>)))
           in case (oldest, front) of
                (None, None) \<Rightarrow> fail (Raised ''scheduler buffer size exceeded and the longest scheduler queue is empty.'')
              | (None, Some _) \<Rightarrow> popReady
              | (Some e, fr) \<Rightarrow>
                  if (case fr of None \<Rightarrow> True | Some f \<Rightarrow> IssuingTime e < IssuingTime f)
                  then bindE (ElementIDFromBytes (IDBytes e)) (\<lambda>i.
                         bindE (BufferQueue_Unsubmit newID b e) (\<lambda>(_, b'). ok (i, b')))
                  else popReady))"

fun dropHead_loop ::
  "(pubkey \<Rightarrow> node_id) \<Rightarrow> ((ElementID \<times> Element) list \<Rightarrow> (ElementID \<times> Element) list) \<Rightarrow>
   (rat \<Rightarrow> rat) \<Rightarrow> (node_id \<Rightarrow> rat) \<Rightarrow> addr \<Rightarrow> nat \<Rightarrow> ElementID list \<Rightarrow> BufferQueue \<Rightarrow>
   (ElementID list \<times> BufferQueue) go" where
  "dropHead_loop newID ord rnd mana start fuel dropped b =
     (if bq_size b \<le> maxBuffer b then ok (dropped, b)
      else case fuel of
        0 \<Rightarrow> fail Diverges
      | Suc m \<Rightarrow>
          bindE (bq_round (longest_step rnd mana) start ((NegInf, replicate 32 0), b)) (\<lambda>((_, maxNodeID), b1).
          bindE (dropOne newID ord maxNodeID b1) (\<lambda>(i, b2).
          dropHead_loop newID ord rnd mana start m (dropped @ [i]) b2)))"

declare dropHead_loop.simps [simp del]

text \<open>
  Every round removes one block or leaves the buffer as it is, so a loop that takes more
  rounds than there are blocks in excess never ends.
\<close>

definition dropHead ::
  "(pubkey \<Rightarrow> node_id) \<Rightarrow> ((ElementID \<times> Element) list \<Rightarrow> (ElementID \<times> Element) list) \<Rightarrow>
   (rat \<Rightarrow> rat) \<Rightarrow> (node_id \<Rightarrow> rat) \<Rightarrow> BufferQueue \<Rightarrow> (ElementID list \<times> BufferQueue) go" where
  "dropHead newID ord rnd mana b =
     (if bq_size b \<le> maxBuffer b then ok ([], b)
      else case BufferQueue_Current b of
        None \<Rightarrow> fail NilDereference
      | Some start \<Rightarrow>
          dropHead_loop newID ord rnd mana start (nat (bq_size b - maxBuffer b)) [] b)"

definition BufferQueue_Submit ::
  "(pubkey \<Rightarrow> node_id) \<Rightarrow> ((ElementID \<times> Element) list \<Rightarrow> (ElementID \<times> Element) list) \<Rightarrow>
   (rat \<Rightarrow> rat) \<Rightarrow> BufferQueue \<Rightarrow> Element \<Rightarrow> (node_id \<Rightarrow> rat) \<Rightarrow>
   ((submit_error + ElementID list) \<times> BufferQueue) go" where
  "BufferQueue_Submit newID ord rnd b e mana =
     (let n = newID (IssuerPublicKey e);
          active = map_of (activeNode b) n;
          q = (case active of Some a \<Rightarrow> bq_get b a | None \<Rightarrow> NewNodeQueue n)
      in bindE (NodeQueue_Submit newID q e) (\<lambda>(done, q').
         if \<not> done then ok (Inl BlockAlreadySubmitted, b)
         else let b1 = (case active of
                          Some a \<Rightarrow> bq_put a q' b
                        | None \<Rightarrow> (let (p, b') = ringInsert q' b
                                   in b'\<lparr>activeNode := AList.update n p (activeNode b')\<rparr>));
                  b2 = b1\<lparr>bq_size := bq_size b1 + 1\<rparr>
              in if maxBuffer b2 < bq_size b2
                 then bindE (dropHead newID ord rnd mana b2) (\<lambda>(ids, b3). ok (Inr ids, b3))
                 else ok (Inr [], b2)))"

definition BufferQueue_Ready ::
  "(pubkey \<Rightarrow> node_id) \<Rightarrow> BufferQueue \<Rightarrow> Element \<Rightarrow> (bool \<times> BufferQueue) go" where
  "BufferQueue_Ready newID b e =
     (case map_of (activeNode b) (newID (IssuerPublicKey e)) of
        None \<Rightarrow> ok (False, b)
      | Some a \<Rightarrow> bindE (NodeQueue_Ready (bq_get b a) e) (\<lambda>(done, q). ok (done, bq_put a q b)))"

section \<open>Counting, listing, adding and removing nodes\<close>

definition ReadyBlocksCount :: "BufferQueue \<Rightarrow> (int \<times> BufferQueue) go" where
  "ReadyBlocksCount b =
     (case BufferQueue_Current b of
        None \<Rightarrow> ok (0, b)
      | Some start \<Rightarrow> bq_round (\<lambda>a (c, b). ok (c + int (length (inbox (bq_get b a))), b)) start (0, b))"

definition TotalBlocksCount :: "BufferQueue \<Rightarrow> (int \<times> BufferQueue) go" where
  "TotalBlocksCount b =
     (case BufferQueue_Current b of
        None \<Rightarrow> ok (0, b)
      | Some start \<Rightarrow>
          bq_round (\<lambda>a (c, b). ok (c + int (length (inbox (bq_get b a)))
                                     + int (length (submitted (bq_get b a))), b)) start (0, b))"

definition BufferQueue_IDs ::
  "((ElementID \<times> Element) list \<Rightarrow> (ElementID \<times> Element) list) \<Rightarrow> BufferQueue \<Rightarrow> (ElementID list \<times> BufferQueue) go" where
  "BufferQueue_IDs ord b =
     (case BufferQueue_Current b of
        None \<Rightarrow> ok ([], b)
      | Some start \<Rightarrow>
          bq_round (\<lambda>a (ids, b). bindE (NodeQueue_IDs ord (bq_get b a)) (\<lambda>is. ok (ids @ is, b))) start ([], b))"

definition NodeIDs :: "BufferQueue \<Rightarrow> (node_id list \<times> BufferQueue) go" where
  "NodeIDs b =
     (case BufferQueue_Current b of
        None \<Rightarrow> ok ([], b)
      | Some start \<Rightarrow> bq_round (\<lambda>a (ns, b). ok (ns @ [nodeID (bq_get b a)], b)) start ([], b))"

definition InsertNode :: "node_id \<Rightarrow> BufferQueue \<Rightarrow> BufferQueue" where
  "InsertNode n b =
     (if map_of (activeNode b) n \<noteq> None then b
      else let (p, b') = ringInsert (NewNodeQueue n) b
           in b'\<lparr>activeNode := AList.update n p (activeNode b')\<rparr>)"

definition RemoveNode :: "node_id \<Rightarrow> BufferQueue \<Rightarrow> BufferQueue go" where
  "RemoveNode n b =
     (case map_of (activeNode b) n of
        None \<Rightarrow> ok b
      | Some a \<Rightarrow>
          bindE (ringRemove a (b\<lparr>bq_size := bq_size b - nq_size (bq_get b a)\<rparr>)) (\<lambda>b'.
            ok (b'\<lparr>activeNode := AList.delete n (activeNode b')\<rparr>)))"

definition BufferQueue_PopFront :: "BufferQueue \<Rightarrow> (Element \<times> BufferQueue) go" where
  "BufferQueue_PopFront b =
     (case BufferQueue_Current b of
        None \<Rightarrow> fail NilDereference
      | Some a \<Rightarrow> bindE (NodeQueue_PopFront (bq_get b a)) (\<lambda>(e, q).
          ok (e, (bq_put a q b)\<lparr>bq_size := bq_size b - 1\<rparr>)))"

section \<open>Invariant and abstraction\<close>

definition bq_order :: "BufferQueue \<Rightarrow> addr list \<Rightarrow> bool" where
  "bq_order b xs \<longleftrightarrow>
     (case bq_ring b of None \<Rightarrow> xs = [] | Some r \<Rightarrow> is_ring (bq_store b) xs \<and> hd xs = r)"

definition bq_wf :: "(pubkey \<Rightarrow> node_id) \<Rightarrow> BufferQueue \<Rightarrow> addr list \<Rightarrow> bool" where
  "bq_wf newID b xs \<longleftrightarrow>
     bq_order b xs \<and>
     (\<forall>a \<in> set xs. nq_inv newID (bq_get b a)) \<and>
     distinct (map (\<lambda>a. nodeID (bq_get b a)) xs) \<and>
     mset (activeNode b) = mset (map (\<lambda>a. (nodeID (bq_get b a), a)) xs) \<and>
     bq_size b = (\<Sum>a\<leftarrow>xs. nq_size (bq_get b a))"

text \<open>The cells in round robin order, and the queues in them: what the buffer stands for.\<close>

fun walk :: "nat \<Rightarrow> 'v ring_store \<Rightarrow> addr \<Rightarrow> addr \<Rightarrow> addr list" where
  "walk 0 h start q = []"
| "walk (Suc n) h start q =
     q # (if ring_next h q = start then [] else walk n h start (ring_next h q))"

definition bq_cells :: "BufferQueue \<Rightarrow> addr list" where
  "bq_cells b =
     (case bq_ring b of None \<Rightarrow> [] | Some r \<Rightarrow> walk (ring_fresh (bq_store b)) (bq_store b) r r)"

definition bq_queues :: "BufferQueue \<Rightarrow> NodeQueue list" where
  "bq_queues b = map (bq_get b) (bq_cells b)"

definition bq_inv :: "(pubkey \<Rightarrow> node_id) \<Rightarrow> BufferQueue \<Rightarrow> bool" where
  "bq_inv newID b \<longleftrightarrow> bq_wf newID b (bq_cells b)"

definition bq_content :: "BufferQueue \<Rightarrow> Element multiset" where
  "bq_content b = (\<Sum>q\<leftarrow>bq_queues b. nq_all q)"

lemma walk_is_ring:
  "is_ring h (x # zs @ ys) \<Longrightarrow> length (x # zs) \<le> n \<Longrightarrow> distinct (ys @ x # zs) \<Longrightarrow>
   walk n h (hd (ys @ [x])) x = x # zs"
proof (induction zs arbitrary: x ys n)
  case Nil
  then obtain m where "n = Suc m" by (cases n) auto
  moreover have "ring_next h x = hd (ys @ [x])" using is_ring_next [of h x ys] Nil by simp
  ultimately show ?case by simp
next
  case (Cons z zs)
  then obtain m where m: "n = Suc m" by (cases n) auto
  have nx: "ring_next h x = z" using is_ring_next [of h x "z # zs @ ys"] Cons.prems by simp
  have "is_ring h (z # zs @ (ys @ [x]))" using is_ring_rotate1 [OF Cons.prems(1)] by simp
  with Cons.IH [of z "ys @ [x]" m] Cons.prems m
  have "walk m h (hd ((ys @ [x]) @ [z])) z = z # zs" by simp
  moreover have "hd ((ys @ [x]) @ [z]) = hd (ys @ [x])" by (cases ys) auto
  moreover have "z \<noteq> hd (ys @ [x])" using Cons.prems(3) by (cases ys) auto
  ultimately show ?case using nx m by simp
qed

lemma bq_order_cells: "bq_order b xs \<Longrightarrow> bq_cells b = xs"
proof (cases "bq_ring b")
  case (Some r)
  moreover assume "bq_order b xs"
  ultimately have r: "is_ring (bq_store b) xs" "hd xs = r" by (auto simp: bq_order_def)
  then obtain zs where xs: "xs = r # zs" by (cases xs) (auto simp: is_ring_def)
  have "walk (ring_fresh (bq_store b)) (bq_store b) (hd ([] @ [r])) r = r # zs"
    using r xs length_is_ring [OF r(1)] by (intro walk_is_ring) (auto simp: is_ring_def)
  with Some xs show ?thesis by (simp add: bq_cells_def)
qed (simp add: bq_order_def bq_cells_def)

lemma bq_wf_order: "bq_wf newID b xs \<Longrightarrow> bq_order b xs"
  by (simp add: bq_wf_def)

lemma bq_wf_inv: "bq_wf newID b xs \<Longrightarrow> bq_inv newID b"
  using bq_order_cells [OF bq_wf_order] by (simp add: bq_inv_def)

lemma bq_wf_queues: "bq_wf newID b xs \<Longrightarrow> bq_queues b = map (bq_get b) xs"
  using bq_order_cells [OF bq_wf_order] by (simp add: bq_queues_def)

lemma bq_wf_content: "bq_wf newID b xs \<Longrightarrow> bq_content b = (\<Sum>a\<leftarrow>xs. nq_all (bq_get b a))"
  by (simp add: bq_content_def bq_wf_queues comp_def)

lemma bq_inv_wf: "bq_inv newID b \<Longrightarrow> bq_wf newID b (bq_cells b)"
  by (simp add: bq_inv_def)

lemma bq_wf_nq: "bq_wf newID b xs \<Longrightarrow> a \<in> set xs \<Longrightarrow> nq_inv newID (bq_get b a)"
  by (simp add: bq_wf_def)

lemma bq_wf_distinct: "bq_wf newID b xs \<Longrightarrow> distinct xs"
  by (auto simp: bq_wf_def bq_order_def is_ring_def split: option.splits)

lemma bq_wf_ring: "bq_wf newID b (x # xs) \<Longrightarrow> bq_ring b = Some x \<and> is_ring (bq_store b) (x # xs)"
  by (auto simp: bq_wf_def bq_order_def split: option.splits)

lemma bq_wf_ring_None: "bq_wf newID b xs \<Longrightarrow> bq_ring b = None \<longleftrightarrow> xs = []"
  by (auto simp: bq_wf_def bq_order_def is_ring_def split: option.splits)

lemma bq_wf_keys: "bq_wf newID b xs \<Longrightarrow> distinct (map fst (activeNode b))"
proof -
  assume wf: "bq_wf newID b xs"
  then have "mset (map fst (activeNode b)) = mset (map (\<lambda>a. nodeID (bq_get b a)) xs)"
    by (simp add: bq_wf_def multiset.map_comp comp_def)
  then have "distinct (map fst (activeNode b)) = distinct (map (\<lambda>a. nodeID (bq_get b a)) xs)"
    by (rule mset_eq_imp_distinct_iff)
  with wf show ?thesis by (simp add: bq_wf_def)
qed

lemma bq_wf_mset:
  "bq_wf newID b xs \<Longrightarrow> mset (activeNode b) = mset (map (\<lambda>a. (nodeID (bq_get b a), a)) xs)"
  by (simp add: bq_wf_def)

lemma bq_wf_active:
  assumes "bq_wf newID b xs"
  shows "map_of (activeNode b) n = Some a \<longleftrightarrow> a \<in> set xs \<and> nodeID (bq_get b a) = n"
  unfolding map_of_eq_Some_iff [OF bq_wf_keys [OF assms]] mset_eq_setD [OF bq_wf_mset [OF assms]]
  by auto

lemma bq_wf_inactive:
  assumes "bq_wf newID b xs"
  shows "map_of (activeNode b) n = None \<longleftrightarrow> n \<notin> (\<lambda>a. nodeID (bq_get b a)) ` set xs"
proof (cases "map_of (activeNode b) n")
  case None
  then show ?thesis using bq_wf_active [OF assms, of n] by auto
next
  case (Some a)
  then show ?thesis using bq_wf_active [OF assms, of n a] by auto
qed

lemma bq_wf_NumActiveNodes: "bq_wf newID b xs \<Longrightarrow> NumActiveNodes b = length xs"
  unfolding NumActiveNodes_def using mset_eq_length [OF bq_wf_mset] by simp

lemma bq_wf_New [simp]: "bq_wf newID (NewBufferQueue mb mq) []"
  by (simp add: bq_wf_def bq_order_def NewBufferQueue_def)

lemma bq_wf_size: "bq_wf newID b xs \<Longrightarrow> bq_size b = int (size (bq_content b))"
proof -
  assume wf: "bq_wf newID b xs"
  have "(\<Sum>a\<leftarrow>ys. nq_size (bq_get b a)) = int (size (\<Sum>a\<leftarrow>ys. nq_all (bq_get b a)))"
    if "set ys \<subseteq> set xs" for ys
    using that by (induction ys) (auto simp: nq_inv_size [OF bq_wf_nq [OF wf]])
  with wf show ?thesis by (simp add: bq_wf_content) (simp add: bq_wf_def)
qed

section \<open>The buffer as a ring cursor\<close>

definition bq_same :: "BufferQueue \<Rightarrow> BufferQueue \<Rightarrow> bool" where
  "bq_same b b' \<longleftrightarrow> b' = b\<lparr>bq_ring := bq_ring b'\<rparr>"

lemma bq_same_refl [simp]: "bq_same b b"
  by (simp add: bq_same_def)

lemma bq_sameD:
  assumes "bq_same b b'"
  shows "bq_get b' = bq_get b" "bq_size b' = bq_size b" "maxBuffer b' = maxBuffer b"
    "activeNode b' = activeNode b" "bq_store b' = bq_store b"
  by (subst assms [unfolded bq_same_def], simp)+

lemma bq_same_trans: "bq_same b b' \<Longrightarrow> bq_same b' b'' \<Longrightarrow> bq_same b b''"
  unfolding bq_same_def by (metis BufferQueue.surjective BufferQueue.update_convs(4))

lemma bq_same_eq: "bq_same b b' \<Longrightarrow> bq_ring b' = bq_ring b \<Longrightarrow> b' = b"
  by (simp add: bq_same_def)

interpretation bq: ring_cursor BufferQueue_Next bq_order bq_same
proof (unfold_locales, goal_cases)
  case (1 b x xs)
  then have r: "bq_ring b = Some x" "is_ring (bq_store b) (x # xs)"
    by (auto simp: bq_order_def split: option.splits)
  with is_ring_next [OF r(2)] is_ring_rotate1 [OF r(2)] show ?case
    by (simp add: BufferQueue_Next_def bq_order_def bq_same_def Let_def)
next
  case (2 b xs)
  then show ?case by (auto simp: bq_order_def is_ring_def split: option.splits)
qed

text \<open>A round whose body only reads the queues is a fold over them.\<close>

lemma bq_round_fold:
  assumes "bq_order b xs" and "xs \<noteq> []"
    and body: "\<And>a l b'. a \<in> set xs \<Longrightarrow> bq_same b b' \<Longrightarrow> body a (l, b') = ok (f a l, b')"
  shows "bq_round body (hd xs) (l, b) = ok (fold f xs l, b)"
proof -
  obtain r where r: "bq_ring b = Some r" "hd xs = r" "is_ring (bq_store b) xs"
    using assms by (auto simp: bq_order_def split: option.splits)
  have "ensures (for_ring (ring_fresh (bq_store b)) BufferQueue_Next (hd xs) body (hd xs) (l, b))
      (\<lambda>(l', b'). bq_order b' xs \<and> (l' = fold f xs l \<and> bq_same b b'))"
    using assms length_is_ring [OF r(3)]
    by (intro bq.for_ring_rule [where I = "\<lambda>ys l' b'. l' = fold f ys l \<and> bq_same b b'"])
      (auto intro: bq_same_trans)
  moreover have "b' = b" if "bq_order b' xs" "bq_same b b'" for b'
    using that r assms(2) by (intro bq_same_eq) (auto simp: bq_order_def split: option.splits)
  ultimately show ?thesis by (auto simp: bq_round_def ensures_def)
qed

lemma bq_round_current:
  assumes "bq_wf newID b xs"
    and "\<And>a l b'. a \<in> set xs \<Longrightarrow> bq_same b b' \<Longrightarrow> body a (l, b') = ok (f a l, b')"
  shows "(case BufferQueue_Current b of None \<Rightarrow> ok (l, b) | Some start \<Rightarrow> bq_round body start (l, b))
    = ok (fold f xs l, b)"
proof (cases xs)
  case Nil
  then show ?thesis using bq_wf_ring_None [OF assms(1)] by (simp add: BufferQueue_Current_def)
next
  case (Cons x ys)
  moreover have "bq_ring b = Some x" using assms(1) Cons bq_wf_ring by simp
  ultimately show ?thesis
    using bq_round_fold [OF bq_wf_order [OF assms(1)] _ assms(2)] by (simp add: BufferQueue_Current_def)
qed

lemma ReadyBlocksCount_wf:
  assumes "bq_wf newID b xs"
  shows "ReadyBlocksCount b = ok (\<Sum>a\<leftarrow>xs. int (size (nq_ready (bq_get b a))), b)"
  unfolding ReadyBlocksCount_def
  by (subst bq_round_current [OF assms, where f = "\<lambda>a c. c + int (size (nq_ready (bq_get b a)))"])
    (auto dest: bq_sameD simp: nq_ready_def fold_plus_sum_list)

lemma TotalBlocksCount_wf:
  assumes "bq_wf newID b xs"
  shows "TotalBlocksCount b = ok (bq_size b, b)"
  unfolding TotalBlocksCount_def
proof (subst bq_round_current [OF assms, where f = "\<lambda>a c. c + nq_size (bq_get b a)"])
  fix a l b' assume "a \<in> set xs" "bq_same b b'"
  then show "(\<lambda>(c, b). ok (c + int (length (inbox (bq_get b a)))
      + int (length (submitted (bq_get b a))), b)) (l, b') = ok (l + nq_size (bq_get b a), b')"
    using bq_wf_nq [OF assms] by (auto dest: bq_sameD simp: nq_inv_def)
next
  show "ok (fold (\<lambda>a c. c + nq_size (bq_get b a)) xs 0, b) = ok (bq_size b, b)"
    using assms by (simp add: fold_plus_sum_list bq_wf_def)
qed

lemma NodeIDs_wf:
  assumes "bq_wf newID b xs"
  shows "NodeIDs b = ok (map nodeID (bq_queues b), b)"
  unfolding NodeIDs_def
  by (subst bq_round_current [OF assms, where f = "\<lambda>a c. c @ [nodeID (bq_get b a)]"])
    (auto dest: bq_sameD simp: fold_append_concat bq_wf_queues [OF assms])

end
