(* ===== verification/BufferQueueLaws.thy ===== *)
theory BufferQueueLaws
  imports BufferQueue
begin

text \<open>
  What the operations of the buffer do: each keeps the invariant bq_inv and has the
  stated effect on the queues and on the blocks the buffer holds.
\<close>

section \<open>Replacing one queue\<close>

lemma bq_put_simps [simp]:
  "bq_get (bq_put a q b) = (bq_get b)(a := q)" "bq_ring (bq_put a q b) = bq_ring b"
  "maxBuffer (bq_put a q b) = maxBuffer b" "maxQueue (bq_put a q b) = maxQueue b"
  "activeNode (bq_put a q b) = activeNode b" "bq_size (bq_put a q b) = bq_size b"
  by (simp_all add: bq_put_def fun_eq_iff)

lemma bq_order_put [simp]:
  "bq_order (bq_put a q b) xs \<longleftrightarrow> bq_order b xs"
  "bq_order (b\<lparr>bq_size := s\<rparr>) xs \<longleftrightarrow> bq_order b xs"
  "bq_order (b\<lparr>activeNode := m\<rparr>) xs \<longleftrightarrow> bq_order b xs"
  by (simp_all add: bq_order_def bq_put_def split: option.split)

lemma sum_list_fun_upd:
  "distinct xs \<Longrightarrow> a \<in> set xs \<Longrightarrow>
   (\<Sum>x\<leftarrow>xs. f ((g(a := v)) x)) = (\<Sum>x\<leftarrow>xs. f (g x)) - f (g a) + (f v :: int)"
proof (induction xs)
  case (Cons x xs)
  show ?case
  proof (cases "x = a")
    case True
    then have "(\<Sum>x\<leftarrow>xs. f ((g(a := v)) x)) = (\<Sum>x\<leftarrow>xs. f (g x))"
      using Cons.prems by (intro arg_cong [where f = sum_list] map_cong) auto
    with True show ?thesis by (simp add: fun_upd_same del: fun_upd_apply)
  qed (use Cons in auto)
qed simp

lemma sum_list_fun_upd_mset:
  "distinct xs \<Longrightarrow> a \<in> set xs \<Longrightarrow>
   (\<Sum>x\<leftarrow>xs. f ((g(a := v)) x)) + f (g a) = (\<Sum>x\<leftarrow>xs. f (g x)) + (f v :: 'e multiset)"
proof (induction xs)
  case (Cons x xs)
  show ?case
  proof (cases "x = a")
    case True
    then have "(\<Sum>x\<leftarrow>xs. f ((g(a := v)) x)) = (\<Sum>x\<leftarrow>xs. f (g x))"
      using Cons.prems by (intro arg_cong [where f = sum_list] map_cong) auto
    with True show ?thesis by (simp add: fun_upd_same del: fun_upd_apply)
  qed (use Cons in \<open>auto simp: ac_simps\<close>)
qed simp

lemma bq_wf_put:
  assumes wf: "bq_wf newID b xs" and a: "a \<in> set xs"
    and q: "nq_inv newID q" "nodeID q = nodeID (bq_get b a)"
    and s: "s = bq_size b - nq_size (bq_get b a) + nq_size q"
  shows "bq_wf newID ((bq_put a q b)\<lparr>bq_size := s\<rparr>) xs"
proof -
  have same: "(\<lambda>x. nodeID (((bq_get b)(a := q)) x)) = (\<lambda>x. nodeID (bq_get b x))"
    using q by auto
  have same': "(\<lambda>x. (nodeID (((bq_get b)(a := q)) x), x)) = (\<lambda>x. (nodeID (bq_get b x), x))"
    using q by auto
  have "(\<Sum>x\<leftarrow>xs. nq_size (((bq_get b)(a := q)) x)) = s"
    using sum_list_fun_upd [OF bq_wf_distinct [OF wf] a, of nq_size "bq_get b" q] wf s
    by (simp add: bq_wf_def)
  with wf q show ?thesis
    by (auto simp: bq_wf_def same same' simp del: fun_upd_apply)
       (auto simp: bq_wf_def)
qed

lemma bq_content_put:
  assumes wf: "bq_wf newID b xs" and a: "a \<in> set xs"
    and wf': "bq_wf newID ((bq_put a q b)\<lparr>bq_size := s\<rparr>) xs"
  shows "bq_content ((bq_put a q b)\<lparr>bq_size := s\<rparr>) + nq_all (bq_get b a) = bq_content b + nq_all q"
  using sum_list_fun_upd_mset [OF bq_wf_distinct [OF wf] a, of nq_all "bq_get b" q]
  by (simp add: bq_wf_content [OF wf] bq_wf_content [OF wf'] del: fun_upd_apply)

lemma bq_size_self: "bq_put a q b = (bq_put a q b)\<lparr>bq_size := bq_size b\<rparr>"
  by (simp add: bq_put_def)

section \<open>Next, insert, remove\<close>

lemma bq_Next_wf:
  assumes "bq_wf newID b (x # xs)"
  shows "BufferQueue_Next b = (Some (hd (xs @ [x])), b\<lparr>bq_ring := Some (hd (xs @ [x]))\<rparr>)"
    and "bq_wf newID (b\<lparr>bq_ring := Some (hd (xs @ [x]))\<rparr>) (xs @ [x])"
proof -
  from bq.nxt_ok [OF bq_wf_order [OF assms]] obtain b' where
    b': "BufferQueue_Next b = (Some (hd (xs @ [x])), b')" "bq_order b' (xs @ [x])" "bq_same b b'"
    by blast
  have "bq_ring b' = Some (hd (xs @ [x]))"
    using b'(2) by (auto simp: bq_order_def split: option.splits)
  with b'(3) have e: "b' = b\<lparr>bq_ring := Some (hd (xs @ [x]))\<rparr>" by (simp add: bq_same_def)
  show "BufferQueue_Next b = (Some (hd (xs @ [x])), b\<lparr>bq_ring := Some (hd (xs @ [x]))\<rparr>)"
    using b'(1) e by simp
  show "bq_wf newID (b\<lparr>bq_ring := Some (hd (xs @ [x]))\<rparr>) (xs @ [x])"
    using b'(2) assms e by (auto simp: bq_wf_def)
qed

lemma bq_Next_None: "bq_wf newID b [] \<Longrightarrow> BufferQueue_Next b = (None, b)"
  using bq_wf_ring_None by (fastforce simp: BufferQueue_Next_def)

lemma ringInsert_spec:
  assumes "bq_order b xs" and "ringInsert v b = (p, b')"
  shows "bq_order b' (xs @ [p])" and "p \<notin> set xs" and "bq_get b' = (bq_get b)(p := v)"
    and "activeNode b' = activeNode b" and "bq_size b' = bq_size b" and "maxBuffer b' = maxBuffer b"
proof -
  obtain p0 h where new: "ring_New v (bq_store b) = (p0, h)" by (cases "ring_New v (bq_store b)")
  have p0: "p0 = ring_fresh (bq_store b)" using new by (simp add: ring_New_def Let_def)
  have "bq_order b' (xs @ [p]) \<and> p \<notin> set xs \<and> bq_get b' = (bq_get b)(p := v) \<and>
    activeNode b' = activeNode b \<and> bq_size b' = bq_size b \<and> maxBuffer b' = maxBuffer b"
  proof (cases "bq_ring b")
    case None
    with assms new is_ring_single [OF new] show ?thesis
      by (auto simp: ringInsert_def bq_order_def ring_New_def Let_def)
  next
    case (Some r)
    then obtain ys where xs: "xs = r # ys" and ring: "is_ring (bq_store b) (r # ys)"
      using assms(1) by (cases xs) (auto simp: bq_order_def is_ring_def)
    note ins = is_ring_insert [OF ring new]
    have notin: "p0 \<notin> set xs" using ring p0 xs by (auto simp: is_ring_def)
    have eq: "p = p0" "b' = b\<lparr>bq_store := snd (ring_Link p0 r h)\<rparr>"
      using assms(2) Some new ins(2)
      by (auto simp: ringInsert_def Let_def split: prod.splits)
    with ins Some xs notin show ?thesis by (auto simp: bq_order_def)
  qed
  then show "bq_order b' (xs @ [p])" and "p \<notin> set xs" and "bq_get b' = (bq_get b)(p := v)"
    and "activeNode b' = activeNode b" and "bq_size b' = bq_size b" and "maxBuffer b' = maxBuffer b"
    by auto
qed

text \<open>A queue for a new node is appended to the round robin order.\<close>

lemma bq_wf_insert:
  assumes wf: "bq_wf newID b xs" and new: "map_of (activeNode b) n = None"
    and q: "nq_inv newID q" "nodeID q = n" and ins: "ringInsert q b = (p, b')"
    and s: "s = bq_size b + nq_size q"
  shows "bq_wf newID (b'\<lparr>activeNode := AList.update n p (activeNode b'), bq_size := s\<rparr>) (xs @ [p])"
proof -
  note i = ringInsert_spec [OF bq_wf_order [OF wf] ins]
  have get: "bq_get b' a = bq_get b a" if "a \<in> set xs" for a using i that by auto
  have nodes: "map (\<lambda>a. nodeID (bq_get b' a)) xs = map (\<lambda>a. nodeID (bq_get b a)) xs"
    using get by auto
  have nm: "image_mset (\<lambda>a. (nodeID (bq_get b' a), a)) (mset xs) = image_mset (\<lambda>a. (nodeID (bq_get b a), a)) (mset xs)"
    using get by (auto intro!: image_mset_cong)
  have sz: "map (\<lambda>a. nq_size (bq_get b' a)) xs = map (\<lambda>a. nq_size (bq_get b a)) xs"
    using get by auto
  have p: "bq_get b' p = q" using i by simp
  have "n \<notin> (\<lambda>a. nodeID (bq_get b a)) ` set xs" using bq_wf_inactive [OF wf] new by simp
  then have nin: "n \<notin> (\<lambda>a. nodeID (bq_get b' a)) ` set xs" using get by auto
  have ord: "bq_order (b'\<lparr>activeNode := AList.update n p (activeNode b'), bq_size := s\<rparr>) (xs @ [p])"
    using i(1) by simp
  show ?thesis
    unfolding bq_wf_def
    using ord wf q p nin nm get new i(4,5) s
    by (auto simp: bq_wf_def update_new_append nodes sz simp del: bq_order_put)
qed

lemma bq_content_insert:
  assumes wf: "bq_wf newID b xs" and ins: "ringInsert q b = (p, b')"
    and wf': "bq_wf newID (b'\<lparr>activeNode := m, bq_size := s\<rparr>) (xs @ [p])"
  shows "bq_content (b'\<lparr>activeNode := m, bq_size := s\<rparr>) = bq_content b + nq_all q"
    and "bq_queues (b'\<lparr>activeNode := m, bq_size := s\<rparr>) = bq_queues b @ [q]"
proof -
  note i = ringInsert_spec [OF bq_wf_order [OF wf] ins]
  have "map (bq_get b') xs = map (bq_get b) xs" using i(2,3) by (intro map_cong) auto
  then show q: "bq_queues (b'\<lparr>activeNode := m, bq_size := s\<rparr>) = bq_queues b @ [q]"
    using i(3) by (simp add: bq_wf_queues [OF wf'] bq_wf_queues [OF wf])
  show "bq_content (b'\<lparr>activeNode := m, bq_size := s\<rparr>) = bq_content b + nq_all q"
    unfolding bq_content_def q by simp
qed

lemma InsertNode_wf:
  assumes wf: "bq_wf newID b xs"
  shows "if map_of (activeNode b) n \<noteq> None then InsertNode n b = b
         else \<exists>p. bq_wf newID (InsertNode n b) (xs @ [p]) \<and> p \<notin> set xs \<and>
                bq_queues (InsertNode n b) = bq_queues b @ [NewNodeQueue n] \<and>
                bq_size (InsertNode n b) = bq_size b \<and> maxBuffer (InsertNode n b) = maxBuffer b"
proof (cases "map_of (activeNode b) n")
  case None
  obtain p b' where ins: "ringInsert (NewNodeQueue n) b = (p, b')"
    by (cases "ringInsert (NewNodeQueue n) b")
  note i = ringInsert_spec [OF bq_wf_order [OF wf] ins]
  have e: "InsertNode n b = b'\<lparr>activeNode := AList.update n p (activeNode b'), bq_size := bq_size b\<rparr>"
    using None ins i by (simp add: InsertNode_def)
  have "bq_wf newID (InsertNode n b) (xs @ [p])"
    unfolding e using bq_wf_insert [OF wf None _ _ ins] by simp
  with bq_content_insert [OF wf ins this [unfolded e]] i None show ?thesis
    unfolding e by auto
qed (simp add: InsertNode_def)

text \<open>Removing the current node's queue takes it off the front of the order.\<close>

lemma RemoveNode_current_wf:
  assumes wf: "bq_wf newID b (x # xs)"
  shows "ensures (RemoveNode (nodeID (bq_get b x)) b) (\<lambda>b'.
           bq_wf newID b' xs \<and> bq_get b' = bq_get b \<and> maxBuffer b' = maxBuffer b)"
proof -
  have r: "bq_ring b = Some x" "is_ring (bq_store b) (x # xs)" using bq_wf_ring [OF wf] by auto
  have act: "map_of (activeNode b) (nodeID (bq_get b x)) = Some x"
    using bq_wf_active [OF wf] by simp
  have keys: "distinct (map fst (activeNode b))" using bq_wf_keys [OF wf] .
  have m: "mset (AList.delete (nodeID (bq_get b x)) (activeNode b))
      = mset (map (\<lambda>a. (nodeID (bq_get b a), a)) xs)"
    using mset_delete_present [OF keys act] bq_wf_mset [OF wf] by simp
  let ?s = "bq_size b - nq_size (bq_get b x)"
  have s: "?s = (\<Sum>a\<leftarrow>xs. nq_size (bq_get b a))" using wf by (simp add: bq_wf_def)
  show ?thesis
  proof (cases xs)
    case Nil
    have "ring_next (bq_store b) x = x" using is_ring_next [OF r(2)] Nil by simp
    with act r Nil m s show ?thesis
      by (simp add: RemoveNode_def ringRemove_def Let_def bq_wf_def bq_order_def)
  next
    case (Cons y ys)
    have nx: "ring_next (bq_store b) x = y" using is_ring_next [OF r(2)] Cons by simp
    have xy: "y \<noteq> x" using r(2) Cons by (auto simp: is_ring_def)
    from is_ring_remove [of "bq_store b" x y ys] r(2) Cons nx have rm:
      "is_ring (snd (ring_Link (ring_prev (bq_store b) x) y (bq_store b))) (y # ys)"
      "ring_value (snd (ring_Link (ring_prev (bq_store b) x) y (bq_store b))) = bq_get b" by auto
    show ?thesis
      using act r nx xy rm m s wf Cons
      by (simp add: RemoveNode_def ringRemove_def Let_def bq_wf_def bq_order_def)
  qed
qed

section \<open>Unsubmit, Ready and PopFront\<close>

definition wf_elem :: "Element \<Rightarrow> bool" where
  "wf_elem e \<longleftrightarrow> ElementIDLength \<le> length (IDBytes e)"

lemma wf_elem_valid: "wf_elem e \<Longrightarrow> newID (IssuerPublicKey e) = n \<Longrightarrow> valid_elem newID n e"
  by (simp add: wf_elem_def valid_elem_def)

lemma valid_elem_wf: "valid_elem newID n e \<Longrightarrow> wf_elem e"
  by (simp add: wf_elem_def valid_elem_def)

lemma in_bq_content: "bq_wf newID b xs \<Longrightarrow> e \<in># bq_content b \<longleftrightarrow> (\<exists>a \<in> set xs. e \<in># nq_all (bq_get b a))"
proof -
  assume wf: "bq_wf newID b xs"
  have "e \<in># (\<Sum>a\<leftarrow>ys. nq_all (bq_get b a)) \<longleftrightarrow> (\<exists>a \<in> set ys. e \<in># nq_all (bq_get b a))" for ys
    by (induction ys) auto
  with wf show ?thesis by (simp add: bq_wf_content)
qed

lemma submitted_in_all: "map_of (submitted q) i = Some e \<Longrightarrow> e \<in># nq_all q"
  by (force simp: nq_all_def nq_waiting_def dest: map_of_SomeD)

text \<open>Unsubmitting a waiting block takes the waiting block with its ID out, nothing else.\<close>

lemma bq_Unsubmit_active:
  assumes wf: "bq_wf newID b xs" and e: "wf_elem e" and a: "a \<in> set xs"
    and n: "nodeID (bq_get b a) = newID (IssuerPublicKey e)"
    and w: "map_of (submitted (bq_get b a)) (elem_id e) = Some e'"
  shows "\<exists>q. BufferQueue_Unsubmit newID b e = ok (True, (bq_put a q b)\<lparr>bq_size := bq_size b - 1\<rparr>) \<and>
           bq_wf newID ((bq_put a q b)\<lparr>bq_size := bq_size b - 1\<rparr>) xs \<and> inbox q = inbox (bq_get b a) \<and>
           nodeID q = nodeID (bq_get b a) \<and>
           nq_size q = nq_size (bq_get b a) - 1 \<and> nq_all (bq_get b a) = add_mset e' (nq_all q)"
proof -
  have act: "map_of (activeNode b) (newID (IssuerPublicKey e)) = Some a"
    using bq_wf_active [OF wf] a n by simp
  from nq_Unsubmit_spec [OF bq_wf_nq [OF wf a] wf_elem_valid [OF e refl]] w obtain q where
    q: "NodeQueue_Unsubmit (bq_get b a) e = ok (True, q)" "nq_inv newID q"
      "nodeID q = nodeID (bq_get b a)" "inbox q = inbox (bq_get b a)"
      "nq_size q = nq_size (bq_get b a) - 1" "nq_all (bq_get b a) = add_mset e' (nq_all q)"
    by (auto simp: ensures_def)
  have "bq_wf newID ((bq_put a q b)\<lparr>bq_size := bq_size b - 1\<rparr>) xs"
    using bq_wf_put [OF wf a q(2,3)] q(5) by simp
  with q act show ?thesis by (auto simp: BufferQueue_Unsubmit_def)
qed

lemma bq_Unsubmit_wf:
  assumes wf: "bq_wf newID b xs" and e: "wf_elem e"
  shows "ensures (BufferQueue_Unsubmit newID b e) (\<lambda>(d, b').
           bq_wf newID b' xs \<and> maxBuffer b' = maxBuffer b \<and> activeNode b' = activeNode b \<and>
           (\<not> d \<longrightarrow> b' = b) \<and>
           (d \<longrightarrow> bq_size b' = bq_size b - 1 \<and>
              (\<exists>e'. elem_id e' = elem_id e \<and> bq_content b = add_mset e' (bq_content b'))))"
proof (cases "map_of (activeNode b) (newID (IssuerPublicKey e))")
  case None
  with wf show ?thesis by (simp add: BufferQueue_Unsubmit_def)
next
  case (Some a)
  then have a: "a \<in> set xs" "nodeID (bq_get b a) = newID (IssuerPublicKey e)"
    using bq_wf_active [OF wf] by auto
  note nq = bq_wf_nq [OF wf a(1)]
  show ?thesis
  proof (cases "map_of (submitted (bq_get b a)) (elem_id e)")
    case None
    have "ElementIDFromBytes (IDBytes e) = ok (elem_id e)"
      using ElementIDFromBytes_valid [OF wf_elem_valid [OF e refl, of newID]] .
    with None Some wf show ?thesis
      by (simp add: BufferQueue_Unsubmit_def NodeQueue_Unsubmit_def)
  next
    case w: (Some e')
    from bq_Unsubmit_active [OF wf e a w] obtain q where
      q: "BufferQueue_Unsubmit newID b e = ok (True, (bq_put a q b)\<lparr>bq_size := bq_size b - 1\<rparr>)"
        "bq_wf newID ((bq_put a q b)\<lparr>bq_size := bq_size b - 1\<rparr>) xs"
        "nq_all (bq_get b a) = add_mset e' (nq_all q)" by blast
    have "elem_id e' = elem_id e"
      using nq map_of_SomeD [OF w] by (auto simp: nq_inv_def)
    moreover have "bq_content b = add_mset e' (bq_content ((bq_put a q b)\<lparr>bq_size := bq_size b - 1\<rparr>))"
      using bq_content_put [OF wf a(1) q(2)] q(3) by simp
    ultimately show ?thesis using q by auto
  qed
qed

text \<open>Marking a block ready keeps the content; block IDs are taken to determine blocks.\<close>

lemma bq_Ready_wf:
  assumes wf: "bq_wf newID b xs" and e: "wf_elem e"
    and ids: "\<And>e'. e' \<in># bq_content b \<Longrightarrow> elem_id e' = elem_id e \<Longrightarrow> e' = e"
  shows "ensures (BufferQueue_Ready newID b e) (\<lambda>(d, b').
           bq_wf newID b' xs \<and> maxBuffer b' = maxBuffer b \<and> bq_size b' = bq_size b \<and>
           activeNode b' = activeNode b \<and> bq_content b' = bq_content b)"
proof (cases "map_of (activeNode b) (newID (IssuerPublicKey e))")
  case None
  with wf show ?thesis by (simp add: BufferQueue_Ready_def)
next
  case (Some a)
  then have a: "a \<in> set xs" "nodeID (bq_get b a) = newID (IssuerPublicKey e)"
    using bq_wf_active [OF wf] by auto
  note nq = bq_wf_nq [OF wf a(1)]
  have same: "map_of (submitted (bq_get b a)) (elem_id e) = Some e"
    if "map_of (submitted (bq_get b a)) (elem_id e) \<noteq> None"
  proof -
    from that obtain e' where w: "map_of (submitted (bq_get b a)) (elem_id e) = Some e'" by auto
    then have "elem_id e' = elem_id e" using nq by (auto simp: nq_inv_def dest!: map_of_SomeD)
    moreover have "e' \<in># bq_content b"
      using in_bq_content [OF wf] submitted_in_all [OF w] a by auto
    ultimately show ?thesis using ids w by auto
  qed
  from nq_Ready_spec [OF nq wf_elem_valid [OF e refl] same] obtain d q where
    q: "NodeQueue_Ready (bq_get b a) e = ok (d, q)" "nq_inv newID q"
      "nodeID q = nodeID (bq_get b a)" "nq_size q = nq_size (bq_get b a)" "nq_all q = nq_all (bq_get b a)"
    by (auto simp: ensures_def)
  have wf': "bq_wf newID (bq_put a q b) xs"
    using bq_wf_put [OF wf a(1) q(2,3), of "bq_size b"] q(4) bq_size_self [of a q b] by simp
  have "bq_content (bq_put a q b) = bq_content b"
    using bq_content_put [OF wf a(1), where q = q and s = "bq_size b"] wf' q(5) bq_size_self [of a q b] by simp
  with q wf' Some show ?thesis by (simp add: BufferQueue_Ready_def)
qed

lemma bq_PopFront_wf:
  assumes wf: "bq_wf newID b (x # xs)" and r: "nq_ready (bq_get b x) \<noteq> {#}"
  shows "\<exists>e q. BufferQueue_PopFront b = ok (e, (bq_put x q b)\<lparr>bq_size := bq_size b - 1\<rparr>) \<and>
           bq_wf newID ((bq_put x q b)\<lparr>bq_size := bq_size b - 1\<rparr>) (x # xs) \<and>
           NodeQueue_Front (Some (bq_get b x)) = Some e \<and> nodeID q = nodeID (bq_get b x) \<and>
           submitted q = submitted (bq_get b x) \<and> nq_size q = nq_size (bq_get b x) - 1 \<and>
           nq_ready (bq_get b x) = add_mset e (nq_ready q) \<and>
           bq_content b = add_mset e (bq_content ((bq_put x q b)\<lparr>bq_size := bq_size b - 1\<rparr>))"
proof -
  have cur: "bq_ring b = Some x" using bq_wf_ring [OF wf] by simp
  have x: "x \<in> set (x # xs)" by simp
  from nq_PopFront_spec [OF bq_wf_nq [OF wf x] r] obtain e q where
    q: "NodeQueue_PopFront (bq_get b x) = ok (e, q)" "nq_inv newID q"
      "nodeID q = nodeID (bq_get b x)" "NodeQueue_Front (Some (bq_get b x)) = Some e"
      "nq_size q = nq_size (bq_get b x) - 1" "nq_all (bq_get b x) = add_mset e (nq_all q)"
      "submitted q = submitted (bq_get b x)" "nq_ready (bq_get b x) = add_mset e (nq_ready q)"
    by (auto simp: ensures_def)
  have wf': "bq_wf newID ((bq_put x q b)\<lparr>bq_size := bq_size b - 1\<rparr>) (x # xs)"
    using bq_wf_put [OF wf x q(2,3)] q(5) by simp
  have "bq_content b = add_mset e (bq_content ((bq_put x q b)\<lparr>bq_size := bq_size b - 1\<rparr>))"
    using bq_content_put [OF wf x wf'] q(6) by simp
  with q wf' cur show ?thesis by (auto simp: BufferQueue_PopFront_def BufferQueue_Current_def)
qed

section \<open>The longest mana-scaled queue\<close>

definition mana_scale :: "(rat \<Rightarrow> rat) \<Rightarrow> (node_id \<Rightarrow> rat) \<Rightarrow> NodeQueue \<Rightarrow> fval" where
  "mana_scale rnd mana q =
     (if 0 < mana (nodeID q) then Fin (rnd (of_int (nq_size q) / mana (nodeID q)))
      else if 0 < nq_size q then PosInf else NegInf)"

text \<open>Rounding keeps zero and the positive numbers (no underflow to zero).\<close>

definition sane_rnd :: "(rat \<Rightarrow> rat) \<Rightarrow> bool" where
  "sane_rnd rnd \<longleftrightarrow> rnd 0 = 0 \<and> (\<forall>x > 0. 0 < rnd x)"

definition longest_pick ::
  "(rat \<Rightarrow> rat) \<Rightarrow> (node_id \<Rightarrow> rat) \<Rightarrow> NodeQueue \<Rightarrow> fval \<times> node_id \<Rightarrow> fval \<times> node_id" where
  "longest_pick rnd mana q = (\<lambda>(ms, mn).
     if 0 < mana (nodeID q)
     then if ms < mana_scale rnd mana q then (mana_scale rnd mana q, nodeID q) else (ms, mn)
     else if 0 < nq_size q then (PosInf, nodeID q) else (ms, mn))"

lemma longest_step_pick:
  "bq_same b b' \<Longrightarrow> longest_step rnd mana a (l, b') = ok (longest_pick rnd mana (bq_get b a) l, b')"
  by (cases l) (auto dest: bq_sameD simp: longest_step_def longest_pick_def mana_scale_def Let_def)

lemma longest_pick_fold:
  "fold (longest_pick rnd mana) qs (NegInf, n0) = (ms, mn) \<Longrightarrow>
   (\<forall>q \<in> set qs. mana_scale rnd mana q \<le> ms) \<and>
   (ms = NegInf \<or> (\<exists>q \<in> set qs. nodeID q = mn \<and> mana_scale rnd mana q = ms))"
proof (induction qs arbitrary: ms mn rule: rev_induct)
  case (snoc q qs)
  obtain ms0 mn0 where f: "fold (longest_pick rnd mana) qs (NegInf, n0) = (ms0, mn0)"
    by (cases "fold (longest_pick rnd mana) qs (NegInf, n0)")
  have PI: "x \<le> PosInf" and NI: "NegInf \<le> x" for x by (cases x; simp)+
  have st: "longest_pick rnd mana q (ms0, mn0) = (ms, mn)" using snoc.prems f by simp
  note IH = snoc.IH [OF f]
  consider (new) "ms0 < mana_scale rnd mana q" "0 < mana (nodeID q)" "ms = mana_scale rnd mana q" "mn = nodeID q"
    | (old) "\<not> ms0 < mana_scale rnd mana q" "0 < mana (nodeID q)" "ms = ms0" "mn = mn0"
    | (inf) "\<not> 0 < mana (nodeID q)" "0 < nq_size q" "ms = PosInf" "mn = nodeID q"
    | (empty) "\<not> 0 < mana (nodeID q)" "\<not> 0 < nq_size q" "ms = ms0" "mn = mn0"
    using st by (auto simp: longest_pick_def split: if_splits)
  then show ?case
  proof cases
    case new
    then have "\<forall>q' \<in> set qs. mana_scale rnd mana q' \<le> ms" using IH by force
    with new show ?thesis by auto
  next
    case old
    with IH show ?thesis by auto
  next
    case inf
    with PI show ?thesis by (auto simp: mana_scale_def)
  next
    case empty
    with IH NI show ?thesis by (auto simp: mana_scale_def)
  qed
qed simp

lemma sane_rnd_pos: "sane_rnd rnd \<Longrightarrow> 0 < x \<Longrightarrow> 0 < rnd x"
  by (simp add: sane_rnd_def)

lemma mana_scale_pos:
  assumes "sane_rnd rnd" and "0 \<le> nq_size q"
  shows "Fin 0 < mana_scale rnd mana q \<longleftrightarrow> 0 < nq_size q"
  using assms by (auto simp: mana_scale_def sane_rnd_def)

lemma nq_inv_nonneg: "nq_inv newID q \<Longrightarrow> 0 \<le> nq_size q"
  by (simp add: nq_inv_def)

text \<open>In a buffer that is not empty, the scan finds a queue that is not empty.\<close>

lemma longest_nonempty:
  assumes wf: "bq_wf newID b xs" and "sane_rnd rnd" and pos: "0 < bq_size b"
    and f: "fold (longest_pick rnd mana) (map (bq_get b) xs) (NegInf, n0) = (ms, mn)"
  shows "\<exists>a \<in> set xs. nodeID (bq_get b a) = mn \<and> 0 < nq_size (bq_get b a) \<and>
    (\<forall>a' \<in> set xs. mana_scale rnd mana (bq_get b a') \<le> mana_scale rnd mana (bq_get b a))"
proof -
  have nn: "0 \<le> nq_size (bq_get b a)" if "a \<in> set xs" for a
    using nq_inv_nonneg [OF bq_wf_nq [OF wf that]] .
  have "\<exists>a \<in> set xs. 0 < nq_size (bq_get b a)"
  proof (rule ccontr)
    assume "\<not> ?thesis"
    then have z: "\<forall>a \<in> set xs. nq_size (bq_get b a) = 0" using nn by force
    have "(\<Sum>a\<leftarrow>xs. nq_size (bq_get b a)) = (\<Sum>a\<leftarrow>xs. 0)"
      using z by (intro arg_cong [where f = sum_list] map_cong) auto
    then show False using wf pos by (simp add: bq_wf_def)
  qed
  then obtain a where a: "a \<in> set xs" "0 < nq_size (bq_get b a)" by auto
  note l = longest_pick_fold [OF f]
  have "mana_scale rnd mana (bq_get b a) \<le> ms" using l a by simp
  moreover have "Fin 0 < mana_scale rnd mana (bq_get b a)"
    using mana_scale_pos [OF assms(2) nn [OF a(1)]] a by simp
  ultimately have "Fin 0 < ms" by simp
  then obtain a' where a': "a' \<in> set xs" "nodeID (bq_get b a') = mn"
    "mana_scale rnd mana (bq_get b a') = ms" using l by auto
  with \<open>Fin 0 < ms\<close> mana_scale_pos [OF assms(2) nn [OF a'(1)], of mana] have "0 < nq_size (bq_get b a')"
    by simp
  with a' l show ?thesis by auto
qed

lemma bq_round_longest:
  assumes "bq_wf newID b xs" and "xs \<noteq> []"
  shows "bq_round (longest_step rnd mana) (hd xs) (l, b)
    = ok (fold (longest_pick rnd mana) (map (bq_get b) xs) l, b)"
  using bq_round_fold [OF bq_wf_order [OF assms(1)] assms(2), of "longest_step rnd mana"
      "\<lambda>a. longest_pick rnd mana (bq_get b a)"]
  by (simp add: longest_step_pick fold_map comp_def)

section \<open>Dropping one block\<close>

definition perm_ord :: "((ElementID \<times> Element) list \<Rightarrow> (ElementID \<times> Element) list) \<Rightarrow> bool" where
  "perm_ord ord \<longleftrightarrow> (\<forall>m. mset (ord m) = mset m)"

lemma perm_ord_set: "perm_ord ord \<Longrightarrow> set (ord m) = set m"
  unfolding perm_ord_def by (metis mset_eq_setD)

lemma perm_ord_Nil: "perm_ord ord \<Longrightarrow> ord m = [] \<longleftrightarrow> m = []"
  using perm_ord_set [of ord m] by (metis set_empty)

lemma oldestSubmitted_spec:
  "(case oldestSubmitted old m of
      None \<Rightarrow> old = None \<and> m = []
    | Some e \<Rightarrow> (old = Some e \<or> e \<in> snd ` set m) \<and>
        (\<forall>e' \<in> set_option old \<union> snd ` set m. IssuingTime e \<le> IssuingTime e'))"
proof (induction old m rule: oldestSubmitted.induct)
  case (2 old i v m)
  then show ?case by (cases old) (fastforce split: option.splits if_splits)+
qed (auto split: option.split)

lemma oldest_None: "perm_ord ord \<Longrightarrow> oldestSubmitted None (ord m) = None \<longleftrightarrow> m = []"
  using oldestSubmitted_spec [of None "ord m"] perm_ord_Nil [of ord m] by (auto split: option.splits)

lemma oldest_Some:
  "perm_ord ord \<Longrightarrow> oldestSubmitted None (ord m) = Some e \<Longrightarrow>
   e \<in> snd ` set m \<and> (\<forall>e' \<in> snd ` set m. IssuingTime e \<le> IssuingTime e')"
  using oldestSubmitted_spec [of None "ord m"] perm_ord_set [of ord m] by auto

text \<open>The block dropped is the oldest of its queue, waiting or ready.\<close>

definition dropped_from :: "addr \<Rightarrow> Element \<Rightarrow> BufferQueue \<Rightarrow> BufferQueue \<Rightarrow> bool" where
  "dropped_from a e b b' \<longleftrightarrow>
     e \<in># nq_all (bq_get b a) \<and>
     (\<forall>e' \<in># nq_all (bq_get b a). IssuingTime e \<le> IssuingTime e') \<and>
     maxBuffer b' = maxBuffer b \<and> bq_size b' = bq_size b - 1 \<and> activeNode b' = activeNode b \<and>
     (\<forall>a'. nodeID (bq_get b' a') = nodeID (bq_get b a')) \<and>
     bq_content b = add_mset e (bq_content b')"

lemma dropOne_wf:
  assumes wf: "bq_wf newID b xs" and a: "a \<in> set xs" and ord: "perm_ord ord"
    and sz: "0 < nq_size (bq_get b a)"
  shows "ensures (dropOne newID ord (nodeID (bq_get b a)) b) (\<lambda>(i, b').
           bq_wf newID b' xs \<and> (\<exists>e. i = elem_id e \<and> dropped_from a e b b'))"
proof -
  let ?q = "bq_get b a"
  note nq = bq_wf_nq [OF wf a]
  have act: "map_of (activeNode b) (nodeID ?q) = Some a" using bq_wf_active [OF wf] a by simp
  let ?old = "oldestSubmitted None (ord (submitted ?q))"
  let ?fr = "NodeQueue_Front (Some ?q)"
  let ?pop = "bindE (NodeQueue_PopFront ?q) (\<lambda>(e, q').
                 bindE (ElementIDFromBytes (IDBytes e)) (\<lambda>i.
                   ok (i, (bq_put a q' b)\<lparr>bq_size := bq_size b - 1\<rparr>)))"
  let ?P = "\<lambda>(i, b'). bq_wf newID b' xs \<and> (\<exists>e. i = elem_id e \<and> dropped_from a e b b')"
  have waiting: "e' \<in># nq_waiting ?q \<longleftrightarrow> e' \<in> snd ` set (submitted ?q)" for e'
    by (auto simp: nq_waiting_def)
  have pop: "ensures ?pop ?P"
    if f: "?fr = Some f" and le: "\<forall>e \<in># nq_waiting ?q. IssuingTime f \<le> IssuingTime e" for f
  proof -
    have "nq_ready ?q \<noteq> {#}" using f nq_Front_iff [of ?q] by auto
    from nq_PopFront_spec [OF nq this] obtain e q where
      q: "NodeQueue_PopFront ?q = ok (e, q)" "nq_inv newID q" "nodeID q = nodeID ?q" "?fr = Some e"
        "nq_size q = nq_size ?q - 1" "nq_all ?q = add_mset e (nq_all q)"
      by (auto simp: ensures_def)
    let ?b = "(bq_put a q b)\<lparr>bq_size := bq_size b - 1\<rparr>"
    have wf': "bq_wf newID ?b xs" using bq_wf_put [OF wf a q(2,3)] q(5) by simp
    have "valid_elem newID (nodeID ?q) e" using nq_inv_valid [OF nq, of e] q(6) by simp
    moreover have "\<forall>e' \<in># nq_all ?q. IssuingTime e \<le> IssuingTime e'"
      using le f q(4) nq_Front_least [OF nq q(4)] by (auto simp: nq_all_def)
    moreover have "bq_content b = add_mset e (bq_content ?b)"
      using bq_content_put [OF wf a wf'] q(6) by simp
    ultimately show ?thesis using q wf' by (auto simp: dropped_from_def)
  qed
  show ?thesis
  proof (cases ?old)
    case None
    then have sub: "submitted ?q = []" using oldest_None [OF ord] by simp
    then have "nq_ready ?q \<noteq> {#}" using sz nq by (auto simp: nq_inv_def nq_ready_def)
    then obtain f where f: "?fr = Some f" using nq_Front_iff [of ?q] by auto
    have "nq_waiting ?q = {#}" using sub by (simp add: nq_waiting_def)
    with pop [OF f] act None f show ?thesis by (simp add: dropOne_def Let_def)
  next
    case (Some e)
    from oldest_Some [OF ord Some] have e: "e \<in> snd ` set (submitted ?q)"
      and min: "\<forall>e' \<in> snd ` set (submitted ?q). IssuingTime e \<le> IssuingTime e'" by auto
    show ?thesis
    proof (cases "case ?fr of None \<Rightarrow> True | Some f \<Rightarrow> IssuingTime e < IssuingTime f")
      case True
      have eq: "(elem_id e, e) \<in> set (submitted ?q)" "valid_elem newID (nodeID ?q) e"
        using e nq by (auto simp: nq_inv_def)
      have w: "map_of (submitted ?q) (elem_id e) = Some e"
        using eq nq by (simp add: nq_inv_def)
      have n: "nodeID ?q = newID (IssuerPublicKey e)" using eq(2) by (simp add: valid_elem_def)
      from bq_Unsubmit_active [OF wf valid_elem_wf [OF eq(2)] a n w] obtain q where
        q: "BufferQueue_Unsubmit newID b e = ok (True, (bq_put a q b)\<lparr>bq_size := bq_size b - 1\<rparr>)"
          "bq_wf newID ((bq_put a q b)\<lparr>bq_size := bq_size b - 1\<rparr>) xs" "nodeID q = nodeID ?q"
          "nq_all ?q = add_mset e (nq_all q)" by blast
      have "\<forall>e' \<in># nq_ready ?q. IssuingTime e \<le> IssuingTime e'"
        using True nq_Front_least [OF nq] nq_Front_iff [of ?q]
        by (cases ?fr) (fastforce simp del: NodeQueue_Front.simps)+
      then have "\<forall>e' \<in># nq_all ?q. IssuingTime e \<le> IssuingTime e'"
        using min by (auto simp: nq_all_def nq_waiting_def)
      moreover have "bq_content b = add_mset e (bq_content ((bq_put a q b)\<lparr>bq_size := bq_size b - 1\<rparr>))"
        using bq_content_put [OF wf a q(2)] q(4) by simp
      moreover have "e \<in># nq_all ?q" using q(4) by simp
      moreover have "ElementIDFromBytes (IDBytes e) = ok (elem_id e)" using eq(2) by simp
      ultimately show ?thesis using q act Some True
        by (auto simp: dropOne_def Let_def dropped_from_def)
    next
      case False
      then obtain f where f: "?fr = Some f" "IssuingTime f \<le> IssuingTime e"
        by (cases ?fr) (auto simp del: NodeQueue_Front.simps)
      have "\<forall>e' \<in># nq_waiting ?q. IssuingTime f \<le> IssuingTime e'"
        using f min waiting by force
      from pop [OF f(1) this] act Some False f show ?thesis by (auto simp: dropOne_def Let_def)
    qed
  qed
qed

section \<open>Dropping down to the buffer size\<close>

lemma dropHead_loop_wf:
  assumes "bq_wf newID b xs" and "xs \<noteq> []" and "perm_ord ord" and "sane_rnd rnd"
    and "0 \<le> maxBuffer b" and "nat (bq_size b - maxBuffer b) \<le> fuel"
  shows "ensures (dropHead_loop newID ord rnd mana (hd xs) fuel ids b) (\<lambda>(ids', b').
           bq_wf newID b' xs \<and> maxBuffer b' = maxBuffer b \<and> activeNode b' = activeNode b \<and>
           bq_size b' = min (bq_size b) (maxBuffer b) \<and>
           (\<exists>D. ids' = ids @ map elem_id D \<and> bq_content b = mset D + bq_content b'))"
  using assms
proof (induction fuel arbitrary: ids b)
  case 0
  then show ?case by (subst dropHead_loop.simps) (auto intro: exI [of _ "[]"])
next
  case (Suc m)
  show ?case
  proof (cases "bq_size b \<le> maxBuffer b")
    case True
    with Suc.prems show ?thesis by (subst dropHead_loop.simps) (auto intro: exI [of _ "[]"])
  next
    case False
    obtain ms mn where f: "fold (longest_pick rnd mana) (map (bq_get b) xs) (NegInf, replicate 32 0) = (ms, mn)"
      by (cases "fold (longest_pick rnd mana) (map (bq_get b) xs) (NegInf, replicate 32 0)")
    have pos: "0 < bq_size b" using False Suc.prems(5) by simp
    from longest_nonempty [OF Suc.prems(1,4) pos f] obtain a where
      a: "a \<in> set xs" "nodeID (bq_get b a) = mn" "0 < nq_size (bq_get b a)" by auto
    from dropOne_wf [OF Suc.prems(1) a(1) Suc.prems(3) a(3)] obtain e b2 where
      d: "dropOne newID ord mn b = ok (elem_id e, b2)" "bq_wf newID b2 xs" "dropped_from a e b b2"
      unfolding a(2) by (auto simp: ensures_def)
    have "ensures (dropHead_loop newID ord rnd mana (hd xs) m (ids @ [elem_id e]) b2) (\<lambda>(ids', b').
           bq_wf newID b' xs \<and> maxBuffer b' = maxBuffer b2 \<and> activeNode b' = activeNode b2 \<and>
           bq_size b' = min (bq_size b2) (maxBuffer b2) \<and>
           (\<exists>D. ids' = (ids @ [elem_id e]) @ map elem_id D \<and> bq_content b2 = mset D + bq_content b'))"
      using Suc.prems d False by (intro Suc.IH) (auto simp: dropped_from_def)
    then have "ensures (dropHead_loop newID ord rnd mana (hd xs) m (ids @ [elem_id e]) b2) (\<lambda>(ids', b').
           bq_wf newID b' xs \<and> maxBuffer b' = maxBuffer b \<and> activeNode b' = activeNode b \<and>
           bq_size b' = min (bq_size b) (maxBuffer b) \<and>
           (\<exists>D. ids' = ids @ map elem_id D \<and> bq_content b = mset D + bq_content b'))"
    proof (rule ensures_mono, clarsimp)
      fix b' D assume "bq_content b2 = mset D + bq_content b'"
      then have "bq_content b = mset (e # D) + bq_content b'"
        using d(3) by (simp add: dropped_from_def)
      then show "maxBuffer b2 = maxBuffer b \<and> activeNode b2 = activeNode b \<and>
          min (bq_size b2) (maxBuffer b2) = min (bq_size b) (maxBuffer b) \<and>
          (\<exists>Da. elem_id e # map elem_id D = map elem_id Da \<and>
                bq_content b = mset Da + bq_content b')"
        using d(3) False by (intro conjI exI [of _ "e # D"]) (auto simp: dropped_from_def)
    qed
    then show ?thesis
      using False d(1) bq_round_longest [OF Suc.prems(1,2)] f
      by (subst dropHead_loop.simps) simp
  qed
qed

lemma dropHead_wf:
  assumes "bq_wf newID b xs" and "perm_ord ord" and "sane_rnd rnd" and "0 \<le> maxBuffer b"
  shows "ensures (dropHead newID ord rnd mana b) (\<lambda>(ids, b').
           bq_wf newID b' xs \<and> maxBuffer b' = maxBuffer b \<and> activeNode b' = activeNode b \<and>
           bq_size b' = min (bq_size b) (maxBuffer b) \<and>
           (\<exists>D. ids = map elem_id D \<and> bq_content b = mset D + bq_content b'))"
proof (cases "bq_size b \<le> maxBuffer b")
  case True
  with assms show ?thesis by (auto simp: dropHead_def intro: exI [of _ "[]"])
next
  case False
  then have ne: "xs \<noteq> []" using assms by (auto simp: bq_wf_def)
  then have "bq_ring b = Some (hd xs)" using bq_wf_ring [of newID b "hd xs" "tl xs"] assms(1) by simp
  with dropHead_loop_wf [OF assms(1) ne assms(2-4), of "nat (bq_size b - maxBuffer b)" mana "[]"] False
  show ?thesis by (simp add: dropHead_def BufferQueue_Current_def)
qed

section \<open>Submitting\<close>

definition is_waiting :: "(pubkey \<Rightarrow> node_id) \<Rightarrow> BufferQueue \<Rightarrow> Element \<Rightarrow> bool" where
  "is_waiting newID b e \<longleftrightarrow>
     (case BufferQueue_NodeQueue b (newID (IssuerPublicKey e)) of
        None \<Rightarrow> False
      | Some q \<Rightarrow> map_of (submitted q) (elem_id e) \<noteq> None)"

text \<open>The buffer after the block has been queued, before anything is dropped.\<close>

lemma bq_enqueue_wf:
  assumes wf: "bq_wf newID b xs" and e: "wf_elem e" and nw: "\<not> is_waiting newID b e"
    and q: "NodeQueue_Submit newID
          (case map_of (activeNode b) (newID (IssuerPublicKey e)) of
             Some a \<Rightarrow> bq_get b a | None \<Rightarrow> NewNodeQueue (newID (IssuerPublicKey e))) e = ok (d, q)"
    and b1: "b1 = (case map_of (activeNode b) (newID (IssuerPublicKey e)) of
                     Some a \<Rightarrow> bq_put a q b
                   | None \<Rightarrow> (let (p, b') = ringInsert q b
                              in b'\<lparr>activeNode := AList.update (newID (IssuerPublicKey e)) p (activeNode b')\<rparr>))"
    and b2: "b2 = b1\<lparr>bq_size := bq_size b1 + 1\<rparr>"
  shows "d \<and> (\<exists>xs'. bq_wf newID b2 xs') \<and> maxBuffer b2 = maxBuffer b \<and>
    fst ` set (activeNode b) \<subseteq> fst ` set (activeNode b2) \<and>
    bq_size b2 = bq_size b + 1 \<and> bq_content b2 = add_mset e (bq_content b)"
proof (cases "map_of (activeNode b) (newID (IssuerPublicKey e))")
  case None
  let ?n = "newID (IssuerPublicKey e)"
  note v = wf_elem_valid [OF e refl, of newID]
  have d: d and qs: "nq_inv newID q" "nodeID q = ?n" "nq_size q = 1" "nq_all q = {#e#}"
    using nq_Submit_spec [OF nq_inv_New, of newID ?n e] v None q by (auto simp: ensures_def)
  obtain p b' where ins: "ringInsert q b = (p, b')" by (cases "ringInsert q b")
  note i = ringInsert_spec [OF bq_wf_order [OF wf] ins]
  have e2: "b2 = b'\<lparr>activeNode := AList.update ?n p (activeNode b'), bq_size := bq_size b + 1\<rparr>"
    using b2 b1 None ins i by simp
  have wf': "bq_wf newID b2 (xs @ [p])"
    unfolding e2 using bq_wf_insert [OF wf None qs(1,2) ins] qs(3) by simp
  then have "\<exists>xs'. bq_wf newID b2 xs'" by blast
  moreover have "bq_content b2 = add_mset e (bq_content b)"
    using bq_content_insert(1) [OF wf ins wf' [unfolded e2]] qs(4) unfolding e2 by simp
  moreover have "fst ` set (activeNode b) \<subseteq> fst ` set (activeNode b2)"
    using i(4) e2 by (auto simp: dom_update)
  ultimately show ?thesis using d i e2 by simp
next
  case (Some a)
  let ?n = "newID (IssuerPublicKey e)"
  have a: "a \<in> set xs" "nodeID (bq_get b a) = ?n" using bq_wf_active [OF wf] Some by auto
  have v: "valid_elem newID (nodeID (bq_get b a)) e" using wf_elem_valid [OF e] a(2) by simp
  have d: d and qs: "nq_inv newID q" "nodeID q = nodeID (bq_get b a)"
      "nq_size q = nq_size (bq_get b a) + 1" "nq_all q = add_mset e (nq_all (bq_get b a))"
    using nq_Submit_spec [OF bq_wf_nq [OF wf a(1)] v] Some q nw
    by (auto simp: ensures_def is_waiting_def BufferQueue_NodeQueue_def)
  have e2: "b2 = (bq_put a q b)\<lparr>bq_size := bq_size b + 1\<rparr>" using b2 b1 Some by simp
  have wf': "bq_wf newID b2 xs" unfolding e2 using bq_wf_put [OF wf a(1) qs(1,2)] qs(3) by simp
  then have "\<exists>xs'. bq_wf newID b2 xs'" by blast
  moreover have "bq_content b2 = add_mset e (bq_content b)"
    using bq_content_put [OF wf a(1) wf' [unfolded e2]] qs(4) unfolding e2 by simp
  ultimately show ?thesis using d e2 by simp
qed

lemma bq_Submit_wf:
  assumes wf: "bq_wf newID b xs" and e: "wf_elem e" and ord: "perm_ord ord" and rnd: "sane_rnd rnd"
    and mb: "0 \<le> maxBuffer b"
  shows "ensures (BufferQueue_Submit newID ord rnd b e mana) (\<lambda>(r, b').
           bq_inv newID b' \<and> maxBuffer b' = maxBuffer b \<and>
           fst ` set (activeNode b) \<subseteq> fst ` set (activeNode b') \<and>
           (case r of
              Inl err \<Rightarrow> is_waiting newID b e \<and> b' = b
            | Inr ids \<Rightarrow> \<not> is_waiting newID b e \<and> bq_size b' = min (bq_size b + 1) (maxBuffer b) \<and>
                (\<exists>D. ids = map elem_id D \<and> add_mset e (bq_content b) = mset D + bq_content b')))"
proof -
  let ?n = "newID (IssuerPublicKey e)"
  let ?act = "map_of (activeNode b) ?n"
  let ?q = "case ?act of Some a \<Rightarrow> bq_get b a | None \<Rightarrow> NewNodeQueue ?n"
  have q_inv: "nq_inv newID ?q" and q_id: "nodeID ?q = ?n"
    using bq_wf_active [OF wf, of ?n] bq_wf_nq [OF wf] by (auto split: option.split)
  have v: "valid_elem newID (nodeID ?q) e" using wf_elem_valid [OF e] q_id by simp
  from nq_Submit_spec [OF q_inv v] obtain d q where
    s: "NodeQueue_Submit newID ?q e = ok (d, q)" "d = (map_of (submitted ?q) (elem_id e) = None)"
    by (auto simp: ensures_def)
  have dw: "d \<longleftrightarrow> \<not> is_waiting newID b e"
    using s(2) by (auto simp: is_waiting_def BufferQueue_NodeQueue_def split: option.splits)
  show ?thesis
  proof (cases d)
    case False
    then have "is_waiting newID b e" using dw by simp
    with s(1) False wf show ?thesis by (simp add: BufferQueue_Submit_def Let_def bq_wf_inv)
  next
    case True
    define b1 where "b1 = (case ?act of Some a \<Rightarrow> bq_put a q b
                   | None \<Rightarrow> (let (p, b') = ringInsert q b
                              in b'\<lparr>activeNode := AList.update ?n p (activeNode b')\<rparr>))"
    define b2 where "b2 = b1\<lparr>bq_size := bq_size b1 + 1\<rparr>"
    have nw: "\<not> is_waiting newID b e" using True dw by simp
    from bq_enqueue_wf [OF wf e nw s(1) b1_def b2_def] obtain xs' where
      b2: "bq_wf newID b2 xs'" "maxBuffer b2 = maxBuffer b" "bq_size b2 = bq_size b + 1"
        "bq_content b2 = add_mset e (bq_content b)"
        "fst ` set (activeNode b) \<subseteq> fst ` set (activeNode b2)" by blast
    have sub: "BufferQueue_Submit newID ord rnd b e mana =
        (if maxBuffer b2 < bq_size b2
         then bindE (dropHead newID ord rnd mana b2) (\<lambda>(ids, b3). ok (Inr ids, b3))
         else ok (Inr [], b2))"
      using s(1) True by (simp add: BufferQueue_Submit_def b1_def b2_def Let_def)
    show ?thesis
    proof (cases "maxBuffer b2 < bq_size b2")
      case True
      from dropHead_wf [OF b2(1) ord rnd] mb b2(2) show ?thesis
        unfolding sub if_P [OF True]
        by (intro ensures_bindE [OF dropHead_wf [OF b2(1) ord rnd]])
           (use b2 nw bq_wf_inv in \<open>force simp: \<close>)+
    next
      case False
      with b2 nw show ?thesis unfolding sub by (auto simp: bq_wf_inv intro: exI [of _ "[]"])
    qed
  qed
qed

lemma bq_IDs_wf:
  assumes wf: "bq_wf newID b xs" and ord: "perm_ord ord"
  shows "ensures (BufferQueue_IDs ord b) (\<lambda>(ids, b'). b' = b \<and> mset ids = image_mset elem_id (bq_content b))"
proof -
  define f where "f a = (SOME is. NodeQueue_IDs ord (bq_get b a) = ok is)" for a
  have f: "NodeQueue_IDs ord (bq_get b a) = ok (f a) \<and> mset (f a) = image_mset elem_id (nq_all (bq_get b a))"
    if "a \<in> set xs" for a
  proof -
    have "mset (ord (submitted (bq_get b a))) = mset (submitted (bq_get b a))"
      using ord by (simp add: perm_ord_def)
    from nq_IDs_spec [OF bq_wf_nq [OF wf that], of ord, OF this] show ?thesis by (auto simp: ensures_def f_def)
  qed
  have "BufferQueue_IDs ord b = ok (fold (\<lambda>a ids. ids @ f a) xs [], b)"
    unfolding BufferQueue_IDs_def
    by (rule bq_round_current [OF wf]) (use f in \<open>auto dest: bq_sameD\<close>)
  moreover have "mset (concat (map f ys)) = image_mset elem_id (\<Sum>a\<leftarrow>ys. nq_all (bq_get b a))"
    if "set ys \<subseteq> set xs" for ys
    using that f by (induction ys) auto
  ultimately show ?thesis by (simp add: fold_append_concat bq_wf_content [OF wf])
qed

lemma bq_Unsubmit_content_le: "bq_wf newID b xs \<Longrightarrow> bq_size b = 0 \<longleftrightarrow> bq_content b = {#}"
  by (simp add: bq_wf_size)

section \<open>The ring as a round robin list of queues\<close>

lemma Next_refines:
  assumes "bq_inv newID b"
  shows "bq_queues (snd (BufferQueue_Next b)) = rotate1 (bq_queues b) \<and> bq_inv newID (snd (BufferQueue_Next b))"
proof (cases "bq_cells b")
  case Nil
  then show ?thesis using bq_Next_None [of newID b] bq_inv_wf [OF assms] assms
    by (simp add: bq_queues_def)
next
  case (Cons x xs)
  with bq_inv_wf [OF assms] have w: "bq_wf newID b (x # xs)" by simp
  from bq_Next_wf [OF w] bq_wf_queues [OF bq_Next_wf(2) [OF w]] bq_wf_inv [OF bq_Next_wf(2) [OF w]]
  show ?thesis using Cons by (simp add: bq_queues_def)
qed

lemma InsertNode_refines:
  assumes "bq_inv newID b"
  shows "bq_queues (InsertNode n b) =
      (if n \<in> nodeID ` set (bq_queues b) then bq_queues b else bq_queues b @ [NewNodeQueue n]) \<and>
    bq_inv newID (InsertNode n b)"
proof -
  note wf = bq_inv_wf [OF assms]
  have act: "map_of (activeNode b) n \<noteq> None \<longleftrightarrow> n \<in> nodeID ` set (bq_queues b)"
    using bq_wf_inactive [OF wf, of n] by (simp add: bq_queues_def image_image)
  show ?thesis
  proof (cases "map_of (activeNode b) n \<noteq> None")
    case True
    with InsertNode_wf [OF wf, of n] act assms show ?thesis by simp
  next
    case False
    with InsertNode_wf [OF wf, of n] obtain p where
      "bq_wf newID (InsertNode n b) (bq_cells b @ [p])"
      "bq_queues (InsertNode n b) = bq_queues b @ [NewNodeQueue n]" by auto
    with act False bq_wf_inv show ?thesis by simp
  qed
qed

lemma InsertNode_inv: "bq_inv newID b \<Longrightarrow> bq_inv newID (InsertNode n b)"
  using InsertNode_refines by simp

lemma RemoveNode_refines:
  assumes "bq_inv newID b"
  shows "\<forall>q qs. bq_queues b = q # qs \<longrightarrow>
    (\<exists>b'. RemoveNode (nodeID q) b = ok b' \<and> bq_queues b' = qs \<and> bq_inv newID b')"
proof (intro allI impI)
  fix q qs assume "bq_queues b = q # qs"
  then obtain x xs where x: "bq_cells b = x # xs" "q = bq_get b x" "qs = map (bq_get b) xs"
    by (cases "bq_cells b") (auto simp: bq_queues_def)
  with bq_inv_wf [OF assms] have "bq_wf newID b (x # xs)" by simp
  from RemoveNode_current_wf [OF this] obtain b' where
    "RemoveNode (nodeID (bq_get b x)) b = ok b'" "bq_wf newID b' xs" "bq_get b' = bq_get b"
    by (auto simp: ensures_def)
  with bq_wf_queues [of newID b' xs] x bq_wf_inv
  show "\<exists>b'. RemoveNode (nodeID q) b = ok b' \<and> bq_queues b' = qs \<and> bq_inv newID b'" by auto
qed

lemma Current_refines:
  assumes "bq_inv newID b"
  shows "map_option (bq_get b) (BufferQueue_Current b) = (case bq_queues b of [] \<Rightarrow> None | q # _ \<Rightarrow> Some q)"
  using bq_wf_ring_None [OF bq_inv_wf [OF assms]] bq_wf_ring [of newID b] bq_inv_wf [OF assms]
  by (cases "bq_cells b") (auto simp: BufferQueue_Current_def bq_queues_def)

section \<open>Properties\<close>

text \<open>C28: Submitting a block to the buffer never panics and never fails to terminate.  If a block
  with its ID is among the submitted ones of its issuer, the buffer is unchanged and the error is returned; a block that has
  been made ready is no longer among these, and is accepted again.  Unless the error is returned,
  the buffer holds at most the maximum number of blocks afterwards (blocks, not bytes), and the blocks it held together
  with the new one are exactly the blocks it holds now and the ones whose IDs are returned as
  dropped.\<close>

theorem bufferqueue_submit:
  assumes "bq_inv newID b" and "wf_elem e" and "perm_ord ord" and "sane_rnd rnd" and "0 \<le> maxBuffer b"
  shows "\<exists>r b'. BufferQueue_Submit newID ord rnd b e mana = ok (r, b') \<and> bq_inv newID b' \<and>
    maxBuffer b' = maxBuffer b \<and>
    (case r of
       Inl err \<Rightarrow> is_waiting newID b e \<and> err = BlockAlreadySubmitted \<and> b' = b
     | Inr ids \<Rightarrow> \<not> is_waiting newID b e \<and> bq_size b' = min (bq_size b + 1) (maxBuffer b) \<and>
         (\<exists>D. ids = map elem_id D \<and> add_mset e (bq_content b) = mset D + bq_content b'))"
proof -
  have err: "err = BlockAlreadySubmitted" for err by (cases err)
  from bq_Submit_wf [OF bq_inv_wf [OF assms(1)] assms(2-5), of mana] obtain r b' where
    "BufferQueue_Submit newID ord rnd b e mana = ok (r, b')" "bq_inv newID b'"
    "maxBuffer b' = maxBuffer b"
    "case r of
       Inl err \<Rightarrow> is_waiting newID b e \<and> b' = b
     | Inr ids \<Rightarrow> \<not> is_waiting newID b e \<and> bq_size b' = min (bq_size b + 1) (maxBuffer b) \<and>
         (\<exists>D. ids = map elem_id D \<and> add_mset e (bq_content b) = mset D + bq_content b')"
    by (auto simp: ensures_def)
  then show ?thesis
    by (intro exI [of _ r] exI [of _ b']) (cases r; simp add: err)
qed

text \<open>C29: What one round of dropping does: the scan finds a node whose mana-scaled queue no other
  exceeds, and the block taken out is an oldest one of that node, waiting or ready.\<close>

theorem drop_oldest_of_longest:
  assumes "bq_inv newID b" and "perm_ord ord" and "sane_rnd rnd" and "0 < bq_size b"
  shows "\<exists>start ms n e b'. BufferQueue_Current b = Some start \<and>
    bq_round (longest_step rnd mana) start ((NegInf, replicate 32 0), b) = ok ((ms, n), b) \<and>
    dropOne newID ord n b = ok (elem_id e, b') \<and> bq_inv newID b' \<and>
    bq_content b = add_mset e (bq_content b') \<and> bq_size b' = bq_size b - 1 \<and>
    (\<exists>q \<in> set (bq_queues b). nodeID q = n \<and> e \<in># nq_all q \<and>
       (\<forall>e' \<in># nq_all q. IssuingTime e \<le> IssuingTime e') \<and>
       (\<forall>q' \<in> set (bq_queues b). mana_scale rnd mana q' \<le> mana_scale rnd mana q))"
proof -
  let ?xs = "bq_cells b"
  note wf = bq_inv_wf [OF assms(1)]
  have ne: "?xs \<noteq> []" using assms(4) wf by (auto simp: bq_wf_def)
  then have cur: "BufferQueue_Current b = Some (hd ?xs)"
    using bq_wf_ring [of newID b "hd ?xs" "tl ?xs"] wf by (simp add: BufferQueue_Current_def)
  obtain ms n where f: "fold (longest_pick rnd mana) (map (bq_get b) ?xs) (NegInf, replicate 32 0) = (ms, n)"
    by (cases "fold (longest_pick rnd mana) (map (bq_get b) ?xs) (NegInf, replicate 32 0)")
  from longest_nonempty [OF wf assms(3,4) f] obtain a where
    a: "a \<in> set ?xs" "nodeID (bq_get b a) = n" "0 < nq_size (bq_get b a)"
      "\<forall>a' \<in> set ?xs. mana_scale rnd mana (bq_get b a') \<le> mana_scale rnd mana (bq_get b a)" by auto
  from dropOne_wf [OF wf a(1) assms(2) a(3)] obtain e b' where
    d: "dropOne newID ord n b = ok (elem_id e, b')" "bq_wf newID b' ?xs" "dropped_from a e b b'"
    unfolding a(2) by (auto simp: ensures_def)
  with a cur bq_round_longest [OF wf ne] f bq_wf_inv [OF d(2)] show ?thesis
    by (auto simp: bq_queues_def dropped_from_def)
qed

text \<open>C27: The ring of cells implements a round robin list of queues: advancing rotates it, a new
  node's empty queue joins at its end, removing the current node takes its head off, and the
  current queue is its head.\<close>

theorem bufferqueue_round_robin:
  assumes "bq_inv newID b"
  shows "bq_queues (snd (BufferQueue_Next b)) = rotate1 (bq_queues b) \<and>
    bq_inv newID (snd (BufferQueue_Next b)) \<and>
    bq_queues (InsertNode n b) =
      (if n \<in> nodeID ` set (bq_queues b) then bq_queues b else bq_queues b @ [NewNodeQueue n]) \<and>
    bq_inv newID (InsertNode n b) \<and>
    (\<forall>q qs. bq_queues b = q # qs \<longrightarrow>
       (\<exists>b'. RemoveNode (nodeID q) b = ok b' \<and> bq_queues b' = qs \<and> bq_inv newID b')) \<and>
    map_option (bq_get b) (BufferQueue_Current b) = (case bq_queues b of [] \<Rightarrow> None | q # _ \<Rightarrow> Some q)"
  using Next_refines [OF assms] InsertNode_refines [OF assms] RemoveNode_refines [OF assms]
    Current_refines [OF assms] by simp

definition demo_buffer :: BufferQueue where
  "demo_buffer = InsertNode [3] (InsertNode [2] (InsertNode [1] (NewBufferQueue 2 1)))"

lemma demo_buffer_inv: "bq_inv id demo_buffer"
  unfolding demo_buffer_def
  by (intro InsertNode_inv bq_wf_inv [OF bq_wf_New])

lemma bufferqueue_round_robin_witness:
  "bq_queues (snd (BufferQueue_Next demo_buffer)) = rotate1 (bq_queues demo_buffer) \<and>
   map (nodeID) (bq_queues demo_buffer) = [[1], [2], [3]]"
proof -
  have "map nodeID (bq_queues demo_buffer) = [[1], [2], [3]]" by code_simp
  with bufferqueue_round_robin [OF demo_buffer_inv, of "[1]"] show ?thesis by simp
qed

lemma sane_rnd_id: "sane_rnd id"
  by (simp add: sane_rnd_def)

lemma perm_ord_id: "perm_ord id"
  by (simp add: perm_ord_def)

lemma bufferqueue_submit_witness:
  "\<exists>r b'. BufferQueue_Submit id id id demo_buffer (demo_elem 1 5 10 3) (\<lambda>_. 1) = ok (r, b') \<and>
     bq_inv id b' \<and> is_waiting id demo_buffer (demo_elem 1 5 10 3) = False"
proof -
  have e: "wf_elem (demo_elem 1 5 10 3)" by (simp add: wf_elem_def demo_elem_def ElementIDLength_def)
  have mb: "0 \<le> maxBuffer demo_buffer" by code_simp
  have nw: "is_waiting id demo_buffer (demo_elem 1 5 10 3) = False" by code_simp
  from bufferqueue_submit [OF demo_buffer_inv e perm_ord_id sane_rnd_id mb, of "\<lambda>_. 1"] nw
  show ?thesis by blast
qed

definition demo_filled :: BufferQueue where
  "demo_filled =
     (case BufferQueue_Submit id id id demo_buffer (demo_elem 1 5 10 3) (\<lambda>_. 1) of
        Inr (_, b) \<Rightarrow> b | Inl _ \<Rightarrow> demo_buffer)"

lemma demo_filled_facts: "bq_inv id demo_filled" "bq_size demo_filled = 1"
proof -
  have e: "wf_elem (demo_elem 1 5 10 3)" by (simp add: wf_elem_def demo_elem_def ElementIDLength_def)
  have mb: "0 \<le> maxBuffer demo_buffer" by code_simp
  from bq_Submit_wf [OF bq_inv_wf [OF demo_buffer_inv] e perm_ord_id sane_rnd_id mb, of "\<lambda>_. 1"]
  show "bq_inv id demo_filled" by (auto simp: ensures_def demo_filled_def)
  show "bq_size demo_filled = 1" by code_simp
qed

lemma drop_oldest_of_longest_witness:
  "\<exists>start ms n e b'. BufferQueue_Current demo_filled = Some start \<and>
    bq_round (longest_step id (\<lambda>_. 1)) start ((NegInf, replicate 32 0), demo_filled) = ok ((ms, n), demo_filled) \<and>
    dropOne id id n demo_filled = ok (elem_id e, b') \<and> bq_inv id b'"
proof -
  have "0 < bq_size demo_filled" using demo_filled_facts by simp
  from drop_oldest_of_longest [OF demo_filled_facts(1) perm_ord_id sane_rnd_id this, of "\<lambda>_. 1"]
  show ?thesis by blast
qed

text \<open>Removing a node other than the current one does not take its queue out of the ring:
  ringRemove links to the successor of the current cell, not of the removed one.  With
  the nodes 1 (current), 2 and 3, removing 3 takes 2 out of the ring and leaves 3 in it, and
  removing 2 takes nothing out, while activeNode loses the node named.\<close>

theorem ringRemove_removes_wrong_node:
  "map nodeID (bq_queues demo_buffer) = [[1], [2], [3]] \<and>
   (\<exists>b'. RemoveNode [3] demo_buffer = ok b' \<and> map nodeID (bq_queues b') = [[1], [3]] \<and>
      map fst (activeNode b') = [[1], [2]]) \<and>
   (\<exists>b'. RemoveNode [2] demo_buffer = ok b' \<and> map nodeID (bq_queues b') = [[1], [2], [3]] \<and>
      map fst (activeNode b') = [[1], [3]])"
proof -
  have "map nodeID (bq_queues demo_buffer) = [[1], [2], [3]]" by code_simp
  moreover have "map_sum id (\<lambda>b. (map nodeID (bq_queues b), map fst (activeNode b))) (RemoveNode [3] demo_buffer)
      = Inr ([[1], [3]], [[1], [2]])" by code_simp
  moreover have "map_sum id (\<lambda>b. (map nodeID (bq_queues b), map fst (activeNode b))) (RemoveNode [2] demo_buffer)
      = Inr ([[1], [2], [3]], [[1], [3]])" by code_simp
  ultimately show ?thesis
    by (cases "RemoveNode [3] demo_buffer"; cases "RemoveNode [2] demo_buffer") auto
qed

end
