(* ===== verification/Scheduler.thy ===== *)
theory Scheduler
  imports BufferQueueLaws
begin

text \<open>
  packages/core/mesh_old/scheduler.go and
  schedulerutils/accessmanacache.go: the deficit round robin scheduler.

  Deficits and quanta are the code's exact rationals (big.Rat); mana values are
  rationals, converted to int64 where the code does.  The synchronised clock (now) and the confirmation oracle
  (confirmed) are read at one instant of a call.  The mana plugin's retrievers are the
  parameters vec and totalV: the values they return in this call.
\<close>

section \<open>The mana cache\<close>

record AccessManaCache =
  rawAccessManaVector :: "(node_id \<times> rat) list"
  cacheRefreshTime :: gotime
  minMana :: rat
  totalMana :: rat

definition manaCacheLifeTime :: duration where
  "manaCacheLifeTime = 5 * 10 ^ 9"

definition NewAccessManaCache :: "rat \<Rightarrow> AccessManaCache" where
  "NewAccessManaCache m =
     \<lparr>rawAccessManaVector = [], cacheRefreshTime = 0, minMana = m, totalMana = 0\<rparr>"

definition GetCachedMana :: "AccessManaCache \<Rightarrow> node_id \<Rightarrow> rat" where
  "GetCachedMana c n =
     (case map_of (rawAccessManaVector c) n of
        Some m \<Rightarrow> if minMana c \<le> m then m else minMana c
      | None \<Rightarrow> minMana c)"

definition GetCachedTotalMana :: "AccessManaCache \<Rightarrow> rat" where
  "GetCachedTotalMana c = max 1 (totalMana c)"

definition RefreshCacheIfNecessary ::
  "gotime \<Rightarrow> (node_id \<times> rat) list \<Rightarrow> rat \<Rightarrow> AccessManaCache \<Rightarrow> AccessManaCache" where
  "RefreshCacheIfNecessary now vec totalV c =
     (if manaCacheLifeTime < now - cacheRefreshTime c
      then c\<lparr>rawAccessManaVector := vec, totalMana := totalV, cacheRefreshTime := now\<rparr>
      else c)"

section \<open>State\<close>

record Scheduler =
  sch_stopped :: bool
  accessManaCache :: AccessManaCache
  sch_buffer :: BufferQueue
  deficits :: "(node_id \<times> rat) list"
  confirmedBlkThreshold :: duration

definition MinMana :: rat where
  "MinMana = 1"

definition MaxBlockSize :: int where
  "MaxBlockSize = 64 * 1024"

definition MaxDeficit :: rat where
  "MaxDeficit = of_int MaxBlockSize"

definition NewScheduler :: "int \<Rightarrow> int \<Rightarrow> duration \<Rightarrow> (rat \<Rightarrow> rat) \<Rightarrow> Scheduler" where
  "NewScheduler maxBufferSize totalSupply threshold rnd =
     \<lparr>sch_stopped = False, accessManaCache = NewAccessManaCache MinMana,
      sch_buffer = NewBufferQueue maxBufferSize (rnd (of_int maxBufferSize / of_int totalSupply)),
      deficits = [], confirmedBlkThreshold = threshold\<rparr>"

definition minRat :: "rat \<Rightarrow> rat \<Rightarrow> rat" where
  "minRat x y = (if x < y then x else y)"

definition maxRat :: "rat \<Rightarrow> rat \<Rightarrow> rat" where
  "maxRat x y = (if y < x then x else y)"

definition GetDeficit :: "Scheduler \<Rightarrow> node_id \<Rightarrow> rat" where
  "GetDeficit s n = (case map_of (deficits s) n of None \<Rightarrow> 0 | Some d \<Rightarrow> d)"

definition updateDeficit :: "node_id \<Rightarrow> rat \<Rightarrow> Scheduler \<Rightarrow> Scheduler go" where
  "updateDeficit n d s =
     (let deficit = GetDeficit s n + d
      in if deficit < 0 then fail (Raised ''scheduler: deficit is less than 0'')
         else ok (s\<lparr>deficits := AList.update n (minRat deficit MaxDeficit) (deficits s)\<rparr>))"

text \<open>
  The conversion int64(x) of a floating point number: it drops the fraction.  Outside the range of int64 Go leaves
  the result to the platform; here it is the nearest bound, as on arm64.
\<close>

definition to_int64 :: "rat \<Rightarrow> int" where
  "to_int64 x = max (- (2 ^ 63)) (min (2 ^ 63 - 1) (if 0 \<le> x then \<lfloor>x\<rfloor> else \<lceil>x\<rceil>))"

definition GetManaFromCache :: "Scheduler \<Rightarrow> node_id \<Rightarrow> int" where
  "GetManaFromCache s n = to_int64 (of_int \<lceil>GetCachedMana (accessManaCache s) n\<rceil>)"

text \<open>big.NewRat and Inv panic on a zero denominator.\<close>

definition NewRat :: "int \<Rightarrow> int \<Rightarrow> rat go" where
  "NewRat a b = (if b = 0 then fail DivisionByZero else ok (of_int a / of_int b))"

definition InvRat :: "rat \<Rightarrow> rat go" where
  "InvRat x = (if x = 0 then fail DivisionByZero else ok (1 / x))"

definition Quanta :: "Scheduler \<Rightarrow> node_id \<Rightarrow> rat go" where
  "Quanta s n = NewRat (GetManaFromCache s n) (to_int64 (GetCachedTotalMana (accessManaCache s)))"

section \<open>Submitting\<close>

datatype scheduler_error = ErrNotRunning

text \<open>
  The discarded block IDs are the second component: the metadata and the
  BlockDiscarded events of the code.
\<close>

definition scheduler_submit ::
  "(pubkey \<Rightarrow> node_id) \<Rightarrow> ((ElementID \<times> Element) list \<Rightarrow> (ElementID \<times> Element) list) \<Rightarrow>
   (rat \<Rightarrow> rat) \<Rightarrow> gotime \<Rightarrow> (node_id \<times> rat) list \<Rightarrow> rat \<Rightarrow> Element \<Rightarrow> Scheduler \<Rightarrow>
   ((scheduler_error + ElementID list) \<times> Scheduler) go" where
  "scheduler_submit newID ord rnd now vec totalV e s =
     (if sch_stopped s then ok (Inl ErrNotRunning, s)
      else let s1 = s\<lparr>accessManaCache := RefreshCacheIfNecessary now vec totalV (accessManaCache s)\<rparr>
           in bindE (BufferQueue_Submit newID ord rnd (sch_buffer s1) e (GetCachedMana (accessManaCache s1)))
                (\<lambda>(r, b). case r of
                   Inl BlockAlreadySubmitted \<Rightarrow> fail (Raised ''failed to submit: block already submitted'')
                 | Inr dropped \<Rightarrow> ok (Inr dropped, s1\<lparr>sch_buffer := b\<rparr>)))"

definition scheduler_unsubmit :: "(pubkey \<Rightarrow> node_id) \<Rightarrow> Element \<Rightarrow> Scheduler \<Rightarrow> Scheduler go" where
  "scheduler_unsubmit newID e s =
     bindE (BufferQueue_Unsubmit newID (sch_buffer s) e) (\<lambda>(_, b). ok (s\<lparr>sch_buffer := b\<rparr>))"

definition scheduler_ready :: "(pubkey \<Rightarrow> node_id) \<Rightarrow> Element \<Rightarrow> Scheduler \<Rightarrow> Scheduler go" where
  "scheduler_ready newID e s =
     bindE (BufferQueue_Ready newID (sch_buffer s) e) (\<lambda>(_, b). ok (s\<lparr>sch_buffer := b\<rparr>))"

definition SubmitAndReady ::
  "(pubkey \<Rightarrow> node_id) \<Rightarrow> ((ElementID \<times> Element) list \<Rightarrow> (ElementID \<times> Element) list) \<Rightarrow>
   (rat \<Rightarrow> rat) \<Rightarrow> gotime \<Rightarrow> (node_id \<times> rat) list \<Rightarrow> rat \<Rightarrow> Element \<Rightarrow> Scheduler \<Rightarrow>
   ((scheduler_error + ElementID list) \<times> Scheduler) go" where
  "SubmitAndReady newID ord rnd now vec totalV e s =
     bindE (scheduler_submit newID ord rnd now vec totalV e s) (\<lambda>(r, s1).
       case r of
         Inl err \<Rightarrow> ok (Inl err, s1)
       | Inr dropped \<Rightarrow> bindE (scheduler_ready newID e s1) (\<lambda>s2. ok (Inr dropped, s2)))"

definition Shutdown :: "Scheduler \<Rightarrow> Scheduler" where
  "Shutdown s = s\<lparr>sch_stopped := True\<rparr>"

definition NodeQueueSize :: "Scheduler \<Rightarrow> node_id \<Rightarrow> int" where
  "NodeQueueSize s n = NodeQueue_Size (BufferQueue_NodeQueue (sch_buffer s) n)"

section \<open>The list of active nodes\<close>

text \<open>The loop that removes nodes without mana and blocks; the counter is the number of active nodes.\<close>

fun removeInactive ::
  "(node_id \<times> rat) list \<Rightarrow> nat \<Rightarrow> addr option \<Rightarrow> Scheduler \<Rightarrow> Scheduler go" where
  "removeInactive manaCache 0 cur s = ok s"
| "removeInactive manaCache (Suc i) cur s =
     (case cur of
        None \<Rightarrow> fail NilDereference
      | Some a \<Rightarrow>
          (let q = bq_get (sch_buffer s) a;
               lowMana = (case map_of manaCache (nodeID q) of None \<Rightarrow> True | Some m \<Rightarrow> m < MinMana)
           in if lowMana \<and> nq_size q = 0
              then bindE (RemoveNode (nodeID q) (sch_buffer s)) (\<lambda>b.
                     let s' = s\<lparr>sch_buffer := b, deficits := AList.delete (nodeID q) (deficits s)\<rparr>
                     in removeInactive manaCache i (BufferQueue_Current b) s')
              else let (cur', b) = BufferQueue_Next (sch_buffer s)
                   in removeInactive manaCache i cur' (s\<lparr>sch_buffer := b\<rparr>)))"

fun addActive :: "(node_id \<times> rat) list \<Rightarrow> Scheduler \<Rightarrow> Scheduler" where
  "addActive [] s = s"
| "addActive ((n, m) # vec) s =
     (if m < MinMana then addActive vec s
      else if map_of (deficits s) n = None
      then addActive vec (s\<lparr>deficits := AList.update n 0 (deficits s),
                            sch_buffer := InsertNode n (sch_buffer s)\<rparr>)
      else addActive vec s)"

text \<open>The association list manaCache is the map in the order Go ranges over it.\<close>

definition updateActiveNodesList :: "(node_id \<times> rat) list \<Rightarrow> Scheduler \<Rightarrow> Scheduler go" where
  "updateActiveNodesList manaCache s =
     bindE (removeInactive manaCache (NumActiveNodes (sch_buffer s)) (BufferQueue_Current (sch_buffer s)) s)
       (\<lambda>s'. ok (addActive manaCache s'))"

section \<open>Scheduling\<close>

definition sch_Next :: "Scheduler \<Rightarrow> addr option \<times> Scheduler" where
  "sch_Next s = (let (q, b) = BufferQueue_Next (sch_buffer s) in (q, s\<lparr>sch_buffer := b\<rparr>))"

text \<open>Loop variables of the first loop: rounds, schedulingNode and the skipped block IDs.\<close>

type_synonym sched_locals = "rat \<times> addr option \<times> ElementID list"

definition MaxInt64 :: int where
  "MaxInt64 = 2 ^ 63 - 1"

text \<open>The inner loop on one queue: drop confirmed blocks, then consider the first other one.\<close>

fun considerQueue ::
  "gotime \<Rightarrow> (ElementID \<Rightarrow> bool) \<Rightarrow> nat \<Rightarrow> addr \<Rightarrow> sched_locals \<times> Scheduler \<Rightarrow> (sched_locals \<times> Scheduler) go" where
  "considerQueue now confirmed fuel a ((rounds, sn, skipped), s) =
     (case NodeQueue_Front (Some (bq_get (sch_buffer s) a)) of
        None \<Rightarrow> ok ((rounds, sn, skipped), s)
      | Some blk \<Rightarrow>
          if now < IssuingTime blk then ok ((rounds, sn, skipped), s)
          else if length (IDBytes blk) < ElementIDLength then fail (Raised ''BlockID could not be parsed!'')
          else if confirmed (elem_id blk) \<and> confirmedBlkThreshold s < now - IssuingTime blk
          then (case fuel of
                  0 \<Rightarrow> fail Diverges
                | Suc m \<Rightarrow> bindE (BufferQueue_PopFront (sch_buffer s)) (\<lambda>(_, b).
                    considerQueue now confirmed m a
                      ((rounds, sn, skipped @ [elem_id blk]), s\<lparr>sch_buffer := b\<rparr>)))
          else let n = nodeID (bq_get (sch_buffer s) a);
                   remaining = maxRat (of_int (elem_Size blk) - GetDeficit s n) 0
               in bindE (Quanta s n) (\<lambda>quanta. bindE (InvRat quanta) (\<lambda>inv.
                    let r = remaining * inv
                    in if r < rounds then ok ((r, Some a, skipped), s)
                       else ok ((rounds, sn, skipped), s))))"

declare considerQueue.simps [simp del]

definition considerBody ::
  "gotime \<Rightarrow> (ElementID \<Rightarrow> bool) \<Rightarrow> addr \<Rightarrow> sched_locals \<times> Scheduler \<Rightarrow> (sched_locals \<times> Scheduler) go" where
  "considerBody now confirmed a ls =
     considerQueue now confirmed (length (inbox (bq_get (sch_buffer (snd ls)) a))) a ls"

definition creditBody :: "rat \<Rightarrow> addr \<Rightarrow> unit \<times> Scheduler \<Rightarrow> (unit \<times> Scheduler) go" where
  "creditBody rounds a = (\<lambda>(u, s).
     (let n = nodeID (bq_get (sch_buffer s) a)
      in bindE (Quanta s n) (\<lambda>quanta. bindE (updateDeficit n (quanta * rounds) s) (\<lambda>s'. ok (u, s')))))"

definition creditOnce :: "addr \<Rightarrow> Scheduler \<Rightarrow> Scheduler go" where
  "creditOnce a s =
     (let n = nodeID (bq_get (sch_buffer s) a)
      in bindE (Quanta s n) (\<lambda>quanta. updateDeficit n quanta s))"

definition sch_fuel :: "Scheduler \<Rightarrow> nat" where
  "sch_fuel s = ring_fresh (bq_store (sch_buffer s))"

text \<open>The part of schedule after the active nodes have been updated.\<close>

definition schedule_round ::
  "(pubkey \<Rightarrow> node_id) \<Rightarrow> gotime \<Rightarrow> (ElementID \<Rightarrow> bool) \<Rightarrow> addr \<Rightarrow> Scheduler \<Rightarrow>
   (Element option \<times> ElementID list \<times> Scheduler) go" where
  "schedule_round newID now confirmed start s =
     bindE (for_ring (sch_fuel s) sch_Next start (considerBody now confirmed) start
              ((of_int MaxInt64, None, []), s)) (\<lambda>((rounds, sn, skipped), s1).
     case sn of
       None \<Rightarrow> ok (None, skipped, s1)
     | Some a \<Rightarrow>
         bindE (if 0 < rounds
                then bindE (for_ring (sch_fuel s1) sch_Next start (creditBody rounds) start ((), s1))
                       (\<lambda>(_, s'). ok s')
                else ok s1) (\<lambda>s2.
         bindE (for_until (sch_fuel s2) sch_Next a creditOnce start s2) (\<lambda>s3.
         bindE (BufferQueue_PopFront (sch_buffer s3)) (\<lambda>(blk, b).
         bindE (updateDeficit (newID (IssuerPublicKey blk)) (- of_int (elem_Size blk))
                  (s3\<lparr>sch_buffer := b\<rparr>)) (\<lambda>s4.
         ok (Some blk, skipped, s4))))))"

definition schedule ::
  "(pubkey \<Rightarrow> node_id) \<Rightarrow> gotime \<Rightarrow> (ElementID \<Rightarrow> bool) \<Rightarrow> (node_id \<times> rat) list \<Rightarrow> rat \<Rightarrow> Scheduler \<Rightarrow>
   (Element option \<times> ElementID list \<times> Scheduler) go" where
  "schedule newID now confirmed vec totalV s =
     (let s0 = s\<lparr>accessManaCache := RefreshCacheIfNecessary now vec totalV (accessManaCache s)\<rparr>
      in bindE (updateActiveNodesList (rawAccessManaVector (accessManaCache s0)) s0) (\<lambda>s1.
         case BufferQueue_Current (sch_buffer s1) of
           None \<Rightarrow> ok (None, [], s1)
         | Some start \<Rightarrow> schedule_round newID now confirmed start s1))"

end
