(* ===== verification/SchedulerLaws.thy ===== *)
theory SchedulerLaws
  imports Scheduler
begin

text \<open>
  What the scheduler does: its invariant sch_inv, the effect of updating the list of
  active nodes, the choice of the node to schedule, and the deficits afterwards.
\<close>

section \<open>The buffer without its cursor\<close>

definition bq_data :: "(pubkey \<Rightarrow> node_id) \<Rightarrow> BufferQueue \<Rightarrow> addr list \<Rightarrow> bool" where
  "bq_data newID b xs \<longleftrightarrow>
     (\<forall>a \<in> set xs. nq_inv newID (bq_get b a)) \<and>
     distinct (map (\<lambda>a. nodeID (bq_get b a)) xs) \<and>
     mset (activeNode b) = mset (map (\<lambda>a. (nodeID (bq_get b a), a)) xs) \<and>
     bq_size b = (\<Sum>a\<leftarrow>xs. nq_size (bq_get b a))"

lemma bq_wf_data: "bq_wf newID b xs \<longleftrightarrow> bq_order b xs \<and> bq_data newID b xs"
  by (simp add: bq_wf_def bq_data_def)

lemma sum_list_perm: "mset xs = mset ys \<Longrightarrow> (\<Sum>x\<leftarrow>xs. f x) = (\<Sum>x\<leftarrow>ys. (f x :: 'a :: comm_monoid_add))"
  by (metis mset_map sum_mset_sum_list)

lemma bq_data_perm:
  assumes "mset xs = mset ys" and "bq_data newID b xs"
  shows "bq_data newID b ys"
proof -
  have "set xs = set ys" using assms(1) by (rule mset_eq_setD)
  moreover have "distinct (map (\<lambda>a. nodeID (bq_get b a)) xs) = distinct (map (\<lambda>a. nodeID (bq_get b a)) ys)"
    using assms(1) by (intro mset_eq_imp_distinct_iff) simp
  ultimately show ?thesis
    using assms(2) sum_list_perm [OF assms(1), of "\<lambda>a. nq_size (bq_get b a)"] assms(1)
    by (simp add: bq_data_def)
qed

lemma bq_wf_rotate:
  "bq_data newID b (us @ y # vs) \<Longrightarrow> bq_order b (y # vs @ us) \<Longrightarrow> bq_wf newID b (y # vs @ us)"
  unfolding bq_wf_data by (auto intro: bq_data_perm [rotated])

lemma bq_data_cursor [simp]: "bq_data newID (b\<lparr>bq_ring := r\<rparr>) xs = bq_data newID b xs"
  by (simp add: bq_data_def)

definition content_of :: "BufferQueue \<Rightarrow> addr list \<Rightarrow> Element multiset" where
  "content_of b xs = (\<Sum>a\<leftarrow>xs. nq_all (bq_get b a))"

lemma content_of_wf: "bq_wf newID b xs \<Longrightarrow> bq_content b = content_of b xs"
  by (simp add: bq_wf_content content_of_def)

lemma content_of_perm: "mset xs = mset ys \<Longrightarrow> content_of b xs = content_of b ys"
  unfolding content_of_def by (rule sum_list_perm)

lemma content_of_cursor [simp]: "content_of (b\<lparr>bq_ring := r\<rparr>) xs = content_of b xs"
  by (simp add: content_of_def)

section \<open>The scheduler as a ring cursor\<close>

definition sch_same :: "Scheduler \<Rightarrow> Scheduler \<Rightarrow> bool" where
  "sch_same s s' \<longleftrightarrow> s' = s\<lparr>sch_buffer := (sch_buffer s)\<lparr>bq_ring := bq_ring (sch_buffer s')\<rparr>\<rparr>"

lemma sch_same_refl [simp]: "sch_same s s"
  by (simp add: sch_same_def)

lemma sch_sameD:
  assumes "sch_same s s'"
  shows "sch_buffer s' = (sch_buffer s)\<lparr>bq_ring := bq_ring (sch_buffer s')\<rparr>"
    "deficits s' = deficits s" "accessManaCache s' = accessManaCache s"
    "confirmedBlkThreshold s' = confirmedBlkThreshold s" "sch_stopped s' = sch_stopped s"
    "bq_get (sch_buffer s') = bq_get (sch_buffer s)" "maxBuffer (sch_buffer s') = maxBuffer (sch_buffer s)"
    "bq_store (sch_buffer s') = bq_store (sch_buffer s)" "bq_size (sch_buffer s') = bq_size (sch_buffer s)"
    "activeNode (sch_buffer s') = activeNode (sch_buffer s)"
  by (subst assms [unfolded sch_same_def], simp)+

lemma sch_same_data:
  assumes "sch_same s s'"
  shows "bq_data newID (sch_buffer s') xs = bq_data newID (sch_buffer s) xs"
    and "content_of (sch_buffer s') xs = content_of (sch_buffer s) xs"
  by (subst sch_sameD(1) [OF assms], simp)+

interpretation sch: ring_cursor sch_Next "\<lambda>s xs. bq_order (sch_buffer s) xs" sch_same
proof (unfold_locales, goal_cases)
  case (1 s x xs)
  from bq.nxt_ok [OF 1] obtain b' where
    "BufferQueue_Next (sch_buffer s) = (Some (hd (xs @ [x])), b')" "bq_order b' (xs @ [x])"
    "bq_same (sch_buffer s) b'" by blast
  then show ?case by (auto simp: sch_Next_def sch_same_def bq_same_def)
next
  case (2 s xs)
  then show ?case by (rule bq.order_distinct)
qed

section \<open>Quanta and deficits\<close>

definition mana_floor :: "Scheduler \<Rightarrow> bool" where
  "mana_floor s \<longleftrightarrow> 1 \<le> minMana (accessManaCache s)"

definition quantum :: "Scheduler \<Rightarrow> node_id \<Rightarrow> rat" where
  "quantum s n = of_int (GetManaFromCache s n) / of_int (to_int64 (GetCachedTotalMana (accessManaCache s)))"

lemma GetCachedMana_ge: "minMana c \<le> GetCachedMana c n"
  by (auto simp: GetCachedMana_def split: option.splits)

lemma to_int64_pos: "1 \<le> x \<Longrightarrow> 1 \<le> to_int64 x"
  by (simp add: to_int64_def le_floor_iff)

lemma total_mana_pos: "1 \<le> to_int64 (GetCachedTotalMana c)"
  by (rule to_int64_pos) (simp add: GetCachedTotalMana_def)

lemma mana_pos: "mana_floor s \<Longrightarrow> 1 \<le> GetManaFromCache s n"
  using GetCachedMana_ge [of "accessManaCache s" n] unfolding GetManaFromCache_def
  by (intro to_int64_pos) (simp add: mana_floor_def one_le_ceiling)

lemma quantum_pos: "mana_floor s \<Longrightarrow> 0 < quantum s n"
  using mana_pos [of s n] total_mana_pos [of "accessManaCache s"] by (simp add: quantum_def)

lemma Quanta_ok: "Quanta s n = ok (quantum s n)"
proof -
  have "to_int64 (GetCachedTotalMana (accessManaCache s)) \<noteq> 0"
    using total_mana_pos [of "accessManaCache s"] by linarith
  then show ?thesis by (simp only: Quanta_def NewRat_def quantum_def if_False)
qed

lemma quantum_cache: "accessManaCache s' = accessManaCache s \<Longrightarrow> quantum s' n = quantum s n"
  by (simp add: quantum_def GetManaFromCache_def)

lemma InvRat_quantum: "mana_floor s \<Longrightarrow> InvRat (quantum s n) = ok (1 / quantum s n)"
  using quantum_pos [of s n] by (simp add: InvRat_def)

definition deficits_ok :: "Scheduler \<Rightarrow> bool" where
  "deficits_ok s \<longleftrightarrow> distinct (map fst (deficits s)) \<and>
     (\<forall>(n, d) \<in> set (deficits s). 0 \<le> d \<and> d \<le> MaxDeficit)"

lemma MaxDeficit_pos: "0 < MaxDeficit"
  by (simp add: MaxDeficit_def MaxBlockSize_def)

lemma GetDeficit_range:
  assumes "deficits_ok s"
  shows "0 \<le> GetDeficit s n" and "GetDeficit s n \<le> MaxDeficit"
proof -
  have "0 \<le> GetDeficit s n \<and> GetDeficit s n \<le> MaxDeficit"
  proof (cases "map_of (deficits s) n")
    case (Some d)
    then show ?thesis using assms map_of_SomeD [OF Some] by (auto simp: deficits_ok_def GetDeficit_def)
  qed (use MaxDeficit_pos in \<open>simp add: GetDeficit_def\<close>)
  then show "0 \<le> GetDeficit s n" and "GetDeficit s n \<le> MaxDeficit" by auto
qed

lemma minRat_min: "minRat x y = min x y"
  by (simp add: minRat_def min_def)

lemma updateDeficit_ok:
  assumes "deficits_ok s" and "0 \<le> GetDeficit s n + d"
  shows "\<exists>s'. updateDeficit n d s = ok s' \<and> deficits_ok s' \<and>
    s' = s\<lparr>deficits := AList.update n (min (GetDeficit s n + d) MaxDeficit) (deficits s)\<rparr> \<and>
    (\<forall>m. GetDeficit s' m = (if m = n then min (GetDeficit s n + d) MaxDeficit else GetDeficit s m))"
proof -
  let ?v = "min (GetDeficit s n + d) MaxDeficit"
  have "\<forall>(m, x) \<in> set (AList.update n ?v (deficits s)). 0 \<le> x \<and> x \<le> MaxDeficit"
    using assms MaxDeficit_pos set_update_subset [of n ?v "deficits s"]
    by (auto simp: deficits_ok_def)
  with assms show ?thesis
    by (auto simp: updateDeficit_def Let_def minRat_min deficits_ok_def GetDeficit_def update_conv')
qed

text \<open>Everything but the buffer and the deficits.\<close>

definition sch_frame :: "Scheduler \<Rightarrow> Scheduler \<Rightarrow> bool" where
  "sch_frame s s' \<longleftrightarrow> accessManaCache s' = accessManaCache s \<and>
     confirmedBlkThreshold s' = confirmedBlkThreshold s \<and> sch_stopped s' = sch_stopped s \<and>
     maxBuffer (sch_buffer s') = maxBuffer (sch_buffer s)"

lemma sch_frame_refl [simp]: "sch_frame s s"
  by (simp add: sch_frame_def)

lemma sch_frame_trans: "sch_frame s s' \<Longrightarrow> sch_frame s' s'' \<Longrightarrow> sch_frame s s''"
  by (simp add: sch_frame_def)

lemma sch_same_frame: "sch_same s s' \<Longrightarrow> sch_frame s s'"
  unfolding sch_frame_def by (blast dest: sch_sameD)

lemma sch_frame_quantum: "sch_frame s s' \<Longrightarrow> quantum s' n = quantum s n"
  unfolding sch_frame_def by (blast intro: quantum_cache)

lemma sch_frame_mana: "sch_frame s s' \<Longrightarrow> mana_floor s' = mana_floor s"
  by (simp add: sch_frame_def mana_floor_def)

section \<open>Removing inactive nodes\<close>

definition low_mana :: "(node_id \<times> rat) list \<Rightarrow> node_id \<Rightarrow> bool" where
  "low_mana vec n \<longleftrightarrow> (case map_of vec n of None \<Rightarrow> True | Some m \<Rightarrow> m < MinMana)"

definition keeps :: "(node_id \<times> rat) list \<Rightarrow> NodeQueue \<Rightarrow> bool" where
  "keeps vec q \<longleftrightarrow> \<not> (low_mana vec (nodeID q) \<and> nq_size q = 0)"

lemma removeInactive_wf:
  assumes "bq_wf newID (sch_buffer s) (zs @ ys)"
  shows "ensures (removeInactive vec (length zs) (BufferQueue_Current (sch_buffer s)) s) (\<lambda>s'.
    bq_wf newID (sch_buffer s') (ys @ filter (\<lambda>a. keeps vec (bq_get (sch_buffer s) a)) zs) \<and>
    bq_get (sch_buffer s') = bq_get (sch_buffer s) \<and> sch_frame s s' \<and>
    (distinct (map fst (deficits s)) \<longrightarrow> distinct (map fst (deficits s'))) \<and>
    (\<forall>n. map_of (deficits s') n =
      (if \<exists>a \<in> set zs. nodeID (bq_get (sch_buffer s) a) = n \<and> \<not> keeps vec (bq_get (sch_buffer s) a)
       then None else map_of (deficits s) n)))"
  using assms
proof (induction zs arbitrary: s ys)
  case (Cons z zs)
  let ?b = "sch_buffer s" let ?q = "bq_get ?b z"
  have cur: "BufferQueue_Current ?b = Some z"
    using bq_wf_ring [of newID ?b z "zs @ ys"] Cons.prems by (simp add: BufferQueue_Current_def)
  have lm: "(case map_of vec (nodeID ?q) of None \<Rightarrow> True | Some m \<Rightarrow> m < MinMana) = low_mana vec (nodeID ?q)"
    by (simp add: low_mana_def)
  show ?case
  proof (cases "keeps vec ?q")
    case True
    let ?s = "s\<lparr>sch_buffer := ?b\<lparr>bq_ring := Some (hd ((zs @ ys) @ [z]))\<rparr>\<rparr>"
    have "bq_wf newID ?b (z # (zs @ ys))" using Cons.prems by simp
    from bq_Next_wf [OF this] have nx: "BufferQueue_Next ?b = (Some (hd ((zs @ ys) @ [z])), sch_buffer ?s)"
      "bq_wf newID (sch_buffer ?s) (zs @ (ys @ [z]))" by auto
    have c2: "BufferQueue_Current (sch_buffer ?s) = Some (hd ((zs @ ys) @ [z]))"
      by (simp add: BufferQueue_Current_def)
    have eq: "removeInactive vec (length (z # zs)) (BufferQueue_Current ?b) s
        = removeInactive vec (length zs) (BufferQueue_Current (sch_buffer ?s)) ?s"
    proof -
      have n1: "(low_mana vec (nodeID ?q) \<and> nq_size ?q = 0) = False"
        using True by (simp add: keeps_def)
      show ?thesis
        by (simp only: removeInactive.simps length_Cons cur option.case lm Let_def n1 if_False
            nx(1) prod.case c2) simp
    qed
    show ?thesis
      unfolding eq by (rule ensures_mono [OF Cons.IH [OF nx(2)]]) (use True in \<open>auto simp: sch_frame_def\<close>)
  next
    case False
    have wf0: "bq_wf newID ?b (z # (zs @ ys))" using Cons.prems by simp
    from RemoveNode_current_wf [OF wf0] obtain b where
      b: "RemoveNode (nodeID ?q) ?b = ok b" "bq_wf newID b (zs @ ys)" "bq_get b = bq_get ?b"
        "maxBuffer b = maxBuffer ?b"
      by (auto simp: ensures_def)
    let ?s = "s\<lparr>sch_buffer := b, deficits := AList.delete (nodeID ?q) (deficits s)\<rparr>"
    have wf1: "bq_wf newID (sch_buffer ?s) (zs @ ys)" using b by simp
    have eq: "removeInactive vec (length (z # zs)) (BufferQueue_Current ?b) s
        = removeInactive vec (length zs) (BufferQueue_Current (sch_buffer ?s)) ?s"
      using False b cur by (simp add: keeps_def lm Let_def)
    show ?thesis
      unfolding eq
      by (rule ensures_mono [OF Cons.IH [OF wf1]])
        (use False b in \<open>auto simp: sch_frame_def delete_conv' fun_upd_apply split: if_splits\<close>)
  qed
qed simp

section \<open>Adding nodes with mana\<close>

definition deficit_nodes :: "Scheduler \<Rightarrow> bool" where
  "deficit_nodes s \<longleftrightarrow> fst ` set (deficits s) \<subseteq> fst ` set (activeNode (sch_buffer s))"

lemma bq_wf_active_fst:
  assumes "bq_wf newID b xs"
  shows "fst ` set (activeNode b) = nodeID ` set (bq_queues b)"
  unfolding mset_eq_setD [OF bq_wf_mset [OF assms]] bq_wf_queues [OF assms] by force

lemma addActive_wf:
  assumes "bq_wf newID (sch_buffer s) xs" and "deficits_ok s"
  shows "\<exists>ps ns. bq_wf newID (sch_buffer (addActive vec s)) (xs @ ps) \<and>
    bq_queues (sch_buffer (addActive vec s)) = bq_queues (sch_buffer s) @ map NewNodeQueue ns \<and>
    sch_frame s (addActive vec s) \<and> bq_size (sch_buffer (addActive vec s)) = bq_size (sch_buffer s) \<and>
    deficits_ok (addActive vec s) \<and>
    (\<forall>n. GetDeficit (addActive vec s) n = GetDeficit s n) \<and>
    (deficit_nodes s \<longrightarrow> deficit_nodes (addActive vec s))"
  using assms
proof (induction vec s arbitrary: xs rule: addActive.induct)
  case (1 s)
  then show ?case by (auto intro: exI [of _ "[]"])
next
  case (2 n m vec s)
  show ?case
  proof (cases "\<not> m < MinMana \<and> map_of (deficits s) n = None")
    case False
    then have eq: "addActive ((n, m) # vec) s = addActive vec s" by (cases "m < MinMana") auto
    show ?thesis
      unfolding eq
    proof (cases "m < MinMana")
      case True
      from 2(1) [OF True 2(4,5)]
      show "\<exists>ps ns. bq_wf newID (sch_buffer (addActive vec s)) (xs @ ps) \<and>
        bq_queues (sch_buffer (addActive vec s)) = bq_queues (sch_buffer s) @ map NewNodeQueue ns \<and>
        sch_frame s (addActive vec s) \<and> bq_size (sch_buffer (addActive vec s)) = bq_size (sch_buffer s) \<and>
        deficits_ok (addActive vec s) \<and> (\<forall>n. GetDeficit (addActive vec s) n = GetDeficit s n) \<and>
        (deficit_nodes s \<longrightarrow> deficit_nodes (addActive vec s))" .
    next
      case m: False
      with False have "map_of (deficits s) n \<noteq> None" by simp
      from 2(3) [OF m this 2(4,5)]
      show "\<exists>ps ns. bq_wf newID (sch_buffer (addActive vec s)) (xs @ ps) \<and>
        bq_queues (sch_buffer (addActive vec s)) = bq_queues (sch_buffer s) @ map NewNodeQueue ns \<and>
        sch_frame s (addActive vec s) \<and> bq_size (sch_buffer (addActive vec s)) = bq_size (sch_buffer s) \<and>
        deficits_ok (addActive vec s) \<and> (\<forall>n. GetDeficit (addActive vec s) n = GetDeficit s n) \<and>
        (deficit_nodes s \<longrightarrow> deficit_nodes (addActive vec s))" .
    qed
  next
    case True
    let ?s = "s\<lparr>deficits := AList.update n 0 (deficits s), sch_buffer := InsertNode n (sch_buffer s)\<rparr>"
    have eq: "addActive ((n, m) # vec) s = addActive vec ?s" using True by simp
    have d: "deficits_ok ?s"
      using 2(5) MaxDeficit_pos set_update_subset [of n 0 "deficits s"]
      by (force simp: deficits_ok_def)
    have gd: "GetDeficit ?s k = GetDeficit s k" for k
      using True by (auto simp: GetDeficit_def update_conv')
    obtain ps ns where ins: "bq_wf newID (sch_buffer ?s) (xs @ ps)"
      "bq_queues (sch_buffer ?s) = bq_queues (sch_buffer s) @ map NewNodeQueue ns"
      "bq_size (sch_buffer ?s) = bq_size (sch_buffer s)"
      "maxBuffer (sch_buffer ?s) = maxBuffer (sch_buffer s)"
      "n \<in> nodeID ` set (bq_queues (sch_buffer ?s))"
    proof (cases "map_of (activeNode (sch_buffer s)) n")
      case None
      with InsertNode_wf [OF 2(4), of n] obtain p where
        p: "bq_wf newID (InsertNode n (sch_buffer s)) (xs @ [p])"
          "bq_queues (InsertNode n (sch_buffer s)) = bq_queues (sch_buffer s) @ [NewNodeQueue n]"
          "bq_size (InsertNode n (sch_buffer s)) = bq_size (sch_buffer s)"
          "maxBuffer (InsertNode n (sch_buffer s)) = maxBuffer (sch_buffer s)" by auto
      show ?thesis by (rule that [of "[p]" "[n]"]) (use p in auto)
    next
      case (Some a)
      then have e: "InsertNode n (sch_buffer s) = sch_buffer s" by (simp add: InsertNode_def)
      have "n \<in> nodeID ` set (bq_queues (sch_buffer s))"
        using bq_wf_active [OF 2(4), of n a] Some bq_wf_queues [OF 2(4)] by force
      then show ?thesis by (intro that [of "[]" "[]"]) (use e 2(4) in auto)
    qed
    have dn: "deficit_nodes ?s" if "deficit_nodes s"
      using that ins(2,5) bq_wf_active_fst [OF ins(1)] bq_wf_active_fst [OF 2(4)]
      by (auto simp: deficit_nodes_def dom_update image_iff)
    from True have "\<not> m < MinMana" "map_of (deficits s) n = None" by auto
    from 2(2) [OF this ins(1) d] obtain ps' ns' where IH:
      "bq_wf newID (sch_buffer (addActive vec ?s)) ((xs @ ps) @ ps')"
      "bq_queues (sch_buffer (addActive vec ?s)) = bq_queues (sch_buffer ?s) @ map NewNodeQueue ns'"
      "sch_frame ?s (addActive vec ?s)" "bq_size (sch_buffer (addActive vec ?s)) = bq_size (sch_buffer ?s)"
      "deficits_ok (addActive vec ?s)" "\<forall>n. GetDeficit (addActive vec ?s) n = GetDeficit ?s n"
      "deficit_nodes ?s \<longrightarrow> deficit_nodes (addActive vec ?s)" by blast
    show ?thesis
      unfolding eq
      by (rule exI [of _ "ps @ ps'"], rule exI [of _ "ns @ ns'"])
        (use IH ins gd dn in \<open>auto simp: sch_frame_def\<close>)
  qed
qed

section \<open>Looking at one queue\<close>

text \<open>A block that schedule skips: confirmed, and issued some time ago.\<close>

definition skippable :: "gotime \<Rightarrow> (ElementID \<Rightarrow> bool) \<Rightarrow> duration \<Rightarrow> Element \<Rightarrow> bool" where
  "skippable now confirmed thr e \<longleftrightarrow>
     IssuingTime e \<le> now \<and> confirmed (elem_id e) \<and> thr < now - IssuingTime e"

definition due_front :: "gotime \<Rightarrow> BufferQueue \<Rightarrow> addr \<Rightarrow> Element option" where
  "due_front now b a =
     (case NodeQueue_Front (Some (bq_get b a)) of
        None \<Rightarrow> None | Some e \<Rightarrow> if now < IssuingTime e then None else Some e)"

text \<open>Rounds of quanta the node lacks to schedule its first due block.\<close>

definition rounds_needed :: "gotime \<Rightarrow> Scheduler \<Rightarrow> addr \<Rightarrow> rat option" where
  "rounds_needed now s a =
     (let n = nodeID (bq_get (sch_buffer s) a)
      in case due_front now (sch_buffer s) a of
           None \<Rightarrow> None
         | Some e \<Rightarrow> Some (max (of_int (elem_Size e) - GetDeficit s n) 0 * (1 / quantum s n)))"

definition pick :: "gotime \<Rightarrow> Scheduler \<Rightarrow> addr \<Rightarrow> rat \<times> addr option \<Rightarrow> rat \<times> addr option" where
  "pick now s a = (\<lambda>(r, sn).
     case rounds_needed now s a of None \<Rightarrow> (r, sn) | Some x \<Rightarrow> if x < r then (x, Some a) else (r, sn))"

lemma rounds_needed_nonneg: "mana_floor s \<Longrightarrow> rounds_needed now s a = Some x \<Longrightarrow> 0 \<le> x"
  using quantum_pos [of s "nodeID (bq_get (sch_buffer s) a)"]
  by (auto simp: rounds_needed_def Let_def split: option.splits)

lemma maxRat_max: "maxRat x y = max x y"
  by (simp add: maxRat_def max_def)

text \<open>What changes when the queue a is looked at: only a, by skipped blocks.\<close>

definition considered ::
  "gotime \<Rightarrow> (ElementID \<Rightarrow> bool) \<Rightarrow> addr \<Rightarrow> Scheduler \<Rightarrow> Scheduler \<Rightarrow> Element list \<Rightarrow> bool" where
  "considered now confirmed a s s' D \<longleftrightarrow>
     sch_frame s s' \<and> deficits s' = deficits s \<and>
     activeNode (sch_buffer s') = activeNode (sch_buffer s) \<and>
     ring_fresh (bq_store (sch_buffer s')) = ring_fresh (bq_store (sch_buffer s)) \<and>
     (\<forall>a'. a' \<noteq> a \<longrightarrow> bq_get (sch_buffer s') a' = bq_get (sch_buffer s) a') \<and>
     nodeID (bq_get (sch_buffer s') a) = nodeID (bq_get (sch_buffer s) a) \<and>
     ((\<forall>e. due_front now (sch_buffer s) a = Some e \<longrightarrow>
         \<not> skippable now confirmed (confirmedBlkThreshold s) e) \<longrightarrow>
      bq_get (sch_buffer s') a = bq_get (sch_buffer s) a) \<and>
     (\<forall>e \<in> set D. skippable now confirmed (confirmedBlkThreshold s) e) \<and>
     (\<forall>e. due_front now (sch_buffer s') a = Some e \<longrightarrow>
        \<not> skippable now confirmed (confirmedBlkThreshold s) e)"

lemma considered_Cons:
  assumes "considered now confirmed a s1 s' D" and "sch_frame s s1" and "deficits s1 = deficits s"
    and "\<And>a'. a' \<noteq> a \<Longrightarrow> bq_get (sch_buffer s1) a' = bq_get (sch_buffer s) a'"
    and "nodeID (bq_get (sch_buffer s1) a) = nodeID (bq_get (sch_buffer s) a)"
    and "activeNode (sch_buffer s1) = activeNode (sch_buffer s)"
    and "ring_fresh (bq_store (sch_buffer s1)) = ring_fresh (bq_store (sch_buffer s))"
    and "skippable now confirmed (confirmedBlkThreshold s) e"
    and "due_front now (sch_buffer s) a = Some e"
  shows "considered now confirmed a s s' (e # D)"
  using assms by (auto simp: considered_def sch_frame_def)

lemma considerQueue_wf:
  assumes "bq_wf newID (sch_buffer s) (a # vs)" and "mana_floor s"
    and "size (nq_ready (bq_get (sch_buffer s) a)) \<le> fuel"
  shows "ensures (considerQueue now confirmed fuel a ((r, sn, sk), s)) (\<lambda>((r', sn', sk'), s').
    bq_wf newID (sch_buffer s') (a # vs) \<and> (r', sn') = pick now s' a (r, sn) \<and>
    (\<exists>D. considered now confirmed a s s' D \<and> sk' = sk @ map elem_id D \<and>
       bq_content (sch_buffer s) = mset D + bq_content (sch_buffer s')))"
  using assms
proof (induction fuel arbitrary: s sk)
  case 0
  then have "NodeQueue_Front (Some (bq_get (sch_buffer s) a)) = None" using nq_Front_iff by auto
  then show ?case using 0
    by (subst considerQueue.simps)
      (auto simp: pick_def rounds_needed_def due_front_def considered_def Let_def intro: exI [of _ "[]"])
next
  case (Suc m)
  let ?q = "bq_get (sch_buffer s) a" and ?thr = "confirmedBlkThreshold s"
  have same: "\<exists>D. considered now confirmed a s s D \<and> sk = sk @ map elem_id D \<and>
       bq_content (sch_buffer s) = mset D + bq_content (sch_buffer s)"
    if "\<And>e. due_front now (sch_buffer s) a = Some e \<Longrightarrow> \<not> skippable now confirmed ?thr e"
    using that by (intro exI [of _ "[]"]) (auto simp: considered_def)
  note nq = bq_wf_nq [OF Suc.prems(1), of a, simplified]
  show ?case
  proof (cases "due_front now (sch_buffer s) a")
    case None
    then have "considerQueue now confirmed (Suc m) a ((r, sn, sk), s) = ok ((r, sn, sk), s)"
      by (subst considerQueue.simps) (auto simp: due_front_def split: option.splits if_splits)
    moreover have "pick now s a (r, sn) = (r, sn)"
      using None by (simp add: pick_def rounds_needed_def Let_def)
    ultimately show ?thesis using same None Suc.prems(1) by simp
  next
    case (Some e)
    then have fr: "NodeQueue_Front (Some ?q) = Some e" and t: "\<not> now < IssuingTime e"
      by (auto simp: due_front_def split: option.splits if_splits)
    have "e \<in># nq_all ?q" using nq_Front_least(1) [OF nq fr] by (simp add: nq_all_def)
    from nq_inv_valid [OF nq this] have len: "\<not> length (IDBytes e) < ElementIDLength"
      by (simp add: valid_elem_def)
    show ?thesis
    proof (cases "skippable now confirmed ?thr e")
      case False
      then have "considerQueue now confirmed (Suc m) a ((r, sn, sk), s)
          = ok ((fst (pick now s a (r, sn)), snd (pick now s a (r, sn)), sk), s)"
        using fr t len Some Suc.prems(2)
        by (subst considerQueue.simps)
          (auto simp: pick_def rounds_needed_def Let_def Quanta_ok InvRat_quantum maxRat_max skippable_def)
      with same Some False Suc.prems(1) show ?thesis by simp
    next
      case True
      have r: "nq_ready ?q \<noteq> {#}" using fr nq_Front_iff [of ?q] by auto
      from bq_PopFront_wf [OF Suc.prems(1) r] fr obtain q where
        q: "BufferQueue_PopFront (sch_buffer s) = ok (e, (bq_put a q (sch_buffer s))\<lparr>bq_size := bq_size (sch_buffer s) - 1\<rparr>)"
          "bq_wf newID ((bq_put a q (sch_buffer s))\<lparr>bq_size := bq_size (sch_buffer s) - 1\<rparr>) (a # vs)"
          "nodeID q = nodeID ?q" "nq_ready ?q = add_mset e (nq_ready q)"
          "bq_content (sch_buffer s) = add_mset e (bq_content ((bq_put a q (sch_buffer s))\<lparr>bq_size := bq_size (sch_buffer s) - 1\<rparr>))"
        by auto
      let ?s = "s\<lparr>sch_buffer := (bq_put a q (sch_buffer s))\<lparr>bq_size := bq_size (sch_buffer s) - 1\<rparr>\<rparr>"
      have sz: "size (nq_ready (bq_get (sch_buffer ?s) a)) \<le> m" using q(4) Suc.prems(3) by simp
      have wf1: "bq_wf newID (sch_buffer ?s) (a # vs)" and mf: "mana_floor ?s"
        using q(2) Suc.prems(2) by (auto simp: mana_floor_def)
      have eq: "considerQueue now confirmed (Suc m) a ((r, sn, sk), s)
          = considerQueue now confirmed m a ((r, sn, sk @ [elem_id e]), ?s)"
        using fr t len True q(1) by (subst considerQueue.simps) (simp add: skippable_def)
      have step: "\<exists>Da. considered now confirmed a s s' Da \<and>
          (sk @ [elem_id e]) @ map elem_id D = sk @ map elem_id Da \<and>
          bq_content (sch_buffer s) = mset Da + bq_content (sch_buffer s')"
        if st: "considered now confirmed a ?s s' D"
          "bq_content (sch_buffer ?s) = mset D + bq_content (sch_buffer s')" for s' D
      proof -
        have "considered now confirmed a s s' (e # D)"
          by (rule considered_Cons [OF st(1)])
            (use True Some q in \<open>auto simp: sch_frame_def bq_put_def\<close>)
        moreover have "bq_content (sch_buffer s) = mset (e # D) + bq_content (sch_buffer s')"
          using q(5) st(2) by simp
        ultimately show ?thesis by (intro exI [of _ "e # D"]) auto
      qed
      show ?thesis
        unfolding eq
        by (rule ensures_mono [OF Suc.IH [OF wf1 mf sz]]) (clarify, blast intro: step)
    qed
  qed
qed

section \<open>Looking at every queue\<close>

definition looked ::
  "gotime \<Rightarrow> (ElementID \<Rightarrow> bool) \<Rightarrow> addr list \<Rightarrow> Scheduler \<Rightarrow> Scheduler \<Rightarrow> Element list \<Rightarrow> bool" where
  "looked now confirmed us s s' D \<longleftrightarrow>
     sch_frame s s' \<and> deficits s' = deficits s \<and>
     activeNode (sch_buffer s') = activeNode (sch_buffer s) \<and>
     ring_fresh (bq_store (sch_buffer s')) = ring_fresh (bq_store (sch_buffer s)) \<and>
     (\<forall>a. nodeID (bq_get (sch_buffer s') a) = nodeID (bq_get (sch_buffer s) a)) \<and>
     (\<forall>a. (\<forall>e. due_front now (sch_buffer s) a = Some e \<longrightarrow>
         \<not> skippable now confirmed (confirmedBlkThreshold s) e) \<longrightarrow>
      bq_get (sch_buffer s') a = bq_get (sch_buffer s) a) \<and>
     (\<forall>e \<in> set D. skippable now confirmed (confirmedBlkThreshold s) e) \<and>
     (\<forall>a \<in> set us. \<forall>e. due_front now (sch_buffer s') a = Some e \<longrightarrow>
        \<not> skippable now confirmed (confirmedBlkThreshold s) e)"

lemma rounds_needed_cong:
  assumes "bq_get (sch_buffer s') a = bq_get (sch_buffer s) a" and "deficits s' = deficits s"
    and "sch_frame s s'"
  shows "rounds_needed now s' a = rounds_needed now s a"
proof -
  have gd: "GetDeficit s' = GetDeficit s" using assms(2) by (simp add: GetDeficit_def fun_eq_iff)
  show ?thesis
    unfolding rounds_needed_def due_front_def assms(1) sch_frame_quantum [OF assms(3)] gd ..
qed

lemma pick_cong:
  assumes "bq_get (sch_buffer s') a = bq_get (sch_buffer s) a" and "deficits s' = deficits s"
    and "sch_frame s s'"
  shows "pick now s' a = pick now s a"
  unfolding pick_def rounds_needed_cong [OF assms] ..

lemma due_front_cong:
  "bq_get b' a = bq_get b a \<Longrightarrow> due_front now b' a = due_front now b a"
  by (simp add: due_front_def)

lemma looked_same: "looked now confirmed us s s1 D \<Longrightarrow> sch_same s1 s2 \<Longrightarrow> looked now confirmed us s s2 D"
  using sch_frame_trans [OF _ sch_same_frame [of s1 s2]] sch_sameD [of s1 s2]
  by (simp add: looked_def due_front_def)

lemma looked_step:
  assumes "looked now confirmed us s s1 D" and "considered now confirmed y s1 s2 D2" and "y \<notin> set us"
  shows "looked now confirmed (us @ [y]) s s2 (D @ D2)"
proof -
  have thr: "confirmedBlkThreshold s1 = confirmedBlkThreshold s"
    using assms(1) by (simp add: looked_def sch_frame_def)
  have "nodeID (bq_get (sch_buffer s2) a) = nodeID (bq_get (sch_buffer s1) a)" for a
    using assms(2) by (cases "a = y") (auto simp: considered_def)
  moreover have "due_front now (sch_buffer s2) a = due_front now (sch_buffer s1) a" if "a \<in> set us" for a
    using assms(2,3) that by (intro due_front_cong) (auto simp: considered_def)
  moreover have "sch_frame s s2"
    using assms by (auto simp: looked_def considered_def intro: sch_frame_trans)
  moreover have "bq_get (sch_buffer s2) a = bq_get (sch_buffer s) a"
    if ns: "\<forall>e. due_front now (sch_buffer s) a = Some e \<longrightarrow> \<not> skippable now confirmed (confirmedBlkThreshold s) e" for a
  proof -
    have g1: "bq_get (sch_buffer s1) a = bq_get (sch_buffer s) a" using assms(1) ns by (simp add: looked_def)
    then have "due_front now (sch_buffer s1) a = due_front now (sch_buffer s) a" by (rule due_front_cong)
    then have "bq_get (sch_buffer s2) a = bq_get (sch_buffer s1) a"
      using assms(2) ns thr by (cases "a = y") (simp_all add: considered_def)
    with g1 show ?thesis by simp
  qed
  ultimately show ?thesis
    using assms(1,2) thr by (auto simp: looked_def considered_def)
qed

lemma wf_length_fuel: "bq_wf newID b xs \<Longrightarrow> length xs \<le> ring_fresh (bq_store b)"
proof (cases xs)
  case (Cons x ys)
  then show "bq_wf newID b xs \<Longrightarrow> length xs \<le> ring_fresh (bq_store b)"
    using bq_wf_ring [of newID b x ys] length_is_ring [of "bq_store b" xs] by blast
qed simp

lemma consider_loop:
  assumes wf: "bq_wf newID (sch_buffer s) xs" and ne: "xs \<noteq> []" and mf: "mana_floor s"
  shows "ensures (for_ring (sch_fuel s) sch_Next (hd xs) (considerBody now confirmed) (hd xs) ((r0, None, []), s))
    (\<lambda>((r, sn, sk), s'). bq_wf newID (sch_buffer s') xs \<and> (r, sn) = fold (pick now s') xs (r0, None) \<and>
      (\<exists>D. looked now confirmed xs s s' D \<and> sk = map elem_id D \<and>
         bq_content (sch_buffer s) = mset D + bq_content (sch_buffer s')))"
proof -
  define I where "I us l s' \<longleftrightarrow>
    (case l of (r, sn, sk) \<Rightarrow> bq_data newID (sch_buffer s') xs \<and> (r, sn) = fold (pick now s') us (r0, None) \<and>
      (\<exists>D. looked now confirmed us s s' D \<and> sk = map elem_id D \<and>
         content_of (sch_buffer s) xs = mset D + content_of (sch_buffer s') xs))"
    for us and l :: sched_locals and s'
  have "ensures (for_ring (sch_fuel s) sch_Next (hd xs) (considerBody now confirmed) (hd xs) ((r0, None, []), s))
      (\<lambda>(l, s'). bq_order (sch_buffer s') xs \<and> I xs l s')"
  proof (rule sch.for_ring_rule)
    show "bq_order (sch_buffer s) xs" using wf by (rule bq_wf_order)
    show "xs \<noteq> []" by (fact ne)
    show "length xs \<le> sch_fuel s" unfolding sch_fuel_def using wf by (rule wf_length_fuel)
    show "I [] (r0, None, []) s"
      using wf by (auto simp: I_def bq_wf_data looked_def intro: exI [of _ "[]"])
  next
    fix ys l s1 s2 assume I1: "I ys l s1" and same: "sch_same s1 s2"
    have "fold (pick now s2) ys z = fold (pick now s1) ys z" for z
      using sch_sameD [OF same] sch_same_frame [OF same]
      by (intro fold_cong) (auto intro!: pick_cong)
    moreover obtain r sn sk where l: "l = (r, sn, sk)" by (cases l)
    moreover from I1 l obtain D where "bq_data newID (sch_buffer s1) xs"
      "(r, sn) = fold (pick now s1) ys (r0, None)" "looked now confirmed ys s s1 D" "sk = map elem_id D"
      "content_of (sch_buffer s) xs = mset D + content_of (sch_buffer s1) xs"
      by (auto simp: I_def)
    ultimately show "I ys l s2"
      unfolding I_def l prod.case sch_same_data [OF same] using looked_same [OF _ same] by (auto intro!: exI [of _ D])
  next
    fix us y vs l s1
    assume xs: "xs = us @ y # vs" and I1: "I us l s1" and ord: "bq_order (sch_buffer s1) (y # vs @ us)"
    obtain r sn sk where l: "l = (r, sn, sk)" by (cases l)
    from I1 l obtain D where d: "bq_data newID (sch_buffer s1) xs"
      "(r, sn) = fold (pick now s1) us (r0, None)" "looked now confirmed us s s1 D" "sk = map elem_id D"
      "content_of (sch_buffer s) xs = mset D + content_of (sch_buffer s1) xs"
      by (auto simp: I_def)
    have wf1: "bq_wf newID (sch_buffer s1) (y # vs @ us)"
      using bq_wf_rotate [OF _ ord] d(1) xs by simp
    have mf1: "mana_floor s1" using d(3) mf sch_frame_mana by (auto simp: looked_def)
    have yus: "y \<notin> set us" using bq.order_distinct [OF ord] by auto
    have perm: "mset (y # vs @ us) = mset xs" using xs by simp
    have "size (nq_ready (bq_get (sch_buffer s1) y)) \<le> length (inbox (bq_get (sch_buffer s1) y))"
      by (simp add: nq_ready_def)
    from considerQueue_wf [OF wf1 mf1 this, of now confirmed r sn sk] obtain r' sn' sk' s2 D2 where
      c: "considerBody now confirmed y (l, s1) = ok ((r', sn', sk'), s2)"
        "bq_wf newID (sch_buffer s2) (y # vs @ us)" "(r', sn') = pick now s2 y (r, sn)"
        "considered now confirmed y s1 s2 D2" "sk' = sk @ map elem_id D2"
        "bq_content (sch_buffer s1) = mset D2 + bq_content (sch_buffer s2)"
      unfolding considerBody_def l by (auto simp: ensures_def)
    have "fold (pick now s2) us (r0, None) = fold (pick now s1) us (r0, None)"
      using c(4) yus by (intro fold_cong) (auto simp: considered_def intro!: pick_cong)
    then have "(r', sn') = fold (pick now s2) (us @ [y]) (r0, None)" using c(3) d(2) by simp
    moreover have "content_of (sch_buffer s) xs = mset (D @ D2) + content_of (sch_buffer s2) xs"
      using d(5) c(6) content_of_wf [OF wf1] content_of_wf [OF c(2)] content_of_perm [OF perm]
      by (simp add: union_assoc)
    moreover have "bq_data newID (sch_buffer s2) xs"
      using c(2) bq_data_perm [OF perm] by (simp add: bq_wf_data)
    moreover note looked_step [OF d(3) c(4) yus]
    ultimately have "I (us @ [y]) (r', sn', sk') s2"
      unfolding I_def using c(5) d(4) by (auto intro!: exI [of _ "D @ D2"])
    with c(1,2) show "ensures (considerBody now confirmed y (l, s1))
        (\<lambda>(l', s2). bq_order (sch_buffer s2) (y # vs @ us) \<and> I (us @ [y]) l' s2)"
      by (simp add: bq_wf_order)
  qed
  then show ?thesis
    by (rule ensures_mono) (auto simp: I_def bq_wf_data content_of_wf [OF wf] content_of_wf [symmetric])
qed

section \<open>The choice\<close>

text \<open>The fold over the queues finds the first of the nodes that need the fewest rounds.\<close>

lemma pick_fold:
  "fold (pick now s) xs (r0, None) = (r, sn) \<Longrightarrow>
   (case sn of
      None \<Rightarrow> r = r0 \<and> (\<forall>a \<in> set xs. \<forall>x. rounds_needed now s a = Some x \<longrightarrow> r0 \<le> x)
    | Some a \<Rightarrow> r < r0 \<and> rounds_needed now s a = Some r \<and>
        (\<exists>us vs. xs = us @ a # vs \<and>
           (\<forall>b \<in> set us. \<forall>x. rounds_needed now s b = Some x \<longrightarrow> r < x) \<and>
           (\<forall>b \<in> set vs. \<forall>x. rounds_needed now s b = Some x \<longrightarrow> r \<le> x)))"
proof (induction xs arbitrary: r sn rule: rev_induct)
  case (snoc b xs)
  obtain r1 sn1 where f: "fold (pick now s) xs (r0, None) = (r1, sn1)"
    by (cases "fold (pick now s) xs (r0, None)")
  note IH = snoc.IH [OF f]
  have st: "pick now s b (r1, sn1) = (r, sn)" using snoc.prems f by simp
  show ?case
  proof (cases "\<exists>x. rounds_needed now s b = Some x \<and> x < r1")
    case True
    then obtain x where x: "rounds_needed now s b = Some x" "x < r1" by blast
    with st have e: "r = x" "sn = Some b" by (auto simp: pick_def)
    have le: "r1 \<le> r0" using IH by (auto split: option.splits)
    have small: "\<forall>a \<in> set xs. \<forall>y. rounds_needed now s a = Some y \<longrightarrow> r1 \<le> y"
      using IH by (fastforce split: option.splits)
    show ?thesis
      unfolding e option.case
      using x le small by (intro conjI exI [of _ xs] exI [of _ "[]"]) force+
  next
    case False
    with st have e: "r = r1" "sn = sn1" by (auto simp: pick_def split: option.splits)
    show ?thesis
    proof (cases sn1)
      case None
      with IH e False show ?thesis by auto
    next
      case (Some a)
      with IH obtain us vs where "r1 < r0" "rounds_needed now s a = Some r1" "xs = us @ a # vs"
        "\<forall>b \<in> set us. \<forall>x. rounds_needed now s b = Some x \<longrightarrow> r1 < x"
        "\<forall>b \<in> set vs. \<forall>x. rounds_needed now s b = Some x \<longrightarrow> r1 \<le> x" by auto
      then have "r1 < r0" "rounds_needed now s a = Some r1" "xs @ [b] = us @ a # (vs @ [b])"
        "\<forall>c \<in> set us. \<forall>x. rounds_needed now s c = Some x \<longrightarrow> r1 < x"
        "\<forall>c \<in> set (vs @ [b]). \<forall>x. rounds_needed now s c = Some x \<longrightarrow> r1 \<le> x"
        using False by (auto simp: not_less)
      then show ?thesis unfolding e Some option.case by blast
    qed
  qed
qed simp

section \<open>Crediting deficits\<close>

definition credited :: "(node_id \<Rightarrow> rat) \<Rightarrow> addr list \<Rightarrow> Scheduler \<Rightarrow> Scheduler \<Rightarrow> bool" where
  "credited f us s s' \<longleftrightarrow>
     bq_same (sch_buffer s) (sch_buffer s') \<and> sch_frame s s' \<and> deficits_ok s' \<and>
     (\<forall>n. GetDeficit s' n =
        (if n \<in> (\<lambda>a. nodeID (bq_get (sch_buffer s) a)) ` set us
         then min (GetDeficit s n + f n) MaxDeficit else GetDeficit s n)) \<and>
     fst ` set (deficits s') \<subseteq> fst ` set (deficits s) \<union> (\<lambda>a. nodeID (bq_get (sch_buffer s) a)) ` set us"

lemma credited_Nil [simp]: "deficits_ok s \<Longrightarrow> credited f [] s s"
  by (simp add: credited_def)

lemma credited_same: "credited f us s s1 \<Longrightarrow> sch_same s1 s2 \<Longrightarrow> credited f us s s2"
proof -
  assume c: "credited f us s s1" and ss: "sch_same s1 s2"
  have "bq_same (sch_buffer s1) (sch_buffer s2)"
    unfolding bq_same_def using sch_sameD(1) [OF ss] .
  moreover have "deficits s2 = deficits s1" using sch_sameD [OF ss] by blast
  ultimately show ?thesis
    using c sch_same_frame [OF ss] bq_same_trans sch_frame_trans
    unfolding credited_def deficits_ok_def GetDeficit_def by (metis (no_types, lifting))
qed

lemma credited_step:
  assumes "credited f us s s1" and "nodeID (bq_get (sch_buffer s) y) = n"
    and "n \<notin> (\<lambda>a. nodeID (bq_get (sch_buffer s) a)) ` set us" and "0 \<le> f n"
  shows "\<exists>s2. updateDeficit n (f n) s1 = ok s2 \<and> credited f (us @ [y]) s s2 \<and> sch_buffer s2 = sch_buffer s1"
proof -
  have d1: "deficits_ok s1" and g1: "GetDeficit s1 n = GetDeficit s n"
    using assms(1,3) by (auto simp: credited_def)
  have "0 \<le> GetDeficit s1 n + f n" using GetDeficit_range(1) [OF d1, of n] assms(4) by simp
  from updateDeficit_ok [OF d1 this] obtain s2 where
    s2: "updateDeficit n (f n) s1 = ok s2" "deficits_ok s2"
      "s2 = s1\<lparr>deficits := AList.update n (min (GetDeficit s1 n + f n) MaxDeficit) (deficits s1)\<rparr>"
      "\<forall>m. GetDeficit s2 m = (if m = n then min (GetDeficit s1 n + f n) MaxDeficit else GetDeficit s1 m)"
    by blast
  have "sch_frame s s2" using assms(1) s2(3) by (simp add: credited_def sch_frame_def)
  moreover have "sch_buffer s2 = sch_buffer s1" using s2(3) by simp
  moreover have "fst ` set (deficits s2) \<subseteq> insert n (fst ` set (deficits s1))"
    using s2(3) by (simp add: dom_update)
  moreover have "fst ` set (deficits s2) \<subseteq>
      fst ` set (deficits s) \<union> (\<lambda>a. nodeID (bq_get (sch_buffer s) a)) ` set (us @ [y])"
  proof -
    have "fst ` set (deficits s1) \<subseteq> fst ` set (deficits s) \<union> (\<lambda>a. nodeID (bq_get (sch_buffer s) a)) ` set us"
      using assms(1) by (simp add: credited_def)
    with calculation(3) assms(2) show ?thesis by (simp, blast)
  qed
  ultimately have "credited f (us @ [y]) s s2"
    using assms s2(2,4) g1 unfolding credited_def by auto
  with s2 show ?thesis by auto
qed

lemma wf_node_distinct:
  assumes "bq_wf newID b (us @ y # vs)"
  shows "nodeID (bq_get b y) \<notin> (\<lambda>a. nodeID (bq_get b a)) ` set us"
  using assms by (auto simp: bq_wf_def)

lemma credit_loop:
  assumes wf: "bq_wf newID (sch_buffer s) xs" and ne: "xs \<noteq> []" and mf: "mana_floor s"
    and d: "deficits_ok s" and r: "0 \<le> rounds"
  shows "ensures (for_ring (sch_fuel s) sch_Next (hd xs) (creditBody rounds) (hd xs) ((), s))
    (\<lambda>(_, s'). sch_buffer s' = sch_buffer s \<and> credited (\<lambda>n. quantum s n * rounds) xs s s')"
proof -
  let ?f = "\<lambda>n. quantum s n * rounds"
  have pos: "0 \<le> ?f n" for n using quantum_pos [OF mf, of n] r by simp
  have "ensures (for_ring (sch_fuel s) sch_Next (hd xs) (creditBody rounds) (hd xs) ((), s))
      (\<lambda>(l, s'). bq_order (sch_buffer s') xs \<and> credited ?f xs s s')"
  proof (rule sch.for_ring_rule [where I = "\<lambda>us (_ :: unit) s'. credited ?f us s s'"])
    show "bq_order (sch_buffer s) xs" using wf by (rule bq_wf_order)
    show "xs \<noteq> []" by (fact ne)
    show "length xs \<le> sch_fuel s" unfolding sch_fuel_def using wf by (rule wf_length_fuel)
    show "credited ?f [] s s" using d by simp
  next
    fix ys and l :: unit and s1 s2 assume "credited ?f ys s s1" "sch_same s1 s2"
    then show "credited ?f ys s s2" by (rule credited_same)
  next
    fix us y vs and l :: unit and s1
    assume xs: "xs = us @ y # vs" and c: "credited ?f us s s1"
      and ord: "bq_order (sch_buffer s1) (y # vs @ us)"
    have bs: "bq_same (sch_buffer s) (sch_buffer s1)" and fr: "sch_frame s s1"
      using c by (auto simp: credited_def)
    let ?n = "nodeID (bq_get (sch_buffer s) y)"
    from credited_step [OF c refl wf_node_distinct [OF wf [unfolded xs]], OF pos] obtain s2 where
      s2: "updateDeficit ?n (?f ?n) s1 = ok s2" "credited ?f (us @ [y]) s s2" "sch_buffer s2 = sch_buffer s1"
      by blast
    have "creditBody rounds y (l, s1) = ok (l, s2)"
      using s2(1) bq_sameD(1) [OF bs] sch_frame_quantum [OF fr, of ?n]
      by (simp add: creditBody_def Let_def Quanta_ok)
    with s2 ord show "ensures (creditBody rounds y (l, s1))
        (\<lambda>(l', s'). bq_order (sch_buffer s') (y # vs @ us) \<and> credited ?f (us @ [y]) s s')"
      by simp
  qed
  moreover have "sch_buffer s' = sch_buffer s"
    if o': "bq_order (sch_buffer s') xs" and c: "credited ?f xs s s'" for s'
  proof -
    have "bq_ring (sch_buffer s') = bq_ring (sch_buffer s)"
      using o' bq_wf_order [OF wf] ne by (auto simp: bq_order_def split: option.splits)
    with c show ?thesis by (auto simp: credited_def intro: bq_same_eq)
  qed
  ultimately show ?thesis by (auto simp: ensures_def)
qed

lemma until_loop:
  assumes wf: "bq_wf newID (sch_buffer s) (us @ a # vs)" and mf: "mana_floor s" and d: "deficits_ok s"
  shows "ensures (for_until (sch_fuel s) sch_Next a creditOnce (hd (us @ [a])) s)
    (\<lambda>s'. bq_order (sch_buffer s') (a # vs @ us) \<and> credited (quantum s) us s s')"
proof -
  have ord: "bq_order (sch_buffer s) (us @ a # vs @ [])" using bq_wf_order [OF wf] by simp
  have dist: "distinct ([] @ us @ a # vs)" using bq_wf_distinct [OF wf] by simp
  have len: "length us \<le> sch_fuel s" using wf_length_fuel [OF wf] by (simp add: sch_fuel_def)
  have "ensures (for_until (sch_fuel s) sch_Next a creditOnce (hd (us @ [a])) s)
      (\<lambda>s'. bq_order (sch_buffer s') (a # vs @ [] @ us) \<and> credited (quantum s) ([] @ us) s s')"
  proof (rule sch.for_until_rule [where I = "\<lambda>us s'. credited (quantum s) us s s'",
        OF ord dist len])
    show "credited (quantum s) [] s s" using d by simp
  next
    fix ys s1 s2 assume "credited (quantum s) ys s s1" "sch_same s1 s2"
    then show "credited (quantum s) ys s s2" by (rule credited_same)
  next
    fix ws y zs s1
    assume us: "[] @ us = ws @ y # zs" and c: "credited (quantum s) ws s s1"
      and ord: "bq_order (sch_buffer s1) (y # zs @ a # vs @ ws)"
    have bs: "bq_same (sch_buffer s) (sch_buffer s1)" and fr: "sch_frame s s1"
      using c by (auto simp: credited_def)
    have pos: "0 \<le> quantum s n" for n using quantum_pos [OF mf, of n] by simp
    let ?n = "nodeID (bq_get (sch_buffer s) y)"
    have "bq_wf newID (sch_buffer s) (ws @ y # (zs @ a # vs))" using wf us by simp
    from credited_step [OF c refl wf_node_distinct [OF this], OF pos] obtain s2 where
      s2: "updateDeficit ?n (quantum s ?n) s1 = ok s2" "credited (quantum s) (ws @ [y]) s s2"
        "sch_buffer s2 = sch_buffer s1" by blast
    have "creditOnce y s1 = ok s2"
      using s2(1) bq_sameD(1) [OF bs] sch_frame_quantum [OF fr, of ?n]
      by (simp add: creditOnce_def Let_def Quanta_ok)
    with s2 ord show "ensures (creditOnce y s1)
        (\<lambda>s'. bq_order (sch_buffer s') (y # zs @ a # vs @ ws) \<and> credited (quantum s) (ws @ [y]) s s')"
      by simp
  qed
  then show ?thesis by simp
qed

section \<open>One scheduling round\<close>

definition sizes_ok :: "BufferQueue \<Rightarrow> bool" where
  "sizes_ok b \<longleftrightarrow> (\<forall>e \<in># bq_content b. 0 \<le> elem_Size e \<and> elem_Size e \<le> MaxBlockSize)"

definition sch_inv :: "(pubkey \<Rightarrow> node_id) \<Rightarrow> Scheduler \<Rightarrow> bool" where
  "sch_inv newID s \<longleftrightarrow> bq_inv newID (sch_buffer s) \<and> mana_floor s \<and> deficits_ok s \<and>
     deficit_nodes s \<and> sizes_ok (sch_buffer s)"

abbreviation node_of :: "Scheduler \<Rightarrow> addr \<Rightarrow> node_id" where
  "node_of s a \<equiv> nodeID (bq_get (sch_buffer s) a)"

definition deficit_after ::
  "Scheduler \<Rightarrow> addr list \<Rightarrow> addr list \<Rightarrow> addr \<Rightarrow> rat \<Rightarrow> Element \<Rightarrow> node_id \<Rightarrow> rat" where
  "deficit_after s xs us a r e n =
     (let d1 = (if n \<in> node_of s ` set xs then min (GetDeficit s n + quantum s n * r) MaxDeficit
                else GetDeficit s n);
          d2 = (if n \<in> node_of s ` set us then min (d1 + quantum s n) MaxDeficit else d1)
      in if n = node_of s a then min (d2 - of_int (elem_Size e)) MaxDeficit else d2)"

definition scheduled ::
  "gotime \<Rightarrow> (ElementID \<Rightarrow> bool) \<Rightarrow> addr list \<Rightarrow> Scheduler \<Rightarrow> Scheduler \<Rightarrow> Element list \<Rightarrow> Element \<Rightarrow> Scheduler \<Rightarrow> bool" where
  "scheduled now confirmed xs s s1 D e s' \<longleftrightarrow>
     looked now confirmed xs s s1 D \<and>
     (\<exists>us a vs r. xs = us @ a # vs \<and> due_front now (sch_buffer s1) a = Some e \<and>
        rounds_needed now s1 a = Some r \<and> r < of_int MaxInt64 \<and>
        (\<forall>b \<in> set us. \<forall>x. rounds_needed now s1 b = Some x \<longrightarrow> r < x) \<and>
        (\<forall>b \<in> set vs. \<forall>x. rounds_needed now s1 b = Some x \<longrightarrow> r \<le> x) \<and>
        (\<forall>n. GetDeficit s' n = deficit_after s1 xs us a r e n))"

lemma rounds_suffice:
  assumes "mana_floor s" and "due_front now (sch_buffer s) a = Some e"
    and "rounds_needed now s a = Some r"
  shows "of_int (elem_Size e) \<le> GetDeficit s (node_of s a) + quantum s (node_of s a) * r"
proof -
  have q: "0 < quantum s (node_of s a)" using quantum_pos [OF assms(1)] .
  have "r = max (of_int (elem_Size e) - GetDeficit s (node_of s a)) 0 * (1 / quantum s (node_of s a))"
    using assms(2,3) by (simp add: rounds_needed_def Let_def)
  then have "quantum s (node_of s a) * r = max (of_int (elem_Size e) - GetDeficit s (node_of s a)) 0"
    using q by simp
  then show ?thesis by simp
qed

lemma credit_rounds:
  assumes wf: "bq_wf newID (sch_buffer s) xs" and ne: "xs \<noteq> []" and mf: "mana_floor s"
    and d: "deficits_ok s" and r: "0 \<le> rounds"
  shows "ensures (if 0 < rounds
       then bindE (for_ring (sch_fuel s) sch_Next (hd xs) (creditBody rounds) (hd xs) ((), s)) (\<lambda>(_, s'). ok s')
       else ok s)
    (\<lambda>s'. sch_buffer s' = sch_buffer s \<and> sch_frame s s' \<and> deficits_ok s' \<and>
      (\<forall>n. GetDeficit s' n = (if n \<in> node_of s ` set xs
         then min (GetDeficit s n + quantum s n * rounds) MaxDeficit else GetDeficit s n)) \<and>
      fst ` set (deficits s') \<subseteq> fst ` set (deficits s) \<union> node_of s ` set xs)"
proof (cases "0 < rounds")
  case True
  show ?thesis unfolding if_P [OF True]
    by (rule ensures_bindE [OF credit_loop [OF wf ne mf d r]]) (auto simp: credited_def)
next
  case False
  then have z: "rounds = 0" using r by simp
  have "min (GetDeficit s n) MaxDeficit = GetDeficit s n" for n
    using GetDeficit_range(2) [OF d, of n] by (rule min_absorb1)
  with d z show ?thesis by auto
qed

text \<open>Taking the chosen block out and charging its node.\<close>

lemma take_and_charge:
  assumes wf: "bq_wf newID (sch_buffer s) (a # ws)" and fr: "NodeQueue_Front (Some (bq_get (sch_buffer s) a)) = Some e"
    and d: "deficits_ok s" and en: "of_int (elem_Size e) \<le> GetDeficit s (node_of s a)"
  shows "\<exists>b s'. BufferQueue_PopFront (sch_buffer s) = ok (e, b) \<and>
     updateDeficit (newID (IssuerPublicKey e)) (- of_int (elem_Size e)) (s\<lparr>sch_buffer := b\<rparr>) = ok s' \<and>
     sch_buffer s' = b \<and> bq_wf newID b (a # ws) \<and> maxBuffer b = maxBuffer (sch_buffer s) \<and>
     bq_content (sch_buffer s) = add_mset e (bq_content b) \<and> deficits_ok s' \<and> sch_frame s s' \<and>
     (\<forall>m. GetDeficit s' m = (if m = node_of s a then min (GetDeficit s m - of_int (elem_Size e)) MaxDeficit
                             else GetDeficit s m)) \<and>
     fst ` set (deficits s') \<subseteq> insert (node_of s a) (fst ` set (deficits s)) \<and>
     activeNode b = activeNode (sch_buffer s)"
proof -
  have r: "nq_ready (bq_get (sch_buffer s) a) \<noteq> {#}" using fr nq_Front_iff by (metis option.distinct(1))
  from bq_PopFront_wf [OF wf r] fr obtain q where
    q: "BufferQueue_PopFront (sch_buffer s) = ok (e, (bq_put a q (sch_buffer s))\<lparr>bq_size := bq_size (sch_buffer s) - 1\<rparr>)"
      "bq_wf newID ((bq_put a q (sch_buffer s))\<lparr>bq_size := bq_size (sch_buffer s) - 1\<rparr>) (a # ws)"
      "bq_content (sch_buffer s) = add_mset e (bq_content ((bq_put a q (sch_buffer s))\<lparr>bq_size := bq_size (sch_buffer s) - 1\<rparr>))"
    by auto
  let ?b = "(bq_put a q (sch_buffer s))\<lparr>bq_size := bq_size (sch_buffer s) - 1\<rparr>"
  let ?s = "s\<lparr>sch_buffer := ?b\<rparr>"
  have nq: "nq_inv newID (bq_get (sch_buffer s) a)" using bq_wf_nq [OF wf] by simp
  have "e \<in># nq_all (bq_get (sch_buffer s) a)" using nq_Front_least(1) [OF nq fr] by (simp add: nq_all_def)
  from nq_inv_valid [OF nq this] have n: "newID (IssuerPublicKey e) = node_of s a"
    by (simp add: valid_elem_def)
  have gd: "GetDeficit ?s m = GetDeficit s m" for m by (simp add: GetDeficit_def)
  have d': "deficits_ok ?s" using d by (simp add: deficits_ok_def)
  have "0 \<le> GetDeficit ?s (node_of s a) + - of_int (elem_Size e)" using en gd by simp
  from updateDeficit_ok [OF d' this] obtain s' where s':
    "updateDeficit (node_of s a) (- of_int (elem_Size e)) ?s = ok s'" "deficits_ok s'"
    "s' = ?s\<lparr>deficits := AList.update (node_of s a) (min (GetDeficit ?s (node_of s a) + - of_int (elem_Size e)) MaxDeficit) (deficits ?s)\<rparr>"
    "\<forall>m. GetDeficit s' m = (if m = node_of s a then min (GetDeficit ?s (node_of s a) + - of_int (elem_Size e)) MaxDeficit else GetDeficit ?s m)"
    by blast
  have fr': "sch_frame s s'" "sch_buffer s' = ?b" using s'(3) by (simp_all add: sch_frame_def)
  have keys: "fst ` set (deficits s') \<subseteq> insert (node_of s a) (fst ` set (deficits s))"
    using s'(3) by (simp add: dom_update)
  show ?thesis
    by (intro exI [of _ ?b] exI [of _ s'])
      (use q s'(1,2,4) fr' keys gd n in simp)
qed

lemma sizes_ok_sub: "sizes_ok b \<Longrightarrow> bq_content b = A + bq_content b' \<Longrightarrow> sizes_ok b'"
  by (auto simp: sizes_ok_def)

lemma deficit_nodes_queues:
  "bq_wf newID (sch_buffer s) xs \<Longrightarrow> deficit_nodes s \<longleftrightarrow> fst ` set (deficits s) \<subseteq> node_of s ` set xs"
  by (simp add: deficit_nodes_def bq_wf_active_fst bq_wf_queues image_image)

text \<open>The rest of a round once the node at a has been chosen.\<close>

lemma run_chosen:
  assumes wf: "bq_wf newID (sch_buffer s) (us @ a # vs)" and mf: "mana_floor s" and d: "deficits_ok s"
    and r: "0 \<le> r" and e: "due_front now (sch_buffer s) a = Some e" and rn: "rounds_needed now s a = Some r"
    and sz: "elem_Size e \<le> MaxBlockSize"
  shows "ensures
    (bindE (if 0 < r
            then bindE (for_ring (sch_fuel s) sch_Next (hd (us @ a # vs)) (creditBody r) (hd (us @ a # vs)) ((), s))
                   (\<lambda>(_, s'). ok s')
            else ok s) (\<lambda>s2.
     bindE (for_until (sch_fuel s2) sch_Next a creditOnce (hd (us @ a # vs)) s2) (\<lambda>s3.
     bindE (BufferQueue_PopFront (sch_buffer s3)) (\<lambda>(blk, b).
     bindE (updateDeficit (newID (IssuerPublicKey blk)) (- of_int (elem_Size blk)) (s3\<lparr>sch_buffer := b\<rparr>)) (\<lambda>s4.
     ok (Some blk, skipped, s4))))))
    (\<lambda>(x, sk, s'). x = Some e \<and> sk = skipped \<and> bq_wf newID (sch_buffer s') (a # vs @ us) \<and>
       sch_frame s s' \<and> deficits_ok s' \<and> bq_content (sch_buffer s) = add_mset e (bq_content (sch_buffer s')) \<and>
       (\<forall>n. GetDeficit s' n = deficit_after s (us @ a # vs) us a r e n) \<and>
       fst ` set (deficits s') \<subseteq> fst ` set (deficits s) \<union> node_of s ` set (us @ a # vs) \<and>
       activeNode (sch_buffer s') = activeNode (sch_buffer s))"
proof -
  let ?xs = "us @ a # vs"
  have ne: "?xs \<noteq> []" by simp
  have hd: "hd ?xs = hd (us @ [a])" by (cases us) auto
  have nodes: "node_of s a \<notin> node_of s ` set us" using wf_node_distinct [OF wf] .
  show ?thesis
  proof (rule ensures_bindE [OF credit_rounds [OF wf ne mf d r]], elim conjE)
    fix s2 assume b2: "sch_buffer s2 = sch_buffer s" and f2: "sch_frame s s2" and d2: "deficits_ok s2"
      and g2: "\<forall>n. GetDeficit s2 n = (if n \<in> node_of s ` set ?xs
         then min (GetDeficit s n + quantum s n * r) MaxDeficit else GetDeficit s n)"
      and k2: "fst ` set (deficits s2) \<subseteq> fst ` set (deficits s) \<union> node_of s ` set ?xs"
    have wf2: "bq_wf newID (sch_buffer s2) ?xs" using wf b2 by simp
    have mf2: "mana_floor s2" using mf sch_frame_mana [OF f2] by simp
    have q2: "quantum s2 = quantum s" using sch_frame_quantum [OF f2] by (simp add: fun_eq_iff)
    show "ensures
      (bindE (for_until (sch_fuel s2) sch_Next a creditOnce (hd ?xs) s2) (\<lambda>s3.
       bindE (BufferQueue_PopFront (sch_buffer s3)) (\<lambda>(blk, b).
       bindE (updateDeficit (newID (IssuerPublicKey blk)) (- of_int (elem_Size blk)) (s3\<lparr>sch_buffer := b\<rparr>)) (\<lambda>s4.
       ok (Some blk, skipped, s4)))))
      (\<lambda>(x, sk, s'). x = Some e \<and> sk = skipped \<and> bq_wf newID (sch_buffer s') (a # vs @ us) \<and>
       sch_frame s s' \<and> deficits_ok s' \<and> bq_content (sch_buffer s) = add_mset e (bq_content (sch_buffer s')) \<and>
       (\<forall>n. GetDeficit s' n = deficit_after s ?xs us a r e n) \<and>
       fst ` set (deficits s') \<subseteq> fst ` set (deficits s) \<union> node_of s ` set ?xs \<and>
       activeNode (sch_buffer s') = activeNode (sch_buffer s))"
      unfolding hd
    proof (rule ensures_bindE [OF until_loop [OF wf2 mf2 d2]], elim conjE)
      fix s3 assume o3: "bq_order (sch_buffer s3) (a # vs @ us)" and c3: "credited (quantum s2) us s2 s3"
      have bs: "bq_same (sch_buffer s2) (sch_buffer s3)" and f3: "sch_frame s2 s3" and d3: "deficits_ok s3"
        using c3 by (auto simp: credited_def)
      note same = bq_sameD [OF bs]
      have dat: "bq_data newID (sch_buffer s3) ?xs"
        using wf2 same by (simp add: bq_wf_data bq_data_def)
      have wf3: "bq_wf newID (sch_buffer s3) (a # vs @ us)" by (rule bq_wf_rotate [OF dat o3])
      have node3: "node_of s3 n = node_of s n" for n using same(1) b2 by simp
      have fr3: "NodeQueue_Front (Some (bq_get (sch_buffer s3) a)) = Some e"
        using e same(1) b2 by (auto simp: due_front_def split: option.splits if_splits)
      have g3: "GetDeficit s3 (node_of s3 a) = min (GetDeficit s (node_of s a) + quantum s (node_of s a) * r) MaxDeficit"
        using c3 g2 nodes b2 by (simp add: credited_def node3)
      have "of_int (elem_Size e) \<le> MaxDeficit" using sz by (simp add: MaxDeficit_def)
      then have "of_int (elem_Size e) \<le> GetDeficit s3 (node_of s3 a)"
        unfolding g3 using rounds_suffice [OF mf e rn] by simp
      from take_and_charge [OF wf3 fr3 d3 this] obtain b s4 where
        s4: "BufferQueue_PopFront (sch_buffer s3) = ok (e, b)"
          "updateDeficit (newID (IssuerPublicKey e)) (- of_int (elem_Size e)) (s3\<lparr>sch_buffer := b\<rparr>) = ok s4"
          "sch_buffer s4 = b" "bq_wf newID b (a # vs @ us)" "bq_content (sch_buffer s3) = add_mset e (bq_content b)"
          "deficits_ok s4" "sch_frame s3 s4"
          "\<forall>m. GetDeficit s4 m = (if m = node_of s3 a then min (GetDeficit s3 m - of_int (elem_Size e)) MaxDeficit
                             else GetDeficit s3 m)"
          "fst ` set (deficits s4) \<subseteq> insert (node_of s3 a) (fst ` set (deficits s3))"
          "activeNode b = activeNode (sch_buffer s3)" by blast
      have "bq_content (sch_buffer s3) = bq_content (sch_buffer s)"
        using content_of_wf [OF wf3] content_of_wf [OF wf] same(1) b2
        by (simp add: content_of_def union_ac)
      moreover have "GetDeficit s4 n = deficit_after s ?xs us a r e n" for n
        using s4(8) c3 g2 nodes b2 q2
        by (simp add: deficit_after_def credited_def node3 Let_def)
      moreover have "fst ` set (deficits s4) \<subseteq> fst ` set (deficits s) \<union> node_of s ` set ?xs"
      proof -
        have k3: "fst ` set (deficits s3) \<subseteq> fst ` set (deficits s2) \<union> node_of s ` set us"
          using c3 b2 by (simp add: credited_def)
        have k4: "fst ` set (deficits s4) \<subseteq> insert (node_of s a) (fst ` set (deficits s3))"
          using s4(9) node3 by simp
        show ?thesis by (rule subset_insert_chain [OF k4 k3 _ _ k2]) auto
      qed
      moreover have "sch_frame s s4" using f2 f3 s4(7) sch_frame_trans by blast
      moreover have "activeNode b = activeNode (sch_buffer s)" using s4(10) same(4) b2 by simp
      ultimately show "ensures
        (bindE (BufferQueue_PopFront (sch_buffer s3)) (\<lambda>(blk, b).
         bindE (updateDeficit (newID (IssuerPublicKey blk)) (- of_int (elem_Size blk)) (s3\<lparr>sch_buffer := b\<rparr>)) (\<lambda>s4.
         ok (Some blk, skipped, s4))))
        (\<lambda>(x, sk, s'). x = Some e \<and> sk = skipped \<and> bq_wf newID (sch_buffer s') (a # vs @ us) \<and>
         sch_frame s s' \<and> deficits_ok s' \<and> bq_content (sch_buffer s) = add_mset e (bq_content (sch_buffer s')) \<and>
         (\<forall>n. GetDeficit s' n = deficit_after s ?xs us a r e n) \<and>
         fst ` set (deficits s') \<subseteq> fst ` set (deficits s) \<union> node_of s ` set ?xs \<and>
         activeNode (sch_buffer s') = activeNode (sch_buffer s))"
        using s4 by simp
    qed
  qed
qed

lemma schedule_round_wf:
  assumes wf: "bq_wf newID (sch_buffer s) xs" and ne: "xs \<noteq> []" and inv: "sch_inv newID s"
  shows "ensures (schedule_round newID now confirmed (hd xs) s) (\<lambda>(x, sk, s').
     sch_inv newID s' \<and> sch_frame s s' \<and>
     (\<exists>D s1. sk = map elem_id D \<and> looked now confirmed xs s s1 D \<and>
       bq_content (sch_buffer s) = mset D + bq_content (sch_buffer s1) \<and>
       (case x of
          None \<Rightarrow> s' = s1 \<and> (\<forall>a \<in> set xs. \<forall>r. rounds_needed now s1 a = Some r \<longrightarrow> of_int MaxInt64 \<le> r)
        | Some e \<Rightarrow> scheduled now confirmed xs s s1 D e s' \<and>
            bq_content (sch_buffer s1) = add_mset e (bq_content (sch_buffer s')))))"
proof -
  have mf: "mana_floor s" and d: "deficits_ok s" and dn: "deficit_nodes s" and sz: "sizes_ok (sch_buffer s)"
    using inv by (auto simp: sch_inv_def)
  from consider_loop [OF wf ne mf, of now confirmed "of_int MaxInt64"] obtain r sn sk s1 D where
    l: "for_ring (sch_fuel s) sch_Next (hd xs) (considerBody now confirmed) (hd xs) ((of_int MaxInt64, None, []), s)
          = ok ((r, sn, sk), s1)"
      "bq_wf newID (sch_buffer s1) xs" "(r, sn) = fold (pick now s1) xs (of_int MaxInt64, None)"
      "looked now confirmed xs s s1 D" "sk = map elem_id D"
      "bq_content (sch_buffer s) = mset D + bq_content (sch_buffer s1)"
    by (auto simp: ensures_def)
  have f1: "sch_frame s s1" and ds1: "deficits s1 = deficits s"
    and act1: "activeNode (sch_buffer s1) = activeNode (sch_buffer s)"
    using l(4) by (auto simp: looked_def)
  have mf1: "mana_floor s1" using mf sch_frame_mana [OF f1] by simp
  have d1: "deficits_ok s1" and dn1: "deficit_nodes s1"
    using d dn ds1 act1 by (auto simp: deficits_ok_def deficit_nodes_def)
  have sz1: "sizes_ok (sch_buffer s1)" using sizes_ok_sub [OF sz l(6)] .
  note pf = pick_fold [OF l(3) [symmetric]]
  show ?thesis
  proof (cases sn)
    case None
    have "sch_inv newID s1" using l(2) mf1 d1 dn1 sz1 by (simp add: sch_inv_def bq_wf_inv)
    moreover have "\<forall>a \<in> set xs. \<forall>y. rounds_needed now s1 a = Some y \<longrightarrow> of_int MaxInt64 \<le> y"
      using pf None by simp
    ultimately show ?thesis
      using l None f1 by (auto simp: schedule_round_def intro!: exI [of _ D] exI [of _ s1])
  next
    case (Some a)
    with pf obtain us vs where ch: "r < of_int MaxInt64" "rounds_needed now s1 a = Some r" "xs = us @ a # vs"
      "\<forall>b \<in> set us. \<forall>x. rounds_needed now s1 b = Some x \<longrightarrow> r < x"
      "\<forall>b \<in> set vs. \<forall>x. rounds_needed now s1 b = Some x \<longrightarrow> r \<le> x" by auto
    have r0: "0 \<le> r" using rounds_needed_nonneg [OF mf1 ch(2)] .
    from ch(2) obtain e where e: "due_front now (sch_buffer s1) a = Some e"
      by (auto simp: rounds_needed_def Let_def split: option.splits)
    have "e \<in># bq_content (sch_buffer s1)"
    proof -
      have a: "a \<in> set xs" using ch(3) by simp
      have "NodeQueue_Front (Some (bq_get (sch_buffer s1) a)) = Some e"
        using e by (auto simp: due_front_def split: option.splits if_splits)
      from nq_Front_least(1) [OF bq_wf_nq [OF l(2) a] this] a show ?thesis
        using in_bq_content [OF l(2)] by (auto simp: nq_all_def)
    qed
    with sz1 have ez: "elem_Size e \<le> MaxBlockSize" by (simp add: sizes_ok_def)
    from run_chosen [OF l(2) [unfolded ch(3)] mf1 d1 r0 e ch(2) ez, of sk] obtain s' where
      run: "schedule_round newID now confirmed (hd xs) s = ok (Some e, sk, s')"
        "bq_wf newID (sch_buffer s') (a # vs @ us)" "sch_frame s1 s'" "deficits_ok s'"
        "bq_content (sch_buffer s1) = add_mset e (bq_content (sch_buffer s'))"
        "\<forall>n. GetDeficit s' n = deficit_after s1 xs us a r e n"
        "fst ` set (deficits s') \<subseteq> fst ` set (deficits s1) \<union> node_of s1 ` set xs"
        "activeNode (sch_buffer s') = activeNode (sch_buffer s1)"
      using l(1) Some unfolding schedule_round_def ch(3) by (auto simp: ensures_def)
    have "sizes_ok (sch_buffer s')" using sz1 run(5) by (auto simp: sizes_ok_def)
    moreover have "deficit_nodes s'"
    proof -
      have "fst ` set (activeNode (sch_buffer s1)) = node_of s1 ` set xs"
        by (simp add: bq_wf_active_fst [OF l(2)] bq_wf_queues [OF l(2)] image_image)
      then show ?thesis using run(7,8) dn1 unfolding deficit_nodes_def by (simp del: image_subset_iff, blast)
    qed
    moreover have "mana_floor s'" using mf1 sch_frame_mana [OF run(3)] by simp
    ultimately have "sch_inv newID s'"
      using run bq_wf_inv [OF run(2)] by (simp add: sch_inv_def)
    moreover have "scheduled now confirmed xs s s1 D e s'"
      unfolding scheduled_def using l(4) ch e run(6) by blast
    ultimately show ?thesis
      using run(1,5) l f1 run(3) sch_frame_trans by (auto intro!: exI [of _ D] exI [of _ s1])
  qed
qed

section \<open>Updating the active nodes\<close>

lemma sum_filter_empty:
  "(\<And>a. a \<in> set xs \<Longrightarrow> \<not> P a \<Longrightarrow> f a = {#}) \<Longrightarrow> (\<Sum>a\<leftarrow>filter P xs. f a) = (\<Sum>a\<leftarrow>xs. (f a :: 'b multiset))"
  by (induction xs) auto

lemma nq_size_0: "nq_inv newID q \<Longrightarrow> nq_size q = 0 \<Longrightarrow> nq_all q = {#}"
  using nq_inv_size [of newID q] by simp

lemma updateActiveNodesList_wf:
  assumes wf: "bq_wf newID (sch_buffer s) xs" and inv: "sch_inv newID s"
  shows "ensures (updateActiveNodesList vec s) (\<lambda>s'.
    sch_inv newID s' \<and> sch_frame s s' \<and> bq_content (sch_buffer s') = bq_content (sch_buffer s) \<and>
    (\<exists>ns. bq_queues (sch_buffer s') = filter (keeps vec) (bq_queues (sch_buffer s)) @ map NewNodeQueue ns))"
proof -
  let ?P = "\<lambda>a. keeps vec (bq_get (sch_buffer s) a)"
  have mf: "mana_floor s" and d: "deficits_ok s" and dn: "deficit_nodes s" and sz: "sizes_ok (sch_buffer s)"
    using inv by (auto simp: sch_inv_def)
  have wf0: "bq_wf newID (sch_buffer s) (xs @ [])" using wf by simp
  from removeInactive_wf [OF wf0, of vec] obtain s1 where
    s1: "removeInactive vec (length xs) (BufferQueue_Current (sch_buffer s)) s = ok s1"
      "bq_wf newID (sch_buffer s1) (filter ?P xs)" "bq_get (sch_buffer s1) = bq_get (sch_buffer s)"
      "sch_frame s s1" "distinct (map fst (deficits s)) \<longrightarrow> distinct (map fst (deficits s1))"
      "\<forall>n. map_of (deficits s1) n = (if \<exists>a \<in> set xs. node_of s a = n \<and> \<not> ?P a then None
         else map_of (deficits s) n)"
    by (auto simp: ensures_def)
  have sub: "map_of (deficits s1) n = Some v \<Longrightarrow> map_of (deficits s) n = Some v" for n v
    using s1(6) by (auto split: if_splits)
  have dist1: "distinct (map fst (deficits s1))" using s1(5) d by (simp add: deficits_ok_def)
  have d1: "deficits_ok s1"
    unfolding deficits_ok_def
  proof (intro conjI dist1 ballI)
    fix x assume x: "x \<in> set (deficits s1)"
    obtain n v where nv: "x = (n, v)" by (cases x)
    then have "map_of (deficits s1) n = Some v" using x dist1 by simp
    then have "(n, v) \<in> set (deficits s)" using sub map_of_SomeD by fast
    then show "case x of (n, v) \<Rightarrow> 0 \<le> v \<and> v \<le> MaxDeficit" using d nv by (auto simp: deficits_ok_def)
  qed
  have dn1: "deficit_nodes s1"
    unfolding deficit_nodes_queues [OF s1(2)]
  proof
    fix n assume "n \<in> fst ` set (deficits s1)"
    from in_fst_map_of [OF this] obtain v where v: "map_of (deficits s1) n = Some v" ..
    have "n \<in> fst ` set (deficits s)" using map_of_SomeD_fst [OF sub [OF v]] .
    then have "n \<in> node_of s ` set xs" using dn unfolding deficit_nodes_queues [OF wf] by (rule rev_subsetD)
    then obtain a where a: "a \<in> set xs" "node_of s a = n" by auto
    have "?P a"
    proof (rule ccontr)
      assume "\<not> ?P a"
      with a have "\<exists>a \<in> set xs. node_of s a = n \<and> \<not> ?P a" by blast
      with s1(6) v show False by simp
    qed
    with a show "n \<in> node_of s1 ` set (filter ?P xs)" using s1(3) by auto
  qed
  have c1: "bq_content (sch_buffer s1) = bq_content (sch_buffer s)"
    unfolding bq_wf_content [OF s1(2)] bq_wf_content [OF wf] s1(3)
    using bq_wf_nq [OF wf] nq_size_0 by (intro sum_filter_empty) (auto simp: keeps_def)
  from addActive_wf [OF s1(2) d1, of vec] obtain ps ns where
    a: "bq_wf newID (sch_buffer (addActive vec s1)) (filter ?P xs @ ps)"
      "bq_queues (sch_buffer (addActive vec s1)) = bq_queues (sch_buffer s1) @ map NewNodeQueue ns"
      "sch_frame s1 (addActive vec s1)" "deficits_ok (addActive vec s1)"
      "deficit_nodes s1 \<longrightarrow> deficit_nodes (addActive vec s1)" by blast
  have "updateActiveNodesList vec s = ok (addActive vec s1)"
    using s1(1) bq_wf_NumActiveNodes [OF wf] by (simp add: updateActiveNodesList_def)
  moreover have c2: "bq_content (sch_buffer (addActive vec s1)) = bq_content (sch_buffer s)"
  proof -
    have "(\<Sum>q\<leftarrow>map NewNodeQueue ns. nq_all q) = {#}" by (induction ns) auto
    then show ?thesis using c1 unfolding bq_content_def a(2) by simp
  qed
  moreover have "sizes_ok (sch_buffer (addActive vec s1))" using sz c2 by (simp add: sizes_ok_def)
  moreover have fr: "sch_frame s (addActive vec s1)" using s1(4) a(3) sch_frame_trans by blast
  moreover have "bq_queues (sch_buffer s1) = filter (keeps vec) (bq_queues (sch_buffer s))"
    unfolding bq_wf_queues [OF s1(2)] bq_wf_queues [OF wf] s1(3) by (simp add: filter_map comp_def)
  moreover have "mana_floor (addActive vec s1)" using mf sch_frame_mana [OF fr] by simp
  ultimately show ?thesis
    using a dn1 bq_wf_inv [OF a(1)] by (auto simp: sch_inv_def)
qed

section \<open>Scheduling\<close>

lemma sch_inv_refresh:
  "sch_inv newID s \<Longrightarrow> sch_inv newID (s\<lparr>accessManaCache := RefreshCacheIfNecessary now vec totalV (accessManaCache s)\<rparr>)"
  by (simp add: sch_inv_def mana_floor_def RefreshCacheIfNecessary_def deficits_ok_def deficit_nodes_def)

lemma schedule_wf:
  assumes inv: "sch_inv newID s"
  shows "ensures (schedule newID now confirmed vec totalV s) (\<lambda>(x, sk, s').
     sch_inv newID s' \<and> maxBuffer (sch_buffer s') = maxBuffer (sch_buffer s) \<and>
     (\<exists>D. sk = map elem_id D \<and>
       (\<forall>e \<in> set D. skippable now confirmed (confirmedBlkThreshold s) e) \<and>
       bq_content (sch_buffer s) = mset D + (case x of None \<Rightarrow> {#} | Some e \<Rightarrow> {#e#}) + bq_content (sch_buffer s')) \<and>
     (\<forall>e. x = Some e \<longrightarrow> IssuingTime e \<le> now \<and> \<not> skippable now confirmed (confirmedBlkThreshold s) e))"
proof -
  let ?s0 = "s\<lparr>accessManaCache := RefreshCacheIfNecessary now vec totalV (accessManaCache s)\<rparr>"
  have inv0: "sch_inv newID ?s0" using sch_inv_refresh [OF inv] .
  then have wf0: "bq_wf newID (sch_buffer ?s0) (bq_cells (sch_buffer ?s0))"
    by (simp add: sch_inv_def bq_inv_wf)
  show ?thesis
    unfolding schedule_def Let_def
  proof (rule ensures_bindE [OF updateActiveNodesList_wf [OF wf0 inv0]], elim conjE)
    fix s1 assume inv1: "sch_inv newID s1" and f1: "sch_frame ?s0 s1"
      and c1: "bq_content (sch_buffer s1) = bq_content (sch_buffer ?s0)"
    let ?xs = "bq_cells (sch_buffer s1)"
    have wf1: "bq_wf newID (sch_buffer s1) ?xs" using inv1 by (simp add: sch_inv_def bq_inv_wf)
    have thr: "confirmedBlkThreshold s1 = confirmedBlkThreshold s"
      and mb: "maxBuffer (sch_buffer s1) = maxBuffer (sch_buffer s)" using f1 by (auto simp: sch_frame_def)
    show "ensures (case BufferQueue_Current (sch_buffer s1) of
           None \<Rightarrow> ok (None, [], s1)
         | Some start \<Rightarrow> schedule_round newID now confirmed start s1) (\<lambda>(x, sk, s').
     sch_inv newID s' \<and> maxBuffer (sch_buffer s') = maxBuffer (sch_buffer s) \<and>
     (\<exists>D. sk = map elem_id D \<and>
       (\<forall>e \<in> set D. skippable now confirmed (confirmedBlkThreshold s) e) \<and>
       bq_content (sch_buffer s) = mset D + (case x of None \<Rightarrow> {#} | Some e \<Rightarrow> {#e#}) + bq_content (sch_buffer s')) \<and>
     (\<forall>e. x = Some e \<longrightarrow> IssuingTime e \<le> now \<and> \<not> skippable now confirmed (confirmedBlkThreshold s) e))"
    proof (cases "BufferQueue_Current (sch_buffer s1)")
      case None
      then show ?thesis using inv1 c1 mb by (auto intro!: exI [of _ "[]"])
    next
      case (Some start)
      then have ne: "?xs \<noteq> []" using bq_wf_ring_None [OF wf1] by (auto simp: BufferQueue_Current_def)
      have hd: "start = hd ?xs"
        using Some bq_wf_order [OF wf1] by (auto simp: BufferQueue_Current_def bq_order_def)
      from schedule_round_wf [OF wf1 ne inv1, of now confirmed] obtain x sk s' D s2 where
        r: "schedule_round newID now confirmed (hd ?xs) s1 = ok (x, sk, s')" "sch_inv newID s'"
          "sch_frame s1 s'" "sk = map elem_id D" "looked now confirmed ?xs s1 s2 D"
          "bq_content (sch_buffer s1) = mset D + bq_content (sch_buffer s2)"
          "case x of None \<Rightarrow> s' = s2 \<and> (\<forall>a \<in> set ?xs. \<forall>r. rounds_needed now s2 a = Some r \<longrightarrow> of_int MaxInt64 \<le> r)
           | Some e \<Rightarrow> scheduled now confirmed ?xs s1 s2 D e s' \<and>
               bq_content (sch_buffer s2) = add_mset e (bq_content (sch_buffer s'))"
        by (auto simp: ensures_def)
      have thr2: "confirmedBlkThreshold s1 = confirmedBlkThreshold s" by (fact thr)
      have D: "\<forall>e \<in> set D. skippable now confirmed (confirmedBlkThreshold s) e"
        using r(5) thr by (simp add: looked_def)
      have "bq_content (sch_buffer s) = mset D + (case x of None \<Rightarrow> {#} | Some e \<Rightarrow> {#e#}) + bq_content (sch_buffer s')"
        using r(6,7) c1 by (cases x) auto
      moreover have "IssuingTime e \<le> now \<and> \<not> skippable now confirmed (confirmedBlkThreshold s) e"
        if "x = Some e" for e
        using r(7) thr that unfolding scheduled_def looked_def
        by (auto simp: due_front_def split: option.splits if_splits)
      ultimately show ?thesis
        using r Some hd D mb by (auto simp: sch_frame_def)
    qed
  qed
qed

end
