(* ===== verification/SchedulerMachine.thy ===== *)
theory SchedulerMachine
  imports SchedulerLaws
begin

text \<open>
  The scheduler as a state machine.  Every entry point of scheduler.go holds
  bufferMutex from its first to its last access of the buffer, so an execution is a
  sequence of whole operations.  sched_reach are the states such sequences reach when
  blocks have at most MaxBlockSize bytes, a block that is made ready is the one held under its ID,
  and no operation has panicked.
\<close>

section \<open>Submitting, readying and unsubmitting keep the invariant\<close>

definition sched_size_ok :: "Scheduler \<Rightarrow> bool" where
  "sched_size_ok s \<longleftrightarrow> 0 \<le> maxBuffer (sch_buffer s) \<and> bq_size (sch_buffer s) \<le> maxBuffer (sch_buffer s)"

definition block_ok :: "Element \<Rightarrow> bool" where
  "block_ok e \<longleftrightarrow> wf_elem e \<and> 0 \<le> elem_Size e \<and> elem_Size e \<le> MaxBlockSize"

definition id_unique :: "Scheduler \<Rightarrow> Element \<Rightarrow> bool" where
  "id_unique s e \<longleftrightarrow> (\<forall>e' \<in># bq_content (sch_buffer s). elem_id e' = elem_id e \<longrightarrow> e' = e)"

lemma scheduler_submit_waiting:
  assumes inv: "sch_inv newID s" and mb: "0 \<le> maxBuffer (sch_buffer s)" and e: "wf_elem e"
    and ord: "perm_ord ord" and rnd: "sane_rnd rnd" and w: "\<not> sch_stopped s" "is_waiting newID (sch_buffer s) e"
  shows "scheduler_submit newID ord rnd now vec totalV e s = fail (Raised ''failed to submit: block already submitted'')"
proof -
  have wf: "bq_wf newID (sch_buffer s) (bq_cells (sch_buffer s))" using inv by (simp add: sch_inv_def bq_inv_wf)
  let ?c = "RefreshCacheIfNecessary now vec totalV (accessManaCache s)"
  from bq_Submit_wf [OF wf e ord rnd mb, of "GetCachedMana ?c"] obtain r b' where
    r: "BufferQueue_Submit newID ord rnd (sch_buffer s) e (GetCachedMana ?c) = ok (r, b')"
      "case r of Inl err \<Rightarrow> True | Inr ids \<Rightarrow> \<not> is_waiting newID (sch_buffer s) e"
    unfolding ensures_def by (fastforce split: sum.splits)
  from r(2) w(2) obtain err where "r = Inl err" by (cases r) auto
  then show ?thesis using w(1) r(1) by (cases err) (simp add: scheduler_submit_def Let_def)
qed

lemma scheduler_submit_wf:
  assumes inv: "sch_inv newID s" and sz: "sched_size_ok s" and e: "block_ok e" and fresh: "sch_stopped s \<or> \<not> is_waiting newID (sch_buffer s) e"
    and ord: "perm_ord ord" and rnd: "sane_rnd rnd"
  shows "ensures (scheduler_submit newID ord rnd now vec totalV e s) (\<lambda>(r, s').
    sch_inv newID s' \<and> sched_size_ok s' \<and> maxBuffer (sch_buffer s') = maxBuffer (sch_buffer s) \<and>
    (case r of
       Inl err \<Rightarrow> sch_stopped s \<and> s' = s
     | Inr ids \<Rightarrow> \<not> sch_stopped s \<and>
         (\<exists>D. ids = map elem_id D \<and>
            add_mset e (bq_content (sch_buffer s)) = mset D + bq_content (sch_buffer s'))))"
proof (cases "sch_stopped s")
  case True
  with inv sz show ?thesis by (simp add: scheduler_submit_def)
next
  case False
  let ?c = "RefreshCacheIfNecessary now vec totalV (accessManaCache s)"
  let ?b = "sch_buffer s"
  have wf: "bq_wf newID ?b (bq_cells ?b)" using inv by (simp add: sch_inv_def bq_inv_wf)
  have we: "wf_elem e" using e by (simp add: block_ok_def)
  have mb: "0 \<le> maxBuffer ?b" using sz by (simp add: sched_size_ok_def)
  from bq_Submit_wf [OF wf we ord rnd mb, of "GetCachedMana ?c"] obtain r b' where
    r: "BufferQueue_Submit newID ord rnd ?b e (GetCachedMana ?c) = ok (r, b')" "bq_inv newID b'"
      "maxBuffer b' = maxBuffer ?b" "fst ` set (activeNode ?b) \<subseteq> fst ` set (activeNode b')"
      "case r of Inl err \<Rightarrow> is_waiting newID ?b e \<and> b' = ?b
       | Inr ids \<Rightarrow> \<not> is_waiting newID ?b e \<and> bq_size b' = min (bq_size ?b + 1) (maxBuffer ?b) \<and>
           (\<exists>D. ids = map elem_id D \<and> add_mset e (bq_content ?b) = mset D + bq_content b')"
    by (auto simp: ensures_def)
  from r(5) fresh False obtain ids D where
    ids: "r = Inr ids" "ids = map elem_id D" "add_mset e (bq_content ?b) = mset D + bq_content b'"
      "bq_size b' = min (bq_size ?b + 1) (maxBuffer ?b)"
    by (cases r) auto
  let ?s = "s\<lparr>accessManaCache := ?c, sch_buffer := b'\<rparr>"
  have "e' = e \<or> e' \<in># bq_content ?b" if "e' \<in># bq_content b'" for e'
  proof -
    have "e' \<in># add_mset e (bq_content ?b)" using that by (simp add: ids(3))
    then show ?thesis by simp
  qed
  then have "sizes_ok b'"
    using inv e by (auto simp: sch_inv_def sizes_ok_def block_ok_def)
  moreover have "deficit_nodes ?s"
  proof -
    have "fst ` set (deficits s) \<subseteq> fst ` set (activeNode ?b)"
      using inv by (simp only: sch_inv_def deficit_nodes_def)
    from order_trans [OF this r(4)] show ?thesis
      by (simp only: deficit_nodes_def) (simp del: image_subset_iff)
  qed
  moreover have "mana_floor ?s" "deficits_ok ?s"
    using inv by (simp_all add: sch_inv_def mana_floor_def deficits_ok_def RefreshCacheIfNecessary_def)
  ultimately have "sch_inv newID ?s" using r(2) by (simp add: sch_inv_def)
  with r(1,3) ids False mb show ?thesis
    by (auto simp: scheduler_submit_def Let_def sched_size_ok_def)
qed

lemma scheduler_ready_wf:
  assumes inv: "sch_inv newID s" and e: "wf_elem e" and u: "id_unique s e"
  shows "ensures (scheduler_ready newID e s) (\<lambda>s'. sch_inv newID s' \<and>
    bq_size (sch_buffer s') = bq_size (sch_buffer s) \<and> maxBuffer (sch_buffer s') = maxBuffer (sch_buffer s) \<and>
    bq_content (sch_buffer s') = bq_content (sch_buffer s))"
proof -
  have wf: "bq_wf newID (sch_buffer s) (bq_cells (sch_buffer s))" using inv by (simp add: sch_inv_def bq_inv_wf)
  have "e' = e" if "e' \<in># bq_content (sch_buffer s)" "elem_id e' = elem_id e" for e'
    using u that by (simp add: id_unique_def)
  from bq_Ready_wf [OF wf e this] inv show ?thesis
    by (auto simp: scheduler_ready_def ensures_def sch_inv_def mana_floor_def deficits_ok_def
        deficit_nodes_def sizes_ok_def bq_wf_inv)
qed

lemma scheduler_unsubmit_wf:
  assumes inv: "sch_inv newID s" and e: "wf_elem e"
  shows "ensures (scheduler_unsubmit newID e s) (\<lambda>s'. sch_inv newID s' \<and>
    bq_size (sch_buffer s') \<le> bq_size (sch_buffer s) \<and> maxBuffer (sch_buffer s') = maxBuffer (sch_buffer s))"
proof -
  let ?b = "sch_buffer s"
  have wf: "bq_wf newID ?b (bq_cells ?b)" using inv by (simp add: sch_inv_def bq_inv_wf)
  from bq_Unsubmit_wf [OF wf e] obtain d b' where
    d: "BufferQueue_Unsubmit newID ?b e = ok (d, b')" "bq_wf newID b' (bq_cells ?b)"
      "maxBuffer b' = maxBuffer ?b" "activeNode b' = activeNode ?b" "\<not> d \<longrightarrow> b' = ?b"
      "d \<longrightarrow> bq_size b' = bq_size ?b - 1 \<and> (\<exists>e'. elem_id e' = elem_id e \<and> bq_content ?b = add_mset e' (bq_content b'))"
    by (auto simp: ensures_def)
  have "sizes_ok b'" using d(5,6) inv by (cases d) (auto simp: sch_inv_def sizes_ok_def)
  with d inv show ?thesis
    by (cases d) (auto simp: scheduler_unsubmit_def sch_inv_def mana_floor_def deficits_ok_def
        deficit_nodes_def bq_wf_inv)
qed

section \<open>The machine\<close>

datatype sched_event =
    EvSubmit gotime "(node_id \<times> rat) list" rat Element
  | EvReady Element
  | EvUnsubmit Element
  | EvSchedule gotime "ElementID \<Rightarrow> bool" "(node_id \<times> rat) list" rat
  | EvShutdown

fun run_event ::
  "(pubkey \<Rightarrow> node_id) \<Rightarrow> ((ElementID \<times> Element) list \<Rightarrow> (ElementID \<times> Element) list) \<Rightarrow> (rat \<Rightarrow> rat) \<Rightarrow>
   sched_event \<Rightarrow> Scheduler \<Rightarrow> Scheduler go" where
  "run_event newID ord rnd (EvSubmit now vec totalV e) s =
     bindE (scheduler_submit newID ord rnd now vec totalV e s) (\<lambda>(_, s'). ok s')"
| "run_event newID ord rnd (EvReady e) s = scheduler_ready newID e s"
| "run_event newID ord rnd (EvUnsubmit e) s = scheduler_unsubmit newID e s"
| "run_event newID ord rnd (EvSchedule now confirmed vec totalV) s =
     bindE (schedule newID now confirmed vec totalV s) (\<lambda>(_, _, s'). ok s')"
| "run_event newID ord rnd EvShutdown s = ok (Shutdown s)"

fun allowed :: "sched_event \<Rightarrow> Scheduler \<Rightarrow> bool" where
  "allowed (EvSubmit now vec totalV e) s \<longleftrightarrow> block_ok e"
| "allowed (EvReady e) s \<longleftrightarrow> wf_elem e \<and> id_unique s e"
| "allowed (EvUnsubmit e) s \<longleftrightarrow> wf_elem e"
| "allowed (EvSchedule now confirmed vec totalV) s \<longleftrightarrow> True"
| "allowed EvShutdown s \<longleftrightarrow> True"

inductive sched_reach ::
  "(pubkey \<Rightarrow> node_id) \<Rightarrow> ((ElementID \<times> Element) list \<Rightarrow> (ElementID \<times> Element) list) \<Rightarrow> (rat \<Rightarrow> rat) \<Rightarrow>
   Scheduler \<Rightarrow> bool"
  for newID ord rnd where
  init: "0 \<le> maxBuf \<Longrightarrow> sched_reach newID ord rnd (NewScheduler maxBuf tokens thr rnd)"
| step: "sched_reach newID ord rnd s \<Longrightarrow> allowed ev s \<Longrightarrow> run_event newID ord rnd ev s = ok s' \<Longrightarrow>
    sched_reach newID ord rnd s'"

inductive_cases sched_reachE: "sched_reach newID ord rnd s"

lemma NewScheduler_inv: "sch_inv newID (NewScheduler maxBuf tokens thr rnd)"
  using bq_wf_inv [OF bq_wf_New] bq_wf_content [OF bq_wf_New]
  by (simp add: sch_inv_def NewScheduler_def mana_floor_def NewAccessManaCache_def MinMana_def
      deficits_ok_def deficit_nodes_def sizes_ok_def)

lemma schedule_size:
  assumes "sch_inv newID s" and "sched_size_ok s"
  shows "ensures (schedule newID now confirmed vec totalV s) (\<lambda>(x, sk, s'). sch_inv newID s' \<and> sched_size_ok s')"
proof -
  from schedule_wf [OF assms(1), of now confirmed vec totalV] obtain x sk s' D where
    i: "schedule newID now confirmed vec totalV s = ok (x, sk, s')" "sch_inv newID s'"
      "maxBuffer (sch_buffer s') = maxBuffer (sch_buffer s)"
      "bq_content (sch_buffer s) = mset D + (case x of None \<Rightarrow> {#} | Some e \<Rightarrow> {#e#}) + bq_content (sch_buffer s')"
    by (auto simp: ensures_def)
  have "bq_size (sch_buffer s'') = int (size (bq_content (sch_buffer s'')))" if "sch_inv newID s''" for s''
    using that bq_wf_size [OF bq_inv_wf] unfolding sch_inv_def by blast
  from this [OF assms(1)] this [OF i(2)] show ?thesis
    using i assms(2) by (auto simp: sched_size_ok_def)
qed

text \<open>The event that panics: submitting a block whose ID is already submitted.\<close>

fun submits_again :: "(pubkey \<Rightarrow> node_id) \<Rightarrow> sched_event \<Rightarrow> Scheduler \<Rightarrow> bool" where
  "submits_again newID (EvSubmit now vec totalV e) s \<longleftrightarrow> \<not> sch_stopped s \<and> is_waiting newID (sch_buffer s) e"
| "submits_again newID ev s \<longleftrightarrow> False"

lemma run_event_panics:
  assumes "sch_inv newID s" and "sched_size_ok s" and "allowed ev s" and "perm_ord ord" and "sane_rnd rnd"
    and "submits_again newID ev s"
  shows "run_event newID ord rnd ev s = fail (Raised ''failed to submit: block already submitted'')"
  using assms scheduler_submit_waiting [OF assms(1) _ _ assms(4,5)]
  by (cases ev) (auto simp: sched_size_ok_def block_ok_def)

lemma run_event_wf:
  assumes "sch_inv newID s" and "sched_size_ok s" and "allowed ev s" and "perm_ord ord" and "sane_rnd rnd"
    and "\<not> submits_again newID ev s"
  shows "ensures (run_event newID ord rnd ev s) (\<lambda>s'. sch_inv newID s' \<and> sched_size_ok s')"
proof (cases ev)
  case (EvSubmit now vec totalV e)
  with assms show ?thesis
    using scheduler_submit_wf [OF assms(1,2) _ _ assms(4,5), of e now vec totalV]
    by (auto simp: ensures_def)
next
  case (EvReady e)
  with assms show ?thesis
    using scheduler_ready_wf [OF assms(1), of e] by (auto simp: ensures_def sched_size_ok_def)
next
  case (EvUnsubmit e)
  with assms show ?thesis
    using scheduler_unsubmit_wf [OF assms(1), of e] by (fastforce simp: ensures_def sched_size_ok_def)
next
  case (EvSchedule now confirmed vec totalV)
  then show ?thesis
    using schedule_size [OF assms(1,2), of now confirmed vec totalV] by (auto simp: ensures_def)
next
  case EvShutdown
  with assms show ?thesis
    by (simp add: Shutdown_def sch_inv_def sched_size_ok_def mana_floor_def deficits_ok_def deficit_nodes_def)
qed

lemma sched_reach_wf:
  "sched_reach newID ord rnd s \<Longrightarrow> perm_ord ord \<Longrightarrow> sane_rnd rnd \<Longrightarrow> sch_inv newID s \<and> sched_size_ok s"
proof (induction rule: sched_reach.induct)
  case (init maxBuf tokens thr)
  then show ?case
    using NewScheduler_inv [of newID maxBuf tokens thr rnd]
    by (simp add: sched_size_ok_def) (simp add: NewScheduler_def NewBufferQueue_def)
next
  case (step s ev s')
  then show ?case using run_event_wf [of newID s ev ord rnd] run_event_panics [of newID s ev ord rnd]
    by (cases "submits_again newID ev s") (auto simp: ensures_def)
qed

section \<open>Properties\<close>

text \<open>C4: In every state the scheduler can reach, an operation on blocks that are well formed returns: it does not
  panic and none of its loops runs forever.  The one exception is that submitting a block whose ID is
  already submitted, and not yet ready, panics, unless the scheduler is stopped.\<close>

theorem scheduler_panics_exactly:
  assumes "sched_reach newID ord rnd s" and "perm_ord ord" and "sane_rnd rnd" and "allowed ev s"
  shows "if submits_again newID ev s
    then run_event newID ord rnd ev s = fail (Raised ''failed to submit: block already submitted'')
    else \<exists>s'. run_event newID ord rnd ev s = ok s'"
  using run_event_wf [OF _ _ assms(4,2,3), of newID] run_event_panics [OF _ _ assms(4,2,3), of newID]
    sched_reach_wf [OF assms(1-3)]
  by (auto simp: ensures_def)

text \<open>C7: In every state the scheduler can reach, every deficit lies between 0 and
  MaxDeficit, nodes with a deficit are active, the buffer holds at most its maximum number
  of blocks, size counts exactly the blocks held (and not their bytes, as the comments of Size and MaxSize say), no two queues belong to one node, and
  NumActiveNodes is the number of queues.\<close>

theorem scheduler_invariant:
  assumes "sched_reach newID ord rnd s" and "perm_ord ord" and "sane_rnd rnd"
  shows "(\<forall>n. 0 \<le> GetDeficit s n \<and> GetDeficit s n \<le> MaxDeficit) \<and>
    fst ` set (deficits s) \<subseteq> nodeID ` set (bq_queues (sch_buffer s)) \<and>
    bq_size (sch_buffer s) \<le> maxBuffer (sch_buffer s) \<and>
    bq_size (sch_buffer s) = int (size (bq_content (sch_buffer s))) \<and>
    distinct (map nodeID (bq_queues (sch_buffer s))) \<and>
    NumActiveNodes (sch_buffer s) = length (bq_queues (sch_buffer s))"
proof -
  from sched_reach_wf [OF assms] have inv: "sch_inv newID s" and sz: "sched_size_ok s" by auto
  then have wf: "bq_wf newID (sch_buffer s) (bq_cells (sch_buffer s))" and d: "deficits_ok s"
    and dn: "deficit_nodes s" by (auto simp: sch_inv_def bq_inv_wf)
  have "distinct (map nodeID (bq_queues (sch_buffer s)))"
    using wf by (simp add: bq_queues_def bq_wf_def comp_def)
  moreover have "fst ` set (deficits s) \<subseteq> nodeID ` set (bq_queues (sch_buffer s))"
    using dn unfolding deficit_nodes_def bq_wf_active_fst [OF wf] .
  moreover have "NumActiveNodes (sch_buffer s) = length (bq_queues (sch_buffer s))"
    using bq_wf_NumActiveNodes [OF wf] by (simp add: bq_queues_def)
  ultimately show ?thesis
    using GetDeficit_range [OF d] sz bq_wf_size [OF wf] by (simp add: sched_size_ok_def)
qed

text \<open>C18: A call of schedule neither loses nor invents a block: the blocks held before are
  those held afterwards, the block returned, and the blocks skipped, which are all confirmed and
  older than the threshold.  The block returned is due and not one to skip.\<close>

theorem schedule_conserves:
  assumes "sch_inv newID s"
  shows "\<exists>x sk s' D. schedule newID now confirmed vec totalV s = ok (x, sk, s') \<and> sch_inv newID s' \<and>
    sk = map elem_id D \<and> (\<forall>e \<in> set D. skippable now confirmed (confirmedBlkThreshold s) e) \<and>
    bq_content (sch_buffer s) = mset D + mset_set (set_option x) + bq_content (sch_buffer s') \<and>
    (\<forall>e. x = Some e \<longrightarrow> IssuingTime e \<le> now \<and> \<not> skippable now confirmed (confirmedBlkThreshold s) e)"
proof -
  from schedule_wf [OF assms, of now confirmed vec totalV] obtain x sk s' D where
    i: "schedule newID now confirmed vec totalV s = ok (x, sk, s')" "sch_inv newID s'" "sk = map elem_id D"
      "\<forall>e \<in> set D. skippable now confirmed (confirmedBlkThreshold s) e"
      "bq_content (sch_buffer s) = mset D + (case x of None \<Rightarrow> {#} | Some e \<Rightarrow> {#e#}) + bq_content (sch_buffer s')"
      "\<forall>e. x = Some e \<longrightarrow> IssuingTime e \<le> now \<and> \<not> skippable now confirmed (confirmedBlkThreshold s) e"
    by (auto simp: ensures_def)
  have "(case x of None \<Rightarrow> {#} | Some e \<Rightarrow> {#e#}) = mset_set (set_option x)" by (cases x) auto
  with i show ?thesis by auto
qed

text \<open>C17: Which node is served, and at what cost.  When a round returns a block, it is the first due
  block of the first node, in round robin order, of those that need the fewest rounds of their
  quantum to pay for theirs.  Every active node is credited that many quanta (up to the cap), the
  nodes before the chosen one a further quantum, and the chosen one is charged the block's size.\<close>

theorem schedule_fewest_rounds:
  assumes "sch_inv newID s" and "BufferQueue_Current (sch_buffer s) = Some start"
    and "schedule_round newID now confirmed start s = ok (Some e, sk, s')"
  shows "\<exists>D s1. scheduled now confirmed (bq_cells (sch_buffer s)) s s1 D e s' \<and> sk = map elem_id D \<and>
    bq_content (sch_buffer s1) = add_mset e (bq_content (sch_buffer s'))"
proof -
  have wf: "bq_wf newID (sch_buffer s) (bq_cells (sch_buffer s))" using assms(1) by (simp add: sch_inv_def bq_inv_wf)
  have ne: "bq_cells (sch_buffer s) \<noteq> []"
    using assms(2) bq_wf_ring_None [OF wf] by (auto simp: BufferQueue_Current_def)
  have "start = hd (bq_cells (sch_buffer s))"
    using assms(2) bq_wf_order [OF wf] by (auto simp: BufferQueue_Current_def bq_order_def)
  with schedule_round_wf [OF wf ne assms(1), of now confirmed] assms(3) show ?thesis by auto
qed

text \<open>C32: Progress: if the first ready block of some active node is due and not one to skip, and
  the node needs fewer than MaxInt64 rounds to pay for it, a round returns a block.\<close>

theorem schedule_progress:
  assumes "sch_inv newID s" and "BufferQueue_Current (sch_buffer s) = Some start"
    and "a \<in> set (bq_cells (sch_buffer s))" and "due_front now (sch_buffer s) a = Some e"
    and "\<not> skippable now confirmed (confirmedBlkThreshold s) e"
    and "rounds_needed now s a = Some r" and "r < of_int MaxInt64"
  shows "\<exists>e' sk s'. schedule_round newID now confirmed start s = ok (Some e', sk, s')"
proof -
  let ?xs = "bq_cells (sch_buffer s)"
  have wf: "bq_wf newID (sch_buffer s) ?xs" using assms(1) by (simp add: sch_inv_def bq_inv_wf)
  have ne: "?xs \<noteq> []" using assms(3) by auto
  have start: "start = hd ?xs"
    using assms(2) bq_wf_order [OF wf] by (auto simp: BufferQueue_Current_def bq_order_def)
  from schedule_round_wf [OF wf ne assms(1), of now confirmed] obtain x sk s' D s1 where
    r: "schedule_round newID now confirmed start s = ok (x, sk, s')" "looked now confirmed ?xs s s1 D"
      "case x of
          None \<Rightarrow> s' = s1 \<and> (\<forall>a \<in> set ?xs. \<forall>r. rounds_needed now s1 a = Some r \<longrightarrow> of_int MaxInt64 \<le> r)
        | Some e \<Rightarrow> scheduled now confirmed ?xs s s1 D e s' \<and>
            bq_content (sch_buffer s1) = add_mset e (bq_content (sch_buffer s'))"
    unfolding start by (auto simp: ensures_def)
  have "bq_get (sch_buffer s1) a = bq_get (sch_buffer s) a" "deficits s1 = deficits s" "sch_frame s s1"
    using r(2) assms(4,5) by (auto simp: looked_def)
  then have "rounds_needed now s1 a = Some r" using rounds_needed_cong assms(6) by metis
  with r(3) assms(3,7) have "x \<noteq> None" by (auto simp: not_less split: option.splits)
  with r(1) show ?thesis by auto
qed

text \<open>Starvation: the search for the node that needs the fewest rounds starts at
  MaxInt64, so when every due block needs that many rounds, none is returned and no deficit
  is credited: the same blocks wait for ever, however often schedule is called.\<close>

theorem schedule_starves:
  assumes "sch_inv newID s" and "BufferQueue_Current (sch_buffer s) = Some start"
    and "\<forall>a \<in> set (bq_cells (sch_buffer s)). \<forall>e. due_front now (sch_buffer s) a = Some e \<longrightarrow>
           \<not> skippable now confirmed (confirmedBlkThreshold s) e"
    and "\<forall>a \<in> set (bq_cells (sch_buffer s)). \<forall>r. rounds_needed now s a = Some r \<longrightarrow> of_int MaxInt64 \<le> r"
  shows "\<exists>sk s'. schedule_round newID now confirmed start s = ok (None, sk, s') \<and>
    deficits s' = deficits s \<and> bq_queues (sch_buffer s') = bq_queues (sch_buffer s)"
proof -
  let ?xs = "bq_cells (sch_buffer s)"
  have wf: "bq_wf newID (sch_buffer s) ?xs" using assms(1) by (simp add: sch_inv_def bq_inv_wf)
  have ne: "?xs \<noteq> []"
    using assms(2) bq_wf_ring_None [OF wf] by (auto simp: BufferQueue_Current_def)
  have start: "start = hd ?xs"
    using assms(2) bq_wf_order [OF wf] by (auto simp: BufferQueue_Current_def bq_order_def)
  have mf: "mana_floor s" using assms(1) by (simp add: sch_inv_def)
  from consider_loop [OF wf ne mf, of now confirmed "of_int MaxInt64"] obtain r sn sk s1 D where
    l: "for_ring (sch_fuel s) sch_Next start (considerBody now confirmed) start ((of_int MaxInt64, None, []), s)
          = ok ((r, sn, sk), s1)"
      "bq_wf newID (sch_buffer s1) ?xs" "(r, sn) = fold (pick now s1) ?xs (of_int MaxInt64, None)"
      "looked now confirmed ?xs s s1 D"
    unfolding start by (auto simp: ensures_def)
  have get: "bq_get (sch_buffer s1) a = bq_get (sch_buffer s) a" if "a \<in> set ?xs" for a
    using l(4) assms(3) that by (simp add: looked_def)
  have fr: "deficits s1 = deficits s" "sch_frame s s1" using l(4) by (auto simp: looked_def)
  have none: "sn = None"
  proof (rule ccontr)
    assume "sn \<noteq> None"
    with pick_fold [OF l(3) [symmetric]] obtain a where
      a: "a \<in> set ?xs" "r < of_int MaxInt64" "rounds_needed now s1 a = Some r" by fastforce
    with rounds_needed_cong [OF get [OF a(1)] fr] assms(4) show False by (metis not_less)
  qed
  have "bq_queues (sch_buffer s1) = bq_queues (sch_buffer s)"
    unfolding bq_wf_queues [OF l(2)] bq_wf_queues [OF wf] using get by simp
  with l(1) none fr show ?thesis by (simp add: schedule_round_def)
qed

text \<open>Updating the list of active nodes removes exactly the queues of nodes without enough mana
  that hold no block, keeps the others in their round robin order, appends empty queues, and does
  not touch the blocks held.\<close>

theorem updateActiveNodes_filters:
  assumes "sch_inv newID s"
  shows "\<exists>s' ns. updateActiveNodesList vec s = ok s' \<and> sch_inv newID s' \<and>
    bq_queues (sch_buffer s') =
      filter (\<lambda>q. \<not> (low_mana vec (nodeID q) \<and> nq_size q = 0)) (bq_queues (sch_buffer s))
        @ map NewNodeQueue ns \<and>
    bq_content (sch_buffer s') = bq_content (sch_buffer s)"
proof -
  have wf: "bq_wf newID (sch_buffer s) (bq_cells (sch_buffer s))" using assms by (simp add: sch_inv_def bq_inv_wf)
  from updateActiveNodesList_wf [OF wf assms, of vec] obtain s' ns where
    "updateActiveNodesList vec s = ok s'" "sch_inv newID s'"
    "bq_queues (sch_buffer s') = filter (keeps vec) (bq_queues (sch_buffer s)) @ map NewNodeQueue ns"
    "bq_content (sch_buffer s') = bq_content (sch_buffer s)"
    by (auto simp: ensures_def)
  moreover have "keeps vec = (\<lambda>q. \<not> (low_mana vec (nodeID q) \<and> nq_size q = 0))"
    by (simp add: keeps_def fun_eq_iff)
  ultimately show ?thesis by metis
qed

section \<open>Witnesses\<close>

text \<open>A scheduler that holds one ready block of node 1 and one waiting block of node 2.\<close>

definition demo_vec :: "(node_id \<times> rat) list" where
  "demo_vec = [([1], 10), ([2], 20)]"

fun run_all :: "sched_event list \<Rightarrow> Scheduler \<Rightarrow> Scheduler go" where
  "run_all [] s = ok s"
| "run_all (ev # evs) s = bindE (run_event id id id ev s) (run_all evs)"

fun all_allowed :: "sched_event list \<Rightarrow> Scheduler \<Rightarrow> bool" where
  "all_allowed [] s \<longleftrightarrow> True"
| "all_allowed (ev # evs) s \<longleftrightarrow> allowed ev s \<and> (case run_event id id id ev s of Inl _ \<Rightarrow> True | Inr s' \<Rightarrow> all_allowed evs s')"

lemma run_all_reach:
  "sched_reach id id id s \<Longrightarrow> all_allowed evs s \<Longrightarrow> run_all evs s = ok s' \<Longrightarrow> sched_reach id id id s'"
proof (induction evs arbitrary: s)
  case (Cons ev evs)
  obtain s1 where s1: "run_event id id id ev s = ok s1" "run_all evs s1 = ok s'"
    using Cons.prems(3) by (cases "run_event id id id ev s") auto
  have "sched_reach id id id s1" by (rule sched_reach.step [OF Cons.prems(1) _ s1(1)]) (use Cons.prems(2) in simp)
  then show ?case by (rule Cons.IH) (use s1 Cons.prems(2) in simp_all)
qed simp

definition demo_events :: "sched_event list" where
  "demo_events = [EvSubmit (10 ^ 10) demo_vec 30 (demo_elem 1 5 10 3),
     EvSubmit (10 ^ 10) demo_vec 30 (demo_elem 2 6 20 4), EvReady (demo_elem 1 5 10 3)]"

definition demo_sched :: Scheduler where
  "demo_sched = (case run_all demo_events (NewScheduler 10 1000 60 id) of Inr s \<Rightarrow> s
     | Inl _ \<Rightarrow> NewScheduler 10 1000 60 id)"

lemma demo_allowed: "all_allowed demo_events (NewScheduler 10 1000 60 id)"
  by code_simp

lemma demo_reach: "sched_reach id id id demo_sched"
proof -
  have "sched_reach id id id (NewScheduler 10 1000 60 id)" by (rule sched_reach.init) simp
  with run_all_reach [OF this demo_allowed] show ?thesis by (auto simp: demo_sched_def split: sum.split)
qed

lemma demo_inv: "sch_inv id demo_sched"
  using sched_reach_wf [OF demo_reach perm_ord_id sane_rnd_id] by blast

text \<open>The block 2 is submitted and the block 1 is ready.\<close>

lemma scheduler_panics_exactly_witness:
  "(\<exists>s'. run_event id id id (EvSchedule (10 ^ 10) (\<lambda>_. False) demo_vec 30) demo_sched = ok s') \<and>
   run_event id id id (EvSubmit (10 ^ 10) demo_vec 30 (demo_elem 2 6 20 4)) demo_sched =
     fail (Raised ''failed to submit: block already submitted'')"
proof
  show "\<exists>s'. run_event id id id (EvSchedule (10 ^ 10) (\<lambda>_. False) demo_vec 30) demo_sched = ok s'"
    using scheduler_panics_exactly [OF demo_reach perm_ord_id sane_rnd_id, of "EvSchedule (10 ^ 10) (\<lambda>_. False) demo_vec 30"]
    by simp
  have "allowed (EvSubmit (10 ^ 10) demo_vec 30 (demo_elem 2 6 20 4)) demo_sched"
    "submits_again id (EvSubmit (10 ^ 10) demo_vec 30 (demo_elem 2 6 20 4)) demo_sched" by code_simp+
  then show "run_event id id id (EvSubmit (10 ^ 10) demo_vec 30 (demo_elem 2 6 20 4)) demo_sched =
      fail (Raised ''failed to submit: block already submitted'')"
    using scheduler_panics_exactly [OF demo_reach perm_ord_id sane_rnd_id] by (simp only: if_True split: if_splits)
qed

lemma scheduler_invariant_witness:
  "bq_size (sch_buffer demo_sched) = int (size (bq_content (sch_buffer demo_sched))) \<and>
   bq_size (sch_buffer demo_sched) = 2"
proof -
  have "bq_size (sch_buffer demo_sched) = 2" by code_simp
  with scheduler_invariant [OF demo_reach perm_ord_id sane_rnd_id] show ?thesis by blast
qed

lemma schedule_conserves_witness:
  "\<exists>x sk s' D. schedule id (10 ^ 10) (\<lambda>_. False) demo_vec 30 demo_sched = ok (x, sk, s') \<and> sch_inv id s' \<and>
    bq_content (sch_buffer demo_sched) = mset D + mset_set (set_option x) + bq_content (sch_buffer s')"
  using schedule_conserves [OF demo_inv, of "10 ^ 10" "\<lambda>_. False" demo_vec 30] by blast

lemma updateActiveNodes_filters_witness:
  "\<exists>s' ns. updateActiveNodesList [] demo_sched = ok s' \<and>
    bq_content (sch_buffer s') = bq_content (sch_buffer demo_sched)"
  using updateActiveNodes_filters [OF demo_inv, of "[]"] by blast

lemma demo_current: "BufferQueue_Current (sch_buffer demo_sched) = Some 0"
  by code_simp

fun scheduled_block :: "(Element option \<times> ElementID list \<times> Scheduler) go \<Rightarrow> Element option" where
  "scheduled_block (Inr (x, _, _)) = x"
| "scheduled_block (Inl _) = None"

lemma demo_round: "scheduled_block (schedule_round id (10 ^ 10) (\<lambda>_. False) 0 demo_sched) = Some (demo_elem 1 5 10 3)"
  by code_simp

lemma schedule_fewest_rounds_witness:
  "\<exists>D s1 sk s'. schedule_round id (10 ^ 10) (\<lambda>_. False) 0 demo_sched = ok (Some (demo_elem 1 5 10 3), sk, s') \<and>
    scheduled (10 ^ 10) (\<lambda>_. False) (bq_cells (sch_buffer demo_sched)) demo_sched s1 D (demo_elem 1 5 10 3) s'"
proof -
  from demo_round obtain sk s' where
    "schedule_round id (10 ^ 10) (\<lambda>_. False) 0 demo_sched = ok (Some (demo_elem 1 5 10 3), sk, s')"
    by (cases "schedule_round id (10 ^ 10) (\<lambda>_. False) 0 demo_sched") auto
  with schedule_fewest_rounds [OF demo_inv demo_current this] show ?thesis by blast
qed

lemma schedule_progress_witness:
  "\<exists>e' sk s'. schedule_round id (10 ^ 10) (\<lambda>_. False) 0 demo_sched = ok (Some e', sk, s')"
proof (rule schedule_progress [OF demo_inv demo_current])
  show "0 \<in> set (bq_cells (sch_buffer demo_sched))" by code_simp
  show "due_front (10 ^ 10) (sch_buffer demo_sched) 0 = Some (demo_elem 1 5 10 3)" by code_simp
  show "\<not> skippable (10 ^ 10) (\<lambda>_. False) (confirmedBlkThreshold demo_sched) (demo_elem 1 5 10 3)"
    by (simp add: skippable_def)
  show "rounds_needed (10 ^ 10) demo_sched 0 = Some 30" by code_simp
  show "(30 :: rat) < of_int MaxInt64" by (simp add: MaxInt64_def)
qed

text \<open>A block of 4000 bytes of a node without mana, under the total supply the node is configured
  with: it would take more than MaxInt64 rounds.\<close>

definition starve_events :: "sched_event list" where
  "starve_events = [EvSubmit (10 ^ 10) [] 2779530283277761 (demo_elem 1 5 4000 3),
     EvReady (demo_elem 1 5 4000 3)]"

definition starve_sched :: Scheduler where
  "starve_sched = (case run_all starve_events (NewScheduler 10 1000 60 id) of Inr s \<Rightarrow> s
     | Inl _ \<Rightarrow> NewScheduler 10 1000 60 id)"

lemma starve_inv: "sch_inv id starve_sched"
proof -
  have "sched_reach id id id (NewScheduler 10 1000 60 id)" by (rule sched_reach.init) simp
  moreover have "all_allowed starve_events (NewScheduler 10 1000 60 id)" by code_simp
  ultimately have "sched_reach id id id starve_sched"
    using run_all_reach by (auto simp: starve_sched_def split: sum.split)
  from sched_reach_wf [OF this perm_ord_id sane_rnd_id] show ?thesis by blast
qed

lemma schedule_starves_witness:
  "(\<exists>sk s'. schedule_round id (10 ^ 10) (\<lambda>_. False) 0 starve_sched = ok (None, sk, s') \<and>
     deficits s' = deficits starve_sched \<and>
     bq_queues (sch_buffer s') = bq_queues (sch_buffer starve_sched)) \<and>
   due_front (10 ^ 10) (sch_buffer starve_sched) 0 = Some (demo_elem 1 5 4000 3)"
proof
  have cells: "bq_cells (sch_buffer starve_sched) = [0]" by code_simp
  have rn: "rounds_needed (10 ^ 10) starve_sched 0 = Some 11118121133111044000" by code_simp
  have cur: "BufferQueue_Current (sch_buffer starve_sched) = Some 0" by code_simp
  show "\<exists>sk s'. schedule_round id (10 ^ 10) (\<lambda>_. False) 0 starve_sched = ok (None, sk, s') \<and>
     deficits s' = deficits starve_sched \<and>
     bq_queues (sch_buffer s') = bq_queues (sch_buffer starve_sched)"
    by (rule schedule_starves [OF starve_inv cur])
      (use cells rn in \<open>auto simp: skippable_def MaxInt64_def\<close>)
  show "due_front (10 ^ 10) (sch_buffer starve_sched) 0 = Some (demo_elem 1 5 4000 3)" by code_simp
qed

end
