(* ===== verification/Balances.thy ===== *)
theory Balances
  imports Prelude "HOL-Library.DAList"
begin

text \<open>
  Coloured balances (packages/core/ledger/vm/devnetvm/color.go) and the checked arithmetic and
  dust rules on them (utils.go, output.go).

  A Color is a list of 32 bytes.  The ordered map that holds the balances is a type of an external
  package: its state is a type parameter 'm and its operations are fields of the record orderedmap
  which every definition that uses them takes as an argument.  The locale ordered_map
  states what the package documents: an insertion-ordered map, whose ForEach visits the entries in
  that order.  A Go map from colors to balances is an association list.
\<close>

type_synonym Color = bytes
type_synonym uint64 = "64 word"

section \<open>Colors\<close>

definition ColorLength :: nat where "ColorLength = 32"

definition ColorZIPP :: Color where "ColorZIPP = replicate ColorLength 0"

definition ColorMint :: Color where "ColorMint = replicate ColorLength 255"

lemma ColorMint_not_ZIPP [simp]: "ColorMint \<noteq> ColorZIPP" "ColorZIPP \<noteq> ColorMint"
  by (simp_all add: ColorMint_def ColorZIPP_def ColorLength_def)

text \<open>bytes.Compare a b < 0: the lexicographic order on byte slices.\<close>

fun bytes_less :: "bytes \<Rightarrow> bytes \<Rightarrow> bool" where
  "bytes_less _ [] = False"
| "bytes_less [] (_ # _) = True"
| "bytes_less (a # as) (b # bs) = (a < b \<or> a = b \<and> bytes_less as bs)"

definition bytes_le :: "bytes \<Rightarrow> bytes \<Rightarrow> bool" where
  "bytes_le a b = (\<not> bytes_less b a)"

definition Color_Compare :: "Color \<Rightarrow> Color \<Rightarrow> int" where
  "Color_Compare a b = (if bytes_less a b then -1 else if bytes_less b a then 1 else 0)"

lemma bytes_less_irrefl [simp]: "\<not> bytes_less a a"
  by (induction a) auto

lemma bytes_less_trans: "bytes_less a b \<Longrightarrow> bytes_less b c \<Longrightarrow> bytes_less a c"
proof (induction a c arbitrary: b rule: bytes_less.induct)
  case (1 a)
  then show ?case by (cases b) auto
next
  case (2 c cs)
  then show ?case by simp
next
  case (3 x xs z zs)
  then show ?case by (cases b) auto
qed

lemma bytes_less_linear: "bytes_less a b \<or> a = b \<or> bytes_less b a"
proof (induction a b rule: bytes_less.induct)
  case (1 a)
  then show ?case by (cases a) auto
qed (auto simp: neq_iff)

lemma Color_Compare_less: "Color_Compare a b < 0 \<longleftrightarrow> bytes_less a b"
  by (auto simp: Color_Compare_def dest: bytes_less_trans)

text \<open>
  sort.Slice by bytes.Compare: on distinct keys the sorted order is unique, so insertion sort
  gives the same slice.
\<close>

fun insert_by :: "('a \<Rightarrow> 'a \<Rightarrow> bool) \<Rightarrow> 'a \<Rightarrow> 'a list \<Rightarrow> 'a list" where
  "insert_by lt x [] = [x]"
| "insert_by lt x (y # ys) = (if lt y x then y # insert_by lt x ys else x # y # ys)"

definition sort_by :: "('a \<Rightarrow> 'a \<Rightarrow> bool) \<Rightarrow> 'a list \<Rightarrow> 'a list" where
  "sort_by lt xs = foldr (insert_by lt) xs []"

lemma mset_insert_by [simp]: "mset (insert_by lt x xs) = add_mset x (mset xs)"
  by (induction xs) auto

lemma mset_sort_by [simp]: "mset (sort_by lt xs) = mset xs"
  by (induction xs) (auto simp: sort_by_def)

lemma set_sort_by [simp]: "set (sort_by lt xs) = set xs"
  by (metis mset_sort_by set_mset_mset)

lemma length_sort_by [simp]: "length (sort_by lt xs) = length xs"
  by (metis mset_sort_by size_mset)

lemma distinct_sort_by [simp]: "distinct (sort_by lt xs) = distinct xs"
  by (metis mset_sort_by mset_eq_imp_distinct_iff)

lemma sorted_insert_by:
  assumes "\<And>x y. \<not> lt x y \<Longrightarrow> x = y \<or> lt y x" and "\<And>x y z. lt x y \<Longrightarrow> lt y z \<Longrightarrow> lt x z"
    and "sorted_wrt lt xs" and "x \<notin> set xs"
  shows "sorted_wrt lt (insert_by lt x xs)"
proof -
  have set_ins: "set (insert_by lt x ys) = insert x (set ys)" for ys
    by (metis mset_insert_by set_mset_add_mset_insert set_mset_mset)
  show ?thesis
    using assms(3,4)
  proof (induction xs)
    case (Cons y ys)
    show ?case
    proof (cases "lt y x")
      case True
      with Cons show ?thesis by (auto simp: set_ins)
    next
      case False
      with Cons.prems(2) have "lt x y" using assms(1) by auto
      with Cons False show ?thesis using assms(2) by auto
    qed
  qed simp
qed

lemma sorted_sort_by:
  assumes "\<And>x y. \<not> lt x y \<Longrightarrow> x = y \<or> lt y x" and "\<And>x y z. lt x y \<Longrightarrow> lt y z \<Longrightarrow> lt x z"
    and "distinct xs"
  shows "sorted_wrt lt (sort_by lt xs)"
  using assms(3)
proof (induction xs)
  case (Cons x xs)
  have "set (sort_by lt xs) = set xs" by simp
  then have "x \<notin> set (sort_by lt xs)" using Cons.prems by simp
  moreover have "sorted_wrt lt (sort_by lt xs)" using Cons by simp
  ultimately have "sorted_wrt lt (insert_by lt x (sort_by lt xs))"
    by (intro sorted_insert_by) (use assms(1,2) in blast)+
  then show ?case by (simp add: sort_by_def)
qed (simp add: sort_by_def)

section \<open>The ordered map\<close>

record 'm orderedmap =
  om_New :: 'm
  om_Set :: "Color \<Rightarrow> uint64 \<Rightarrow> 'm \<Rightarrow> bool \<times> 'm"
  om_Get :: "'m \<Rightarrow> Color \<Rightarrow> uint64 option"
  om_entries :: "'m \<Rightarrow> (Color \<times> uint64) list"
  om_Size :: "'m \<Rightarrow> nat"

text \<open>ForEach hands the entries to the consumer until it returns False.\<close>

fun ForEach :: "('k \<Rightarrow> 'v \<Rightarrow> 's \<Rightarrow> bool \<times> 's) \<Rightarrow> ('k \<times> 'v) list \<Rightarrow> 's \<Rightarrow> 's" where
  "ForEach f [] s = s"
| "ForEach f ((k, v) # es) s = (let (more, s') = f k v s in if more then ForEach f es s' else s')"

locale ordered_map =
  fixes om :: "('m, 'z) orderedmap_scheme"
  assumes entries_New: "om_entries om (om_New om) = []"
    and entries_Set: "om_entries om (snd (om_Set om k v m)) = AList.update k v (om_entries om m)"
    and Set_new: "k \<notin> fst ` set (om_entries om m) \<Longrightarrow> fst (om_Set om k v m)"
    and Get_entries: "om_Get om m k = map_of (om_entries om m) k"
    and Size_entries: "om_Size om m = length (om_entries om m)"
    and distinct_entries: "distinct (map fst (om_entries om m))"

text \<open>The association lists with distinct keys of the library (DAList) are such a map.\<close>

type_synonym coinmap = "(Color, uint64) alist"

definition coinmap_Set :: "Color \<Rightarrow> uint64 \<Rightarrow> coinmap \<Rightarrow> bool \<times> coinmap" where
  "coinmap_Set k v m = (DAList.lookup m k \<noteq> Some v, DAList.update k v m)"

definition coinmap_ops :: "coinmap orderedmap" where
  "coinmap_ops = \<lparr>om_New = DAList.empty, om_Set = coinmap_Set, om_Get = DAList.lookup,
                  om_entries = DAList.impl_of, om_Size = (\<lambda>m. length (DAList.impl_of m))\<rparr>"

lemma coinmap_ops_simps [simp]:
  "om_New coinmap_ops = DAList.empty" "om_Set coinmap_ops = coinmap_Set"
  "om_Get coinmap_ops = DAList.lookup" "om_entries coinmap_ops = DAList.impl_of"
  "om_Size coinmap_ops m = length (DAList.impl_of m)"
  by (simp_all add: coinmap_ops_def)

interpretation coinmap: ordered_map coinmap_ops
  by unfold_locales
    (simp_all add: coinmap_Set_def DAList.empty.rep_eq DAList.update.rep_eq DAList.lookup.rep_eq
      map_of_eq_None_iff[symmetric])

section \<open>Go maps from colors to balances\<close>

type_synonym coins = "(Color \<times> uint64) list"

text \<open>Reading a missing key yields the zero value.\<close>

definition coin_at :: "coins \<Rightarrow> Color \<Rightarrow> uint64" where
  "coin_at m c = (case map_of m c of Some v \<Rightarrow> v | None \<Rightarrow> 0)"

lemma coin_at_Nil [simp]: "coin_at [] c = 0"
  by (simp add: coin_at_def)

lemma coin_at_update [simp]: "coin_at (AList.update k v m) c = (if c = k then v else coin_at m c)"
  by (simp add: coin_at_def update_conv')

section \<open>ColoredBalances\<close>

definition NewColoredBalances :: "('m, 'z) orderedmap_scheme \<Rightarrow> coins \<Rightarrow> 'm" where
  "NewColoredBalances om balances =
     (let sortedColors = sort_by (\<lambda>a b. Color_Compare a b < 0)
                           (map fst (filter (\<lambda>(color, balance). balance \<noteq> 0) balances))
      in fold (\<lambda>color m. snd (om_Set om color (coin_at balances color) m)) sortedColors (om_New om))"

definition ColoredBalances_Get :: "('m, 'z) orderedmap_scheme \<Rightarrow> 'm \<Rightarrow> Color \<Rightarrow> uint64 option" where
  "ColoredBalances_Get om c color = om_Get om c color"

definition ColoredBalances_ForEach ::
    "('m, 'z) orderedmap_scheme \<Rightarrow> 'm \<Rightarrow> (Color \<Rightarrow> uint64 \<Rightarrow> 's \<Rightarrow> bool \<times> 's) \<Rightarrow> 's \<Rightarrow> 's" where
  "ColoredBalances_ForEach om c consumer s = ForEach consumer (om_entries om c) s"

definition ColoredBalances_Size :: "('m, 'z) orderedmap_scheme \<Rightarrow> 'm \<Rightarrow> nat" where
  "ColoredBalances_Size om c = om_Size om c"

definition ColoredBalances_Clone :: "('m, 'z) orderedmap_scheme \<Rightarrow> 'm \<Rightarrow> 'm" where
  "ColoredBalances_Clone om c = ColoredBalances_ForEach om c (om_Set om) (om_New om)"

definition ColoredBalances_Map :: "('m, 'z) orderedmap_scheme \<Rightarrow> 'm \<Rightarrow> coins" where
  "ColoredBalances_Map om c =
     ColoredBalances_ForEach om c (\<lambda>color balance m. (True, AList.update color balance m)) []"

lemma ForEach_True: "ForEach (\<lambda>k v s. (True, f k v s)) es s = fold (\<lambda>(k, v). f k v) es s"
  by (induction es arbitrary: s) auto

lemma fold_update_distinct:
  "distinct (map fst es) \<Longrightarrow> fst ` set es \<inter> fst ` set m = {} \<Longrightarrow>
   fold (\<lambda>(k, v). AList.update k v) es m = m @ es"
proof (induction es arbitrary: m)
  case (Cons e es)
  obtain k v where e: "e = (k, v)" by (cases e)
  have "map_of m k = None" using Cons.prems(2) by (auto simp: e map_of_eq_None_iff)
  then have "AList.update k v m = m @ [(k, v)]" by (rule update_new_append)
  with Cons show ?case by (auto simp: e)
qed simp

context ordered_map
begin

lemma entries_fold_Set:
  "om_entries om (fold (\<lambda>c m. snd (om_Set om c (g c) m)) cs m) =
   fold (\<lambda>c. AList.update c (g c)) cs (om_entries om m)"
  by (induction cs arbitrary: m) (auto simp: entries_Set)

lemma entries_NewColoredBalances:
  assumes "distinct (map fst bs)"
  shows "om_entries om (NewColoredBalances om bs) =
         map (\<lambda>c. (c, coin_at bs c)) (sort_by (\<lambda>a b. Color_Compare a b < 0)
           (map fst (filter (\<lambda>(c, b). b \<noteq> 0) bs)))"
proof -
  let ?cs = "sort_by (\<lambda>a b. Color_Compare a b < 0) (map fst (filter (\<lambda>(c, b). b \<noteq> 0) bs))"
  have d: "distinct ?cs" using assms by (simp add: distinct_map_filter)
  have upd: "distinct cs \<Longrightarrow> set cs \<inter> fst ` set m = {} \<Longrightarrow>
      fold (\<lambda>c. AList.update c (coin_at bs c)) cs m = m @ map (\<lambda>c. (c, coin_at bs c)) cs"
    for cs m
    using fold_update_distinct[of "map (\<lambda>c. (c, coin_at bs c)) cs" m]
    by (simp add: fold_map comp_def image_image case_prod_unfold)
  show ?thesis
    using upd[OF d, of "[]"]
    by (simp add: NewColoredBalances_def Let_def entries_fold_Set entries_New)
qed

lemma entries_NewColoredBalances_one:
  "v \<noteq> 0 \<Longrightarrow> om_entries om (NewColoredBalances om [(c, v)]) = [(c, v)]"
  by (subst entries_NewColoredBalances) (auto simp: sort_by_def coin_at_def)

lemma Get_NewColoredBalances:
  assumes "distinct (map fst bs)"
  shows "om_Get om (NewColoredBalances om bs) c =
         (if coin_at bs c = 0 then None else Some (coin_at bs c))"
proof -
  let ?P = "\<lambda>(c, b::uint64). b \<noteq> 0"
  let ?cs = "sort_by (\<lambda>a b. Color_Compare a b < 0) (map fst (filter ?P bs))"
  have mem: "c \<in> set ?cs \<longleftrightarrow> coin_at bs c \<noteq> 0"
  proof
    assume "c \<in> set ?cs"
    then obtain b where "(c, b) \<in> set bs" "b \<noteq> 0" by auto
    with assms show "coin_at bs c \<noteq> 0" by (simp add: coin_at_def)
  next
    assume nz: "coin_at bs c \<noteq> 0"
    then obtain b where "map_of bs c = Some b" "b \<noteq> 0"
      by (auto simp: coin_at_def split: option.splits)
    then have "(c, b) \<in> set (filter ?P bs)" by (auto dest: map_of_SomeD)
    then have "c \<in> fst ` set (filter ?P bs)" by force
    then show "c \<in> set ?cs" by (simp del: set_filter)
  qed
  have "om_Get om (NewColoredBalances om bs) c = map_of (map (\<lambda>c. (c, coin_at bs c)) ?cs) c"
    by (simp only: Get_entries entries_NewColoredBalances[OF assms])
  also have "\<dots> = (if c \<in> set ?cs then Some (coin_at bs c) else None)"
    by (simp add: map_of_map_keys map_of_map_restrict del: set_sort_by)
  finally show ?thesis by (simp only: mem if_distrib) auto
qed

lemma ForEach_Set_fresh:
  "distinct (map fst es) \<Longrightarrow> fst ` set es \<inter> fst ` set (om_entries om m) = {} \<Longrightarrow>
   om_entries om (ForEach (om_Set om) es m) = om_entries om m @ es"
proof (induction es arbitrary: m)
  case (Cons e es)
  obtain k v where e: "e = (k, v)" by (cases e)
  obtain b m' where s: "om_Set om k v m = (b, m')" by (cases "om_Set om k v m")
  have "k \<notin> fst ` set (om_entries om m)" using Cons.prems(2) by (auto simp: e)
  with Set_new[of k m v] entries_Set[of k v m] have "b"
      and "om_entries om m' = om_entries om m @ [(k, v)]"
    by (auto simp: s update_new_append map_of_eq_None_iff)
  with Cons show ?case by (auto simp: e s)
qed simp

lemma entries_Clone [simp]: "om_entries om (ColoredBalances_Clone om c) = om_entries om c"
  using ForEach_Set_fresh[OF distinct_entries, of c "om_New om"]
  by (simp add: ColoredBalances_Clone_def ColoredBalances_ForEach_def entries_New)

lemma Map_entries [simp]: "ColoredBalances_Map om c = om_entries om c"
  using fold_update_distinct[OF distinct_entries, of c "[]"]
  by (simp add: ColoredBalances_Map_def ColoredBalances_ForEach_def ForEach_True)

end

section \<open>Checked arithmetic\<close>

definition SafeAddUint64 :: "uint64 \<Rightarrow> uint64 \<Rightarrow> uint64 \<times> bool" where
  "SafeAddUint64 a b = (a + b, b \<le> - 1 - a)"

definition SafeSubUint64 :: "uint64 \<Rightarrow> uint64 \<Rightarrow> uint64 \<times> bool" where
  "SafeSubUint64 a b = (a - b, b \<le> a)"

lemma SafeAddUint64_valid:
  "snd (SafeAddUint64 a b) \<longleftrightarrow> unat a + unat b < 2 ^ 64"
  "unat a + unat b < 2 ^ 64 \<Longrightarrow> unat (fst (SafeAddUint64 a b)) = unat a + unat b"
proof -
  have "unat (- 1 - a) = unat (- 1 :: uint64) - unat a"
    by (rule unat_sub) (rule word_order.extremum)
  also have "unat (- 1 :: uint64) = 2 ^ 64 - 1"
    by (simp add: unsigned_minus_1_eq_mask mask_eq_exp_minus_1)
  finally have "unat (- 1 - a) = 2 ^ 64 - 1 - unat a" .
  moreover have "unat a < 2 ^ 64" using unsigned_less[of a] by simp
  ultimately show "snd (SafeAddUint64 a b) \<longleftrightarrow> unat a + unat b < 2 ^ 64"
    by (auto simp: SafeAddUint64_def word_le_nat_alt)
  show "unat a + unat b < 2 ^ 64 \<Longrightarrow> unat (fst (SafeAddUint64 a b)) = unat a + unat b"
    by (simp add: SafeAddUint64_def unat_word_ariths)
qed

lemma SafeSubUint64_valid:
  "snd (SafeSubUint64 a b) \<longleftrightarrow> unat b \<le> unat a"
  "unat b \<le> unat a \<Longrightarrow> unat (fst (SafeSubUint64 a b)) = unat a - unat b"
  by (simp_all add: SafeSubUint64_def word_le_nat_alt unat_sub)

section \<open>Dust rules and comparison\<close>

definition DustThresholdAliasOutputZIPP :: uint64 where
  "DustThresholdAliasOutputZIPP = 100"

definition IsAboveDustThreshold :: "coins \<Rightarrow> bool" where
  "IsAboveDustThreshold m =
     (case map_of m ColorZIPP of
        Some zipps \<Rightarrow> DustThresholdAliasOutputZIPP \<le> zipps
      | None \<Rightarrow> False)"

definition IsExactDustMinimum :: "('m, 'z) orderedmap_scheme \<Rightarrow> 'm \<Rightarrow> bool" where
  "IsExactDustMinimum om b =
     (let bals = ColoredBalances_Map om b
      in if length bals \<noteq> 1 then False
         else case map_of bals ColorZIPP of
                None \<Rightarrow> False
              | Some bal \<Rightarrow> bal = DustThresholdAliasOutputZIPP)"

definition equalColoredBalances :: "('m, 'z) orderedmap_scheme \<Rightarrow> 'm \<Rightarrow> 'm \<Rightarrow> bool" where
  "equalColoredBalances om b1 b2 =
     (let note = (\<lambda>col bal m. (True, AList.update col True m));
          allColors = ColoredBalances_ForEach om b2 note (ColoredBalances_ForEach om b1 note [])
      in list_all (\<lambda>(col, _).
           (case (ColoredBalances_Get om b1 col, ColoredBalances_Get om b2 col) of
              (Some v1, Some v2) \<Rightarrow> v1 = v2
            | (None, None) \<Rightarrow> True
            | _ \<Rightarrow> False)) allColors)"

lemma set_fold_note:
  "fst ` set (fold (\<lambda>(k, v). AList.update k True) es m) = fst ` set es \<union> fst ` set m"
proof (induction es arbitrary: m)
  case (Cons e es)
  have "fst ` set (AList.update (fst e) True m) = insert (fst e) (fst ` set m)"
    by (simp add: dom_update)
  with Cons show ?case by (cases e) auto
qed simp

context ordered_map
begin

lemma equalColoredBalances_iff:
  "equalColoredBalances om b1 b2 \<longleftrightarrow> map_of (om_entries om b1) = map_of (om_entries om b2)"
proof -
  let ?e1 = "om_entries om b1" and ?e2 = "om_entries om b2"
  let ?same = "\<lambda>c. case (map_of ?e1 c, map_of ?e2 c) of
      (Some v1, Some v2) \<Rightarrow> v1 = v2 | (None, None) \<Rightarrow> True | _ \<Rightarrow> False"
  let ?all = "fold (\<lambda>(k, v). AList.update k True) ?e2 (fold (\<lambda>(k, v). AList.update k True) ?e1 [])"
  have same: "?same c \<longleftrightarrow> map_of ?e1 c = map_of ?e2 c" for c
    by (auto split: option.split)
  have "equalColoredBalances om b1 b2 \<longleftrightarrow> (\<forall>c \<in> fst ` set ?all. ?same c)"
    by (auto simp: equalColoredBalances_def Let_def list_all_iff ColoredBalances_Get_def
        ColoredBalances_ForEach_def Get_entries ForEach_True case_prod_unfold)
  also have "\<dots> \<longleftrightarrow> (\<forall>c \<in> fst ` set ?e1 \<union> fst ` set ?e2. map_of ?e1 c = map_of ?e2 c)"
    by (simp only: same set_fold_note) auto
  also have "\<dots> \<longleftrightarrow> map_of ?e1 = map_of ?e2"
  proof
    assume h: "\<forall>c \<in> fst ` set ?e1 \<union> fst ` set ?e2. map_of ?e1 c = map_of ?e2 c"
    show "map_of ?e1 = map_of ?e2"
    proof
      fix c
      show "map_of ?e1 c = map_of ?e2 c"
      proof (cases "c \<in> fst ` set ?e1 \<union> fst ` set ?e2")
        case False
        then have "map_of ?e1 c = None" "map_of ?e2 c = None"
          by (auto simp: map_of_eq_None_iff)
        then show ?thesis by simp
      qed (use h in blast)
    qed
  qed simp
  finally show ?thesis .
qed

lemma IsExactDustMinimum_iff:
  "IsExactDustMinimum om b \<longleftrightarrow> om_entries om b = [(ColorZIPP, DustThresholdAliasOutputZIPP)]"
proof (cases "om_entries om b")
  case (Cons e es)
  then show ?thesis by (cases es; cases e) (auto simp: IsExactDustMinimum_def)
qed (simp add: IsExactDustMinimum_def)

end

end
