(* ===== verification/Addresses.thy ===== *)
theory Addresses
  imports Balances
begin

text \<open>
  Addresses, signatures and unlock blocks of the ledger VM
  (packages/core/ledger/vm/devnetvm/address.go, signature.go, unlockblock.go).

  The cryptographic packages are fields of the record crypto, an extension of the record of the
  ordered map: blake2b.Sum256, the ed25519 and BLS verification and the serialized keys.
  PublicKey.Bytes of ed25519 may return an error (None).
\<close>

record 'm crypto = "'m orderedmap" +
  Sum256 :: "bytes \<Rightarrow> bytes"
  VerifySignature :: "bytes \<Rightarrow> bytes \<Rightarrow> bytes \<Rightarrow> bool"
  edPublicKey_Bytes :: "bytes \<Rightarrow> bytes option"
  bls_IsValid :: "bytes \<Rightarrow> bytes \<Rightarrow> bytes \<Rightarrow> bool"
  blsPublicKey_Bytes :: "bytes \<Rightarrow> bytes"

section \<open>Addresses\<close>

datatype AddressType = ED25519AddressType | BLSAddressType | AliasAddressType

datatype Address =
    ED25519Address bytes
  | BLSAddress bytes
  | AliasAddress bytes

fun Address_Type :: "Address \<Rightarrow> AddressType" where
  "Address_Type (ED25519Address _) = ED25519AddressType"
| "Address_Type (BLSAddress _) = BLSAddressType"
| "Address_Type (AliasAddress _) = AliasAddressType"

fun Address_Digest :: "Address \<Rightarrow> bytes" where
  "Address_Digest (ED25519Address d) = d"
| "Address_Digest (BLSAddress d) = d"
| "Address_Digest (AliasAddress d) = d"

definition Address_Equals :: "Address \<Rightarrow> Address \<Rightarrow> bool" where
  "Address_Equals a other =
     (Address_Type a = Address_Type other \<and> Address_Digest a = Address_Digest other)"

fun Address_Clone :: "Address \<Rightarrow> Address" where
  "Address_Clone (ED25519Address d) = ED25519Address d"
| "Address_Clone (BLSAddress d) = BLSAddress d"
| "Address_Clone (AliasAddress d) = AliasAddress d"

lemma Address_Equals_iff [simp]: "Address_Equals a b \<longleftrightarrow> a = b"
  by (cases a; cases b) (auto simp: Address_Equals_def)

lemma Address_Clone_id [simp]: "Address_Clone a = a"
  by (cases a) auto

definition NewED25519Address :: "('m, 'z) crypto_scheme \<Rightarrow> bytes \<Rightarrow> Address" where
  "NewED25519Address cr publicKey = ED25519Address (Sum256 cr publicKey)"

definition NewBLSAddress :: "('m, 'z) crypto_scheme \<Rightarrow> bytes \<Rightarrow> Address" where
  "NewBLSAddress cr publicKey = BLSAddress (Sum256 cr publicKey)"

text \<open>The struct AliasAddress is its digest; as an Address it is wrapped in the constructor.\<close>

type_synonym AliasDigest = bytes

definition NewAliasAddress :: "('m, 'z) crypto_scheme \<Rightarrow> bytes \<Rightarrow> AliasDigest" where
  "NewAliasAddress cr data = Sum256 cr data"

definition AliasAddress_IsNil :: "AliasDigest \<Rightarrow> bool" where
  "AliasAddress_IsNil a = (a = replicate 32 0)"

section \<open>Signatures\<close>

datatype Signature =
    ED25519Signature (sigPublicKey: bytes) (sigSignature: bytes)
  | BLSSignature (sigPublicKey: bytes) (sigSignature: bytes)

fun SignatureValid :: "('m, 'z) crypto_scheme \<Rightarrow> Signature \<Rightarrow> bytes \<Rightarrow> bool" where
  "SignatureValid cr (ED25519Signature pk sig) data = VerifySignature cr pk data sig"
| "SignatureValid cr (BLSSignature pk sig) data = bls_IsValid cr pk sig data"

fun AddressSignatureValid :: "('m, 'z) crypto_scheme \<Rightarrow> Signature \<Rightarrow> Address \<Rightarrow> bytes \<Rightarrow> bool" where
  "AddressSignatureValid cr (ED25519Signature pk sig) address data =
     (if Address_Type address \<noteq> ED25519AddressType then False
      else case edPublicKey_Bytes cr pk of
             None \<Rightarrow> False
           | Some publicKeyBytes \<Rightarrow>
               if Sum256 cr publicKeyBytes \<noteq> Address_Digest address then False
               else SignatureValid cr (ED25519Signature pk sig) data)"
| "AddressSignatureValid cr (BLSSignature pk sig) address data =
     (if Address_Type address \<noteq> BLSAddressType then False
      else if Sum256 cr (blsPublicKey_Bytes cr pk) \<noteq> Address_Digest address then False
      else SignatureValid cr (BLSSignature pk sig) data)"

fun AddressFromSignature :: "('m, 'z) crypto_scheme \<Rightarrow> Signature \<Rightarrow> Address" where
  "AddressFromSignature cr (ED25519Signature pk _) = NewED25519Address cr pk"
| "AddressFromSignature cr (BLSSignature pk _) = NewBLSAddress cr (blsPublicKey_Bytes cr pk)"

text \<open>An alias address cannot be unlocked by a signature.\<close>

lemma AddressSignatureValid_not_alias:
  "AddressSignatureValid cr s a data \<Longrightarrow> Address_Type a \<noteq> AliasAddressType"
  by (cases s) (auto split: if_splits)

lemma AddressSignatureValid_valid: "AddressSignatureValid cr s a data \<Longrightarrow> SignatureValid cr s data"
  by (cases s) (auto split: if_splits option.splits)

lemma AddressSignatureValid_iff:
  assumes "\<And>pk. edPublicKey_Bytes cr pk = Some pk"
  shows "AddressSignatureValid cr s a data \<longleftrightarrow>
         a = AddressFromSignature cr s \<and> SignatureValid cr s data"
  using assms by (cases s; cases a) (auto simp: NewED25519Address_def NewBLSAddress_def)

section \<open>Unlock blocks\<close>

datatype UnlockBlockType = SignatureUnlockBlockType | ReferenceUnlockBlockType | AliasUnlockBlockType

datatype UnlockBlock =
    SignatureUnlockBlock Signature
  | ReferenceUnlockBlock "16 word"
  | AliasUnlockBlock "16 word"

fun UnlockBlock_Type :: "UnlockBlock \<Rightarrow> UnlockBlockType" where
  "UnlockBlock_Type (SignatureUnlockBlock _) = SignatureUnlockBlockType"
| "UnlockBlock_Type (ReferenceUnlockBlock _) = ReferenceUnlockBlockType"
| "UnlockBlock_Type (AliasUnlockBlock _) = AliasUnlockBlockType"

section \<open>Indexing\<close>

text \<open>xs[i] panics out of range.\<close>

definition index :: "'a list \<Rightarrow> nat \<Rightarrow> 'a go" where
  "index xs i = (if i < length xs then ok (xs ! i) else fail IndexOutOfRange)"

lemma index_Inr_iff: "index xs i = Inr x \<longleftrightarrow> i < length xs \<and> x = xs ! i"
  by (auto simp: index_def)

lemma ensures_index [ensures_rules]:
  "i < length xs \<Longrightarrow> P (xs ! i) \<Longrightarrow> ensures (index xs i) P"
  by (simp add: index_def)

end
