(* ===== verification/Utxo.thy ===== *)
theory Utxo
  imports Prelude "HOL-Library.DAList"
begin

text \<open>
  Identifiers of transactions and outputs and the collection of outputs
  (packages/core/ledger/utxo/types.go).

  A TransactionID wraps the 32 bytes of the external type types.Identifier, whose operations
  (the hash NewIdentifier, the human-readable Alias) are parameters, as are base58 and the external
  ordered map that holds the outputs (the record outputmap with the locale output_map).  The
  formatting and parsing done by the standard library is written out.
\<close>

section \<open>Formatting and parsing of the standard library\<close>

definition digit :: "nat \<Rightarrow> char" where
  "digit n = char_of (48 + n)"

fun decimal :: "nat \<Rightarrow> string" where
  "decimal n = (if n < 10 then [digit n] else decimal (n div 10) @ [digit (n mod 10)])"

declare decimal.simps [simp del]

text \<open>strings.Split s sep, with a separator of one character.\<close>

fun split_on :: "char \<Rightarrow> string \<Rightarrow> string list" where
  "split_on c [] = [[]]"
| "split_on c (x # xs) =
     (if x = c then [] # split_on c xs
      else case split_on c xs of [] \<Rightarrow> [[x]] | p # ps \<Rightarrow> (x # p) # ps)"

definition is_space :: "char \<Rightarrow> bool" where
  "is_space c = (of_char c \<in> {9::nat, 10, 11, 12, 13, 32})"

definition TrimSpace :: "string \<Rightarrow> string" where
  "TrimSpace s = rev (dropWhile is_space (rev (dropWhile is_space s)))"

text \<open>strconv.ParseUint s 10 16: digits only, and in the range of 16 bits.\<close>

definition is_digit :: "char \<Rightarrow> bool" where
  "is_digit c = (48 \<le> (of_char c :: nat) \<and> of_char c \<le> (57::nat))"

definition ParseUint16 :: "string \<Rightarrow> (16 word) option" where
  "ParseUint16 s =
     (if s = [] \<or> \<not> list_all is_digit s then None
      else let n = foldl (\<lambda>a c. 10 * a + (of_char c - 48)) (0::nat) s
           in if n < 2 ^ 16 then Some (of_nat n) else None)"

lemma split_on_not_Nil [simp]: "split_on c s \<noteq> []"
  by (induction s) (auto split: list.split)

lemma split_on_hd: "hd (split_on c s) = takeWhile (\<lambda>x. x \<noteq> c) s"
proof (induction s)
  case (Cons x s)
  then show ?case by (cases "split_on c s") auto
qed simp

lemma in_dropWhile: "x \<in> set s \<Longrightarrow> \<not> P x \<Longrightarrow> x \<in> set (dropWhile P s)"
  by (induction s) auto

lemma in_TrimSpace: "c \<in> set s \<Longrightarrow> \<not> is_space c \<Longrightarrow> c \<in> set (TrimSpace s)"
  by (simp add: TrimSpace_def in_dropWhile)

section \<open>Identifiers\<close>

type_synonym TransactionID = bytes

definition EmptyTransactionID :: TransactionID where
  "EmptyTransactionID = replicate 32 0"

definition TransactionID_IsEmpty :: "TransactionID \<Rightarrow> bool" where
  "TransactionID_IsEmpty t = (t = EmptyTransactionID)"

record OutputID =
  TransactionID :: TransactionID
  Index :: "16 word"

definition NewOutputID :: "TransactionID \<Rightarrow> 16 word \<Rightarrow> OutputID" where
  "NewOutputID txID index = \<lparr>TransactionID = txID, Index = index\<rparr>"

definition EmptyOutputID :: OutputID where
  "EmptyOutputID = \<lparr>TransactionID = EmptyTransactionID, Index = 0\<rparr>"

definition PutUint16 :: "16 word \<Rightarrow> bytes" where
  "PutUint16 w = [ucast w, ucast (drop_bit 8 w)]"

definition OutputID_Bytes :: "OutputID \<Rightarrow> bytes" where
  "OutputID_Bytes o' = TransactionID o' @ PutUint16 (Index o')"

definition OutputID_Length :: nat where
  "OutputID_Length = 32 + 2"

lemma length_PutUint16 [simp]: "length (PutUint16 w) = 2"
  by (simp add: PutUint16_def)

lemma PutUint16_inj: "PutUint16 v = PutUint16 w \<longleftrightarrow> v = w"
proof
  assume h: "PutUint16 v = PutUint16 w"
  show "v = w"
  proof (rule bit_word_eqI)
    fix n assume n: "n < LENGTH(16)"
    show "bit v n = bit w n"
    proof (cases "n < 8")
      case True
      have "bit (ucast v :: byte) n = bit (ucast w :: byte) n"
        using h by (simp add: PutUint16_def)
      with True show ?thesis by (simp add: bit_ucast_iff)
    next
      case False
      have "bit (ucast (drop_bit 8 v) :: byte) (n - 8) = bit (ucast (drop_bit 8 w) :: byte) (n - 8)"
        using h by (simp add: PutUint16_def)
      moreover have "n - 8 < 8" using n by simp
      ultimately show ?thesis using False by (simp add: bit_ucast_iff bit_drop_bit_eq)
    qed
  qed
qed simp

lemma OutputID_Bytes_inj:
  "length (TransactionID a) = length (TransactionID b) \<Longrightarrow>
   OutputID_Bytes a = OutputID_Bytes b \<longleftrightarrow> a = b"
  by (cases a; cases b) (auto simp: OutputID_Bytes_def PutUint16_inj)

section \<open>Human-readable forms\<close>

text \<open>The parameters idAlias and aliases stand for Identifier.Alias and the registered aliases.\<close>

definition TransactionID_String :: "(bytes \<Rightarrow> string) \<Rightarrow> TransactionID \<Rightarrow> string" where
  "TransactionID_String idAlias t = ''TransactionID('' @ idAlias t @ '')''"

definition OutputID_RegisterAlias ::
    "OutputID \<Rightarrow> string \<Rightarrow> (OutputID \<rightharpoonup> string) \<Rightarrow> (OutputID \<rightharpoonup> string)" where
  "OutputID_RegisterAlias o' alias aliases = aliases(o' \<mapsto> alias)"

definition OutputID_UnregisterAlias ::
    "OutputID \<Rightarrow> (OutputID \<rightharpoonup> string) \<Rightarrow> (OutputID \<rightharpoonup> string)" where
  "OutputID_UnregisterAlias o' aliases = aliases(o' := None)"

definition OutputID_Alias ::
    "(bytes \<Rightarrow> string) \<Rightarrow> (OutputID \<rightharpoonup> string) \<Rightarrow> OutputID \<Rightarrow> string" where
  "OutputID_Alias idAlias aliases o' =
     (case aliases o' of
        Some existingAlias \<Rightarrow> existingAlias
      | None \<Rightarrow> TransactionID_String idAlias (TransactionID o') @ '', '' @ decimal (unat (Index o')))"

definition OutputID_String ::
    "(bytes \<Rightarrow> string) \<Rightarrow> (OutputID \<rightharpoonup> string) \<Rightarrow> OutputID \<Rightarrow> string" where
  "OutputID_String idAlias aliases o' = ''OutputID('' @ OutputID_Alias idAlias aliases o' @ '')''"

definition TransactionIDFromString ::
    "(string \<Rightarrow> bytes option) \<Rightarrow> (bytes \<Rightarrow> bytes) \<Rightarrow> string \<Rightarrow> TransactionID option" where
  "TransactionIDFromString base58Decode newIdentifier s =
     (case base58Decode s of
        None \<Rightarrow> None
      | Some decodedBytes \<Rightarrow> Some (newIdentifier decodedBytes))"

definition OutputIDFromString ::
    "(string \<Rightarrow> bytes option) \<Rightarrow> (bytes \<Rightarrow> bytes) \<Rightarrow> string \<Rightarrow> OutputID option" where
  "OutputIDFromString base58Decode newIdentifier s =
     (let parts = split_on (CHR '','') s
      in if length parts \<noteq> 2 then None
         else let transactionIDStr = TrimSpace (parts ! 0);
                  indexStr = TrimSpace (parts ! 1)
              in case TransactionIDFromString base58Decode newIdentifier transactionIDStr of
                   None \<Rightarrow> None
                 | Some transactionID \<Rightarrow>
                     (case ParseUint16 indexStr of
                        None \<Rightarrow> None
                      | Some index \<Rightarrow> Some (NewOutputID transactionID index)))"

section \<open>The collection of outputs\<close>

record ('s, 'o) outputmap =
  sm_New :: 's
  sm_Set :: "string \<Rightarrow> 'o \<Rightarrow> 's \<Rightarrow> 's"
  sm_Get :: "'s \<Rightarrow> string \<Rightarrow> 'o option"
  sm_Keys :: "'s \<Rightarrow> string list"

locale output_map =
  fixes sm :: "('s, 'o) outputmap"
  assumes Keys_New: "sm_Keys sm (sm_New sm) = []"
    and Get_New: "sm_Get sm (sm_New sm) k = None"
    and Keys_Set: "sm_Keys sm (sm_Set sm k v m) =
                   (if k \<in> set (sm_Keys sm m) then sm_Keys sm m else sm_Keys sm m @ [k])"
    and Get_Set: "sm_Get sm (sm_Set sm k v m) k' = (if k' = k then Some v else sm_Get sm m k')"

definition Outputs_Size :: "('s, 'o) outputmap \<Rightarrow> 's \<Rightarrow> nat" where
  "Outputs_Size sm o' = length (sm_Keys sm o')"

definition Outputs_Add :: "('s, 'o) outputmap \<Rightarrow> ('o \<Rightarrow> string) \<Rightarrow> 'o \<Rightarrow> 's \<Rightarrow> 's" where
  "Outputs_Add sm idString output o' = sm_Set sm (idString output) output o'"

definition utxo_NewOutputs :: "('s, 'o) outputmap \<Rightarrow> ('o \<Rightarrow> string) \<Rightarrow> 'o list \<Rightarrow> 's" where
  "utxo_NewOutputs sm idString outputs =
     fold (\<lambda>output m. sm_Set sm (idString output) output m) outputs (sm_New sm)"

text \<open>IDs: the identifiers parsed from the keys, or nil (None) as soon as a key does not parse.\<close>

fun IDs_loop :: "(string \<Rightarrow> OutputID option) \<Rightarrow> string list \<Rightarrow> OutputID list \<Rightarrow> OutputID list option" where
  "IDs_loop parse [] outputIDs = Some outputIDs"
| "IDs_loop parse (key # keys) outputIDs =
     (case parse key of
        None \<Rightarrow> None
      | Some outputID \<Rightarrow> IDs_loop parse keys (outputIDs @ [outputID]))"

definition Outputs_IDs ::
    "('s, 'o) outputmap \<Rightarrow> (string \<Rightarrow> bytes option) \<Rightarrow> (bytes \<Rightarrow> bytes) \<Rightarrow> 's \<Rightarrow> OutputID list option" where
  "Outputs_IDs sm base58Decode newIdentifier o' =
     IDs_loop (OutputIDFromString base58Decode newIdentifier) (sm_Keys sm o') []"

text \<open>ForEach: the callback is called on the outputs in the order of the keys until it fails.\<close>

fun Outputs_ForEach_loop ::
    "('s \<Rightarrow> string \<Rightarrow> 'o option) \<Rightarrow> 's \<Rightarrow> ('o \<Rightarrow> 'a \<Rightarrow> 'e option \<times> 'a) \<Rightarrow> string list \<Rightarrow> 'a \<Rightarrow>
     'e option \<times> 'a" where
  "Outputs_ForEach_loop get o' callback [] s = (None, s)"
| "Outputs_ForEach_loop get o' callback (key # keys) s =
     (case get o' key of
        None \<Rightarrow> Outputs_ForEach_loop get o' callback keys s
      | Some output \<Rightarrow>
          (case callback output s of
             (Some err, s') \<Rightarrow> (Some err, s')
           | (None, s') \<Rightarrow> Outputs_ForEach_loop get o' callback keys s'))"

definition Outputs_ForEach ::
    "('s, 'o) outputmap \<Rightarrow> 's \<Rightarrow> ('o \<Rightarrow> 'a \<Rightarrow> 'e option \<times> 'a) \<Rightarrow> 'a \<Rightarrow> 'e option \<times> 'a" where
  "Outputs_ForEach sm o' callback s =
     Outputs_ForEach_loop (sm_Get sm) o' callback (sm_Keys sm o') s"

section \<open>What the collection holds\<close>

context output_map
begin

lemma Keys_fold:
  "set (sm_Keys sm (fold (\<lambda>x m. sm_Set sm (f x) x m) xs m)) = set (sm_Keys sm m) \<union> f ` set xs"
proof (induction xs arbitrary: m)
  case (Cons x xs)
  show ?case by (simp add: Cons Keys_Set) blast
qed simp

lemma Keys_NewOutputs: "set (sm_Keys sm (utxo_NewOutputs sm f xs)) = f ` set xs"
  by (simp add: utxo_NewOutputs_def Keys_fold Keys_New)

lemma NewOutputs_fresh:
  "inj_on f (set xs) \<Longrightarrow> distinct xs \<Longrightarrow> f ` set xs \<inter> set (sm_Keys sm m) = {} \<Longrightarrow>
   sm_Keys sm (fold (\<lambda>x m. sm_Set sm (f x) x m) xs m) = sm_Keys sm m @ map f xs"
proof (induction xs arbitrary: m)
  case (Cons x xs)
  have "f x \<notin> set (sm_Keys sm m)" using Cons.prems by auto
  moreover have "f ` set xs \<inter> set (sm_Keys sm m @ [f x]) = {}"
    using Cons.prems by (auto simp: inj_on_def)
  ultimately show ?case using Cons.prems Cons.IH[of "sm_Set sm (f x) x m"] by (simp add: Keys_Set)
qed simp

lemma Get_fold_other:
  "k \<notin> f ` set xs \<Longrightarrow> sm_Get sm (fold (\<lambda>x m. sm_Set sm (f x) x m) xs m) k = sm_Get sm m k"
  by (induction xs arbitrary: m) (auto simp: Get_Set)

lemma Get_fold:
  "inj_on f (set xs) \<Longrightarrow> x \<in> set xs \<Longrightarrow>
   sm_Get sm (fold (\<lambda>x m. sm_Set sm (f x) x m) xs m) (f x) = Some x"
proof (induction xs arbitrary: m)
  case (Cons y ys)
  show ?case
  proof (cases "x \<in> set ys")
    case True
    with Cons show ?thesis by (simp add: inj_on_def)
  next
    case False
    then have [simp]: "x = y" using Cons.prems by simp
    have "f y \<notin> f ` set ys" using Cons.prems False by (auto simp: inj_on_def)
    then show ?thesis by (simp add: Get_fold_other Get_Set)
  qed
qed simp

lemma ForEach_collect:
  "(\<And>k. k \<in> set ks \<Longrightarrow> get o' k \<noteq> None) \<Longrightarrow>
   Outputs_ForEach_loop get o' (\<lambda>x acc. (None, acc @ [x])) ks acc =
   (None, acc @ map (\<lambda>k. the (get o' k)) ks)"
proof (induction ks arbitrary: acc)
  case (Cons k ks)
  obtain y where "get o' k = Some y" using Cons.prems[of k] by auto
  with Cons show ?case by simp
qed simp

text \<open>Reading a new collection back gives the outputs in order, when their names differ.\<close>

lemma ForEach_NewOutputs:
  assumes "inj_on f (set xs)" and "distinct xs"
  shows "Outputs_ForEach sm (utxo_NewOutputs sm f xs) (\<lambda>x acc. (None, acc @ [x])) [] = (None, xs)"
proof -
  let ?m = "utxo_NewOutputs sm f xs"
  have keys: "sm_Keys sm ?m = map f xs"
    using NewOutputs_fresh[OF assms, of "sm_New sm"] by (simp add: utxo_NewOutputs_def Keys_New)
  have get: "x \<in> set xs \<Longrightarrow> sm_Get sm ?m (f x) = Some x" for x
    by (simp add: utxo_NewOutputs_def Get_fold[OF assms(1)])
  have "map (\<lambda>k. the (sm_Get sm ?m k)) (map f xs) = xs"
    by (rule nth_equalityI) (auto simp: get)
  moreover have "k \<in> set (map f xs) \<Longrightarrow> sm_Get sm ?m k \<noteq> None" for k
    by (auto simp: get)
  ultimately show ?thesis
    unfolding Outputs_ForEach_def keys
    using ForEach_collect[of "map f xs" "sm_Get sm" ?m "[]"] by simp
qed

end

definition alist_outputs :: "((string, 'o) alist, 'o) outputmap" where
  "alist_outputs = \<lparr>sm_New = DAList.empty, sm_Set = DAList.update, sm_Get = DAList.lookup,
                    sm_Keys = (\<lambda>m. map fst (DAList.impl_of m))\<rparr>"

lemma map_fst_update:
  "map fst (AList.update k v m) = (if k \<in> fst ` set m then map fst m else map fst m @ [k])"
  by (induction m) auto

interpretation alist_outputs: output_map alist_outputs
  by unfold_locales
    (simp_all add: alist_outputs_def DAList.empty.rep_eq DAList.update.rep_eq DAList.lookup.rep_eq
      map_fst_update update_conv')

section \<open>The identifiers of a collection\<close>

lemma parse_String_None:
  assumes "\<And>s. CHR ''('' \<in> set s \<Longrightarrow> base58Decode s = None"
  shows "OutputIDFromString base58Decode newIdentifier (OutputID_String idAlias aliases o') = None"
proof -
  let ?s = "OutputID_String idAlias aliases o'"
  let ?parts = "split_on (CHR '','') ?s"
  obtain rest where s: "?s = ''OutputID('' @ rest" by (simp add: OutputID_String_def)
  have "?parts ! 0 = hd ?parts" by (simp add: hd_conv_nth)
  then have "CHR ''('' \<in> set (?parts ! 0)"
    unfolding split_on_hd by (simp add: s)
  moreover have "\<not> is_space (CHR ''('')" by (simp add: is_space_def)
  ultimately have "CHR ''('' \<in> set (TrimSpace (?parts ! 0))" by (rule in_TrimSpace)
  then have "base58Decode (TrimSpace (?parts ! 0)) = None" by (rule assms)
  then show ?thesis by (simp add: OutputIDFromString_def TransactionIDFromString_def Let_def)
qed

lemma IDs_loop_None: "(\<And>k. k \<in> set ks \<Longrightarrow> parse k = None) \<Longrightarrow> ks \<noteq> [] \<Longrightarrow> IDs_loop parse ks acc = None"
  by (cases ks) auto

context output_map
begin

lemma IDs_nil:
  assumes "\<And>s. CHR ''('' \<in> set s \<Longrightarrow> base58Decode s = None"
    and "outputs \<noteq> []"
  shows "Outputs_IDs sm base58Decode newIdentifier
           (utxo_NewOutputs sm (OutputID_String idAlias aliases \<circ> getID) outputs) = None \<and>
         0 < Outputs_Size sm (utxo_NewOutputs sm (OutputID_String idAlias aliases \<circ> getID) outputs)"
proof -
  let ?m = "utxo_NewOutputs sm (OutputID_String idAlias aliases \<circ> getID) outputs"
  have keys: "set (sm_Keys sm ?m) = (OutputID_String idAlias aliases \<circ> getID) ` set outputs"
    by (rule Keys_NewOutputs)
  with assms(2) have "sm_Keys sm ?m \<noteq> []" by auto
  moreover have "OutputIDFromString base58Decode newIdentifier k = None"
    if "k \<in> set (sm_Keys sm ?m)" for k
    using that unfolding keys by (auto simp: parse_String_None[OF assms(1)])
  ultimately show ?thesis
    by (simp add: Outputs_IDs_def Outputs_Size_def IDs_loop_None)
qed

end

text \<open>The identifiers of a collection of outputs can never be listed: the keys are the
  human-readable forms of the identifiers, which OutputIDFromString does not parse (base58 has no
  parenthesis), so IDs returns nil for every collection that holds an output, while Size counts
  the outputs.\<close>

theorem outputs_IDs_nil:
  assumes "output_map sm"
    and "\<And>s. CHR ''('' \<in> set s \<Longrightarrow> base58Decode s = None"
    and "outputs \<noteq> []"
  shows "Outputs_IDs sm base58Decode newIdentifier
           (utxo_NewOutputs sm (OutputID_String idAlias aliases \<circ> getID) outputs) = None \<and>
         0 < Outputs_Size sm (utxo_NewOutputs sm (OutputID_String idAlias aliases \<circ> getID) outputs)"
  by (rule output_map.IDs_nil[OF assms])

lemma outputs_IDs_nil_witness:
  "Outputs_IDs alist_outputs (\<lambda>s. if CHR ''('' \<in> set s then None else Some []) id
     (utxo_NewOutputs alist_outputs (OutputID_String (\<lambda>_. ''11'') Map.empty \<circ> id)
        [EmptyOutputID, NewOutputID EmptyTransactionID 1]) = None"
  by (rule outputs_IDs_nil[THEN conjunct1, OF alist_outputs.output_map_axioms]) auto

text \<open>The outputs of a new collection are read back by ForEach in the order in which they were
  given, when no two of them have the same name.\<close>

theorem outputs_ForEach_roundtrip:
  assumes "output_map sm" and "inj_on idString (set outputs)" and "distinct outputs"
  shows "Outputs_ForEach sm (utxo_NewOutputs sm idString outputs) (\<lambda>x acc. (None, acc @ [x])) [] =
         (None, outputs)"
  by (rule output_map.ForEach_NewOutputs[OF assms])

lemma outputs_ForEach_roundtrip_witness:
  "Outputs_ForEach alist_outputs
     (utxo_NewOutputs alist_outputs (\<lambda>n::nat. if n = 1 then ''a'' else ''b'') [2, 1])
     (\<lambda>x acc. (None, acc @ [x])) [] = (None :: nat option, [2, 1])"
  by (rule outputs_ForEach_roundtrip[OF alist_outputs.output_map_axioms]) auto

end
