(* ===== verification/Outputs.thy ===== *)
theory Outputs
  imports Addresses Utxo
begin

text \<open>
  The outputs of the ledger VM (packages/core/ledger/vm/devnetvm/output.go) with their constructors,
  accessors and modifiers, and transactions (transaction.go) as far as the outputs need them.

  The four output types are records, the interface Output is their tagged union.  An Address
  that the code compares with nil is an option.  A nil slice and an empty slice are
  the same list; a mutex has no counterpart; the zero time.Time is 0.  SetID and the other setters
  return the updated record.  Serialization by the external package serix is the part of the
  environment record vm_env that extends the record of the cryptographic operations.
\<close>

definition IsZero :: "gotime \<Rightarrow> bool" where "IsZero t = (t = 0)"

definition After :: "gotime \<Rightarrow> gotime \<Rightarrow> bool" where "After t u = (u < t)"

text \<open>A method call on a nil interface value panics.\<close>

definition deref :: "'a option \<Rightarrow> 'a go" where
  "deref a = (case a of None \<Rightarrow> fail NilDereference | Some x \<Rightarrow> ok x)"

lemma deref_simps [simp]: "deref (Some x) = ok x" "deref None = fail NilDereference"
  by (simp_all add: deref_def)

lemma deref_Inr [simp]: "deref a = ok x \<longleftrightarrow> a = Some x"
  by (cases a) auto

section \<open>The output types\<close>

definition MaxOutputPayloadSize :: nat where "MaxOutputPayloadSize = 4 * 1024"

definition MinOutputCount :: nat where "MinOutputCount = 1"

definition MaxOutputCount :: nat where "MaxOutputCount = 127"

record SigLockedSingleOutput =
  sls_ID :: OutputID
  sls_Balance :: uint64
  sls_Address :: Address

record 'm SigLockedColoredOutput =
  slc_ID :: OutputID
  slc_Balances :: 'm
  slc_Address :: Address

record 'm AliasOutput =
  outputID :: OutputID
  balances :: 'm
  aliasAddress :: AliasDigest
  stateAddress :: "Address option"
  stateIndex :: "32 word"
  stateData :: bytes
  governanceMetadata :: bytes
  immutableData :: bytes
  isGovernanceUpdate :: bool
  governingAddress :: "Address option"
  isOrigin :: bool
  isDelegated :: bool
  delegationTimelock :: gotime

record 'm ExtendedLockedOutput =
  el_id :: OutputID
  el_balances :: 'm
  el_address :: Address
  fallbackAddress :: "Address option"
  fallbackDeadline :: gotime
  timelock :: gotime
  el_payload :: bytes

datatype 'm Output =
    SigLockedSingleOutput SigLockedSingleOutput
  | SigLockedColoredOutput "'m SigLockedColoredOutput"
  | AliasOutput "'m AliasOutput"
  | ExtendedLockedOutput "'m ExtendedLockedOutput"

record 'm TransactionEssence =
  Version :: "8 word"
  Timestamp :: gotime
  AccessPledgeID :: bytes
  ConsensusPledgeID :: bytes
  ess_Inputs :: "OutputID list"
  ess_Outputs :: "'m Output list"
  ess_Payload :: "bytes option"

record 'm Transaction =
  tx_ID :: TransactionID
  Essence :: "'m TransactionEssence"
  UnlockBlocks :: "UnlockBlock list"

record 'm vm_env = "'m crypto" +
  Essence_Bytes :: "'m TransactionEssence \<Rightarrow> bytes option"
  Transaction_Bytes :: "'m Transaction \<Rightarrow> bytes"
  Output_Bytes :: "'m Output \<Rightarrow> bytes"
  Address_Bytes :: "Address \<Rightarrow> bytes"
  NewIdentifier :: "bytes \<Rightarrow> bytes"
  Balances_Bytes :: "'m \<Rightarrow> bytes"

datatype output_error =
    BelowDustThreshold
  | StateAddressNil
  | OriginStateIndex
  | StateAddressIsOwnAlias
  | GoverningAddressIsOwnAlias
  | StateDataTooBig
  | GovernanceMetadataTooBig
  | ImmutableDataTooBig
  | TimelockWithoutDelegation
  | PayloadTooBig

section \<open>SigLockedSingleOutput and SigLockedColoredOutput\<close>

definition NewSigLockedSingleOutput :: "uint64 \<Rightarrow> Address \<Rightarrow> SigLockedSingleOutput" where
  "NewSigLockedSingleOutput balance address =
     \<lparr>sls_ID = EmptyOutputID, sls_Balance = balance, sls_Address = address\<rparr>"

definition SigLockedSingle_Balances ::
    "('m, 'z) orderedmap_scheme \<Rightarrow> SigLockedSingleOutput \<Rightarrow> 'm" where
  "SigLockedSingle_Balances om s = NewColoredBalances om [(ColorZIPP, sls_Balance s)]"

definition SigLockedSingle_Clone :: "SigLockedSingleOutput \<Rightarrow> SigLockedSingleOutput" where
  "SigLockedSingle_Clone s =
     (NewSigLockedSingleOutput (sls_Balance s) (sls_Address s))\<lparr>sls_ID := sls_ID s\<rparr>"

definition NewSigLockedColoredOutput :: "'m \<Rightarrow> Address \<Rightarrow> 'm SigLockedColoredOutput" where
  "NewSigLockedColoredOutput b address =
     \<lparr>slc_ID = EmptyOutputID, slc_Balances = b, slc_Address = address\<rparr>"

definition SigLockedColored_Clone :: "'m SigLockedColoredOutput \<Rightarrow> 'm SigLockedColoredOutput" where
  "SigLockedColored_Clone s =
     (NewSigLockedColoredOutput (slc_Balances s) (slc_Address s))\<lparr>slc_ID := slc_ID s\<rparr>"

text \<open>
  The replacement of the placeholder color in a map of balances by the color that is the hash of
  the identifier of the output, as the methods UpdateMintingColor do it.
\<close>

definition recolor :: "('m, 'z) crypto_scheme \<Rightarrow> OutputID \<Rightarrow> coins \<Rightarrow> coins" where
  "recolor cr oid coloredBalances =
     (case map_of coloredBalances ColorMint of
        None \<Rightarrow> coloredBalances
      | Some mintedCoins \<Rightarrow>
          AList.update (Sum256 cr (OutputID_Bytes oid)) mintedCoins
            (AList.delete ColorMint coloredBalances))"

definition SigLockedColored_UpdateMintingColor ::
    "('m, 'z) crypto_scheme \<Rightarrow> 'm SigLockedColoredOutput \<Rightarrow> 'm SigLockedColoredOutput" where
  "SigLockedColored_UpdateMintingColor cr s =
     (let coloredBalances = recolor cr (slc_ID s) (ColoredBalances_Map cr (slc_Balances s))
      in (NewSigLockedColoredOutput (NewColoredBalances cr coloredBalances) (slc_Address s))
           \<lparr>slc_ID := slc_ID s\<rparr>)"

section \<open>AliasOutput\<close>

definition GetAliasAddress :: "('m, 'z) crypto_scheme \<Rightarrow> 'm AliasOutput \<Rightarrow> AliasDigest" where
  "GetAliasAddress cr a =
     (if AliasAddress_IsNil (aliasAddress a) then NewAliasAddress cr (OutputID_Bytes (outputID a))
      else aliasAddress a)"

definition IsSelfGoverned :: "'m AliasOutput \<Rightarrow> bool" where
  "IsSelfGoverned a = (governingAddress a = None)"

definition GetGoverningAddress :: "'m AliasOutput \<Rightarrow> Address option" where
  "GetGoverningAddress a = (if IsSelfGoverned a then stateAddress a else governingAddress a)"

definition DelegationTimelock :: "'m AliasOutput \<Rightarrow> gotime" where
  "DelegationTimelock a = (if \<not> isDelegated a then 0 else delegationTimelock a)"

definition DelegationTimeLockedNow :: "'m AliasOutput \<Rightarrow> gotime \<Rightarrow> bool" where
  "DelegationTimeLockedNow a nowis =
     (if \<not> isDelegated a \<or> IsZero (delegationTimelock a) then False
      else After (delegationTimelock a) nowis)"

definition checkBasicValidity ::
    "('m, 'z) orderedmap_scheme \<Rightarrow> 'm AliasOutput \<Rightarrow> output_error option go" where
  "checkBasicValidity om a =
     (if \<not> IsAboveDustThreshold (ColoredBalances_Map om (balances a)) then ok (Some BelowDustThreshold)
      else if stateAddress a = None then ok (Some StateAddressNil)
      else if isOrigin a \<and> stateIndex a \<noteq> 0 then ok (Some OriginStateIndex)
      else bindE (deref (stateAddress a)) (\<lambda>sa.
        if Address_Equals sa (AliasAddress (aliasAddress a)) then ok (Some StateAddressIsOwnAlias)
        else bindE (deref (GetGoverningAddress a)) (\<lambda>ga.
          if Address_Equals ga (AliasAddress (aliasAddress a))
          then ok (Some GoverningAddressIsOwnAlias)
          else if MaxOutputPayloadSize < length (stateData a) then ok (Some StateDataTooBig)
          else if MaxOutputPayloadSize < length (governanceMetadata a)
          then ok (Some GovernanceMetadataTooBig)
          else if MaxOutputPayloadSize < length (immutableData a) then ok (Some ImmutableDataTooBig)
          else if \<not> isDelegated a \<and> \<not> IsZero (delegationTimelock a)
          then ok (Some TimelockWithoutDelegation)
          else ok None)))"

definition mustValidate :: "('m, 'z) orderedmap_scheme \<Rightarrow> 'm AliasOutput \<Rightarrow> unit go" where
  "mustValidate om a =
     bindE (checkBasicValidity om a) (\<lambda>r.
       case r of Some err \<Rightarrow> fail (Raised ''mustValidate'') | None \<Rightarrow> ok ())"

definition NewAliasOutputMint ::
    "('m, 'z) orderedmap_scheme \<Rightarrow> coins \<Rightarrow> Address option \<Rightarrow> bytes list \<Rightarrow>
     (output_error + 'm AliasOutput) go" where
  "NewAliasOutputMint om bs stateAddr imm =
     (if \<not> IsAboveDustThreshold bs then ok (Inl BelowDustThreshold)
      else if stateAddr = None then ok (Inl StateAddressNil)
      else let ret = \<lparr>outputID = EmptyOutputID, balances = NewColoredBalances om bs,
                      aliasAddress = replicate 32 0, stateAddress = stateAddr, stateIndex = 0,
                      stateData = [], governanceMetadata = [],
                      immutableData = (if 0 < length imm then imm ! 0 else []),
                      isGovernanceUpdate = False, governingAddress = None, isOrigin = True,
                      isDelegated = False, delegationTimelock = 0\<rparr>
           in bindE (checkBasicValidity om ret) (\<lambda>r.
                case r of Some err \<Rightarrow> ok (Inl err) | None \<Rightarrow> ok (Inr ret)))"

definition Alias_clone ::
    "('m, 'z) crypto_scheme \<Rightarrow> 'm AliasOutput \<Rightarrow> 'm AliasOutput go" where
  "Alias_clone cr a =
     bindE (mustValidate cr a) (\<lambda>_.
     bindE (deref (stateAddress a)) (\<lambda>sa.
       let ret = \<lparr>outputID = outputID a, balances = ColoredBalances_Clone cr (balances a),
                  aliasAddress = GetAliasAddress cr a, stateAddress = Some (Address_Clone sa),
                  stateIndex = stateIndex a, stateData = stateData a,
                  governanceMetadata = governanceMetadata a, immutableData = immutableData a,
                  isGovernanceUpdate = isGovernanceUpdate a,
                  governingAddress = map_option Address_Clone (governingAddress a),
                  isOrigin = isOrigin a, isDelegated = isDelegated a,
                  delegationTimelock = delegationTimelock a\<rparr>
       in bindE (mustValidate cr ret) (\<lambda>_. ok ret)))"

definition NewAliasOutputNext ::
    "('m, 'z) crypto_scheme \<Rightarrow> 'm AliasOutput \<Rightarrow> bool list \<Rightarrow> 'm AliasOutput go" where
  "NewAliasOutputNext cr a governanceUpdate =
     bindE (Alias_clone cr a) (\<lambda>ret.
       let ret1 = ret\<lparr>isOrigin := False, isGovernanceUpdate := False\<rparr>;
           ret2 = (if 0 < length governanceUpdate
                   then ret1\<lparr>isGovernanceUpdate := governanceUpdate ! 0\<rparr> else ret1)
       in ok (if \<not> isGovernanceUpdate ret2 then ret2\<lparr>stateIndex := stateIndex a + 1\<rparr> else ret2))"

definition WithDelegation :: "'m AliasOutput \<Rightarrow> 'm AliasOutput" where
  "WithDelegation a = a\<lparr>isDelegated := True\<rparr>"

definition WithDelegationAndTimelock :: "'m AliasOutput \<Rightarrow> gotime \<Rightarrow> 'm AliasOutput" where
  "WithDelegationAndTimelock a lockUntil = a\<lparr>isDelegated := True, delegationTimelock := lockUntil\<rparr>"

definition SetBalances ::
    "('m, 'z) orderedmap_scheme \<Rightarrow> 'm AliasOutput \<Rightarrow> coins \<Rightarrow> output_error + 'm AliasOutput" where
  "SetBalances om a bs =
     (if \<not> IsAboveDustThreshold bs then Inl BelowDustThreshold
      else Inr (a\<lparr>balances := NewColoredBalances om bs\<rparr>))"

definition SetAliasAddress :: "'m AliasOutput \<Rightarrow> AliasDigest \<Rightarrow> 'm AliasOutput" where
  "SetAliasAddress a addr = a\<lparr>aliasAddress := addr\<rparr>"

definition SetIsOrigin :: "'m AliasOutput \<Rightarrow> bool \<Rightarrow> 'm AliasOutput" where
  "SetIsOrigin a b = a\<lparr>isOrigin := b\<rparr>"

definition SetIsDelegated :: "'m AliasOutput \<Rightarrow> bool \<Rightarrow> 'm AliasOutput" where
  "SetIsDelegated a b = a\<lparr>isDelegated := b\<rparr>"

definition SetStateAddress :: "'m AliasOutput \<Rightarrow> Address option \<Rightarrow> output_error + 'm AliasOutput" where
  "SetStateAddress a addr =
     (if addr = None then Inl StateAddressNil else Inr (a\<lparr>stateAddress := addr\<rparr>))"

text \<open>Array copies the serialized address into an array of 33 bytes.\<close>

definition Address_Array :: "(Address \<Rightarrow> bytes) \<Rightarrow> Address \<Rightarrow> bytes" where
  "Address_Array addressBytes a = take 33 (addressBytes a @ replicate 33 0)"

definition SetGoverningAddress ::
    "('m, 'z) vm_env_scheme \<Rightarrow> 'm AliasOutput \<Rightarrow> Address option \<Rightarrow> 'm AliasOutput go" where
  "SetGoverningAddress env a addr =
     (case addr of
        None \<Rightarrow> ok (a\<lparr>governingAddress := None\<rparr>)
      | Some ga \<Rightarrow>
          bindE (deref (stateAddress a)) (\<lambda>sa.
            let addr1 = (if Address_Array (Address_Bytes env) ga = Address_Array (Address_Bytes env) sa
                         then None else addr)
            in ok (a\<lparr>governingAddress := addr1\<rparr>)))"

definition SetStateData :: "'m AliasOutput \<Rightarrow> bytes \<Rightarrow> output_error + 'm AliasOutput" where
  "SetStateData a data =
     (if MaxOutputPayloadSize < length data then Inl StateDataTooBig
      else Inr (a\<lparr>stateData := data\<rparr>))"

definition SetGovernanceMetadata :: "'m AliasOutput \<Rightarrow> bytes \<Rightarrow> output_error + 'm AliasOutput" where
  "SetGovernanceMetadata a data =
     (if MaxOutputPayloadSize < length data then Inl GovernanceMetadataTooBig
      else Inr (a\<lparr>governanceMetadata := data\<rparr>))"

definition SetStateIndex :: "'m AliasOutput \<Rightarrow> 32 word \<Rightarrow> 'm AliasOutput" where
  "SetStateIndex a index' = a\<lparr>stateIndex := index'\<rparr>"

definition SetIsGovernanceUpdated :: "'m AliasOutput \<Rightarrow> bool \<Rightarrow> 'm AliasOutput" where
  "SetIsGovernanceUpdated a i = a\<lparr>isGovernanceUpdate := i\<rparr>"

definition SetImmutableData :: "'m AliasOutput \<Rightarrow> bytes \<Rightarrow> output_error + 'm AliasOutput" where
  "SetImmutableData a data =
     (if MaxOutputPayloadSize < length data then Inl ImmutableDataTooBig
      else Inr (a\<lparr>immutableData := data\<rparr>))"

definition SetDelegationTimelock :: "'m AliasOutput \<Rightarrow> gotime \<Rightarrow> output_error + 'm AliasOutput" where
  "SetDelegationTimelock a lock =
     (if \<not> isDelegated a then Inl TimelockWithoutDelegation
      else Inr (a\<lparr>delegationTimelock := lock\<rparr>))"

definition Alias_UpdateMintingColor ::
    "('m, 'z) crypto_scheme \<Rightarrow> 'm AliasOutput \<Rightarrow> 'm AliasOutput go" where
  "Alias_UpdateMintingColor cr a =
     (let coloredBalances = recolor cr (outputID a) (ColoredBalances_Map cr (balances a))
      in bindE (Alias_clone cr a) (\<lambda>copy.
           let updated1 = (case SetBalances cr copy coloredBalances of Inl _ \<Rightarrow> copy | Inr u \<Rightarrow> u);
               updated2 = updated1\<lparr>outputID := outputID a\<rparr>
           in ok (if isOrigin a
                  then SetAliasAddress updated2 (NewAliasAddress cr (OutputID_Bytes (outputID a)))
                  else updated2)))"

section \<open>ExtendedLockedOutput\<close>

definition NewExtendedLockedOutput ::
    "('m, 'z) orderedmap_scheme \<Rightarrow> coins \<Rightarrow> Address \<Rightarrow> 'm ExtendedLockedOutput" where
  "NewExtendedLockedOutput om bs address =
     \<lparr>el_id = EmptyOutputID, el_balances = NewColoredBalances om bs,
      el_address = Address_Clone address, fallbackAddress = None, fallbackDeadline = 0,
      timelock = 0, el_payload = []\<rparr>"

definition WithFallbackOptions ::
    "'m ExtendedLockedOutput \<Rightarrow> Address option \<Rightarrow> gotime \<Rightarrow> 'm ExtendedLockedOutput" where
  "WithFallbackOptions x addr deadline =
     x\<lparr>fallbackAddress := (case addr of Some a \<Rightarrow> Some (Address_Clone a) | None \<Rightarrow> None),
       fallbackDeadline := deadline\<rparr>"

definition WithTimeLock :: "'m ExtendedLockedOutput \<Rightarrow> gotime \<Rightarrow> 'm ExtendedLockedOutput" where
  "WithTimeLock x lock = x\<lparr>timelock := lock\<rparr>"

definition SetPayload ::
    "'m ExtendedLockedOutput \<Rightarrow> bytes \<Rightarrow> output_error + 'm ExtendedLockedOutput" where
  "SetPayload x data =
     (if MaxOutputPayloadSize < length data then Inl PayloadTooBig
      else Inr (x\<lparr>el_payload := data\<rparr>))"

definition TimeLockedNow :: "'m ExtendedLockedOutput \<Rightarrow> gotime \<Rightarrow> bool" where
  "TimeLockedNow x nowis = After (timelock x) nowis"

definition UnlockAddressNow :: "'m ExtendedLockedOutput \<Rightarrow> gotime \<Rightarrow> Address" where
  "UnlockAddressNow x nowis =
     (case fallbackAddress x of
        None \<Rightarrow> el_address x
      | Some fb \<Rightarrow> if After nowis (fallbackDeadline x) then fb else el_address x)"

definition Extended_Clone ::
    "('m, 'z) orderedmap_scheme \<Rightarrow> 'm ExtendedLockedOutput \<Rightarrow> 'm ExtendedLockedOutput" where
  "Extended_Clone om x =
     (let ret = \<lparr>el_id = el_id x, el_balances = ColoredBalances_Clone om (el_balances x),
                 el_address = Address_Clone (el_address x), fallbackAddress = None,
                 fallbackDeadline = 0, timelock = 0, el_payload = []\<rparr>;
          ret1 = (case fallbackAddress x of
                    Some a \<Rightarrow> ret\<lparr>fallbackAddress := Some (Address_Clone a)\<rparr> | None \<Rightarrow> ret);
          ret2 = (if \<not> IsZero (fallbackDeadline x)
                  then ret1\<lparr>fallbackDeadline := fallbackDeadline x\<rparr> else ret1);
          ret3 = (if \<not> IsZero (timelock x) then ret2\<lparr>timelock := timelock x\<rparr> else ret2)
      in ret3\<lparr>el_payload := el_payload x\<rparr>)"

definition Extended_UpdateMintingColor ::
    "('m, 'z) crypto_scheme \<Rightarrow> 'm ExtendedLockedOutput \<Rightarrow> 'm ExtendedLockedOutput go" where
  "Extended_UpdateMintingColor cr x =
     (let coloredBalances = recolor cr (el_id x) (ColoredBalances_Map cr (el_balances x));
          updated = WithTimeLock
                      (WithFallbackOptions (NewExtendedLockedOutput cr coloredBalances (el_address x))
                         (fallbackAddress x) (fallbackDeadline x))
                      (timelock x)
      in case SetPayload updated (el_payload x) of
           Inl _ \<Rightarrow> fail (Raised ''UpdateMintingColor'')
         | Inr updated1 \<Rightarrow> ok (updated1\<lparr>el_id := el_id x\<rparr>))"

section \<open>The interface Output\<close>

fun Output_ID :: "'m Output \<Rightarrow> OutputID" where
  "Output_ID (SigLockedSingleOutput s) = sls_ID s"
| "Output_ID (SigLockedColoredOutput s) = slc_ID s"
| "Output_ID (AliasOutput a) = outputID a"
| "Output_ID (ExtendedLockedOutput x) = el_id x"

fun Output_SetID :: "'m Output \<Rightarrow> OutputID \<Rightarrow> 'm Output" where
  "Output_SetID (SigLockedSingleOutput s) oid = SigLockedSingleOutput (s\<lparr>sls_ID := oid\<rparr>)"
| "Output_SetID (SigLockedColoredOutput s) oid = SigLockedColoredOutput (s\<lparr>slc_ID := oid\<rparr>)"
| "Output_SetID (AliasOutput a) oid = AliasOutput (a\<lparr>outputID := oid\<rparr>)"
| "Output_SetID (ExtendedLockedOutput x) oid = ExtendedLockedOutput (x\<lparr>el_id := oid\<rparr>)"

fun Output_Balances :: "('m, 'z) orderedmap_scheme \<Rightarrow> 'm Output \<Rightarrow> 'm" where
  "Output_Balances om (SigLockedSingleOutput s) = SigLockedSingle_Balances om s"
| "Output_Balances om (SigLockedColoredOutput s) = slc_Balances s"
| "Output_Balances om (AliasOutput a) = balances a"
| "Output_Balances om (ExtendedLockedOutput x) = el_balances x"

fun Output_Address :: "('m, 'z) crypto_scheme \<Rightarrow> 'm Output \<Rightarrow> Address" where
  "Output_Address cr (SigLockedSingleOutput s) = sls_Address s"
| "Output_Address cr (SigLockedColoredOutput s) = slc_Address s"
| "Output_Address cr (AliasOutput a) = AliasAddress (GetAliasAddress cr a)"
| "Output_Address cr (ExtendedLockedOutput x) = el_address x"

fun Output_Clone :: "('m, 'z) crypto_scheme \<Rightarrow> 'm Output \<Rightarrow> 'm Output go" where
  "Output_Clone cr (SigLockedSingleOutput s) = ok (SigLockedSingleOutput (SigLockedSingle_Clone s))"
| "Output_Clone cr (SigLockedColoredOutput s) = ok (SigLockedColoredOutput (SigLockedColored_Clone s))"
| "Output_Clone cr (AliasOutput a) = bindE (Alias_clone cr a) (\<lambda>c. ok (AliasOutput c))"
| "Output_Clone cr (ExtendedLockedOutput x) = ok (ExtendedLockedOutput (Extended_Clone cr x))"

fun UpdateMintingColor :: "('m, 'z) crypto_scheme \<Rightarrow> 'm Output \<Rightarrow> 'm Output go" where
  "UpdateMintingColor cr (SigLockedSingleOutput s) = ok (SigLockedSingleOutput s)"
| "UpdateMintingColor cr (SigLockedColoredOutput s) =
     ok (SigLockedColoredOutput (SigLockedColored_UpdateMintingColor cr s))"
| "UpdateMintingColor cr (AliasOutput a) =
     bindE (Alias_UpdateMintingColor cr a) (\<lambda>u. ok (AliasOutput u))"
| "UpdateMintingColor cr (ExtendedLockedOutput x) =
     bindE (Extended_UpdateMintingColor cr x) (\<lambda>u. ok (ExtendedLockedOutput u))"

text \<open>Input: an output of type SigLockedColoredOutput is not required to have an identifier.\<close>

fun Output_Input :: "'m Output \<Rightarrow> OutputID go" where
  "Output_Input (SigLockedColoredOutput s) = ok (slc_ID s)"
| "Output_Input out =
     (if Output_ID out = EmptyOutputID then fail (Raised ''Input'') else ok (Output_ID out))"

section \<open>Collections\<close>

text \<open>NewOutputs and NewInputs: drop repeated serializations, sort by serialization.\<close>

fun dedup_by :: "('a \<Rightarrow> bytes) \<Rightarrow> bytes list \<Rightarrow> 'a list \<Rightarrow> ('a \<times> bytes) list" where
  "dedup_by ser seen [] = []"
| "dedup_by ser seen (x # xs) =
     (let m = ser x in
      if m \<in> set seen then dedup_by ser seen xs else (x, m) # dedup_by ser (m # seen) xs)"

definition devnetvm_NewOutputs :: "('m, 'z) vm_env_scheme \<Rightarrow> 'm Output list \<Rightarrow> 'm Output list go" where
  "devnetvm_NewOutputs env optionalOutputs =
     (let sortedOutputs = sort_by (\<lambda>x y. bytes_less (snd x) (snd y))
                            (dedup_by (Output_Bytes env) [] optionalOutputs);
          outputs = map fst sortedOutputs
      in if length outputs < MinOutputCount then fail (Raised ''MinOutputCount'')
         else if MaxOutputCount < length outputs then fail (Raised ''MaxOutputCount'')
         else ok outputs)"

definition NewInputs :: "(OutputID \<Rightarrow> bytes) \<Rightarrow> OutputID list \<Rightarrow> OutputID list" where
  "NewInputs ser optionalInputs =
     map fst (sort_by (\<lambda>x y. bytes_less (snd x) (snd y)) (dedup_by ser [] optionalInputs))"

fun Outputs_Inputs_loop :: "'m Output list \<Rightarrow> OutputID list go" where
  "Outputs_Inputs_loop [] = ok []"
| "Outputs_Inputs_loop (out # outs) =
     bindE (Output_Input out) (\<lambda>i. bindE (Outputs_Inputs_loop outs) (\<lambda>is. ok (i # is)))"

definition Outputs_Inputs :: "(OutputID \<Rightarrow> bytes) \<Rightarrow> 'm Output list \<Rightarrow> OutputID list go" where
  "Outputs_Inputs ser outs = bindE (Outputs_Inputs_loop outs) (\<lambda>is. ok (NewInputs ser is))"

definition Outputs_ByID :: "'m Output list \<Rightarrow> (OutputID \<times> 'm Output) list" where
  "Outputs_ByID outs = fold (\<lambda>out m. AList.update (Output_ID out) out m) outs []"

definition Outputs_Filter :: "('m Output \<Rightarrow> bool) \<Rightarrow> 'm Output list \<Rightarrow> 'm Output list" where
  "Outputs_Filter condition outs =
     fold (\<lambda>out filtered. if condition out then filtered @ [out] else filtered) outs []"

end
