(* ===== verification/Unlock.thy ===== *)
theory Unlock
  imports Outputs
begin

text \<open>
  Unlocking an output: the methods UnlockValid of the four output types and the transition rules of
  alias outputs (packages/core/ledger/vm/devnetvm/output.go).

  A Go result pair (bool, error) is a pair of a boolean and an optional error; an access out
  of range is a panic.
\<close>

datatype unlock_error =
    EssenceBytesError
  | NotAnAliasAddress
  | ReferencedInputNotAlias
  | WrongAliasReferenced
  | WrongAliasIndex
  | UnsupportedUnlockBlock
  | DuplicatedAliasOutput
  | InvalidSignature
  | AliasNotUnlocked "unlock_error option"
  | AliasAddressModified
  | ImmutableDataModified
  | StateDataModified
  | StateIndexModified
  | TokensModified
  | GovernanceTimelocked
  | UnexpectedStateIndex
  | StateAddressModified
  | GoverningAddressModified
  | GovernanceMetadataModified
  | DelegatedFundsModified
  | DelegationStatusModified
  | DelegationTimelockModified
  | StateTransitionAfterTimelock
  | TooManyTokensDestroyed
  | DestroyTimelocked

section \<open>The chained output\<close>

fun findChained_loop ::
    "('m, 'z) crypto_scheme \<Rightarrow> AliasDigest \<Rightarrow> 'm Output list \<Rightarrow> 'm AliasOutput option \<Rightarrow>
     unlock_error + 'm AliasOutput option" where
  "findChained_loop cr addr [] ret = Inr ret"
| "findChained_loop cr addr (AliasOutput outAlias # outs) ret =
     (if \<not> Address_Equals (AliasAddress addr) (AliasAddress (GetAliasAddress cr outAlias))
      then findChained_loop cr addr outs ret
      else case ret of
             Some _ \<Rightarrow> Inl DuplicatedAliasOutput
           | None \<Rightarrow> findChained_loop cr addr outs (Some outAlias))"
| "findChained_loop cr addr (out # outs) ret = findChained_loop cr addr outs ret"

definition findChainedOutputAndCheckFork ::
    "('m, 'z) crypto_scheme \<Rightarrow> 'm AliasOutput \<Rightarrow> 'm TransactionEssence \<Rightarrow>
     unlock_error + 'm AliasOutput option" where
  "findChainedOutputAndCheckFork cr a essence =
     findChained_loop cr (GetAliasAddress cr a) (ess_Outputs essence) None"

definition hasToBeUnlockedForGovernanceUpdate ::
    "('m, 'z) crypto_scheme \<Rightarrow> 'm AliasOutput \<Rightarrow> 'm TransactionEssence \<Rightarrow> bool" where
  "hasToBeUnlockedForGovernanceUpdate cr a essence =
     (case findChainedOutputAndCheckFork cr a essence of
        Inl _ \<Rightarrow> False
      | Inr None \<Rightarrow> True
      | Inr (Some chained) \<Rightarrow> isGovernanceUpdate chained)"

section \<open>Transition rules\<close>

definition Equals_nil :: "Address option \<Rightarrow> Address option \<Rightarrow> bool go" where
  "Equals_nil a b = bindE (deref a) (\<lambda>x. bindE (deref b) (\<lambda>y. ok (Address_Equals x y)))"

definition validateGovernanceTransition ::
    "('m, 'z) crypto_scheme \<Rightarrow> 'm AliasOutput \<Rightarrow> 'm AliasOutput \<Rightarrow> gotime \<Rightarrow> unlock_error option" where
  "validateGovernanceTransition cr a chained nowis =
     (if stateData a \<noteq> stateData chained then Some StateDataModified
      else if stateIndex a \<noteq> stateIndex chained then Some StateIndexModified
      else if \<not> equalColoredBalances cr (balances a) (balances chained) then Some TokensModified
      else if isDelegated a \<and> DelegationTimeLockedNow a nowis then Some GovernanceTimelocked
      else None)"

definition validateStateTransition ::
    "('m, 'z) crypto_scheme \<Rightarrow> 'm AliasOutput \<Rightarrow> 'm AliasOutput \<Rightarrow> gotime \<Rightarrow> unlock_error option go" where
  "validateStateTransition cr a chained nowis =
     (if stateIndex a + 1 \<noteq> stateIndex chained then ok (Some UnexpectedStateIndex)
      else bindE (Equals_nil (stateAddress a) (stateAddress chained)) (\<lambda>sameState.
        if \<not> sameState then ok (Some StateAddressModified)
        else bindE (if IsSelfGoverned a \<noteq> IsSelfGoverned chained then ok True
                    else if governingAddress a \<noteq> None
                    then bindE (Equals_nil (governingAddress a) (governingAddress chained))
                           (\<lambda>same. ok (\<not> same))
                    else ok False) (\<lambda>governingModified.
          if governingModified then ok (Some GoverningAddressModified)
          else if governanceMetadata a \<noteq> governanceMetadata chained
          then ok (Some GovernanceMetadataModified)
          else if isDelegated a \<and> \<not> equalColoredBalances cr (balances a) (balances chained)
          then ok (Some DelegatedFundsModified)
          else if isDelegated a \<noteq> isDelegated chained then ok (Some DelegationStatusModified)
          else if DelegationTimelock a \<noteq> DelegationTimelock chained
          then ok (Some DelegationTimelockModified)
          else if isDelegated a \<and> \<not> IsZero (DelegationTimelock a) \<and> \<not> DelegationTimeLockedNow a nowis
          then ok (Some StateTransitionAfterTimelock)
          else ok None)))"

definition validateTransition ::
    "('m, 'z) crypto_scheme \<Rightarrow> 'm AliasOutput \<Rightarrow> 'm AliasOutput \<Rightarrow> 'm TransactionEssence \<Rightarrow>
     unlock_error option go" where
  "validateTransition cr a chained essence =
     (if \<not> Address_Equals (AliasAddress (GetAliasAddress cr a)) (AliasAddress (GetAliasAddress cr chained))
      then ok (Some AliasAddressModified)
      else if immutableData a \<noteq> immutableData chained then ok (Some ImmutableDataModified)
      else if isGovernanceUpdate chained
      then ok (validateGovernanceTransition cr a chained (Timestamp essence))
      else validateStateTransition cr a chained (Timestamp essence))"

definition validateDestroyTransitionNow ::
    "('m, 'z) crypto_scheme \<Rightarrow> 'm AliasOutput \<Rightarrow> gotime \<Rightarrow> unlock_error option" where
  "validateDestroyTransitionNow cr a nowis =
     (if \<not> isDelegated a \<and> \<not> IsExactDustMinimum cr (balances a) then Some TooManyTokensDestroyed
      else if isDelegated a \<and> DelegationTimeLockedNow a nowis then Some DestroyTimelocked
      else None)"

section \<open>Unlocking by reference to an alias\<close>

definition unlockedByAliasIndex ::
    "('m, 'z) crypto_scheme \<Rightarrow> Address option \<Rightarrow> 'm TransactionEssence \<Rightarrow> 16 word \<Rightarrow> 'm Output list \<Rightarrow>
     (bool \<times> unlock_error option) go" where
  "unlockedByAliasIndex cr controller essence refIndex inputs =
     bindE (deref controller) (\<lambda>addr.
       if Address_Type addr \<noteq> AliasAddressType then ok (False, Some NotAnAliasAddress)
       else if length inputs < unat refIndex then ok (False, Some WrongAliasIndex)
       else bindE (index inputs (unat refIndex)) (\<lambda>inp.
         case inp of
           AliasOutput refInput \<Rightarrow>
             if \<not> Address_Equals (AliasAddress (GetAliasAddress cr refInput)) addr
             then ok (False, Some WrongAliasReferenced)
             else ok (\<not> hasToBeUnlockedForGovernanceUpdate cr refInput essence, None)
         | _ \<Rightarrow> ok (False, Some ReferencedInputNotAlias)))"

definition unlockedGovernanceTransitionByAliasIndex ::
    "('m, 'z) crypto_scheme \<Rightarrow> 'm AliasOutput \<Rightarrow> 'm TransactionEssence \<Rightarrow> 16 word \<Rightarrow> 'm Output list \<Rightarrow>
     (bool \<times> unlock_error option) go" where
  "unlockedGovernanceTransitionByAliasIndex cr a essence refIndex inputs =
     unlockedByAliasIndex cr (GetGoverningAddress a) essence refIndex inputs"

definition unlockedStateTransitionByAliasIndex ::
    "('m, 'z) crypto_scheme \<Rightarrow> 'm AliasOutput \<Rightarrow> 'm TransactionEssence \<Rightarrow> 16 word \<Rightarrow> 'm Output list \<Rightarrow>
     (bool \<times> unlock_error option) go" where
  "unlockedStateTransitionByAliasIndex cr a essence refIndex inputs =
     unlockedByAliasIndex cr (stateAddress a) essence refIndex inputs"

section \<open>UnlockValid\<close>

text \<open>An output that is locked by one address: the body shared by the three non-alias types.\<close>

definition address_UnlockValid ::
    "('m, 'z) vm_env_scheme \<Rightarrow> Address \<Rightarrow> 'm TransactionEssence \<Rightarrow> UnlockBlock \<Rightarrow> 'm Output list \<Rightarrow>
     (bool \<times> unlock_error option) go" where
  "address_UnlockValid env addr essence unlockBlock inputs =
     (case unlockBlock of
        SignatureUnlockBlock sig \<Rightarrow>
          (case Essence_Bytes env essence of
             None \<Rightarrow> ok (False, Some EssenceBytesError)
           | Some txBytes \<Rightarrow> ok (AddressSignatureValid env sig addr txBytes, None))
      | AliasUnlockBlock aliasIndex \<Rightarrow>
          if Address_Type addr \<noteq> AliasAddressType then ok (False, Some NotAnAliasAddress)
          else bindE (index inputs (unat aliasIndex)) (\<lambda>inp.
            case inp of
              AliasOutput refAliasOutput \<Rightarrow>
                if \<not> Address_Equals addr (AliasAddress (GetAliasAddress env refAliasOutput))
                then ok (False, Some WrongAliasReferenced)
                else ok (\<not> hasToBeUnlockedForGovernanceUpdate env refAliasOutput essence, None)
            | _ \<Rightarrow> ok (False, Some ReferencedInputNotAlias))
      | ReferenceUnlockBlock _ \<Rightarrow> ok (False, Some UnsupportedUnlockBlock))"

definition SigLockedSingle_UnlockValid ::
    "('m, 'z) vm_env_scheme \<Rightarrow> SigLockedSingleOutput \<Rightarrow> 'm TransactionEssence \<Rightarrow> UnlockBlock \<Rightarrow>
     'm Output list \<Rightarrow> (bool \<times> unlock_error option) go" where
  "SigLockedSingle_UnlockValid env s essence unlockBlock inputs =
     address_UnlockValid env (sls_Address s) essence unlockBlock inputs"

definition SigLockedColored_UnlockValid ::
    "('m, 'z) vm_env_scheme \<Rightarrow> 'm SigLockedColoredOutput \<Rightarrow> 'm TransactionEssence \<Rightarrow> UnlockBlock \<Rightarrow>
     'm Output list \<Rightarrow> (bool \<times> unlock_error option) go" where
  "SigLockedColored_UnlockValid env s essence unlockBlock inputs =
     address_UnlockValid env (slc_Address s) essence unlockBlock inputs"

definition Extended_UnlockValid ::
    "('m, 'z) vm_env_scheme \<Rightarrow> 'm ExtendedLockedOutput \<Rightarrow> 'm TransactionEssence \<Rightarrow> UnlockBlock \<Rightarrow>
     'm Output list \<Rightarrow> (bool \<times> unlock_error option) go" where
  "Extended_UnlockValid env x essence unlockBlock inputs =
     (if TimeLockedNow x (Timestamp essence) then ok (False, None)
      else address_UnlockValid env (UnlockAddressNow x (Timestamp essence)) essence unlockBlock inputs)"

text \<open>Checking a signature against an address that may be nil.\<close>

definition signedBy ::
    "('m, 'z) vm_env_scheme \<Rightarrow> Signature \<Rightarrow> Address option \<Rightarrow> 'm TransactionEssence \<Rightarrow>
     (unlock_error + bool) go" where
  "signedBy env sig controller essence =
     (case Essence_Bytes env essence of
        None \<Rightarrow> ok (Inl EssenceBytesError)
      | Some txBytes \<Rightarrow>
          bindE (deref controller) (\<lambda>addr. ok (Inr (AddressSignatureValid env sig addr txBytes))))"

definition Alias_UnlockValid_signature ::
    "('m, 'z) vm_env_scheme \<Rightarrow> 'm AliasOutput \<Rightarrow> 'm AliasOutput option \<Rightarrow> 'm TransactionEssence \<Rightarrow>
     Signature \<Rightarrow> (bool \<times> unlock_error option) go" where
  "Alias_UnlockValid_signature env a chained essence sig =
     (case chained of
        Some c \<Rightarrow>
          bindE (signedBy env sig (if isGovernanceUpdate c then GetGoverningAddress a else stateAddress a)
                   essence) (\<lambda>r.
            case r of
              Inl err \<Rightarrow> ok (False, Some err)
            | Inr valid \<Rightarrow>
                if \<not> valid then ok (False, Some InvalidSignature)
                else bindE (validateTransition env a c essence) (\<lambda>t.
                       case t of Some err \<Rightarrow> ok (False, Some err) | None \<Rightarrow> ok (True, None)))
      | None \<Rightarrow>
          bindE (signedBy env sig (GetGoverningAddress a) essence) (\<lambda>r.
            case r of
              Inl err \<Rightarrow> ok (False, Some err)
            | Inr valid \<Rightarrow>
                if \<not> valid then ok (False, Some InvalidSignature)
                else (case validateDestroyTransitionNow env a (Timestamp essence) of
                        Some err \<Rightarrow> ok (False, Some err)
                      | None \<Rightarrow> ok (True, None))))"

definition Alias_UnlockValid_alias ::
    "('m, 'z) vm_env_scheme \<Rightarrow> 'm AliasOutput \<Rightarrow> 'm AliasOutput option \<Rightarrow> 'm TransactionEssence \<Rightarrow>
     16 word \<Rightarrow> 'm Output list \<Rightarrow> (bool \<times> unlock_error option) go" where
  "Alias_UnlockValid_alias env a chained essence aliasIndex inputs =
     (case chained of
        Some c \<Rightarrow>
          bindE (if isGovernanceUpdate c
                 then unlockedGovernanceTransitionByAliasIndex env a essence aliasIndex inputs
                 else unlockedStateTransitionByAliasIndex env a essence aliasIndex inputs)
            (\<lambda>(valid, err).
               if \<not> valid then ok (False, Some (AliasNotUnlocked err))
               else bindE (validateTransition env a c essence) (\<lambda>t.
                      case t of Some err \<Rightarrow> ok (False, Some err) | None \<Rightarrow> ok (True, None)))
      | None \<Rightarrow>
          bindE (unlockedGovernanceTransitionByAliasIndex env a essence aliasIndex inputs)
            (\<lambda>(valid, err).
               if \<not> valid then ok (False, Some (AliasNotUnlocked err))
               else (case validateDestroyTransitionNow env a (Timestamp essence) of
                       Some err \<Rightarrow> ok (False, Some err)
                     | None \<Rightarrow> ok (True, None))))"

definition Alias_UnlockValid ::
    "('m, 'z) vm_env_scheme \<Rightarrow> 'm AliasOutput \<Rightarrow> 'm TransactionEssence \<Rightarrow> UnlockBlock \<Rightarrow>
     'm Output list \<Rightarrow> (bool \<times> unlock_error option) go" where
  "Alias_UnlockValid env a essence unlockBlock inputs =
     (case findChainedOutputAndCheckFork env a essence of
        Inl err \<Rightarrow> ok (False, Some err)
      | Inr chained \<Rightarrow>
          (case unlockBlock of
             SignatureUnlockBlock sig \<Rightarrow> Alias_UnlockValid_signature env a chained essence sig
           | AliasUnlockBlock aliasIndex \<Rightarrow>
               Alias_UnlockValid_alias env a chained essence aliasIndex inputs
           | ReferenceUnlockBlock _ \<Rightarrow> ok (False, Some UnsupportedUnlockBlock)))"

fun UnlockValid ::
    "('m, 'z) vm_env_scheme \<Rightarrow> 'm Output \<Rightarrow> 'm TransactionEssence \<Rightarrow> UnlockBlock \<Rightarrow> 'm Output list \<Rightarrow>
     (bool \<times> unlock_error option) go" where
  "UnlockValid env (SigLockedSingleOutput s) = SigLockedSingle_UnlockValid env s"
| "UnlockValid env (SigLockedColoredOutput s) = SigLockedColored_UnlockValid env s"
| "UnlockValid env (AliasOutput a) = Alias_UnlockValid env a"
| "UnlockValid env (ExtendedLockedOutput x) = Extended_UnlockValid env x"

end
