(* ===== verification/UnlockGraph.thy ===== *)
theory UnlockGraph
  imports Addresses
begin

text \<open>
  The graph of references between unlock blocks and its cycle check
  (packages/core/ledger/vm/devnetvm/utils.go).

  visited and recursionStack are lists of booleans, updated in place by index; every access that is
  out of range is a panic.  The recursion of dfs marks a vertex before it descends, so it is bounded
  by the number of vertices: dfs takes that number as fuel, and running out of it is the panic
  Diverges, which the lemmas below show never to happen.
\<close>

definition MaxInputCount :: nat where "MaxInputCount = 127"

record UnlockGraph =
  Vertices :: "16 word list"
  Edges :: "(16 word \<times> 16 word) list"

datatype graph_error = TooManyBlocks | ReferenceToReference "16 word"

section \<open>Construction\<close>

fun NewUnlockGraph_loop ::
    "UnlockBlock list \<Rightarrow> nat \<Rightarrow> UnlockBlock list \<Rightarrow> UnlockGraph \<Rightarrow> (graph_error + UnlockGraph) go" where
  "NewUnlockGraph_loop blocks i [] g = ok (Inr g)"
| "NewUnlockGraph_loop blocks i (block # rest) g =
     (let g1 = g\<lparr>Vertices := (Vertices g)[i := of_nat i]\<rparr>
      in case block of
           SignatureUnlockBlock _ \<Rightarrow> NewUnlockGraph_loop blocks (Suc i) rest g1
         | ReferenceUnlockBlock refIndex \<Rightarrow>
             bindE (index blocks (unat refIndex)) (\<lambda>target.
               if UnlockBlock_Type target = ReferenceUnlockBlockType
               then ok (Inl (ReferenceToReference refIndex))
               else NewUnlockGraph_loop blocks (Suc i) rest
                      (g1\<lparr>Edges := AList.update (of_nat i) refIndex (Edges g1)\<rparr>))
         | AliasUnlockBlock aliasIndex \<Rightarrow>
             NewUnlockGraph_loop blocks (Suc i) rest
               (g1\<lparr>Edges := AList.update (of_nat i) aliasIndex (Edges g1)\<rparr>))"

definition NewUnlockGraph :: "UnlockBlock list \<Rightarrow> (graph_error + UnlockGraph) go" where
  "NewUnlockGraph blocks =
     (if MaxInputCount < length blocks then ok (Inl TooManyBlocks)
      else NewUnlockGraph_loop blocks 0 blocks
             \<lparr>Vertices = replicate (length blocks) 0, Edges = []\<rparr>)"

section \<open>Cycle detection\<close>

fun dfs :: "nat \<Rightarrow> UnlockGraph \<Rightarrow> 16 word \<Rightarrow> bool list \<Rightarrow> bool list \<Rightarrow> (bool \<times> bool list \<times> bool list) go" where
  "dfs 0 g node visited recursionStack = fail Diverges"
| "dfs (Suc fuel) g node visited recursionStack =
     bindE (index visited (unat node)) (\<lambda>_.
     bindE (index recursionStack (unat node)) (\<lambda>_.
       let visited1 = visited[unat node := True];
           stack1 = recursionStack[unat node := True]
       in bindE (case map_of (Edges g) node of
                   None \<Rightarrow> ok (False, visited1, stack1)
                 | Some referenced \<Rightarrow>
                     bindE (index visited1 (unat referenced)) (\<lambda>seen.
                       if \<not> seen then dfs fuel g referenced visited1 stack1
                       else bindE (index stack1 (unat referenced)) (\<lambda>onStack.
                              ok (onStack, visited1, stack1))))
            (\<lambda>(cycle, visited2, stack2).
               if cycle then ok (True, visited2, stack2)
               else ok (False, visited2, stack2[unat node := False]))))"

fun IsCycleDetected_loop :: "UnlockGraph \<Rightarrow> 16 word list \<Rightarrow> bool list \<Rightarrow> bool list \<Rightarrow> bool go" where
  "IsCycleDetected_loop g [] visited recursionStack = ok False"
| "IsCycleDetected_loop g (node # nodes) visited recursionStack =
     bindE (index visited (unat node)) (\<lambda>seen.
       if seen then IsCycleDetected_loop g nodes visited recursionStack
       else bindE (dfs (Suc (length (Vertices g))) g node visited recursionStack)
              (\<lambda>(cycle, visited1, stack1).
                 if cycle then ok True else IsCycleDetected_loop g nodes visited1 stack1))"

definition IsCycleDetected :: "UnlockGraph \<Rightarrow> bool go" where
  "IsCycleDetected g =
     IsCycleDetected_loop g (Vertices g) (replicate (length (Vertices g)) False)
       (replicate (length (Vertices g)) False)"

definition checkReferenceCycle :: "UnlockBlock list \<Rightarrow> (graph_error + bool) go" where
  "checkReferenceCycle blocks =
     bindE (NewUnlockGraph blocks) (\<lambda>r.
       case r of
         Inl err \<Rightarrow> ok (Inl err)
       | Inr g \<Rightarrow> bindE (IsCycleDetected g) (\<lambda>cyclePresent. ok (Inr cyclePresent)))"

section \<open>Graphs with at most one outgoing edge\<close>

definition edge_rel :: "(nat \<Rightarrow> nat option) \<Rightarrow> (nat \<times> nat) set" where
  "edge_rel e = {(v, w). e v = Some w}"

text \<open>The walk from a vertex ends.\<close>

inductive walk_ends :: "(nat \<Rightarrow> nat option) \<Rightarrow> nat \<Rightarrow> bool" for e where
  last: "e v = None \<Longrightarrow> walk_ends e v"
| step: "e v = Some w \<Longrightarrow> walk_ends e w \<Longrightarrow> walk_ends e v"

lemma walk_ends_no_cycle: "walk_ends e v \<Longrightarrow> (v, v) \<notin> (edge_rel e)\<^sup>+"
proof (induction rule: walk_ends.induct)
  case (last v)
  show ?case
  proof
    assume "(v, v) \<in> (edge_rel e)\<^sup>+"
    then obtain w where "(v, w) \<in> edge_rel e" by (auto dest: tranclD)
    with last show False by (simp add: edge_rel_def)
  qed
next
  case (step v w)
  show ?case
  proof
    assume "(v, v) \<in> (edge_rel e)\<^sup>+"
    then obtain x where x: "(v, x) \<in> edge_rel e" "(x, v) \<in> (edge_rel e)\<^sup>*" by (auto dest: tranclD)
    with step.hyps(1) have "x = w" by (simp add: edge_rel_def)
    moreover have "(v, w) \<in> edge_rel e" using step.hyps(1) by (simp add: edge_rel_def)
    ultimately have "(w, w) \<in> (edge_rel e)\<^sup>+" using x(2) by (blast intro: rtrancl_into_trancl1)
    with step.IH show False ..
  qed
qed

section \<open>The graph and its edges\<close>

text \<open>The graph of the blocks in terms of indices.\<close>

fun block_target :: "UnlockBlock \<Rightarrow> nat option" where
  "block_target (SignatureUnlockBlock _) = None"
| "block_target (ReferenceUnlockBlock r) = Some (unat r)"
| "block_target (AliasUnlockBlock r) = Some (unat r)"

definition unlock_target :: "UnlockBlock list \<Rightarrow> nat \<Rightarrow> nat option" where
  "unlock_target blocks i = (if i < length blocks then block_target (blocks ! i) else None)"

text \<open>A reference unlock block points to a block that is not a reference; all references are in
  range.\<close>

definition references_ok :: "UnlockBlock list \<Rightarrow> bool" where
  "references_ok blocks \<longleftrightarrow>
     (\<forall>r. ReferenceUnlockBlock r \<in> set blocks \<longrightarrow> unat r < length blocks \<and>
        UnlockBlock_Type (blocks ! unat r) \<noteq> ReferenceUnlockBlockType)"

definition aliases_in_range :: "UnlockBlock list \<Rightarrow> bool" where
  "aliases_in_range blocks \<longleftrightarrow> (\<forall>r. AliasUnlockBlock r \<in> set blocks \<longrightarrow> unat r < length blocks)"

definition graph_of :: "nat \<Rightarrow> (nat \<Rightarrow> nat option) \<Rightarrow> UnlockGraph \<Rightarrow> bool" where
  "graph_of n e g \<longleftrightarrow> n < 2 ^ 16 \<and> Vertices g = map of_nat [0..<n] \<and>
     (\<forall>w. map_option unat (map_of (Edges g) w) = e (unat w)) \<and>
     (\<forall>v w. e v = Some w \<longrightarrow> v < n)"

definition edges_in_range :: "nat \<Rightarrow> (nat \<Rightarrow> nat option) \<Rightarrow> bool" where
  "edges_in_range n e \<longleftrightarrow> (\<forall>v w. e v = Some w \<longrightarrow> w < n)"

lemma NewUnlockGraph_loop_ok:
  assumes "length blocks \<le> MaxInputCount" and "references_ok blocks"
    and "i \<le> length blocks" and "rest = drop i blocks"
    and "length vs = length blocks" and "take i vs = map of_nat [0..<i]"
    and "\<forall>w. map_option unat (map_of es w) = (if unat w < i then block_target (blocks ! unat w) else None)"
  shows "\<exists>es'. NewUnlockGraph_loop blocks i rest \<lparr>Vertices = vs, Edges = es\<rparr> =
           ok (Inr \<lparr>Vertices = map of_nat [0..<length blocks], Edges = es'\<rparr>) \<and>
         (\<forall>w. map_option unat (map_of es' w) = unlock_target blocks (unat w))"
  using assms(3-)
proof (induction rest arbitrary: i vs es)
  case Nil
  then have "i = length blocks" by simp
  with Nil show ?case by (auto simp: unlock_target_def)
next
  case (Cons b rest)
  have i: "i < length blocks"
    using Cons.prems(2) by (metis drop_all list.distinct(1) not_less)
  have b: "b = blocks ! i" and rest: "rest = drop (Suc i) blocks"
    using Cons.prems(2) i by (metis Cons_nth_drop_Suc list.inject)+
  have small: "i < 2 ^ 16" using i assms(1) by (simp add: MaxInputCount_def)
  then have unat_i: "unat (of_nat i :: 16 word) = i"
    by (simp add: unsigned_of_nat take_bit_eq_mod)
  have okb: "unat r < length blocks \<and> UnlockBlock_Type (blocks ! unat r) \<noteq> ReferenceUnlockBlockType"
    if "b = ReferenceUnlockBlock r" for r
    using assms(2) i that unfolding references_ok_def b by (metis nth_mem)
  let ?vs = "vs[i := of_nat i]"
  have len: "length ?vs = length blocks" using Cons.prems(3) by simp
  have tk: "take (Suc i) ?vs = map of_nat [0..<Suc i]"
    using Cons.prems(3,4) i by (simp add: take_Suc_conv_app_nth)
  have eq_i: "w = of_nat i \<longleftrightarrow> unat w = i" for w :: "16 word"
    using unat_i by auto
  have none: "\<forall>w. map_option unat (map_of es w) =
      (if unat w < Suc i then block_target (blocks ! unat w) else None)" if "block_target b = None"
  proof
    fix w
    show "map_option unat (map_of es w) =
        (if unat w < Suc i then block_target (blocks ! unat w) else None)"
      using Cons.prems(5)[rule_format, of w] that by (cases "unat w = i") (auto simp: b)
  qed
  have some: "\<forall>w. map_option unat (map_of (AList.update (of_nat i) r es) w) =
      (if unat w < Suc i then block_target (blocks ! unat w) else None)"
    if "block_target b = Some (unat r)" for r
  proof
    fix w
    show "map_option unat (map_of (AList.update (of_nat i) r es) w) =
        (if unat w < Suc i then block_target (blocks ! unat w) else None)"
      using Cons.prems(5)[rule_format, of w] that
      by (cases "unat w = i") (auto simp: b update_conv' eq_i)
  qed
  have le: "Suc i \<le> length blocks" using i by simp
  show ?case
  proof (cases b)
    case (SignatureUnlockBlock x)
    then show ?thesis using Cons.IH[OF le rest len tk none] by simp
  next
    case (ReferenceUnlockBlock r)
    then show ?thesis
      using Cons.IH[OF le rest len tk some] okb by (simp add: index_def)
  next
    case (AliasUnlockBlock r)
    then show ?thesis using Cons.IH[OF le rest len tk some] by simp
  qed
qed

lemma unlock_target_length: "unlock_target blocks v = Some w \<Longrightarrow> v < length blocks"
  by (simp add: unlock_target_def split: if_splits)

lemma NewUnlockGraph_ok:
  assumes "length blocks \<le> MaxInputCount" and "references_ok blocks"
  shows "\<exists>g. NewUnlockGraph blocks = ok (Inr g) \<and> graph_of (length blocks) (unlock_target blocks) g"
proof -
  obtain es where g: "NewUnlockGraph blocks =
        ok (Inr \<lparr>Vertices = map of_nat [0..<length blocks], Edges = es\<rparr>)"
    and es: "\<forall>w. map_option unat (map_of es w) = unlock_target blocks (unat w)"
    using NewUnlockGraph_loop_ok[OF assms, of 0 blocks "replicate (length blocks) 0" "[]"] assms(1)
    by (auto simp: NewUnlockGraph_def)
  have "length blocks < 2 ^ 16" using assms(1) by (simp add: MaxInputCount_def)
  then show ?thesis using g es unlock_target_length[of blocks] by (auto simp: graph_of_def)
qed

lemma NewUnlockGraph_loop_refs:
  "NewUnlockGraph_loop blocks i rest g = ok (Inr g') \<Longrightarrow> ReferenceUnlockBlock r \<in> set rest \<Longrightarrow>
   unat r < length blocks \<and> UnlockBlock_Type (blocks ! unat r) \<noteq> ReferenceUnlockBlockType"
proof (induction rest arbitrary: i g)
  case (Cons b rest)
  then show ?case
    by (cases b) (auto simp: bindE_eq_Inr_iff index_Inr_iff Let_def split: if_splits)
qed simp

lemma NewUnlockGraph_Inr:
  assumes "NewUnlockGraph blocks = ok (Inr g)"
  shows "length blocks \<le> MaxInputCount" and "references_ok blocks"
  using assms NewUnlockGraph_loop_refs[of blocks 0 blocks _ g]
  by (auto simp: NewUnlockGraph_def references_ok_def split: if_splits)

section \<open>Correctness of the search\<close>

definition unseen :: "bool list \<Rightarrow> nat" where
  "unseen visited = length (filter Not visited)"

lemma unseen_update: "v < length V \<Longrightarrow> \<not> V ! v \<Longrightarrow> unseen V = Suc (unseen (V[v := True]))"
  unfolding unseen_def
  by (subst (1) id_take_nth_drop[of v V], simp)
     (simp add: upd_conv_take_nth_drop)

lemma unseen_le: "unseen V \<le> length V"
  by (simp add: unseen_def)

text \<open>What the search knows: visited vertices off the stack have walks that end, vertices on the
  stack lead to the current one.\<close>

definition search_ok :: "(nat \<Rightarrow> nat option) \<Rightarrow> nat \<Rightarrow> bool list \<Rightarrow> bool list \<Rightarrow> bool" where
  "search_ok e n V S \<longleftrightarrow> length V = n \<and> length S = n \<and>
     (\<forall>v < n. S ! v \<longrightarrow> V ! v) \<and> (\<forall>v < n. V ! v \<longrightarrow> \<not> S ! v \<longrightarrow> walk_ends e v)"

lemma dfs_correct:
  assumes g: "graph_of n e g"
  shows "search_ok e n V S \<Longrightarrow> unat node < n \<Longrightarrow> \<not> V ! unat node \<Longrightarrow>
     \<forall>v < n. S ! v \<longrightarrow> (v, unat node) \<in> (edge_rel e)\<^sup>+ \<Longrightarrow> unseen V \<le> fuel \<Longrightarrow>
     (\<exists>V' S'. dfs fuel g node V S = ok (True, V', S') \<and> (\<exists>v. (v, v) \<in> (edge_rel e)\<^sup>+)) \<or>
     (\<exists>V'. dfs fuel g node V S = ok (False, V', S) \<and> search_ok e n V' S \<and> V' ! unat node \<and>
           (\<forall>v < n. V ! v \<longrightarrow> V' ! v)) \<or>
     (dfs fuel g node V S = fail IndexOutOfRange \<and> \<not> edges_in_range n e)"
proof (induction fuel arbitrary: node V S)
  case 0
  then have "unseen V = Suc (unseen (V[unat node := True]))"
    by (intro unseen_update) (auto simp: search_ok_def)
  with 0 show ?case by simp
next
  case (Suc fuel)
  define k where "k = unat node"
  note lens = Suc.prems(1)[unfolded search_ok_def]
  have lV: "length V = n" and lS: "length S = n" using lens by auto
  have kn: "k < n" and nV: "\<not> V ! k" using Suc.prems(2,3) by (auto simp: k_def)
  then have nS: "\<not> S ! k" using lens by auto
  let ?V = "V[k := True]" and ?S = "S[k := True]"
  have restore: "?S[k := False] = S" using nS by (metis list_update_id list_update_overwrite)
  have fuel: "unseen ?V \<le> fuel" using Suc.prems(5) unseen_update[of k V] kn nV lV by simp
  have edge: "map_option unat (map_of (Edges g) node) = e k"
    using g by (simp add: graph_of_def k_def)
  show ?case
  proof (cases "map_of (Edges g) node")
    case None
    then have "walk_ends e k" using edge by (simp add: walk_ends.last)
    then have "search_ok e n ?V S"
      using lens nS kn by (auto simp: search_ok_def nth_list_update)
    moreover have "dfs (Suc fuel) g node V S = ok (False, ?V, S)"
      using None kn lV lS restore by (simp add: index_def k_def[symmetric] Let_def)
    moreover have "?V ! k" using kn lV by simp
    moreover have "\<forall>v < n. V ! v \<longrightarrow> ?V ! v" using kn lV by (auto simp: nth_list_update)
    ultimately show ?thesis unfolding k_def[symmetric] by blast
  next
    case (Some r)
    define j where "j = unat r"
    have e: "e k = Some j" using edge Some by (simp add: j_def)
    have kj: "(k, j) \<in> edge_rel e" using e by (simp add: edge_rel_def)
    consider (out) "\<not> j < n" | (off) "j < n" "\<not> ?V ! j" | (on) "j < n" "?V ! j" by blast
    then show ?thesis
    proof cases
      case out
      then have "dfs (Suc fuel) g node V S = fail IndexOutOfRange"
        using Some kn lV lS unfolding k_def j_def by (simp add: index_def Let_def)
      moreover have "\<not> edges_in_range n e" using e out by (auto simp: edges_in_range_def)
      ultimately show ?thesis by blast
    next
      case off
      note jn = off(1) and False = off(2)
      have sk: "search_ok e n ?V ?S"
        using lens kn by (auto simp: search_ok_def nth_list_update)
      have reach: "\<forall>v < n. ?S ! v \<longrightarrow> (v, unat r) \<in> (edge_rel e)\<^sup>+"
      proof (intro allI impI)
        fix v assume v: "v < n" "?S ! v"
        show "(v, unat r) \<in> (edge_rel e)\<^sup>+"
        proof (cases "v = k")
          case True
          with kj show ?thesis by (auto simp: j_def)
        next
          case False
          with v have "(v, k) \<in> (edge_rel e)\<^sup>+" using Suc.prems(4) by (simp add: k_def)
          then show ?thesis using kj unfolding j_def by (rule trancl_into_trancl)
        qed
      qed
      have unfold: "dfs (Suc fuel) g node V S =
          bindE (dfs fuel g r ?V ?S) (\<lambda>(cycle, V2, S2).
            if cycle then ok (True, V2, S2) else ok (False, V2, S2[k := False]))"
        using Some kn lV lS False jn unfolding k_def j_def by (simp add: index_def Let_def)
      consider (cyc) V' S' where "dfs fuel g r ?V ?S = ok (True, V', S')"
          "\<exists>v. (v, v) \<in> (edge_rel e)\<^sup>+"
        | (acyc) V' where "dfs fuel g r ?V ?S = ok (False, V', ?S)" "search_ok e n V' ?S"
          "V' ! j" "\<forall>v < n. ?V ! v \<longrightarrow> V' ! v"
        | (out) "dfs fuel g r ?V ?S = fail IndexOutOfRange" "\<not> edges_in_range n e"
        using Suc.IH[OF sk _ _ reach fuel] jn False unfolding j_def[symmetric] by blast
      then show ?thesis
      proof cases
        case cyc
        then show ?thesis unfolding unfold by auto
      next
        case out
        then show ?thesis unfolding unfold by simp
      next
        case acyc
        have jS: "\<not> ?S ! j" if "j \<noteq> k"
          using that False sk jn by (auto simp: search_ok_def)
        have "j \<noteq> k" using False kn lV by auto
        then have "walk_ends e j" using acyc(2,3) jS jn by (auto simp: search_ok_def)
        with e have wk: "walk_ends e k" by (rule walk_ends.step)
        have "V' ! k" using acyc(4) kn lV by simp
        have "search_ok e n V' S"
          unfolding search_ok_def
        proof (intro conjI allI impI)
          show "length V' = n" using acyc(2) by (simp add: search_ok_def)
          show "length S = n" by (rule lS)
        next
          fix v assume v: "v < n" "S ! v"
          then have "?S ! v" using lS by (cases "v = k") auto
          with v(1) show "V' ! v" using acyc(2) by (simp add: search_ok_def)
        next
          fix v assume v: "v < n" "V' ! v" "\<not> S ! v"
          show "walk_ends e v"
          proof (cases "v = k")
            case False
            with v acyc(2) show ?thesis by (simp add: search_ok_def)
          qed (use wk in simp)
        qed
        moreover have "dfs (Suc fuel) g node V S = ok (False, V', S)"
          unfolding unfold using acyc(1) restore by simp
        moreover have "\<forall>v < n. V ! v \<longrightarrow> ?V ! v" using lV kn by (auto simp: nth_list_update)
        then have "\<forall>v < n. V ! v \<longrightarrow> V' ! v" using acyc(4) by blast
        ultimately show ?thesis using \<open>V' ! k\<close> unfolding k_def[symmetric] by blast
      qed
    next
      case on
      note jn = on(1) and True = on(2)
      have unfold: "dfs (Suc fuel) g node V S =
          (if ?S ! j then ok (True, ?V, ?S) else ok (False, ?V, S))"
        using Some kn lV lS True jn restore
        by (simp add: index_def k_def[symmetric] j_def[symmetric] Let_def)
      show ?thesis
      proof (cases "?S ! j")
        case onS: True
        have "(j, j) \<in> (edge_rel e)\<^sup>+"
        proof (cases "j = k")
          case True
          with kj show ?thesis by auto
        next
          case False
          with onS have "(j, k) \<in> (edge_rel e)\<^sup>+" using Suc.prems(4) jn by (simp add: k_def)
          with kj show ?thesis by (blast intro: trancl_into_trancl)
        qed
        then show ?thesis using onS unfolding unfold by auto
      next
        case offS: False
        then have jk: "j \<noteq> k" using kn lS by auto
        then have "V ! j" "\<not> S ! j" using True offS by simp_all
        then have "walk_ends e j" using lens jn by auto
        with e have wk: "walk_ends e k" by (rule walk_ends.step)
        then have "search_ok e n ?V S"
          using lens kn nS by (auto simp: search_ok_def nth_list_update)
        moreover have "?V ! k" using kn lV by simp
        moreover have "\<forall>v < n. V ! v \<longrightarrow> ?V ! v" using kn lV by (auto simp: nth_list_update)
        ultimately show ?thesis using offS unfolding unfold k_def[symmetric] by auto
      qed
    qed
  qed
qed

lemma IsCycleDetected_loop_correct:
  assumes g: "graph_of n e g"
  shows "search_ok e n V (replicate n False) \<Longrightarrow> \<forall>v \<in> set nodes. unat v < n \<Longrightarrow>
     (IsCycleDetected_loop g nodes V (replicate n False) = ok True \<and> (\<exists>v. (v, v) \<in> (edge_rel e)\<^sup>+)) \<or>
     (IsCycleDetected_loop g nodes V (replicate n False) = ok False \<and>
      (\<forall>v \<in> set nodes. walk_ends e (unat v))) \<or>
     (IsCycleDetected_loop g nodes V (replicate n False) = fail IndexOutOfRange \<and>
      \<not> edges_in_range n e)"
proof (induction nodes arbitrary: V)
  case (Cons v nodes)
  let ?S = "replicate n False"
  have vn: "unat v < n" and lV: "length V = n" using Cons.prems by (auto simp: search_ok_def)
  have ln: "length (Vertices g) = n" using g by (simp add: graph_of_def)
  show ?case
  proof (cases "V ! unat v")
    case True
    then have "walk_ends e (unat v)" using Cons.prems(1) vn by (simp add: search_ok_def)
    then show ?thesis using Cons True vn lV by (auto simp: index_def)
  next
    case False
    have "unseen V \<le> Suc n" using unseen_le[of V] lV by simp
    then consider (cyc) V' S' where "dfs (Suc n) g v V ?S = ok (True, V', S')"
        "\<exists>v. (v, v) \<in> (edge_rel e)\<^sup>+"
      | (acyc) V' where "dfs (Suc n) g v V ?S = ok (False, V', ?S)" "search_ok e n V' ?S"
        "V' ! unat v"
      | (out) "dfs (Suc n) g v V ?S = fail IndexOutOfRange" "\<not> edges_in_range n e"
      using dfs_correct[OF g Cons.prems(1) vn False, of "Suc n"] by auto
    then show ?thesis
    proof cases
      case cyc
      then show ?thesis using False vn lV ln by (simp add: index_def del: dfs.simps)
    next
      case out
      then show ?thesis using False vn lV ln by (simp add: index_def del: dfs.simps)
    next
      case acyc
      then have "walk_ends e (unat v)" using vn by (simp add: search_ok_def)
      then show ?thesis
        using Cons.IH[OF acyc(2)] Cons.prems(2) acyc(1) False vn lV ln
        by (auto simp: index_def simp del: dfs.simps)
    qed
  qed
qed simp

lemma IsCycleDetected_correct:
  assumes g: "graph_of n e g"
  shows "(IsCycleDetected g = ok True \<and> (\<exists>v. (v, v) \<in> (edge_rel e)\<^sup>+)) \<or>
         (IsCycleDetected g = ok False \<and> (\<forall>v. walk_ends e v)) \<or>
         (IsCycleDetected g = fail IndexOutOfRange \<and> \<not> edges_in_range n e)"
proof -
  have n: "n < 2 ^ 16" and V: "Vertices g = map of_nat [0..<n]" using g by (auto simp: graph_of_def)
  have unat: "v < n \<Longrightarrow> unat (of_nat v :: 16 word) = v" for v
    using n by (simp add: unsigned_of_nat take_bit_eq_mod)
  have "search_ok e n (replicate n False) (replicate n False)" by (simp add: search_ok_def)
  moreover have "\<forall>v \<in> set (Vertices g). unat v < n" by (auto simp: V unat)
  moreover have "walk_ends e v" if "\<forall>v \<in> set (Vertices g). walk_ends e (unat v)" for v
  proof (cases "v < n")
    case True
    then have "(of_nat v :: 16 word) \<in> set (Vertices g)" by (auto simp: V)
    then have "walk_ends e (unat (of_nat v :: 16 word))" using that by blast
    then show ?thesis using True by (simp add: unat)
  next
    case False
    then have "e v = None" using g by (cases "e v") (auto simp: graph_of_def)
    then show ?thesis by (rule walk_ends.last)
  qed
  ultimately show ?thesis
    using IsCycleDetected_loop_correct[OF g, of "replicate n False" "Vertices g"]
    by (auto simp: IsCycleDetected_def V)
qed

lemma edges_in_range_target:
  assumes "references_ok blocks" and "aliases_in_range blocks"
  shows "edges_in_range (length blocks) (unlock_target blocks)"
  unfolding edges_in_range_def
proof (intro allI impI)
  fix v w assume t: "unlock_target blocks v = Some w"
  then have "v < length blocks" by (rule unlock_target_length)
  then have "blocks ! v \<in> set blocks" by simp
  with t assms \<open>v < length blocks\<close> show "w < length blocks"
    by (cases "blocks ! v") (auto simp: unlock_target_def references_ok_def aliases_in_range_def)
qed

text \<open>The check returns for all blocks with references in range, and answers whether some chain
  of references comes back to its start.\<close>

lemma checkReferenceCycle_cases:
  assumes "length blocks \<le> MaxInputCount" and "references_ok blocks"
  shows "(checkReferenceCycle blocks = ok (Inr True) \<and>
            (\<exists>i. (i, i) \<in> (edge_rel (unlock_target blocks))\<^sup>+)) \<or>
         (checkReferenceCycle blocks = ok (Inr False) \<and> (\<forall>i. walk_ends (unlock_target blocks) i)) \<or>
         (checkReferenceCycle blocks = fail IndexOutOfRange \<and> \<not> aliases_in_range blocks)"
proof -
  obtain g where "NewUnlockGraph blocks = ok (Inr g)"
      and "graph_of (length blocks) (unlock_target blocks) g"
    using NewUnlockGraph_ok[OF assms] by blast
  then show ?thesis
    using IsCycleDetected_correct[of "length blocks" "unlock_target blocks" g]
      edges_in_range_target[OF assms(2)]
    by (auto simp: checkReferenceCycle_def)
qed

lemma checkReferenceCycle_False:
  assumes "checkReferenceCycle blocks = ok (Inr False)"
  shows "walk_ends (unlock_target blocks) i" and "references_ok blocks"
    and "length blocks \<le> MaxInputCount"
proof -
  obtain g where g: "NewUnlockGraph blocks = ok (Inr g)"
    using assms unfolding checkReferenceCycle_def bindE_eq_Inr_iff by (metis old.sum.exhaust sum.simps(4,5) Inl_Inr_False Inr_inject)
  note props = NewUnlockGraph_Inr[OF g]
  then show "references_ok blocks" "length blocks \<le> MaxInputCount" by auto
  show "walk_ends (unlock_target blocks) i"
    using checkReferenceCycle_cases[OF props] assms by auto
qed

text \<open>C21: The cycle check of the unlock blocks terminates without a panic when every reference is
  in range and reports a cycle exactly when following the references from some block leads back to
  that block.\<close>

theorem unlock_cycle_check_exact:
  assumes "length blocks \<le> MaxInputCount" and "references_ok blocks" and "aliases_in_range blocks"
  shows "checkReferenceCycle blocks =
         ok (Inr (\<exists>i. (i, i) \<in> (edge_rel (unlock_target blocks))\<^sup>+))"
  using checkReferenceCycle_cases[OF assms(1,2)] assms(3) walk_ends_no_cycle by fastforce

lemma unlock_cycle_check_exact_witness:
  "checkReferenceCycle [AliasUnlockBlock 1, AliasUnlockBlock 0, ReferenceUnlockBlock 0] =
     ok (Inr (\<exists>i. (i, i) \<in> (edge_rel (unlock_target
       [AliasUnlockBlock 1, AliasUnlockBlock 0, ReferenceUnlockBlock 0]))\<^sup>+)) \<and>
   checkReferenceCycle [AliasUnlockBlock 1, AliasUnlockBlock 0, ReferenceUnlockBlock 0] = ok (Inr True)"
  by (intro conjI unlock_cycle_check_exact)
    (auto simp: MaxInputCount_def references_ok_def aliases_in_range_def, code_simp)

end
