(* ===== verification/VM.thy ===== *)
theory VM
  imports Unlock UnlockGraph
begin

text \<open>
  Transactions and their execution (packages/core/ledger/vm/devnetvm/utils.go, transaction.go,
  vm.go).

  consumedCoins is an association list; the order in which range visits a Go map is the parameter
  rng, of which the lemmas assume only that it permutes the entries.  The consumers passed to
  ForEach capture the named result valid: it is part of the state they thread.  A return of the
  result False in the middle of a loop is None.
\<close>

section \<open>Balances\<close>

definition consumeCoin :: "Color \<Rightarrow> uint64 \<Rightarrow> coins \<times> bool \<Rightarrow> bool \<times> coins \<times> bool" where
  "consumeCoin color balance s =
     (case s of (consumedCoins, _) \<Rightarrow>
        (case SafeAddUint64 (coin_at consumedCoins color) balance of (added, valid) \<Rightarrow>
           (valid, AList.update color added consumedCoins, valid)))"

fun consumeInputs ::
    "('m, 'z) orderedmap_scheme \<Rightarrow> 'm Output list \<Rightarrow> coins \<times> bool \<Rightarrow> (coins \<times> bool) option" where
  "consumeInputs om [] s = Some s"
| "consumeInputs om (inp # inputs) s =
     (let s1 = ColoredBalances_ForEach om (Output_Balances om inp) consumeCoin s
      in if \<not> snd s1 then None else consumeInputs om inputs s1)"

definition spendCoin ::
    "Color \<Rightarrow> uint64 \<Rightarrow> (coins \<times> uint64) \<times> bool \<Rightarrow> bool \<times> (coins \<times> uint64) \<times> bool" where
  "spendCoin color balance s =
     (case s of ((consumedCoins, recoloredCoins), _) \<Rightarrow>
        if color = ColorZIPP \<or> color = ColorMint
        then (case SafeAddUint64 recoloredCoins balance of (added, valid) \<Rightarrow>
                (valid, (consumedCoins, added), valid))
        else (case SafeSubUint64 (coin_at consumedCoins color) balance of (diff, valid) \<Rightarrow>
                (valid, (AList.update color diff consumedCoins, recoloredCoins), valid)))"

fun spendOutputs ::
    "('m, 'z) orderedmap_scheme \<Rightarrow> 'm Output list \<Rightarrow> (coins \<times> uint64) \<times> bool \<Rightarrow>
     ((coins \<times> uint64) \<times> bool) option" where
  "spendOutputs om [] s = Some s"
| "spendOutputs om (out # outputs) s =
     (let s1 = ColoredBalances_ForEach om (Output_Balances om out) spendCoin s
      in if \<not> snd s1 then None else spendOutputs om outputs s1)"

fun sumUnspent :: "coins \<Rightarrow> uint64 \<Rightarrow> uint64 option" where
  "sumUnspent [] unspentCoins = Some unspentCoins"
| "sumUnspent ((_, remainingBalance) # rest) unspentCoins =
     (case SafeAddUint64 unspentCoins remainingBalance of (added, valid) \<Rightarrow>
        if \<not> valid then None else sumUnspent rest added)"

definition TransactionBalancesValid ::
    "('m, 'z) orderedmap_scheme \<Rightarrow> (coins \<Rightarrow> coins) \<Rightarrow> 'm Output list \<Rightarrow> 'm Output list \<Rightarrow> bool" where
  "TransactionBalancesValid om rng inputs outputs =
     (case consumeInputs om inputs ([], False) of
        None \<Rightarrow> False
      | Some (consumedCoins, valid) \<Rightarrow>
          (case spendOutputs om outputs ((consumedCoins, 0), valid) of
             None \<Rightarrow> False
           | Some ((consumedCoins1, recoloredCoins), _) \<Rightarrow>
               (case sumUnspent (rng consumedCoins1) 0 of
                  None \<Rightarrow> False
                | Some unspentCoins \<Rightarrow> unspentCoins = recoloredCoins)))"

section \<open>Unlock blocks\<close>

datatype vm_error =
    SemanticallyInvalid graph_error
  | CyclicUnlockBlocks
  | UnlockFailed unlock_error
  | BalancesInvalid
  | NotAuthorized
  | AliasInitialStateInvalid
  | UnlockReferencesNonExistent nat
  | DecodeFailed

fun unlockInputs ::
    "('m, 'z) vm_env_scheme \<Rightarrow> 'm Transaction \<Rightarrow> 'm Output list \<Rightarrow> nat \<Rightarrow> 'm Output list \<Rightarrow>
     (bool \<times> vm_error option) go" where
  "unlockInputs env tx inputs i [] = ok (True, None)"
| "unlockInputs env tx inputs i (inp # rest) =
     bindE (index (UnlockBlocks tx) i) (\<lambda>block.
     bindE (case block of
              ReferenceUnlockBlock r \<Rightarrow> index (UnlockBlocks tx) (unat r)
            | _ \<Rightarrow> ok block) (\<lambda>currentUnlockBlock.
     bindE (UnlockValid env inp (Essence tx) currentUnlockBlock inputs) (\<lambda>(unlockValid, unlockErr).
       if \<not> unlockValid \<or> unlockErr \<noteq> None then ok (False, map_option UnlockFailed unlockErr)
       else unlockInputs env tx inputs (Suc i) rest)))"

definition UnlockBlocksValidWithError ::
    "('m, 'z) vm_env_scheme \<Rightarrow> 'm Output list \<Rightarrow> 'm Transaction \<Rightarrow> (bool \<times> vm_error option) go" where
  "UnlockBlocksValidWithError env inputs tx =
     bindE (checkReferenceCycle (UnlockBlocks tx)) (\<lambda>r.
       case r of
         Inl err \<Rightarrow> ok (False, Some (SemanticallyInvalid err))
       | Inr cyclePresent \<Rightarrow>
           if cyclePresent then ok (False, Some CyclicUnlockBlocks)
           else unlockInputs env tx inputs 0 inputs)"

definition UnlockBlocksValid ::
    "('m, 'z) vm_env_scheme \<Rightarrow> 'm Output list \<Rightarrow> 'm Transaction \<Rightarrow> bool go" where
  "UnlockBlocksValid env inputs tx =
     bindE (UnlockBlocksValidWithError env inputs tx) (\<lambda>(unlockValid, unlockErr).
       ok (unlockValid \<and> unlockErr = None))"

section \<open>The initial state of aliases\<close>

fun gatherAliases ::
    "('m, 'z) crypto_scheme \<Rightarrow> 'm Output list \<Rightarrow> (AliasDigest \<times> 'm AliasOutput) list \<Rightarrow>
     (AliasDigest \<times> 'm AliasOutput) list option" where
  "gatherAliases cr [] found = Some found"
| "gatherAliases cr (AliasOutput alias # outs) found =
     (if map_of found (GetAliasAddress cr alias) \<noteq> None then None
      else gatherAliases cr outs (AList.update (GetAliasAddress cr alias) alias found))"
| "gatherAliases cr (_ # outs) found = gatherAliases cr outs found"

fun checkInitialStates ::
    "(AliasDigest \<times> 'm AliasOutput) list \<Rightarrow> (AliasDigest \<times> 'm AliasOutput) list \<Rightarrow> bool" where
  "checkInitialStates [] inputAliases = True"
| "checkInitialStates ((addy, output) # rest) inputAliases =
     (if map_of inputAliases addy \<noteq> None
      then checkInitialStates rest (AList.delete addy inputAliases)
      else if \<not> isOrigin output \<or> \<not> AliasAddress_IsNil (aliasAddress output) \<or> stateIndex output \<noteq> 0
      then False
      else checkInitialStates rest inputAliases)"

definition AliasInitialStateValid ::
    "('m, 'z) crypto_scheme \<Rightarrow> 'm Output list \<Rightarrow> 'm Transaction \<Rightarrow> bool" where
  "AliasInitialStateValid cr inputs tx =
     (case gatherAliases cr (ess_Outputs (Essence tx)) [] of
        None \<Rightarrow> False
      | Some outputAliases \<Rightarrow>
          if length outputAliases = 0 then True
          else (case gatherAliases cr inputs [] of
                  None \<Rightarrow> False
                | Some inputAliases \<Rightarrow> checkInitialStates outputAliases inputAliases))"

section \<open>Transactions\<close>

definition Transaction_ID :: "('m, 'z) vm_env_scheme \<Rightarrow> 'm Transaction \<Rightarrow> TransactionID" where
  "Transaction_ID env t =
     (if tx_ID t = EmptyTransactionID then NewIdentifier env (Transaction_Bytes env t) else tx_ID t)"

fun validateUnlockBlocks :: "16 word \<Rightarrow> nat \<Rightarrow> UnlockBlock list \<Rightarrow> vm_error option" where
  "validateUnlockBlocks maxIndex i [] = None"
| "validateUnlockBlocks maxIndex i (SignatureUnlockBlock _ # rest) =
     validateUnlockBlocks maxIndex (Suc i) rest"
| "validateUnlockBlocks maxIndex i (ReferenceUnlockBlock r # rest) =
     (if maxIndex < r then Some (UnlockReferencesNonExistent i)
      else validateUnlockBlocks maxIndex (Suc i) rest)"
| "validateUnlockBlocks maxIndex i (AliasUnlockBlock r # rest) =
     (if maxIndex < r then Some (UnlockReferencesNonExistent i)
      else validateUnlockBlocks maxIndex (Suc i) rest)"

definition validateTransaction :: "'m Transaction \<Rightarrow> vm_error option" where
  "validateTransaction tx =
     validateUnlockBlocks (word_of_int (int (length (ess_Inputs (Essence tx))) - 1)) 0 (UnlockBlocks tx)"

text \<open>SetOutputID: the identifiers of the outputs and the check that no alias controls itself.\<close>

fun SetOutputID_loop ::
    "('m, 'z) crypto_scheme \<Rightarrow> TransactionID \<Rightarrow> nat \<Rightarrow> 'm Output list \<Rightarrow> 'm Output list go" where
  "SetOutputID_loop cr txID i [] = ok []"
| "SetOutputID_loop cr txID i (out # outs) =
     (let output = Output_SetID out (NewOutputID txID (of_nat i))
      in bindE (case output of
                  AliasOutput alias \<Rightarrow>
                    bindE (deref (stateAddress alias)) (\<lambda>sa.
                      if Address_Equals sa (AliasAddress (GetAliasAddress cr alias))
                      then fail (Raised ''state address'')
                      else bindE (deref (GetGoverningAddress alias)) (\<lambda>ga.
                        if Address_Equals ga (AliasAddress (GetAliasAddress cr alias))
                        then fail (Raised ''governing address'')
                        else ok ()))
                | _ \<Rightarrow> ok ())
           (\<lambda>_. bindE (SetOutputID_loop cr txID (Suc i) outs) (\<lambda>outputs. ok (output # outputs))))"

definition SetOutputID ::
    "('m, 'z) crypto_scheme \<Rightarrow> 'm TransactionEssence \<Rightarrow> TransactionID \<Rightarrow> 'm TransactionEssence go" where
  "SetOutputID cr essence txID =
     bindE (SetOutputID_loop cr txID 0 (ess_Outputs essence)) (\<lambda>outs. ok (essence\<lparr>ess_Outputs := outs\<rparr>))"

definition NewTransactionEssence ::
    "8 word \<Rightarrow> gotime \<Rightarrow> bytes \<Rightarrow> bytes \<Rightarrow> OutputID list \<Rightarrow> 'm Output list \<Rightarrow> 'm TransactionEssence" where
  "NewTransactionEssence version timestamp accessPledgeID consensusPledgeID inputs outputs =
     \<lparr>Version = version, Timestamp = timestamp, AccessPledgeID = accessPledgeID,
      ConsensusPledgeID = consensusPledgeID, ess_Inputs = inputs, ess_Outputs = outputs,
      ess_Payload = None\<rparr>"

definition NewTransaction ::
    "('m, 'z) vm_env_scheme \<Rightarrow> 'm TransactionEssence \<Rightarrow> UnlockBlock list \<Rightarrow> 'm Transaction go" where
  "NewTransaction env essence unlockBlocks =
     (if length unlockBlocks \<noteq> length (ess_Inputs essence) then fail (Raised ''NewTransaction'')
      else let tx = \<lparr>tx_ID = EmptyTransactionID, Essence = essence, UnlockBlocks = unlockBlocks\<rparr>;
               txID = Transaction_ID env tx
           in bindE (SetOutputID env essence txID) (\<lambda>essence1.
                ok (tx\<lparr>tx_ID := txID, Essence := essence1\<rparr>)))"

definition Transaction_FromBytes ::
    "('m, 'z) vm_env_scheme \<Rightarrow> (bytes \<Rightarrow> 'm Transaction option) \<Rightarrow> bytes \<Rightarrow>
     (vm_error + 'm Transaction) go" where
  "Transaction_FromBytes env decode data =
     (case decode data of
        None \<Rightarrow> ok (Inl DecodeFailed)
      | Some tx \<Rightarrow>
          let txID = Transaction_ID env tx
          in bindE (SetOutputID env (Essence tx) txID) (\<lambda>essence1.
               ok (Inr (tx\<lparr>tx_ID := txID, Essence := essence1\<rparr>))))"

section \<open>Execution\<close>

fun executeOutputs ::
    "('m, 'z) crypto_scheme \<Rightarrow> TransactionID \<Rightarrow> nat \<Rightarrow> 'm Output list \<Rightarrow> 'm Output list go" where
  "executeOutputs cr txID i [] = ok []"
| "executeOutputs cr txID i (output # outs) =
     bindE (UpdateMintingColor cr (Output_SetID output (NewOutputID txID (of_nat i))))
       (\<lambda>updatedOutput. bindE (executeOutputs cr txID (Suc i) outs) (\<lambda>outputs.
          ok (updatedOutput # outputs)))"

definition executeTransaction ::
    "('m, 'z) vm_env_scheme \<Rightarrow> (coins \<Rightarrow> coins) \<Rightarrow> 'm Transaction \<Rightarrow> 'm Output list \<Rightarrow>
     (vm_error + 'm Output list) go" where
  "executeTransaction env rng tx inputs =
     (if \<not> TransactionBalancesValid env rng inputs (ess_Outputs (Essence tx))
      then ok (Inl BalancesInvalid)
      else bindE (UnlockBlocksValid env inputs tx) (\<lambda>unlocked.
        if \<not> unlocked then ok (Inl NotAuthorized)
        else if \<not> AliasInitialStateValid env inputs tx then ok (Inl AliasInitialStateInvalid)
        else bindE (executeOutputs env (Transaction_ID env tx) 0 (ess_Outputs (Essence tx)))
               (\<lambda>outputs. ok (Inr outputs))))"

end
