(* ===== verification/BalanceLaws.thy ===== *)
theory BalanceLaws
  imports VM
begin

text \<open>
  What TransactionBalancesValid decides.  Amounts are counted as natural numbers: amount c es is
  the amount of color c in a list of entries, worth es the amount of all colors.
\<close>

section \<open>Amounts\<close>

lemma unat64_less [simp]: "unat (x :: uint64) < 18446744073709551616"
  using unsigned_less[of x] by simp

definition amount :: "Color \<Rightarrow> coins \<Rightarrow> nat" where
  "amount c es = (\<Sum>(k, v)\<leftarrow>es. if k = c then unat v else 0)"

definition worth :: "coins \<Rightarrow> nat" where
  "worth es = (\<Sum>(k, v)\<leftarrow>es. unat v)"

definition colored_worth :: "coins \<Rightarrow> nat" where
  "colored_worth es = (\<Sum>(k, v)\<leftarrow>es. if k = ColorZIPP \<or> k = ColorMint then 0 else unat v)"

text \<open>The entries of all outputs of a list.\<close>

definition funds :: "('m, 'z) orderedmap_scheme \<Rightarrow> 'm Output list \<Rightarrow> coins" where
  "funds om outs = concat (map (\<lambda>out. om_entries om (Output_Balances om out)) outs)"

lemma amount_simps [simp]:
  "amount c [] = 0" "amount c ((k, v) # es) = (if k = c then unat v else 0) + amount c es"
  "amount c (es @ fs) = amount c es + amount c fs"
  by (simp_all add: amount_def)

lemma worth_simps [simp]:
  "worth [] = 0" "worth ((k, v) # es) = unat v + worth es" "worth (es @ fs) = worth es + worth fs"
  by (simp_all add: worth_def)

lemma colored_worth_simps [simp]:
  "colored_worth [] = 0"
  "colored_worth ((k, v) # es) =
     (if k = ColorZIPP \<or> k = ColorMint then 0 else unat v) + colored_worth es"
  "colored_worth (es @ fs) = colored_worth es + colored_worth fs"
  by (simp_all add: colored_worth_def)

lemma funds_simps [simp]:
  "funds om [] = []"
  "funds om (out # outs) = om_entries om (Output_Balances om out) @ funds om outs"
  by (simp_all add: funds_def)

lemma worth_split: "worth es = colored_worth es + amount ColorZIPP es + amount ColorMint es"
  by (induction es) auto

lemma worth_mset: "mset es = mset fs \<Longrightarrow> worth es = worth fs"
  unfolding worth_def by (metis mset_map sum_mset_sum_list)

lemma worth_update:
  "distinct (map fst m) \<Longrightarrow>
   worth (AList.update k v m) + unat (coin_at m k) = worth m + unat v"
proof (induction m)
  case (Cons x m)
  obtain k' v' where x: "x = (k', v')" by (cases x)
  show ?case
  proof (cases "k' = k")
    case True
    then show ?thesis by (simp add: x coin_at_def)
  next
    case False
    have "coin_at (x # m) k = coin_at m k" using False by (simp add: x coin_at_def)
    with Cons False show ?thesis by (simp add: x)
  qed
qed simp

section \<open>Consuming the inputs\<close>

definition fits :: "coins \<Rightarrow> coins \<Rightarrow> bool" where
  "fits m es \<longleftrightarrow> (\<forall>c. unat (coin_at m c) + amount c es < 2 ^ 64)"

text \<open>m1 is m with the amounts of es added.\<close>

definition consumed :: "coins \<Rightarrow> coins \<Rightarrow> coins \<Rightarrow> bool" where
  "consumed m es m1 \<longleftrightarrow> (\<forall>c. unat (coin_at m1 c) = unat (coin_at m c) + amount c es) \<and>
     worth m1 = worth m + worth es \<and> distinct (map fst m1)"

lemma consumed_Nil [simp]: "distinct (map fst m) \<Longrightarrow> consumed m [] m"
  by (simp add: consumed_def)

lemma consumed_trans: "consumed m es m1 \<Longrightarrow> consumed m1 fs m2 \<Longrightarrow> consumed m (es @ fs) m2"
  by (simp add: consumed_def)

lemma fits_Cons_iff:
  assumes "consumed m [(k, v)] m1"
  shows "fits m ((k, v) # es) \<longleftrightarrow> fits m1 es"
  using assms by (simp add: fits_def consumed_def add.assoc)

lemma fits_append_iff:
  assumes "consumed m es m1"
  shows "fits m (es @ fs) \<longleftrightarrow> fits m1 fs"
  using assms by (simp add: fits_def consumed_def add.assoc)

lemma fits_prefix: "fits m (es @ fs) \<Longrightarrow> fits m es"
  unfolding fits_def by (metis add.assoc add_lessD1 amount_simps(3))

lemma fits_Nil [simp]: "fits m []"
  by (simp add: fits_def)

lemma consumed_step:
  assumes "distinct (map fst m)" and "unat (coin_at m k) + unat v < 2 ^ 64"
  shows "consumed m [(k, v)] (AList.update k (coin_at m k + v) m)"
proof -
  have u: "unat (coin_at m k + v) = unat (coin_at m k) + unat v"
    using SafeAddUint64_valid(2)[OF assms(2)] by (simp add: SafeAddUint64_def)
  then show ?thesis
    using assms(1) worth_update[OF assms(1), of k "coin_at m k + v"]
    by (simp add: consumed_def)
qed

lemma ForEach_consumeCoin:
  assumes "distinct (map fst m)"
  shows "(fits m es \<and> (\<exists>m1. ForEach consumeCoin es (m, b) = (m1, es \<noteq> [] \<or> b) \<and> consumed m es m1)) \<or>
         (\<not> fits m es \<and> (\<exists>m1. ForEach consumeCoin es (m, b) = (m1, False)))"
  using assms
proof (induction es arbitrary: m b)
  case (Cons e es)
  obtain k v where e: "e = (k, v)" by (cases e)
  let ?m = "AList.update k (coin_at m k + v) m"
  show ?case
  proof (cases "unat (coin_at m k) + unat v < 2 ^ 64")
    case True
    note cr = consumed_step[OF Cons.prems True]
    then have "distinct (map fst ?m)" by (simp add: consumed_def)
    from Cons.IH[OF this, of True]
    consider m1 where "fits ?m es" "ForEach consumeCoin es (?m, True) = (m1, True)"
        "consumed ?m es m1"
      | m1 where "\<not> fits ?m es" "ForEach consumeCoin es (?m, True) = (m1, False)"
      by auto
    moreover have "ForEach consumeCoin (e # es) (m, b) = ForEach consumeCoin es (?m, True)"
      using True SafeAddUint64_valid(1)[of "coin_at m k" v]
      by (simp add: e consumeCoin_def SafeAddUint64_def)
    ultimately show ?thesis
      using fits_Cons_iff[OF cr, of es] consumed_trans[OF cr, of es] by cases (auto simp: e)
  next
    case False
    then have "\<not> fits m (e # es)"
      by (auto simp: fits_def e intro!: exI[of _ k])
    moreover have "ForEach consumeCoin (e # es) (m, b) = (?m, False)"
      using False SafeAddUint64_valid(1)[of "coin_at m k" v]
      by (simp add: e consumeCoin_def SafeAddUint64_def)
    ultimately show ?thesis by blast
  qed
qed simp

lemma consumeInputs_True:
  assumes "distinct (map fst m)"
  shows "(fits m (funds om inputs) \<and>
          (\<exists>m1. consumeInputs om inputs (m, True) = Some (m1, True) \<and> consumed m (funds om inputs) m1)) \<or>
         (\<not> fits m (funds om inputs) \<and> consumeInputs om inputs (m, True) = None)"
  using assms
proof (induction inputs arbitrary: m)
  case (Cons inp inputs)
  let ?es = "om_entries om (Output_Balances om inp)"
  from ForEach_consumeCoin[OF Cons.prems, of ?es True]
  consider m1 where "fits m ?es" "ForEach consumeCoin ?es (m, True) = (m1, True)" "consumed m ?es m1"
    | m1 where "\<not> fits m ?es" "ForEach consumeCoin ?es (m, True) = (m1, False)"
    by auto
  then show ?case
  proof cases
    case 1
    then have "distinct (map fst m1)" by (simp add: consumed_def)
    from Cons.IH[OF this] 1 show ?thesis
      using fits_append_iff[OF 1(3), of "funds om inputs"]
        consumed_trans[OF 1(3), of "funds om inputs"]
      by (auto simp: ColoredBalances_ForEach_def)
  next
    case 2
    moreover have "\<not> fits m (funds om (inp # inputs))"
      using 2(1) fits_prefix by auto
    ultimately show ?thesis by (simp add: ColoredBalances_ForEach_def)
  qed
qed simp

section \<open>Spending on the outputs\<close>

definition covers :: "coins \<Rightarrow> uint64 \<Rightarrow> coins \<Rightarrow> bool" where
  "covers m r es \<longleftrightarrow>
     (\<forall>c. c \<noteq> ColorZIPP \<longrightarrow> c \<noteq> ColorMint \<longrightarrow> amount c es \<le> unat (coin_at m c)) \<and>
     unat r + amount ColorZIPP es + amount ColorMint es < 2 ^ 64"

definition debited :: "coins \<Rightarrow> uint64 \<Rightarrow> coins \<Rightarrow> coins \<Rightarrow> uint64 \<Rightarrow> bool" where
  "debited m r es m1 r1 \<longleftrightarrow>
     (\<forall>c. c \<noteq> ColorZIPP \<longrightarrow> c \<noteq> ColorMint \<longrightarrow>
        unat (coin_at m1 c) + amount c es = unat (coin_at m c)) \<and>
     unat r1 = unat r + amount ColorZIPP es + amount ColorMint es \<and>
     worth m1 + colored_worth es = worth m \<and> distinct (map fst m1)"

lemma debited_trans:
  assumes "debited m r es m1 r1" and "debited m1 r1 fs m2 r2"
  shows "debited m r (es @ fs) m2 r2"
proof -
  have "unat (coin_at m2 c) + amount c (es @ fs) = unat (coin_at m c)"
    if "c \<noteq> ColorZIPP" "c \<noteq> ColorMint" for c
  proof -
    have "unat (coin_at m1 c) + amount c es = unat (coin_at m c)"
        "unat (coin_at m2 c) + amount c fs = unat (coin_at m1 c)"
      using assms that by (auto simp: debited_def)
    then show ?thesis by simp
  qed
  then show ?thesis using assms by (simp add: debited_def)
qed

lemma covers_append_iff:
  assumes "debited m r es m1 r1"
  shows "covers m r (es @ fs) \<longleftrightarrow> covers m1 r1 fs"
proof -
  have "amount c es + amount c fs \<le> unat (coin_at m c) \<longleftrightarrow> amount c fs \<le> unat (coin_at m1 c)"
    if "c \<noteq> ColorZIPP" "c \<noteq> ColorMint" for c
    using assms that by (simp add: debited_def) (metis add.commute nat_add_left_cancel_le)
  then show ?thesis using assms by (auto simp: covers_def debited_def)
qed

lemma covers_prefix: "covers m r (es @ fs) \<Longrightarrow> covers m r es"
  unfolding covers_def by (auto intro: add_leD1)

lemma covers_Nil [simp]: "covers m r []"
  by (simp add: covers_def)

lemma debited_Nil [simp]: "distinct (map fst m) \<Longrightarrow> debited m r [] m r"
  by (simp add: debited_def)

lemma spendCoin_step:
  assumes "distinct (map fst m)"
  shows "(covers m r [(k, v)] \<and>
          (\<exists>m1 r1. spendCoin k v ((m, r), b) = (True, (m1, r1), True) \<and> debited m r [(k, v)] m1 r1)) \<or>
         (\<not> covers m r [(k, v)] \<and> (\<exists>s. spendCoin k v ((m, r), b) = (False, s, False)))"
proof (cases "k = ColorZIPP \<or> k = ColorMint")
  case True
  have cov: "covers m r [(k, v)] \<longleftrightarrow> unat r + unat v < 2 ^ 64"
    using True by (auto simp: covers_def)
  show ?thesis
  proof (cases "unat r + unat v < 2 ^ 64")
    case t: True
    have "unat (r + v) = unat r + unat v"
      using SafeAddUint64_valid(2)[OF t] by (simp add: SafeAddUint64_def)
    then have "debited m r [(k, v)] m (r + v)"
      using True assms by (auto simp: debited_def)
    moreover have "spendCoin k v ((m, r), b) = (True, (m, r + v), True)"
      using True t SafeAddUint64_valid(1)[of r v] by (simp add: spendCoin_def SafeAddUint64_def)
    ultimately show ?thesis using cov t by blast
  next
    case f: False
    then have "spendCoin k v ((m, r), b) = (False, (m, r + v), False)"
      using True SafeAddUint64_valid(1)[of r v] by (simp add: spendCoin_def SafeAddUint64_def)
    with cov f show ?thesis by blast
  qed
next
  case False
  let ?m = "AList.update k (coin_at m k - v) m"
  have cov: "covers m r [(k, v)] \<longleftrightarrow> unat v \<le> unat (coin_at m k)"
    using False by (auto simp: covers_def)
  show ?thesis
  proof (cases "unat v \<le> unat (coin_at m k)")
    case t: True
    have "unat (coin_at m k - v) = unat (coin_at m k) - unat v"
      using SafeSubUint64_valid(2)[OF t] by (simp add: SafeSubUint64_def)
    then have "debited m r [(k, v)] ?m r"
      using False assms t worth_update[OF assms, of k "coin_at m k - v"] by (auto simp: debited_def)
    moreover have "spendCoin k v ((m, r), b) = (True, (?m, r), True)"
      using False t SafeSubUint64_valid(1)[of "coin_at m k" v]
      by (simp add: spendCoin_def SafeSubUint64_def)
    ultimately show ?thesis using cov t by blast
  next
    case f: False
    then have "spendCoin k v ((m, r), b) = (False, (?m, r), False)"
      using False SafeSubUint64_valid(1)[of "coin_at m k" v]
      by (simp add: spendCoin_def SafeSubUint64_def)
    with cov f show ?thesis by blast
  qed
qed

lemma ForEach_spendCoin:
  assumes "distinct (map fst m)"
  shows "(covers m r es \<and> (\<exists>m1 r1. ForEach spendCoin es ((m, r), True) = ((m1, r1), True) \<and>
            debited m r es m1 r1)) \<or>
         (\<not> covers m r es \<and> (\<exists>s. ForEach spendCoin es ((m, r), True) = (s, False)))"
  using assms
proof (induction es arbitrary: m r)
  case (Cons e es)
  obtain k v where e: "e = (k, v)" by (cases e)
  from spendCoin_step[OF Cons.prems, of r k v True]
  consider m1 r1 where "spendCoin k v ((m, r), True) = (True, (m1, r1), True)"
      "debited m r [(k, v)] m1 r1"
    | s where "\<not> covers m r [(k, v)]" "spendCoin k v ((m, r), True) = (False, s, False)"
    by blast
  then show ?case
  proof cases
    case 1
    then have "distinct (map fst m1)" by (simp add: debited_def)
    from Cons.IH[OF this, of r1] 1(1) show ?thesis
      using covers_append_iff[OF 1(2), of es] debited_trans[OF 1(2), of es] by (auto simp: e)
  next
    case 2
    then have "\<not> covers m r (e # es)" using covers_prefix[of m r "[(k, v)]" es] by (auto simp: e)
    with 2 show ?thesis by (simp add: e)
  qed
qed simp

lemma spendOutputs_True:
  assumes "distinct (map fst m)"
  shows "(covers m r (funds om outs) \<and> (\<exists>m1 r1. spendOutputs om outs ((m, r), True) =
            Some ((m1, r1), True) \<and> debited m r (funds om outs) m1 r1)) \<or>
         (\<not> covers m r (funds om outs) \<and> spendOutputs om outs ((m, r), True) = None)"
  using assms
proof (induction outs arbitrary: m r)
  case (Cons out outs)
  let ?es = "om_entries om (Output_Balances om out)"
  from ForEach_spendCoin[OF Cons.prems, of r ?es]
  consider m1 r1 where "ForEach spendCoin ?es ((m, r), True) = ((m1, r1), True)"
      "debited m r ?es m1 r1"
    | s where "\<not> covers m r ?es" "ForEach spendCoin ?es ((m, r), True) = (s, False)"
    by blast
  then show ?case
  proof cases
    case 1
    then have "distinct (map fst m1)" by (simp add: debited_def)
    from Cons.IH[OF this, of r1] 1(1) show ?thesis
      using covers_append_iff[OF 1(2), of "funds om outs"]
        debited_trans[OF 1(2), of "funds om outs"]
      by (auto simp: ColoredBalances_ForEach_def)
  next
    case 2
    then have "\<not> covers m r (funds om (out # outs))" using covers_prefix by auto
    with 2 show ?thesis by (simp add: ColoredBalances_ForEach_def)
  qed
qed simp

lemma sumUnspent_iff:
  "(\<exists>w. sumUnspent es u = Some w \<and> w = x) \<longleftrightarrow> unat u + worth es = unat x"
proof (induction es arbitrary: u)
  case (Cons e es)
  obtain k v where e: "e = (k, v)" by (cases e)
  have x: "unat x < 2 ^ 64" by simp
  show ?case
  proof (cases "unat u + unat v < 2 ^ 64")
    case True
    then have "unat (u + v) = unat u + unat v"
      using SafeAddUint64_valid(2)[OF True] by (simp add: SafeAddUint64_def)
    then show ?thesis
      using Cons.IH[of "u + v"] True SafeAddUint64_valid(1)[of u v]
      by (simp add: e SafeAddUint64_def add.assoc)
  next
    case False
    then have "\<not> unat u + (unat v + worth es) = unat x" using x by linarith
    then show ?thesis
      using False SafeAddUint64_valid(1)[of u v] by (simp add: e SafeAddUint64_def)
  qed
qed (auto intro: unsigned_word_eqI)

section \<open>The decision\<close>

lemma TransactionBalancesValid_iff:
  assumes "\<And>m. mset (rng m) = mset m" and "om_entries om (Output_Balances om inp) \<noteq> []"
  shows "TransactionBalancesValid om rng (inp # inputs) outputs \<longleftrightarrow>
     (\<forall>c. amount c (funds om (inp # inputs)) < 2 ^ 64) \<and>
     (\<forall>c. c \<noteq> ColorZIPP \<longrightarrow> c \<noteq> ColorMint \<longrightarrow>
        amount c (funds om outputs) \<le> amount c (funds om (inp # inputs))) \<and>
     amount ColorZIPP (funds om outputs) + amount ColorMint (funds om outputs) < 2 ^ 64 \<and>
     worth (funds om (inp # inputs)) = worth (funds om outputs)"
proof -
  let ?ins = "funds om (inp # inputs)" and ?outs = "funds om outputs"
  have flag: "ForEach consumeCoin es (m, False) = ForEach consumeCoin es (m, True)" if "es \<noteq> []"
    for es m using that by (cases es) (auto simp: consumeCoin_def)
  have start: "consumeInputs om (inp # inputs) ([], False) = consumeInputs om (inp # inputs) ([], True)"
    by (simp add: ColoredBalances_ForEach_def flag[OF assms(2)])
  have fits: "fits [] ?ins \<longleftrightarrow> (\<forall>c. amount c ?ins < 2 ^ 64)"
    by (simp add: fits_def)
  have "distinct (map fst ([] :: coins))" by simp
  from consumeInputs_True[OF this, of om "inp # inputs"]
  consider m1 where "fits [] ?ins" "consumeInputs om (inp # inputs) ([], False) = Some (m1, True)"
      "consumed [] ?ins m1"
    | "\<not> fits [] ?ins" "consumeInputs om (inp # inputs) ([], False) = None"
    unfolding start[symmetric] by (elim disjE exE conjE) auto
  then show ?thesis
  proof cases
    case 1
    have am: "unat (coin_at m1 c) = amount c ?ins" for c using 1(3) by (simp add: consumed_def)
    have d: "distinct (map fst m1)" and w: "worth m1 = worth ?ins"
      using 1(3) by (simp_all add: consumed_def)
    have cov: "covers m1 0 ?outs \<longleftrightarrow>
        (\<forall>c. c \<noteq> ColorZIPP \<longrightarrow> c \<noteq> ColorMint \<longrightarrow> amount c ?outs \<le> amount c ?ins) \<and>
        amount ColorZIPP ?outs + amount ColorMint ?outs < 2 ^ 64"
      by (simp add: covers_def am)
    from spendOutputs_True[OF d, of 0 om outputs]
    consider m2 r where "covers m1 0 ?outs"
        "spendOutputs om outputs ((m1, 0), True) = Some ((m2, r), True)" "debited m1 0 ?outs m2 r"
      | "\<not> covers m1 0 ?outs" "spendOutputs om outputs ((m1, 0), True) = None"
      by (elim disjE exE conjE) auto
    then show ?thesis
    proof cases
      case sp: 1
      have "TransactionBalancesValid om rng (inp # inputs) outputs \<longleftrightarrow>
          (\<exists>u. sumUnspent (rng m2) 0 = Some u \<and> u = r)"
        unfolding TransactionBalancesValid_def 1(2)
        by (simp add: sp(2) split: option.split)
      also have "\<dots> \<longleftrightarrow> worth m2 = unat r"
        using worth_mset[OF assms(1), of m2] by (simp add: sumUnspent_iff)
      also have "\<dots> \<longleftrightarrow> worth ?ins = worth ?outs"
        using sp(3) w worth_split[of ?outs] by (auto simp: debited_def)
      finally show ?thesis using 1(1) sp(1) unfolding fits cov by blast
    next
      case sp: 2
      then have "\<not> TransactionBalancesValid om rng (inp # inputs) outputs"
        unfolding TransactionBalancesValid_def 1(2) by simp
      with sp(1) show ?thesis unfolding cov by blast
    qed
  next
    case 2
    then have "\<not> TransactionBalancesValid om rng (inp # inputs) outputs"
      unfolding TransactionBalancesValid_def by simp
    with 2(1) show ?thesis unfolding fits by blast
  qed
qed

lemma TransactionBalancesValid_first:
  assumes "om_entries om (Output_Balances om inp) = []"
  shows "\<not> TransactionBalancesValid om rng (inp # inputs) outputs"
  using assms by (simp add: TransactionBalancesValid_def ColoredBalances_ForEach_def)

text \<open>What the checks guarantee, in the form the execution uses.\<close>

lemma TransactionBalancesValid_conserves:
  assumes "\<And>m. mset (rng m) = mset m" and "TransactionBalancesValid om rng inputs outputs"
    and "inputs \<noteq> []"
  shows "worth (funds om inputs) = worth (funds om outputs)"
    and "c \<noteq> ColorZIPP \<Longrightarrow> c \<noteq> ColorMint \<Longrightarrow>
         amount c (funds om outputs) \<le> amount c (funds om inputs)"
proof -
  obtain inp rest where i: "inputs = inp # rest" using assms(3) by (cases inputs) auto
  have "om_entries om (Output_Balances om inp) \<noteq> []"
    using TransactionBalancesValid_first assms(2) unfolding i by blast
  note iff = TransactionBalancesValid_iff[OF assms(1) this, of rest outputs]
  show "worth (funds om inputs) = worth (funds om outputs)"
    using assms(2) iff unfolding i by blast
  show "c \<noteq> ColorZIPP \<Longrightarrow> c \<noteq> ColorMint \<Longrightarrow>
      amount c (funds om outputs) \<le> amount c (funds om inputs)"
    using assms(2) iff unfolding i by blast
qed

text \<open>C20: The balance check of a transaction with inputs accepts exactly when the first input has a balance, no color
  overflows on the input side, no color but the uncolored coins and the coins to be minted is created, the sum of those two
  does not overflow, and the inputs are worth what the outputs are worth.  (If the balances of the first input are
  empty, the result is still false when the check of that input ends, so that even a transaction that conserves
  its funds is refused.)  The answer does not depend on the order in which the map of consumed coins is visited.\<close>

theorem balances_valid_exact:
  assumes "\<And>m. mset (rng m) = mset m"
  shows "TransactionBalancesValid om rng (inp # inputs) outputs \<longleftrightarrow>
     om_entries om (Output_Balances om inp) \<noteq> [] \<and>
     (\<forall>c. amount c (funds om (inp # inputs)) < 2 ^ 64) \<and>
     (\<forall>c. c \<noteq> ColorZIPP \<longrightarrow> c \<noteq> ColorMint \<longrightarrow>
        amount c (funds om outputs) \<le> amount c (funds om (inp # inputs))) \<and>
     amount ColorZIPP (funds om outputs) + amount ColorMint (funds om outputs) < 2 ^ 64 \<and>
     worth (funds om (inp # inputs)) = worth (funds om outputs)"
  using TransactionBalancesValid_iff [OF assms, where om = om and inp = inp and inputs = inputs and outputs = outputs]
    TransactionBalancesValid_first [where om = om and rng = rng and inp = inp and inputs = inputs and outputs = outputs] by blast

lemma balances_valid_exact_witness:
  "TransactionBalancesValid coinmap_ops id
     [SigLockedSingleOutput (NewSigLockedSingleOutput 100 (ED25519Address []))]
     [SigLockedSingleOutput (NewSigLockedSingleOutput 60 (ED25519Address [])),
      SigLockedSingleOutput (NewSigLockedSingleOutput 40 (BLSAddress []))] \<and>
   \<not> TransactionBalancesValid coinmap_ops id
     [SigLockedSingleOutput (NewSigLockedSingleOutput 100 (ED25519Address []))]
     [SigLockedSingleOutput (NewSigLockedSingleOutput 60 (ED25519Address []))]"
proof -
  have e: "DAList.impl_of (SigLockedSingle_Balances coinmap_ops (NewSigLockedSingleOutput v a)) =
           [(ColorZIPP, v)]"
    if "v \<noteq> 0" for v a
    using that coinmap.entries_NewColoredBalances_one[of v ColorZIPP]
    by (simp add: SigLockedSingle_Balances_def NewSigLockedSingleOutput_def)
  show ?thesis
    by (subst (1 2) balances_valid_exact) (simp_all add: e)
qed

end
