(* ===== verification/UnlockLaws.thy ===== *)
theory UnlockLaws
  imports VM
begin

text \<open>
  What UnlockBlocksValid guarantees: every consumed output is unlocked by a signature for the
  address that controls it, or by an alias that is itself unlocked in the same transaction for a
  state transition, through a chain that ends in a signature.
\<close>

section \<open>The controller of an output\<close>

definition controller ::
    "('m, 'z) crypto_scheme \<Rightarrow> 'm TransactionEssence \<Rightarrow> 'm Output \<Rightarrow> Address option" where
  "controller cr essence out =
     (case out of
        SigLockedSingleOutput s \<Rightarrow> Some (sls_Address s)
      | SigLockedColoredOutput s \<Rightarrow> Some (slc_Address s)
      | ExtendedLockedOutput x \<Rightarrow> Some (UnlockAddressNow x (Timestamp essence))
      | AliasOutput a \<Rightarrow>
          if hasToBeUnlockedForGovernanceUpdate cr a essence then GetGoverningAddress a
          else stateAddress a)"

text \<open>The unlock block an input is checked with: one step through a reference.\<close>

definition resolved :: "UnlockBlock list \<Rightarrow> nat \<Rightarrow> UnlockBlock" where
  "resolved blocks i = (case blocks ! i of ReferenceUnlockBlock r \<Rightarrow> blocks ! unat r | b \<Rightarrow> b)"

inductive authorised ::
    "('m, 'z) vm_env_scheme \<Rightarrow> 'm Transaction \<Rightarrow> 'm Output list \<Rightarrow> nat \<Rightarrow> bool"
  for env tx inputs where
  by_signature:
    "i < length inputs \<Longrightarrow> i < length (UnlockBlocks tx) \<Longrightarrow>
     resolved (UnlockBlocks tx) i = SignatureUnlockBlock sig \<Longrightarrow>
     controller env (Essence tx) (inputs ! i) = Some addr \<Longrightarrow>
     Essence_Bytes env (Essence tx) = Some txBytes \<Longrightarrow>
     AddressSignatureValid env sig addr txBytes \<Longrightarrow>
     authorised env tx inputs i"
| by_alias:
    "i < length inputs \<Longrightarrow> i < length (UnlockBlocks tx) \<Longrightarrow>
     resolved (UnlockBlocks tx) i = AliasUnlockBlock k \<Longrightarrow> unat k < length inputs \<Longrightarrow>
     inputs ! unat k = AliasOutput ref \<Longrightarrow>
     controller env (Essence tx) (inputs ! i) = Some (AliasAddress (GetAliasAddress env ref)) \<Longrightarrow>
     \<not> hasToBeUnlockedForGovernanceUpdate env ref (Essence tx) \<Longrightarrow>
     authorised env tx inputs (unat k) \<Longrightarrow>
     authorised env tx inputs i"

section \<open>What each UnlockValid requires\<close>

text \<open>One step of authorisation: a signature, or a reference to an alias in state transition.\<close>

definition unlock_step ::
    "('m, 'z) vm_env_scheme \<Rightarrow> 'm TransactionEssence \<Rightarrow> 'm Output list \<Rightarrow> Address option \<Rightarrow>
     UnlockBlock \<Rightarrow> bool" where
  "unlock_step env essence inputs contr block \<longleftrightarrow>
     (case block of
        SignatureUnlockBlock sig \<Rightarrow>
          (case (Essence_Bytes env essence, contr) of
             (Some txBytes, Some addr) \<Rightarrow> AddressSignatureValid env sig addr txBytes
           | _ \<Rightarrow> False)
      | AliasUnlockBlock k \<Rightarrow> unat k < length inputs \<and>
          (case inputs ! unat k of
             AliasOutput ref \<Rightarrow> contr = Some (AliasAddress (GetAliasAddress env ref)) \<and>
               \<not> hasToBeUnlockedForGovernanceUpdate env ref essence
           | _ \<Rightarrow> False)
      | ReferenceUnlockBlock _ \<Rightarrow> False)"

lemma address_UnlockValid_step:
  assumes "address_UnlockValid env addr essence block inputs = ok (True, None)"
  shows "unlock_step env essence inputs (Some addr) block"
  using assms
  by (auto simp: address_UnlockValid_def unlock_step_def bindE_eq_Inr_iff index_Inr_iff
      split: UnlockBlock.splits option.splits if_splits Output.splits)

lemma signedBy_True:
  assumes "signedBy env sig contr essence = ok (Inr True)"
  shows "unlock_step env essence inputs contr (SignatureUnlockBlock sig)"
  using assms
  by (auto simp: signedBy_def unlock_step_def bindE_eq_Inr_iff split: option.splits)

lemma unlockedByAliasIndex_True:
  assumes "unlockedByAliasIndex env contr essence k inputs = ok (True, err)"
  shows "unlock_step env essence inputs contr (AliasUnlockBlock k)"
proof -
  obtain addr where contr: "contr = Some addr"
    using assms by (cases contr) (auto simp: unlockedByAliasIndex_def)
  then have k: "unat k < length inputs"
    using assms by (auto simp: unlockedByAliasIndex_def index_def split: if_splits)
  obtain ref where ref: "inputs ! unat k = AliasOutput ref"
    using assms k
    by (cases "inputs ! unat k") (auto simp: unlockedByAliasIndex_def contr index_def split: if_splits)
  show ?thesis
    using assms k
    by (auto simp: unlockedByAliasIndex_def unlock_step_def contr index_def ref split: if_splits)
qed

text \<open>The address that has to unlock an alias, given its chained output.\<close>

definition chained_controller :: "'m AliasOutput \<Rightarrow> 'm AliasOutput option \<Rightarrow> Address option" where
  "chained_controller a chained =
     (case chained of
        Some c \<Rightarrow> if isGovernanceUpdate c then GetGoverningAddress a else stateAddress a
      | None \<Rightarrow> GetGoverningAddress a)"

definition chained_transition_ok ::
    "('m, 'z) crypto_scheme \<Rightarrow> 'm AliasOutput \<Rightarrow> 'm AliasOutput option \<Rightarrow> 'm TransactionEssence \<Rightarrow> bool"
  where
  "chained_transition_ok cr a chained essence \<longleftrightarrow>
     (case chained of
        Some c \<Rightarrow> validateTransition cr a c essence = ok None
      | None \<Rightarrow> validateDestroyTransitionNow cr a (Timestamp essence) = None)"

lemma signature_result:
  "Alias_UnlockValid_signature env a chained essence sig =
     bindE (signedBy env sig (chained_controller a chained) essence) (\<lambda>r.
       case r of
         Inl err \<Rightarrow> ok (False, Some err)
       | Inr valid \<Rightarrow>
           if \<not> valid then ok (False, Some InvalidSignature)
           else bindE (case chained of Some c \<Rightarrow> validateTransition env a c essence
                       | None \<Rightarrow> ok (validateDestroyTransitionNow env a (Timestamp essence)))
                  (\<lambda>t. case t of Some err \<Rightarrow> ok (False, Some err) | None \<Rightarrow> ok (True, None)))"
  by (cases chained)
    (simp_all add: Alias_UnlockValid_signature_def chained_controller_def
      cong del: sum.case_cong_weak if_weak_cong)

lemma alias_result:
  "Alias_UnlockValid_alias env a chained essence k inputs =
     bindE (unlockedByAliasIndex env (chained_controller a chained) essence k inputs) (\<lambda>(valid, err).
       if \<not> valid then ok (False, Some (AliasNotUnlocked err))
       else bindE (case chained of Some c \<Rightarrow> validateTransition env a c essence
                   | None \<Rightarrow> ok (validateDestroyTransitionNow env a (Timestamp essence)))
              (\<lambda>t. case t of Some err \<Rightarrow> ok (False, Some err) | None \<Rightarrow> ok (True, None)))"
  by (cases chained)
    (simp_all add: Alias_UnlockValid_alias_def chained_controller_def
      unlockedGovernanceTransitionByAliasIndex_def unlockedStateTransitionByAliasIndex_def
      cong del: if_weak_cong)

lemma transition_result:
  assumes "bindE (case chained of Some c \<Rightarrow> validateTransition cr a c essence
                  | None \<Rightarrow> ok (validateDestroyTransitionNow cr a (Timestamp essence)))
             (\<lambda>t. case t of Some err \<Rightarrow> ok (False, Some err) | None \<Rightarrow> ok (True, None)) = ok (True, err)"
  shows "chained_transition_ok cr a chained essence"
proof -
  obtain t where "(case chained of Some c \<Rightarrow> validateTransition cr a c essence
      | None \<Rightarrow> ok (validateDestroyTransitionNow cr a (Timestamp essence))) = ok t"
    and "(case t of Some err \<Rightarrow> ok (False, Some err) | None \<Rightarrow> ok (True, None)) =
         (ok (True, err) :: (bool \<times> unlock_error option) go)"
    using assms unfolding bindE_eq_Inr_iff by blast
  then show ?thesis by (cases t; cases chained) (auto simp: chained_transition_ok_def)
qed

lemma Alias_UnlockValid_signature_True:
  assumes "Alias_UnlockValid_signature env a chained essence sig = ok (True, err)"
  shows "signedBy env sig (chained_controller a chained) essence = ok (Inr True)"
    and "chained_transition_ok env a chained essence"
proof -
  obtain r where r: "signedBy env sig (chained_controller a chained) essence = ok r"
    using assms unfolding signature_result bindE_eq_Inr_iff by blast
  then obtain valid where v: "r = Inr valid"
    using assms by (cases r) (auto simp: signature_result)
  then have "valid" using assms r by (cases valid) (auto simp: signature_result)
  then show "signedBy env sig (chained_controller a chained) essence = ok (Inr True)"
    and "chained_transition_ok env a chained essence"
    using r v assms by (auto simp: signature_result intro: transition_result)
qed

lemma Alias_UnlockValid_alias_True:
  assumes "Alias_UnlockValid_alias env a chained essence k inputs = ok (True, err)"
  shows "\<exists>e. unlockedByAliasIndex env (chained_controller a chained) essence k inputs = ok (True, e)"
    and "chained_transition_ok env a chained essence"
proof -
  obtain v e where r: "unlockedByAliasIndex env (chained_controller a chained) essence k inputs = ok (v, e)"
    using assms unfolding alias_result bindE_eq_Inr_iff by force
  then have "v" using assms by (cases v) (auto simp: alias_result)
  then show "\<exists>e. unlockedByAliasIndex env (chained_controller a chained) essence k inputs = ok (True, e)"
    and "chained_transition_ok env a chained essence"
    using r assms by (auto simp: alias_result intro: transition_result)
qed

text \<open>An alias that is unlocked is unlocked by its controller, and its transition is legal.\<close>

definition alias_transition_ok ::
    "('m, 'z) crypto_scheme \<Rightarrow> 'm AliasOutput \<Rightarrow> 'm TransactionEssence \<Rightarrow> bool" where
  "alias_transition_ok cr a essence \<longleftrightarrow>
     (case findChainedOutputAndCheckFork cr a essence of
        Inl _ \<Rightarrow> False
      | Inr (Some c) \<Rightarrow> validateTransition cr a c essence = ok None
      | Inr None \<Rightarrow> validateDestroyTransitionNow cr a (Timestamp essence) = None)"

lemma Alias_UnlockValid_step:
  assumes "Alias_UnlockValid env a essence block inputs = ok (True, err)"
  shows "unlock_step env essence inputs (controller env essence (AliasOutput a)) block"
    and "alias_transition_ok env a essence"
proof -
  obtain chained where ch: "findChainedOutputAndCheckFork env a essence = Inr chained"
    using assms by (cases "findChainedOutputAndCheckFork env a essence")
      (auto simp: Alias_UnlockValid_def)
  have contr: "controller env essence (AliasOutput a) = chained_controller a chained"
    by (simp add: controller_def chained_controller_def hasToBeUnlockedForGovernanceUpdate_def ch
        split: option.split)
  have tr: "alias_transition_ok env a essence \<longleftrightarrow> chained_transition_ok env a chained essence"
    by (simp add: alias_transition_ok_def chained_transition_ok_def ch split: option.split)
  have "unlock_step env essence inputs (chained_controller a chained) block \<and>
      chained_transition_ok env a chained essence"
  proof (cases block)
    case (SignatureUnlockBlock sig)
    then have "Alias_UnlockValid_signature env a chained essence sig = ok (True, err)"
      using assms by (simp add: Alias_UnlockValid_def ch)
    from Alias_UnlockValid_signature_True[OF this] show ?thesis
      unfolding SignatureUnlockBlock by (blast intro: signedBy_True)
  next
    case (AliasUnlockBlock k)
    then have "Alias_UnlockValid_alias env a chained essence k inputs = ok (True, err)"
      using assms by (simp add: Alias_UnlockValid_def ch)
    from Alias_UnlockValid_alias_True[OF this] show ?thesis
      unfolding AliasUnlockBlock by (blast intro: unlockedByAliasIndex_True)
  next
    case (ReferenceUnlockBlock r)
    then show ?thesis using assms by (simp add: Alias_UnlockValid_def ch)
  qed
  then show "unlock_step env essence inputs (controller env essence (AliasOutput a)) block"
    and "alias_transition_ok env a essence" unfolding contr tr by auto
qed

lemma UnlockValid_step:
  assumes "UnlockValid env out essence block inputs = ok (True, None)"
  shows "unlock_step env essence inputs (controller env essence out) block"
proof (cases out)
  case (SigLockedSingleOutput s)
  then show ?thesis
    using assms address_UnlockValid_step by (simp add: SigLockedSingle_UnlockValid_def controller_def)
next
  case (SigLockedColoredOutput s)
  then show ?thesis
    using assms address_UnlockValid_step by (simp add: SigLockedColored_UnlockValid_def controller_def)
next
  case (AliasOutput a)
  then show ?thesis using assms Alias_UnlockValid_step(1) by simp
next
  case (ExtendedLockedOutput x)
  then show ?thesis
    using assms address_UnlockValid_step
    by (simp add: Extended_UnlockValid_def controller_def split: if_splits)
qed

section \<open>All inputs\<close>

lemma unlockInputs_True:
  "unlockInputs env tx inputs i rest = ok (True, err) \<Longrightarrow> j < length rest \<Longrightarrow>
   i + j < length (UnlockBlocks tx) \<and>
   (\<forall>r. UnlockBlocks tx ! (i + j) = ReferenceUnlockBlock r \<longrightarrow> unat r < length (UnlockBlocks tx)) \<and>
   UnlockValid env (rest ! j) (Essence tx) (resolved (UnlockBlocks tx) (i + j)) inputs = ok (True, None)"
proof (induction rest arbitrary: i j)
  case (Cons inp rest)
  show ?case
  proof (cases j)
    case 0
    then show ?thesis
      using Cons.prems(1)
      by (auto simp: bindE_eq_Inr_iff index_Inr_iff resolved_def
          split: UnlockBlock.splits if_splits)
  next
    case (Suc k)
    have "unlockInputs env tx inputs (Suc i) rest = ok (True, err)"
      using Cons.prems(1) by (auto simp: bindE_eq_Inr_iff split: if_splits)
    from Cons.IH[OF this, of k] Cons.prems(2) show ?thesis by (simp add: Suc)
  qed
qed simp

lemma UnlockBlocksValid_True:
  assumes "UnlockBlocksValid env inputs tx = ok True"
  shows "checkReferenceCycle (UnlockBlocks tx) = ok (Inr False)"
    and "unlockInputs env tx inputs 0 inputs = ok (True, None)"
proof -
  have "UnlockBlocksValidWithError env inputs tx = ok (True, None)"
    using assms by (auto simp: UnlockBlocksValid_def bindE_eq_Inr_iff)
  then obtain r where r: "checkReferenceCycle (UnlockBlocks tx) = ok r"
      "(case r of Inl err \<Rightarrow> ok (False, Some (SemanticallyInvalid err))
        | Inr cyclePresent \<Rightarrow> if cyclePresent then ok (False, Some CyclicUnlockBlocks)
            else unlockInputs env tx inputs 0 inputs) = ok (True, None)"
    by (auto simp: UnlockBlocksValidWithError_def bindE_eq_Inr_iff)
  then have "r = Inr False \<and> unlockInputs env tx inputs 0 inputs = ok (True, None)"
    by (cases r) (auto split: if_splits)
  with r(1) show "checkReferenceCycle (UnlockBlocks tx) = ok (Inr False)"
      and "unlockInputs env tx inputs 0 inputs = ok (True, None)" by auto
qed

text \<open>A walk through the references reaches the resolved block first, so the walk of an input
  that is unlocked by an alias passes through that alias.\<close>

lemma walk_resolved:
  assumes "walk_ends (unlock_target blocks) i" and "i < length blocks" and "references_ok blocks"
    and "resolved blocks i = AliasUnlockBlock k"
  shows "\<exists>j. unlock_target blocks j = Some (unat k) \<and>
           (j = i \<or> unlock_target blocks i = Some j)"
proof (cases "blocks ! i")
  case (ReferenceUnlockBlock r)
  then have r: "unat r < length blocks"
    using assms(2,3) unfolding references_ok_def by (metis nth_mem)
  have "blocks ! unat r = AliasUnlockBlock k"
    using assms(4) by (simp add: resolved_def ReferenceUnlockBlock)
  then have "unlock_target blocks (unat r) = Some (unat k)" using r by (simp add: unlock_target_def)
  moreover have "unlock_target blocks i = Some (unat r)"
    using assms(2) by (simp add: unlock_target_def ReferenceUnlockBlock)
  ultimately show ?thesis by blast
next
  case (AliasUnlockBlock k')
  then have "k' = k" using assms(4) by (simp add: resolved_def)
  then have "unlock_target blocks i = Some (unat k)"
    using assms(2) AliasUnlockBlock by (simp add: unlock_target_def)
  then show ?thesis by blast
next
  case (SignatureUnlockBlock s)
  then show ?thesis using assms(4) by (simp add: resolved_def)
qed

lemma walk_ends_next: "walk_ends e v \<Longrightarrow> e v = Some w \<Longrightarrow> walk_ends e w"
  by (erule walk_ends.cases) auto

lemma authorised_along_walk:
  assumes valid: "UnlockBlocksValid env inputs tx = ok True"
    and walk: "walk_ends (unlock_target (UnlockBlocks tx)) i"
  shows "(i < length inputs \<longrightarrow> authorised env tx inputs i) \<and>
         (\<forall>j. unlock_target (UnlockBlocks tx) i = Some j \<longrightarrow> j < length inputs \<longrightarrow>
            authorised env tx inputs j)"
  using walk
proof (induction rule: walk_ends.induct)
  case (last v)
  let ?blocks = "UnlockBlocks tx"
  have "authorised env tx inputs v" if v: "v < length inputs"
  proof -
    note step = unlockInputs_True[OF UnlockBlocksValid_True(2)[OF valid] v, simplified]
    then have b: "v < length ?blocks" by simp
    with last obtain sig where sig: "?blocks ! v = SignatureUnlockBlock sig"
      by (cases "?blocks ! v") (auto simp: unlock_target_def)
    then have "resolved ?blocks v = SignatureUnlockBlock sig" by (simp add: resolved_def)
    moreover from this step
    have "unlock_step env (Essence tx) inputs (controller env (Essence tx) (inputs ! v))
        (SignatureUnlockBlock sig)"
      using UnlockValid_step by metis
    ultimately show ?thesis using v b
      by (auto simp: unlock_step_def split: option.splits intro: authorised.by_signature)
  qed
  with last show ?case by simp
next
  case (step v w)
  let ?blocks = "UnlockBlocks tx"
  note refs = checkReferenceCycle_False(2)[OF UnlockBlocksValid_True(1)[OF valid]]
  have "authorised env tx inputs v" if v: "v < length inputs"
  proof -
    note st = unlockInputs_True[OF UnlockBlocksValid_True(2)[OF valid] v, simplified]
    then have b: "v < length ?blocks" by simp
    from st have us: "unlock_step env (Essence tx) inputs (controller env (Essence tx) (inputs ! v))
        (resolved ?blocks v)" using UnlockValid_step by blast
    show ?thesis
    proof (cases "resolved ?blocks v")
      case (SignatureUnlockBlock sig)
      with us v b show ?thesis
        by (auto simp: unlock_step_def split: option.splits intro: authorised.by_signature)
    next
      case (AliasUnlockBlock k)
      then have k: "unat k < length inputs" using us by (simp add: unlock_step_def)
      have "walk_ends (unlock_target ?blocks) v" using step.hyps by (rule walk_ends.step)
      then obtain j where j: "unlock_target ?blocks j = Some (unat k)"
          "j = v \<or> unlock_target ?blocks v = Some j"
        using walk_resolved[OF _ b refs AliasUnlockBlock] by blast
      have "authorised env tx inputs (unat k)"
      proof (cases "j = v")
        case True
        with j step.hyps(1) have "w = unat k" by simp
        with step.IH k show ?thesis by simp
      next
        case False
        with j step.hyps(1) have "j = w" by simp
        with j(1) step.IH k show ?thesis by simp
      qed
      with us AliasUnlockBlock v b k show ?thesis
        by (auto simp: unlock_step_def split: Output.splits intro: authorised.by_alias)
    next
      case (ReferenceUnlockBlock r)
      with us show ?thesis by (simp add: unlock_step_def)
    qed
  qed
  with step show ?case by simp
qed

lemma UnlockBlocksValid_authorised:
  assumes "UnlockBlocksValid env inputs tx = ok True" and "i < length inputs"
  shows "authorised env tx inputs i"
  using authorised_along_walk[OF assms(1) checkReferenceCycle_False(1)] UnlockBlocksValid_True(1)
    assms by blast

lemma UnlockBlocksValid_alias:
  assumes "UnlockBlocksValid env inputs tx = ok True" and "AliasOutput a \<in> set inputs"
  shows "alias_transition_ok env a (Essence tx)"
proof -
  obtain i where "i < length inputs" "inputs ! i = AliasOutput a"
    using assms(2) by (auto simp: in_set_conv_nth)
  then show ?thesis
    using unlockInputs_True[OF UnlockBlocksValid_True(2)[OF assms(1)], of i]
      Alias_UnlockValid_step(2) by fastforce
qed

end
