(* ===== verification/VMLaws.thy ===== *)
theory VMLaws
  imports BalanceLaws UnlockLaws
begin

text \<open>
  The guarantees of executeTransaction: conservation of funds through the coloring of minted
  tokens, authorisation of every input, legality of every alias transition, uniqueness of alias
  addresses; and the inputs on which it panics.
\<close>

section \<open>Recoloring\<close>

context ordered_map
begin

lemma mset_entries_NewColoredBalances:
  assumes "distinct (map fst bs)"
  shows "mset (om_entries om (NewColoredBalances om bs)) = mset (filter (\<lambda>(c, b). b \<noteq> 0) bs)"
proof -
  let ?f = "filter (\<lambda>(c, b). b \<noteq> 0) bs" and ?g = "\<lambda>c. (c, coin_at bs c)"
  have eq: "map ?g (map fst ?f) = ?f"
  proof -
    have "(fst e, coin_at bs (fst e)) = e" if "e \<in> set ?f" for e
    proof -
      from that have "(fst e, snd e) \<in> set bs" by auto
      then have "map_of bs (fst e) = Some (snd e)" by (rule map_of_is_SomeI[OF assms])
      then show ?thesis by (simp add: coin_at_def)
    qed
    then have "map (\<lambda>e. (fst e, coin_at bs (fst e))) ?f = ?f" by (rule map_idI)
    then show ?thesis by (simp add: comp_def)
  qed
  have "mset (om_entries om (NewColoredBalances om bs)) = image_mset ?g (mset (map fst ?f))"
    by (simp only: entries_NewColoredBalances[OF assms] mset_map mset_sort_by)
  also have "\<dots> = mset (map ?g (map fst ?f))" by (simp only: mset_map)
  also have "\<dots> = mset ?f" by (simp only: eq)
  finally show ?thesis .
qed

end

lemma worth_filter: "worth (filter (\<lambda>(c, b). b \<noteq> 0) bs) = worth bs"
  by (induction bs) auto

lemma amount_filter: "amount c (filter (\<lambda>(c, b). b \<noteq> 0) bs) = amount c bs"
proof (induction bs)
  case (Cons e bs)
  then show ?case by (cases e; cases "snd e = 0") simp_all
qed simp

lemma amount_mset: "mset es = mset fs \<Longrightarrow> amount c es = amount c fs"
proof -
  let ?f = "\<lambda>(k, v). if k = c then unat v else 0"
  assume "mset es = mset fs"
  then have "mset (map ?f es) = mset (map ?f fs)" by (simp only: mset_map)
  then have "sum_mset (mset (map ?f es)) = sum_mset (mset (map ?f fs))" by (simp only:)
  then show "amount c es = amount c fs" by (simp only: amount_def sum_mset_sum_list)
qed

lemma amount_absent: "c \<notin> fst ` set es \<Longrightarrow> amount c es = 0"
  by (induction es) auto

lemma amount_delete: "amount c (AList.delete k es) = (if c = k then 0 else amount c es)"
  by (induction es) (auto simp: AList.delete_eq)

lemma distinct_recolor: "distinct (map fst es) \<Longrightarrow> distinct (map fst (recolor cr oid es))"
  by (simp add: recolor_def split: option.split)

text \<open>Replacing the placeholder moves its amount to the new color.\<close>

lemma amount_recolor:
  assumes "distinct (map fst es)" and "Sum256 cr (OutputID_Bytes oid) \<notin> fst ` set es"
    and "Sum256 cr (OutputID_Bytes oid) \<noteq> ColorMint"
  shows "amount c (recolor cr oid es) =
         (if c = Sum256 cr (OutputID_Bytes oid) then amount ColorMint es
          else if c = ColorMint then 0 else amount c es)"
proof (cases "map_of es ColorMint")
  case None
  then have "amount ColorMint es = 0" by (simp add: amount_absent map_of_eq_None_iff)
  with None show ?thesis using assms(2) by (simp add: recolor_def amount_absent)
next
  case (Some m)
  let ?h = "Sum256 cr (OutputID_Bytes oid)" and ?d = "AList.delete ColorMint es"
  have "?h \<notin> fst ` set ?d" using assms(2) set_delete_subset[of ColorMint es] by force
  then have u: "AList.update ?h m ?d = ?d @ [(?h, m)]"
    by (intro update_new_append) (simp add: map_of_eq_None_iff)
  have "amount ColorMint es = unat m"
    using amount_mset[of es "(ColorMint, m) # ?d" ColorMint] mset_delete_present[OF assms(1) Some]
    by (simp add: amount_delete)
  then show ?thesis using u assms(2,3) by (simp add: recolor_def Some amount_delete amount_absent)
qed

lemma IsAboveDust_recolor:
  assumes "distinct (map fst es)" and "Sum256 cr (OutputID_Bytes oid) \<notin> fst ` set es"
    and "IsAboveDustThreshold es"
  shows "IsAboveDustThreshold (recolor cr oid es)"
proof -
  have "ColorZIPP \<in> fst ` set es"
    using assms(3) by (auto simp: IsAboveDustThreshold_def split: option.splits dest: map_of_SomeD_fst)
  then have ne: "Sum256 cr (OutputID_Bytes oid) \<noteq> ColorZIPP" using assms(2) by auto
  have "map_of (recolor cr oid es) ColorZIPP = map_of es ColorZIPP"
    using ne by (auto simp: recolor_def update_conv' delete_conv' split: option.split)
  with assms(3) show ?thesis by (simp add: IsAboveDustThreshold_def)
qed

context ordered_map
begin

lemma amount_recolored:
  assumes "Sum256 cr (OutputID_Bytes oid) \<notin> fst ` set (om_entries om m)"
    and "Sum256 cr (OutputID_Bytes oid) \<noteq> ColorMint"
  shows "amount c (om_entries om (NewColoredBalances om (recolor cr oid (om_entries om m)))) =
         (if c = Sum256 cr (OutputID_Bytes oid) then amount ColorMint (om_entries om m)
          else if c = ColorMint then 0 else amount c (om_entries om m))"
proof -
  let ?r = "recolor cr oid (om_entries om m)"
  have d: "distinct (map fst ?r)" by (rule distinct_recolor[OF distinct_entries])
  have "amount c (om_entries om (NewColoredBalances om ?r)) = amount c (filter (\<lambda>(c, b). b \<noteq> 0) ?r)"
    by (rule amount_mset[OF mset_entries_NewColoredBalances[OF d]])
  then show ?thesis
    by (simp add: amount_filter amount_recolor[OF distinct_entries assms])
qed

end

section \<open>The coins an output holds after its execution\<close>

definition new_color :: "('m, 'z) crypto_scheme \<Rightarrow> OutputID \<Rightarrow> Color" where
  "new_color cr oid = Sum256 cr (OutputID_Bytes oid)"

text \<open>The hash of the identifier is not a color that the output already uses.\<close>

definition color_is_new :: "('m, 'z) crypto_scheme \<Rightarrow> 'm Output \<Rightarrow> bool" where
  "color_is_new cr out \<longleftrightarrow>
     new_color cr (Output_ID out) \<notin> fst ` set (om_entries cr (Output_Balances cr out)) \<and>
     new_color cr (Output_ID out) \<noteq> ColorMint"

lemma mustValidate_dust:
  "mustValidate om a = ok () \<Longrightarrow> IsAboveDustThreshold (ColoredBalances_Map om (balances a))"
  by (auto simp: mustValidate_def checkBasicValidity_def bindE_eq_Inr_iff split: if_splits)

lemma Alias_clone_balances:
  assumes "Alias_clone cr a = ok c"
  shows "mustValidate cr a = ok ()" and "balances c = ColoredBalances_Clone cr (balances a)"
  using assms by (auto simp: Alias_clone_def bindE_eq_Inr_iff Let_def)

text \<open>Executing an output turns exactly its coins of the placeholder color into coins of the
  color that is the hash of the output identifier.\<close>

lemma UpdateMintingColor_amount:
  assumes "ordered_map cr" and "UpdateMintingColor cr out = ok u" and "color_is_new cr out"
  shows "amount c (om_entries cr (Output_Balances cr u)) =
         (if c = new_color cr (Output_ID out)
          then amount ColorMint (om_entries cr (Output_Balances cr out))
          else if c = ColorMint then 0 else amount c (om_entries cr (Output_Balances cr out)))"
proof (cases out)
  case (SigLockedSingleOutput s)
  then have u: "u = SigLockedSingleOutput s" using assms(2) by simp
  have "fst ` set (om_entries cr (SigLockedSingle_Balances cr s)) \<subseteq> {ColorZIPP}"
    unfolding SigLockedSingle_Balances_def
    by (subst ordered_map.entries_NewColoredBalances[OF assms(1)]) auto
  then have "amount ColorMint (om_entries cr (SigLockedSingle_Balances cr s)) = 0"
    by (intro amount_absent) auto
  then show ?thesis
    using assms(3) by (simp add: u SigLockedSingleOutput color_is_new_def amount_absent)
next
  case (SigLockedColoredOutput s)
  then show ?thesis
    using assms(2,3) ordered_map.amount_recolored[OF assms(1), of cr "slc_ID s" "slc_Balances s" c]
    by (auto simp: SigLockedColored_UpdateMintingColor_def NewSigLockedColoredOutput_def Let_def
        color_is_new_def new_color_def ordered_map.Map_entries[OF assms(1)])
next
  case (AliasOutput a)
  then obtain copy where copy: "Alias_clone cr a = ok copy"
    using assms(2) by (auto simp: Alias_UpdateMintingColor_def bindE_eq_Inr_iff Let_def)
  note M = ordered_map.Map_entries[OF assms(1)]
  let ?r = "recolor cr (outputID a) (om_entries cr (balances a))"
  have "IsAboveDustThreshold (om_entries cr (balances a))"
    using mustValidate_dust[OF Alias_clone_balances(1)[OF copy]] by (simp add: M)
  then have "IsAboveDustThreshold ?r"
    using assms(3) AliasOutput
    by (intro IsAboveDust_recolor ordered_map.distinct_entries[OF assms(1)])
      (simp_all add: color_is_new_def new_color_def)
  then have "Output_Balances cr u = NewColoredBalances cr ?r"
    using assms(2) copy
    by (auto simp: AliasOutput Alias_UpdateMintingColor_def Let_def M SetBalances_def SetAliasAddress_def)
  then show ?thesis
    using assms(3) ordered_map.amount_recolored[OF assms(1), of cr "outputID a" "balances a" c]
    by (simp add: AliasOutput color_is_new_def new_color_def)
next
  case (ExtendedLockedOutput x)
  note M = ordered_map.Map_entries[OF assms(1)]
  have "Output_Balances cr u =
      NewColoredBalances cr (recolor cr (el_id x) (om_entries cr (el_balances x)))"
    using assms(2)
    by (auto simp: ExtendedLockedOutput Extended_UpdateMintingColor_def Let_def M SetPayload_def
        WithTimeLock_def WithFallbackOptions_def NewExtendedLockedOutput_def split: if_splits)
  then show ?thesis
    using assms(3) ordered_map.amount_recolored[OF assms(1), of cr "el_id x" "el_balances x" c]
    by (simp add: ExtendedLockedOutput color_is_new_def new_color_def)
qed

lemma UpdateMintingColor_worth:
  assumes "ordered_map cr" and "UpdateMintingColor cr out = ok u" and "color_is_new cr out"
  shows "worth (om_entries cr (Output_Balances cr u)) = worth (om_entries cr (Output_Balances cr out))"
proof -
  have am: "(\<Sum>c \<in> C. amount c es) = worth es" if "finite C" "fst ` set es \<subseteq> C" for C es
    using that
  proof (induction es)
    case (Cons e es)
    obtain k v where e: "e = (k, v)" by (cases e)
    have "(\<Sum>c \<in> C. amount c (e # es)) = (\<Sum>c \<in> C. if k = c then unat v else 0) + (\<Sum>c \<in> C. amount c es)"
      by (simp add: e sum.distrib)
    also have "(\<Sum>c \<in> C. if k = c then unat v else 0) = unat v"
      using Cons.prems by (simp add: e sum.delta')
    finally show ?case using Cons by (simp add: e)
  qed (simp add: worth_def)
  let ?u = "om_entries cr (Output_Balances cr u)" and ?o = "om_entries cr (Output_Balances cr out)"
  let ?h = "new_color cr (Output_ID out)"
  let ?C = "insert ?h (insert ColorMint (fst ` set ?u \<union> fst ` set ?o))"
  let ?R = "fst ` set ?u \<union> fst ` set ?o - {?h, ColorMint}"
  have C: "?C = insert ?h (insert ColorMint ?R)" by auto
  have ne: "?h \<noteq> ColorMint" and abs: "amount ?h ?o = 0"
    using assms(3) by (auto simp: color_is_new_def amount_absent)
  note upd = UpdateMintingColor_amount[OF assms]
  have split: "(\<Sum>c \<in> ?C. f c) = f ?h + (f ColorMint + (\<Sum>c \<in> ?R. f c))" for f :: "Color \<Rightarrow> nat"
    using ne by (subst C) simp
  have "(\<Sum>c \<in> ?R. amount c ?u) = (\<Sum>c \<in> ?R. amount c ?o)"
    by (rule sum.cong) (auto simp: upd)
  then have "(\<Sum>c \<in> ?C. amount c ?u) = (\<Sum>c \<in> ?C. amount c ?o)"
    unfolding split using ne by (simp add: upd abs)
  moreover have "worth ?u = (\<Sum>c \<in> ?C. amount c ?u)" by (rule am[symmetric]) auto
  moreover have "worth ?o = (\<Sum>c \<in> ?C. amount c ?o)" by (rule am[symmetric]) auto
  ultimately show ?thesis by (simp only:)
qed

section \<open>Executed outputs\<close>

lemma Output_Balances_SetID [simp]: "Output_Balances om (Output_SetID out oid) = Output_Balances om out"
  by (cases out) (auto simp: SigLockedSingle_Balances_def)

lemma Output_ID_SetID [simp]: "Output_ID (Output_SetID out oid) = oid"
  by (cases out) auto

lemma funds_Cons_entries:
  "funds om (out # outs) = om_entries om (Output_Balances om out) @ funds om outs"
  by simp

text \<open>The colors created by the outputs of a transaction.\<close>

definition minted_colors :: "('m, 'z) crypto_scheme \<Rightarrow> TransactionID \<Rightarrow> nat \<Rightarrow> nat \<Rightarrow> Color set" where
  "minted_colors cr txID i n = (\<lambda>j. new_color cr (NewOutputID txID (of_nat j))) ` {i ..< i + n}"

definition colors_are_new ::
    "('m, 'z) crypto_scheme \<Rightarrow> TransactionID \<Rightarrow> nat \<Rightarrow> 'm Output list \<Rightarrow> bool" where
  "colors_are_new cr txID i outs \<longleftrightarrow>
     (\<forall>j < length outs. color_is_new cr (Output_SetID (outs ! j) (NewOutputID txID (of_nat (i + j)))))"

lemma colors_are_new_Cons:
  "colors_are_new cr txID i (out # outs) \<longleftrightarrow>
     color_is_new cr (Output_SetID out (NewOutputID txID (of_nat i))) \<and>
     colors_are_new cr txID (Suc i) outs"
  by (simp add: colors_are_new_def All_less_Suc2 ac_simps)

lemma minted_colors_Suc:
  "minted_colors cr txID i (Suc n) =
     insert (new_color cr (NewOutputID txID (of_nat i))) (minted_colors cr txID (Suc i) n)"
proof -
  have "{i ..< i + Suc n} = insert i {Suc i ..< Suc i + n}" by auto
  then show ?thesis by (simp add: minted_colors_def)
qed

lemma executeOutputs_funds:
  assumes om: "ordered_map cr"
  shows "executeOutputs cr txID i outs = ok res \<Longrightarrow> colors_are_new cr txID i outs \<Longrightarrow>
     worth (funds cr res) = worth (funds cr outs) \<and> length res = length outs \<and>
     amount ColorMint (funds cr res) = 0 \<and>
     (\<forall>c. c \<noteq> ColorMint \<longrightarrow> c \<notin> minted_colors cr txID i (length outs) \<longrightarrow>
        amount c (funds cr res) = amount c (funds cr outs))"
proof (induction outs arbitrary: i res)
  case (Cons out outs)
  let ?o = "Output_SetID out (NewOutputID txID (of_nat i))"
  obtain u rest where u: "UpdateMintingColor cr ?o = ok u"
      and rest: "executeOutputs cr txID (Suc i) outs = ok rest" and res: "res = u # rest"
    using Cons.prems(1) by (auto simp: bindE_eq_Inr_iff)
  have new: "color_is_new cr ?o" and news: "colors_are_new cr txID (Suc i) outs"
    using Cons.prems(2) by (auto simp: colors_are_new_Cons)
  note IH = Cons.IH[OF rest news]
  note w = UpdateMintingColor_worth[OF om u new] and a = UpdateMintingColor_amount[OF om u new]
  have "amount ColorMint (om_entries cr (Output_Balances cr u)) = 0"
    using a[of ColorMint] new by (auto simp: color_is_new_def)
  moreover have "amount c (funds cr res) = amount c (funds cr (out # outs))"
    if "c \<noteq> ColorMint" "c \<notin> minted_colors cr txID i (length (out # outs))" for c
    using that IH a[of c] by (simp add: res minted_colors_Suc)
  ultimately show ?case using IH w by (simp add: res)
qed simp

section \<open>Alias addresses\<close>

definition aliases_of :: "'m Output list \<Rightarrow> 'm AliasOutput list" where
  "aliases_of outs = concat (map (\<lambda>out. case out of AliasOutput a \<Rightarrow> [a] | _ \<Rightarrow> []) outs)"

lemma aliases_of_simps [simp]:
  "aliases_of [] = []" "aliases_of (AliasOutput a # outs) = a # aliases_of outs"
  "aliases_of (SigLockedSingleOutput s # outs) = aliases_of outs"
  "aliases_of (SigLockedColoredOutput c # outs) = aliases_of outs"
  "aliases_of (ExtendedLockedOutput x # outs) = aliases_of outs"
  by (simp_all add: aliases_of_def)

lemma in_aliases_of: "a \<in> set (aliases_of outs) \<longleftrightarrow> AliasOutput a \<in> set outs"
  by (auto simp: aliases_of_def split: Output.splits)

lemma gatherAliases_iff:
  "gatherAliases cr outs found =
     (if distinct (map (GetAliasAddress cr) (aliases_of outs)) \<and>
         GetAliasAddress cr ` set (aliases_of outs) \<inter> fst ` set found = {}
      then Some (found @ map (\<lambda>a. (GetAliasAddress cr a, a)) (aliases_of outs))
      else None)"
proof (induction cr outs found rule: gatherAliases.induct)
  case (2 cr al outs found)
  show ?case
  proof (cases "map_of found (GetAliasAddress cr al)")
    case None
    then have n: "GetAliasAddress cr al \<notin> fst ` set found" by (simp add: map_of_eq_None_iff)
    have u: "AList.update (GetAliasAddress cr al) al found =
        found @ [(GetAliasAddress cr al, al)]" by (rule update_new_append[OF None])
    have "gatherAliases cr (AliasOutput al # outs) found =
        gatherAliases cr outs (found @ [(GetAliasAddress cr al, al)])"
      using None u by simp
    also have "\<dots> = (if distinct (map (GetAliasAddress cr) (aliases_of outs)) \<and>
         GetAliasAddress cr ` set (aliases_of outs) \<inter>
           fst ` set (found @ [(GetAliasAddress cr al, al)]) = {}
      then Some ((found @ [(GetAliasAddress cr al, al)]) @
             map (\<lambda>a. (GetAliasAddress cr a, a)) (aliases_of outs))
      else None)"
      using "2.IH" None u by simp
    finally show ?thesis using n by auto
  next
    case (Some x)
    then have "GetAliasAddress cr al \<in> fst ` set found" by (rule map_of_SomeD_fst)
    then show ?thesis using Some by auto
  qed
qed auto

lemma checkInitialStates_iff:
  "distinct (map fst outs) \<Longrightarrow>
   checkInitialStates outs ins \<longleftrightarrow>
     (\<forall>(addy, output) \<in> set outs. addy \<in> fst ` set ins \<or>
        isOrigin output \<and> AliasAddress_IsNil (aliasAddress output) \<and> stateIndex output = 0)"
proof (induction outs arbitrary: ins)
  case (Cons x outs)
  obtain addy outp where x: "x = (addy, outp)" by (cases x)
  have keys: "fst ` set (AList.delete addy ins) = fst ` set ins - {addy}"
    by (simp add: delete_keys[symmetric] flip: set_map) (auto simp: AList.delete_eq)
  have other: "a \<noteq> addy" if "(a, out) \<in> set outs" for a out
    using Cons.prems that by (force simp: x)
  show ?case
  proof (cases "map_of ins addy")
    case None
    then have "addy \<notin> fst ` set ins" by (simp add: map_of_eq_None_iff)
    then show ?thesis using None Cons by (auto simp: x)
  next
    case (Some y)
    then have "addy \<in> fst ` set ins" by (rule map_of_SomeD_fst)
    moreover have "checkInitialStates outs (AList.delete addy ins) \<longleftrightarrow>
        (\<forall>(a, out) \<in> set outs. a \<in> fst ` set ins \<or>
          isOrigin out \<and> AliasAddress_IsNil (aliasAddress out) \<and> stateIndex out = 0)"
      using Cons.IH[of "AList.delete addy ins"] Cons.prems other by (auto simp: x keys)
    ultimately show ?thesis using Some by (simp add: x)
  qed
qed simp

lemma AliasInitialStateValid_iff:
  "AliasInitialStateValid cr inputs tx \<longleftrightarrow>
     distinct (map (GetAliasAddress cr) (aliases_of (ess_Outputs (Essence tx)))) \<and>
     (aliases_of (ess_Outputs (Essence tx)) = [] \<or>
      distinct (map (GetAliasAddress cr) (aliases_of inputs)) \<and>
      (\<forall>a \<in> set (aliases_of (ess_Outputs (Essence tx))).
         GetAliasAddress cr a \<in> GetAliasAddress cr ` set (aliases_of inputs) \<or>
         isOrigin a \<and> AliasAddress_IsNil (aliasAddress a) \<and> stateIndex a = 0))"
proof -
  let ?outs = "aliases_of (ess_Outputs (Essence tx))" and ?ins = "aliases_of inputs"
  let ?tag = "\<lambda>a. (GetAliasAddress cr a, a)"
  have d: "distinct (map fst (map ?tag ?outs))" if "distinct (map (GetAliasAddress cr) ?outs)"
    using that by (simp add: comp_def)
  have "checkInitialStates (map ?tag ?outs) (map ?tag ?ins) \<longleftrightarrow>
      (\<forall>a \<in> set ?outs. GetAliasAddress cr a \<in> GetAliasAddress cr ` set ?ins \<or>
         isOrigin a \<and> AliasAddress_IsNil (aliasAddress a) \<and> stateIndex a = 0)"
    if "distinct (map (GetAliasAddress cr) ?outs)"
    unfolding checkInitialStates_iff[OF d[OF that]] by (auto simp: image_image)
  then show ?thesis
    by (auto simp: AliasInitialStateValid_def gatherAliases_iff)
qed

end
