(* ===== verification/VMProperties.thy ===== *)
theory VMProperties
  imports VMLaws
begin

text \<open>
  The properties of the ledger VM, each with a concrete transaction on which it is applied.
\<close>

section \<open>A concrete environment\<close>

text \<open>Keys sign by repeating themselves; the hash reverses its argument and keeps 32 bytes.\<close>

definition env0 :: "coinmap vm_env" where
  "env0 = \<lparr>om_New = DAList.empty, om_Set = coinmap_Set, om_Get = DAList.lookup,
           om_entries = DAList.impl_of, om_Size = (\<lambda>m. length (DAList.impl_of m)),
           Sum256 = (\<lambda>b. take 32 (7 # rev b @ replicate 32 0)),
           VerifySignature = (\<lambda>pk data sig. sig = pk @ data),
           edPublicKey_Bytes = Some,
           bls_IsValid = (\<lambda>pk sig data. sig = pk @ data),
           blsPublicKey_Bytes = id,
           Essence_Bytes = (\<lambda>e. Some [ucast (Version e)]),
           Transaction_Bytes = (\<lambda>t. [1, 2, 3]),
           Output_Bytes = (\<lambda>out. OutputID_Bytes (Output_ID out)),
           Address_Bytes = Address_Digest,
           NewIdentifier = (\<lambda>b. take 32 (b @ replicate 32 9)),
           Balances_Bytes = (\<lambda>_. [])\<rparr>"

interpretation env0: ordered_map env0
  by unfold_locales
    (simp_all add: env0_def coinmap_Set_def DAList.empty.rep_eq DAList.update.rep_eq
      DAList.lookup.rep_eq map_of_eq_None_iff[symmetric])

definition key0 :: bytes where "key0 = replicate 32 5"

definition address0 :: Address where "address0 = NewED25519Address env0 key0"

definition signed0 :: UnlockBlock where
  "signed0 = SignatureUnlockBlock (ED25519Signature key0 (key0 @ [0]))"

definition coins0 :: "coins \<Rightarrow> coinmap" where "coins0 = NewColoredBalances env0"

definition essence0 :: "coinmap Output list \<Rightarrow> coinmap TransactionEssence" where
  "essence0 outs = NewTransactionEssence 0 50 [] [] [EmptyOutputID] outs"

definition spend0 :: "coinmap Transaction" where
  "spend0 = \<lparr>tx_ID = EmptyTransactionID,
     Essence = essence0 [SigLockedColoredOutput
       (NewSigLockedColoredOutput (coins0 [(ColorZIPP, 60), (ColorMint, 40)]) address0)],
     UnlockBlocks = [signed0]\<rparr>"

definition owned0 :: "coinmap Output list" where
  "owned0 = [SigLockedSingleOutput (NewSigLockedSingleOutput 100 address0)]"

section \<open>Execution\<close>

lemma executeTransaction_ok:
  assumes "executeTransaction env rng tx inputs = ok (Inr outs)"
  shows "TransactionBalancesValid env rng inputs (ess_Outputs (Essence tx))"
    and "UnlockBlocksValid env inputs tx = ok True"
    and "AliasInitialStateValid env inputs tx"
    and "executeOutputs env (Transaction_ID env tx) 0 (ess_Outputs (Essence tx)) = ok outs"
proof -
  show b: "TransactionBalancesValid env rng inputs (ess_Outputs (Essence tx))"
    using assms by (auto simp: executeTransaction_def split: if_splits)
  obtain u where u: "UnlockBlocksValid env inputs tx = ok u"
    using assms b by (auto simp: executeTransaction_def bindE_eq_Inr_iff)
  then have "u" using assms b by (cases u) (auto simp: executeTransaction_def)
  then show "UnlockBlocksValid env inputs tx = ok True" using u by simp
  with assms b show "AliasInitialStateValid env inputs tx"
    by (auto simp: executeTransaction_def split: if_splits)
  with assms b u \<open>u\<close>
  show "executeOutputs env (Transaction_ID env tx) 0 (ess_Outputs (Essence tx)) = ok outs"
    by (auto simp: executeTransaction_def bindE_eq_Inr_iff)
qed

lemma spend0_executes:
  "\<exists>outs. executeTransaction env0 id spend0 owned0 = ok (Inr outs)"
proof -
  have "(case executeTransaction env0 id spend0 owned0 of Inr (Inr _) \<Rightarrow> True | _ \<Rightarrow> False)"
    by code_simp
  then show ?thesis by (auto split: sum.splits)
qed

lemma spend0_new_colors:
  "colors_are_new env0 (Transaction_ID env0 spend0) 0 (ess_Outputs (Essence spend0))"
  by code_simp

text \<open>C1: A transaction that executes neither creates nor destroys funds: its outputs, with the
  minted coins colored, are worth exactly what its inputs are worth; no placeholder coins remain;
  and of every other color that is not new in this transaction there is at most as much as on the
  inputs.\<close>

theorem execute_conserves_funds:
  assumes "ordered_map env" and "\<And>m. mset (rng m) = mset m"
    and "executeTransaction env rng tx inputs = ok (Inr outs)" and "inputs \<noteq> []"
    and "colors_are_new env (Transaction_ID env tx) 0 (ess_Outputs (Essence tx))"
  shows "worth (funds env outs) = worth (funds env inputs) \<and>
         amount ColorMint (funds env outs) = 0 \<and>
         (\<forall>c. c \<noteq> ColorZIPP \<longrightarrow>
            c \<notin> minted_colors env (Transaction_ID env tx) 0 (length (ess_Outputs (Essence tx))) \<longrightarrow>
            amount c (funds env outs) \<le> amount c (funds env inputs))"
proof -
  note ex = executeTransaction_ok[OF assms(3)]
  note fu = executeOutputs_funds[OF assms(1) ex(4) assms(5)]
  note co = TransactionBalancesValid_conserves[OF assms(2) ex(1) assms(4)]
  have "amount c (funds env outs) \<le> amount c (funds env inputs)"
    if "c \<noteq> ColorZIPP"
      "c \<notin> minted_colors env (Transaction_ID env tx) 0 (length (ess_Outputs (Essence tx)))" for c
    using fu co(2)[of c] that by (cases "c = ColorMint") auto
  then show ?thesis using fu co(1) by simp
qed

lemma execute_conserves_funds_witness:
  "\<exists>outs. executeTransaction env0 id spend0 owned0 = ok (Inr outs) \<and> worth (funds env0 outs) = 100"
proof -
  obtain outs where outs: "executeTransaction env0 id spend0 owned0 = ok (Inr outs)"
    using spend0_executes by blast
  have "worth (funds env0 outs) = worth (funds env0 owned0)"
    using execute_conserves_funds[OF env0.ordered_map_axioms _ outs _ spend0_new_colors]
    by (simp add: owned0_def)
  also have "worth (funds env0 owned0) = 100" by code_simp
  finally show ?thesis using outs by blast
qed

text \<open>C2: Every input of a transaction that executes is authorised: its unlock block is a signature
  for the address that controls it, or names an alias among the inputs that has that address, is
  used for a state transition, and is authorised itself, so that each chain of aliases ends in a
  valid signature.\<close>

theorem execute_authorised:
  assumes "executeTransaction env rng tx inputs = ok (Inr outs)" and "i < length inputs"
  shows "authorised env tx inputs i"
  by (rule UnlockBlocksValid_authorised[OF executeTransaction_ok(2)[OF assms(1)] assms(2)])

lemma execute_authorised_witness: "authorised env0 spend0 owned0 0"
  using spend0_executes execute_authorised[of env0 id spend0 owned0 _ 0] by (auto simp: owned0_def)

section \<open>Aliases\<close>

text \<open>What a state transition and a governance transition must leave as it is.\<close>

definition state_transition_legal ::
    "('m, 'z) crypto_scheme \<Rightarrow> 'm AliasOutput \<Rightarrow> 'm AliasOutput \<Rightarrow> bool" where
  "state_transition_legal cr a c \<longleftrightarrow>
     stateIndex c = stateIndex a + 1 \<and> stateAddress c = stateAddress a \<and>
     governingAddress c = governingAddress a \<and> governanceMetadata c = governanceMetadata a \<and>
     isDelegated c = isDelegated a \<and> DelegationTimelock c = DelegationTimelock a \<and>
     (isDelegated a \<longrightarrow> map_of (om_entries cr (balances c)) = map_of (om_entries cr (balances a)))"

definition governance_transition_legal ::
    "('m, 'z) crypto_scheme \<Rightarrow> 'm AliasOutput \<Rightarrow> 'm AliasOutput \<Rightarrow> gotime \<Rightarrow> bool" where
  "governance_transition_legal cr a c nowis \<longleftrightarrow>
     stateIndex c = stateIndex a \<and> stateData c = stateData a \<and>
     map_of (om_entries cr (balances c)) = map_of (om_entries cr (balances a)) \<and>
     (isDelegated a \<longrightarrow> delegationTimelock a = 0 \<or> delegationTimelock a \<le> nowis)"

lemma Equals_nil_True: "Equals_nil x y = ok True \<longleftrightarrow> (\<exists>a. x = Some a \<and> y = Some a)"
  by (cases x; cases y) (auto simp: Equals_nil_def)

lemma validateStateTransition_None:
  assumes "ordered_map cr" and "validateStateTransition cr a c nowis = ok None"
  shows "state_transition_legal cr a c"
proof -
  obtain sa where sa: "stateAddress a = Some sa" "stateAddress c = Some sa"
    using assms(2) by (auto simp: validateStateTransition_def bindE_eq_Inr_iff Equals_nil_def
        split: if_splits)
  then have s: "Equals_nil (stateAddress a) (stateAddress c) = ok True" by (simp add: Equals_nil_True)
  have g: "governingAddress c = governingAddress a"
    using assms(2) unfolding validateStateTransition_def s
    by (cases "governingAddress a"; cases "governingAddress c")
      (auto simp: Equals_nil_def IsSelfGoverned_def split: if_splits)
  show ?thesis
    using assms(2) ordered_map.equalColoredBalances_iff[OF assms(1)] unfolding validateStateTransition_def s
    by (cases "governingAddress a")
      (auto simp: state_transition_legal_def sa g Equals_nil_def IsSelfGoverned_def split: if_splits)
qed

lemma validateGovernanceTransition_None:
  assumes "ordered_map cr" and "validateGovernanceTransition cr a c nowis = None"
  shows "governance_transition_legal cr a c nowis"
  using assms(2) ordered_map.equalColoredBalances_iff[OF assms(1)]
  by (auto simp: validateGovernanceTransition_def governance_transition_legal_def
      DelegationTimeLockedNow_def IsZero_def After_def split: if_splits)

lemma filter_none: "k \<notin> f ` set xs \<Longrightarrow> filter (\<lambda>x. f x = k) xs = []"
  by (induction xs) auto

lemma findChained_loop_Some:
  "findChained_loop cr addr outs (Some r) = Inr x \<Longrightarrow>
   x = Some r \<and> addr \<notin> GetAliasAddress cr ` set (aliases_of outs)"
  by (induction cr addr outs "Some r" rule: findChained_loop.induct) (auto split: if_splits)

lemma findChained_loop_None:
  "findChained_loop cr addr outs None = Inr x \<Longrightarrow>
   (case x of
      None \<Rightarrow> addr \<notin> GetAliasAddress cr ` set (aliases_of outs)
    | Some c \<Rightarrow> filter (\<lambda>o'. GetAliasAddress cr o' = addr) (aliases_of outs) = [c])"
proof (induction cr addr outs "None :: 'a AliasOutput option" rule: findChained_loop.induct)
  case (2 cr addr al outs)
  show ?case
  proof (cases "GetAliasAddress cr al = addr")
    case True
    then have "x = Some al \<and> addr \<notin> GetAliasAddress cr ` set (aliases_of outs)"
      using 2(2) by (auto dest: findChained_loop_Some)
    moreover from this have "filter (\<lambda>o'. GetAliasAddress cr o' = addr) (aliases_of outs) = []"
      by (simp add: filter_none)
    ultimately show ?thesis using True by simp
  next
    case False
    then show ?thesis using 2 by (auto split: option.split)
  qed
qed (auto split: option.splits)

text \<open>C8: An alias that a transaction consumes either ends, which needs exactly the minimum deposit
  unless it is delegated with an expired timelock, or is continued by exactly one output with its
  address and its immutable data; a state transition then counts the state index up by one (modulo
  2 to the 32) and keeps the controllers and the delegation, a governance transition keeps the
  state, its index and the tokens and has to wait for the delegation timelock.\<close>

theorem execute_alias_rules:
  assumes "ordered_map env" and "executeTransaction env rng tx inputs = ok (Inr outs)"
    and "AliasOutput a \<in> set inputs"
  shows "case filter (\<lambda>o'. GetAliasAddress env o' = GetAliasAddress env a)
                (aliases_of (ess_Outputs (Essence tx))) of
           [] \<Rightarrow> if isDelegated a
                 then delegationTimelock a = 0 \<or> delegationTimelock a \<le> Timestamp (Essence tx)
                 else om_entries env (balances a) = [(ColorZIPP, DustThresholdAliasOutputZIPP)]
         | [c] \<Rightarrow> immutableData c = immutableData a \<and>
                 (if isGovernanceUpdate c
                  then governance_transition_legal env a c (Timestamp (Essence tx))
                  else state_transition_legal env a c)
         | _ \<Rightarrow> False"
proof -
  let ?e = "Essence tx"
  have tr: "alias_transition_ok env a ?e"
    by (rule UnlockBlocksValid_alias[OF executeTransaction_ok(2)[OF assms(2)] assms(3)])
  then obtain x where x: "findChained_loop env (GetAliasAddress env a) (ess_Outputs ?e) None = Inr x"
    by (cases "findChainedOutputAndCheckFork env a ?e")
      (auto simp: alias_transition_ok_def findChainedOutputAndCheckFork_def)
  note ch = findChained_loop_None[OF x]
  show ?thesis
  proof (cases x)
    case None
    then have "filter (\<lambda>o'. GetAliasAddress env o' = GetAliasAddress env a)
        (aliases_of (ess_Outputs ?e)) = []" using ch by (simp add: filter_none)
    moreover have "validateDestroyTransitionNow env a (Timestamp ?e) = None"
      using tr by (simp add: alias_transition_ok_def findChainedOutputAndCheckFork_def x None)
    ultimately show ?thesis
      by (auto simp: validateDestroyTransitionNow_def DelegationTimeLockedNow_def IsZero_def After_def
          ordered_map.IsExactDustMinimum_iff[OF assms(1)] split: if_splits)
  next
    case (Some c)
    then have f: "filter (\<lambda>o'. GetAliasAddress env o' = GetAliasAddress env a)
        (aliases_of (ess_Outputs ?e)) = [c]" using ch by simp
    have v: "validateTransition env a c ?e = ok None"
      using tr by (simp add: alias_transition_ok_def findChainedOutputAndCheckFork_def x Some)
    then show ?thesis
      using validateStateTransition_None[OF assms(1), of a c] f
        validateGovernanceTransition_None[OF assms(1), of a c]
      by (auto simp: validateTransition_def split: if_splits)
  qed
qed

text \<open>C9: After a transaction that executes, no two of its alias outputs have the same address, and
  each of them continues an alias that the transaction consumes or is new: marked as origin, with
  state index 0 and without an address of its own, so that its address is the hash of its
  identifier.\<close>

theorem execute_alias_unique:
  assumes "executeTransaction env rng tx inputs = ok (Inr outs)"
  shows "distinct (map (GetAliasAddress env) (aliases_of (ess_Outputs (Essence tx)))) \<and>
         (\<forall>a \<in> set (aliases_of (ess_Outputs (Essence tx))).
            GetAliasAddress env a \<in> GetAliasAddress env ` set (aliases_of inputs) \<or>
            (isOrigin a \<and> stateIndex a = 0 \<and>
             GetAliasAddress env a = NewAliasAddress env (OutputID_Bytes (outputID a))))"
proof -
  have "AliasInitialStateValid env inputs tx" by (rule executeTransaction_ok(3)[OF assms])
  then show ?thesis
    unfolding AliasInitialStateValid_iff by (auto simp: GetAliasAddress_def)
qed

text \<open>An alias in a state transition, and the transaction that carries it out.\<close>

definition alias0 :: "coinmap AliasOutput" where
  "alias0 = \<lparr>outputID = EmptyOutputID, balances = coins0 [(ColorZIPP, 150)],
     aliasAddress = replicate 32 3, stateAddress = Some address0, stateIndex = 6,
     stateData = [1], governanceMetadata = [], immutableData = [2], isGovernanceUpdate = False,
     governingAddress = None, isOrigin = False, isDelegated = False, delegationTimelock = 0\<rparr>"

definition alias1 :: "coinmap AliasOutput" where
  "alias1 = alias0\<lparr>stateIndex := 7, stateData := [1, 1]\<rparr>"

definition step0 :: "coinmap Transaction" where
  "step0 = \<lparr>tx_ID = EmptyTransactionID, Essence = essence0 [AliasOutput alias1],
     UnlockBlocks = [signed0]\<rparr>"

lemma step0_executes: "\<exists>outs. executeTransaction env0 id step0 [AliasOutput alias0] = ok (Inr outs)"
proof -
  have "(case executeTransaction env0 id step0 [AliasOutput alias0] of
      Inr (Inr _) \<Rightarrow> True | _ \<Rightarrow> False)"
    by code_simp
  then show ?thesis by (auto split: sum.splits)
qed

lemma execute_alias_rules_witness: "state_transition_legal env0 alias0 alias1"
proof -
  obtain outs where outs: "executeTransaction env0 id step0 [AliasOutput alias0] = ok (Inr outs)"
    using step0_executes by blast
  have "GetAliasAddress env0 alias1 = GetAliasAddress env0 alias0" by code_simp
  moreover have "ess_Outputs (Essence step0) = [AliasOutput alias1]"
    by (simp add: step0_def essence0_def NewTransactionEssence_def)
  ultimately show ?thesis
    using execute_alias_rules[OF env0.ordered_map_axioms outs, of alias0]
    by (simp add: alias1_def alias0_def)
qed

lemma execute_alias_unique_witness:
  "GetAliasAddress env0 alias1 \<in> GetAliasAddress env0 ` set (aliases_of [AliasOutput alias0])"
proof -
  obtain outs where outs: "executeTransaction env0 id step0 [AliasOutput alias0] = ok (Inr outs)"
    using step0_executes by blast
  then show ?thesis
    using execute_alias_unique[OF outs]
    by (simp add: step0_def essence0_def NewTransactionEssence_def alias1_def alias0_def)
qed

section \<open>Panics\<close>

text \<open>C33: A transaction with fewer unlock blocks than inputs passes the validation of decoded
  transactions, which never compares the two numbers, and makes executeTransaction panic with an
  index out of range: here the transaction without any unlock block.\<close>

theorem execute_missing_unlock_blocks_panics:
  assumes "UnlockBlocks tx = []" and "inputs \<noteq> []"
    and "TransactionBalancesValid env rng inputs (ess_Outputs (Essence tx))"
  shows "validateTransaction tx = None \<and> executeTransaction env rng tx inputs = fail IndexOutOfRange"
proof -
  have "checkReferenceCycle [] = ok (Inr False)" by code_simp
  moreover obtain i rest where "inputs = i # rest" using assms(2) by (cases inputs) auto
  ultimately show ?thesis
    using assms(1,3)
    by (simp add: validateTransaction_def executeTransaction_def UnlockBlocksValid_def
        UnlockBlocksValidWithError_def index_def)
qed

lemma execute_missing_unlock_blocks_panics_witness:
  "executeTransaction env0 id (spend0\<lparr>UnlockBlocks := []\<rparr>) owned0 = fail IndexOutOfRange"
proof -
  have "TransactionBalancesValid env0 id owned0 (ess_Outputs (Essence spend0))" by code_simp
  then show ?thesis
    using execute_missing_unlock_blocks_panics[of "spend0\<lparr>UnlockBlocks := []\<rparr>" owned0 env0 id]
    by (simp add: owned0_def)
qed

text \<open>The guard of the alias references compares the index with the number of inputs by greater
  instead of greater or equal: unlocking an alias by a reference panics exactly when the index is
  the number of inputs, and larger indices are refused with an error.\<close>

theorem alias_reference_off_by_one:
  shows "(unlockedByAliasIndex cr (Some (AliasAddress d)) essence k inputs = fail IndexOutOfRange \<longleftrightarrow>
            unat k = length inputs) \<and>
         (length inputs < unat k \<longleftrightarrow>
          unlockedByAliasIndex cr (Some (AliasAddress d)) essence k inputs = ok (False, Some WrongAliasIndex))"
  by (cases "unat k = length inputs"; cases "length inputs < unat k")
    (auto simp: unlockedByAliasIndex_def index_def split: Output.split)

end
