(* ===== verification/OutputLaws.thy ===== *)
theory OutputLaws
  imports VMProperties
begin

text \<open>
  Properties of the constructors of outputs: the collections NewOutputs and NewInputs are
  deterministic, and NewAliasOutputNext prepares a legal transition.
\<close>

section \<open>Deterministic collections\<close>

lemma dedup_by_props:
  "snd ` set (dedup_by ser seen xs) = ser ` set xs - set seen \<and>
   distinct (map snd (dedup_by ser seen xs)) \<and>
   (\<forall>(x, m) \<in> set (dedup_by ser seen xs). x \<in> set xs \<and> m = ser x)"
proof (induction xs arbitrary: seen)
  case (Cons x xs)
  show ?case
  proof (cases "ser x \<in> set seen")
    case True
    then show ?thesis using Cons[of seen] by auto
  next
    case False
    note IH = Cons[of "ser x # seen"]
    have keys: "snd ` set (dedup_by ser (ser x # seen) xs) = ser ` set xs - insert (ser x) (set seen)"
      and d: "distinct (map snd (dedup_by ser (ser x # seen) xs))"
      and vals: "\<forall>(y, m) \<in> set (dedup_by ser (ser x # seen) xs). y \<in> set xs \<and> m = ser y"
      using IH by auto
    have unfold: "dedup_by ser seen (x # xs) = (x, ser x) # dedup_by ser (ser x # seen) xs"
      using False by (simp add: Let_def)
    have "snd ` set (dedup_by ser seen (x # xs)) = ser ` set (x # xs) - set seen"
      unfolding unfold using False keys by auto
    moreover have "ser x \<notin> snd ` set (dedup_by ser (ser x # seen) xs)" unfolding keys by simp
    then have "distinct (map snd (dedup_by ser seen (x # xs)))" unfolding unfold using d by simp
    moreover have "\<forall>(y, m) \<in> set (dedup_by ser seen (x # xs)). y \<in> set (x # xs) \<and> m = ser y"
      unfolding unfold using vals by auto
    ultimately show ?thesis by blast
  qed
qed simp

definition sorted_dedup :: "('a \<Rightarrow> bytes) \<Rightarrow> 'a list \<Rightarrow> 'a list" where
  "sorted_dedup ser xs = map fst (sort_by (\<lambda>x y. bytes_less (snd x) (snd y)) (dedup_by ser [] xs))"

lemma sorted_sort_by_key:
  assumes "distinct (map f xs)"
  shows "sorted_wrt (\<lambda>x y. bytes_less (f x) (f y)) (sort_by (\<lambda>x y. bytes_less (f x) (f y)) xs)"
  using assms
proof (induction xs)
  case (Cons x xs)
  let ?lt = "\<lambda>x y. bytes_less (f x) (f y)"
  have ins: "sorted_wrt ?lt ys \<Longrightarrow> f x \<notin> f ` set ys \<Longrightarrow> sorted_wrt ?lt (insert_by ?lt x ys)" for ys
  proof (induction ys)
    case (Cons y ys)
    have set_ins: "set (insert_by ?lt x ys) = insert x (set ys)"
      by (metis mset_insert_by set_mset_add_mset_insert set_mset_mset)
    show ?case
    proof (cases "?lt y x")
      case True
      with Cons show ?thesis by (auto simp: set_ins)
    next
      case False
      with Cons.prems(2) have "?lt x y" using bytes_less_linear[of "f x" "f y"] by auto
      with Cons.prems(1) False show ?thesis by (auto intro: bytes_less_trans)
    qed
  qed simp
  have "f x \<notin> f ` set (sort_by ?lt xs)" using Cons.prems by simp
  then have "sorted_wrt ?lt (insert_by ?lt x (sort_by ?lt xs))" using Cons by (intro ins) auto
  then show ?case by (simp add: sort_by_def)
qed (simp add: sort_by_def)

lemma sorted_dedup_props:
  "sorted_wrt (\<lambda>x y. bytes_less (ser x) (ser y)) (sorted_dedup ser xs) \<and>
   ser ` set (sorted_dedup ser xs) = ser ` set xs \<and> set (sorted_dedup ser xs) \<subseteq> set xs"
proof -
  let ?d = "dedup_by ser [] xs" and ?lt = "\<lambda>x y. bytes_less (snd x) (snd y)"
  note props = dedup_by_props[of ser "[]" xs]
  have "sorted_wrt ?lt (sort_by ?lt ?d)" using props by (intro sorted_sort_by_key) simp
  moreover have snd: "snd e = ser (fst e)" "fst e \<in> set xs" if "e \<in> set (sort_by ?lt ?d)" for e
    using that props by (auto simp: case_prod_unfold)
  ultimately have "sorted_wrt (\<lambda>x y. bytes_less (ser (fst x)) (ser (fst y))) (sort_by ?lt ?d)"
    by (elim sorted_wrt_mono_rel[rotated]) auto
  then have sorted: "sorted_wrt (\<lambda>x y. bytes_less (ser x) (ser y)) (sorted_dedup ser xs)"
    by (simp add: sorted_dedup_def sorted_wrt_map)
  have "ser ` set (sorted_dedup ser xs) = (\<lambda>e. ser (fst e)) ` set ?d"
    by (simp add: sorted_dedup_def image_image)
  also have "\<dots> = snd ` set ?d" by (rule image_cong) (use snd in auto)
  finally show ?thesis using sorted snd(2) props by (auto simp: sorted_dedup_def)
qed

lemma sorted_strict_unique:
  "sorted_wrt (\<lambda>x y. bytes_less (f x) (f y)) xs \<Longrightarrow> sorted_wrt (\<lambda>x y. bytes_less (f x) (f y)) ys \<Longrightarrow>
   f ` set xs = f ` set ys \<Longrightarrow> map f xs = map f ys"
proof (induction xs arbitrary: ys)
  case (Cons x xs)
  then obtain y ys' where ys: "ys = y # ys'" by (cases ys) auto
  have "f x = f y"
  proof (rule ccontr)
    assume ne: "f x \<noteq> f y"
    have "f x \<in> f ` set ys" "f y \<in> f ` set (x # xs)" using Cons.prems(3) ys by auto
    then have "f x \<in> f ` set ys'" "f y \<in> f ` set xs" using ne by (auto simp: ys)
    then have "bytes_less (f y) (f x)" "bytes_less (f x) (f y)" using Cons.prems(1,2) by (auto simp: ys)
    then show False using bytes_less_trans bytes_less_irrefl by blast
  qed
  moreover have "f x \<notin> f ` set xs" "f y \<notin> f ` set ys'" using Cons.prems(1,2) by (auto simp: ys)
  ultimately have "f ` set xs = f ` set ys'" using Cons.prems(3) by (simp add: ys insert_ident)
  with Cons \<open>f x = f y\<close> show ?case by (auto simp: ys)
qed simp

lemma sorted_dedup_unique:
  assumes "set xs = set ys" and "inj_on ser (set xs)"
  shows "sorted_dedup ser xs = sorted_dedup ser ys"
proof -
  note x = sorted_dedup_props[of ser xs] and y = sorted_dedup_props[of ser ys]
  have "map ser (sorted_dedup ser xs) = map ser (sorted_dedup ser ys)"
    by (rule sorted_strict_unique) (use x y assms(1) in auto)
  moreover have "inj_on ser (set (sorted_dedup ser xs) \<union> set (sorted_dedup ser ys))"
    using x y assms by (auto intro: inj_on_subset)
  ultimately show ?thesis by (rule map_inj_on)
qed

text \<open>The outputs of a transaction are ordered deterministically: whatever the order and the
  repetitions in which they are given, NewOutputs returns the same list, strictly sorted by
  serialization, with between 1 and 127 elements, or panics.\<close>

theorem NewOutputs_deterministic:
  assumes "set outs = set outs'" and "inj_on (Output_Bytes env) (set outs)"
  shows "devnetvm_NewOutputs env outs = devnetvm_NewOutputs env outs' \<and>
         (case devnetvm_NewOutputs env outs of
            Inl _ \<Rightarrow> card (set outs) = 0 \<or> 127 < card (set outs)
          | Inr res \<Rightarrow> set res = set outs \<and> distinct res \<and> 1 \<le> length res \<and> length res \<le> 127 \<and>
              sorted_wrt (\<lambda>x y. bytes_less (Output_Bytes env x) (Output_Bytes env y)) res)"
proof -
  let ?r = "sorted_dedup (Output_Bytes env) outs"
  have eq: "devnetvm_NewOutputs env os =
      (let r = sorted_dedup (Output_Bytes env) os
       in if length r < 1 then fail (Raised ''MinOutputCount'')
          else if 127 < length r then fail (Raised ''MaxOutputCount'') else ok r)" for os
    by (simp add: devnetvm_NewOutputs_def sorted_dedup_def MinOutputCount_def MaxOutputCount_def Let_def)
  note p = sorted_dedup_props[of "Output_Bytes env" outs]
  have s: "set ?r = set outs"
    using p assms(2) by (meson inj_on_image_eq_iff order_refl)
  have d: "distinct ?r"
    using p by (auto simp: distinct_conv_nth sorted_wrt_iff_nth_less) (metis bytes_less_irrefl nat_neq_iff)
  then have "length ?r = card (set outs)" using s distinct_card by metis
  then show ?thesis
    using p s d sorted_dedup_unique[OF assms] by (auto simp: eq Let_def Suc_le_eq card_gt_0_iff)
qed

lemma NewOutputs_deterministic_witness:
  "devnetvm_NewOutputs env0 [SigLockedSingleOutput (NewSigLockedSingleOutput 1 address0),
     SigLockedSingleOutput (NewSigLockedSingleOutput 1 address0)] =
   devnetvm_NewOutputs env0 [SigLockedSingleOutput (NewSigLockedSingleOutput 1 address0)]"
  by (rule NewOutputs_deterministic[THEN conjunct1]) auto

section \<open>The next output of an alias\<close>

lemma NewAliasOutputNext_fields:
  assumes "NewAliasOutputNext cr a gu = ok c"
  shows "c = a\<lparr>aliasAddress := GetAliasAddress cr a, balances := ColoredBalances_Clone cr (balances a),
              isOrigin := False, isGovernanceUpdate := (gu \<noteq> [] \<and> hd gu),
              stateIndex := (if gu \<noteq> [] \<and> hd gu then stateIndex a else stateIndex a + 1)\<rparr>"
    and "\<exists>sa. stateAddress a = Some sa"
  using assms
  by (auto simp: NewAliasOutputNext_def Alias_clone_def bindE_eq_Inr_iff Let_def hd_conv_nth
      option.map_ident Address_Clone_id[abs_def] split: if_splits)

text \<open>The output that NewAliasOutputNext prepares is accepted by validateTransition, as a state
  transition or as a governance transition, whenever the delegation timelock of the alias permits
  that kind of transition at the timestamp of the transaction.\<close>

theorem NewAliasOutputNext_legal:
  assumes "ordered_map cr" and "NewAliasOutputNext cr a gu = ok c"
    and "isDelegated a \<longrightarrow> delegationTimelock a = 0 \<or>
         DelegationTimeLockedNow a (Timestamp essence) = (\<not> isGovernanceUpdate c)"
  shows "validateTransition cr a c essence = ok None"
proof -
  note f = NewAliasOutputNext_fields[OF assms(2)]
  obtain sa where sa: "stateAddress a = Some sa" using f(2) by blast
  have addr: "GetAliasAddress cr c = GetAliasAddress cr a"
    unfolding f(1) by (simp add: GetAliasAddress_def)
  have bal: "equalColoredBalances cr (balances a) (balances c)"
    unfolding f(1) ordered_map.equalColoredBalances_iff[OF assms(1)]
    by (simp add: ordered_map.entries_Clone[OF assms(1)])
  have gov: "governingAddress c = governingAddress a" and gm: "governanceMetadata c = governanceMetadata a"
    and sd: "stateData c = stateData a" and st: "stateAddress c = stateAddress a"
    and del: "isDelegated c = isDelegated a" "delegationTimelock c = delegationTimelock a"
    and imd: "immutableData c = immutableData a"
    and idx: "stateIndex c = (if isGovernanceUpdate c then stateIndex a else stateIndex a + 1)"
    unfolding f(1) by simp_all
  show ?thesis
  proof (cases "isGovernanceUpdate c")
    case True
    have "validateGovernanceTransition cr a c (Timestamp essence) = None"
      using assms(3) True bal sd idx
      by (auto simp: validateGovernanceTransition_def DelegationTimeLockedNow_def IsZero_def)
    then show ?thesis using True by (simp add: validateTransition_def addr imd)
  next
    case False
    have "Equals_nil (stateAddress a) (stateAddress c) = ok True"
      by (simp add: st sa Equals_nil_True)
    moreover have "Equals_nil (governingAddress a) (governingAddress c) = ok True"
      if "governingAddress a \<noteq> None" using that by (auto simp: gov Equals_nil_True)
    ultimately have "validateStateTransition cr a c (Timestamp essence) = ok None"
      using assms(3) False bal idx
      by (cases "governingAddress a")
        (auto simp: validateStateTransition_def gov gm del IsSelfGoverned_def DelegationTimelock_def
          IsZero_def)
    then show ?thesis using False by (simp add: validateTransition_def addr imd)
  qed
qed

lemma NewAliasOutputNext_legal_witness:
  "\<exists>c. NewAliasOutputNext env0 alias0 [] = ok c \<and>
       validateTransition env0 alias0 c (Essence step0) = ok None"
proof -
  have "(case NewAliasOutputNext env0 alias0 [] of Inr _ \<Rightarrow> True | _ \<Rightarrow> False)" by code_simp
  then obtain c where c: "NewAliasOutputNext env0 alias0 [] = ok c" by (auto split: sum.splits)
  then show ?thesis
    using NewAliasOutputNext_legal[OF env0.ordered_map_axioms c, of "Essence step0"]
    by (simp add: alias0_def)
qed

end
