(* ===== verification/OutputCodec.thy ===== *)
theory OutputCodec
  imports Outputs
begin

text \<open>
  The hand-written serialization of AliasOutput and ExtendedLockedOutput
  (Encode, Decode, fromMarshalUtil, mustFlags and compressFlags in
  packages/core/ledger/vm/devnetvm/output.go) and AddressFromBytes (address.go).

  The package marshalutil, the bit mask and the serix codecs of the parts are fields of the record
  codec; a reader is the list of bytes that remain.  The locale output_codec states that each
  reader inverts its writer.  A parse error is None; a panic stays a panic.
\<close>

record 'm codec = "'m vm_env" +
  SetBit :: "byte \<Rightarrow> nat \<Rightarrow> byte"
  HasBit :: "byte \<Rightarrow> nat \<Rightarrow> bool"
  WriteUint16 :: "16 word \<Rightarrow> bytes"
  WriteUint32 :: "32 word \<Rightarrow> bytes"
  WriteTime :: "gotime \<Rightarrow> bytes"
  ReadByte :: "bytes \<Rightarrow> (byte \<times> bytes) option"
  ReadUint16 :: "bytes \<Rightarrow> (16 word \<times> bytes) option"
  ReadUint32 :: "bytes \<Rightarrow> (32 word \<times> bytes) option"
  ReadBytes :: "bytes \<Rightarrow> nat \<Rightarrow> (bytes \<times> bytes) option"
  ReadTime :: "bytes \<Rightarrow> (gotime \<times> bytes) option"
  decode_AddressType :: "bytes \<Rightarrow> byte option"
  decode_ED25519Address :: "bytes \<Rightarrow> (bytes \<times> nat) option"
  decode_BLSAddress :: "bytes \<Rightarrow> (bytes \<times> nat) option"
  decode_AliasAddress :: "bytes \<Rightarrow> (bytes \<times> nat) option"
  decode_Balances :: "bytes \<Rightarrow> ('m \<times> nat) option"

section \<open>Addresses\<close>

definition AddressFromBytes :: "('m, 'z) codec_scheme \<Rightarrow> bytes \<Rightarrow> (Address \<times> nat) option" where
  "AddressFromBytes c data =
     (case decode_AddressType c data of
        None \<Rightarrow> None
      | Some addressType \<Rightarrow>
          if addressType = 0
          then map_option (\<lambda>(d, n). (ED25519Address d, n)) (decode_ED25519Address c data)
          else if addressType = 1
          then map_option (\<lambda>(d, n). (BLSAddress d, n)) (decode_BLSAddress c data)
          else if addressType = 2
          then map_option (\<lambda>(d, n). (AliasAddress d, n)) (decode_AliasAddress c data)
          else None)"

section \<open>Reading and writing of the parts\<close>

text \<open>A computation that may fail to parse, inside one that may panic.\<close>

definition attempt :: "'a option \<Rightarrow> ('a \<Rightarrow> 'b option go) \<Rightarrow> 'b option go" where
  "attempt m f = (case m of None \<Rightarrow> ok None | Some x \<Rightarrow> f x)"

lemma attempt_Some [simp]: "attempt (Some x) f = f x"
  by (simp add: attempt_def)

text \<open>The value decoded from the rest of the input, and the input after a seek past it.\<close>

definition seek :: "bytes \<Rightarrow> ('a \<times> nat) option \<Rightarrow> ('a \<times> bytes) option" where
  "seek data r = (case r of None \<Rightarrow> None | Some (x, bytesRead) \<Rightarrow> Some (x, drop bytesRead data))"

definition writeSized :: "('m, 'z) codec_scheme \<Rightarrow> bool \<Rightarrow> bytes \<Rightarrow> bytes" where
  "writeSized c present bs =
     (if present then WriteUint16 c (of_nat (length bs)) @ bs else [])"

definition readSized ::
    "('m, 'z) codec_scheme \<Rightarrow> bool \<Rightarrow> bytes \<Rightarrow> bytes \<Rightarrow> (bytes \<times> bytes) option" where
  "readSized c present old data =
     (if present
      then (case ReadUint16 c data of None \<Rightarrow> None | Some (size', rest) \<Rightarrow> ReadBytes c rest (unat size'))
      else Some (old, data))"

definition readTimeIf ::
    "('m, 'z) codec_scheme \<Rightarrow> bool \<Rightarrow> gotime \<Rightarrow> bytes \<Rightarrow> (gotime \<times> bytes) option" where
  "readTimeIf c present old data = (if present then ReadTime c data else Some (old, data))"

definition readAddressIf ::
    "('m, 'z) codec_scheme \<Rightarrow> bool \<Rightarrow> Address option \<Rightarrow> bytes \<Rightarrow> (Address option \<times> bytes) option" where
  "readAddressIf c present old data =
     (if present
      then map_option (\<lambda>(a, rest). (Some a, rest)) (seek data (AddressFromBytes c data))
      else Some (old, data))"

section \<open>AliasOutput\<close>

definition flagAliasOutputGovernanceUpdate :: nat where "flagAliasOutputGovernanceUpdate = 0"
definition flagAliasOutputGovernanceSet :: nat where "flagAliasOutputGovernanceSet = 1"
definition flagAliasOutputStateDataPresent :: nat where "flagAliasOutputStateDataPresent = 2"
definition flagAliasOutputGovernanceMetadataPresent :: nat where
  "flagAliasOutputGovernanceMetadataPresent = 3"
definition flagAliasOutputImmutableDataPresent :: nat where "flagAliasOutputImmutableDataPresent = 4"
definition flagAliasOutputIsOrigin :: nat where "flagAliasOutputIsOrigin = 5"
definition flagAliasOutputDelegationConstraint :: nat where "flagAliasOutputDelegationConstraint = 6"
definition flagAliasOutputDelegationTimelockPresent :: nat where
  "flagAliasOutputDelegationTimelockPresent = 7"

lemmas alias_flags =
  flagAliasOutputGovernanceUpdate_def flagAliasOutputGovernanceSet_def
  flagAliasOutputStateDataPresent_def flagAliasOutputGovernanceMetadataPresent_def
  flagAliasOutputImmutableDataPresent_def flagAliasOutputIsOrigin_def
  flagAliasOutputDelegationConstraint_def flagAliasOutputDelegationTimelockPresent_def

definition setIf :: "('m, 'z) codec_scheme \<Rightarrow> bool \<Rightarrow> nat \<Rightarrow> byte \<Rightarrow> byte" where
  "setIf c b pos ret = (if b then SetBit c ret pos else ret)"

definition mustFlags :: "('m, 'z) codec_scheme \<Rightarrow> 'm AliasOutput \<Rightarrow> byte go" where
  "mustFlags c a =
     bindE (mustValidate c a) (\<lambda>_.
       ok (setIf c (\<not> IsZero (delegationTimelock a)) flagAliasOutputDelegationTimelockPresent
          (setIf c (isDelegated a) flagAliasOutputDelegationConstraint
          (setIf c (0 < length (governanceMetadata a)) flagAliasOutputGovernanceMetadataPresent
          (setIf c (governingAddress a \<noteq> None) flagAliasOutputGovernanceSet
          (setIf c (0 < length (stateData a)) flagAliasOutputStateDataPresent
          (setIf c (0 < length (immutableData a)) flagAliasOutputImmutableDataPresent
          (setIf c (isGovernanceUpdate a) flagAliasOutputGovernanceUpdate
          (setIf c (isOrigin a) flagAliasOutputIsOrigin 0)))))))))"

definition Alias_Encode :: "('m, 'z) codec_scheme \<Rightarrow> 'm AliasOutput \<Rightarrow> bytes go" where
  "Alias_Encode c a =
     bindE (mustFlags c a) (\<lambda>flags.
     bindE (deref (stateAddress a)) (\<lambda>sa.
     bindE (if HasBit c flags flagAliasOutputGovernanceSet
            then bindE (deref (governingAddress a)) (\<lambda>ga. ok (Address_Bytes c ga)) else ok []) (\<lambda>gov.
       ok ([flags] @ Address_Bytes c (AliasAddress (aliasAddress a)) @ Balances_Bytes c (balances a) @
           Address_Bytes c sa @ WriteUint32 c (stateIndex a) @
           writeSized c (HasBit c flags flagAliasOutputStateDataPresent) (stateData a) @
           writeSized c (HasBit c flags flagAliasOutputGovernanceMetadataPresent) (governanceMetadata a) @
           writeSized c (HasBit c flags flagAliasOutputImmutableDataPresent) (immutableData a) @
           gov @
           (if HasBit c flags flagAliasOutputDelegationTimelockPresent
            then WriteTime c (delegationTimelock a) else [])))))"

definition Alias_fromMarshalUtil ::
    "('m, 'z) codec_scheme \<Rightarrow> 'm AliasOutput \<Rightarrow> bytes \<Rightarrow> ('m AliasOutput \<times> bytes) option go" where
  "Alias_fromMarshalUtil c a data =
     attempt (ReadByte c data) (\<lambda>(flags, d1).
     attempt (seek d1 (decode_AliasAddress c d1)) (\<lambda>(addr, d2).
     attempt (seek d2 (decode_Balances c d2)) (\<lambda>(cb, d3).
     attempt (seek d3 (AddressFromBytes c d3)) (\<lambda>(sa, d4).
     attempt (ReadUint32 c d4) (\<lambda>(idx, d5).
     attempt (readSized c (HasBit c flags flagAliasOutputStateDataPresent) (stateData a) d5) (\<lambda>(sd, d6).
     attempt (readSized c (HasBit c flags flagAliasOutputGovernanceMetadataPresent)
                (governanceMetadata a) d6) (\<lambda>(gm, d7).
     attempt (readSized c (HasBit c flags flagAliasOutputImmutableDataPresent) (immutableData a) d7)
       (\<lambda>(imd, d8).
     attempt (readAddressIf c (HasBit c flags flagAliasOutputGovernanceSet) (governingAddress a) d8)
       (\<lambda>(ga, d9).
     attempt (readTimeIf c (HasBit c flags flagAliasOutputDelegationTimelockPresent)
                (delegationTimelock a) d9) (\<lambda>(tl', d10).
       let outp = a\<lparr>isOrigin := HasBit c flags flagAliasOutputIsOrigin,
                    isGovernanceUpdate := HasBit c flags flagAliasOutputGovernanceUpdate,
                    isDelegated := HasBit c flags flagAliasOutputDelegationConstraint,
                    aliasAddress := addr, balances := cb, stateAddress := Some sa,
                    stateIndex := idx, stateData := sd, governanceMetadata := gm,
                    immutableData := imd, governingAddress := ga, delegationTimelock := tl'\<rparr>
       in bindE (checkBasicValidity c outp) (\<lambda>err.
            case err of Some _ \<Rightarrow> ok None | None \<Rightarrow> ok (Some (outp, d10)))))))))))))"

definition Alias_Decode ::
    "('m, 'z) codec_scheme \<Rightarrow> 'm AliasOutput \<Rightarrow> bytes \<Rightarrow> ('m AliasOutput \<times> nat) option go" where
  "Alias_Decode c a b =
     bindE (Alias_fromMarshalUtil c a b) (\<lambda>r.
       ok (map_option (\<lambda>(outp, rest). (outp, length b - length rest)) r))"

section \<open>ExtendedLockedOutput\<close>

definition flagExtendedLockedOutputFallbackPresent :: nat where
  "flagExtendedLockedOutputFallbackPresent = 0"
definition flagExtendedLockedOutputTimeLockPresent :: nat where
  "flagExtendedLockedOutputTimeLockPresent = 1"
definition flagExtendedLockedOutputPayloadPresent :: nat where
  "flagExtendedLockedOutputPayloadPresent = 2"

lemmas extended_flags =
  flagExtendedLockedOutputFallbackPresent_def flagExtendedLockedOutputTimeLockPresent_def
  flagExtendedLockedOutputPayloadPresent_def

definition compressFlags :: "('m, 'z) codec_scheme \<Rightarrow> 'm ExtendedLockedOutput \<Rightarrow> byte" where
  "compressFlags c x =
     setIf c (0 < length (el_payload x)) flagExtendedLockedOutputPayloadPresent
       (setIf c (\<not> IsZero (timelock x)) flagExtendedLockedOutputTimeLockPresent
         (setIf c (fallbackAddress x \<noteq> None) flagExtendedLockedOutputFallbackPresent 0))"

definition Extended_Encode :: "('m, 'z) codec_scheme \<Rightarrow> 'm ExtendedLockedOutput \<Rightarrow> bytes go" where
  "Extended_Encode c x =
     (let flags = compressFlags c x
      in bindE (if HasBit c flags flagExtendedLockedOutputFallbackPresent
                then bindE (deref (fallbackAddress x)) (\<lambda>fa.
                       ok (Address_Bytes c fa @ WriteTime c (fallbackDeadline x)))
                else ok []) (\<lambda>fb.
           ok (Balances_Bytes c (el_balances x) @ Address_Bytes c (el_address x) @ [flags] @ fb @
               (if HasBit c flags flagExtendedLockedOutputTimeLockPresent
                then WriteTime c (timelock x) else []) @
               writeSized c (HasBit c flags flagExtendedLockedOutputPayloadPresent) (el_payload x))))"

definition Extended_fromMarshalUtil ::
    "('m, 'z) codec_scheme \<Rightarrow> 'm ExtendedLockedOutput \<Rightarrow> bytes \<Rightarrow>
     ('m ExtendedLockedOutput \<times> bytes) option go" where
  "Extended_fromMarshalUtil c x data =
     attempt (seek data (decode_Balances c data)) (\<lambda>(cb, d1).
     attempt (seek d1 (AddressFromBytes c d1)) (\<lambda>(addr, d2).
     attempt (ReadByte c d2) (\<lambda>(flags, d3).
     attempt (readAddressIf c (HasBit c flags flagExtendedLockedOutputFallbackPresent)
                (fallbackAddress x) d3) (\<lambda>(fa, d4).
     attempt (readTimeIf c (HasBit c flags flagExtendedLockedOutputFallbackPresent)
                (fallbackDeadline x) d4) (\<lambda>(fd, d5).
     attempt (readTimeIf c (HasBit c flags flagExtendedLockedOutputTimeLockPresent) (timelock x) d5)
       (\<lambda>(tl', d6).
     attempt (readSized c (HasBit c flags flagExtendedLockedOutputPayloadPresent) (el_payload x) d6)
       (\<lambda>(pl, d7).
       ok (Some (x\<lparr>el_balances := cb, el_address := addr, fallbackAddress := fa,
                   fallbackDeadline := fd, timelock := tl', el_payload := pl\<rparr>, d7)))))))))"

definition Extended_Decode ::
    "('m, 'z) codec_scheme \<Rightarrow> 'm ExtendedLockedOutput \<Rightarrow> bytes \<Rightarrow>
     ('m ExtendedLockedOutput \<times> nat) option go" where
  "Extended_Decode c x b =
     bindE (Extended_fromMarshalUtil c x b) (\<lambda>r.
       ok (map_option (\<lambda>(outp, rest). (outp, length b - length rest)) r))"

section \<open>Readers invert writers\<close>

locale output_codec =
  fixes c :: "('m, 'z) codec_scheme"
    and time_ok :: "gotime \<Rightarrow> bool"
    and balances_ok :: "'m \<Rightarrow> bool"
  assumes HasBit_0: "\<not> HasBit c 0 j"
    and HasBit_SetBit: "i < 8 \<Longrightarrow> j < 8 \<Longrightarrow> HasBit c (SetBit c w i) j \<longleftrightarrow> i = j \<or> HasBit c w j"
    and ReadByte_Cons: "ReadByte c (b # r) = Some (b, r)"
    and ReadUint16_Write: "ReadUint16 c (WriteUint16 c u @ r) = Some (u, r)"
    and ReadUint32_Write: "ReadUint32 c (WriteUint32 c v @ r) = Some (v, r)"
    and ReadBytes_append: "n = length bs \<Longrightarrow> ReadBytes c (bs @ r) n = Some (bs, r)"
    and ReadTime_Write: "time_ok t \<Longrightarrow> ReadTime c (WriteTime c t @ r) = Some (t, r)"
    and decode_AddressType_Bytes:
      "length (Address_Digest a) = 32 \<Longrightarrow> decode_AddressType c (Address_Bytes c a @ r) =
       Some (case a of ED25519Address _ \<Rightarrow> 0 | BLSAddress _ \<Rightarrow> 1 | AliasAddress _ \<Rightarrow> 2)"
    and decode_ED25519Address_Bytes:
      "length d = 32 \<Longrightarrow> decode_ED25519Address c (Address_Bytes c (ED25519Address d) @ r) =
       Some (d, length (Address_Bytes c (ED25519Address d)))"
    and decode_BLSAddress_Bytes:
      "length d = 32 \<Longrightarrow> decode_BLSAddress c (Address_Bytes c (BLSAddress d) @ r) =
       Some (d, length (Address_Bytes c (BLSAddress d)))"
    and decode_AliasAddress_Bytes:
      "length d = 32 \<Longrightarrow> decode_AliasAddress c (Address_Bytes c (AliasAddress d) @ r) =
       Some (d, length (Address_Bytes c (AliasAddress d)))"
    and decode_Balances_Bytes:
      "balances_ok m \<Longrightarrow>
       decode_Balances c (Balances_Bytes c m @ r) = Some (m, length (Balances_Bytes c m))"
begin

lemma seek_append: "seek (bs @ r) (Some (x, length bs)) = Some (x, r)"
  by (simp add: seek_def)

lemma AddressFromBytes_Bytes:
  "length (Address_Digest a) = 32 \<Longrightarrow> AddressFromBytes c (Address_Bytes c a @ r) = Some (a, length (Address_Bytes c a))"
  by (cases a)
    (simp_all add: AddressFromBytes_def decode_AddressType_Bytes decode_ED25519Address_Bytes
      decode_BLSAddress_Bytes decode_AliasAddress_Bytes)

lemma seek_address:
  "length (Address_Digest a) = 32 \<Longrightarrow>
   seek (Address_Bytes c a @ r) (AddressFromBytes c (Address_Bytes c a @ r)) = Some (a, r)"
  by (simp add: AddressFromBytes_Bytes seek_append)

lemma seek_alias:
  "length d = 32 \<Longrightarrow> seek (Address_Bytes c (AliasAddress d) @ r)
     (decode_AliasAddress c (Address_Bytes c (AliasAddress d) @ r)) = Some (d, r)"
  by (simp add: decode_AliasAddress_Bytes seek_append)

lemma seek_balances:
  "balances_ok m \<Longrightarrow>
   seek (Balances_Bytes c m @ r) (decode_Balances c (Balances_Bytes c m @ r)) = Some (m, r)"
  by (simp add: decode_Balances_Bytes seek_append)

lemma readSized_write:
  assumes "length bs \<le> MaxOutputPayloadSize" and "p \<longleftrightarrow> 0 < length bs"
  shows "readSized c p [] (writeSized c p bs @ r) = Some (bs, r)"
proof -
  have "unat (of_nat (length bs) :: 16 word) = length bs"
    using assms(1) by (simp add: unsigned_of_nat take_bit_eq_mod MaxOutputPayloadSize_def)
  then show ?thesis
    using assms(2) by (simp add: readSized_def writeSized_def ReadUint16_Write ReadBytes_append)
qed

lemma readTimeIf_write:
  "time_ok t \<Longrightarrow> (\<not> p \<Longrightarrow> t = old) \<Longrightarrow>
   readTimeIf c p old ((if p then WriteTime c t else []) @ r) = Some (t, r)"
  by (simp add: readTimeIf_def ReadTime_Write)

lemma HasBit_setIf:
  "i < 8 \<Longrightarrow> j < 8 \<Longrightarrow> HasBit c (setIf c b i w) j \<longleftrightarrow> b \<and> i = j \<or> HasBit c w j"
  by (auto simp: setIf_def HasBit_SetBit)

lemmas roundtrip_simps = seek_address seek_alias seek_balances ReadByte_Cons ReadUint32_Write

text \<open>The flags that mustFlags computes.\<close>

lemma mustFlags_HasBit:
  assumes "mustFlags c a = ok flags"
  shows "mustValidate c a = ok ()"
    and "HasBit c flags flagAliasOutputIsOrigin \<longleftrightarrow> isOrigin a"
    and "HasBit c flags flagAliasOutputGovernanceUpdate \<longleftrightarrow> isGovernanceUpdate a"
    and "HasBit c flags flagAliasOutputDelegationConstraint \<longleftrightarrow> isDelegated a"
    and "HasBit c flags flagAliasOutputStateDataPresent \<longleftrightarrow> 0 < length (stateData a)"
    and "HasBit c flags flagAliasOutputGovernanceMetadataPresent \<longleftrightarrow> 0 < length (governanceMetadata a)"
    and "HasBit c flags flagAliasOutputImmutableDataPresent \<longleftrightarrow> 0 < length (immutableData a)"
    and "HasBit c flags flagAliasOutputGovernanceSet \<longleftrightarrow> governingAddress a \<noteq> None"
    and "HasBit c flags flagAliasOutputDelegationTimelockPresent \<longleftrightarrow> delegationTimelock a \<noteq> 0"
  using assms
  by (auto simp: mustFlags_def bindE_eq_Inr_iff HasBit_setIf HasBit_0 alias_flags IsZero_def)

lemma mustValidate_None: "mustValidate c a = ok () \<Longrightarrow> checkBasicValidity c a = ok None"
  by (auto simp: mustValidate_def bindE_eq_Inr_iff split: option.splits)

lemma checkBasicValidity_sizes:
  assumes "checkBasicValidity c a = ok None"
  shows "length (stateData a) \<le> MaxOutputPayloadSize"
    and "length (governanceMetadata a) \<le> MaxOutputPayloadSize"
    and "length (immutableData a) \<le> MaxOutputPayloadSize"
  using assms by (auto simp: checkBasicValidity_def bindE_eq_Inr_iff split: if_splits)

lemma checkBasicValidity_outputID:
  "checkBasicValidity c (a\<lparr>outputID := oid\<rparr>) = checkBasicValidity c a"
  by (simp add: checkBasicValidity_def GetGoverningAddress_def IsSelfGoverned_def
      cong del: if_weak_cong)

text \<open>A valid output can be serialized, and an extended locked output always can.\<close>

lemma Alias_Encode_returns:
  assumes "mustValidate c a = ok ()"
  shows "returns (Alias_Encode c a)"
proof -
  obtain flags where fl: "mustFlags c a = ok flags" using assms by (simp add: mustFlags_def)
  obtain sa where "stateAddress a = Some sa"
    using mustValidate_None[OF assms] by (auto simp: checkBasicValidity_def bindE_eq_Inr_iff split: if_splits)
  then show ?thesis
    using fl mustFlags_HasBit(8)[OF fl]
    by (cases "governingAddress a") (simp_all add: Alias_Encode_def returns_def)
qed

lemma Extended_Encode_returns: "returns (Extended_Encode c x)"
proof -
  have "HasBit c (compressFlags c x) flagExtendedLockedOutputFallbackPresent \<longleftrightarrow> fallbackAddress x \<noteq> None"
    by (auto simp: compressFlags_def HasBit_setIf HasBit_0 extended_flags)
  then show ?thesis
    by (cases "fallbackAddress x") (simp_all add: Extended_Encode_def returns_def Let_def)
qed

lemma Alias_roundtrip:
  assumes enc: "Alias_Encode c a = ok bs"
    and t: "time_ok (delegationTimelock a)" and b: "balances_ok (balances a)"
    and addrs: "length (aliasAddress a) = 32"
      "\<And>addr. stateAddress a = Some addr \<Longrightarrow> length (Address_Digest addr) = 32"
      "\<And>addr. governingAddress a = Some addr \<Longrightarrow> length (Address_Digest addr) = 32"
    and fresh: "stateData z = []" "governanceMetadata z = []" "immutableData z = []"
      "governingAddress z = None" "delegationTimelock z = 0"
  shows "Alias_fromMarshalUtil c z (bs @ r) = ok (Some (a\<lparr>outputID := outputID z\<rparr>, r))"
proof -
  obtain flags where fl: "mustFlags c a = ok flags"
    using enc by (auto simp: Alias_Encode_def bindE_eq_Inr_iff)
  note bits = mustFlags_HasBit[OF fl]
  note valid = mustValidate_None[OF bits(1)]
  note size = checkBasicValidity_sizes[OF valid]
  obtain sa where sa: "stateAddress a = Some sa"
    using enc fl by (auto simp: Alias_Encode_def bindE_eq_Inr_iff)
  define sd where "sd = writeSized c (HasBit c flags flagAliasOutputStateDataPresent) (stateData a)"
  define gm where "gm = writeSized c (HasBit c flags flagAliasOutputGovernanceMetadataPresent) (governanceMetadata a)"
  define im where "im = writeSized c (HasBit c flags flagAliasOutputImmutableDataPresent) (immutableData a)"
  define gov where "gov = (case governingAddress a of None \<Rightarrow> [] | Some g \<Rightarrow> Address_Bytes c g)"
  define tm where "tm = (if HasBit c flags flagAliasOutputDelegationTimelockPresent
      then WriteTime c (delegationTimelock a) else [])"
  have gb: "(if HasBit c flags flagAliasOutputGovernanceSet
      then bindE (deref (governingAddress a)) (\<lambda>ga. ok (Address_Bytes c ga)) else ok []) = ok gov"
    by (cases "governingAddress a") (simp_all add: bits gov_def)
  have bs: "bs @ r = flags # Address_Bytes c (AliasAddress (aliasAddress a)) @
      Balances_Bytes c (balances a) @ Address_Bytes c sa @ WriteUint32 c (stateIndex a) @
      sd @ gm @ im @ gov @ tm @ r"
    using enc unfolding Alias_Encode_def fl sa gb bindE.simps deref_simps
    by (simp add: sd_def gm_def im_def tm_def)
  have r1: "readSized c (HasBit c flags flagAliasOutputStateDataPresent) (stateData z)
      (sd @ gm @ im @ gov @ tm @ r) = Some (stateData a, gm @ im @ gov @ tm @ r)"
    unfolding sd_def fresh by (rule readSized_write[OF size(1) bits(5)])
  have r2: "readSized c (HasBit c flags flagAliasOutputGovernanceMetadataPresent)
      (governanceMetadata z) (gm @ im @ gov @ tm @ r) = Some (governanceMetadata a, im @ gov @ tm @ r)"
    unfolding gm_def fresh by (rule readSized_write[OF size(2) bits(6)])
  have r3: "readSized c (HasBit c flags flagAliasOutputImmutableDataPresent)
      (immutableData z) (im @ gov @ tm @ r) = Some (immutableData a, gov @ tm @ r)"
    unfolding im_def fresh by (rule readSized_write[OF size(3) bits(7)])
  have r4: "readAddressIf c (HasBit c flags flagAliasOutputGovernanceSet) (governingAddress z)
      (gov @ tm @ r) = Some (governingAddress a, tm @ r)"
    by (cases "governingAddress a") (simp_all add: readAddressIf_def bits fresh gov_def seek_address addrs(3))
  have r5: "readTimeIf c (HasBit c flags flagAliasOutputDelegationTimelockPresent)
      (delegationTimelock z) (tm @ r) = Some (delegationTimelock a, r)"
    unfolding tm_def by (rule readTimeIf_write[OF t]) (simp add: bits fresh)
  let ?o = "a\<lparr>outputID := outputID z\<rparr>"
  have o: "z\<lparr>isOrigin := HasBit c flags flagAliasOutputIsOrigin,
      isGovernanceUpdate := HasBit c flags flagAliasOutputGovernanceUpdate,
      isDelegated := HasBit c flags flagAliasOutputDelegationConstraint,
      aliasAddress := aliasAddress a, balances := balances a, stateAddress := Some sa,
      stateIndex := stateIndex a, stateData := stateData a,
      governanceMetadata := governanceMetadata a, immutableData := immutableData a,
      governingAddress := governingAddress a, delegationTimelock := delegationTimelock a\<rparr> = ?o"
    using sa by (cases a; cases z) (simp add: bits)
  show ?thesis
    unfolding bs Alias_fromMarshalUtil_def
    by (simp only: ReadByte_Cons ReadUint32_Write seek_alias[OF addrs(1)]
        seek_address[OF addrs(2)[OF sa]] seek_balances[OF b] attempt_Some case_prod_conv r1 r2 r3 r4 r5
        append_Cons Let_def o checkBasicValidity_outputID valid bindE.simps option.case)
qed

lemma Extended_roundtrip:
  assumes enc: "Extended_Encode c x = ok bs"
    and size: "length (el_payload x) \<le> MaxOutputPayloadSize"
    and t: "time_ok (timelock x)" "time_ok (fallbackDeadline x)" and b: "balances_ok (el_balances x)"
    and addrs: "length (Address_Digest (el_address x)) = 32"
      "\<And>addr. fallbackAddress x = Some addr \<Longrightarrow> length (Address_Digest addr) = 32"
    and d: "fallbackAddress x = None \<longrightarrow> fallbackDeadline x = 0"
    and fresh: "fallbackAddress z = None" "fallbackDeadline z = 0" "timelock z = 0" "el_payload z = []"
  shows "Extended_fromMarshalUtil c z (bs @ r) = ok (Some (x\<lparr>el_id := el_id z\<rparr>, r))"
proof -
  define flags where "flags = compressFlags c x"
  have bits: "HasBit c flags flagExtendedLockedOutputFallbackPresent \<longleftrightarrow> fallbackAddress x \<noteq> None"
    "HasBit c flags flagExtendedLockedOutputTimeLockPresent \<longleftrightarrow> timelock x \<noteq> 0"
    "HasBit c flags flagExtendedLockedOutputPayloadPresent \<longleftrightarrow> 0 < length (el_payload x)"
    by (auto simp: flags_def compressFlags_def HasBit_setIf HasBit_0 extended_flags IsZero_def)
  define fb where "fb = (case fallbackAddress x of None \<Rightarrow> [] | Some g \<Rightarrow> Address_Bytes c g)"
  define fd where "fd = (if HasBit c flags flagExtendedLockedOutputFallbackPresent
      then WriteTime c (fallbackDeadline x) else [])"
  define tm where "tm = (if HasBit c flags flagExtendedLockedOutputTimeLockPresent
      then WriteTime c (timelock x) else [])"
  define pl where "pl = writeSized c (HasBit c flags flagExtendedLockedOutputPayloadPresent) (el_payload x)"
  have fbe: "(if HasBit c flags flagExtendedLockedOutputFallbackPresent
      then bindE (deref (fallbackAddress x)) (\<lambda>fa.
             ok (Address_Bytes c fa @ WriteTime c (fallbackDeadline x)))
      else ok []) = ok (fb @ fd)"
    by (cases "fallbackAddress x") (simp_all add: bits fb_def fd_def)
  have bs: "bs @ r = Balances_Bytes c (el_balances x) @ Address_Bytes c (el_address x) @
      flags # fb @ fd @ tm @ pl @ r"
    using enc unfolding Extended_Encode_def flags_def[symmetric] Let_def fbe bindE.simps
    by (simp add: tm_def pl_def)
  have r1: "readAddressIf c (HasBit c flags flagExtendedLockedOutputFallbackPresent)
      (fallbackAddress z) (fb @ fd @ tm @ pl @ r) = Some (fallbackAddress x, fd @ tm @ pl @ r)"
    by (cases "fallbackAddress x") (simp_all add: readAddressIf_def bits fresh fb_def seek_address addrs(2))
  have r2: "readTimeIf c (HasBit c flags flagExtendedLockedOutputFallbackPresent)
      (fallbackDeadline z) (fd @ tm @ pl @ r) = Some (fallbackDeadline x, tm @ pl @ r)"
    unfolding fd_def by (rule readTimeIf_write[OF t(2)]) (use d in \<open>simp add: bits fresh\<close>)
  have r3: "readTimeIf c (HasBit c flags flagExtendedLockedOutputTimeLockPresent)
      (timelock z) (tm @ pl @ r) = Some (timelock x, pl @ r)"
    unfolding tm_def by (rule readTimeIf_write[OF t(1)]) (simp add: bits fresh)
  have r4: "readSized c (HasBit c flags flagExtendedLockedOutputPayloadPresent) (el_payload z)
      (pl @ r) = Some (el_payload x, r)"
    unfolding pl_def fresh by (rule readSized_write[OF size bits(3)])
  show ?thesis
    unfolding bs Extended_fromMarshalUtil_def
    by (simp add: roundtrip_simps addrs(1) seek_balances[OF b] r1 r2 r3 r4)
qed

end

end
