(* ===== verification/OutputCodecInst.thy ===== *)
theory OutputCodecInst
  imports OutputCodec
begin

text \<open>
  The round trips of the hand-written serialization, and a little-endian codec of the parts that
  satisfies the laws they rest on.
\<close>

section \<open>Little-endian words\<close>

definition byte_at :: "nat \<Rightarrow> nat \<Rightarrow> byte" where
  "byte_at i n = of_nat (n div 256 ^ i)"

definition put_le :: "nat \<Rightarrow> nat \<Rightarrow> bytes" where
  "put_le k n = map (\<lambda>i. byte_at i n) [0..<k]"

fun get_le :: "bytes \<Rightarrow> nat" where
  "get_le [] = 0"
| "get_le (b # bs) = unat b + 256 * get_le bs"

lemma unat_byte_at: "unat (byte_at i n) = n div 256 ^ i mod 256"
  by (simp add: byte_at_def unsigned_of_nat take_bit_eq_mod)

lemma put_le_Suc: "put_le (Suc k) n = of_nat n # put_le k (n div 256)"
proof -
  have "[0..<Suc k] = 0 # map Suc [0..<k]" by (simp add: upt_conv_Cons map_Suc_upt del: upt_Suc)
  then show ?thesis
    by (simp add: put_le_def byte_at_def comp_def div_mult2_eq del: upt_Suc)
qed

lemma length_put_le [simp]: "length (put_le k n) = k"
  by (simp add: put_le_def)

lemma get_put_le: "n < 256 ^ k \<Longrightarrow> get_le (put_le k n) = n"
proof (induction k arbitrary: n)
  case (Suc k)
  have "n div 256 < 256 ^ k" using Suc.prems by (simp add: less_mult_imp_div_less)
  then have "get_le (put_le k (n div 256)) = n div 256" by (rule Suc.IH)
  then show ?case by (simp add: put_le_Suc unsigned_of_nat take_bit_eq_mod)
qed (simp add: put_le_def)

text \<open>A reader of k bytes.\<close>

definition read_le :: "nat \<Rightarrow> (nat \<Rightarrow> 'a) \<Rightarrow> bytes \<Rightarrow> ('a \<times> bytes) option" where
  "read_le k f data = (if k \<le> length data then Some (f (get_le (take k data)), drop k data) else None)"

lemma read_put_le: "n < 256 ^ k \<Longrightarrow> read_le k f (put_le k n @ r) = Some (f n, r)"
  by (simp add: read_le_def get_put_le)

section \<open>A codec of the parts\<close>

fun put_entries :: "coins \<Rightarrow> bytes" where
  "put_entries [] = []"
| "put_entries ((k, v) # es) = k @ put_le 8 (unat v) @ put_entries es"

fun get_entries :: "nat \<Rightarrow> bytes \<Rightarrow> coins" where
  "get_entries 0 data = []"
| "get_entries (Suc n) data =
     (take 32 data, of_nat (get_le (take 8 (drop 32 data)))) # get_entries n (drop 40 data)"

definition coins_ok :: "coinmap \<Rightarrow> bool" where
  "coins_ok m \<longleftrightarrow> length (DAList.impl_of m) < 256 \<and>
     list_all (\<lambda>(k, _). length k = 32) (DAList.impl_of m)"

definition coins_of :: "coins \<Rightarrow> coinmap" where
  "coins_of es = fold (\<lambda>(k, v). DAList.update k v) es DAList.empty"

definition put_coins :: "coinmap \<Rightarrow> bytes" where
  "put_coins m = of_nat (length (DAList.impl_of m)) # put_entries (DAList.impl_of m)"

definition get_coins :: "bytes \<Rightarrow> (coinmap \<times> nat) option" where
  "get_coins data =
     (case data of
        [] \<Rightarrow> None
      | n # rest \<Rightarrow> if 40 * unat n \<le> length rest
                    then Some (coins_of (get_entries (unat n) rest), 1 + 40 * unat n) else None)"

fun put_address :: "Address \<Rightarrow> bytes" where
  "put_address (ED25519Address d) = 0 # d"
| "put_address (BLSAddress d) = 1 # d"
| "put_address (AliasAddress d) = 2 # d"

definition get_digest :: "bytes \<Rightarrow> (bytes \<times> nat) option" where
  "get_digest data = (if 33 \<le> length data then Some (take 32 (drop 1 data), 33) else None)"

definition time64 :: "gotime \<Rightarrow> bool" where
  "time64 t \<longleftrightarrow> - (2 ^ 63) \<le> t \<and> t < 2 ^ 63"

definition codec0 :: "coinmap codec" where
  "codec0 = \<lparr>om_New = DAList.empty, om_Set = coinmap_Set, om_Get = DAList.lookup,
     om_entries = DAList.impl_of, om_Size = (\<lambda>m. length (DAList.impl_of m)),
     Sum256 = (\<lambda>b. take 32 (7 # rev b @ replicate 32 0)),
     VerifySignature = (\<lambda>pk data sig. sig = pk @ data), edPublicKey_Bytes = Some,
     bls_IsValid = (\<lambda>pk sig data. sig = pk @ data), blsPublicKey_Bytes = id,
     Essence_Bytes = (\<lambda>e. Some [ucast (Version e)]), Transaction_Bytes = (\<lambda>t. [1, 2, 3]),
     Output_Bytes = (\<lambda>out. OutputID_Bytes (Output_ID out)), Address_Bytes = put_address,
     NewIdentifier = (\<lambda>b. take 32 (b @ replicate 32 9)), Balances_Bytes = put_coins,
     SetBit = (\<lambda>w i. set_bit i w), HasBit = (\<lambda>w i. bit w i),
     WriteUint16 = (\<lambda>w. put_le 2 (unat w)), WriteUint32 = (\<lambda>w. put_le 4 (unat w)),
     WriteTime = (\<lambda>t. put_le 8 (nat (t + 2 ^ 63))),
     ReadByte = (\<lambda>data. case data of [] \<Rightarrow> None | b # r \<Rightarrow> Some (b, r)),
     ReadUint16 = read_le 2 of_nat, ReadUint32 = read_le 4 of_nat,
     ReadBytes = (\<lambda>data n. if n \<le> length data then Some (take n data, drop n data) else None),
     ReadTime = read_le 8 (\<lambda>n. int n - 2 ^ 63),
     decode_AddressType = (\<lambda>data. case data of [] \<Rightarrow> None | b # _ \<Rightarrow> Some b),
     decode_ED25519Address = get_digest, decode_BLSAddress = get_digest,
     decode_AliasAddress = get_digest, decode_Balances = get_coins\<rparr>"

lemma coins_of_entries: "coins_of (DAList.impl_of m) = m"
proof -
  have "DAList.impl_of (fold (\<lambda>(k, v). DAList.update k v) es m0) =
      fold (\<lambda>(k, v). AList.update k v) es (DAList.impl_of m0)" for es :: coins and m0
    by (induction es arbitrary: m0) (auto simp: DAList.update.rep_eq)
  then have "DAList.impl_of (coins_of (DAList.impl_of m)) = DAList.impl_of m"
    using fold_update_distinct[of "DAList.impl_of m" "[]"] coinmap.distinct_entries[of m]
    by (simp add: coins_of_def DAList.empty.rep_eq)
  then show ?thesis by (simp add: DAList.impl_of_inject)
qed

lemma get_put_entries:
  "list_all (\<lambda>(k, _). length k = 32) es \<Longrightarrow>
   get_entries (length es) (put_entries es @ r) = es \<and> length (put_entries es) = 40 * length es"
proof (induction es)
  case (Cons e es)
  obtain k v where e: "e = (k, v)" by (cases e)
  have k: "length k = 32" using Cons.prems by (simp add: e)
  have "unat v < 256 ^ 8" using unsigned_less[of v] by simp
  then have "of_nat (get_le (put_le 8 (unat v))) = v" by (simp add: get_put_le)
  with Cons k show ?case by (simp add: e)
qed simp

interpretation codec0: output_codec codec0 time64 coins_ok
proof (unfold_locales, goal_cases)
  case (2 i j w)
  then show ?case by (auto simp: codec0_def bit_set_bit_iff)
next
  case (4 u r)
  have "unat u < 256 ^ 2" using unsigned_less[of u] by simp
  then show ?case by (simp add: codec0_def read_put_le)
next
  case (5 v r)
  have "unat v < 256 ^ 4" using unsigned_less[of v] by simp
  then show ?case by (simp add: codec0_def read_put_le)
next
  case (7 t r)
  then have "nat (t + 2 ^ 63) < 256 ^ 8" by (auto simp: time64_def nat_less_iff)
  then show ?case using 7 by (simp add: codec0_def read_put_le time64_def)
next
  case (8 a r)
  then show ?case by (cases a) (simp_all add: codec0_def)
next
  case (12 m r)
  let ?es = "DAList.impl_of m"
  have l: "unat (of_nat (length ?es) :: byte) = length ?es"
    using 12 by (simp add: coins_ok_def unsigned_of_nat take_bit_eq_mod)
  have all: "list_all (\<lambda>(k, _). length k = 32) ?es" using 12 by (simp add: coins_ok_def)
  show ?case
    using get_put_entries[OF all, of r] get_put_entries[OF all, of "[]"]
    by (simp add: codec0_def get_coins_def put_coins_def l coins_of_entries)
qed (simp_all add: codec0_def get_digest_def)

interpretation codec0_map: ordered_map codec0
  by unfold_locales
    (simp_all add: codec0_def coinmap_Set_def DAList.empty.rep_eq DAList.update.rep_eq
      DAList.lookup.rep_eq map_of_eq_None_iff[symmetric])

lemma codec0_entries [simp]: "om_entries codec0 = DAList.impl_of" "om_New codec0 = DAList.empty"
  by (simp_all add: codec0_def)

lemma coins_ok_one: "length k = 32 \<Longrightarrow> coins_ok (DAList.update k v DAList.empty)"
  by (simp add: coins_ok_def DAList.update.rep_eq DAList.empty.rep_eq)

section \<open>Round trips\<close>

text \<open>The zero value new(AliasOutput); its balances are a nil pointer, here an empty map.\<close>

definition zeroAlias :: "('m, 'z) orderedmap_scheme \<Rightarrow> 'm AliasOutput" where
  "zeroAlias om = \<lparr>outputID = EmptyOutputID, balances = om_New om, aliasAddress = replicate 32 0,
     stateAddress = None, stateIndex = 0, stateData = [], governanceMetadata = [],
     immutableData = [], isGovernanceUpdate = False, governingAddress = None, isOrigin = False,
     isDelegated = False, delegationTimelock = 0\<rparr>"

definition zeroExtended :: "('m, 'z) orderedmap_scheme \<Rightarrow> 'm ExtendedLockedOutput" where
  "zeroExtended om = \<lparr>el_id = EmptyOutputID, el_balances = om_New om,
     el_address = ED25519Address (replicate 32 0), fallbackAddress = None, fallbackDeadline = 0,
     timelock = 0, el_payload = []\<rparr>"

text \<open>C31: Decoding the serialization of an alias output gives the output back, up to its
  identifier, which is not serialized, and consumes exactly the bytes that were written.\<close>

theorem alias_codec_roundtrip:
  assumes "output_codec c time_ok balances_ok" and "Alias_Encode c a = ok bs"
    and "time_ok (delegationTimelock a)" and "balances_ok (balances a)"
    and "length (aliasAddress a) = 32"
    and "\<And>addr. stateAddress a = Some addr \<Longrightarrow> length (Address_Digest addr) = 32"
    and "\<And>addr. governingAddress a = Some addr \<Longrightarrow> length (Address_Digest addr) = 32"
  shows "Alias_Decode c (zeroAlias c) (bs @ rest) =
         ok (Some (a\<lparr>outputID := EmptyOutputID\<rparr>, length bs))"
proof -
  have "Alias_fromMarshalUtil c (zeroAlias c) (bs @ rest) =
      ok (Some (a\<lparr>outputID := outputID (zeroAlias c)\<rparr>, rest))"
    by (rule output_codec.Alias_roundtrip[OF assms]) (simp_all add: zeroAlias_def)
  then show ?thesis by (simp add: Alias_Decode_def zeroAlias_def)
qed

definition alias_sample :: "coinmap AliasOutput" where
  "alias_sample = (zeroAlias codec0)\<lparr>balances := DAList.update ColorZIPP 150 DAList.empty,
     aliasAddress := replicate 32 3, stateAddress := Some (ED25519Address (replicate 32 5)),
     governingAddress := Some (BLSAddress (replicate 32 6)), stateIndex := 300,
     stateData := [1, 2, 3], isDelegated := True, delegationTimelock := 77\<rparr>"

lemma alias_codec_roundtrip_witness:
  "\<exists>bs. Alias_Encode codec0 alias_sample = ok bs \<and>
        Alias_Decode codec0 (zeroAlias codec0) bs = ok (Some (alias_sample, length bs))"
proof -
  have "mustValidate codec0 alias_sample = ok ()"
    by (simp add: mustValidate_def checkBasicValidity_def alias_sample_def zeroAlias_def
        IsAboveDustThreshold_def DustThresholdAliasOutputZIPP_def DAList.update.rep_eq
        DAList.empty.rep_eq GetGoverningAddress_def IsSelfGoverned_def MaxOutputPayloadSize_def
        Address_Equals_iff)
  then obtain bs where bs: "Alias_Encode codec0 alias_sample = ok bs"
    using codec0.Alias_Encode_returns by (auto simp: returns_def)
  have "coins_ok (balances alias_sample)"
    by (simp add: alias_sample_def coins_ok_one ColorZIPP_def ColorLength_def)
  moreover have "alias_sample\<lparr>outputID := EmptyOutputID\<rparr> = alias_sample"
    by (simp add: alias_sample_def zeroAlias_def)
  ultimately show ?thesis
    using alias_codec_roundtrip[OF codec0.output_codec_axioms bs, of "[]"] bs
    by (simp add: alias_sample_def time64_def zeroAlias_def)
qed

text \<open>Decoding the serialization of an extended locked output gives the output back, up to its
  identifier, when its payload respects the size limit and a deadline is set only together with a
  fallback address.\<close>

theorem extended_codec_roundtrip:
  assumes "output_codec c time_ok balances_ok" and "Extended_Encode c x = ok bs"
    and "length (el_payload x) \<le> MaxOutputPayloadSize"
    and "time_ok (timelock x)" and "time_ok (fallbackDeadline x)" and "balances_ok (el_balances x)"
    and "length (Address_Digest (el_address x)) = 32"
    and "\<And>addr. fallbackAddress x = Some addr \<Longrightarrow> length (Address_Digest addr) = 32"
    and "fallbackAddress x = None \<longrightarrow> fallbackDeadline x = 0"
  shows "Extended_Decode c (zeroExtended c) (bs @ rest) =
         ok (Some (x\<lparr>el_id := EmptyOutputID\<rparr>, length bs))"
proof -
  have "Extended_fromMarshalUtil c (zeroExtended c) (bs @ rest) =
      ok (Some (x\<lparr>el_id := el_id (zeroExtended c)\<rparr>, rest))"
    by (rule output_codec.Extended_roundtrip[OF assms]) (simp_all add: zeroExtended_def)
  then show ?thesis by (simp add: Extended_Decode_def zeroExtended_def)
qed

definition extended_sample :: "coinmap ExtendedLockedOutput" where
  "extended_sample = (zeroExtended codec0)\<lparr>el_balances := DAList.update ColorZIPP 9 DAList.empty,
     fallbackAddress := Some (AliasAddress (replicate 32 4)), fallbackDeadline := 12,
     el_payload := [7, 7]\<rparr>"

lemma extended_codec_roundtrip_witness:
  "\<exists>bs. Extended_Encode codec0 extended_sample = ok bs \<and>
        Extended_Decode codec0 (zeroExtended codec0) bs = ok (Some (extended_sample, length bs))"
proof -
  obtain bs where bs: "Extended_Encode codec0 extended_sample = ok bs"
    using codec0.Extended_Encode_returns by (auto simp: returns_def)
  have "coins_ok (el_balances extended_sample)"
    by (simp add: extended_sample_def coins_ok_one ColorZIPP_def ColorLength_def)
  moreover have "extended_sample\<lparr>el_id := EmptyOutputID\<rparr> = extended_sample"
    by (simp add: extended_sample_def zeroExtended_def)
  ultimately show ?thesis
    using extended_codec_roundtrip[OF codec0.output_codec_axioms bs, of "[]"] bs
    by (simp add: extended_sample_def time64_def zeroExtended_def MaxOutputPayloadSize_def)
qed

end
