(* ===== verification/Markers.thy ===== *)
theory Markers
  imports Prelude
begin

text \<open>
  Markers of the past of a block and the sequences they belong to
  (packages/core/markers/models.go).

  Index and SequenceID are 64-bit machine integers, so that increments wrap.  A Go map is an
  association list with distinct keys; the order in which range visits it is a field
  of the record marker_env.  The threshold maps of the external package
  zipp.foundation/thresholdmap are values of the type parameter 't with the operations
  of the same record; the locale threshold_map states what the package documents.  The mutexes of
  the objects only serialise the methods and are not modelled.
\<close>

type_synonym index = "64 word"
type_synonym SequenceID = "64 word"

record Marker =
  marker_SequenceID :: SequenceID
  marker_Index :: index

definition NewMarker :: "SequenceID \<Rightarrow> index \<Rightarrow> Marker" where
  "NewMarker sequenceID i = \<lparr>marker_SequenceID = sequenceID, marker_Index = i\<rparr>"

type_synonym entries = "(SequenceID \<times> index) list"

record 't marker_env =
  rangeMarkers :: "entries \<Rightarrow> entries"
  rangeThresholds :: "(SequenceID \<times> 't) list \<Rightarrow> (SequenceID \<times> 't) list"
  newUpper :: 't
  newLower :: 't
  thresholdSet :: "'t \<Rightarrow> 64 word \<Rightarrow> index \<Rightarrow> 't"
  thresholdGet :: "'t \<Rightarrow> 64 word \<Rightarrow> index option"

section \<open>Markers\<close>

text \<open>A collection with one Index per Sequence, and its extreme indexes kept beside it.\<close>

record Markers =
  byID :: entries
  highest :: index
  lowest :: index

definition emptyMarkers :: Markers where
  "emptyMarkers = \<lparr>byID = [], highest = 0, lowest = 0\<rparr>"

definition Markers_Get :: "Markers \<Rightarrow> SequenceID \<Rightarrow> index option" where
  "Markers_Get m sequenceID = map_of (byID m) sequenceID"

definition scanLowest :: "entries \<Rightarrow> index \<Rightarrow> index" where
  "scanLowest es = fold (\<lambda>(_, scanned) low. if scanned < low \<or> low = 0 then scanned else low) es"

definition Markers_Set ::
    "('t, 'z) marker_env_scheme \<Rightarrow> SequenceID \<Rightarrow> index \<Rightarrow> Markers \<Rightarrow> Markers \<times> bool \<times> bool" where
  "Markers_Set env sequenceID i m0 =
     (let m = (if i > highest m0 then m0\<lparr>highest := i\<rparr> else m0)
      in case map_of (byID m) sequenceID of
           Some existingIndex \<Rightarrow>
             (if i > existingIndex
              then let m1 = m\<lparr>byID := AList.update sequenceID i (byID m)\<rparr>
                   in (if existingIndex = lowest m1
                       then m1\<lparr>lowest := scanLowest (rangeMarkers env (byID m1)) 0\<rparr>
                       else m1, True, False)
              else (m, False, False))
         | None \<Rightarrow>
             let m1 = (if i < lowest m \<or> lowest m = 0 then m\<lparr>lowest := i\<rparr> else m)
             in (m1\<lparr>byID := AList.update sequenceID i (byID m1)\<rparr>, True, True))"

definition NewMarkers :: "('t, 'z) marker_env_scheme \<Rightarrow> Marker list \<Rightarrow> Markers" where
  "NewMarkers env markers =
     fold (\<lambda>k m. fst (Markers_Set env (marker_SequenceID k) (marker_Index k) m)) markers emptyMarkers"

definition Markers_Marker :: "Markers \<Rightarrow> Marker go" where
  "Markers_Marker m =
     (case byID m of
        [] \<Rightarrow> fail (Raised ''converting empty Markers into a single Marker is not supported'')
      | [(sequenceID, i)] \<Rightarrow> ok (NewMarker sequenceID i)
      | _ \<Rightarrow> fail (Raised ''converting multiple Markers into a single Marker is not supported''))"

fun scanBoth :: "entries \<Rightarrow> index \<times> index \<Rightarrow> index \<times> index" where
  "scanBoth [] (lo, hi) = (lo, hi)"
| "scanBoth ((_, scanned) # es) (lo, hi) =
     scanBoth es (if scanned < lo \<or> lo = 0 then scanned else lo, if scanned > hi then scanned else hi)"

definition Markers_Delete ::
    "('t, 'z) marker_env_scheme \<Rightarrow> SequenceID \<Rightarrow> Markers \<Rightarrow> Markers \<times> bool" where
  "Markers_Delete env sequenceID m =
     (case map_of (byID m) sequenceID of
        None \<Rightarrow> (m\<lparr>byID := AList.delete sequenceID (byID m)\<rparr>, False)
      | Some existingIndex \<Rightarrow>
          let es = AList.delete sequenceID (byID m);
              lowestIndexDeleted = (existingIndex = lowest m);
              highestIndexDeleted = (existingIndex = highest m);
              lo = (if lowestIndexDeleted then 0 else lowest m);
              hi = (if highestIndexDeleted then 0 else highest m);
              (lo1, hi1) = (if lowestIndexDeleted \<or> highestIndexDeleted
                            then scanBoth (rangeMarkers env es) (lo, hi) else (lo, hi))
          in (\<lparr>byID = es, highest = hi1, lowest = lo1\<rparr>, True))"

text \<open>Clone inserts the entries of the map one after the other into a new collection.\<close>

definition Markers_Clone :: "('t, 'z) marker_env_scheme \<Rightarrow> Markers \<Rightarrow> Markers" where
  "Markers_Clone env m =
     fold (\<lambda>(sequenceID, i) c. fst (Markers_Set env sequenceID i c)) (rangeMarkers env (byID m)) emptyMarkers"

text \<open>
  The iterators take the state that the callback changes and return it with the flag that tells
  whether to go on.  The nil pointer, on which ForEach is also called, is None.
\<close>

fun iterate :: "(SequenceID \<Rightarrow> index \<Rightarrow> 's \<Rightarrow> 's \<times> bool) \<Rightarrow> entries \<Rightarrow> 's \<Rightarrow> 's \<times> bool" where
  "iterate iterator [] s = (s, True)"
| "iterate iterator ((sequenceID, i) # es) s =
     (case iterator sequenceID i s of
        (s1, success) \<Rightarrow> if success then iterate iterator es s1 else (s1, False))"

definition Markers_ForEach ::
    "('t, 'z) marker_env_scheme \<Rightarrow> Markers option \<Rightarrow>
     (SequenceID \<Rightarrow> index \<Rightarrow> 's \<Rightarrow> 's \<times> bool) \<Rightarrow> 's \<Rightarrow> 's \<times> bool" where
  "Markers_ForEach env m iterator s =
     (case m of
        None \<Rightarrow> (s, True)
      | Some m \<Rightarrow> iterate iterator (rangeMarkers env (byID (Markers_Clone env m))) s)"

text \<open>The identifiers are visited in descending order.  They are distinct.\<close>

definition sortedEntries :: "('t, 'z) marker_env_scheme \<Rightarrow> Markers \<Rightarrow> entries" where
  "sortedEntries env m =
     (let cloned = Markers_Clone env m;
          sequenceIDs = rev (sort (map fst (rangeMarkers env (byID cloned))))
      in map (\<lambda>s. (s, the (map_of (byID cloned) s))) sequenceIDs)"

definition Markers_ForEachSorted ::
    "('t, 'z) marker_env_scheme \<Rightarrow> Markers \<Rightarrow>
     (SequenceID \<Rightarrow> index \<Rightarrow> 's \<Rightarrow> 's \<times> bool) \<Rightarrow> 's \<Rightarrow> 's \<times> bool" where
  "Markers_ForEachSorted env m iterator s = iterate iterator (sortedEntries env m) s"

definition Markers_Size :: "Markers \<Rightarrow> nat" where
  "Markers_Size m = length (byID m)"

definition Markers_Merge ::
    "('t, 'z) marker_env_scheme \<Rightarrow> Markers option \<Rightarrow> Markers \<Rightarrow> Markers" where
  "Markers_Merge env markers m =
     fst (Markers_ForEach env markers (\<lambda>sequenceID i m. (fst (Markers_Set env sequenceID i m), True)) m)"

definition Markers_Equals :: "Markers \<Rightarrow> Markers \<Rightarrow> bool" where
  "Markers_Equals m other =
     (Markers_Size m = Markers_Size other \<and>
      list_all (\<lambda>(sequenceID, i). Markers_Get other sequenceID = Some i) (byID m))"

section \<open>Threshold maps and the references between sequences\<close>

text \<open>
  The documentation of the package: in the upper mode a key is the upper end of a range, and Get
  returns the value of the smallest key that is not below its argument; in the lower mode, of the
  largest key that is not above it.
\<close>

locale threshold_map =
  fixes env :: "('t, 'z) marker_env_scheme"
    and upper :: "'t \<Rightarrow> bool"
    and stored :: "'t \<Rightarrow> 64 word \<Rightarrow> index option"
  assumes new_modes: "upper (newUpper env)" "\<not> upper (newLower env)"
    and new_empty: "stored (newUpper env) k = None" "stored (newLower env) k = None"
    and set_mode: "upper (thresholdSet env t k v) = upper t"
    and set_stored: "stored (thresholdSet env t k v) = (stored t)(k \<mapsto> v)"
    and get_some: "thresholdGet env t k = Some v \<longleftrightarrow>
      (\<exists>j. stored t j = Some v \<and> (if upper t then k \<le> j else j \<le> k) \<and>
           (\<forall>i. stored t i \<noteq> None \<longrightarrow> (if upper t then k \<le> i else i \<le> k) \<longrightarrow> (if upper t then j \<le> i else i \<le> j)))"

type_synonym 't thresholds = "(SequenceID \<times> 't) list"

text \<open>ReferencingMarkers: which markers of child sequences reference an index.\<close>

definition Referencing_Add ::
    "('t, 'z) marker_env_scheme \<Rightarrow> index \<Rightarrow> Marker \<Rightarrow> 't thresholds \<Rightarrow> 't thresholds" where
  "Referencing_Add env i referencingMarker r =
     (let s = marker_SequenceID referencingMarker;
          thresholdMap = (case map_of r s of Some t \<Rightarrow> t | None \<Rightarrow> newUpper env)
      in AList.update s (thresholdSet env thresholdMap i (marker_Index referencingMarker)) r)"

definition References_Get ::
    "('t, 'z) marker_env_scheme \<Rightarrow> 't thresholds \<Rightarrow> index \<Rightarrow> Markers" where
  "References_Get env r i =
     fold (\<lambda>(sequenceID, thresholdMap) m.
             case thresholdGet env thresholdMap i of
               Some referenced \<Rightarrow> fst (Markers_Set env sequenceID referenced m)
             | None \<Rightarrow> m)
       (rangeThresholds env r) emptyMarkers"

text \<open>ReferencedMarkers: which markers of parent sequences an index references.\<close>

definition NewReferencedMarkers ::
    "('t, 'z) marker_env_scheme \<Rightarrow> Markers \<Rightarrow> 't thresholds" where
  "NewReferencedMarkers env markers =
     fst (Markers_ForEach env (Some markers)
       (\<lambda>sequenceID i r.
          (AList.update sequenceID (thresholdSet env (newLower env) (highest markers + 1) i) r, True)) [])"

definition Referenced_Add ::
    "('t, 'z) marker_env_scheme \<Rightarrow> index \<Rightarrow> Markers \<Rightarrow> 't thresholds \<Rightarrow> 't thresholds" where
  "Referenced_Add env i referencedMarkers r =
     fst (Markers_ForEach env (Some referencedMarkers)
       (\<lambda>referencedSequenceID referencedIndex r.
          let thresholdMap = (case map_of r referencedSequenceID of Some t \<Rightarrow> t | None \<Rightarrow> newLower env)
          in (AList.update referencedSequenceID (thresholdSet env thresholdMap i referencedIndex) r, True)) r)"

section \<open>Sequences\<close>

record 't Sequence =
  seq_ID :: SequenceID
  referenced :: "'t thresholds"
  referencing :: "'t thresholds"
  seq_lowest :: index
  seq_highest :: index

definition NewSequence ::
    "('t, 'z) marker_env_scheme \<Rightarrow> SequenceID \<Rightarrow> Markers \<Rightarrow> 't Sequence" where
  "NewSequence env sid referencedMarkers =
     (let initialIndex = highest referencedMarkers + 1;
          initialIndex = (if sid = 0 then initialIndex - 1 else initialIndex)
      in \<lparr>seq_ID = sid, referenced = NewReferencedMarkers env referencedMarkers, referencing = [],
          seq_lowest = initialIndex, seq_highest = initialIndex\<rparr>)"

definition Sequence_ReferencedMarkers ::
    "('t, 'z) marker_env_scheme \<Rightarrow> 't Sequence \<Rightarrow> index \<Rightarrow> Markers" where
  "Sequence_ReferencedMarkers env s i = References_Get env (referenced s) i"

definition Sequence_ReferencingMarkers ::
    "('t, 'z) marker_env_scheme \<Rightarrow> 't Sequence \<Rightarrow> index \<Rightarrow> Markers" where
  "Sequence_ReferencingMarkers env s i = References_Get env (referencing s) i"

text \<open>
  TryExtend returns the changed sequence, its highest index, the markers of the other sequences
  that the new index references (the nil pointer is None) and whether an index was assigned.
\<close>

definition TryExtend ::
    "('t, 'z) marker_env_scheme \<Rightarrow> 't Sequence \<Rightarrow> Markers \<Rightarrow> (SequenceID \<Rightarrow> index \<Rightarrow> bool) \<Rightarrow>
     ('t Sequence \<times> index \<times> Markers option \<times> bool) go" where
  "TryExtend env s referencedPastMarkers increaseIndex =
     (case Markers_Get referencedPastMarkers (seq_ID s) of
        None \<Rightarrow> fail (Raised ''tried to extend unreferenced Sequence'')
      | Some referencedSequenceIndex \<Rightarrow>
          if referencedSequenceIndex = seq_highest s \<and> increaseIndex (seq_ID s) referencedSequenceIndex
          then let s1 = s\<lparr>seq_highest := highest referencedPastMarkers + 1\<rparr>
               in if Markers_Size referencedPastMarkers > 1
                  then let remaining = fst (Markers_Delete env (seq_ID s) (Markers_Clone env referencedPastMarkers));
                           s2 = s1\<lparr>referenced := Referenced_Add env (seq_highest s1) remaining (referenced s1)\<rparr>
                       in ok (s2, seq_highest s2, Some remaining, True)
                  else ok (s1, seq_highest s1, None, True)
          else ok (s, seq_highest s, None, False))"

text \<open>IncreaseHighestIndex also deletes the own entry from the collection of its caller.\<close>

definition IncreaseHighestIndex ::
    "('t, 'z) marker_env_scheme \<Rightarrow> 't Sequence \<Rightarrow> Markers \<Rightarrow> ('t Sequence \<times> Markers \<times> index \<times> bool) go" where
  "IncreaseHighestIndex env s referencedMarkers =
     (case Markers_Get referencedMarkers (seq_ID s) of
        None \<Rightarrow> fail (Raised ''tried to increase Index of wrong Sequence'')
      | Some referencedSequenceIndex \<Rightarrow>
          if referencedSequenceIndex \<ge> seq_highest s
          then let s1 = s\<lparr>seq_highest := highest referencedMarkers + 1\<rparr>
               in if Markers_Size referencedMarkers > 1
                  then let remaining = fst (Markers_Delete env (seq_ID s) referencedMarkers);
                           s2 = s1\<lparr>referenced := Referenced_Add env (seq_highest s1) remaining (referenced s1)\<rparr>
                       in ok (s2, remaining, seq_highest s2, True)
                  else ok (s1, referencedMarkers, seq_highest s1, True)
          else ok (s, referencedMarkers, seq_highest s, False))"

definition AddReferencingMarker ::
    "('t, 'z) marker_env_scheme \<Rightarrow> index \<Rightarrow> Marker \<Rightarrow> 't Sequence \<Rightarrow> 't Sequence" where
  "AddReferencingMarker env i referencingMarker s =
     s\<lparr>referencing := Referencing_Add env i referencingMarker (referencing s)\<rparr>"

section \<open>Structure details\<close>

record StructureDetails =
  Rank :: "64 word"
  PastMarkerGap :: "64 word"
  IsPastMarker :: bool
  PastMarkers :: Markers

definition NewStructureDetails :: StructureDetails where
  "NewStructureDetails =
     \<lparr>Rank = 0, PastMarkerGap = 0, IsPastMarker = False, PastMarkers = emptyMarkers\<rparr>"

definition StructureDetails_Clone ::
    "('t, 'z) marker_env_scheme \<Rightarrow> StructureDetails \<Rightarrow> StructureDetails" where
  "StructureDetails_Clone env d =
     \<lparr>Rank = Rank d, PastMarkerGap = PastMarkerGap d, IsPastMarker = IsPastMarker d,
      PastMarkers = Markers_Clone env (PastMarkers d)\<rparr>"

end
