(* ===== verification/Foundation.thy ===== *)
theory Foundation
  imports Prelude
begin

text \<open>
  The interfaces of the external module zipp.foundation that several components use, as locales
  over their operations: the walker (generics/walker) and an object storage
  (generics/objectstorage).  A component names the operations it takes in a record and extends the
  locale over the fields of that record.
\<close>

text \<open>Everything pushed was visited or is pending.\<close>

definition walk_covers :: "('w \<Rightarrow> 'c list) \<Rightarrow> ('w \<Rightarrow> 'c set) \<Rightarrow> 'c set \<Rightarrow> 'w \<Rightarrow> bool" where
  "walk_covers pending pushed V w \<longleftrightarrow> pushed w \<subseteq> V \<union> set (pending w) \<and> set (pending w) \<subseteq> pushed w"

text \<open>
  A walker holds the elements that are still to be visited, in order.  Push may ignore an element
  that was pushed before.
\<close>

locale walker =
  fixes new :: 'w and push :: "'w \<Rightarrow> 'x \<Rightarrow> 'w" and next_of :: "'w \<Rightarrow> ('x \<times> 'w) option"
    and pending :: "'w \<Rightarrow> 'x list" and pushed :: "'w \<Rightarrow> 'x set"
  assumes pending_new: "pending new = []" and pushed_new: "pushed new = {}"
    and push_pending: "pending (push w m) = pending w @ [m] \<or> m \<in> pushed w \<and> pending (push w m) = pending w"
    and push_pushed: "pushed (push w m) = insert m (pushed w)"
    and next_None: "next_of w = None \<longleftrightarrow> pending w = []"
    and next_Some: "next_of w = Some (m, w') \<Longrightarrow> pending w = m # pending w' \<and> pushed w' = pushed w"
begin

lemma next_length: "next_of w = Some (m, w') \<Longrightarrow> length (pending w) = Suc (length (pending w'))"
  using next_Some by fastforce

lemma pushed_fold: "pushed (fold (\<lambda>x w. push w x) xs w) = set xs \<union> pushed w"
  by (induction xs arbitrary: w) (auto simp: push_pushed)

text \<open>What was pushed is still pending or was visited before.\<close>

lemma pending_mono: "set (pending w) \<subseteq> set (pending (fold (\<lambda>x w. push w x) xs w))"
proof (induction xs arbitrary: w)
  case (Cons x xs)
  have "set (pending w) \<subseteq> set (pending (push w x))" using push_pending [of w x] by auto
  with Cons show ?case by (metis fold_simps(2) order.trans)
qed simp

lemma pending_subset: "set (pending (fold (\<lambda>x w. push w x) xs w)) \<subseteq> set xs \<union> set (pending w)"
proof (induction xs arbitrary: w)
  case (Cons x xs)
  have "set (pending (push w x)) \<subseteq> insert x (set (pending w))" using push_pending [of w x] by auto
  with Cons [of "push w x"] show ?case by auto
qed simp

lemma pending_covers:
  assumes "pushed w \<subseteq> V \<union> set (pending w)"
  shows "pushed (fold (\<lambda>x w. push w x) xs w) \<subseteq> V \<union> set (pending (fold (\<lambda>x w. push w x) xs w))"
  using assms
proof (induction xs arbitrary: w)
  case (Cons x xs)
  have "pushed (push w x) \<subseteq> V \<union> set (pending (push w x))"
    using push_pending [of w x] Cons.prems by (auto simp: push_pushed)
  with Cons.IH show ?case by simp
qed simp

lemma covers_fold:
  assumes "walk_covers pending pushed V w"
  shows "walk_covers pending pushed V (fold (\<lambda>x w. push w x) xs w)"
proof -
  have "set (pending (fold (\<lambda>x w. push w x) xs w)) \<subseteq> set xs \<union> set (pending w)" by (rule pending_subset)
  also have "\<dots> \<subseteq> pushed (fold (\<lambda>x w. push w x) xs w)"
    using assms by (auto simp: walk_covers_def pushed_fold)
  finally show ?thesis using pending_covers [of w V xs] assms by (auto simp: walk_covers_def)
qed

lemma covers_next:
  assumes "walk_covers pending pushed V w" and "next_of w = Some (i, w1)"
  shows "walk_covers pending pushed (insert i V) w1" and "pushed w1 = pushed w" and "i \<in> pushed w"
  using assms next_Some [OF assms(2)] by (auto simp: walk_covers_def)

lemma covers_new: "walk_covers pending pushed {} (new)"
  by (simp add: walk_covers_def pending_new pushed_new)

lemma covers_push: "walk_covers pending pushed V w \<Longrightarrow> walk_covers pending pushed V (push w x)"
  using covers_fold [of V w "[x]"] by simp

end

text \<open>
  A walker that visits every element at most once, as walker.New returns it: an element
  that was pushed before is ignored.  What it may still visit of a finite set only shrinks, which is why a
  loop over it ends.
\<close>

definition budget :: "('w \<Rightarrow> 'x list) \<Rightarrow> ('w \<Rightarrow> 'x set) \<Rightarrow> 'x set \<Rightarrow> 'w \<Rightarrow> nat" where
  "budget pending pushed U w = card (U - pushed w) + length (pending w)"

locale once_walker = walker +
  assumes push_again: "m \<in> pushed w \<Longrightarrow> pending (push w m) = pending w"
begin

lemma budget_push:
  assumes "finite U" and "m \<in> U"
  shows "budget pending pushed U (push w m) \<le> budget pending pushed U w"
proof (cases "m \<in> pushed w")
  case True
  then show ?thesis by (simp add: budget_def push_pushed push_again insert_absorb)
next
  case False
  then have "U - pushed w = insert m (U - pushed (push w m))" "m \<notin> U - pushed (push w m)"
    using assms by (auto simp: push_pushed)
  then have "card (U - pushed w) = Suc (card (U - pushed (push w m)))" using assms by (metis card_insert_disjoint finite_Diff)
  moreover have "length (pending (push w m)) \<le> Suc (length (pending w))" using push_pending [of w m] by auto
  ultimately show ?thesis by (simp add: budget_def)
qed

lemma budget_fold:
  assumes "finite U" and "set xs \<subseteq> U"
  shows "budget pending pushed U (fold (\<lambda>x w. push w x) xs w) \<le> budget pending pushed U w"
  using assms(2)
proof (induction xs arbitrary: w)
  case (Cons x xs)
  then show ?case using budget_push [OF assms(1), of x w] Cons.IH [of "push w x"] by (simp add: le_trans [OF Cons.IH])
qed simp

lemma budget_next: "next_of w = Some (m, w') \<Longrightarrow> budget pending pushed U w' < budget pending pushed U w"
  using next_length [of w m w'] next_Some [of w m w'] by (simp add: budget_def)

end

text \<open>A storage of objects by a key that the object contains.\<close>

locale object_store =
  fixes load :: "'s \<Rightarrow> 'k \<Rightarrow> 'v option" and store :: "'s \<Rightarrow> 'v \<Rightarrow> 's" and key :: "'v \<Rightarrow> 'k"
  assumes load_store: "load (store s x) k = (if k = key x then Some x else load s k)"

text \<open>The order in which the iterator of a set visits the elements.\<close>

definition enumerates :: "('a set \<Rightarrow> 'a list) \<Rightarrow> bool" where
  "enumerates elems \<longleftrightarrow> (\<forall>A. finite A \<longrightarrow> set (elems A) = A \<and> distinct (elems A))"

lemma enumeratesD: "enumerates elems \<Longrightarrow> finite A \<Longrightarrow> set (elems A) = A"
  by (simp add: enumerates_def)

end
