(* ===== verification/MarkerManager.thy ===== *)
theory MarkerManager
  imports Markers Foundation
begin

text \<open>
  The Manager of the markers (packages/core/markers/manager.go): it merges and normalizes the past
  markers of the parents of a block, extends a sequence or creates one, and so assigns the marker of
  the block.

  The object storage of the sequences and the walker come from external packages.  The storage is a
  value of the type parameter 's that loads a sequence by its identifier and takes changed
  sequences back (a cached object is changed in place); the walker is a value of the type parameter
  'w.  Their operations are fields of manager_env, the laws of their documentation are
  the locales sequence_store and marker_walker.
\<close>

record ('t, 'w, 's) manager_env = "'t marker_env" +
  loadSequence :: "'s \<Rightarrow> SequenceID \<Rightarrow> 't Sequence option"
  storeSequence :: "'s \<Rightarrow> 't Sequence \<Rightarrow> 's"
  newWalker :: 'w
  pushMarker :: "'w \<Rightarrow> Marker \<Rightarrow> 'w"
  nextMarker :: "'w \<Rightarrow> (Marker \<times> 'w) option"

locale sequence_store = object_store "loadSequence env" "storeSequence env" seq_ID
  for env :: "('t, 'w, 's, 'z) manager_env_scheme"

locale marker_walker = walker "newWalker env" "pushMarker env" "nextMarker env" pending pushed
  for env :: "('t, 'w, 's, 'z) manager_env_scheme"
    and pending :: "'w \<Rightarrow> Marker list" and pushed :: "'w \<Rightarrow> Marker set"

record 's Manager =
  sequenceStorage :: 's
  sequenceIDCounter :: SequenceID
  MaxPastMarkerDistance :: "64 word"

text \<open>
  NewManager, without the options and without a stored counter: the storage holds the sequence 0
  (StoreIfAbsent keeps one that is there).
\<close>

definition initObjectStorage :: "('t, 'w, 's, 'z) manager_env_scheme \<Rightarrow> 's Manager \<Rightarrow> 's Manager" where
  "initObjectStorage env mgr =
     (case loadSequence env (sequenceStorage mgr) 0 of
        Some _ \<Rightarrow> mgr
      | None \<Rightarrow> mgr\<lparr>sequenceStorage := storeSequence env (sequenceStorage mgr) (NewSequence env 0 emptyMarkers)\<rparr>)"

definition initSequenceIDCounter :: "SequenceID option \<Rightarrow> 's Manager \<Rightarrow> 's Manager" where
  "initSequenceIDCounter storedSequenceIDCounter mgr =
     (case storedSequenceIDCounter of Some c \<Rightarrow> mgr\<lparr>sequenceIDCounter := c\<rparr> | None \<Rightarrow> mgr)"

definition NewManager ::
    "('t, 'w, 's, 'z) manager_env_scheme \<Rightarrow> SequenceID option \<Rightarrow> 's \<Rightarrow> 64 word \<Rightarrow> 's Manager" where
  "NewManager env storedSequenceIDCounter storage maxPastMarkerDistance =
     initObjectStorage env (initSequenceIDCounter storedSequenceIDCounter
       \<lparr>sequenceStorage = storage, sequenceIDCounter = 0, MaxPastMarkerDistance = maxPastMarkerDistance\<rparr>)"

definition Manager_Sequence ::
    "('t, 'w, 's, 'z) manager_env_scheme \<Rightarrow> 's Manager \<Rightarrow> SequenceID \<Rightarrow> 't Sequence option" where
  "Manager_Sequence env mgr sequenceID = loadSequence env (sequenceStorage mgr) sequenceID"

definition Manager_put ::
    "('t, 'w, 's, 'z) manager_env_scheme \<Rightarrow> 't Sequence \<Rightarrow> 's Manager \<Rightarrow> 's Manager" where
  "Manager_put env s mgr = mgr\<lparr>sequenceStorage := storeSequence env (sequenceStorage mgr) s\<rparr>"

section \<open>Merging the parents\<close>

definition mergeParent ::
    "('t, 'z) marker_env_scheme \<Rightarrow> StructureDetails \<Rightarrow> StructureDetails \<Rightarrow> StructureDetails" where
  "mergeParent env referencedPair merged =
     (let m1 = merged\<lparr>PastMarkers := Markers_Merge env (Some (PastMarkers referencedPair)) (PastMarkers merged)\<rparr>;
          m2 = (if PastMarkerGap referencedPair < PastMarkerGap m1
                then m1\<lparr>PastMarkerGap := PastMarkerGap referencedPair\<rparr> else m1)
      in if Rank referencedPair > Rank m2 then m2\<lparr>Rank := Rank referencedPair\<rparr> else m2)"

definition mergeParentStructureDetails ::
    "('t, 'z) marker_env_scheme \<Rightarrow> StructureDetails list \<Rightarrow> StructureDetails" where
  "mergeParentStructureDetails env parents =
     (let merged = fold (mergeParent env) parents (NewStructureDetails\<lparr>PastMarkerGap := - 1\<rparr>)
      in merged\<lparr>PastMarkerGap := PastMarkerGap merged + 1, Rank := Rank merged + 1\<rparr>)"

section \<open>Normalizing markers\<close>

definition pushMarkers ::
    "('t, 'w, 's, 'z) manager_env_scheme \<Rightarrow> Markers \<Rightarrow> 'w \<Rightarrow> 'w" where
  "pushMarkers env markers w =
     fst (Markers_ForEach env (Some markers)
       (\<lambda>sequenceID i w. (pushMarker env w (NewMarker sequenceID i), True)) w)"

text \<open>
  The body of the loop up to the loading of the sequence: the new seenMarkers and normalizedMarkers,
  and whether the references of the current marker are followed (false at a continue).
\<close>

definition normalize_visit ::
    "('t, 'z) marker_env_scheme \<Rightarrow> Markers \<Rightarrow> nat \<Rightarrow> Marker \<Rightarrow> Markers \<Rightarrow> Markers \<Rightarrow>
     Markers \<times> Markers \<times> bool" where
  "normalize_visit env markers i current seen normalized =
     (if i \<ge> Markers_Size markers
      then case Markers_Set env (marker_SequenceID current) (marker_Index current) seen of
             (seen1, updated, added) \<Rightarrow>
               if \<not> updated \<and> \<not> added then (seen1, normalized, False)
               else case Markers_Get normalized (marker_SequenceID current) of
                      Some j \<Rightarrow>
                        if j > marker_Index current then (seen1, normalized, False)
                        else (seen1, fst (Markers_Delete env (marker_SequenceID current) normalized), True)
                    | None \<Rightarrow> (seen1, normalized, True)
      else (seen, normalized, True))"

partial_function (option) normalize_loop ::
    "('t, 'w, 's, 'z) manager_env_scheme \<Rightarrow> 's \<Rightarrow> Markers \<Rightarrow> nat \<Rightarrow> 'w \<Rightarrow> Markers \<Rightarrow> Markers \<Rightarrow>
     (panic + Markers) option" where
  "normalize_loop env st markers i w seen normalized =
     (case nextMarker env w of
        None \<Rightarrow> Some (Inr normalized)
      | Some (current, w1) \<Rightarrow>
          (case normalize_visit env markers i current seen normalized of
             (seen1, normalized1, follow) \<Rightarrow>
               if \<not> follow then normalize_loop env st markers (Suc i) w1 seen1 normalized1
               else (case loadSequence env st (marker_SequenceID current) of
                       None \<Rightarrow> Some (Inl (Raised ''failed to load Sequence''))
                     | Some s \<Rightarrow>
                         normalize_loop env st markers (Suc i)
                           (pushMarkers env (Sequence_ReferencedMarkers env s (marker_Index current)) w1)
                           seen1 normalized1)))"

definition normalizeMarkers ::
    "('t, 'w, 's, 'z) manager_env_scheme \<Rightarrow> 's Manager \<Rightarrow> Markers \<Rightarrow> (panic + Markers) option" where
  "normalizeMarkers env mgr markers =
     normalize_loop env (sequenceStorage mgr) markers 0 (pushMarkers env markers (newWalker env))
       emptyMarkers (Markers_Clone env markers)"

section \<open>Assigning a marker\<close>

definition registerReferencingMarker ::
    "('t, 'w, 's, 'z) manager_env_scheme \<Rightarrow> Markers option \<Rightarrow> Marker \<Rightarrow> 's Manager \<Rightarrow> 's Manager" where
  "registerReferencingMarker env referencedPastMarkers marker mgr =
     fst (Markers_ForEach env referencedPastMarkers
       (\<lambda>sequenceID i mgr.
          case Manager_Sequence env mgr sequenceID of
            Some s \<Rightarrow> (Manager_put env (AddReferencingMarker env i marker s) mgr, True)
          | None \<Rightarrow> (mgr, True)) mgr)"

text \<open>The iterator of ForEachSorted stops as soon as a sequence could be extended.\<close>

fun extend_loop ::
    "('t, 'w, 's, 'z) manager_env_scheme \<Rightarrow> Markers \<Rightarrow> (SequenceID \<Rightarrow> index \<Rightarrow> bool) \<Rightarrow> entries \<Rightarrow>
     's Manager \<Rightarrow> ('s Manager \<times> Marker option) go" where
  "extend_loop env past increaseIndex [] mgr = ok (mgr, None)"
| "extend_loop env past increaseIndex ((sequenceID, _) # es) mgr =
     (case Manager_Sequence env mgr sequenceID of
        None \<Rightarrow> extend_loop env past increaseIndex es mgr
      | Some s \<Rightarrow>
          bindE (TryExtend env s past increaseIndex) (\<lambda>(s1, newIndex, remaining, extended).
            let mgr1 = Manager_put env s1 mgr; marker = NewMarker sequenceID newIndex
            in if extended then ok (registerReferencingMarker env remaining marker mgr1, Some marker)
               else extend_loop env past increaseIndex es mgr1))"

definition extendHighestAvailableSequence ::
    "('t, 'w, 's, 'z) manager_env_scheme \<Rightarrow> 's Manager \<Rightarrow> Markers \<Rightarrow> (SequenceID \<Rightarrow> index \<Rightarrow> bool) \<Rightarrow>
     ('s Manager \<times> Marker option) go" where
  "extendHighestAvailableSequence env mgr past increaseIndex =
     extend_loop env past increaseIndex (sortedEntries env past) mgr"

definition createSequenceIfNecessary ::
    "('t, 'w, 's, 'z) manager_env_scheme \<Rightarrow> 's Manager \<Rightarrow> StructureDetails \<Rightarrow> 's Manager \<times> Marker option" where
  "createSequenceIfNecessary env mgr details =
     (if PastMarkerGap details < MaxPastMarkerDistance mgr then (mgr, None)
      else let mgr1 = mgr\<lparr>sequenceIDCounter := sequenceIDCounter mgr + 1\<rparr>;
               newSequence = NewSequence env (sequenceIDCounter mgr1) (PastMarkers details);
               mgr2 = Manager_put env newSequence mgr1;
               firstMarker = NewMarker (seq_ID newSequence) (seq_lowest newSequence)
           in (registerReferencingMarker env (Some (PastMarkers details)) firstMarker mgr2, Some firstMarker))"

text \<open>
  InheritStructureDetails after the past markers are normalized: the manager, the details and the
  flag of a new sequence.
\<close>

definition assignMarker ::
    "('t, 'w, 's, 'z) manager_env_scheme \<Rightarrow> 's Manager \<Rightarrow> StructureDetails \<Rightarrow> (SequenceID \<Rightarrow> index \<Rightarrow> bool) \<Rightarrow>
     ('s Manager \<times> StructureDetails \<times> bool) go" where
  "assignMarker env mgr inherited increaseIndex =
     bindE (extendHighestAvailableSequence env mgr (PastMarkers inherited) increaseIndex)
       (\<lambda>(mgr1, extendedMarker).
          case extendedMarker of
            Some marker \<Rightarrow>
              ok (mgr1, inherited\<lparr>IsPastMarker := True, PastMarkerGap := 0, PastMarkers := NewMarkers env [marker]\<rparr>, False)
          | None \<Rightarrow>
              (case createSequenceIfNecessary env mgr1 inherited of
                 (mgr2, Some marker) \<Rightarrow>
                   ok (mgr2, inherited\<lparr>IsPastMarker := True, PastMarkerGap := 0, PastMarkers := NewMarkers env [marker]\<rparr>, True)
               | (mgr2, None) \<Rightarrow> ok (mgr2, inherited, False)))"

definition InheritStructureDetails ::
    "('t, 'w, 's, 'z) manager_env_scheme \<Rightarrow> 's Manager \<Rightarrow> StructureDetails list \<Rightarrow>
     (SequenceID \<Rightarrow> index \<Rightarrow> bool) \<Rightarrow> ('s Manager \<times> StructureDetails \<times> bool) go option" where
  "InheritStructureDetails env mgr parents increaseIndex =
     (let merged = mergeParentStructureDetails env parents
      in map_option (\<lambda>r. bindE r (\<lambda>normalized.
           let past = (if Markers_Size normalized = 0 then NewMarkers env [NewMarker 0 0] else normalized)
           in assignMarker env mgr (merged\<lparr>PastMarkers := past\<rparr>) increaseIndex))
         (normalizeMarkers env mgr (PastMarkers merged)))"

section \<open>Comparing markers\<close>

definition laterMarkerDirectlyReferencesEarlierMarkers :: "Marker \<Rightarrow> Markers \<Rightarrow> bool \<Rightarrow> bool" where
  "laterMarkerDirectlyReferencesEarlierMarkers later earlier requireBigger =
     (if marker_Index later < (if requireBigger then lowest earlier + 1 else lowest earlier) then False
      else case Markers_Get earlier (marker_SequenceID later) of
             None \<Rightarrow> False
           | Some earlierIndex \<Rightarrow> marker_Index later \<ge> (if requireBigger then earlierIndex + 1 else earlierIndex))"

partial_function (option) reference_loop ::
    "('t, 'w, 's, 'z) manager_env_scheme \<Rightarrow> 's \<Rightarrow> Markers \<Rightarrow> Markers \<Rightarrow> bool \<Rightarrow> nat \<Rightarrow> 'w \<Rightarrow> Markers \<Rightarrow> bool option" where
  "reference_loop env st later earlier requireBigger i w seen =
     (case nextMarker env w of
        None \<Rightarrow> Some False
      | Some (current, w1) \<Rightarrow>
          (case Markers_Set env (marker_SequenceID current) (marker_Index current) seen of
             (seen1, updated, added) \<Rightarrow>
               if \<not> updated \<and> \<not> added then reference_loop env st later earlier requireBigger (Suc i) w1 seen1
               else if laterMarkerDirectlyReferencesEarlierMarkers current earlier
                         (i < Markers_Size later \<and> requireBigger)
               then Some True
               else reference_loop env st later earlier requireBigger (Suc i)
                      (case loadSequence env st (marker_SequenceID current) of
                         Some s \<Rightarrow> pushMarkers env (Sequence_ReferencedMarkers env s (marker_Index current)) w1
                       | None \<Rightarrow> w1) seen1))"

definition laterMarkersReferenceEarlierMarkers ::
    "('t, 'w, 's, 'z) manager_env_scheme \<Rightarrow> 's Manager \<Rightarrow> Markers \<Rightarrow> Markers \<Rightarrow> bool \<Rightarrow> bool option" where
  "laterMarkersReferenceEarlierMarkers env mgr later earlier requireBigger =
     reference_loop env (sequenceStorage mgr) later earlier requireBigger 0
       (pushMarkers env later (newWalker env)) emptyMarkers"

end
