(* ===== verification/MarkerLaws.thy ===== *)
theory MarkerLaws
  imports MarkerManager "HOL-Library.Option_ord"
begin

text \<open>
  Laws of the collections of markers: what every operation does to the map from sequences to
  indexes, and the invariant that the cached highest index is the maximum.
\<close>

locale go_ranges =
  fixes env :: "('t, 'z) marker_env_scheme"
  assumes range_markers: "mset (rangeMarkers env es) = mset es"
    and range_thresholds: "mset (rangeThresholds env ts) = mset ts"

definition top_index :: "entries \<Rightarrow> index" where
  "top_index es = Max (insert 0 (snd ` set es))"

definition markers_ok :: "Markers \<Rightarrow> bool" where
  "markers_ok m \<longleftrightarrow> distinct (map fst (byID m)) \<and> highest m = top_index (byID m)"

text \<open>The entries in some order.\<close>

definition lists :: "entries \<Rightarrow> Markers \<Rightarrow> bool" where
  "lists es m \<longleftrightarrow> distinct (map fst es) \<and> map_of es = Markers_Get m"

section \<open>The highest index\<close>

lemma top_index_Nil [simp]: "top_index [] = 0"
  by (simp add: top_index_def)

lemma top_index_le: "(s, i) \<in> set es \<Longrightarrow> i \<le> top_index es"
  unfolding top_index_def by (rule Max_ge) force+

lemma top_indexI:
  assumes "\<And>s j. (s, j) \<in> set es \<Longrightarrow> j \<le> i" and "i = 0 \<or> i \<in> snd ` set es"
  shows "top_index es = i"
  unfolding top_index_def
proof (rule Max_eqI)
  show "y \<le> i" if "y \<in> insert 0 (snd ` set es)" for y
    using that assms(1) by (auto simp: word_order.extremum)
qed (use assms(2) in auto)

lemma top_index_cases: "top_index es = 0 \<or> top_index es \<in> snd ` set es"
  using Max_in [of "insert 0 (snd ` set es)"] by (auto simp: top_index_def)

lemma top_index_update_new:
  assumes "map_of es s = None"
  shows "top_index (AList.update s i es) = max i (top_index es)"
proof (rule top_indexI)
  have u: "AList.update s i es = es @ [(s, i)]" using assms by (rule update_new_append)
  show "j \<le> max i (top_index es)" if "(t, j) \<in> set (AList.update s i es)" for t j
    using that top_index_le by (fastforce simp: u max_def)
  show "max i (top_index es) = 0 \<or> max i (top_index es) \<in> snd ` set (AList.update s i es)"
    using top_index_cases [of es] by (auto simp: u max_def)
qed

lemma set_update_distinct:
  "distinct (map fst es) \<Longrightarrow> set (AList.update s i es) = insert (s, i) {x \<in> set es. fst x \<noteq> s}"
  by (induction es) (force split: if_splits)+

lemma top_index_update_higher:
  assumes "distinct (map fst es)" and "map_of es s = Some j" and "j \<le> i"
  shows "top_index (AList.update s i es) = max i (top_index es)"
proof (rule top_indexI)
  show "k \<le> max i (top_index es)" if "(t, k) \<in> set (AList.update s i es)" for t k
    using that top_index_le [of t k es] assms(1) by (auto simp: set_update_distinct max_def)
  have "top_index es \<in> snd ` set (AList.update s i es)"
    if h: "top_index es \<noteq> 0" and lt: "i < top_index es"
  proof -
    from h obtain t where t: "(t, top_index es) \<in> set es" using top_index_cases [of es] by force
    have "t \<noteq> s"
    proof
      assume "t = s"
      then have "top_index es = j" using t assms(1, 2) by simp
      with lt assms(3) show False by simp
    qed
    with t assms(1) show ?thesis by (force simp: set_update_distinct)
  qed
  then show "max i (top_index es) = 0 \<or> max i (top_index es) \<in> snd ` set (AList.update s i es)"
    using assms(1) by (cases "i < top_index es"; cases "top_index es = 0")
      (auto simp: max_def set_update_distinct not_less)
qed

lemma word_less_Suc: "(w :: 64 word) \<noteq> - 1 \<Longrightarrow> v \<le> w \<Longrightarrow> v < w + 1"
proof -
  assume w: "w \<noteq> - 1" and v: "v \<le> w"
  have "1 + w \<noteq> 0" using w by (metis add.commute add_eq_0_iff)
  then have "unat (w + 1) = Suc (unat w)" by (metis add.commute unatSuc)
  with v show ?thesis by (simp add: word_less_nat_alt word_le_nat_alt)
qed

section \<open>Set\<close>

lemma Markers_Get_empty [simp]: "Markers_Get emptyMarkers = Map.empty"
  by (simp add: Markers_Get_def emptyMarkers_def fun_eq_iff)

lemma markers_ok_empty [simp]: "markers_ok emptyMarkers"
  by (simp add: markers_ok_def emptyMarkers_def)

lemma byID_Set:
  "byID (fst (Markers_Set env s i m)) =
     (case map_of (byID m) s of
        Some j \<Rightarrow> if j < i then AList.update s i (byID m) else byID m
      | None \<Rightarrow> AList.update s i (byID m))"
  by (auto simp: Markers_Set_def Let_def split: option.split)

lemma highest_Set: "highest (fst (Markers_Set env s i m)) = max i (highest m)"
  by (auto simp: Markers_Set_def Let_def max_def split: option.split)

lemma Get_Set:
  "Markers_Get (fst (Markers_Set env s i m)) = (Markers_Get m)(s := max (Markers_Get m s) (Some i))"
  by (auto simp: Markers_Get_def byID_Set fun_eq_iff max_def update_conv split: option.split)

lemma Set_flags:
  "snd (Markers_Set env s i m) =
     (case Markers_Get m s of None \<Rightarrow> (True, True) | Some j \<Rightarrow> (j < i, False))"
  by (auto simp: Markers_Set_def Markers_Get_def Let_def split: option.split)

lemma markers_ok_Set [simp]:
  assumes "markers_ok m"
  shows "markers_ok (fst (Markers_Set env s i m))"
proof (cases "map_of (byID m) s")
  case None
  with assms show ?thesis
    by (simp add: markers_ok_def byID_Set highest_Set top_index_update_new)
next
  case (Some j)
  then have "j \<le> top_index (byID m)" by (auto intro: top_index_le dest: map_of_SomeD)
  with Some assms show ?thesis
    by (auto simp: markers_ok_def byID_Set highest_Set max_def top_index_update_higher not_less)
qed

lemma highest_ge:
  "markers_ok m \<Longrightarrow> Markers_Get m s = Some i \<Longrightarrow> i \<le> highest m"
  by (auto simp: markers_ok_def Markers_Get_def intro: top_index_le dest: map_of_SomeD)

lemma highest_cases:
  "markers_ok m \<Longrightarrow> highest m = 0 \<or> (\<exists>s. Markers_Get m s = Some (highest m))"
  using top_index_cases [of "byID m"] by (force simp: markers_ok_def Markers_Get_def)

lemma Markers_Size_zero: "Markers_Size m = 0 \<longleftrightarrow> Markers_Get m = Map.empty"
  by (cases "byID m") (auto simp: Markers_Size_def Markers_Get_def [abs_def] fun_eq_iff)

section \<open>Delete\<close>

lemma top_index_Cons: "top_index ((s, i) # es) = max i (top_index es)"
proof (rule top_indexI)
  show "j \<le> max i (top_index es)" if "(t, j) \<in> set ((s, i) # es)" for t j
    using that top_index_le by (fastforce simp: max_def)
  show "max i (top_index es) = 0 \<or> max i (top_index es) \<in> snd ` set ((s, i) # es)"
    using top_index_cases [of es] by (auto simp: max_def)
qed

lemma snd_scanBoth: "snd (scanBoth es (lo, hi)) = max hi (top_index es)"
  by (induction es "(lo, hi)" arbitrary: lo hi rule: scanBoth.induct)
    (auto simp: top_index_Cons max_def)

lemma top_index_mset: "mset es = mset es' \<Longrightarrow> top_index es = top_index es'"
  by (simp add: top_index_def mset_eq_setD [of es es'])

lemma top_index_delete_other:
  assumes "distinct (map fst es)" and "map_of es s = Some j" and "j \<noteq> top_index es"
  shows "top_index (AList.delete s es) = top_index es"
proof (rule top_indexI)
  show "i \<le> top_index es" if "(t, i) \<in> set (AList.delete s es)" for t i
    using that set_delete_subset [of s es] by (auto intro: top_index_le)
  show "top_index es = 0 \<or> top_index es \<in> snd ` set (AList.delete s es)"
  proof (rule disjCI)
    assume "top_index es \<notin> snd ` set (AList.delete s es)"
    then have "\<forall>t. (t, top_index es) \<in> set es \<longrightarrow> t = s" by (force simp: AList.delete_eq)
    moreover have "(s, top_index es) \<notin> set es"
      using assms by (metis map_of_eq_Some_iff option.inject)
    ultimately have "top_index es \<notin> snd ` set es" by force
    then show "top_index es = 0" using top_index_cases [of es] by simp
  qed
qed

lemma Get_Delete: "Markers_Get (fst (Markers_Delete env s m)) = (Markers_Get m)(s := None)"
  by (auto simp: Markers_Get_def Markers_Delete_def Let_def delete_conv fun_eq_iff
      split: option.split prod.split)

section \<open>Iterating\<close>

definition setAll :: "('t, 'z) marker_env_scheme \<Rightarrow> entries \<Rightarrow> Markers \<Rightarrow> Markers" where
  "setAll env es m = fold (\<lambda>(s, i) c. fst (Markers_Set env s i c)) es m"

lemma setAll_simps [simp]:
  "setAll env [] m = m"
  "setAll env ((s, i) # es) m = setAll env es (fst (Markers_Set env s i m))"
  by (simp_all add: setAll_def)

lemma markers_ok_setAll [simp]: "markers_ok m \<Longrightarrow> markers_ok (setAll env es m)"
  by (induction es arbitrary: m) auto

lemma max_None [simp]: "max x None = (x :: index option)" "max None x = (x :: index option)"
  by (cases x; simp add: max_def)+

lemma Get_setAll:
  "distinct (map fst es) \<Longrightarrow> Markers_Get (setAll env es m) s = max (Markers_Get m s) (map_of es s)"
proof (induction es arbitrary: m)
  case (Cons e es)
  obtain t i where e: "e = (t, i)" by (cases e)
  have "map_of es t = None" using Cons.prems e by (simp add: map_of_eq_None_iff)
  with Cons show ?case by (simp add: e Get_Set)
qed simp

lemma iterate_total:
  "(\<And>s i x. snd (f s i x)) \<Longrightarrow> iterate f es x = (fold (\<lambda>(s, i) x. fst (f s i x)) es x, True)"
proof (induction es arbitrary: x)
  case (Cons e es)
  then show ?case by (cases e; cases "f (fst e) (snd e) x") (auto, metis snd_conv)
qed simp

lemma Markers_Clone_setAll: "Markers_Clone env m = setAll env (rangeMarkers env (byID m)) emptyMarkers"
  by (simp add: Markers_Clone_def setAll_def)

lemma markers_ok_Clone [simp]: "markers_ok (Markers_Clone env m)"
  by (simp add: Markers_Clone_setAll)

context go_ranges
begin

lemma set_range [simp]: "set (rangeMarkers env es) = set es"
  by (metis range_markers set_mset_mset)

lemma length_range [simp]: "length (rangeMarkers env es) = length es"
  by (metis range_markers size_mset)

lemma distinct_range [simp]:
  "distinct (map fst (rangeMarkers env es)) \<longleftrightarrow> distinct (map fst es)"
  by (metis range_markers mset_map mset_eq_imp_distinct_iff)

lemma map_of_range [simp]:
  "distinct (map fst es) \<Longrightarrow> map_of (rangeMarkers env es) = map_of es"
  by (rule map_of_inject_set [THEN iffD2]) auto

lemma markers_ok_Delete [simp]:
  assumes "markers_ok m"
  shows "markers_ok (fst (Markers_Delete env s m))"
proof (cases "map_of (byID m) s")
  case None
  then have "AList.delete s (byID m) = byID m" by (simp add: AList.delete_id map_of_eq_None_iff)
  with None assms show ?thesis by (simp add: Markers_Delete_def)
next
  case (Some j)
  let ?es = "AList.delete s (byID m)"
  have top: "top_index (rangeMarkers env ?es) = top_index ?es"
    by (rule top_index_mset) (rule range_markers)
  have d: "distinct (map fst (byID m))" and h: "highest m = top_index (byID m)"
    using assms by (auto simp: markers_ok_def)
  have hi: "highest (fst (Markers_Delete env s m)) = top_index ?es"
  proof (cases "j = highest m")
    case True
    with Some show ?thesis
      by (simp add: Markers_Delete_def Let_def case_prod_unfold snd_scanBoth top)
  next
    case False
    then have "top_index ?es = highest m" using top_index_delete_other [OF d Some] h by simp
    with Some False show ?thesis
      by (simp add: Markers_Delete_def Let_def case_prod_unfold snd_scanBoth top)
  qed
  have "byID (fst (Markers_Delete env s m)) = ?es"
    using Some by (simp add: Markers_Delete_def Let_def case_prod_unfold)
  with hi d show ?thesis by (simp add: markers_ok_def)
qed

lemma lists_range: "markers_ok m \<Longrightarrow> lists (rangeMarkers env (byID m)) m"
  by (simp add: lists_def markers_ok_def Markers_Get_def fun_eq_iff)

lemma Get_Clone [simp]: "markers_ok m \<Longrightarrow> Markers_Get (Markers_Clone env m) = Markers_Get m"
  by (rule ext) (simp add: Markers_Clone_setAll Get_setAll markers_ok_def, simp add: Markers_Get_def)

lemma lists_ForEach:
  assumes "markers_ok m"
  obtains es where "lists es m" and
    "\<And>f x. Markers_ForEach env (Some m) f (x :: 'x) = iterate f es x"
proof
  show "lists (rangeMarkers env (byID (Markers_Clone env m))) m"
    using lists_range [of "Markers_Clone env m"] assms by (simp add: lists_def)
qed (simp add: Markers_ForEach_def)

lemma lists_sorted: "markers_ok m \<Longrightarrow> lists (sortedEntries env m) m"
proof -
  assume ok: "markers_ok m"
  let ?c = "Markers_Clone env m"
  have d: "distinct (map fst (rangeMarkers env (byID ?c)))"
    using markers_ok_Clone [of env m] by (simp only: distinct_range markers_ok_def)
  have "map_of (map (\<lambda>s. (s, the (map_of (byID ?c) s))) (rev (sort (map fst (rangeMarkers env (byID ?c)))))) =
        map_of (byID ?c)"
    by (rule ext) (auto simp: map_of_map_restrict restrict_map_def dest: weak_map_of_SomeI
        intro: sym [OF iffD2 [OF map_of_eq_None_iff]])
  moreover have "map_of (byID ?c) = Markers_Get m"
    using Get_Clone [OF ok] unfolding Markers_Get_def [abs_def] .
  ultimately show ?thesis
    using d by (simp add: lists_def sortedEntries_def Let_def comp_def)
qed

lemma ok_Merge: "markers_ok m \<Longrightarrow> markers_ok (Markers_Merge env b m)"
  by (cases b) (auto simp: Markers_Merge_def Markers_ForEach_def iterate_total setAll_def [symmetric])

text \<open>Merge is the join of the two maps, whatever the order in which the map is visited.\<close>

lemma Get_Merge:
  "markers_ok b \<Longrightarrow>
   Markers_Get (Markers_Merge env (Some b) m) s = max (Markers_Get m s) (Markers_Get b s)"
  by (erule lists_ForEach [where ?'x = Markers])
    (simp add: Markers_Merge_def iterate_total setAll_def [symmetric] Get_setAll lists_def)

end

end
