(* ===== verification/NormalizeLaws.thy ===== *)
theory NormalizeLaws
  imports MarkerLaws
begin

text \<open>
  The walk of normalizeMarkers: it ends, it needs no sequence that is missing, and it keeps exactly
  the markers that no marker of the collection leads strictly beyond.
\<close>

locale marker_machine =
  go_ranges env + marker_walker env pending pushed + sequence_store env
  for env :: "('t, 'w, 's, 'z) manager_env_scheme"
    and pending :: "'w \<Rightarrow> Marker list" and pushed :: "'w \<Rightarrow> Marker set"

text \<open>One marker references another, by the threshold maps of its sequence.\<close>

definition references ::
    "('t, 'w, 's, 'z) manager_env_scheme \<Rightarrow> 's \<Rightarrow> Marker \<Rightarrow> Marker \<Rightarrow> bool" where
  "references env st a b \<longleftrightarrow>
     (\<exists>sq. loadSequence env st (marker_SequenceID a) = Some sq \<and>
           Markers_Get (Sequence_ReferencedMarkers env sq (marker_Index a)) (marker_SequenceID b) =
             Some (marker_Index b))"

definition in_markers :: "Markers \<Rightarrow> Marker \<Rightarrow> bool" where
  "in_markers m a \<longleftrightarrow> Markers_Get m (marker_SequenceID a) = Some (marker_Index a)"

definition reached ::
    "('t, 'w, 's, 'z) manager_env_scheme \<Rightarrow> 's \<Rightarrow> Markers \<Rightarrow> Marker \<Rightarrow> bool" where
  "reached env st m b \<longleftrightarrow> (\<exists>a. in_markers m a \<and> (references env st)\<^sup>+\<^sup>+ a b)"

text \<open>A marker of a sequence references at least what the earlier markers of the sequence do.\<close>

definition references_grow :: "('t, 'w, 's, 'z) manager_env_scheme \<Rightarrow> 's \<Rightarrow> bool" where
  "references_grow env st \<longleftrightarrow>
     (\<forall>a a' b. references env st a b \<longrightarrow> marker_SequenceID a' = marker_SequenceID a \<longrightarrow>
        marker_Index a \<le> marker_Index a' \<longrightarrow>
        (\<exists>b'. references env st a' b' \<and> marker_SequenceID b' = marker_SequenceID b \<and>
              marker_Index b \<le> marker_Index b'))"

lemma marker_simps [simp]:
  "marker_SequenceID (NewMarker s i) = s" "marker_Index (NewMarker s i) = i"
  by (simp_all add: NewMarker_def)

lemma NewMarker_collapse [simp]: "NewMarker (marker_SequenceID a) (marker_Index a) = a"
  by (simp add: NewMarker_def)

section \<open>The walk ends\<close>

text \<open>What is left of the indexes that a sequence can still be seen at.\<close>

definition unseen_index :: "index option \<Rightarrow> nat" where
  "unseen_index v = (case v of None \<Rightarrow> 2 ^ 64 | Some i \<Rightarrow> 2 ^ 64 - Suc (unat i))"

definition unseen :: "Markers \<Rightarrow> nat" where
  "unseen m = (\<Sum>s\<in>(UNIV :: SequenceID set). unseen_index (Markers_Get m s))"

lemma unseen_index_less: "v < Some i \<Longrightarrow> unseen_index (Some i) < unseen_index v"
  using unsigned_less [of i, where ?'a = nat] by (cases v) (auto simp: unseen_index_def word_less_nat_alt)

lemma max_less_Some: "(v :: index option) < Some i \<Longrightarrow> max v (Some i) = Some i"
  by (simp add: max.absorb2)

lemma unseen_Set_less:
  assumes "Markers_Get m s < Some i"
  shows "unseen (fst (Markers_Set env s i m)) < unseen m"
  unfolding unseen_def
proof (rule sum_strict_mono_ex1)
  have m: "max (Markers_Get m s) (Some i) = Some i" using assms by (rule max_less_Some)
  show "\<forall>x\<in>UNIV. unseen_index (Markers_Get (fst (Markers_Set env s i m)) x) \<le> unseen_index (Markers_Get m x)"
    using unseen_index_less [OF assms] by (simp add: Get_Set m)
  show "\<exists>x\<in>UNIV. unseen_index (Markers_Get (fst (Markers_Set env s i m)) x) < unseen_index (Markers_Get m x)"
    using unseen_index_less [OF assms] by (auto simp: Get_Set m intro!: exI [of _ s])
qed simp

lemma Set_flags_iff:
  "fst (snd (Markers_Set env s i m)) \<or> snd (snd (Markers_Set env s i m)) \<longleftrightarrow> Markers_Get m s < Some i"
  by (cases "Markers_Get m s") (simp_all add: Set_flags)

lemma Get_Set_skip:
  "\<not> Markers_Get m s < Some i \<Longrightarrow> Markers_Get (fst (Markers_Set env s i m)) = Markers_Get m"
  by (auto simp: Get_Set fun_eq_iff max_def not_less)

text \<open>The cases of one visit.\<close>

lemma normalize_visit_cases:
  obtains (initial) "i < Markers_Size markers"
      "normalize_visit env markers i cur seen nrm = (seen, nrm, True)"
  | (seen) seen1 where "Markers_Size markers \<le> i" "\<not> Markers_Get seen (marker_SequenceID cur) < Some (marker_Index cur)"
      "normalize_visit env markers i cur seen nrm = (seen1, nrm, False)"
      "Markers_Get seen1 = Markers_Get seen" "unseen seen1 = unseen seen"
  | (fresh) seen1 nrm1 follow where "Markers_Size markers \<le> i"
      "normalize_visit env markers i cur seen nrm = (seen1, nrm1, follow)"
      "Markers_Get seen1 = (Markers_Get seen)(marker_SequenceID cur \<mapsto> marker_Index cur)"
      "Markers_Get seen (marker_SequenceID cur) < Some (marker_Index cur)"
      "unseen seen1 < unseen seen"
      "if follow then Markers_Get nrm (marker_SequenceID cur) \<le> Some (marker_Index cur) \<and>
                      Markers_Get nrm1 = (Markers_Get nrm)(marker_SequenceID cur := None)
       else Some (marker_Index cur) < Markers_Get nrm (marker_SequenceID cur) \<and> nrm1 = nrm"
proof (cases "i < Markers_Size markers")
  case True
  then show thesis by (intro initial) (simp_all add: normalize_visit_def)
next
  case False
  let ?s = "marker_SequenceID cur" let ?j = "marker_Index cur"
  define seen1 where "seen1 = fst (Markers_Set env ?s ?j seen)"
  obtain u a where set_eq: "Markers_Set env ?s ?j seen = (seen1, u, a)"
    by (cases "Markers_Set env ?s ?j seen") (auto simp: seen1_def)
  have flags: "u \<or> a \<longleftrightarrow> Markers_Get seen ?s < Some ?j"
    using Set_flags_iff [of env ?s ?j seen] by (simp add: set_eq)
  show thesis
  proof (cases "u \<or> a")
    case no: False
    then have g: "Markers_Get seen1 = Markers_Get seen"
      using Get_Set_skip [of seen ?s ?j env] flags by (simp add: seen1_def)
    show thesis
      by (rule seen [of seen1]) (use False no flags g in \<open>auto simp: normalize_visit_def set_eq unseen_def\<close>)
  next
    case yes: True
    with flags have lt: "Markers_Get seen ?s < Some ?j" by simp
    have g: "Markers_Get seen1 = (Markers_Get seen)(?s \<mapsto> ?j)"
      using lt by (simp add: seen1_def Get_Set max_less_Some)
    have un: "unseen seen1 < unseen seen"
      unfolding seen1_def by (rule unseen_Set_less) (rule lt)
    show thesis
    proof (cases "Markers_Get nrm ?s")
      case None
      show thesis
        by (rule fresh [of seen1 nrm True]) (use False yes None g lt un in \<open>auto simp: normalize_visit_def set_eq\<close>)
    next
      case (Some j)
      show thesis
      proof (cases "j > ?j")
        case True
        show thesis
          by (rule fresh [of seen1 nrm False])
            (use False yes Some True g lt un in \<open>auto simp: normalize_visit_def set_eq\<close>)
      next
        case le: False
        show thesis
          by (rule fresh [of seen1 "fst (Markers_Delete env ?s nrm)" True])
            (use False yes Some le g lt un in \<open>auto simp: normalize_visit_def set_eq Get_Delete\<close>)
      qed
    qed
  qed
qed

definition walk_order :: "((nat \<times> nat \<times> nat) \<times> (nat \<times> nat \<times> nat)) set" where
  "walk_order = less_than <*lex*> less_than <*lex*> less_than"

lemma wf_walk_order: "wf walk_order"
  unfolding walk_order_def by (intro wf_lex_prod wf_less_than)

context marker_machine
begin

text \<open>The induction that the walk follows, whatever the sequences reference.\<close>

lemma walk_induct:
  assumes step: "\<And>i w seen nrm.
      (\<And>cur w1 seen1 nrm1 follow w2. nextMarker env w = Some (cur, w1) \<Longrightarrow>
         normalize_visit env markers i cur seen nrm = (seen1, nrm1, follow) \<Longrightarrow>
         (\<not> follow \<longrightarrow> w2 = w1) \<Longrightarrow> P (Suc i) w2 seen1 nrm1) \<Longrightarrow> P i w seen nrm"
  shows "P i w seen nrm"
proof -
  let ?m = "\<lambda>i w seen. (Markers_Size markers - i, unseen seen, length (pending w))"
  have "\<forall>i w seen nrm. x = ?m i w seen \<longrightarrow> P i w seen nrm" for x
  proof (rule wf_induct_rule [OF wf_walk_order, of _ x], intro allI impI)
    fix x i w seen nrm
    assume IH: "\<And>y. (y, x) \<in> walk_order \<Longrightarrow> \<forall>i w seen nrm. y = ?m i w seen \<longrightarrow> P i w seen nrm"
      and x: "x = ?m i w seen"
    show "P i w seen nrm"
    proof (rule step)
      fix cur w1 seen1 nrm1 follow w2
      assume nx: "nextMarker env w = Some (cur, w1)"
        and v: "normalize_visit env markers i cur seen nrm = (seen1, nrm1, follow)"
        and w2: "\<not> follow \<longrightarrow> w2 = w1"
      have "(?m (Suc i) w2 seen1, x) \<in> walk_order"
        by (cases rule: normalize_visit_cases [of i markers env cur seen nrm])
          (use v w2 next_length [OF nx] x in \<open>auto simp: walk_order_def\<close>)
      then show "P (Suc i) w2 seen1 nrm1" using IH by blast
    qed
  qed
  then show ?thesis by blast
qed

lemma normalize_loop_terminates: "normalize_loop env st markers i w seen nrm \<noteq> None"
proof (rule walk_induct [where markers = markers and i = i and w = w and seen = seen and nrm = nrm])
  fix i w seen nrm
  assume IH: "\<And>cur w1 seen1 nrm1 follow w2. nextMarker env w = Some (cur, w1) \<Longrightarrow>
    normalize_visit env markers i cur seen nrm = (seen1, nrm1, follow) \<Longrightarrow>
    (\<not> follow \<longrightarrow> w2 = w1) \<Longrightarrow> normalize_loop env st markers (Suc i) w2 seen1 nrm1 \<noteq> None"
  show "normalize_loop env st markers i w seen nrm \<noteq> None"
  proof (cases "nextMarker env w")
    case None
    then show ?thesis by (simp add: normalize_loop.simps)
  next
    case (Some p)
    obtain cur w1 where nx: "nextMarker env w = Some (cur, w1)" using Some by (cases p) auto
    obtain seen1 nrm1 follow where v: "normalize_visit env markers i cur seen nrm = (seen1, nrm1, follow)"
      by (cases "normalize_visit env markers i cur seen nrm") auto
    show ?thesis
      using IH [OF nx v] by (subst normalize_loop.simps) (simp add: nx v split: option.split)
  qed
qed

end

section \<open>What the walk keeps\<close>

text \<open>A marker that needs no further visit: an initial one, one that is pending, or one that was seen at its index or later.\<close>

definition covered :: "Markers \<Rightarrow> Marker list \<Rightarrow> Markers \<Rightarrow> Marker \<Rightarrow> bool" where
  "covered markers rest seen b \<longleftrightarrow>
     in_markers markers b \<or> b \<in> set rest \<or> Some (marker_Index b) \<le> Markers_Get seen (marker_SequenceID b)"

text \<open>P are the markers that were pushed, and E those whose references were followed.\<close>

definition walk_inv ::
    "('t, 'w, 's, 'z) manager_env_scheme \<Rightarrow> 's \<Rightarrow> Markers \<Rightarrow> Marker list \<Rightarrow> nat \<Rightarrow> Marker set \<Rightarrow> Marker list \<Rightarrow>
     Markers \<Rightarrow> Markers \<Rightarrow> Marker set \<Rightarrow> bool" where
  "walk_inv env st markers init i P rest seen nrm E \<longleftrightarrow>
     set (take i init) \<subseteq> E \<and>
     (\<forall>b\<in>set rest. reached env st markers b \<and> \<not> in_markers markers b) \<and>
     {b. in_markers markers b} \<subseteq> P \<and> (\<forall>b\<in>P. covered markers rest seen b) \<and>
     (\<forall>e\<in>E. \<forall>b. references env st e b \<longrightarrow> covered markers rest seen b) \<and>
     (\<forall>s j. Markers_Get seen s = Some j \<longrightarrow>
        reached env st markers (NewMarker s j) \<and> (\<exists>e\<in>E. marker_SequenceID e = s \<and> j \<le> marker_Index e)) \<and>
     (\<forall>s j. Markers_Get nrm s = Some j \<longrightarrow> Markers_Get markers s = Some j \<and> Markers_Get seen s < Some j) \<and>
     (\<forall>s j. Markers_Get markers s = Some j \<longrightarrow> Markers_Get nrm s = None \<longrightarrow> Some j < Markers_Get seen s)"

lemma walk_invD:
  assumes "walk_inv env st markers init i P rest seen nrm E"
  shows "set (take i init) \<subseteq> E" and "b \<in> set rest \<Longrightarrow> reached env st markers b" and "b \<in> set rest \<Longrightarrow> \<not> in_markers markers b"
    and "in_markers markers b \<Longrightarrow> b \<in> P" and "b \<in> P \<Longrightarrow> covered markers rest seen b"
    and "e \<in> E \<Longrightarrow> references env st e b \<Longrightarrow> covered markers rest seen b"
    and "Markers_Get seen s = Some j \<Longrightarrow> reached env st markers (NewMarker s j)"
    and "Markers_Get seen s = Some j \<Longrightarrow> \<exists>e\<in>E. marker_SequenceID e = s \<and> j \<le> marker_Index e"
    and "Markers_Get nrm s = Some j \<Longrightarrow> Markers_Get markers s = Some j"
    and "Markers_Get nrm s = Some j \<Longrightarrow> Markers_Get seen s < Some j"
    and "Markers_Get markers s = Some j \<Longrightarrow> Markers_Get nrm s = None \<Longrightarrow> Some j < Markers_Get seen s"
  using assms unfolding walk_inv_def by blast+

lemma covered_more: "covered markers rest seen b \<Longrightarrow> set rest \<subseteq> set rest1 \<Longrightarrow> covered markers rest1 seen b"
  by (auto simp: covered_def)

lemma covered_visit:
  assumes "covered markers (cur # rest) seen b"
    and g: "Markers_Get seen1 = (Markers_Get seen)(marker_SequenceID cur \<mapsto> marker_Index cur)"
    and lt: "Markers_Get seen (marker_SequenceID cur) < Some (marker_Index cur)"
  shows "covered markers rest seen1 b"
proof -
  consider "in_markers markers b" | "b = cur" | "b \<in> set rest" | "Some (marker_Index b) \<le> Markers_Get seen (marker_SequenceID b)"
    using assms(1) by (auto simp: covered_def)
  then show ?thesis
  proof cases
    case 4
    show ?thesis
    proof (cases "marker_SequenceID b = marker_SequenceID cur")
      case True
      with 4 lt have "Some (marker_Index b) \<le> Some (marker_Index cur)"
        by (metis less_imp_le order.trans)
      with True show ?thesis by (simp add: covered_def g)
    qed (use 4 in \<open>simp add: covered_def g\<close>)
  qed (auto simp: covered_def g)
qed

lemma reached_initial:
  "in_markers m a \<Longrightarrow> references env st a b \<Longrightarrow> reached env st m b"
  by (auto simp: reached_def)

lemma reached_step:
  "reached env st m a \<Longrightarrow> references env st a b \<Longrightarrow> reached env st m b"
  by (auto simp: reached_def)

text \<open>
  Following the references of a marker pushes those that were not pushed before.
\<close>

lemma walk_inv_push:
  assumes take: "set (take i' init) \<subseteq> insert cur E"
    and rest: "\<And>b. b \<in> set rest \<Longrightarrow> reached env st markers b \<and> \<not> in_markers markers b"
    and P: "\<And>b. in_markers markers b \<Longrightarrow> b \<in> P" "\<And>b. b \<in> P \<Longrightarrow> covered markers rest seen b"
    and E: "\<And>e b. e \<in> E \<Longrightarrow> references env st e b \<Longrightarrow> covered markers rest seen b"
    and known: "in_markers markers cur \<or> reached env st markers cur"
    and seen: "\<And>s j. Markers_Get seen s = Some j \<Longrightarrow>
      reached env st markers (NewMarker s j) \<and> (\<exists>e\<in>insert cur E. marker_SequenceID e = s \<and> j \<le> marker_Index e)"
    and nrm: "\<And>s j. Markers_Get nrm s = Some j \<Longrightarrow> Markers_Get markers s = Some j \<and> Markers_Get seen s < Some j"
      "\<And>s j. Markers_Get markers s = Some j \<Longrightarrow> Markers_Get nrm s = None \<Longrightarrow> Some j < Markers_Get seen s"
    and refs: "set refs = {b. references env st cur b} - P"
  shows "walk_inv env st markers init i' (P \<union> {b. references env st cur b}) (rest @ refs) seen nrm (insert cur E)"
  unfolding walk_inv_def
proof (intro conjI)
  have new: "reached env st markers b" if "references env st cur b" for b
    using known
  proof
    show "reached env st markers b" if "in_markers markers cur" using reached_initial [OF that \<open>references env st cur b\<close>] .
    show "reached env st markers b" if "reached env st markers cur" using reached_step [OF that \<open>references env st cur b\<close>] .
  qed
  show "\<forall>b\<in>set (rest @ refs). reached env st markers b \<and> \<not> in_markers markers b"
    using rest P(1) new by (auto simp: refs)
  have more: "covered markers (rest @ refs) seen b" if "b \<in> P" for b
    using covered_more [OF P(2) [OF that]] by simp
  have refd: "covered markers (rest @ refs) seen b" if "references env st cur b" for b
    using more [of b] that by (cases "b \<in> P") (auto simp: covered_def refs)
  show "\<forall>b\<in>P \<union> {b. references env st cur b}. covered markers (rest @ refs) seen b"
    using more refd by blast
  show "\<forall>e\<in>insert cur E. \<forall>b. references env st e b \<longrightarrow> covered markers (rest @ refs) seen b"
    using refd covered_more [OF E, of _ _ "rest @ refs"] by auto
qed (use take P(1) seen nrm in blast)+

text \<open>One visit of an initial marker, and of a marker that was reached.\<close>

lemma walk_inv_initial:
  assumes inv: "walk_inv env st markers init i P rest seen nrm E" and i: "i < length init"
    and refs: "set refs = {b. references env st (init ! i) b} - P" and cur: "in_markers markers (init ! i)"
  shows "walk_inv env st markers init (Suc i) (P \<union> {b. references env st (init ! i) b}) (rest @ refs) seen nrm
    (insert (init ! i) E)"
proof (rule walk_inv_push [OF _ _ _ _ _ _ _ _ _ refs])
  show "set (take (Suc i) init) \<subseteq> insert (init ! i) E"
    using walk_invD(1) [OF inv] i by (auto simp: take_Suc_conv_app_nth)
qed (use walk_invD [OF inv] cur in blast)+

lemma walk_inv_skip:
  assumes inv: "walk_inv env st markers init i P (cur # rest) seen nrm E" and i: "length init \<le> i"
    and old: "\<not> Markers_Get seen (marker_SequenceID cur) < Some (marker_Index cur)"
    and g: "Markers_Get seen1 = Markers_Get seen"
  shows "walk_inv env st markers init (Suc i) P rest seen1 nrm E"
proof -
  have "covered markers rest seen1 b" if "covered markers (cur # rest) seen b" for b
    using that old by (auto simp: covered_def g not_less)
  then show ?thesis using inv i unfolding walk_inv_def g by auto
qed

lemma walk_inv_follow:
  assumes inv: "walk_inv env st markers init i P (cur # rest) seen nrm E" and i: "length init \<le> i"
    and g: "Markers_Get seen1 = (Markers_Get seen)(marker_SequenceID cur \<mapsto> marker_Index cur)"
    and lt: "Markers_Get seen (marker_SequenceID cur) < Some (marker_Index cur)"
    and le: "Markers_Get nrm (marker_SequenceID cur) \<le> Some (marker_Index cur)"
    and n: "Markers_Get nrm1 = (Markers_Get nrm)(marker_SequenceID cur := None)"
    and refs: "set refs = {b. references env st cur b} - P"
  shows "walk_inv env st markers init (Suc i) (P \<union> {b. references env st cur b}) (rest @ refs) seen1 nrm1 (insert cur E)"
proof (rule walk_inv_push [OF _ _ _ _ _ _ _ _ _ refs])
  have r: "reached env st markers cur" and not_init: "\<not> in_markers markers cur" using walk_invD(2,3) [OF inv] by simp_all
  then show "in_markers markers cur \<or> reached env st markers cur" by blast
  show "set (take (Suc i) init) \<subseteq> insert cur E" using walk_invD(1) [OF inv] i by auto
  show "reached env st markers b \<and> \<not> in_markers markers b" if "b \<in> set rest" for b
    using walk_invD(2,3) [OF inv, of b] that by simp
  show "covered markers rest seen1 b" if "b \<in> P" for b
    using covered_visit [OF walk_invD(5) [OF inv that] g lt] .
  show "covered markers rest seen1 b" if "e \<in> E" "references env st e b" for e b
    using covered_visit [OF walk_invD(6) [OF inv that] g lt] .
  show "reached env st markers (NewMarker s j) \<and> (\<exists>e\<in>insert cur E. marker_SequenceID e = s \<and> j \<le> marker_Index e)"
    if "Markers_Get seen1 s = Some j" for s j
    using that r walk_invD(7,8) [OF inv, of s j] by (auto simp: g split: if_splits)
  show "Markers_Get markers s = Some j \<and> Markers_Get seen1 s < Some j" if "Markers_Get nrm1 s = Some j" for s j
    using that walk_invD(9,10) [OF inv, of s j] by (auto simp: g n split: if_splits)
  show "Some j < Markers_Get seen1 s" if m: "Markers_Get markers s = Some j" and gone: "Markers_Get nrm1 s = None" for s j
  proof (cases "s = marker_SequenceID cur")
    case True
    have "j \<noteq> marker_Index cur" using not_init m True by (auto simp: in_markers_def)
    moreover have "Some j \<le> Some (marker_Index cur)"
    proof (cases "Markers_Get nrm s")
      case None
      then have "Some j < Markers_Get seen s" by (rule walk_invD(11) [OF inv m])
      with lt show ?thesis unfolding True by (metis less_imp_le order.strict_trans)
    next
      case (Some j')
      with walk_invD(9) [OF inv Some] m le show ?thesis unfolding True by simp
    qed
    ultimately show ?thesis using True by (simp add: g)
  next
    case False
    then show ?thesis using walk_invD(11) [OF inv m] gone by (simp add: g n)
  qed
qed (use walk_invD(4) [OF inv] in blast)

lemma walk_inv_above:
  assumes inv: "walk_inv env st markers init i P (cur # rest) seen nrm E" and i: "length init \<le> i"
    and init: "set init = {a. in_markers markers a}"
    and g: "Markers_Get seen1 = (Markers_Get seen)(marker_SequenceID cur \<mapsto> marker_Index cur)"
    and lt: "Markers_Get seen (marker_SequenceID cur) < Some (marker_Index cur)"
    and above: "Some (marker_Index cur) < Markers_Get nrm (marker_SequenceID cur)"
  shows "walk_inv env st markers init (Suc i) P rest seen1 nrm E"
  unfolding walk_inv_def
proof (intro conjI)
  have r: "reached env st markers cur" using walk_invD(2) [OF inv] by simp
  obtain k where k: "Markers_Get nrm (marker_SequenceID cur) = Some k" "marker_Index cur < k"
    using above by (cases "Markers_Get nrm (marker_SequenceID cur)") auto
  have mk: "Markers_Get markers (marker_SequenceID cur) = Some k" using walk_invD(9) [OF inv k(1)] .
  then have kE: "NewMarker (marker_SequenceID cur) k \<in> E"
    using walk_invD(1) [OF inv] i init by (auto simp: in_markers_def)
  show "set (take (Suc i) init) \<subseteq> E" using walk_invD(1) [OF inv] i by simp
  show "\<forall>b\<in>P. covered markers rest seen1 b"
    using covered_visit [OF walk_invD(5) [OF inv] g lt] by blast
  show "\<forall>e\<in>E. \<forall>b. references env st e b \<longrightarrow> covered markers rest seen1 b"
    using covered_visit [OF walk_invD(6) [OF inv] g lt] by blast
  show "\<forall>s j. Markers_Get seen1 s = Some j \<longrightarrow>
      reached env st markers (NewMarker s j) \<and> (\<exists>e\<in>E. marker_SequenceID e = s \<and> j \<le> marker_Index e)"
  proof (intro allI impI)
    fix s j assume h: "Markers_Get seen1 s = Some j"
    show "reached env st markers (NewMarker s j) \<and> (\<exists>e\<in>E. marker_SequenceID e = s \<and> j \<le> marker_Index e)"
    proof (cases "s = marker_SequenceID cur")
      case True
      then have "j = marker_Index cur" using h by (simp add: g)
      with True r show ?thesis
        using k(2) by (auto intro!: bexI [OF _ kE] less_imp_le)
    next
      case False
      then show ?thesis using walk_invD(7,8) [OF inv] h by (simp add: g)
    qed
  qed
  show "\<forall>s j. Markers_Get nrm s = Some j \<longrightarrow> Markers_Get markers s = Some j \<and> Markers_Get seen1 s < Some j"
    using walk_invD(9,10) [OF inv] k by (auto simp: g)
  show "\<forall>s j. Markers_Get markers s = Some j \<longrightarrow> Markers_Get nrm s = None \<longrightarrow> Some j < Markers_Get seen1 s"
    using walk_invD(11) [OF inv] k by (auto simp: g)
qed (use walk_invD(2,3,4) [OF inv] in auto)

text \<open>At the end nothing is pending.\<close>

lemma walk_inv_done:
  assumes inv: "walk_inv env st markers init i P [] seen nrm E" and i: "length init \<le> i"
    and init: "set init = {a. in_markers markers a}" and grow: "references_grow env st"
  shows "Markers_Get nrm s = Some j \<longleftrightarrow>
    Markers_Get markers s = Some j \<and> \<not> (\<exists>k>j. reached env st markers (NewMarker s k))"
proof -
  have initial: "a \<in> E" if "in_markers markers a" for a using walk_invD(1) [OF inv] i init that by auto
  have all: "\<exists>e\<in>E. marker_SequenceID e = marker_SequenceID b \<and> marker_Index b \<le> marker_Index e"
    if a: "in_markers markers a" and ab: "(references env st)\<^sup>*\<^sup>* a b" for a b
    using ab
  proof (induction rule: rtranclp_induct)
    case base
    show ?case using initial [OF a] by blast
  next
    case (step b c)
    then obtain e where e: "e \<in> E" "marker_SequenceID e = marker_SequenceID b" "marker_Index b \<le> marker_Index e" by blast
    obtain c' where c': "references env st e c'" "marker_SequenceID c' = marker_SequenceID c" "marker_Index c \<le> marker_Index c'"
      using grow step.hyps(2) e(2,3) unfolding references_grow_def by blast
    show ?case
    proof (cases "in_markers markers c'")
      case True
      then show ?thesis using initial c'(2,3) by blast
    next
      case False
      then have "Some (marker_Index c') \<le> Markers_Get seen (marker_SequenceID c)"
        using walk_invD(6) [OF inv e(1) c'(1)] c'(2) by (simp add: covered_def)
      then obtain k where k: "Markers_Get seen (marker_SequenceID c) = Some k" "marker_Index c' \<le> k"
        by (cases "Markers_Get seen (marker_SequenceID c)") auto
      from walk_invD(8) [OF inv k(1)] obtain e' where "e' \<in> E" "marker_SequenceID e' = marker_SequenceID c" "k \<le> marker_Index e'"
        by blast
      moreover have "marker_Index c \<le> marker_Index e'" using c'(3) k(2) \<open>k \<le> marker_Index e'\<close> by (meson order.trans)
      ultimately show ?thesis by blast
    qed
  qed
  have beyond: "Some k \<le> Markers_Get seen s" if m: "Markers_Get markers s = Some j" and k: "k > j" "reached env st markers (NewMarker s k)" for k
  proof -
    obtain a b where a: "in_markers markers a" "(references env st)\<^sup>*\<^sup>* a b" "references env st b (NewMarker s k)"
      using k(2) unfolding reached_def by (metis tranclpD tranclp.cases tranclp_into_rtranclp rtranclp.rtrancl_refl)
    obtain e where e: "e \<in> E" "marker_SequenceID e = marker_SequenceID b" "marker_Index b \<le> marker_Index e"
      using all [OF a(1,2)] by blast
    obtain c where c: "references env st e c" "marker_SequenceID c = s" "k \<le> marker_Index c"
      using grow a(3) e(2,3) unfolding references_grow_def by force
    have "\<not> in_markers markers c" using m c k(1) by (auto simp: in_markers_def)
    then have "Some (marker_Index c) \<le> Markers_Get seen s"
      using walk_invD(6) [OF inv e(1) c(1)] c(2) by (simp add: covered_def)
    moreover have "Some k \<le> Some (marker_Index c)" using c(3) by simp
    ultimately show ?thesis by (rule order.trans [rotated])
  qed
  show ?thesis
  proof
    assume kept: "Markers_Get nrm s = Some j"
    note m = walk_invD(9) [OF inv kept] and lt = walk_invD(10) [OF inv kept]
    have "\<not> reached env st markers (NewMarker s k)" if "j < k" for k
    proof
      assume "reached env st markers (NewMarker s k)"
      from order.strict_trans1 [OF beyond [OF m that this] lt] that show False by simp
    qed
    with m show "Markers_Get markers s = Some j \<and> \<not> (\<exists>k>j. reached env st markers (NewMarker s k))"
      by blast
  next
    assume h: "Markers_Get markers s = Some j \<and> \<not> (\<exists>k>j. reached env st markers (NewMarker s k))"
    show "Markers_Get nrm s = Some j"
    proof (cases "Markers_Get nrm s")
      case None
      then have "Some j < Markers_Get seen s" using walk_invD(11) [OF inv] h by blast
      then obtain k where "Markers_Get seen s = Some k" "j < k"
        by (cases "Markers_Get seen s") auto
      with walk_invD(7) [OF inv] h show ?thesis by blast
    next
      case (Some k)
      with walk_invD(9) [OF inv Some] h show ?thesis by simp
    qed
  qed
qed

section \<open>The result of normalizeMarkers\<close>

lemma markers_ok_References_Get [simp]: "markers_ok (References_Get env r i)"
proof -
  have "markers_ok (fold (\<lambda>(s, t) m. case thresholdGet env t i of
      Some j \<Rightarrow> fst (Markers_Set env s j m) | None \<Rightarrow> m) ts m)" if "markers_ok m" for ts m
    using that by (induction ts arbitrary: m) (auto split: option.split)
  then show ?thesis by (simp add: References_Get_def)
qed

lemma markers_ok_referenced [simp]: "markers_ok (Sequence_ReferencedMarkers env sq i)"
  by (simp add: Sequence_ReferencedMarkers_def)

context marker_machine
begin

lemma markers_ok_visit:
  "markers_ok nrm \<Longrightarrow> normalize_visit env markers i cur seen nrm = (seen1, nrm1, follow) \<Longrightarrow> markers_ok nrm1"
  by (auto simp: normalize_visit_def split: if_splits prod.splits option.splits)

text \<open>Whatever the walker ignores, the result is a part of the markers.\<close>

lemma normalize_loop_part:
  "markers_ok nrm \<longrightarrow> Markers_Get nrm \<subseteq>\<^sub>m Markers_Get markers \<longrightarrow>
   normalize_loop env st markers i w seen nrm = Some (Inr r) \<longrightarrow>
   markers_ok r \<and> Markers_Get r \<subseteq>\<^sub>m Markers_Get markers"
proof (rule walk_induct [where markers = markers and i = i and w = w and seen = seen and nrm = nrm], intro impI)
  fix i w seen nrm
  assume IH: "\<And>cur w1 seen1 nrm1 follow w2. nextMarker env w = Some (cur, w1) \<Longrightarrow>
      normalize_visit env markers i cur seen nrm = (seen1, nrm1, follow) \<Longrightarrow> (\<not> follow \<longrightarrow> w2 = w1) \<Longrightarrow>
      markers_ok nrm1 \<longrightarrow> Markers_Get nrm1 \<subseteq>\<^sub>m Markers_Get markers \<longrightarrow>
      normalize_loop env st markers (Suc i) w2 seen1 nrm1 = Some (Inr r) \<longrightarrow>
      markers_ok r \<and> Markers_Get r \<subseteq>\<^sub>m Markers_Get markers"
    and ok: "markers_ok nrm" and part: "Markers_Get nrm \<subseteq>\<^sub>m Markers_Get markers"
    and run: "normalize_loop env st markers i w seen nrm = Some (Inr r)"
  show "markers_ok r \<and> Markers_Get r \<subseteq>\<^sub>m Markers_Get markers"
  proof (cases "nextMarker env w")
    case None
    with run ok part show ?thesis by (simp add: normalize_loop.simps)
  next
    case (Some p)
    obtain cur w1 where nx: "nextMarker env w = Some (cur, w1)" using Some by (cases p) auto
    obtain seen1 nrm1 follow where v: "normalize_visit env markers i cur seen nrm = (seen1, nrm1, follow)"
      by (cases "normalize_visit env markers i cur seen nrm") auto
    have part1: "Markers_Get nrm1 \<subseteq>\<^sub>m Markers_Get markers"
      by (cases rule: normalize_visit_cases [of i markers env cur seen nrm])
        (use v part in \<open>auto simp: map_le_def split: if_splits\<close>)
    show ?thesis
    proof (cases follow)
      case False
      have "normalize_loop env st markers (Suc i) w1 seen1 nrm1 = Some (Inr r)"
        using run False by (subst (asm) normalize_loop.simps) (simp add: nx v)
      with IH [OF nx v, of w1] markers_ok_visit [OF ok v] part1 show ?thesis by simp
    next
      case True
      then obtain sq where "normalize_loop env st markers (Suc i)
          (pushMarkers env (Sequence_ReferencedMarkers env sq (marker_Index cur)) w1) seen1 nrm1 = Some (Inr r)"
        using run by (subst (asm) normalize_loop.simps) (auto simp: nx v split: option.splits)
      with IH [OF nx v] markers_ok_visit [OF ok v] part1 True show ?thesis by simp
    qed
  qed
qed

lemma normalizeMarkers_part:
  assumes "markers_ok m" and "normalizeMarkers env mgr m = Some (Inr r)"
  shows "markers_ok r" and "Markers_Get r \<subseteq>\<^sub>m Markers_Get m"
  using normalize_loop_part [rule_format, of "Markers_Clone env m" m] assms
  by (auto simp: normalizeMarkers_def)

text \<open>A walker that visits every marker once takes those that were not pushed before.\<close>

lemma pending_fold_once:
  assumes once: "\<And>w m. m \<in> pushed w \<Longrightarrow> pending (pushMarker env w m) = pending w"
  shows "\<exists>ys. pending (fold (\<lambda>x w. pushMarker env w x) xs w) = pending w @ ys \<and> set ys = set xs - pushed w \<and>
    (distinct xs \<longrightarrow> set xs \<inter> pushed w = {} \<longrightarrow> length ys = length xs)"
proof (induction xs arbitrary: w)
  case (Cons x xs)
  let ?w = "pushMarker env w x"
  obtain ys where ys: "pending (fold (\<lambda>x w. pushMarker env w x) xs ?w) = pending ?w @ ys" "set ys = set xs - pushed ?w"
    "distinct xs \<longrightarrow> set xs \<inter> pushed ?w = {} \<longrightarrow> length ys = length xs" using Cons.IH [of ?w] by blast
  show ?case
  proof (cases "x \<in> pushed w")
    case True
    then show ?thesis using ys once [OF True] by (intro exI [of _ ys]) (auto simp: push_pushed insert_absorb)
  next
    case False
    then have "pending ?w = pending w @ [x]" using push_pending [of w x] by blast
    then show ?thesis using ys False by (intro exI [of _ "x # ys"]) (auto simp: push_pushed)
  qed
qed simp

lemma pending_pushMarkers:
  assumes once: "\<And>w m. m \<in> pushed w \<Longrightarrow> pending (pushMarker env w m) = pending w" and ok: "markers_ok m"
  obtains xs where "pending (pushMarkers env m w) = pending w @ xs" "set xs = {b. in_markers m b} - pushed w"
    "pushed (pushMarkers env m w) = pushed w \<union> {b. in_markers m b}" "pushed w = {} \<longrightarrow> length xs = Markers_Size m"
proof -
  obtain es where es: "lists es m"
    and each: "\<And>f x. Markers_ForEach env (Some m) f (x :: 'w) = iterate f es x"
    using lists_ForEach [OF ok] by metis
  let ?ms = "map (\<lambda>(s, i). NewMarker s i) es"
  have run: "pushMarkers env m w = fold (\<lambda>x w. pushMarker env w x) ?ms w"
    by (simp add: pushMarkers_def each iterate_total fold_map comp_def case_prod_unfold)
  have d: "distinct (map fst es)" and g: "map_of es = map_of (byID m)"
    using es by (auto simp: lists_def Markers_Get_def fun_eq_iff)
  have dm: "distinct (map fst (byID m))" using ok by (simp add: markers_ok_def)
  have s: "set es = set (byID m)" using map_of_inject_set [OF d dm] g by simp
  have "b \<in> (\<lambda>(s, i). NewMarker s i) ` set es \<longleftrightarrow> (marker_SequenceID b, marker_Index b) \<in> set es" for b
    by (auto simp: image_iff NewMarker_def intro!: bexI)
  then have set: "set ?ms = {b. in_markers m b}"
    using dm by (auto simp: s in_markers_def Markers_Get_def)
  have "inj (\<lambda>(s, i). NewMarker s i)" by (auto simp: inj_def NewMarker_def)
  then have dist: "distinct ?ms" using d unfolding distinct_map by (auto intro: inj_on_subset)
  have len: "length ?ms = Markers_Size m"
    using s d dm by (metis length_map distinct_card set_map Markers_Size_def)
  obtain ys where ys: "pending (pushMarkers env m w) = pending w @ ys" "set ys = set ?ms - pushed w"
    "distinct ?ms \<longrightarrow> set ?ms \<inter> pushed w = {} \<longrightarrow> length ys = length ?ms"
    using pending_fold_once [OF once, of ?ms w] unfolding run by blast
  have "pushed (pushMarkers env m w) = pushed w \<union> {b. in_markers m b}"
    unfolding run pushed_fold set by blast
  moreover have "set ys = {b. in_markers m b} - pushed w" using ys(2) unfolding set .
  ultimately show thesis using ys dist len by (intro that [of ys]) simp_all
qed

lemma normalize_loop_exact:
  assumes once: "\<And>w m. m \<in> pushed w \<Longrightarrow> pending (pushMarker env w m) = pending w"
    and grow: "references_grow env st"
    and load: "\<And>a. in_markers markers a \<or> reached env st markers a \<Longrightarrow>
      loadSequence env st (marker_SequenceID a) \<noteq> None"
    and init: "set init = {a. in_markers markers a}" "length init = Markers_Size markers"
  shows "\<forall>rest E. pending w = drop i init @ rest \<longrightarrow> walk_inv env st markers init i (pushed w) rest seen nrm E \<longrightarrow>
    (\<exists>r. normalize_loop env st markers i w seen nrm = Some (Inr r) \<and>
      (\<forall>s j. Markers_Get r s = Some j \<longleftrightarrow>
         Markers_Get markers s = Some j \<and> \<not> (\<exists>k>j. reached env st markers (NewMarker s k))))"
proof (rule walk_induct [where markers = markers and i = i and w = w and seen = seen and nrm = nrm],
    intro allI impI, goal_cases)
  case (1 i w seen nrm rest E)
  note IH = 1(1) and pend = 1(2) and inv = 1(3)
  show ?case
  proof (cases "nextMarker env w")
    case None
    then have "length init \<le> i" "rest = []" using pend next_None by auto
    with None inv walk_inv_done [OF _ _ init(1) grow] show ?thesis
      by (simp add: normalize_loop.simps)
  next
    case (Some p)
    obtain cur w1 where nx: "nextMarker env w = Some (cur, w1)" using Some by (cases p) auto
    have pw: "drop i init @ rest = cur # pending w1" and P1: "pushed w1 = pushed w" using next_Some [OF nx] pend by simp_all
    obtain seen1 nrm1 follow where v: "normalize_visit env markers i cur seen nrm = (seen1, nrm1, follow)"
      by (cases "normalize_visit env markers i cur seen nrm") auto
    have known: "in_markers markers cur \<or> reached env st markers cur"
    proof -
      have "cur \<in> set (drop i init) \<union> set rest" using pw by (metis list.set_intros(1) set_append)
      then show ?thesis using walk_invD(2) [OF inv] init(1) by (auto dest: in_set_dropD)
    qed
    then obtain sq where sq: "loadSequence env st (marker_SequenceID cur) = Some sq" using load by blast
    let ?refs = "Sequence_ReferencedMarkers env sq (marker_Index cur)"
    have in_refs: "{b. in_markers ?refs b} = {b. references env st cur b}"
      by (simp add: in_markers_def references_def sq)
    obtain refs where refs: "pending (pushMarkers env ?refs w1) = pending w1 @ refs"
      "set refs = {b. references env st cur b} - pushed w"
      "pushed (pushMarkers env ?refs w1) = pushed w \<union> {b. references env st cur b}"
      using pending_pushMarkers [OF once markers_ok_referenced [of env sq "marker_Index cur"], of w1] unfolding P1 in_refs by metis
    let ?w2 = "if follow then pushMarkers env ?refs w1 else w1"
    have run: "normalize_loop env st markers i w seen nrm = normalize_loop env st markers (Suc i) ?w2 seen1 nrm1"
      by (subst normalize_loop.simps) (simp add: nx v sq)
    have late: "length init \<le> i \<Longrightarrow> rest = cur # pending w1 \<and> drop (Suc i) init = []" using pw by simp
    obtain rest1 E1 where "pending ?w2 = drop (Suc i) init @ rest1"
        "walk_inv env st markers init (Suc i) (pushed ?w2) rest1 seen1 nrm1 E1"
    proof (cases rule: normalize_visit_cases [of i markers env cur seen nrm])
      case initial
      then have i: "i < length init" using init(2) by simp
      have c: "cur = init ! i" and w1: "pending w1 = drop (Suc i) init @ rest"
        using pw i by (auto simp: Cons_nth_drop_Suc [symmetric])
      have "in_markers markers cur" using init(1) nth_mem [OF i] c by simp
      with walk_inv_initial [OF inv i, of refs] refs c show thesis
        by (intro that [of "rest @ refs" "insert (init ! i) E"]) (use initial v w1 in auto)
    next
      case (seen s1)
      with init(2) late have l: "length init \<le> i" "rest = cur # pending w1" by auto
      show thesis
        by (rule that [of "pending w1" E])
          (use walk_inv_skip [of env st markers init i "pushed w" cur "pending w1" seen nrm E s1] inv l seen v P1 in auto)
    next
      case (fresh s1 n1 f)
      with init(2) late have l: "length init \<le> i" "rest = cur # pending w1" by auto
      note inv' = inv [unfolded l(2)]
      show thesis
      proof (cases follow)
        case True
        show thesis
          by (rule that [of "pending w1 @ refs" "insert cur E"])
            (use walk_inv_follow [OF inv' l(1) fresh(3,4), of nrm1 refs] fresh v refs l True in auto)
      next
        case False
        show thesis
          by (rule that [of "pending w1" E])
            (use walk_inv_above [OF inv' l(1) init(1) fresh(3,4)] fresh v l P1 False in auto)
      qed
    qed
    then have "\<exists>r. normalize_loop env st markers (Suc i) ?w2 seen1 nrm1 = Some (Inr r) \<and>
        (\<forall>s j. Markers_Get r s = Some j \<longleftrightarrow>
           Markers_Get markers s = Some j \<and> \<not> (\<exists>k>j. reached env st markers (NewMarker s k)))"
      by (rule IH [OF nx v, of ?w2, THEN spec, THEN spec, THEN mp, THEN mp, rotated]) simp
    then show ?thesis unfolding run .
  qed
qed

text \<open>
  normalizeMarkers keeps exactly the markers that no marker of the collection leads strictly beyond: the
  walker visits every element once, all sequences are stored and their references grow.
\<close>

lemma normalizeMarkers_keeps:
  assumes once: "\<And>w m. m \<in> pushed w \<Longrightarrow> pending (pushMarker env w m) = pending w"
    and ok: "markers_ok m" and grow: "references_grow env (sequenceStorage mgr)"
    and load: "\<And>a. in_markers m a \<or> reached env (sequenceStorage mgr) m a \<Longrightarrow>
      Manager_Sequence env mgr (marker_SequenceID a) \<noteq> None"
  shows "\<exists>r. normalizeMarkers env mgr m = Some (Inr r) \<and>
    (\<forall>s j. Markers_Get r s = Some j \<longleftrightarrow>
       Markers_Get m s = Some j \<and> \<not> (\<exists>k>j. reached env (sequenceStorage mgr) m (NewMarker s k)))"
proof -
  obtain init where init: "pending (pushMarkers env m (newWalker env)) = init"
      "set init = {a. in_markers m a}" "pushed (pushMarkers env m (newWalker env)) = {a. in_markers m a}"
      "length init = Markers_Size m"
    using pending_pushMarkers [OF once ok, of "newWalker env"] unfolding pending_new pushed_new
    by (metis append_Nil Diff_empty Un_empty_left)
  have "walk_inv env (sequenceStorage mgr) m init 0 {a. in_markers m a} [] emptyMarkers (Markers_Clone env m) {}"
    using ok by (auto simp: walk_inv_def covered_def less_option_None_Some)
  then show ?thesis
    unfolding normalizeMarkers_def
    by (intro normalize_loop_exact [OF once grow load [unfolded Manager_Sequence_def] init(2,4),
          THEN spec, THEN spec, THEN mp, THEN mp]) (simp_all add: init(1,3))
qed

end

end
