(* ===== verification/ReferenceLaws.thy ===== *)
theory ReferenceLaws
  imports NormalizeLaws
begin

text \<open>
  What the threshold maps of a sequence record: an extension adds the references of the new marker
  and leaves those of the earlier markers as they were.
\<close>

context threshold_map
begin

lemma get_None: "thresholdGet env t k = None \<longleftrightarrow>
    \<not> (\<exists>j. stored t j \<noteq> None \<and> (if upper t then k \<le> j else j \<le> k) \<and>
       (\<forall>i. stored t i \<noteq> None \<longrightarrow> (if upper t then k \<le> i else i \<le> k) \<longrightarrow> (if upper t then j \<le> i else i \<le> j)))"
  using get_some [of t k] by (cases "thresholdGet env t k") fastforce+

text \<open>A key above all others in the lower mode.\<close>

lemma lower_set_at:
  assumes "\<not> upper t" and "\<And>i. stored t i \<noteq> None \<Longrightarrow> i \<le> k" and "k \<le> j"
  shows "thresholdGet env (thresholdSet env t k v) j = Some v"
  unfolding get_some using assms by (intro exI [of _ k]) (auto simp: set_stored set_mode)

lemma lower_set_below:
  assumes "\<not> upper t" and "j < k"
  shows "thresholdGet env (thresholdSet env t k v) j = thresholdGet env t j"
proof -
  have "(stored (thresholdSet env t k v) l = Some x \<and> l \<le> j \<and>
         (\<forall>i. stored (thresholdSet env t k v) i \<noteq> None \<longrightarrow> i \<le> j \<longrightarrow> i \<le> l)) \<longleftrightarrow>
        (stored t l = Some x \<and> l \<le> j \<and> (\<forall>i. stored t i \<noteq> None \<longrightarrow> i \<le> j \<longrightarrow> i \<le> l))" for l x
    using assms(2) by (cases "l = k") (auto simp: set_stored leD)
  then have "thresholdGet env (thresholdSet env t k v) j = Some x \<longleftrightarrow> thresholdGet env t j = Some x" for x
    unfolding get_some set_mode using assms(1) by simp
  then show ?thesis by (metis not_Some_eq)
qed

lemma lower_new: "thresholdGet env (newLower env) j = None"
  by (cases "thresholdGet env (newLower env) j") (auto simp: get_some new_empty)

end

text \<open>The threshold maps of a sequence, all in the lower mode, with keys up to h.\<close>

definition lower_keys ::
    "('t \<Rightarrow> bool) \<Rightarrow> ('t \<Rightarrow> 64 word \<Rightarrow> index option) \<Rightarrow> 't thresholds \<Rightarrow> index \<Rightarrow> bool" where
  "lower_keys upper stored r h \<longleftrightarrow>
     distinct (map fst r) \<and>
     (\<forall>s t. map_of r s = Some t \<longrightarrow> \<not> upper t \<and> (\<forall>k. stored t k \<noteq> None \<longrightarrow> k \<le> h))"

lemma lower_keys_mono: "lower_keys upper stored r h \<Longrightarrow> h \<le> i \<Longrightarrow> lower_keys upper stored r i"
  unfolding lower_keys_def by (meson order.trans)

locale sequence_references = go_ranges env + threshold_map env upper stored
  for env :: "('t, 'z) marker_env_scheme" and upper :: "'t \<Rightarrow> bool"
    and stored :: "'t \<Rightarrow> 64 word \<Rightarrow> index option"
begin

lemma range_thresholds_map:
  assumes "distinct (map fst r)"
  shows "map_of (rangeThresholds env r) = map_of r" and "distinct (map fst (rangeThresholds env r))"
proof -
  show d: "distinct (map fst (rangeThresholds env r))"
    using assms by (metis range_thresholds mset_map mset_eq_imp_distinct_iff)
  have "set (rangeThresholds env r) = set r" by (metis range_thresholds set_mset_mset)
  with d assms show "map_of (rangeThresholds env r) = map_of r" by (simp add: map_of_inject_set)
qed

lemma Get_fold_references:
  "distinct (map fst ts) \<Longrightarrow> (\<And>s. s \<in> fst ` set ts \<Longrightarrow> Markers_Get m s = None) \<Longrightarrow>
   Markers_Get (fold (\<lambda>(s, t) m. case thresholdGet env t i of
       Some j \<Rightarrow> fst (Markers_Set env s j m) | None \<Rightarrow> m) ts m) s =
     (case map_of ts s of Some t \<Rightarrow> thresholdGet env t i | None \<Rightarrow> Markers_Get m s)"
proof (induction ts arbitrary: m)
  case (Cons e ts)
  obtain u t where e: "e = (u, t)" by (cases e)
  let ?m = "case thresholdGet env t i of Some j \<Rightarrow> fst (Markers_Set env u j m) | None \<Rightarrow> m"
  have u: "Markers_Get m u = None" "map_of ts u = None"
    using Cons.prems e by (auto simp: map_of_eq_None_iff)
  have m: "Markers_Get ?m = (Markers_Get m)(u := thresholdGet env t i)"
    using u(1) by (auto simp: Get_Set fun_eq_iff split: option.split)
  have ms: "Markers_Get ?m s = (if s = u then thresholdGet env t i else Markers_Get m s)" by (simp add: m)
  have "Markers_Get (fold (\<lambda>(s, t) m. case thresholdGet env t i of
       Some j \<Rightarrow> fst (Markers_Set env s j m) | None \<Rightarrow> m) ts ?m) s =
     (case map_of ts s of Some t \<Rightarrow> thresholdGet env t i | None \<Rightarrow> Markers_Get ?m s)"
    by (rule Cons.IH) (use Cons.prems e in \<open>auto simp: m\<close>)
  from this [unfolded ms] show ?case using u(2) by (auto simp: e split: option.split)
qed simp

lemma Get_References:
  "distinct (map fst r) \<Longrightarrow>
   Markers_Get (References_Get env r i) s = (case map_of r s of Some t \<Rightarrow> thresholdGet env t i | None \<Rightarrow> None)"
  by (simp add: References_Get_def Get_fold_references range_thresholds_map cong: option.case_cong)

lemma map_of_add_fold:
  "distinct (map fst es) \<Longrightarrow>
   map_of (fold (\<lambda>(s, j) r. AList.update s (thresholdSet env (case map_of r s of Some t \<Rightarrow> t | None \<Rightarrow> newLower env) i j) r) es r) s =
     (case map_of es s of
        Some j \<Rightarrow> Some (thresholdSet env (case map_of r s of Some t \<Rightarrow> t | None \<Rightarrow> newLower env) i j)
      | None \<Rightarrow> map_of r s)"
proof (induction es arbitrary: r)
  case (Cons e es)
  obtain u j where e: "e = (u, j)" by (cases e)
  have "map_of es u = None" using Cons.prems e by (simp add: map_of_eq_None_iff)
  with Cons show ?case by (auto simp: e update_conv split: option.split)
qed simp

lemma distinct_add_fold:
  "distinct (map fst r) \<Longrightarrow>
   distinct (map fst (fold (\<lambda>(s, j) r. AList.update s (thresholdSet env (case map_of r s of Some t \<Rightarrow> t | None \<Rightarrow> newLower env) i j) r) es r))"
  by (induction es arbitrary: r) (auto simp: case_prod_unfold)

lemma Referenced_Add_fold:
  assumes "markers_ok m"
  obtains es where "lists es m" and "Referenced_Add env i m r =
    fold (\<lambda>(s, j) r. AList.update s (thresholdSet env (case map_of r s of Some t \<Rightarrow> t | None \<Rightarrow> newLower env) i j) r) es r"
proof (rule lists_ForEach [OF assms, where ?'x = "'t thresholds"])
  fix es assume es: "lists es m" and each: "\<And>f x. Markers_ForEach env (Some m) f (x :: 't thresholds) = iterate f es x"
  show thesis
    by (rule that [OF es]) (simp add: Referenced_Add_def each Let_def iterate_total)
qed

lemma map_of_Referenced_Add:
  assumes "markers_ok m"
  shows "map_of (Referenced_Add env i m r) s =
    (case Markers_Get m s of
       Some j \<Rightarrow> Some (thresholdSet env (case map_of r s of Some t \<Rightarrow> t | None \<Rightarrow> newLower env) i j)
     | None \<Rightarrow> map_of r s)"
  by (rule Referenced_Add_fold [OF assms, of i r]) (simp add: map_of_add_fold lists_def)

lemma distinct_Referenced_Add:
  "markers_ok m \<Longrightarrow> distinct (map fst r) \<Longrightarrow> distinct (map fst (Referenced_Add env i m r))"
  by (rule Referenced_Add_fold [of m i r]) (simp_all add: distinct_add_fold)

lemma lower_keys_Add:
  assumes "lower_keys upper stored r h" and "markers_ok m" and "h \<le> i"
  shows "lower_keys upper stored (Referenced_Add env i m r) i"
  using lower_keys_mono [OF assms(1,3)] assms(2) new_modes(2)
  by (auto simp: lower_keys_def distinct_Referenced_Add map_of_Referenced_Add set_mode set_stored new_empty
      split: option.splits if_splits)

text \<open>The references after new ones were added at an index that is not below the earlier keys.\<close>

lemma Get_after_Add:
  assumes k: "lower_keys upper stored r h" and m: "markers_ok m" and h: "h \<le> i"
  shows "Markers_Get (References_Get env (Referenced_Add env i m r) j) s =
    (case Markers_Get m s of
       Some v \<Rightarrow> if i \<le> j then Some v else Markers_Get (References_Get env r j) s
     | None \<Rightarrow> Markers_Get (References_Get env r j) s)"
proof (cases "Markers_Get m s")
  case None
  with k m show ?thesis
    by (simp add: Get_References distinct_Referenced_Add map_of_Referenced_Add lower_keys_def)
next
  case (Some v)
  define t where "t = (case map_of r s of Some t \<Rightarrow> t | None \<Rightarrow> newLower env)"
  have low: "\<not> upper t" and keys: "\<And>x. stored t x \<noteq> None \<Longrightarrow> x \<le> i"
    using lower_keys_mono [OF k h] new_modes(2) by (auto simp: t_def lower_keys_def new_empty split: option.splits)
  have old: "thresholdGet env t j = Markers_Get (References_Get env r j) s"
    using k by (auto simp: t_def lower_keys_def Get_References lower_new split: option.split)
  have d: "distinct (map fst r)" using k by (simp add: lower_keys_def)
  have "Markers_Get (References_Get env (Referenced_Add env i m r) j) s = thresholdGet env (thresholdSet env t i v) j"
    using m Some d by (simp add: Get_References distinct_Referenced_Add map_of_Referenced_Add t_def)
  also have "\<dots> = (if i \<le> j then Some v else Markers_Get (References_Get env r j) s)"
    using lower_set_at [OF low keys, of j v] lower_set_below [OF low, of j i v] old by (auto simp: not_le)
  finally show ?thesis using Some by simp
qed

lemma NewReferencedMarkers_keys:
  assumes "markers_ok m"
  shows "lower_keys upper stored (NewReferencedMarkers env m) (highest m + 1)"
proof (rule lists_ForEach [OF assms, where ?'x = "'t thresholds"])
  fix es assume each: "\<And>f x. Markers_ForEach env (Some m) f (x :: 't thresholds) = iterate f es x"
  have "lower_keys upper stored (fold (\<lambda>(s, j) r. AList.update s (thresholdSet env (newLower env) i j) r) es r) i"
    if "lower_keys upper stored r i" for i r
    using that
  proof (induction es arbitrary: r)
    case (Cons e es)
    obtain s j where e: "e = (s, j)" by (cases e)
    have "lower_keys upper stored (AList.update s (thresholdSet env (newLower env) i j) r) i"
      using Cons.prems new_modes(2)
      by (auto simp: lower_keys_def update_conv set_mode set_stored new_empty split: if_splits)
    then show ?case using Cons.IH by (simp add: e)
  qed simp
  moreover have "lower_keys upper stored [] (highest m + 1)" by (simp add: lower_keys_def)
  ultimately show ?thesis by (simp add: NewReferencedMarkers_def each iterate_total)
qed

end

text \<open>The markers of the other sequences that an extension references.\<close>

definition others :: "'t Sequence \<Rightarrow> Markers \<Rightarrow> SequenceID \<Rightarrow> index option" where
  "others x past s = (if s = seq_ID x then None else Markers_Get past s)"

definition sequence_ok :: "('t \<Rightarrow> bool) \<Rightarrow> ('t \<Rightarrow> 64 word \<Rightarrow> index option) \<Rightarrow> 't Sequence \<Rightarrow> bool" where
  "sequence_ok upper stored x \<longleftrightarrow>
     seq_lowest x \<le> seq_highest x \<and> lower_keys upper stored (referenced x) (seq_highest x)"

context sequence_references
begin

lemma NewSequence_ok:
  "markers_ok m \<Longrightarrow> k \<noteq> 0 \<Longrightarrow> sequence_ok upper stored (NewSequence env k m)"
  using NewReferencedMarkers_keys by (simp add: sequence_ok_def NewSequence_def Let_def)

text \<open>A collection whose only marker is that of the sequence references no other sequence.\<close>

lemma others_single:
  assumes "markers_ok past" and "Markers_Get past (seq_ID x) = Some i" and "\<not> 1 < Markers_Size past"
  shows "others x past = Map.empty"
proof -
  obtain e where "byID past = [e]"
    using assms(2,3) by (cases "byID past"; cases "tl (byID past)") (auto simp: Markers_Size_def Markers_Get_def)
  with assms(2) show ?thesis by (cases e) (auto simp: others_def Markers_Get_def fun_eq_iff split: if_splits)
qed

lemma TryExtend_records:
  assumes ok: "sequence_ok upper stored x" and past: "markers_ok past" and hi: "highest past \<noteq> - 1"
    and ex: "TryExtend env x past inc = ok (y, idx, remaining, True)"
  shows "sequence_ok upper stored y \<and> idx = highest past + 1 \<and> seq_highest y = idx \<and> seq_highest x < idx \<and>
    (\<forall>j s. Markers_Get (Sequence_ReferencedMarkers env y j) s =
       (case others x past s of
          Some v \<Rightarrow> if idx \<le> j then Some v else Markers_Get (Sequence_ReferencedMarkers env x j) s
        | None \<Rightarrow> Markers_Get (Sequence_ReferencedMarkers env x j) s))"
proof -
  let ?idx = "highest past + 1"
  obtain i where i: "Markers_Get past (seq_ID x) = Some i" "seq_highest x = i"
    using ex by (auto simp: TryExtend_def Let_def split: option.splits if_splits)
  have lt: "seq_highest x < ?idx"
    using highest_ge [OF past i(1)] i(2) hi by (metis word_less_Suc)
  have keys: "lower_keys upper stored (referenced x) (seq_highest x)" and low: "seq_lowest x \<le> seq_highest x"
    using ok by (auto simp: sequence_ok_def)
  show ?thesis
  proof (cases "1 < Markers_Size past")
    case True
    let ?m = "fst (Markers_Delete env (seq_ID x) (Markers_Clone env past))"
    have y: "y = x\<lparr>seq_highest := ?idx, referenced := Referenced_Add env ?idx ?m (referenced x)\<rparr>" and "idx = ?idx"
      using ex True i by (auto simp: TryExtend_def Let_def split: if_splits)
    have m: "markers_ok ?m" by simp
    have g: "Markers_Get ?m = others x past" using past by (auto simp: Get_Delete others_def fun_eq_iff)
    have refs: "Markers_Get (Sequence_ReferencedMarkers env y j) s =
       (case others x past s of
          Some v \<Rightarrow> if idx \<le> j then Some v else Markers_Get (Sequence_ReferencedMarkers env x j) s
        | None \<Rightarrow> Markers_Get (Sequence_ReferencedMarkers env x j) s)" for j s
      unfolding Sequence_ReferencedMarkers_def \<open>idx = ?idx\<close> y
      using Get_after_Add [OF keys m less_imp_le [OF lt], of j s] by (simp add: g)
    moreover have "sequence_ok upper stored y"
      using lower_keys_Add [OF keys m less_imp_le [OF lt]] low lt by (simp add: y sequence_ok_def)
    ultimately show ?thesis using lt by (simp add: y \<open>idx = ?idx\<close>)
  next
    case False
    have y: "y = x\<lparr>seq_highest := ?idx\<rparr>" and "idx = ?idx"
      using ex False i by (auto simp: TryExtend_def Let_def split: if_splits)
    have "lower_keys upper stored (referenced x) ?idx"
      by (rule lower_keys_mono [OF keys less_imp_le [OF lt]])
    then show ?thesis
      using low lt others_single [OF past i(1) False]
      by (simp add: y \<open>idx = ?idx\<close> sequence_ok_def Sequence_ReferencedMarkers_def)
  qed
qed

end

end
