(* ===== verification/MarkerProperties.thy ===== *)
theory MarkerProperties
  imports ReferenceLaws
begin

text \<open>
  The Manager as a state machine: which markers it hands out.  A concrete environment at the end
  instantiates the storage, the walker and the threshold maps, and the witnesses run it.
\<close>

section \<open>Heights of the sequences\<close>

definition manager_ok :: "('t, 'w, 's, 'z) manager_env_scheme \<Rightarrow> 's Manager \<Rightarrow> bool" where
  "manager_ok env mgr \<longleftrightarrow>
     (\<forall>k sq. Manager_Sequence env mgr k = Some sq \<longrightarrow> seq_ID sq = k \<and> k \<le> sequenceIDCounter mgr)"

definition heights :: "('t, 'w, 's, 'z) manager_env_scheme \<Rightarrow> 's Manager \<Rightarrow> SequenceID \<rightharpoonup> index" where
  "heights env mgr k = map_option seq_highest (Manager_Sequence env mgr k)"

text \<open>A new marker of a sequence, and the manager after it.\<close>

definition assigns ::
    "('t, 'w, 's, 'z) manager_env_scheme \<Rightarrow> 's Manager \<Rightarrow> Markers \<Rightarrow> Marker \<Rightarrow> 's Manager \<Rightarrow> bool" where
  "assigns env mgr past mk mgr' \<longleftrightarrow>
     heights env mgr (marker_SequenceID mk) < Some (marker_Index mk) \<and>
     heights env mgr' = (heights env mgr)(marker_SequenceID mk \<mapsto> marker_Index mk) \<and>
     (\<forall>s i. Markers_Get past s = Some i \<longrightarrow> i < marker_Index mk)"

text \<open>What the loop over the sequences returns.\<close>

definition extend_outcome ::
    "('t, 'w, 's, 'z) manager_env_scheme \<Rightarrow> 's Manager \<Rightarrow> Markers \<Rightarrow> ('s Manager \<times> Marker option) go \<Rightarrow> bool" where
  "extend_outcome env mgr past r \<longleftrightarrow>
     (\<exists>mgr' new. r = ok (mgr', new) \<and> manager_ok env mgr' \<and>
        sequenceIDCounter mgr' = sequenceIDCounter mgr \<and>
        MaxPastMarkerDistance mgr' = MaxPastMarkerDistance mgr \<and>
        (case new of None \<Rightarrow> heights env mgr' = heights env mgr
         | Some mk \<Rightarrow> assigns env mgr past mk mgr'))"

lemma extend_outcome_same:
  assumes "extend_outcome env m past r" and "heights env m = heights env mgr"
    and "sequenceIDCounter m = sequenceIDCounter mgr" and "MaxPastMarkerDistance m = MaxPastMarkerDistance mgr"
  shows "extend_outcome env mgr past r"
  using assms(1) unfolding extend_outcome_def assigns_def assms(2-4) .

context marker_machine
begin

lemma Sequence_put [simp]:
  "Manager_Sequence env (Manager_put env x mgr) k = (if k = seq_ID x then Some x else Manager_Sequence env mgr k)"
  by (simp add: Manager_Sequence_def Manager_put_def load_store)

lemma counter_put [simp]:
  "sequenceIDCounter (Manager_put env x mgr) = sequenceIDCounter mgr"
  "MaxPastMarkerDistance (Manager_put env x mgr) = MaxPastMarkerDistance mgr"
  by (simp_all add: Manager_put_def)

lemma manager_ok_put:
  "manager_ok env mgr \<Longrightarrow> seq_ID x \<le> sequenceIDCounter mgr \<Longrightarrow> manager_ok env (Manager_put env x mgr)"
  by (auto simp: manager_ok_def)

lemma heights_put: "heights env (Manager_put env x mgr) = (heights env mgr)(seq_ID x \<mapsto> seq_highest x)"
  by (auto simp: heights_def fun_eq_iff)

lemma register_fold:
  assumes "manager_ok env mgr"
  defines "step \<equiv> \<lambda>mk (s, i) mgr. case Manager_Sequence env mgr s of
      Some x \<Rightarrow> Manager_put env (AddReferencingMarker env i mk x) mgr | None \<Rightarrow> mgr"
  shows "manager_ok env (fold (step mk) es mgr) \<and> heights env (fold (step mk) es mgr) = heights env mgr \<and>
    sequenceIDCounter (fold (step mk) es mgr) = sequenceIDCounter mgr \<and>
    MaxPastMarkerDistance (fold (step mk) es mgr) = MaxPastMarkerDistance mgr"
  using assms(1)
proof (induction es arbitrary: mgr)
  case (Cons e es)
  obtain s i where e: "e = (s, i)" by (cases e)
  have "manager_ok env (step mk e mgr) \<and> heights env (step mk e mgr) = heights env mgr \<and>
      sequenceIDCounter (step mk e mgr) = sequenceIDCounter mgr \<and>
      MaxPastMarkerDistance (step mk e mgr) = MaxPastMarkerDistance mgr"
  proof (cases "Manager_Sequence env mgr s")
    case (Some x)
    then have "seq_ID x = s" "s \<le> sequenceIDCounter mgr" using Cons.prems by (auto simp: manager_ok_def)
    with Some Cons.prems show ?thesis
      by (auto simp: step_def e manager_ok_put AddReferencingMarker_def heights_put heights_def fun_eq_iff)
  qed (use Cons.prems in \<open>simp add: step_def e\<close>)
  with Cons.IH [of "step mk e mgr"] show ?case by simp
qed simp

lemma register_keeps:
  assumes "manager_ok env mgr" and "\<And>m. past = Some m \<Longrightarrow> markers_ok m"
  shows "manager_ok env (registerReferencingMarker env past mk mgr)"
    and "heights env (registerReferencingMarker env past mk mgr) = heights env mgr"
    and "sequenceIDCounter (registerReferencingMarker env past mk mgr) = sequenceIDCounter mgr"
    and "MaxPastMarkerDistance (registerReferencingMarker env past mk mgr) = MaxPastMarkerDistance mgr"
proof -
  obtain es where "registerReferencingMarker env past mk mgr =
      fold (\<lambda>(s, i) mgr. case Manager_Sequence env mgr s of
        Some x \<Rightarrow> Manager_put env (AddReferencingMarker env i mk x) mgr | None \<Rightarrow> mgr) es mgr"
  proof (cases past)
    case None
    then show thesis by (intro that [of "[]"]) (simp add: registerReferencingMarker_def Markers_ForEach_def)
  next
    case (Some m)
    obtain es where each: "\<And>f x. Markers_ForEach env (Some m) f (x :: 's Manager) = iterate f es x"
      using lists_ForEach [OF assms(2) [OF Some]] by metis
    show thesis
      by (rule that [of es], unfold registerReferencingMarker_def Some each, subst iterate_total)
        (auto split: option.split intro!: fold_cong)
  qed
  with register_fold [OF assms(1), of mk es]
  show "manager_ok env (registerReferencingMarker env past mk mgr)"
    and "heights env (registerReferencingMarker env past mk mgr) = heights env mgr"
    and "sequenceIDCounter (registerReferencingMarker env past mk mgr) = sequenceIDCounter mgr"
    and "MaxPastMarkerDistance (registerReferencingMarker env past mk mgr) = MaxPastMarkerDistance mgr"
    by auto
qed

lemma TryExtend_cases:
  assumes "Markers_Get past (seq_ID x) = Some i" and "markers_ok past"
  obtains (kept) h where "TryExtend env x past inc = ok (x, h, None, False)"
      "\<not> (i = seq_highest x \<and> inc (seq_ID x) i)"
  | (extended) y remaining where "TryExtend env x past inc = ok (y, highest past + 1, remaining, True)"
      "seq_ID y = seq_ID x" "seq_highest y = highest past + 1" "seq_highest x = i"
      "\<And>m. remaining = Some m \<Longrightarrow> markers_ok m" "inc (seq_ID x) i"
proof (cases "i = seq_highest x \<and> inc (seq_ID x) i")
  case False
  with assms(1) show thesis by (intro kept [of "seq_highest x"]) (auto simp: TryExtend_def)
next
  case True
  show thesis
  proof (cases "Markers_Size past > 1")
    case True
    with assms \<open>i = seq_highest x \<and> inc (seq_ID x) i\<close> show thesis
      by (intro extended [of "x\<lparr>seq_highest := highest past + 1, referenced := Referenced_Add env (highest past + 1)
              (fst (Markers_Delete env (seq_ID x) (Markers_Clone env past))) (referenced x)\<rparr>"
            "Some (fst (Markers_Delete env (seq_ID x) (Markers_Clone env past)))"])
        (auto simp: TryExtend_def Let_def)
  next
    case False
    with assms \<open>i = seq_highest x \<and> inc (seq_ID x) i\<close> show thesis
      by (intro extended [of "x\<lparr>seq_highest := highest past + 1\<rparr>" None]) (auto simp: TryExtend_def Let_def)
  qed
qed

lemma extend_loop_outcome:
  assumes past: "markers_ok past" and h: "highest past \<noteq> - 1"
  shows "manager_ok env mgr \<Longrightarrow> (\<And>s i. (s, i) \<in> set es \<Longrightarrow> Markers_Get past s \<noteq> None) \<Longrightarrow>
    extend_outcome env mgr past (extend_loop env past inc es mgr)"
proof (induction es arbitrary: mgr)
  case (Cons e es)
  obtain s j where e: "e = (s, j)" by (cases e)
  obtain i where i: "Markers_Get past s = Some i" using Cons.prems(2) e by fastforce
  have IH: "extend_outcome env m past (extend_loop env past inc es m)" if "manager_ok env m" for m
    by (rule Cons.IH [OF that]) (meson Cons.prems(2) list.set_intros(2))
  show ?case
  proof (cases "Manager_Sequence env mgr s")
    case None
    with IH [OF Cons.prems(1)] e show ?thesis by simp
  next
    case (Some x)
    then have x: "seq_ID x = s" "s \<le> sequenceIDCounter mgr" using Cons.prems(1) by (auto simp: manager_ok_def)
    with i have i': "Markers_Get past (seq_ID x) = Some i" by simp
    from i' past show ?thesis
    proof (cases rule: TryExtend_cases [where inc = inc])
      case (kept h)
      let ?m = "Manager_put env x mgr"
      have ok': "manager_ok env ?m" and same: "heights env ?m = heights env mgr"
        using Cons.prems(1) Some x by (auto simp: manager_ok_put heights_put heights_def fun_eq_iff)
      have "extend_outcome env mgr past (extend_loop env past inc es ?m)"
        by (rule extend_outcome_same [OF IH [OF ok'] same]) simp_all
      with Some kept e show ?thesis by (simp add: Let_def)
    next
      case (extended y remaining)
      let ?m = "Manager_put env y mgr" and ?mk = "NewMarker s (highest past + 1)"
      have ok': "manager_ok env ?m" using Cons.prems(1) extended x by (simp add: manager_ok_put)
      note reg = register_keeps [OF ok' extended(5), of remaining ?mk]
      have less: "k < highest past + 1" if "Markers_Get past t = Some k" for t k
        using highest_ge [OF past that] h by (intro word_less_Suc)
      have hs: "heights env mgr s = Some i" using Some extended by (simp add: heights_def)
      have "assigns env mgr past ?mk (registerReferencingMarker env remaining ?mk ?m)"
        using extended x less [OF i] less by (simp add: assigns_def reg heights_put hs)
      with Some extended e reg show ?thesis by (simp add: extend_outcome_def Let_def)
    qed
  qed
qed (simp add: extend_outcome_def)

lemma createSequence_outcome:
  assumes ok: "manager_ok env mgr" and past: "markers_ok (PastMarkers d)"
    and h: "highest (PastMarkers d) \<noteq> - 1" and c: "sequenceIDCounter mgr \<noteq> - 1"
    and gap: "\<not> PastMarkerGap d < MaxPastMarkerDistance mgr"
  obtains mgr' mk where "createSequenceIfNecessary env mgr d = (mgr', Some mk)" "manager_ok env mgr'"
    "assigns env mgr (PastMarkers d) mk mgr'" "MaxPastMarkerDistance mgr' = MaxPastMarkerDistance mgr"
proof -
  let ?k = "sequenceIDCounter mgr + 1"
  let ?x = "NewSequence env ?k (PastMarkers d)"
  let ?m1 = "mgr\<lparr>sequenceIDCounter := ?k\<rparr>"
  let ?m2 = "Manager_put env ?x ?m1"
  let ?mk = "NewMarker ?k (highest (PastMarkers d) + 1)"
  have lt: "sequenceIDCounter mgr < ?k" using c by (intro word_less_Suc) simp_all
  have k0: "?k \<noteq> 0" using c by (metis add.commute add_eq_0_iff)
  have x: "seq_ID ?x = ?k" "seq_lowest ?x = highest (PastMarkers d) + 1" "seq_highest ?x = highest (PastMarkers d) + 1"
    using k0 by (simp_all add: NewSequence_def Let_def)
  have same: "Manager_Sequence env ?m1 = Manager_Sequence env mgr"
    by (simp add: Manager_Sequence_def fun_eq_iff)
  have ok1: "manager_ok env ?m1"
    using ok lt by (auto simp: manager_ok_def same intro: order.trans [OF _ less_imp_le])
  then have ok2: "manager_ok env ?m2" by (rule manager_ok_put) (simp add: x)
  have none: "heights env mgr ?k = None"
    using ok lt by (cases "Manager_Sequence env mgr ?k") (auto simp: heights_def manager_ok_def dest: leD)
  have hm: "heights env ?m1 = heights env mgr" by (simp add: heights_def same fun_eq_iff)
  note reg = register_keeps [OF ok2, of "Some (PastMarkers d)" ?mk]
  have less: "i < highest (PastMarkers d) + 1" if "Markers_Get (PastMarkers d) s = Some i" for s i
    using highest_ge [OF past that] h by (intro word_less_Suc)
  show thesis
  proof (rule that)
    show "createSequenceIfNecessary env mgr d =
        (registerReferencingMarker env (Some (PastMarkers d)) ?mk ?m2, Some ?mk)"
      using gap by (simp add: createSequenceIfNecessary_def Let_def x)
  qed (use past reg less in \<open>auto simp: assigns_def heights_put x hm none\<close>)
qed

lemma assignMarker_outcome:
  assumes ok: "manager_ok env mgr" and past: "markers_ok (PastMarkers d)"
    and h: "highest (PastMarkers d) \<noteq> - 1" and c: "sequenceIDCounter mgr \<noteq> - 1" and new: "\<not> IsPastMarker d"
  shows "\<exists>mgr' d' created. assignMarker env mgr d inc = ok (mgr', d', created) \<and> manager_ok env mgr' \<and>
    (if IsPastMarker d'
     then \<exists>mk. PastMarkers d' = NewMarkers env [mk] \<and> PastMarkerGap d' = 0 \<and> assigns env mgr (PastMarkers d) mk mgr'
     else d' = d \<and> PastMarkerGap d < MaxPastMarkerDistance mgr \<and> heights env mgr' = heights env mgr)"
proof -
  have "extend_outcome env mgr (PastMarkers d) (extendHighestAvailableSequence env mgr (PastMarkers d) inc)"
    unfolding extendHighestAvailableSequence_def
    using extend_loop_outcome [OF past h ok] lists_sorted [OF past]
    by (metis lists_def map_of_eq_None_iff fst_conv image_eqI)
  then obtain mgr1 new where ex: "extendHighestAvailableSequence env mgr (PastMarkers d) inc = ok (mgr1, new)"
    and ok1: "manager_ok env mgr1" and c1: "sequenceIDCounter mgr1 = sequenceIDCounter mgr"
    and m1: "MaxPastMarkerDistance mgr1 = MaxPastMarkerDistance mgr"
    and n1: "case new of None \<Rightarrow> heights env mgr1 = heights env mgr
       | Some mk \<Rightarrow> assigns env mgr (PastMarkers d) mk mgr1"
    by (auto simp: extend_outcome_def)
  show ?thesis
  proof (cases new)
    case (Some mk)
    with ex ok1 n1 show ?thesis by (auto simp: assignMarker_def)
  next
    case None
    then have h1: "heights env mgr1 = heights env mgr" using n1 by simp
    show ?thesis
    proof (cases "PastMarkerGap d < MaxPastMarkerDistance mgr")
      case True
      then have "assignMarker env mgr d inc = ok (mgr1, d, False)"
        using None ex m1 by (simp add: assignMarker_def createSequenceIfNecessary_def)
      with ok1 h1 assms(5) True show ?thesis by auto
    next
      case False
      with createSequence_outcome [OF ok1 past h] c c1 m1 obtain mgr2 mk
        where cr: "createSequenceIfNecessary env mgr1 d = (mgr2, Some mk)" and ok2: "manager_ok env mgr2"
          and as: "assigns env mgr1 (PastMarkers d) mk mgr2"
        by metis
      have "assigns env mgr (PastMarkers d) mk mgr2" using as unfolding assigns_def h1 .
      with None ex cr ok2 show ?thesis by (auto simp: assignMarker_def)
    qed
  qed
qed

end

section \<open>Merging parents\<close>

lemma Max_insert_fold:
  fixes f :: "'a \<Rightarrow> 'b :: linorder"
  shows "fold (\<lambda>p v. max v (f p)) ps b = Max (insert b (f ` set ps))"
proof (induction ps arbitrary: b)
  case (Cons p ps)
  have "insert (max b (f p)) (f ` set ps) \<noteq> {}" by simp
  have "Max (insert (max b (f p)) (f ` set ps)) = Max (insert b (insert (f p) (f ` set ps)))"
    by (cases "ps = []") (auto simp: max.assoc)
  with Cons show ?case by simp
qed simp

lemma Min_insert_fold:
  fixes f :: "'a \<Rightarrow> 'b :: linorder"
  shows "fold (\<lambda>p v. min v (f p)) ps b = Min (insert b (f ` set ps))"
proof (induction ps arbitrary: b)
  case (Cons p ps)
  have "Min (insert (min b (f p)) (f ` set ps)) = Min (insert b (insert (f p) (f ` set ps)))"
    by (cases "ps = []") (auto simp: min.assoc)
  with Cons show ?case by simp
qed simp

context go_ranges
begin

lemma mergeParent_simps:
  "PastMarkers (mergeParent env p m) = Markers_Merge env (Some (PastMarkers p)) (PastMarkers m)"
  "PastMarkerGap (mergeParent env p m) = min (PastMarkerGap m) (PastMarkerGap p)"
  "Rank (mergeParent env p m) = max (Rank m) (Rank p)"
  "IsPastMarker (mergeParent env p m) = IsPastMarker m"
  by (auto simp: mergeParent_def Let_def min_def max_def)

lemma fold_mergeParent:
  assumes "\<And>p. p \<in> set ps \<Longrightarrow> markers_ok (PastMarkers p)"
  shows "PastMarkerGap (fold (mergeParent env) ps m) = fold (\<lambda>p v. min v (PastMarkerGap p)) ps (PastMarkerGap m)"
    and "Rank (fold (mergeParent env) ps m) = fold (\<lambda>p v. max v (Rank p)) ps (Rank m)"
    and "Markers_Get (PastMarkers (fold (mergeParent env) ps m)) s =
      fold (\<lambda>p v. max v (Markers_Get (PastMarkers p) s)) ps (Markers_Get (PastMarkers m) s)"
    and "IsPastMarker (fold (mergeParent env) ps m) = IsPastMarker m"
    and "markers_ok (PastMarkers m) \<Longrightarrow> markers_ok (PastMarkers (fold (mergeParent env) ps m))"
  using assms by (induction ps arbitrary: m) (auto simp: mergeParent_simps Get_Merge ok_Merge)

lemma mergeParents_values:
  assumes "\<And>p. p \<in> set ps \<Longrightarrow> markers_ok (PastMarkers p)"
  shows "markers_ok (PastMarkers (mergeParentStructureDetails env ps))"
    and "Markers_Get (PastMarkers (mergeParentStructureDetails env ps)) s =
      Max (insert None ((\<lambda>p. Markers_Get (PastMarkers p) s) ` set ps))"
    and "Rank (mergeParentStructureDetails env ps) = Max (insert 0 (Rank ` set ps)) + 1"
    and "PastMarkerGap (mergeParentStructureDetails env ps) = Min (insert (- 1) (PastMarkerGap ` set ps)) + 1"
    and "\<not> IsPastMarker (mergeParentStructureDetails env ps)"
  using assms
  by (simp_all add: mergeParentStructureDetails_def Let_def fold_mergeParent NewStructureDetails_def
      Max_insert_fold Min_insert_fold)

end

section \<open>Runs of the manager\<close>

text \<open>The counters are not at the end of their range, so that the increments do not wrap.\<close>

definition in_range :: "'s Manager \<Rightarrow> StructureDetails list \<Rightarrow> bool" where
  "in_range mgr parents \<longleftrightarrow> sequenceIDCounter mgr \<noteq> - 1 \<and>
     (\<forall>p\<in>set parents. markers_ok (PastMarkers p) \<and> highest (PastMarkers p) \<noteq> - 1)"

inductive inherit_run ::
    "('t, 'w, 's, 'z) manager_env_scheme \<Rightarrow> 's Manager \<Rightarrow> Marker list \<Rightarrow> 's Manager \<Rightarrow> bool" for env where
  idle: "inherit_run env mgr [] mgr"
| unmarked: "in_range mgr parents \<Longrightarrow>
    InheritStructureDetails env mgr parents inc = Some (Inr (mgr1, d, created)) \<Longrightarrow> \<not> IsPastMarker d \<Longrightarrow>
    inherit_run env mgr1 ms mgr2 \<Longrightarrow> inherit_run env mgr ms mgr2"
| marked: "in_range mgr parents \<Longrightarrow>
    InheritStructureDetails env mgr parents inc = Some (Inr (mgr1, d, created)) \<Longrightarrow> IsPastMarker d \<Longrightarrow>
    Markers_Marker (PastMarkers d) = Inr mk \<Longrightarrow>
    inherit_run env mgr1 ms mgr2 \<Longrightarrow> inherit_run env mgr (mk # ms) mgr2"

lemma Markers_Marker_single [simp]: "Markers_Marker (NewMarkers env [mk]) = Inr mk"
  by (simp add: NewMarkers_def Markers_Set_def emptyMarkers_def Markers_Marker_def NewMarker_def)

lemma markers_ok_NewMarkers [simp]: "markers_ok (NewMarkers env ms)"
proof -
  have "markers_ok (fold (\<lambda>k m. fst (Markers_Set env (marker_SequenceID k) (marker_Index k) m)) ms m)"
    if "markers_ok m" for m
    using that by (induction ms arbitrary: m) auto
  then show ?thesis by (simp add: NewMarkers_def)
qed

lemma highest_NewMarkers_single: "highest (NewMarkers env [mk]) = marker_Index mk"
  by (simp add: NewMarkers_def Markers_Set_def emptyMarkers_def word_gt_0)

context marker_machine
begin

lemma normalizeMarkers_terminates: "normalizeMarkers env mgr m \<noteq> None"
  by (simp add: normalizeMarkers_def normalize_loop_terminates del: not_None_eq)

lemma map_le_trans_Some: "f \<subseteq>\<^sub>m g \<Longrightarrow> f s = Some i \<Longrightarrow> g s = Some i"
  by (metis domI map_le_def)

lemma highest_merged:
  assumes "\<And>p. p \<in> set ps \<Longrightarrow> markers_ok (PastMarkers p) \<and> highest (PastMarkers p) \<noteq> - 1"
    and "Markers_Get (PastMarkers (mergeParentStructureDetails env ps)) s = Some i"
  shows "i \<noteq> - 1"
proof -
  have m: "Max (insert None ((\<lambda>p. Markers_Get (PastMarkers p) s) ` set ps)) = Some i"
    using assms mergeParents_values(2) by metis
  have "Max (insert None ((\<lambda>p. Markers_Get (PastMarkers p) s) ` set ps)) \<in>
      insert None ((\<lambda>p. Markers_Get (PastMarkers p) s) ` set ps)"
    by (rule Max_in) auto
  then obtain p where p: "p \<in> set ps" "Markers_Get (PastMarkers p) s = Some i" unfolding m by auto
  have "i \<le> highest (PastMarkers p)" using highest_ge [OF _ p(2)] assms(1) [OF p(1)] by blast
  then show "i \<noteq> - 1" using assms(1) [OF p(1)] word_order.extremum_uniqueI by blast
qed

lemma Inherit_outcome:
  assumes ok: "manager_ok env mgr" and range: "in_range mgr ps"
    and run: "InheritStructureDetails env mgr ps inc = Some (Inr (mgr', d, created))"
  shows "manager_ok env mgr' \<and>
    (if IsPastMarker d
     then \<exists>mk past. PastMarkers d = NewMarkers env [mk] \<and> assigns env mgr past mk mgr'
     else heights env mgr' = heights env mgr)"
proof -
  let ?m = "mergeParentStructureDetails env ps"
  have ps: "\<And>p. p \<in> set ps \<Longrightarrow> markers_ok (PastMarkers p) \<and> highest (PastMarkers p) \<noteq> - 1"
    and c: "sequenceIDCounter mgr \<noteq> - 1"
    using range by (auto simp: in_range_def)
  have ok_m: "markers_ok (PastMarkers ?m)" and new: "\<not> IsPastMarker ?m"
    using mergeParents_values [of ps] ps by auto
  obtain r where r: "normalizeMarkers env mgr (PastMarkers ?m) = Some (Inr r)"
    using run by (cases "normalizeMarkers env mgr (PastMarkers ?m)")
      (auto simp: InheritStructureDetails_def Let_def bindE_eq_Inr_iff)
  define past where "past = (if Markers_Size r = 0 then NewMarkers env [NewMarker 0 0] else r)"
  have as: "assignMarker env mgr (?m\<lparr>PastMarkers := past\<rparr>) inc = Inr (mgr', d, created)"
    using run by (simp add: InheritStructureDetails_def Let_def r past_def)
  note part = normalizeMarkers_part [OF ok_m r]
  have hr: "highest r \<noteq> - 1"
  proof
    assume h: "highest r = - 1"
    with highest_cases [OF part(1)] obtain s where "Markers_Get r s = Some (- 1)" by auto
    with part(2) have "Markers_Get (PastMarkers ?m) s = Some (- 1)" by (rule map_le_trans_Some)
    then show False using highest_merged [of ps s "- 1"] ps by blast
  qed
  have hp: "highest past \<noteq> - 1" and okp: "markers_ok past"
    using hr part(1) by (auto simp: past_def highest_NewMarkers_single)
  have "PastMarkers (?m\<lparr>PastMarkers := past\<rparr>) = past" by simp
  with assignMarker_outcome [OF ok, of "?m\<lparr>PastMarkers := past\<rparr>" inc] okp hp c new as
  show ?thesis by (auto split: if_splits)
qed

lemma run_assigns:
  "inherit_run env mgr ms mgr' \<Longrightarrow> manager_ok env mgr \<Longrightarrow>
   (\<forall>mk\<in>set ms. heights env mgr (marker_SequenceID mk) < Some (marker_Index mk)) \<and>
   sorted_wrt (\<lambda>a b. marker_SequenceID a = marker_SequenceID b \<longrightarrow> marker_Index a < marker_Index b) ms"
proof (induction rule: inherit_run.induct)
  case (unmarked mgr parents inc mgr1 d created ms mgr2)
  have ok1: "manager_ok env mgr1" and h1: "heights env mgr1 = heights env mgr"
    using Inherit_outcome [OF unmarked.prems unmarked.hyps(1,2)] unmarked.hyps(3) by auto
  show ?case using unmarked.IH [OF ok1] unfolding h1 .
next
  case (marked mgr parents inc mgr1 d created mk ms mgr2)
  obtain mk' past where "PastMarkers d = NewMarkers env [mk']" and as': "assigns env mgr past mk' mgr1"
    and ok1: "manager_ok env mgr1"
    using Inherit_outcome [OF marked.prems marked.hyps(1,2)] marked.hyps(3) by auto
  then have as: "assigns env mgr past mk mgr1" using marked.hyps(4) by simp
  have IH: "\<And>m. m \<in> set ms \<Longrightarrow> heights env mgr1 (marker_SequenceID m) < Some (marker_Index m)"
    and sorted: "sorted_wrt (\<lambda>a b. marker_SequenceID a = marker_SequenceID b \<longrightarrow> marker_Index a < marker_Index b) ms"
    using marked.IH [OF ok1] by auto
  have h1: "heights env mgr1 = (heights env mgr)(marker_SequenceID mk \<mapsto> marker_Index mk)"
    and h0: "heights env mgr (marker_SequenceID mk) < Some (marker_Index mk)"
    using as by (auto simp: assigns_def)
  have later: "marker_SequenceID mk = marker_SequenceID m \<longrightarrow> marker_Index mk < marker_Index m" if "m \<in> set ms" for m
    using IH [OF that] by (auto simp: h1)
  have "heights env mgr (marker_SequenceID m) < Some (marker_Index m)" if "m \<in> set ms" for m
  proof (cases "marker_SequenceID m = marker_SequenceID mk")
    case True
    then have "Some (marker_Index mk) < Some (marker_Index m)" using later [OF that] by simp
    with h0 show ?thesis unfolding True by (rule order.strict_trans)
  qed (use IH [OF that] in \<open>simp add: h1\<close>)
  with h0 later sorted show ?case by simp
qed simp

end

end
