(* ===== verification/MarkerMachine.thy ===== *)
theory MarkerMachine
  imports MarkerProperties
begin

text \<open>
  The properties of the markers, over the interfaces of the external packages, and a concrete
  environment in which the witnesses run: finite maps for the storage, a first-in first-out walker
  and sorted threshold maps.
\<close>

section \<open>A concrete environment\<close>

type_synonym list_thresholds = "bool \<times> entries"
type_synonym sequence_map = "SequenceID \<Rightarrow> list_thresholds Sequence option"

definition list_get :: "list_thresholds \<Rightarrow> 64 word \<Rightarrow> index option" where
  "list_get t k =
     (let ks = filter (\<lambda>j. if fst t then k \<le> j else j \<le> k) (map fst (snd t))
      in if ks = [] then None else map_of (snd t) (if fst t then Min (set ks) else Max (set ks)))"

definition markers0 :: "(list_thresholds, Marker list \<times> Marker list, sequence_map) manager_env" where
  "markers0 =
     \<lparr>rangeMarkers = rev, rangeThresholds = rev, newUpper = (True, []), newLower = (False, []),
      thresholdSet = (\<lambda>t k v. (fst t, AList.update k v (snd t))), thresholdGet = list_get,
      loadSequence = (\<lambda>s k. s k), storeSequence = (\<lambda>s x. s(seq_ID x \<mapsto> x)),
      newWalker = ([], []), pushMarker = (\<lambda>(q, seen) m. if m \<in> set seen then (q, seen) else (q @ [m], m # seen)),
      nextMarker = (\<lambda>(q, seen). case q of [] \<Rightarrow> None | m # q' \<Rightarrow> Some (m, (q', seen)))\<rparr>"

lemma list_get_Some: "list_get t k = Some v \<longleftrightarrow>
    (\<exists>j. map_of (snd t) j = Some v \<and> (if fst t then k \<le> j else j \<le> k) \<and>
       (\<forall>i. map_of (snd t) i \<noteq> None \<longrightarrow> (if fst t then k \<le> i else i \<le> k) \<longrightarrow> (if fst t then j \<le> i else i \<le> j)))"
proof -
  define ks where "ks = {j \<in> fst ` set (snd t). if fst t then k \<le> j else j \<le> k}"
  have fin: "finite ks" by (simp add: ks_def)
  have dom: "map_of (snd t) j \<noteq> None \<longleftrightarrow> j \<in> fst ` set (snd t)" for j by (simp add: map_of_eq_None_iff)
  have get: "list_get t k = (if ks = {} then None else map_of (snd t) (if fst t then Min ks else Max ks))"
    by (auto simp: list_get_def ks_def filter_empty_conv Let_def)
  define best where "best = (if fst t then Min ks else Max ks)"
  have best: "j \<in> ks \<and> (\<forall>i\<in>ks. if fst t then j \<le> i else i \<le> j) \<longleftrightarrow> j = best" if "ks \<noteq> {}" for j
  proof (cases "fst t")
    case True
    then show ?thesis unfolding best_def using Min_in [OF fin that] Min_le [OF fin]
      by (simp, metis order.antisym)
  next
    case False
    then show ?thesis unfolding best_def using Max_in [OF fin that] Max_ge [OF fin]
      by (simp, metis order.antisym)
  qed
  have all: "(\<forall>i. map_of (snd t) i \<noteq> None \<longrightarrow> (if fst t then k \<le> i else i \<le> k) \<longrightarrow> Q i) \<longleftrightarrow> (\<forall>i\<in>ks. Q i)" for Q
    unfolding dom ks_def by blast
  have key: "(map_of (snd t) j = Some v \<and> (if fst t then k \<le> j else j \<le> k)) \<longleftrightarrow> (map_of (snd t) j = Some v \<and> j \<in> ks)" for j
    using dom [of j] unfolding ks_def by auto
  have "(\<exists>j. map_of (snd t) j = Some v \<and> (if fst t then k \<le> j else j \<le> k) \<and>
       (\<forall>i. map_of (snd t) i \<noteq> None \<longrightarrow> (if fst t then k \<le> i else i \<le> k) \<longrightarrow> (if fst t then j \<le> i else i \<le> j)))
     \<longleftrightarrow> (\<exists>j. map_of (snd t) j = Some v \<and> j \<in> ks \<and> (\<forall>i\<in>ks. if fst t then j \<le> i else i \<le> j))"
    unfolding all using key by blast
  also have "\<dots> \<longleftrightarrow> list_get t k = Some v"
  proof (cases "ks = {}")
    case False
    with best [OF False] show ?thesis by (auto simp: get best_def)
  qed (simp add: get)
  finally show ?thesis by simp
qed

interpretation t0: threshold_map markers0 fst "\<lambda>t. map_of (snd t)"
  by unfold_locales (auto simp: markers0_def update_conv list_get_Some)

interpretation r0: go_ranges markers0
  by unfold_locales (simp_all add: markers0_def)

interpretation w0: marker_walker markers0 fst "\<lambda>w. set (snd w)"
  by unfold_locales (auto simp: markers0_def split: list.splits if_splits)

interpretation s0: sequence_store markers0
  by unfold_locales (simp add: markers0_def)

interpretation m0: marker_machine markers0 fst "\<lambda>w. set (snd w)" ..

interpretation q0: sequence_references markers0 fst "\<lambda>t. map_of (snd t)" ..

section \<open>Collections of markers\<close>

text \<open>The highest index that a collection caches is the maximum of its indexes, and no
  operation breaks that: not Set, not Delete, which has to search again, not Merge nor Clone,
  whatever the order in which the maps are visited.\<close>

theorem markers_highest_invariant:
  assumes "go_ranges env" and "markers_ok m" and "markers_ok b"
  shows "markers_ok (fst (Markers_Set env s i m)) \<and> markers_ok (fst (Markers_Delete env s m)) \<and>
    markers_ok (Markers_Merge env (Some b) m) \<and> markers_ok (Markers_Clone env m) \<and>
    markers_ok (NewMarkers env ks) \<and>
    (highest m = 0 \<or> (\<exists>t. Markers_Get m t = Some (highest m))) \<and>
    (\<forall>t j. Markers_Get m t = Some j \<longrightarrow> j \<le> highest m)"
  using go_ranges.markers_ok_Delete [OF assms(1,2)] go_ranges.ok_Merge [OF assms(1,2)] assms(2)
    highest_cases [OF assms(2)] highest_ge [OF assms(2)]
  by simp

theorem markers_highest_invariant_witness:
  "markers_ok (fst (Markers_Delete markers0 7 (NewMarkers markers0 [NewMarker 3 4, NewMarker 7 9])))"
  using markers_highest_invariant [OF r0.go_ranges_axioms markers_ok_NewMarkers markers_ok_empty] by blast

text \<open>The lowest index uses 0 for none, so that it depends on the order of insertion as soon as
  a collection holds the marker with index 0: the two collections are equal, and one has the lowest
  index 5, the other 0.\<close>

theorem lowest_depends_on_order:
  "Markers_Equals (NewMarkers env [NewMarker 0 0, NewMarker 1 5]) (NewMarkers env [NewMarker 1 5, NewMarker 0 0]) \<and>
   lowest (NewMarkers env [NewMarker 0 0, NewMarker 1 5]) = 5 \<and>
   lowest (NewMarkers env [NewMarker 1 5, NewMarker 0 0]) = 0"
  by (simp add: NewMarkers_def Markers_Set_def emptyMarkers_def Markers_Equals_def Markers_Size_def
      Markers_Get_def)

section \<open>Parents\<close>

text \<open>The details merged from the parents do not depend on their order or repetition: each
  sequence has the greatest index of any parent, the rank is one above the greatest, and the gap is
  one above the smallest (for no parents, the gap wraps around to 0).\<close>

theorem mergeParents_join:
  assumes "go_ranges env" and "\<And>p. p \<in> set ps \<Longrightarrow> markers_ok (PastMarkers p)"
  shows "Markers_Get (PastMarkers (mergeParentStructureDetails env ps)) s =
      Max (insert None ((\<lambda>p. Markers_Get (PastMarkers p) s) ` set ps)) \<and>
    Rank (mergeParentStructureDetails env ps) = Max (insert 0 (Rank ` set ps)) + 1 \<and>
    PastMarkerGap (mergeParentStructureDetails env ps) = Min (insert (- 1) (PastMarkerGap ` set ps)) + 1"
  using go_ranges.mergeParents_values [OF assms] by blast

definition parent0 :: "SequenceID \<Rightarrow> index \<Rightarrow> 64 word \<Rightarrow> 64 word \<Rightarrow> StructureDetails" where
  "parent0 s i rank gap =
     \<lparr>Rank = rank, PastMarkerGap = gap, IsPastMarker = False, PastMarkers = NewMarkers markers0 [NewMarker s i]\<rparr>"

theorem mergeParents_join_witness:
  "Rank (mergeParentStructureDetails markers0 [parent0 0 1 7 3, parent0 0 2 5 1]) = 8"
proof -
  have "markers_ok (PastMarkers p)" if "p \<in> set [parent0 0 1 7 3, parent0 0 2 5 1]" for p
    using that by (auto simp: parent0_def)
  from mergeParents_join [OF r0.go_ranges_axioms, of "[parent0 0 1 7 3, parent0 0 2 5 1]", OF this]
  show ?thesis by (simp add: parent0_def)
qed

text \<open>C16: when the walker visits every marker once (as the one that normalizeMarkers creates), all sequences are stored
  and later markers of a sequence reference no less than earlier ones, normalizeMarkers returns, and keeps exactly those
  markers whose sequence no marker of the collection reaches at a strictly later index.  A marker that another
  one references at exactly its own index is kept, as the walker does not visit it again.\<close>

theorem normalizeMarkers_exact:
  assumes "marker_machine env pending pushed"
    and "\<And>w m. m \<in> pushed w \<Longrightarrow> pending (pushMarker env w m) = pending w"
    and "markers_ok m" and "references_grow env (sequenceStorage mgr)"
    and "\<And>a. in_markers m a \<or> reached env (sequenceStorage mgr) m a \<Longrightarrow>
      Manager_Sequence env mgr (marker_SequenceID a) \<noteq> None"
  shows "\<exists>r. normalizeMarkers env mgr m = Some (Inr r) \<and>
    (\<forall>s j. Markers_Get r s = Some j \<longleftrightarrow>
       Markers_Get m s = Some j \<and> \<not> (\<exists>k>j. reached env (sequenceStorage mgr) m (NewMarker s k)))"
  by (rule marker_machine.normalizeMarkers_keeps [OF assms])

text \<open>A manager with the sequence 0 up to index 3 and the sequence 1, whose markers reference 0 up
  to index 2.\<close>

definition seq0 :: "list_thresholds Sequence" where
  "seq0 = \<lparr>seq_ID = 0, referenced = [], referencing = [], seq_lowest = 0, seq_highest = 3\<rparr>"

definition seq1 :: "list_thresholds Sequence" where
  "seq1 = \<lparr>seq_ID = 1, referenced = [(0, (False, [(3, 2)]))], referencing = [], seq_lowest = 3, seq_highest = 4\<rparr>"

definition manager1 :: "sequence_map Manager" where
  "manager1 = \<lparr>sequenceStorage = [0 \<mapsto> seq0, 1 \<mapsto> seq1], sequenceIDCounter = 1, MaxPastMarkerDistance = 3\<rparr>"

lemma push_markers0: "m \<in> set (snd w) \<Longrightarrow> fst (pushMarker markers0 w m) = fst w"
  by (cases w) (simp add: markers0_def)

lemma sequences_manager1: "Manager_Sequence markers0 manager1 = [0 \<mapsto> seq0, 1 \<mapsto> seq1]"
  by (simp add: Manager_Sequence_def markers0_def manager1_def fun_eq_iff)

lemma references_manager1:
  "references markers0 (sequenceStorage manager1) a b \<longleftrightarrow>
     marker_SequenceID a = 1 \<and> 3 \<le> marker_Index a \<and> b = NewMarker 0 2"
  by (cases b)
    (auto simp: references_def manager1_def markers0_def seq0_def seq1_def Sequence_ReferencedMarkers_def
      References_Get_def list_get_def Markers_Set_def emptyMarkers_def Markers_Get_def NewMarker_def
      split: if_splits)

lemma reached_manager1:
  "reached markers0 (sequenceStorage manager1) m a \<Longrightarrow> a = NewMarker 0 2"
proof -
  have "(references markers0 (sequenceStorage manager1))\<^sup>+\<^sup>+ x y \<Longrightarrow> y = NewMarker 0 2" for x y
    by (induction rule: tranclp_induct) (auto simp: references_manager1)
  then show "reached markers0 (sequenceStorage manager1) m a \<Longrightarrow> a = NewMarker 0 2"
    by (auto simp: reached_def)
qed

text \<open>The marker 4 of the sequence 1 references the index 2 of the sequence 0: next to it a marker with the index 1
  is removed, and one with the index 2 is kept.\<close>

theorem normalizeMarkers_exact_witness:
  "(\<exists>r. normalizeMarkers markers0 manager1 (NewMarkers markers0 [NewMarker 0 1, NewMarker 1 4]) = Some (Inr r) \<and>
     Markers_Get r 1 = Some 4 \<and> Markers_Get r 0 = None) \<and>
   (\<exists>r. normalizeMarkers markers0 manager1 (NewMarkers markers0 [NewMarker 0 2, NewMarker 1 4]) = Some (Inr r) \<and>
     Markers_Get r 1 = Some 4 \<and> Markers_Get r 0 = Some 2)"
proof -
  have run: "\<exists>r. normalizeMarkers markers0 manager1 (NewMarkers markers0 [NewMarker 0 i, NewMarker 1 4]) = Some (Inr r) \<and>
      Markers_Get r 1 = Some 4 \<and> (Markers_Get r 0 = Some i \<longleftrightarrow> \<not> i < 2) \<and> (\<forall>j. Markers_Get r 0 = Some j \<longrightarrow> j = i)" for i
  proof -
    let ?m = "NewMarkers markers0 [NewMarker 0 i, NewMarker 1 4]"
    have g: "Markers_Get ?m = [0 \<mapsto> i, 1 \<mapsto> 4]"
      by (auto simp: NewMarkers_def Get_Set fun_eq_iff)
    have grow: "references_grow markers0 (sequenceStorage manager1)"
      by (auto simp: references_grow_def references_manager1)
    have load: "Manager_Sequence markers0 manager1 (marker_SequenceID a) \<noteq> None"
      if "in_markers ?m a \<or> reached markers0 (sequenceStorage manager1) ?m a" for a
      using that reached_manager1 [of ?m a] by (auto simp: in_markers_def g sequences_manager1 split: if_splits)
    have "references markers0 (sequenceStorage manager1) (NewMarker 1 4) (NewMarker 0 2)"
      by (simp add: references_manager1)
    then have hit: "reached markers0 (sequenceStorage manager1) ?m (NewMarker 0 2)"
      by (intro reached_initial) (auto simp: in_markers_def g)
    have only: "reached markers0 (sequenceStorage manager1) ?m (NewMarker s k) \<Longrightarrow> s = 0 \<and> k = 2" for s k
      using reached_manager1 [of ?m "NewMarker s k"] by (auto simp: NewMarker_def)
    from normalizeMarkers_exact [OF m0.marker_machine_axioms push_markers0 markers_ok_NewMarkers grow load]
    obtain r where r: "normalizeMarkers markers0 manager1 ?m = Some (Inr r)"
      "\<And>s j. Markers_Get r s = Some j \<longleftrightarrow> Markers_Get ?m s = Some j \<and>
         \<not> (\<exists>k>j. reached markers0 (sequenceStorage manager1) ?m (NewMarker s k))"
      by blast
    have "Markers_Get r 1 = Some 4" using r(2) [of 1 4] by (auto simp: g dest: only)
    moreover have "Markers_Get r 0 = Some i \<longleftrightarrow> \<not> i < 2" using r(2) [of 0 i] hit by (auto simp: g dest: only)
    moreover have "\<forall>j. Markers_Get r 0 = Some j \<longrightarrow> j = i" using r(2) [of 0] by (auto simp: g)
    ultimately show ?thesis using r(1) by blast
  qed
  obtain r where "normalizeMarkers markers0 manager1 (NewMarkers markers0 [NewMarker 0 1, NewMarker 1 4]) = Some (Inr r)"
      "Markers_Get r 1 = Some 4" "Markers_Get r 0 \<noteq> Some 1" "\<forall>j. Markers_Get r 0 = Some j \<longrightarrow> j = 1"
    using run [of 1] by auto
  moreover from this have "Markers_Get r 0 = None" by (cases "Markers_Get r 0") auto
  moreover have "\<not> (2 :: index) < 2" by simp
  ultimately show ?thesis using run [of 2] by blast
qed

section \<open>Assigned markers\<close>

text \<open>C15: in a run of the manager every marker is assigned at most once, and the markers of a
  sequence are assigned in increasing order, whichever parents the blocks have, as long as no
  counter is at the end of its range.\<close>

theorem marker_assigned_once:
  assumes "marker_machine env pending pushed" and "manager_ok env mgr" and "inherit_run env mgr ms mgr'"
  shows "distinct ms \<and>
    sorted_wrt (\<lambda>a b. marker_SequenceID a = marker_SequenceID b \<longrightarrow> marker_Index a < marker_Index b) ms"
proof -
  have s: "sorted_wrt (\<lambda>a b. marker_SequenceID a = marker_SequenceID b \<longrightarrow> marker_Index a < marker_Index b) ms"
    using marker_machine.run_assigns [OF assms(1,3,2)] by blast
  then have "distinct ms" by (induction ms) auto
  with s show ?thesis by blast
qed

text \<open>A fresh manager, and the manager after two blocks without other parents.\<close>

definition manager0 :: "index \<Rightarrow> sequence_map Manager" where
  "manager0 h =
     \<lparr>sequenceStorage = [0 \<mapsto> \<lparr>seq_ID = 0, referenced = [], referencing = [], seq_lowest = 0, seq_highest = h\<rparr>],
      sequenceIDCounter = 0, MaxPastMarkerDistance = 3\<rparr>"

definition details0 :: "index \<Rightarrow> StructureDetails" where
  "details0 i = \<lparr>Rank = i, PastMarkerGap = 0, IsPastMarker = True, PastMarkers = NewMarkers markers0 [NewMarker 0 i]\<rparr>"

lemma NewManager_manager0: "NewManager markers0 None Map.empty 3 = manager0 0"
  by (simp add: NewManager_def initSequenceIDCounter_def initObjectStorage_def markers0_def manager0_def
      NewSequence_def NewReferencedMarkers_def Markers_ForEach_def Markers_Clone_def emptyMarkers_def)

lemma single_simps [simp]:
  "byID (NewMarkers env [NewMarker s i]) = [(s, i)]" "highest (NewMarkers env [NewMarker s i]) = i"
  "Markers_Size (NewMarkers env [NewMarker s i]) = 1" "Markers_Get (NewMarkers env [NewMarker s i]) s = Some i"
  by (simp_all add: NewMarkers_def Markers_Set_def emptyMarkers_def Markers_Size_def Markers_Get_def word_gt_0)

lemma Clone_single [simp]:
  "Markers_Clone markers0 (NewMarkers markers0 [NewMarker s i]) = NewMarkers markers0 [NewMarker s i]"
  by (simp add: Markers_Clone_def NewMarkers_def Markers_Set_def emptyMarkers_def markers0_def word_gt_0)

lemma assign_manager0:
  "assignMarker markers0 (manager0 h)
     \<lparr>Rank = r, PastMarkerGap = g, IsPastMarker = False, PastMarkers = NewMarkers markers0 [NewMarker 0 h]\<rparr> (\<lambda>_ _. True) =
   Inr (manager0 (h + 1), \<lparr>Rank = r, PastMarkerGap = 0, IsPastMarker = True, PastMarkers = NewMarkers markers0 [NewMarker 0 (h + 1)]\<rparr>, False)"
proof -
  have "sortedEntries markers0 (NewMarkers markers0 [NewMarker 0 h]) = [(0, h)]"
    by (simp add: sortedEntries_def) (simp add: markers0_def)
  then have "extendHighestAvailableSequence markers0 (manager0 h) (NewMarkers markers0 [NewMarker 0 h]) (\<lambda>_ _. True) =
      Inr (manager0 (h + 1), Some (NewMarker 0 (h + 1)))"
    by (simp add: extendHighestAvailableSequence_def TryExtend_def registerReferencingMarker_def Markers_ForEach_def)
      (simp add: manager0_def Manager_Sequence_def Manager_put_def markers0_def TryExtend_def Markers_Get_def
        Markers_Size_def registerReferencingMarker_def Markers_ForEach_def)
  then show ?thesis by (simp add: assignMarker_def)
qed

lemma range_markers0 [simp]: "rangeMarkers markers0 es = rev es" "rangeThresholds markers0 ts = rev ts"
  by (simp_all add: markers0_def)

lemma ForEach_single [simp]:
  "Markers_ForEach markers0 (Some (NewMarkers markers0 [NewMarker s i])) f x =
     (case f s i x of (x1, go) \<Rightarrow> if go then (x1, True) else (x1, False))"
  by (simp add: Markers_ForEach_def split: prod.split)

lemma ForEach_empty [simp]: "Markers_ForEach markers0 (Some emptyMarkers) f x = (x, True)"
  by (simp add: Markers_ForEach_def Markers_Clone_def emptyMarkers_def markers0_def)

lemma push_next0 [simp]:
  "nextMarker markers0 (pushMarker markers0 (newWalker markers0) m) = Some (m, ([], [m]))"
  "nextMarker markers0 ([], ms) = None" "nextMarker markers0 (newWalker markers0) = None"
  by (simp_all add: markers0_def)

lemma load_manager0 [simp]:
  "loadSequence markers0 (sequenceStorage (manager0 h)) 0 =
     Some \<lparr>seq_ID = 0, referenced = [], referencing = [], seq_lowest = 0, seq_highest = h\<rparr>"
  by (simp add: manager0_def markers0_def)

lemma normalize_empty0: "normalizeMarkers markers0 (manager0 h) emptyMarkers = Some (Inr emptyMarkers)"
  by (simp add: normalizeMarkers_def pushMarkers_def normalize_loop.simps)
    (simp add: Markers_Clone_def emptyMarkers_def markers0_def)

lemma normalize_single0:
  "normalizeMarkers markers0 (manager0 h) (NewMarkers markers0 [NewMarker 0 i]) = Some (Inr (NewMarkers markers0 [NewMarker 0 i]))"
proof -
  have "pushMarkers markers0 (Sequence_ReferencedMarkers markers0
      \<lparr>seq_ID = 0, referenced = [], referencing = [], seq_lowest = 0, seq_highest = h\<rparr> i) w = w" for w
    by (simp add: pushMarkers_def Sequence_ReferencedMarkers_def References_Get_def)
  then show ?thesis
    by (simp add: normalizeMarkers_def pushMarkers_def normalize_loop.simps normalize_visit_def)
qed

lemma Merge_single [simp]:
  "Markers_Merge markers0 (Some (NewMarkers markers0 [NewMarker s i])) emptyMarkers = NewMarkers markers0 [NewMarker s i]"
  by (simp add: Markers_Merge_def) (simp add: NewMarkers_def)

lemma inherit_first:
  "InheritStructureDetails markers0 (manager0 0) [] (\<lambda>_ _. True) = Some (Inr (manager0 1, details0 1, False))"
  using assign_manager0 [of 0 1 0]
  by (simp add: InheritStructureDetails_def mergeParentStructureDetails_def NewStructureDetails_def normalize_empty0
      details0_def Markers_Size_def [of emptyMarkers] emptyMarkers_def [THEN arg_cong [of _ _ byID]])

lemma merge_next:
  "mergeParentStructureDetails markers0 [details0 1] =
     \<lparr>Rank = 2, PastMarkerGap = 1, IsPastMarker = False, PastMarkers = NewMarkers markers0 [NewMarker 0 1]\<rparr>"
  by (simp add: mergeParentStructureDetails_def mergeParent_def NewStructureDetails_def details0_def Let_def word_gt_0)

lemma inherit_next:
  "InheritStructureDetails markers0 (manager0 1) [details0 1] (\<lambda>_ _. True) = Some (Inr (manager0 2, details0 2, False))"
  unfolding InheritStructureDetails_def merge_next Let_def
  using assign_manager0 [of 1 2 1] by (simp add: normalize_single0 details0_def)

lemma run0: "inherit_run markers0 (manager0 0) [NewMarker 0 1, NewMarker 0 2] (manager0 2)"
proof (rule inherit_run.marked [OF _ inherit_first], goal_cases)
  case 4
  show ?case
  proof (rule inherit_run.marked [OF _ inherit_next], goal_cases)
    case 4
    show ?case by (rule inherit_run.idle)
  qed (auto simp: in_range_def details0_def manager0_def)
qed (auto simp: in_range_def details0_def manager0_def)

lemma manager_ok0: "manager_ok markers0 (manager0 h)"
  by (simp add: manager_ok_def Manager_Sequence_def manager0_def) (simp add: markers0_def)

theorem marker_assigned_once_witness: "distinct [NewMarker 0 1, NewMarker 0 2]"
  using marker_assigned_once [OF m0.marker_machine_axioms manager_ok0 run0] by blast

text \<open>C30: an extended sequence has a higher index than before; the new marker references the markers
  of the other sequences that it was given, and no earlier marker references anything new.\<close>

theorem extension_records_references:
  assumes "sequence_references env upper stored" and "sequence_ok upper stored x" and "markers_ok past"
    and "highest past \<noteq> - 1" and "TryExtend env x past inc = ok (y, idx, remaining, True)"
  shows "sequence_ok upper stored y \<and> idx = highest past + 1 \<and> seq_highest y = idx \<and> seq_highest x < idx \<and>
    (\<forall>j s. Markers_Get (Sequence_ReferencedMarkers env y j) s =
       (case others x past s of
          Some v \<Rightarrow> if idx \<le> j then Some v else Markers_Get (Sequence_ReferencedMarkers env x j) s
        | None \<Rightarrow> Markers_Get (Sequence_ReferencedMarkers env x j) s))"
  by (rule sequence_references.TryExtend_records [OF assms])

definition past1 :: Markers where
  "past1 = NewMarkers markers0 [NewMarker 0 3, NewMarker 1 4]"

lemma past1_extends:
  "\<exists>y r. TryExtend markers0 seq1 past1 (\<lambda>_ _. True) = ok (y, 5, r, True)"
  by (simp add: TryExtend_def past1_def NewMarkers_def Markers_Set_def emptyMarkers_def Markers_Get_def seq1_def
      NewMarker_def Markers_Size_def Let_def)

theorem extension_records_references_witness:
  "\<exists>y r. TryExtend markers0 seq1 past1 (\<lambda>_ _. True) = ok (y, 5, r, True) \<and>
     Markers_Get (Sequence_ReferencedMarkers markers0 y 5) 0 = Some 3 \<and>
     Markers_Get (Sequence_ReferencedMarkers markers0 y 4) 0 = Some 2"
proof -
  obtain y r where ex: "TryExtend markers0 seq1 past1 (\<lambda>_ _. True) = ok (y, 5, r, True)"
    using past1_extends by blast
  have ok: "sequence_ok fst (\<lambda>t. map_of (snd t)) seq1"
    by (auto simp: sequence_ok_def lower_keys_def seq1_def split: if_splits)
  have past: "markers_ok past1" "highest past1 \<noteq> - 1" "others seq1 past1 0 = Some 3"
    by (simp_all add: past1_def NewMarkers_def Markers_Set_def emptyMarkers_def others_def seq1_def
        Markers_Get_def NewMarker_def markers_ok_def top_index_def)
  have old: "Markers_Get (Sequence_ReferencedMarkers markers0 seq1 4) 0 = Some 2"
    by (simp add: Sequence_ReferencedMarkers_def seq1_def q0.Get_References) (simp add: markers0_def list_get_def)
  from extension_records_references [OF q0.sequence_references_axioms ok past(1,2) ex] past(3) old ex
  show ?thesis by force
qed

end
