(* ===== verification/ConflictDAG.thy ===== *)
theory ConflictDAG
  imports Foundation
begin

text \<open>
  The DAG of conflicts (packages/core/conflictdag: conflictdag.go, utils.go, types.go).

  A conflict belongs to conflict sets, named by the resources that its members compete for, and
  depends on parent conflicts.  The three object storages are one value of the type parameter
  's, with the operations of the record conflict_env: conflicts by identifier, the
  children registered under a parent, and the members registered under a resource, in the order in
  which the storage iterates over them.  An AdvancedSet is a set and the order of its iterator a
  field of the record, and so are the walkers over conflicts and over resources.  The events that
  an operation triggers are returned, in order.  The type confirmation.State is external: its four
  named values are constructors, and its zero value and Aggregate are fields.
\<close>

datatype State = Pending | Rejected | Accepted | Confirmed | OtherState nat

definition IsAccepted :: "State \<Rightarrow> bool" where
  "IsAccepted st = (st = Accepted \<or> st = Confirmed)"

definition IsRejected :: "State \<Rightarrow> bool" where
  "IsRejected st = (st = Rejected)"

record ('c, 'r) Conflict =
  con_ID :: 'c
  Parents :: "'c set"
  ConflictSetIDs :: "'r set"
  con_State :: State

record ('c, 'r, 's, 'w, 'v) conflict_env =
  loadConflict :: "'s \<Rightarrow> 'c \<Rightarrow> ('c, 'r) Conflict option"
  storeConflict :: "'s \<Rightarrow> ('c, 'r) Conflict \<Rightarrow> 's"
  childConflicts :: "'s \<Rightarrow> 'c \<Rightarrow> 'c list"
  storeChild :: "'s \<Rightarrow> 'c \<Rightarrow> 'c \<Rightarrow> 's"
  deleteChild :: "'s \<Rightarrow> 'c \<Rightarrow> 'c \<Rightarrow> 's"
  conflictMembers :: "'s \<Rightarrow> 'r \<Rightarrow> 'c list"
  storeMember :: "'s \<Rightarrow> 'r \<Rightarrow> 'c \<Rightarrow> 's"
  conflictElems :: "'c set \<Rightarrow> 'c list"
  resourceElems :: "'r set \<Rightarrow> 'r list"
  newWalk :: 'w
  pushWalk :: "'w \<Rightarrow> 'c \<Rightarrow> 'w"
  nextWalk :: "'w \<Rightarrow> ('c \<times> 'w) option"
  newSetWalk :: 'v
  pushSetWalk :: "'v \<Rightarrow> 'r \<Rightarrow> 'v"
  nextSetWalk :: "'v \<Rightarrow> ('r \<times> 'v) option"
  zeroState :: State
  aggregate :: "State \<Rightarrow> State \<Rightarrow> State"

datatype ('c, 'r) dag_event =
    ConflictCreated 'c "'c set" "'r set"
  | ConflictParentsUpdated 'c 'c "'c set" "'c set"
  | ConflictConflictsUpdated 'c "'r set"
  | ConflictAccepted 'c
  | ConflictRejected 'c

section \<open>Conflicts\<close>

definition NewConflict :: "'c \<Rightarrow> 'c set \<Rightarrow> 'r set \<Rightarrow> ('c, 'r) Conflict" where
  "NewConflict i parents conflictSetIDs =
     \<lparr>con_ID = i, Parents = parents, ConflictSetIDs = conflictSetIDs, con_State = Pending\<rparr>"

definition SetParents :: "'c set \<Rightarrow> ('c, 'r) Conflict \<Rightarrow> ('c, 'r) Conflict" where
  "SetParents parents c = c\<lparr>Parents := parents\<rparr>"

definition addConflict :: "'r \<Rightarrow> ('c, 'r) Conflict \<Rightarrow> ('c, 'r) Conflict \<times> bool" where
  "addConflict r c = (c\<lparr>ConflictSetIDs := insert r (ConflictSetIDs c)\<rparr>, r \<notin> ConflictSetIDs c)"

definition setConfirmationState :: "State \<Rightarrow> ('c, 'r) Conflict \<Rightarrow> ('c, 'r) Conflict \<times> bool" where
  "setConfirmationState st c =
     (if con_State c = st then (c, False) else (c\<lparr>con_State := st\<rparr>, True))"

section \<open>References\<close>

definition addConflictMembers ::
    "('c, 'r, 's, 'w, 'v, 'z) conflict_env_scheme \<Rightarrow> 's \<Rightarrow> ('c, 'r) Conflict \<Rightarrow> 'r set \<Rightarrow>
     's \<times> ('c, 'r) Conflict \<times> bool" where
  "addConflictMembers env s c resources =
     fold (\<lambda>r (s, c, _).
             case addConflict r c of
               (c1, added) \<Rightarrow> (if added then storeMember env s r (con_ID c1) else s, c1, added))
       (resourceElems env resources) (s, c, False)"

definition createChildConflictReferences ::
    "('c, 'r, 's, 'w, 'v, 'z) conflict_env_scheme \<Rightarrow> 'c set \<Rightarrow> 'c \<Rightarrow> 's \<Rightarrow> 's" where
  "createChildConflictReferences env parents child s =
     fold (\<lambda>p s. storeChild env s p child) (conflictElems env parents) s"

definition removeChildConflictReferences ::
    "('c, 'r, 's, 'w, 'v, 'z) conflict_env_scheme \<Rightarrow> 'c set \<Rightarrow> 'c \<Rightarrow> 's \<Rightarrow> 's" where
  "removeChildConflictReferences env parents child s =
     fold (\<lambda>p s. deleteChild env s p child) (conflictElems env parents) s"

definition confirmationState ::
    "('c, 'r, 's, 'w, 'v, 'z) conflict_env_scheme \<Rightarrow> 's \<Rightarrow> 'c \<Rightarrow> State" where
  "confirmationState env s i = (case loadConflict env s i of Some c \<Rightarrow> con_State c | None \<Rightarrow> zeroState env)"

text \<open>
  forEachConflictingConflictID visits the members of the conflict sets of a conflict until the
  callback returns false; a conflict that shares several sets is visited several times.
\<close>

fun visitMembers :: "('c \<Rightarrow> 'x \<Rightarrow> 'x \<times> bool) \<Rightarrow> 'c \<Rightarrow> 'c list \<Rightarrow> 'x \<times> bool \<Rightarrow> 'x \<times> bool" where
  "visitMembers callback self [] (x, abort) = (x, abort)"
| "visitMembers callback self (m # ms) (x, abort) =
     (if abort \<or> m = self then visitMembers callback self ms (x, abort)
      else case callback m x of (x1, go) \<Rightarrow> visitMembers callback self ms (x1, \<not> go))"

fun visitSets ::
    "('c, 'r, 's, 'w, 'v, 'z) conflict_env_scheme \<Rightarrow> 's \<Rightarrow> ('c \<Rightarrow> 'x \<Rightarrow> 'x \<times> bool) \<Rightarrow> 'c \<Rightarrow> 'r list \<Rightarrow> 'x \<Rightarrow> 'x" where
  "visitSets env s callback self [] x = x"
| "visitSets env s callback self (r # rs) x =
     (case visitMembers callback self (conflictMembers env s r) (x, False) of
        (x1, abort) \<Rightarrow> if abort then x1 else visitSets env s callback self rs x1)"

definition forEachConflictingConflictID ::
    "('c, 'r, 's, 'w, 'v, 'z) conflict_env_scheme \<Rightarrow> 's \<Rightarrow> ('c, 'r) Conflict \<Rightarrow> ('c \<Rightarrow> 'x \<Rightarrow> 'x \<times> bool) \<Rightarrow> 'x \<Rightarrow> 'x" where
  "forEachConflictingConflictID env s c callback x =
     visitSets env s callback (con_ID c) (resourceElems env (ConflictSetIDs c)) x"

text \<open>ForEachConflictingConflictID, by the identifier of the conflict.\<close>

definition ForEachConflictingByID ::
    "('c, 'r, 's, 'w, 'v, 'z) conflict_env_scheme \<Rightarrow> 's \<Rightarrow> 'c \<Rightarrow> ('c \<Rightarrow> 'x \<Rightarrow> 'x \<times> bool) \<Rightarrow> 'x \<Rightarrow> 'x" where
  "ForEachConflictingByID env s i callback x =
     (case loadConflict env s i of
        Some c \<Rightarrow> forEachConflictingConflictID env s c callback x
      | None \<Rightarrow> x)"

definition anyParentRejected ::
    "('c, 'r, 's, 'w, 'v, 'z) conflict_env_scheme \<Rightarrow> 's \<Rightarrow> ('c, 'r) Conflict \<Rightarrow> bool" where
  "anyParentRejected env s c =
     list_ex (\<lambda>p. IsRejected (confirmationState env s p)) (conflictElems env (Parents c))"

definition anyConflictingConflictAccepted ::
    "('c, 'r, 's, 'w, 'v, 'z) conflict_env_scheme \<Rightarrow> 's \<Rightarrow> ('c, 'r) Conflict \<Rightarrow> bool" where
  "anyConflictingConflictAccepted env s c =
     forEachConflictingConflictID env s c
       (\<lambda>m _. let anyConfirmed = IsAccepted (confirmationState env s m) in (anyConfirmed, \<not> anyConfirmed)) False"

section \<open>Operations\<close>

definition CreateConflict ::
    "('c, 'r, 's, 'w, 'v, 'z) conflict_env_scheme \<Rightarrow> 'c \<Rightarrow> 'c set \<Rightarrow> 'r set \<Rightarrow> 's \<Rightarrow>
     's \<times> bool \<times> ('c, 'r) dag_event list" where
  "CreateConflict env i parents conflictingResources s =
     (case loadConflict env s i of
        Some _ \<Rightarrow> (s, False, [])
      | None \<Rightarrow>
          (case addConflictMembers env s (NewConflict i parents {}) conflictingResources of
             (s1, c1, _) \<Rightarrow>
               let s2 = createChildConflictReferences env parents i s1;
                   c2 = (if anyParentRejected env s2 c1 \<or> anyConflictingConflictAccepted env s2 c1
                         then fst (setConfirmationState Rejected c1) else c1)
               in (storeConflict env s2 c2, True, [ConflictCreated i parents conflictingResources])))"

definition UpdateConflictParents ::
    "('c, 'r, 's, 'w, 'v, 'z) conflict_env_scheme \<Rightarrow> 'c \<Rightarrow> 'c set \<Rightarrow> 'c \<Rightarrow> 's \<Rightarrow>
     's \<times> bool \<times> ('c, 'r) dag_event list" where
  "UpdateConflictParents env i removed addedConflictID s =
     (case loadConflict env s i of
        None \<Rightarrow> (s, False, [])
      | Some c \<Rightarrow>
          if addedConflictID \<in> Parents c then (s, False, [])
          else let parents = insert addedConflictID (Parents c);
                   s1 = removeChildConflictReferences env (parents \<inter> removed) i s;
                   s2 = createChildConflictReferences env {addedConflictID} i s1;
                   s3 = storeConflict env s2 (SetParents (parents - removed) c)
               in (s3, True, [ConflictParentsUpdated i addedConflictID removed (parents - removed)]))"

definition UpdateConflictingResources ::
    "('c, 'r, 's, 'w, 'v, 'z) conflict_env_scheme \<Rightarrow> 'c \<Rightarrow> 'r set \<Rightarrow> 's \<Rightarrow>
     's \<times> bool \<times> ('c, 'r) dag_event list" where
  "UpdateConflictingResources env i conflictingResourceIDs s =
     (case loadConflict env s i of
        None \<Rightarrow> (s, False, [])
      | Some c \<Rightarrow>
          (case addConflictMembers env s c conflictingResourceIDs of
             (s1, c1, updated) \<Rightarrow>
               (storeConflict env s1 c1, updated,
                if updated then [ConflictConflictsUpdated i conflictingResourceIDs] else [])))"

definition UnconfirmedConflicts ::
    "('c, 'r, 's, 'w, 'v, 'z) conflict_env_scheme \<Rightarrow> bool \<Rightarrow> 's \<Rightarrow> 'c set \<Rightarrow> 'c set" where
  "UnconfirmedConflicts env mergeToMaster s conflictIDs =
     (if \<not> mergeToMaster then conflictIDs
      else set (filter (\<lambda>i. \<not> IsAccepted (confirmationState env s i)) (conflictElems env conflictIDs)))"

fun aggregateStates ::
    "('c, 'r, 's, 'w, 'v, 'z) conflict_env_scheme \<Rightarrow> 's \<Rightarrow> 'c list \<Rightarrow> State \<Rightarrow> State" where
  "aggregateStates env s [] st = st"
| "aggregateStates env s (i # is') st =
     (let st1 = aggregate env st (confirmationState env s i)
      in if IsRejected st1 then Rejected else aggregateStates env s is' st1)"

definition ConfirmationState ::
    "('c, 'r, 's, 'w, 'v, 'z) conflict_env_scheme \<Rightarrow> 's \<Rightarrow> 'c set \<Rightarrow> State" where
  "ConfirmationState env s conflictIDs = aggregateStates env s (conflictElems env conflictIDs) Confirmed"

section \<open>Accepting a conflict\<close>

text \<open>
  The first loop visits the conflict and its ancestors, the second what conflicts with them and its
  descendants.  The variable modified is overwritten by every visit, and the event of an accepted
  conflict carries the argument conflictID.
\<close>

definition pushConflicting ::
    "('c, 'r, 's, 'w, 'v, 'z) conflict_env_scheme \<Rightarrow> 's \<Rightarrow> ('c, 'r) Conflict \<Rightarrow> 'w \<Rightarrow> 'w" where
  "pushConflicting env s c w = forEachConflictingConflictID env s c (\<lambda>m w. (pushWalk env w m, True)) w"

partial_function (option) accept_loop ::
    "('c, 'r, 's, 'w, 'v, 'z) conflict_env_scheme \<Rightarrow> 'c \<Rightarrow> 's \<Rightarrow> 'w \<Rightarrow> 'w \<Rightarrow> bool \<Rightarrow> ('c, 'r) dag_event list \<Rightarrow>
     ('s \<times> 'w \<times> bool \<times> ('c, 'r) dag_event list) option" where
  "accept_loop env conflictID s confirmation rejection modified events =
     (case nextWalk env confirmation of
        None \<Rightarrow> Some (s, rejection, modified, events)
      | Some (i, confirmation1) \<Rightarrow>
          (case loadConflict env s i of
             None \<Rightarrow> accept_loop env conflictID s confirmation1 rejection modified events
           | Some c \<Rightarrow>
               (case setConfirmationState Accepted c of
                  (c1, modified1) \<Rightarrow>
                    if \<not> modified1 then accept_loop env conflictID s confirmation1 rejection False events
                    else let s1 = storeConflict env s c1
                         in accept_loop env conflictID s1
                              (fold (\<lambda>p w. pushWalk env w p) (conflictElems env (Parents c1)) confirmation1)
                              (pushConflicting env s1 c1 rejection) True
                              (events @ [ConflictAccepted conflictID]))))"

partial_function (option) reject_loop ::
    "('c, 'r, 's, 'w, 'v, 'z) conflict_env_scheme \<Rightarrow> 's \<Rightarrow> 'w \<Rightarrow> bool \<Rightarrow> ('c, 'r) dag_event list \<Rightarrow>
     ('s \<times> bool \<times> ('c, 'r) dag_event list) option" where
  "reject_loop env s rejection modified events =
     (case nextWalk env rejection of
        None \<Rightarrow> Some (s, modified, events)
      | Some (i, rejection1) \<Rightarrow>
          (case loadConflict env s i of
             None \<Rightarrow> reject_loop env s rejection1 modified events
           | Some c \<Rightarrow>
               (case setConfirmationState Rejected c of
                  (c1, modified1) \<Rightarrow>
                    if \<not> modified1 then reject_loop env s rejection1 False events
                    else let s1 = storeConflict env s c1
                         in reject_loop env s1
                              (fold (\<lambda>p w. pushWalk env w p) (childConflicts env s1 (con_ID c1)) rejection1)
                              True (events @ [ConflictRejected (con_ID c1)]))))"

definition SetConflictAccepted ::
    "('c, 'r, 's, 'w, 'v, 'z) conflict_env_scheme \<Rightarrow> 'c \<Rightarrow> 's \<Rightarrow>
     ('s \<times> bool \<times> ('c, 'r) dag_event list) option" where
  "SetConflictAccepted env conflictID s =
     Option.bind
       (accept_loop env conflictID s (pushWalk env (newWalk env) conflictID) (newWalk env) False [])
       (\<lambda>(s1, rejection, modified, events). reject_loop env s1 rejection modified events)"

section \<open>Connected conflicts\<close>

definition queueConflictSets ::
    "('c, 'r, 's, 'w, 'v, 'z) conflict_env_scheme \<Rightarrow> 's \<Rightarrow> 'c \<Rightarrow> 'c set \<times> 'v \<Rightarrow> 'c set \<times> 'v" where
  "queueConflictSets env s i = (\<lambda>(traversed, w).
     if i \<in> traversed then (traversed, w)
     else (insert i traversed,
           case loadConflict env s i of
             Some c \<Rightarrow> fold (\<lambda>r w. pushSetWalk env w r) (resourceElems env (ConflictSetIDs c)) w
           | None \<Rightarrow> w))"

partial_function (option) connected_loop ::
    "('c, 'r, 's, 'w, 'v, 'z) conflict_env_scheme \<Rightarrow> 's \<Rightarrow> 'c set \<times> 'v \<Rightarrow> 'c set option" where
  "connected_loop env s state =
     (case nextSetWalk env (snd state) of
        None \<Rightarrow> Some (fst state)
      | Some (r, w1) \<Rightarrow>
          connected_loop env s (fold (queueConflictSets env s) (conflictMembers env s r) (fst state, w1)))"

text \<open>The conflicts that ForEachConnectedConflictingConflictID visits.\<close>

definition connectedConflicts ::
    "('c, 'r, 's, 'w, 'v, 'z) conflict_env_scheme \<Rightarrow> 's \<Rightarrow> 'c \<Rightarrow> 'c set option" where
  "connectedConflicts env s i = connected_loop env s (queueConflictSets env s i ({}, newSetWalk env))"

end
