(* ===== verification/ConflictLaws.thy ===== *)
theory ConflictLaws
  imports ConflictDAG
begin

text \<open>
  Laws of the conflict DAG: its well-formedness, the consistency of the confirmation states, and
  what the two loops of SetConflictAccepted do.
\<close>

section \<open>Storage and iteration\<close>

locale conflict_storage =
  object_store "loadConflict env" "storeConflict env" con_ID +
  walker "newWalk env" "pushWalk env" "nextWalk env" pending pushed
  for env :: "('c, 'r, 's, 'w, 'v, 'z) conflict_env_scheme"
    and pending :: "'w \<Rightarrow> 'c list" and pushed :: "'w \<Rightarrow> 'c set" +
  assumes store_children [simp]: "childConflicts env (storeConflict env s c) = childConflicts env s"
    and store_members [simp]: "conflictMembers env (storeConflict env s c) = conflictMembers env s"
    and child_load [simp]: "loadConflict env (storeChild env s p k) = loadConflict env s"
    and child_members [simp]: "conflictMembers env (storeChild env s p k) = conflictMembers env s"
    and child_children: "set (childConflicts env (storeChild env s p k) q) =
      (if q = p then insert k (set (childConflicts env s q)) else set (childConflicts env s q))"
    and delete_load [simp]: "loadConflict env (deleteChild env s p k) = loadConflict env s"
    and delete_members [simp]: "conflictMembers env (deleteChild env s p k) = conflictMembers env s"
    and delete_children: "set (childConflicts env (deleteChild env s p k) q) =
      (if q = p then set (childConflicts env s q) - {k} else set (childConflicts env s q))"
    and member_load [simp]: "loadConflict env (storeMember env s r k) = loadConflict env s"
    and member_children [simp]: "childConflicts env (storeMember env s r k) = childConflicts env s"
    and member_members: "set (conflictMembers env (storeMember env s r k) r') =
      (if r' = r then insert k (set (conflictMembers env s r')) else set (conflictMembers env s r'))"
    and conflict_elems: "enumerates (conflictElems env)"
    and resource_elems: "enumerates (resourceElems env)"

text \<open>The relations between conflicts, and the states.\<close>

definition parent :: "('c, 'r, 's, 'w, 'v, 'z) conflict_env_scheme \<Rightarrow> 's \<Rightarrow> 'c \<Rightarrow> 'c \<Rightarrow> bool" where
  "parent env s p i \<longleftrightarrow> (\<exists>c. loadConflict env s i = Some c \<and> p \<in> Parents c)"

definition member :: "('c, 'r, 's, 'w, 'v, 'z) conflict_env_scheme \<Rightarrow> 's \<Rightarrow> 'r \<Rightarrow> 'c \<Rightarrow> bool" where
  "member env s r i \<longleftrightarrow> (\<exists>c. loadConflict env s i = Some c \<and> r \<in> ConflictSetIDs c)"

definition rival :: "('c, 'r, 's, 'w, 'v, 'z) conflict_env_scheme \<Rightarrow> 's \<Rightarrow> 'c \<Rightarrow> 'c \<Rightarrow> bool" where
  "rival env s i j \<longleftrightarrow> i \<noteq> j \<and> (\<exists>r. member env s r i \<and> member env s r j)"

definition has_state :: "('c, 'r, 's, 'w, 'v, 'z) conflict_env_scheme \<Rightarrow> 's \<Rightarrow> State \<Rightarrow> 'c \<Rightarrow> bool" where
  "has_state env s st i \<longleftrightarrow> (\<exists>c. loadConflict env s i = Some c \<and> con_State c = st)"

definition stored :: "('c, 'r, 's, 'w, 'v, 'z) conflict_env_scheme \<Rightarrow> 's \<Rightarrow> 'c set" where
  "stored env s = {i. loadConflict env s i \<noteq> None}"

definition dag_ok :: "('c, 'r, 's, 'w, 'v, 'z) conflict_env_scheme \<Rightarrow> 's \<Rightarrow> bool" where
  "dag_ok env s \<longleftrightarrow>
     finite (stored env s) \<and>
     (\<forall>i c. loadConflict env s i = Some c \<longrightarrow>
        con_ID c = i \<and> finite (Parents c) \<and> finite (ConflictSetIDs c) \<and>
        con_State c \<in> {Pending, Rejected, Accepted}) \<and>
     (\<forall>p i. i \<in> set (childConflicts env s p) \<longleftrightarrow> parent env s p i) \<and>
     (\<forall>r i. i \<in> set (conflictMembers env s r) \<longleftrightarrow> member env s r i)"

text \<open>
  The states are consistent: the children of a rejected conflict are rejected, the parents of an
  accepted one are accepted, and what conflicts with an accepted one is rejected.
\<close>

definition consistent :: "('c, 'r, 's, 'w, 'v, 'z) conflict_env_scheme \<Rightarrow> 's \<Rightarrow> bool" where
  "consistent env s \<longleftrightarrow>
     (\<forall>p i. has_state env s Rejected p \<longrightarrow> parent env s p i \<longrightarrow> has_state env s Rejected i) \<and>
     (\<forall>p i. has_state env s Accepted i \<longrightarrow> parent env s p i \<longrightarrow> p \<in> stored env s \<longrightarrow> has_state env s Accepted p) \<and>
     (\<forall>i j. has_state env s Accepted i \<longrightarrow> rival env s i j \<longrightarrow> has_state env s Rejected j)"

lemma rival_sym: "rival env s i j \<Longrightarrow> rival env s j i"
  by (auto simp: rival_def)

lemma has_state_unique: "has_state env s st i \<Longrightarrow> has_state env s st' i \<Longrightarrow> st = st'"
  by (auto simp: has_state_def)

lemma has_state_stored: "has_state env s st i \<Longrightarrow> i \<in> stored env s"
  by (auto simp: has_state_def stored_def)

lemma rival_stored: "rival env s i j \<Longrightarrow> j \<in> stored env s"
  by (auto simp: rival_def member_def stored_def)

lemma stored_state: "i \<in> stored env s \<Longrightarrow> \<exists>st. has_state env s st i"
  by (auto simp: has_state_def stored_def)

section \<open>Visiting the rivals of a conflict\<close>

lemma visitMembers_all:
  "(\<And>m x. snd (f m x)) \<Longrightarrow>
   visitMembers f self ms (x, False) = (fold (\<lambda>m x. fst (f m x)) (filter (\<lambda>m. m \<noteq> self) ms) x, False)"
  by (induction ms arbitrary: x) (auto simp: case_prod_unfold)

lemma visitSets_all:
  assumes "\<And>m x. snd (f m x)"
  shows "visitSets env s f self rs x =
    fold (\<lambda>m x. fst (f m x)) (concat (map (\<lambda>r. filter (\<lambda>m. m \<noteq> self) (conflictMembers env s r)) rs)) x"
  using visitMembers_all [of f, OF assms] by (induction rs arbitrary: x) auto

lemma visitMembers_abort [simp]: "visitMembers f self ms (x, True) = (x, True)"
  by (induction ms) auto

lemma visitMembers_search:
  "visitMembers (\<lambda>m _. (P m, \<not> P m)) self ms (False, False) =
     (list_ex (\<lambda>m. m \<noteq> self \<and> P m) ms, list_ex (\<lambda>m. m \<noteq> self \<and> P m) ms)"
proof (induction ms)
  case (Cons a ms)
  then show ?case by (cases "P a") auto
qed simp

lemma visitSets_search:
  "visitSets env s (\<lambda>m _. (P m, \<not> P m)) self rs False =
     list_ex (\<lambda>r. list_ex (\<lambda>m. m \<noteq> self \<and> P m) (conflictMembers env s r)) rs"
  by (induction rs) (auto simp: visitMembers_search)

text \<open>The same conflicts with other states.\<close>

definition same_shape :: "('c, 'r, 's, 'w, 'v, 'z) conflict_env_scheme \<Rightarrow> 's \<Rightarrow> 's \<Rightarrow> bool" where
  "same_shape env s t \<longleftrightarrow>
     childConflicts env t = childConflicts env s \<and> conflictMembers env t = conflictMembers env s \<and>
     (\<forall>i. map_option (con_State_update (\<lambda>_. Pending)) (loadConflict env t i) =
          map_option (con_State_update (\<lambda>_. Pending)) (loadConflict env s i))"

lemma same_shape_load:
  assumes "same_shape env s t" and "loadConflict env t i = Some c"
  obtains d where "loadConflict env s i = Some d" "con_ID c = con_ID d" "Parents c = Parents d"
    "ConflictSetIDs c = ConflictSetIDs d"
proof -
  have "map_option (con_State_update (\<lambda>_. Pending)) (loadConflict env s i) =
      Some (con_State_update (\<lambda>_. Pending) c)"
    using assms by (metis option.map(2) same_shape_def)
  then obtain d where "loadConflict env s i = Some d" "con_State_update (\<lambda>_. Pending) d = con_State_update (\<lambda>_. Pending) c"
    by auto
  then show thesis by (intro that [of d]) (auto dest: arg_cong [where f = con_ID] arg_cong [where f = Parents]
        arg_cong [where f = ConflictSetIDs])
qed

lemma same_shape_sym: "same_shape env s t \<Longrightarrow> same_shape env t s"
  by (auto simp: same_shape_def)

lemma same_shape_refl [simp]: "same_shape env s s"
  by (auto simp: same_shape_def)

lemma same_shape_trans: "same_shape env s t \<Longrightarrow> same_shape env t u \<Longrightarrow> same_shape env s u"
  by (auto simp: same_shape_def)

lemma same_shape_relations:
  assumes "same_shape env s t"
  shows "parent env t = parent env s" and "member env t = member env s" and "rival env t = rival env s"
    and "stored env t = stored env s"
proof -
  have le: "parent env t p i \<Longrightarrow> parent env s p i" "member env t r i \<Longrightarrow> member env s r i"
      "i \<in> stored env t \<Longrightarrow> i \<in> stored env s" if "same_shape env s t" for s t p r i
    by (auto simp: parent_def member_def stored_def elim!: same_shape_load [OF that])
  show p: "parent env t = parent env s" and m: "member env t = member env s" and "stored env t = stored env s"
    using le [OF assms] le [OF same_shape_sym [OF assms]] by (auto simp: fun_eq_iff)
  show "rival env t = rival env s" by (simp add: rival_def m fun_eq_iff)
qed

context conflict_storage
begin

lemma pushConflicting_fold:
  assumes "dag_ok env s" and "loadConflict env s i = Some c" and "same_shape env s t"
  obtains ms where "pushConflicting env t c w = fold (\<lambda>m w. pushWalk env w m) ms w" and "set ms = {j. rival env s i j}"
proof -
  let ?ms = "concat (map (\<lambda>r. filter (\<lambda>m. m \<noteq> con_ID c) (conflictMembers env t r)) (resourceElems env (ConflictSetIDs c)))"
  have fin: "finite (ConflictSetIDs c)" and "con_ID c = i"
    and mem: "\<And>r j. j \<in> set (conflictMembers env s r) \<longleftrightarrow> member env s r j"
    using assms(1,2) by (auto simp: dag_ok_def)
  have "pushConflicting env t c w = fold (\<lambda>m w. pushWalk env w m) ?ms w"
    by (simp add: pushConflicting_def forEachConflictingConflictID_def visitSets_all)
  moreover have "set ?ms = {j. rival env s i j}"
    using assms(2,3) enumeratesD [OF resource_elems fin] mem \<open>con_ID c = i\<close>
    by (auto simp: rival_def same_shape_def) (auto simp: member_def)
  ultimately show thesis by (rule that)
qed

lemma store_state:
  assumes "loadConflict env s i = Some c" and "con_ID c = i"
  shows "same_shape env s (storeConflict env s (c\<lparr>con_State := st\<rparr>))"
  using assms by (auto simp: same_shape_def load_store)

lemma has_state_store:
  assumes "loadConflict env s i = Some c" and "con_ID c = i"
  shows "has_state env (storeConflict env s (c\<lparr>con_State := st\<rparr>)) st' j \<longleftrightarrow>
    (if j = i then st' = st else has_state env s st' j)"
  using assms by (auto simp: has_state_def load_store)

lemma dag_ok_shape:
  assumes "dag_ok env s" and shape: "same_shape env s t"
    and st: "\<And>i c. loadConflict env t i = Some c \<Longrightarrow> con_State c \<in> {Pending, Rejected, Accepted}"
  shows "dag_ok env t"
  unfolding dag_ok_def
proof (intro conjI allI)
  note rel = same_shape_relations [OF shape]
  show "finite (stored env t)" using assms(1) rel by (simp add: dag_ok_def)
  show "i \<in> set (childConflicts env t p) \<longleftrightarrow> parent env t p i" for p i
    using assms(1) shape unfolding rel by (simp add: dag_ok_def same_shape_def)
  show "i \<in> set (conflictMembers env t r) \<longleftrightarrow> member env t r i" for r i
    using assms(1) shape unfolding rel by (simp add: dag_ok_def same_shape_def)
  show "loadConflict env t i = Some c \<longrightarrow> con_ID c = i \<and> finite (Parents c) \<and> finite (ConflictSetIDs c) \<and>
      con_State c \<in> {Pending, Rejected, Accepted}" for i c
  proof
    assume t: "loadConflict env t i = Some c"
    obtain d where "loadConflict env s i = Some d" "con_ID c = con_ID d" "Parents c = Parents d"
      "ConflictSetIDs c = ConflictSetIDs d"
      using same_shape_load [OF shape t] .
    with assms(1) st [OF t] show "con_ID c = i \<and> finite (Parents c) \<and> finite (ConflictSetIDs c) \<and>
      con_State c \<in> {Pending, Rejected, Accepted}"
      by (auto simp: dag_ok_def)
  qed
qed

end

section \<open>The loop that accepts\<close>

text \<open>The ancestors of a conflict, itself included, and the descendants.\<close>

abbreviation ancestor :: "('c, 'r, 's, 'w, 'v, 'z) conflict_env_scheme \<Rightarrow> 's \<Rightarrow> 'c \<Rightarrow> 'c \<Rightarrow> bool" where
  "ancestor env s \<equiv> (parent env s)\<^sup>*\<^sup>*"

definition newly :: "('c, 'r, 's, 'w, 'v, 'z) conflict_env_scheme \<Rightarrow> 's \<Rightarrow> 's \<Rightarrow> State \<Rightarrow> 'c \<Rightarrow> bool" where
  "newly env s t st i \<longleftrightarrow> has_state env t st i \<and> \<not> has_state env s st i"

text \<open>
  One loop turns states into a target state: P is what was pushed, V what was visited, next i the
  conflicts that a changed conflict i pushes.
\<close>

definition turns_inv ::
    "('c, 'r, 's, 'w, 'v, 'z) conflict_env_scheme \<Rightarrow> State \<Rightarrow> ('c \<Rightarrow> 'c \<Rightarrow> bool) \<Rightarrow> 'c set \<Rightarrow> 's \<Rightarrow> 's \<Rightarrow> 'c set \<Rightarrow> 'c set \<Rightarrow> bool" where
  "turns_inv env st nxt roots s t P V \<longleftrightarrow>
     same_shape env s t \<and>
     (\<forall>i st'. st' \<noteq> st \<longrightarrow> has_state env t st' i \<longrightarrow> has_state env s st' i) \<and>
     (\<forall>i. has_state env s st i \<longrightarrow> has_state env t st i) \<and>
     (\<forall>i\<in>V. i \<in> stored env s \<longrightarrow> has_state env t st i) \<and>
     (\<forall>i. newly env s t st i \<longrightarrow> i \<in> P \<and> {j. nxt i j} \<subseteq> P) \<and>
     roots \<subseteq> P \<and> (\<forall>i\<in>P. \<exists>r\<in>roots. nxt\<^sup>*\<^sup>* r i)"

lemma turns_inv_start: "roots = P \<Longrightarrow> turns_inv env st nxt roots s s P {}"
  by (auto simp: turns_inv_def newly_def)

lemma turns_inv_visit:
  assumes "turns_inv env st nxt roots s t P V" and "has_state env t st i \<or> i \<notin> stored env s"
  shows "turns_inv env st nxt roots s t P (insert i V)"
  using assms by (auto simp: turns_inv_def dest: has_state_stored)

lemma turns_inv_done:
  assumes "turns_inv env st nxt roots s t P V" and "P \<subseteq> V"
  shows "turns_inv env st nxt roots s t P P"
proof -
  have "\<forall>i\<in>P. i \<in> stored env s \<longrightarrow> has_state env t st i" using assms by (auto simp: turns_inv_def)
  with assms(1) show ?thesis by (simp add: turns_inv_def)
qed

context conflict_storage
begin

lemma turns_inv_turn:
  assumes inv: "turns_inv env st nxt roots s t P V" and i: "loadConflict env t i = Some c" "con_ID c = i"
    and pushed: "i \<in> P" and more: "P' = {j. nxt i j} \<union> P"
  shows "turns_inv env st nxt roots s (storeConflict env t (c\<lparr>con_State := st\<rparr>)) P' (insert i V)"
proof -
  note store = has_state_store [OF i, of st]
  have shape: "same_shape env s (storeConflict env t (c\<lparr>con_State := st\<rparr>))"
    using same_shape_trans [OF _ store_state [OF i]] inv by (auto simp: turns_inv_def)
  show ?thesis
    unfolding turns_inv_def
  proof (intro conjI)
    show "\<forall>j\<in>P'. \<exists>r\<in>roots. nxt\<^sup>*\<^sup>* r j"
    proof
      fix j assume "j \<in> P'"
      then consider "nxt i j" | "j \<in> P" using more by blast
      then show "\<exists>r\<in>roots. nxt\<^sup>*\<^sup>* r j"
      proof cases
        case 1
        obtain r where "r \<in> roots" "nxt\<^sup>*\<^sup>* r i" using inv pushed by (auto simp: turns_inv_def)
        with 1 show ?thesis by (meson rtranclp.rtrancl_into_rtrancl)
      qed (use inv in \<open>simp add: turns_inv_def\<close>)
    qed
    show "\<forall>j. newly env s (storeConflict env t (c\<lparr>con_State := st\<rparr>)) st j \<longrightarrow> j \<in> P' \<and> {k. nxt j k} \<subseteq> P'"
      using inv pushed more by (auto simp: turns_inv_def newly_def store)
  qed (use inv shape more in \<open>auto simp: turns_inv_def store\<close>)
qed

end

text \<open>The number of conflicts that are not yet in the target state.\<close>

definition unturned :: "('c, 'r, 's, 'w, 'v, 'z) conflict_env_scheme \<Rightarrow> State \<Rightarrow> 's \<Rightarrow> nat" where
  "unturned env st s = card {i. \<exists>c. loadConflict env s i = Some c \<and> con_State c \<noteq> st}"

definition turn_order ::
    "('c, 'r, 's, 'w, 'v, 'z) conflict_env_scheme \<Rightarrow> ('w \<Rightarrow> 'c list) \<Rightarrow> State \<Rightarrow> (('s \<times> 'w) \<times> ('s \<times> 'w)) set" where
  "turn_order env pending st =
     inv_image (less_than <*lex*> less_than) (\<lambda>(s, w). (unturned env st s, length (pending w)))"

lemma wf_turn_order: "wf (turn_order env pending st)"
  unfolding turn_order_def by (intro wf_inv_image wf_lex_prod wf_less_than)

text \<open>What the accepting loop leaves behind.\<close>

definition accept_result ::
    "('c, 'r, 's, 'w, 'v, 'z) conflict_env_scheme \<Rightarrow> ('w \<Rightarrow> 'c list) \<Rightarrow> ('w \<Rightarrow> 'c set) \<Rightarrow> 'c \<Rightarrow> 's \<Rightarrow>
     ('c, 'r) dag_event list \<Rightarrow> ('s \<times> 'w \<times> bool \<times> ('c, 'r) dag_event list) option \<Rightarrow> bool" where
  "accept_result env pending pushed cid s ev r \<longleftrightarrow>
     (\<exists>t P rej m n. r = Some (t, rej, m, ev @ replicate n (ConflictAccepted cid)) \<and>
        turns_inv env Accepted (\<lambda>i p. parent env s p i) {cid} s t P P \<and> walk_covers pending pushed {} rej \<and>
        pushed rej = {j. \<exists>i. newly env s t Accepted i \<and> rival env s i j})"

lemma accept_result_event:
  assumes "accept_result env pending pushed cid s (ev @ [ConflictAccepted cid]) r"
  shows "accept_result env pending pushed cid s ev r"
proof -
  obtain t P rej m n where "r = Some (t, rej, m, (ev @ [ConflictAccepted cid]) @ replicate n (ConflictAccepted cid))"
    and rest: "turns_inv env Accepted (\<lambda>i p. parent env s p i) {cid} s t P P \<and> walk_covers pending pushed {} rej \<and>
      pushed rej = {j. \<exists>i. newly env s t Accepted i \<and> rival env s i j}"
    using assms unfolding accept_result_def by blast
  then have "r = Some (t, rej, m, ev @ replicate (Suc n) (ConflictAccepted cid))" by simp
  with rest show ?thesis unfolding accept_result_def by blast
qed

context conflict_storage
begin

lemma unturned_less:
  assumes fin: "finite (stored env s)" and i: "loadConflict env s i = Some c" "con_ID c = i" and "con_State c \<noteq> st"
  shows "unturned env st (storeConflict env s (c\<lparr>con_State := st\<rparr>)) < unturned env st s"
  unfolding unturned_def
proof (rule psubset_card_mono)
  show "finite {i. \<exists>c. loadConflict env s i = Some c \<and> con_State c \<noteq> st}"
    by (rule finite_subset [OF _ fin]) (auto simp: stored_def)
  show "{j. \<exists>d. loadConflict env (storeConflict env s (c\<lparr>con_State := st\<rparr>)) j = Some d \<and> con_State d \<noteq> st}
      \<subset> {i. \<exists>c. loadConflict env s i = Some c \<and> con_State c \<noteq> st}"
    using assms(2-4) by (auto simp: load_store)
qed

lemma dag_ok_state:
  assumes "dag_ok env s" and "has_state env s st j"
  shows "st \<in> {Pending, Rejected, Accepted}"
proof -
  obtain c where "loadConflict env s j = Some c" "con_State c = st" using assms(2) by (auto simp: has_state_def)
  moreover have "con_State c \<in> {Pending, Rejected, Accepted}"
    using assms(1) \<open>loadConflict env s j = Some c\<close> unfolding dag_ok_def by blast
  ultimately show ?thesis by simp
qed

lemma turns_dag_ok:
  assumes ok: "dag_ok env s" and inv: "turns_inv env st nxt roots s t P V" and st: "st \<in> {Pending, Rejected, Accepted}"
  shows "dag_ok env t"
proof (rule dag_ok_shape [OF ok])
  show "same_shape env s t" using inv by (simp add: turns_inv_def)
  fix i c assume "loadConflict env t i = Some c"
  then have "has_state env t (con_State c) i" by (simp add: has_state_def)
  then have "con_State c = st \<or> has_state env s (con_State c) i" using inv by (auto simp: turns_inv_def)
  then show "con_State c \<in> {Pending, Rejected, Accepted}" using dag_ok_state [OF ok] st by blast
qed

lemma accept_loop_result:
  assumes ok: "dag_ok env s"
  shows "turns_inv env Accepted (\<lambda>i p. parent env s p i) {cid} s t (pushed w) V \<Longrightarrow>
    walk_covers pending pushed V w \<Longrightarrow> walk_covers pending pushed {} rej \<Longrightarrow>
    pushed rej = {j. \<exists>i. newly env s t Accepted i \<and> rival env s i j} \<Longrightarrow>
    accept_result env pending pushed cid s ev (accept_loop env cid t w rej m ev)"
proof (induction "(t, w)" arbitrary: t w rej V m ev rule: wf_induct_rule [OF wf_turn_order [of env pending Accepted]])
  case (1 t w rej V m ev)
  note inv = 1(2) and cov = 1(3) and covr = 1(4) and R = 1(5)
  let ?nxt = "\<lambda>i p. parent env s p i"
  have shape: "same_shape env s t" using inv by (simp add: turns_inv_def)
  show ?case
  proof (cases "nextWalk env w")
    case None
    then have "pushed w \<subseteq> V" using cov next_None by (simp add: walk_covers_def)
    then have "turns_inv env Accepted ?nxt {cid} s t (pushed w) (pushed w)"
      by (rule turns_inv_done [OF inv])
    then have "accept_result env pending pushed cid s ev (Some (t, rej, m, ev @ replicate 0 (ConflictAccepted cid)))"
      using covr R unfolding accept_result_def by blast
    then show ?thesis by (subst accept_loop.simps) (simp add: None)
  next
    case (Some x)
    obtain i w1 where nx: "nextWalk env w = Some (i, w1)" using Some by (cases x) auto
    note cov1 = covers_next [OF cov nx]
    have shorter: "length (pending w1) < length (pending w)" using next_length [OF nx] by simp
    show ?thesis
    proof (cases "loadConflict env t i")
      case None
      then have "i \<notin> stored env t" by (simp add: stored_def)
      then have "i \<notin> stored env s" using same_shape_relations(4) [OF shape] by simp
      then have inv1: "turns_inv env Accepted ?nxt {cid} s t (pushed w1) (insert i V)"
        using turns_inv_visit [OF inv] cov1(2) by simp
      have "accept_loop env cid t w rej m ev = accept_loop env cid t w1 rej m ev"
        by (subst accept_loop.simps) (simp add: nx None)
      then show ?thesis
        using 1(1) [OF _ inv1 cov1(1) covr R] shorter by (simp add: turn_order_def)
    next
      case (Some c)
      have "loadConflict env t i = Some c \<Longrightarrow> con_ID c = i" 
        using ok by (auto simp: dag_ok_def elim!: same_shape_load [OF shape])
      with Some have c: "con_ID c = i" by blast
      show ?thesis
      proof (cases "con_State c = Accepted")
        case True
        then have "has_state env t Accepted i" using Some by (simp add: has_state_def)
        then have inv1: "turns_inv env Accepted ?nxt {cid} s t (pushed w1) (insert i V)"
          using turns_inv_visit [OF inv] cov1(2) by simp
        have "accept_loop env cid t w rej m ev = accept_loop env cid t w1 rej False ev"
          by (subst accept_loop.simps) (simp add: nx Some True setConfirmationState_def)
        then show ?thesis
          using 1(1) [OF _ inv1 cov1(1) covr R] shorter by (simp add: turn_order_def)
      next
        case False
        let ?c = "c\<lparr>con_State := Accepted\<rparr>"
        let ?t = "storeConflict env t ?c"
        let ?w = "fold (\<lambda>p w. pushWalk env w p) (conflictElems env (Parents c)) w1"
        obtain d where d: "loadConflict env s i = Some d" "Parents c = Parents d"
          using same_shape_load [OF shape Some] by metis
        have fin: "finite (Parents c)" using ok d by (auto simp: dag_ok_def)
        have nxt: "{p. ?nxt i p} = Parents c" using d by (simp add: parent_def)
        have shape': "same_shape env s ?t" using same_shape_trans [OF shape store_state [OF Some c]] .
        have load': "loadConflict env ?t i = Some ?c" using c by (simp add: load_store)
        have inv1: "turns_inv env Accepted ?nxt {cid} s ?t (pushed ?w) (insert i V)"
          by (rule turns_inv_turn [OF inv Some c cov1(3)])
            (simp add: pushed_fold nxt enumeratesD [OF conflict_elems fin] cov1(2))
        obtain ms where ms: "pushConflicting env ?t ?c rej = fold (\<lambda>m w. pushWalk env w m) ms rej"
            "set ms = {j. rival env s i j}"
          by (rule pushConflicting_fold [OF turns_dag_ok [OF ok inv1] load' same_shape_refl, of rej])
            (auto simp: same_shape_relations(3) [OF shape'])
        have new: "newly env s ?t Accepted j \<longleftrightarrow> j = i \<or> newly env s t Accepted j" for j
          using has_state_store [OF Some c, of Accepted] inv Some False
          by (auto simp: newly_def turns_inv_def has_state_def)
        have R1: "pushed (pushConflicting env ?t ?c rej) = {j. \<exists>i. newly env s ?t Accepted i \<and> rival env s i j}"
          using ms by (auto simp: pushed_fold R new)
        have fewer: "unturned env Accepted ?t < unturned env Accepted t"
          using unturned_less [OF _ Some c False] ok same_shape_relations(4) [OF shape] by (simp add: dag_ok_def)
        have run: "accept_loop env cid t w rej m ev =
            accept_loop env cid ?t ?w (pushConflicting env ?t ?c rej) True (ev @ [ConflictAccepted cid])"
          by (subst accept_loop.simps) (simp add: nx Some False setConfirmationState_def Let_def)
        have covr1: "walk_covers pending pushed {} (pushConflicting env ?t ?c rej)"
          unfolding ms(1) by (rule covers_fold [OF covr])
        have "accept_result env pending pushed cid s (ev @ [ConflictAccepted cid])
            (accept_loop env cid ?t ?w (pushConflicting env ?t ?c rej) True (ev @ [ConflictAccepted cid]))"
          by (rule 1(1) [OF _ inv1 covers_fold [OF cov1(1)] covr1 R1]) (simp add: turn_order_def fewer)
        then show ?thesis unfolding run by (rule accept_result_event)
      qed
    qed
  qed
qed

end

section \<open>The loop that rejects\<close>

definition reject_result ::
    "('c, 'r, 's, 'w, 'v, 'z) conflict_env_scheme \<Rightarrow> 'c set \<Rightarrow> 's \<Rightarrow> 's \<Rightarrow> ('c, 'r) dag_event list \<Rightarrow>
     ('s \<times> bool \<times> ('c, 'r) dag_event list) option \<Rightarrow> bool" where
  "reject_result env roots s t ev r \<longleftrightarrow>
     (\<exists>t' P m ids. r = Some (t', m, ev @ map ConflictRejected ids) \<and>
        turns_inv env Rejected (parent env s) roots s t' P P \<and>
        (\<forall>i. has_state env t Rejected i \<longrightarrow> has_state env t' Rejected i) \<and>
        distinct ids \<and> set ids = {i. newly env t t' Rejected i})"

lemma reject_result_event:
  assumes "reject_result env roots s u (ev @ [ConflictRejected i]) r"
    and states: "\<And>st j. has_state env u st j \<longleftrightarrow> (if j = i then st = Rejected else has_state env t st j)"
    and "\<not> has_state env t Rejected i"
  shows "reject_result env roots s t ev r"
proof -
  obtain t' P m ids where r: "r = Some (t', m, (ev @ [ConflictRejected i]) @ map ConflictRejected ids)"
    and inv: "turns_inv env Rejected (parent env s) roots s t' P P"
    and mono: "\<forall>j. has_state env u Rejected j \<longrightarrow> has_state env t' Rejected j"
    and ids: "distinct ids" "set ids = {j. newly env u t' Rejected j}"
    using assms(1) unfolding reject_result_def by blast
  have "r = Some (t', m, ev @ map ConflictRejected (i # ids))" using r by simp
  moreover have "\<forall>j. has_state env t Rejected j \<longrightarrow> has_state env t' Rejected j"
    using mono states by metis
  moreover have "distinct (i # ids)" "set (i # ids) = {j. newly env t t' Rejected j}"
    using ids mono states assms(3) by (auto simp: newly_def)
  ultimately show ?thesis using inv unfolding reject_result_def by blast
qed

context conflict_storage
begin

lemma reject_loop_result:
  assumes ok: "dag_ok env s"
  shows "turns_inv env Rejected (parent env s) roots s t (pushed w) V \<Longrightarrow> walk_covers pending pushed V w \<Longrightarrow>
    reject_result env roots s t ev (reject_loop env t w m ev)"
proof (induction "(t, w)" arbitrary: t w V m ev rule: wf_induct_rule [OF wf_turn_order [of env pending Rejected]])
  case (1 t w V m ev)
  note inv = 1(2) and cov = 1(3)
  have shape: "same_shape env s t" using inv by (simp add: turns_inv_def)
  show ?case
  proof (cases "nextWalk env w")
    case None
    then have "pushed w \<subseteq> V" using cov next_None by (simp add: walk_covers_def)
    then have "turns_inv env Rejected (parent env s) roots s t (pushed w) (pushed w)"
      by (rule turns_inv_done [OF inv])
    then have "reject_result env roots s t ev (Some (t, m, ev @ map ConflictRejected []))"
      unfolding reject_result_def newly_def by fastforce
    then show ?thesis by (subst reject_loop.simps) (simp add: None)
  next
    case (Some x)
    obtain i w1 where nx: "nextWalk env w = Some (i, w1)" using Some by (cases x) auto
    note cov1 = covers_next [OF cov nx]
    have shorter: "length (pending w1) < length (pending w)" using next_length [OF nx] by simp
    show ?thesis
    proof (cases "loadConflict env t i")
      case None
      then have "i \<notin> stored env t" by (simp add: stored_def)
      then have "i \<notin> stored env s" using same_shape_relations(4) [OF shape] by simp
      then have inv1: "turns_inv env Rejected (parent env s) roots s t (pushed w1) (insert i V)"
        using turns_inv_visit [OF inv] cov1(2) by simp
      have "reject_loop env t w m ev = reject_loop env t w1 m ev"
        by (subst reject_loop.simps) (simp add: nx None)
      then show ?thesis
        using 1(1) [OF _ inv1 cov1(1)] shorter by (simp add: turn_order_def)
    next
      case (Some c)
      have "loadConflict env t i = Some c \<Longrightarrow> con_ID c = i"
        using ok by (auto simp: dag_ok_def elim!: same_shape_load [OF shape])
      with Some have c: "con_ID c = i" by blast
      show ?thesis
      proof (cases "con_State c = Rejected")
        case True
        then have "has_state env t Rejected i" using Some by (simp add: has_state_def)
        then have inv1: "turns_inv env Rejected (parent env s) roots s t (pushed w1) (insert i V)"
          using turns_inv_visit [OF inv] cov1(2) by simp
        have "reject_loop env t w m ev = reject_loop env t w1 False ev"
          by (subst reject_loop.simps) (simp add: nx Some True setConfirmationState_def)
        then show ?thesis
          using 1(1) [OF _ inv1 cov1(1)] shorter by (simp add: turn_order_def)
      next
        case False
        let ?c = "c\<lparr>con_State := Rejected\<rparr>"
        let ?t = "storeConflict env t ?c"
        let ?w = "fold (\<lambda>p w. pushWalk env w p) (childConflicts env ?t (con_ID ?c)) w1"
        have nxt: "set (childConflicts env ?t (con_ID ?c)) = {k. parent env s i k}"
          using ok shape c by (auto simp: same_shape_def dag_ok_def)
        have inv1: "turns_inv env Rejected (parent env s) roots s ?t (pushed ?w) (insert i V)"
          by (rule turns_inv_turn [OF inv Some c cov1(3)]) (simp only: pushed_fold nxt cov1(2))
        have fewer: "unturned env Rejected ?t < unturned env Rejected t"
          using unturned_less [OF _ Some c False] ok same_shape_relations(4) [OF shape] by (simp add: dag_ok_def)
        have run: "reject_loop env t w m ev = reject_loop env ?t ?w True (ev @ [ConflictRejected i])"
          by (subst reject_loop.simps) (simp add: nx Some False setConfirmationState_def Let_def c)
        have "reject_result env roots s ?t (ev @ [ConflictRejected i]) (reject_loop env ?t ?w True (ev @ [ConflictRejected i]))"
          by (rule 1(1) [OF _ inv1 covers_fold [OF cov1(1)]]) (simp add: turn_order_def fewer)
        moreover have "\<not> has_state env t Rejected i" using Some False by (simp add: has_state_def)
        ultimately show ?thesis
          unfolding run by (rule reject_result_event [OF _ has_state_store [OF Some c]])
      qed
    qed
  qed
qed

section \<open>Accepting a conflict\<close>

lemma SetConflictAccepted_result:
  assumes ok: "dag_ok env s"
  obtains t u n m ids P Q where
    "SetConflictAccepted env cid s = Some (u, m, replicate n (ConflictAccepted cid) @ map ConflictRejected ids)"
    "turns_inv env Accepted (\<lambda>i p. parent env s p i) {cid} s t P P" "dag_ok env t"
    "turns_inv env Rejected (parent env t) {j. \<exists>i. newly env s t Accepted i \<and> rival env s i j} t u Q Q" "dag_ok env u"
    "distinct ids" "set ids = {i. newly env t u Rejected i}"
proof -
  let ?w = "pushWalk env (newWalk env) cid"
  have cov: "walk_covers pending pushed {} ?w" by (rule covers_push [OF covers_new])
  have w: "pushed ?w = {cid}" by (simp add: push_pushed pushed_new)
  have inv: "turns_inv env Accepted (\<lambda>i p. parent env s p i) {cid} s s (pushed ?w) {}"
    by (rule turns_inv_start) (simp add: w)
  have "accept_result env pending pushed cid s [] (accept_loop env cid s ?w (newWalk env) False [])"
    by (rule accept_loop_result [OF ok inv cov covers_new]) (simp add: pushed_new newly_def)
  then obtain t P rej m1 n where acc: "accept_loop env cid s ?w (newWalk env) False [] =
        Some (t, rej, m1, [] @ replicate n (ConflictAccepted cid))"
    and inv1: "turns_inv env Accepted (\<lambda>i p. parent env s p i) {cid} s t P P"
    and covr: "walk_covers pending pushed {} rej"
    and R: "pushed rej = {j. \<exists>i. newly env s t Accepted i \<and> rival env s i j}"
    unfolding accept_result_def by blast
  have ok1: "dag_ok env t" by (rule turns_dag_ok [OF ok inv1]) simp
  have start: "turns_inv env Rejected (parent env t) (pushed rej) t t (pushed rej) {}"
    by (rule turns_inv_start) simp
  have "reject_result env (pushed rej) t t (replicate n (ConflictAccepted cid))
      (reject_loop env t rej m1 (replicate n (ConflictAccepted cid)))"
    by (rule reject_loop_result [OF ok1 start covr])
  then obtain u Q m ids where rj: "reject_loop env t rej m1 (replicate n (ConflictAccepted cid)) =
        Some (u, m, replicate n (ConflictAccepted cid) @ map ConflictRejected ids)"
    and inv2: "turns_inv env Rejected (parent env t) (pushed rej) t u Q Q"
    and ids: "distinct ids" "set ids = {i. newly env t u Rejected i}"
    unfolding reject_result_def by blast
  have run: "SetConflictAccepted env cid s = Some (u, m, replicate n (ConflictAccepted cid) @ map ConflictRejected ids)"
    using acc rj by (simp add: SetConflictAccepted_def)
  show thesis
    by (rule that [OF run inv1 ok1 inv2 [unfolded R] _ ids]) (rule turns_dag_ok [OF ok1 inv2], simp)
qed

end

end
