(* ===== verification/ConflictProperties.thy ===== *)
theory ConflictProperties
  imports ConflictLaws
begin

text \<open>
  What accepting and creating conflicts does to the confirmation states, and the properties of the
  conflict DAG.
\<close>

section \<open>The states after a conflict was accepted\<close>

text \<open>
  The stored ancestors of a conflict (itself included), and the descendants of what conflicts with
  one of them.
\<close>

definition upwards :: "('c, 'r, 's, 'w, 'v, 'z) conflict_env_scheme \<Rightarrow> 's \<Rightarrow> 'c \<Rightarrow> 'c set" where
  "upwards env s cid = {a. a \<in> stored env s \<and> ancestor env s a cid}"

definition beaten :: "('c, 'r, 's, 'w, 'v, 'z) conflict_env_scheme \<Rightarrow> 's \<Rightarrow> 'c \<Rightarrow> 'c set" where
  "beaten env s cid = {i. \<exists>a\<in>upwards env s cid. \<exists>b. rival env s a b \<and> ancestor env s b i}"

lemma ancestor_flip: "(\<lambda>i p. parent env s p i)\<^sup>*\<^sup>* i a \<longleftrightarrow> ancestor env s a i"
proof -
  have "(\<lambda>i p. parent env s p i) = (parent env s)\<inverse>\<inverse>" by (simp add: fun_eq_iff)
  then show ?thesis by (simp add: rtranclp_conversep)
qed

lemma turns_relations:
  assumes "turns_inv env st nxt roots s t P V"
  shows "parent env t = parent env s" and "rival env t = rival env s" and "stored env t = stored env s"
proof -
  have "same_shape env s t" using assms by (simp add: turns_inv_def)
  then show "parent env t = parent env s" "rival env t = rival env s" "stored env t = stored env s"
    by (rule same_shape_relations)+
qed

lemma parent_stored: "parent env s p i \<Longrightarrow> i \<in> stored env s"
  by (auto simp: parent_def stored_def)

lemma consistentD:
  assumes "consistent env s"
  shows "has_state env s Rejected p \<Longrightarrow> parent env s p i \<Longrightarrow> has_state env s Rejected i"
    and "has_state env s Accepted i \<Longrightarrow> parent env s p i \<Longrightarrow> p \<in> stored env s \<Longrightarrow> has_state env s Accepted p"
    and "has_state env s Accepted i \<Longrightarrow> rival env s i j \<Longrightarrow> has_state env s Rejected j"
  using assms by (auto simp: consistent_def)

lemma rejected_descendants:
  assumes "consistent env s" and "has_state env s Rejected b" and "ancestor env s b i"
  shows "has_state env s Rejected i"
  using assms(3,2) by (induction rule: rtranclp_induct) (auto intro: consistentD(1) [OF assms(1)])

lemma states_disjoint:
  "has_state env s Accepted i \<Longrightarrow> has_state env s Rejected i \<Longrightarrow> False"
  by (auto dest: has_state_unique)

text \<open>The first loop accepts exactly the ancestors.\<close>

lemma accepted_upwards:
  assumes con: "consistent env s" and inv: "turns_inv env Accepted (\<lambda>i p. parent env s p i) {cid} s t P P"
  shows "has_state env t Accepted i \<longleftrightarrow> has_state env s Accepted i \<or> i \<in> upwards env s cid"
proof
  assume t: "has_state env t Accepted i"
  show "has_state env s Accepted i \<or> i \<in> upwards env s cid"
  proof (rule disjCI)
    assume "i \<notin> upwards env s cid"
    moreover have "i \<in> stored env s"
      using has_state_stored [OF t] turns_relations(3) [OF inv] by simp
    ultimately have "i \<notin> P" using inv by (auto simp: turns_inv_def upwards_def ancestor_flip)
    then show "has_state env s Accepted i" using inv t by (auto simp: turns_inv_def newly_def)
  qed
next
  assume h: "has_state env s Accepted i \<or> i \<in> upwards env s cid"
  have up: "has_state env t Accepted a" if "a \<in> stored env s" "ancestor env s a cid" for a
    using that(2,1)
  proof (induction rule: converse_rtranclp_induct)
    case base
    then show ?case using inv by (auto simp: turns_inv_def)
  next
    case (step a b)
    then have b: "has_state env t Accepted b" using parent_stored by metis
    show ?case
    proof (cases "has_state env s Accepted b")
      case True
      then have "has_state env s Accepted a" using consistentD(2) [OF con True] step by blast
      then show ?thesis using inv by (simp add: turns_inv_def)
    next
      case False
      then have "a \<in> P" using inv b step.hyps by (auto simp: turns_inv_def newly_def)
      then show ?thesis using inv step.prems by (simp add: turns_inv_def)
    qed
  qed
  show "has_state env t Accepted i"
    using h up inv by (auto simp: upwards_def turns_inv_def)
qed

context conflict_storage
begin

text \<open>Both loops together keep the states consistent.\<close>

lemma accept_reject_consistent:
  assumes con: "consistent env s"
    and inv1: "turns_inv env Accepted (\<lambda>i p. parent env s p i) {cid} s t P P"
    and inv2: "turns_inv env Rejected (parent env t) {j. \<exists>i. newly env s t Accepted i \<and> rival env s i j} t u Q Q"
  shows "consistent env u"
proof -
  have rel1: "parent env t = parent env s" "rival env t = rival env s" "stored env t = stored env s"
    by (rule turns_relations [OF inv1])+
  have rel2: "parent env u = parent env s" "rival env u = rival env s" "stored env u = stored env s"
    using turns_relations [OF inv2] rel1 by simp_all
  have keep: "has_state env u Rejected i" if "has_state env t Rejected i" for i
    using inv2 that by (simp add: turns_inv_def)
  have acc: "has_state env t Accepted i" if "has_state env u Accepted i" for i
    using inv2 that by (auto simp: turns_inv_def)
  have hit: "has_state env u Rejected j" if "j \<in> Q" "j \<in> stored env s" for j
    using inv2 that rel1 by (simp add: turns_inv_def)
  have rejected_then: "has_state env s Rejected i" if "has_state env t Rejected i" for i
    using inv1 that by (auto simp: turns_inv_def)
  have rivalQ: "has_state env u Rejected j" if "newly env s t Accepted i" "rival env s i j" for i j
    using hit inv2 that rival_stored by (fastforce simp: turns_inv_def)
  have up: "has_state env t Accepted p" if "has_state env t Accepted i" "parent env s p i" "p \<in> stored env s" for p i
  proof (cases "has_state env s Accepted i")
    case True
    then show ?thesis using consistentD(2) [OF con True that(2,3)] inv1 by (simp add: turns_inv_def)
  next
    case False
    then have "p \<in> P" using inv1 that by (auto simp: turns_inv_def newly_def)
    then show ?thesis using inv1 that(3) by (simp add: turns_inv_def)
  qed
  have down: "has_state env u Rejected i" if p: "has_state env u Rejected p" and pi: "parent env s p i" for p i
  proof (cases "has_state env t Rejected p")
    case False
    then have "i \<in> Q" using inv2 p pi rel1 by (auto simp: turns_inv_def newly_def)
    then show ?thesis using hit parent_stored [OF pi] by blast
  next
    case True
    then have s: "has_state env s Rejected i" using consistentD(1) [OF con rejected_then pi] by blast
    have "\<not> has_state env t Accepted i"
    proof
      assume "has_state env t Accepted i"
      then have "has_state env t Accepted p" using up pi has_state_stored [OF True] rel1 by simp
      with True show False by (rule states_disjoint [rotated])
    qed
    then have "has_state env t Rejected i"
    proof -
      obtain st where st: "has_state env t st i" using stored_state parent_stored [OF pi] rel1 by metis
      then have "st \<noteq> Accepted" using \<open>\<not> has_state env t Accepted i\<close> by metis
      then have "has_state env s st i" using inv1 st by (simp add: turns_inv_def)
      then show ?thesis using has_state_unique [OF _ s] st by metis
    qed
    then show ?thesis by (rule keep)
  qed
  have side: "has_state env u Rejected j" if i: "has_state env u Accepted i" and ij: "rival env s i j" for i j
  proof (cases "has_state env s Accepted i")
    case False
    then show ?thesis using rivalQ [OF _ ij] acc [OF i] by (simp add: newly_def)
  next
    case True
    then have s: "has_state env s Rejected j" using consistentD(3) [OF con True ij] by blast
    have "\<not> newly env s t Accepted j"
      using rivalQ [OF _ rival_sym [OF ij]] states_disjoint [OF i] by blast
    then have "\<not> has_state env t Accepted j" using states_disjoint s by (auto simp: newly_def)
    moreover obtain st where st: "has_state env t st j" using stored_state rival_stored [OF ij] rel1 by metis
    ultimately have "has_state env s st j" using inv1 by (cases "st = Accepted") (auto simp: turns_inv_def)
    then have "st = Rejected" using has_state_unique s by metis
    with st show ?thesis by (auto intro: keep)
  qed
  have "has_state env u Accepted p" if i: "has_state env u Accepted i" and pi: "parent env s p i" and p: "p \<in> stored env s" for p i
  proof -
    have t: "has_state env t Accepted p" using up [OF acc [OF i] pi p] .
    have "\<not> has_state env u Rejected p" using down [OF _ pi] states_disjoint [OF i] by blast
    moreover obtain st where st: "has_state env u st p" using stored_state p rel2 by metis
    ultimately have "has_state env t st p" using inv2 by (cases "st = Rejected") (auto simp: turns_inv_def)
    then have "st = Accepted" using has_state_unique t by metis
    with st show ?thesis by simp
  qed
  with down side show ?thesis unfolding consistent_def rel2 by blast
qed

text \<open>The states afterwards, when no ancestor of the conflict descends from a rival of another.\<close>

lemma accept_reject_states:
  assumes con: "consistent env s" and apart: "upwards env s cid \<inter> beaten env s cid = {}"
    and inv1: "turns_inv env Accepted (\<lambda>i p. parent env s p i) {cid} s t P P"
    and inv2: "turns_inv env Rejected (parent env t) {j. \<exists>i. newly env s t Accepted i \<and> rival env s i j} t u Q Q"
    and i: "i \<in> stored env s"
  shows "has_state env u st i \<longleftrightarrow>
    (if i \<in> upwards env s cid then st = Accepted
     else if i \<in> beaten env s cid then st = Rejected else has_state env s st i)"
proof -
  note consistent = accept_reject_consistent [OF con inv1 inv2]
  have rel1: "parent env t = parent env s" "rival env t = rival env s" "stored env t = stored env s"
    by (rule turns_relations [OF inv1])+
  have rel2: "parent env u = parent env s" "rival env u = rival env s" "stored env u = stored env s"
    using turns_relations [OF inv2] rel1 by simp_all
  note accT = accepted_upwards [OF con inv1]
  have new_up: "a \<in> upwards env s cid" if "newly env s t Accepted a" for a
    using that accT by (auto simp: newly_def)
  have Q_beaten: "j \<in> beaten env s cid" if jQ: "j \<in> Q" for j
  proof -
    obtain a r where "newly env s t Accepted a" "rival env s a r" "ancestor env s r j"
    proof -
      have "\<exists>r\<in>{j. \<exists>i. newly env s t Accepted i \<and> rival env s i j}. (parent env t)\<^sup>*\<^sup>* r j"
        using inv2 jQ by (simp add: turns_inv_def)
      then show thesis unfolding rel1 using that by blast
    qed
    with new_up show ?thesis by (auto simp: beaten_def)
  qed
  have accU: "has_state env u Accepted j" if jt: "has_state env t Accepted j" and jb: "j \<notin> beaten env s cid" for j
  proof -
    have "j \<in> stored env u" using has_state_stored [OF jt] rel1 rel2 by simp
    then obtain st where st: "has_state env u st j" using stored_state by metis
    have "st \<noteq> Rejected"
    proof
      assume "st = Rejected"
      moreover have "\<not> has_state env t Rejected j" using states_disjoint jt by metis
      ultimately have "newly env t u Rejected j" using st by (simp add: newly_def)
      then have "j \<in> Q" using inv2 by (simp add: turns_inv_def)
      with Q_beaten jb show False by blast
    qed
    then have "has_state env t st j" using inv2 st by (auto simp: turns_inv_def)
    then have "st = Accepted" using has_state_unique jt by metis
    with st show ?thesis by simp
  qed
  have unique: "has_state env u st i \<longleftrightarrow> st = st'" if "has_state env u st' i" for st'
    using that has_state_unique by metis
  consider (up) "i \<in> upwards env s cid" | (beaten) "i \<notin> upwards env s cid" "i \<in> beaten env s cid"
    | (other) "i \<notin> upwards env s cid" "i \<notin> beaten env s cid" by blast
  then show ?thesis
  proof cases
    case up
    then have "has_state env u Accepted i" using accU accT apart by blast
    with up unique show ?thesis by simp
  next
    case beaten
    then obtain a b where a: "a \<in> upwards env s cid" and b: "rival env s a b" "ancestor env s b i"
      by (auto simp: beaten_def)
    have "has_state env u Accepted a" using accU accT a apart by blast
    then have "has_state env u Rejected b" using consistentD(3) [OF consistent] b(1) rel2 by simp
    then have "has_state env u Rejected i" using rejected_descendants [OF consistent] b(2) rel2 by simp
    with beaten unique show ?thesis by simp
  next
    case other
    obtain st' where st': "has_state env s st' i" using stored_state [OF i] by blast
    have "has_state env t st' i"
    proof -
      obtain st'' where st'': "has_state env t st'' i" using stored_state i rel1 by metis
      have "st'' = Accepted \<Longrightarrow> has_state env s Accepted i" using accT other(1) st'' by blast
      then have "has_state env s st'' i" using inv1 st'' by (cases "st'' = Accepted") (auto simp: turns_inv_def)
      then show ?thesis using has_state_unique [OF st'] st'' by metis
    qed
    moreover obtain st'' where st'': "has_state env u st'' i" using stored_state i rel2 by metis
    moreover have "st'' = Rejected \<Longrightarrow> has_state env t Rejected i"
      using inv2 st'' other(2) Q_beaten by (auto simp: turns_inv_def newly_def)
    ultimately have "has_state env t st'' i" using inv2 by (cases "st'' = Rejected") (auto simp: turns_inv_def)
    then have "st'' = st'" using \<open>has_state env t st' i\<close> has_state_unique by metis
    with st'' other unique show ?thesis using has_state_unique st' by metis
  qed
qed

lemma beaten_stored: "i \<in> beaten env s cid \<Longrightarrow> i \<in> stored env s"
  unfolding beaten_def by (auto elim: rtranclp.cases dest: rival_stored parent_stored)

lemma newly_rejected:
  assumes con: "consistent env s" and apart: "upwards env s cid \<inter> beaten env s cid = {}"
    and inv1: "turns_inv env Accepted (\<lambda>i p. parent env s p i) {cid} s t P P"
    and inv2: "turns_inv env Rejected (parent env t) {j. \<exists>i. newly env s t Accepted i \<and> rival env s i j} t u Q Q"
  shows "newly env t u Rejected i \<longleftrightarrow> i \<in> beaten env s cid \<and> \<not> has_state env s Rejected i"
proof
  note states = accept_reject_states [OF assms]
  assume i: "newly env t u Rejected i"
  then have st: "i \<in> stored env s"
    using has_state_stored turns_relations(3) [OF inv1] turns_relations(3) [OF inv2] unfolding newly_def by fastforce
  have up: "i \<notin> upwards env s cid" using i states [OF st, of Rejected] by (auto simp: newly_def)
  have "\<not> has_state env s Rejected i"
  proof
    assume s: "has_state env s Rejected i"
    obtain st' where st': "has_state env t st' i"
      using stored_state turns_relations(3) [OF inv1] st by metis
    have "st' \<noteq> Accepted" using accepted_upwards [OF con inv1] up st' has_state_unique [OF s] by blast
    then have "has_state env s st' i" using inv1 st' by (simp add: turns_inv_def)
    then have "st' = Rejected" using has_state_unique [OF s] by metis
    with st' have "has_state env t Rejected i" by simp
    with i show False by (simp add: newly_def)
  qed
  then show "i \<in> beaten env s cid \<and> \<not> has_state env s Rejected i"
    using i states [OF st, of Rejected] up by (auto simp: newly_def split: if_splits)
next
  note states = accept_reject_states [OF assms]
  assume i: "i \<in> beaten env s cid \<and> \<not> has_state env s Rejected i"
  then have "has_state env u Rejected i" using states beaten_stored apart by auto
  moreover have "\<not> has_state env t Rejected i" using inv1 i by (auto simp: turns_inv_def)
  ultimately show "newly env t u Rejected i" by (simp add: newly_def)
qed

end

section \<open>Creating a conflict\<close>

text \<open>A new conflict is rejected when a parent is, or a member of its conflict sets is accepted.\<close>

definition born_rejected :: "('c, 'r, 's, 'w, 'v, 'z) conflict_env_scheme \<Rightarrow> 's \<Rightarrow> 'c set \<Rightarrow> 'r set \<Rightarrow> bool" where
  "born_rejected env s parents R \<longleftrightarrow>
     (\<exists>p\<in>parents. IsRejected (confirmationState env s p)) \<or> (\<exists>r\<in>R. \<exists>m. member env s r m \<and> has_state env s Accepted m)"

lemma addConflictMembers_fold:
  "distinct rs \<Longrightarrow>
   fold (\<lambda>r (s, c, _). case addConflict r c of
       (c1, added) \<Rightarrow> (if added then storeMember env s r (con_ID c1) else s, c1, added)) rs (s, c, b) =
     (fold (\<lambda>r s. storeMember env s r (con_ID c)) (filter (\<lambda>r. r \<notin> ConflictSetIDs c) rs) s,
      c\<lparr>ConflictSetIDs := set rs \<union> ConflictSetIDs c\<rparr>,
      if rs = [] then b else last rs \<notin> ConflictSetIDs c)"
proof (induction rs arbitrary: s c b)
  case (Cons r rs)
  have f: "filter (\<lambda>x. x \<noteq> r \<and> x \<notin> ConflictSetIDs c) rs = filter (\<lambda>x. x \<notin> ConflictSetIDs c) rs"
    using Cons.prems by (auto intro: filter_cong)
  have l: "rs \<noteq> [] \<Longrightarrow> last rs \<noteq> r" using Cons.prems last_in_set by fastforce
  show ?case
    using Cons l by (simp add: addConflict_def f insert_commute)
qed simp

lemma addConflictMembers_eq:
  assumes "enumerates (resourceElems env)" and "finite R"
  shows "addConflictMembers env s c R =
     (fold (\<lambda>r s. storeMember env s r (con_ID c)) (filter (\<lambda>r. r \<notin> ConflictSetIDs c) (resourceElems env R)) s,
      c\<lparr>ConflictSetIDs := R \<union> ConflictSetIDs c\<rparr>,
      R \<noteq> {} \<and> last (resourceElems env R) \<notin> ConflictSetIDs c)"
proof -
  have e: "distinct (resourceElems env R)" "set (resourceElems env R) = R"
    using assms by (auto simp: enumerates_def)
  then have "resourceElems env R = [] \<longleftrightarrow> R = {}" by auto
  then show ?thesis unfolding addConflictMembers_def addConflictMembers_fold [OF e(1)] e(2) by auto
qed

context conflict_storage
begin

lemma storeMember_fold:
  "loadConflict env (fold (\<lambda>r s. storeMember env s r k) rs s) = loadConflict env s"
  "childConflicts env (fold (\<lambda>r s. storeMember env s r k) rs s) = childConflicts env s"
  "set (conflictMembers env (fold (\<lambda>r s. storeMember env s r k) rs s) q) =
     (if q \<in> set rs then insert k (set (conflictMembers env s q)) else set (conflictMembers env s q))"
  by (induction rs arbitrary: s) (auto simp: member_members)

lemma storeChild_fold:
  "loadConflict env (fold (\<lambda>p s. storeChild env s p k) ps s) = loadConflict env s"
  "conflictMembers env (fold (\<lambda>p s. storeChild env s p k) ps s) = conflictMembers env s"
  "set (childConflicts env (fold (\<lambda>p s. storeChild env s p k) ps s) q) =
     (if q \<in> set ps then insert k (set (childConflicts env s q)) else set (childConflicts env s q))"
  by (induction ps arbitrary: s) (auto simp: child_children)

lemma IsAccepted_confirmationState:
  "dag_ok env s \<Longrightarrow> m \<in> stored env s \<Longrightarrow> IsAccepted (confirmationState env s m) \<longleftrightarrow> has_state env s Accepted m"
  using dag_ok_state [of s] by (fastforce simp: IsAccepted_def confirmationState_def has_state_def stored_def)

lemma CreateConflict_result:
  assumes ok: "dag_ok env s" and new: "i \<notin> stored env s" and fin: "finite parents" "finite R"
  obtains s' where "CreateConflict env i parents R s = (s', True, [ConflictCreated i parents R])"
    "loadConflict env s' = (loadConflict env s)(i \<mapsto> \<lparr>con_ID = i, Parents = parents, ConflictSetIDs = R,
       con_State = (if born_rejected env s parents R then Rejected else Pending)\<rparr>)"
    "\<And>p. set (childConflicts env s' p) = (if p \<in> parents then {i} else {}) \<union> set (childConflicts env s p)"
    "\<And>r. set (conflictMembers env s' r) = (if r \<in> R then {i} else {}) \<union> set (conflictMembers env s r)"
proof -
  have none: "loadConflict env s i = None" using new by (simp add: stored_def)
  have eP: "set (conflictElems env parents) = parents" and eR: "set (resourceElems env R) = R"
    using enumeratesD conflict_elems resource_elems fin by metis+
  define s1 where "s1 = fold (\<lambda>r s. storeMember env s r i) (resourceElems env R) s"
  define c1 :: "('c, 'r) Conflict" where "c1 = \<lparr>con_ID = i, Parents = parents, ConflictSetIDs = R, con_State = Pending\<rparr>"
  define s2 where "s2 = fold (\<lambda>p s. storeChild env s p i) (conflictElems env parents) s1"
  have add: "\<exists>b. addConflictMembers env s (NewConflict i parents {}) R = (s1, c1, b)"
    by (simp add: addConflictMembers_eq [OF resource_elems fin(2)] NewConflict_def s1_def c1_def)
  have load: "loadConflict env s2 = loadConflict env s" by (simp add: s2_def s1_def storeChild_fold storeMember_fold)
  have mem: "set (conflictMembers env s2 r) = (if r \<in> R then {i} else {}) \<union> set (conflictMembers env s r)" for r
    by (simp add: s2_def s1_def storeChild_fold storeMember_fold eR)
  have chl: "set (childConflicts env s2 p) = (if p \<in> parents then {i} else {}) \<union> set (childConflicts env s p)" for p
    by (simp add: s2_def s1_def storeChild_fold storeMember_fold eP)
  have conf: "confirmationState env s2 = confirmationState env s" by (simp add: confirmationState_def load fun_eq_iff)
  have members: "set (conflictMembers env s r) = {m. member env s r m}" for r using ok by (auto simp: dag_ok_def)
  have "anyConflictingConflictAccepted env s2 c1 \<longleftrightarrow> (\<exists>r\<in>R. \<exists>m. member env s r m \<and> has_state env s Accepted m)"
  proof -
    have "IsAccepted (confirmationState env s m) \<longleftrightarrow> has_state env s Accepted m" if "member env s r m" for r m
      using IsAccepted_confirmationState [OF ok] that by (auto simp: member_def stored_def)
    moreover have "member env s r m \<Longrightarrow> m \<noteq> i" for r m using none by (auto simp: member_def)
    ultimately show ?thesis
      by (auto simp: anyConflictingConflictAccepted_def forEachConflictingConflictID_def Let_def visitSets_search
          list_ex_iff eR mem conf c1_def members)
  qed
  moreover have "anyParentRejected env s2 c1 \<longleftrightarrow> (\<exists>p\<in>parents. IsRejected (confirmationState env s p))"
    by (simp add: anyParentRejected_def list_ex_iff eP conf c1_def)
  ultimately have born: "anyParentRejected env s2 c1 \<or> anyConflictingConflictAccepted env s2 c1 \<longleftrightarrow> born_rejected env s parents R"
    by (simp add: born_rejected_def)
  let ?c = "c1\<lparr>con_State := if born_rejected env s parents R then Rejected else Pending\<rparr>"
  have "fst (setConfirmationState Rejected c1) = c1\<lparr>con_State := Rejected\<rparr>" by (simp add: setConfirmationState_def c1_def)
  then have "CreateConflict env i parents R s = (storeConflict env s2 ?c, True, [ConflictCreated i parents R])"
    using add born unfolding CreateConflict_def none createChildConflictReferences_def s2_def [symmetric]
    by (auto simp: Let_def s2_def [symmetric] c1_def)
  note run = this
  have c: "?c = \<lparr>con_ID = i, Parents = parents, ConflictSetIDs = R,
      con_State = (if born_rejected env s parents R then Rejected else Pending)\<rparr>"
    by (simp add: c1_def)
  have "loadConflict env (storeConflict env s2 ?c) = (loadConflict env s)(i \<mapsto> \<lparr>con_ID = i, Parents = parents,
      ConflictSetIDs = R, con_State = (if born_rejected env s parents R then Rejected else Pending)\<rparr>)"
    unfolding c by (auto simp: load_store load fun_eq_iff)
  note that [OF run this]
  then show thesis by (simp add: mem chl)
qed

text \<open>The relations and states after one conflict was created, in terms of those before.\<close>

lemma CreateConflict_relations:
  assumes ok: "dag_ok env s" and new: "i \<notin> stored env s" and fin: "finite parents" "finite R"
  obtains s' where "CreateConflict env i parents R s = (s', True, [ConflictCreated i parents R])"
    "stored env s' = insert i (stored env s)"
    "\<And>p j. parent env s' p j \<longleftrightarrow> (if j = i then p \<in> parents else parent env s p j)"
    "\<And>r j. member env s' r j \<longleftrightarrow> (if j = i then r \<in> R else member env s r j)"
    "\<And>st j. has_state env s' st j \<longleftrightarrow>
       (if j = i then st = (if born_rejected env s parents R then Rejected else Pending) else has_state env s st j)"
    "dag_ok env s'"
proof -
  obtain s' where run: "CreateConflict env i parents R s = (s', True, [ConflictCreated i parents R])"
    and load: "loadConflict env s' = (loadConflict env s)(i \<mapsto> \<lparr>con_ID = i, Parents = parents, ConflictSetIDs = R,
       con_State = (if born_rejected env s parents R then Rejected else Pending)\<rparr>)"
    and chl: "\<And>p. set (childConflicts env s' p) = (if p \<in> parents then {i} else {}) \<union> set (childConflicts env s p)"
    and mem: "\<And>r. set (conflictMembers env s' r) = (if r \<in> R then {i} else {}) \<union> set (conflictMembers env s r)"
    by (rule CreateConflict_result [OF assms]) (rule that, assumption+)
  have none: "loadConflict env s i = None" using new by (simp add: stored_def)
  have st: "stored env s' = insert i (stored env s)" by (auto simp: stored_def load)
  have par: "parent env s' p j \<longleftrightarrow> (if j = i then p \<in> parents else parent env s p j)" for p j
    by (simp add: parent_def load)
  have memb: "member env s' r j \<longleftrightarrow> (if j = i then r \<in> R else member env s r j)" for r j
    by (simp add: member_def load)
  have state: "has_state env s' st j \<longleftrightarrow>
       (if j = i then st = (if born_rejected env s parents R then Rejected else Pending) else has_state env s st j)" for st j
    by (auto simp: has_state_def load)
  have old: "\<not> parent env s p i" "\<not> member env s r i" for p r by (auto simp: parent_def member_def none)
  have "dag_ok env s'"
    unfolding dag_ok_def
  proof (intro conjI allI)
    show "finite (stored env s')" using ok by (simp add: dag_ok_def st)
    show "j \<in> set (childConflicts env s' p) \<longleftrightarrow> parent env s' p j" for p j
      using ok old by (auto simp: dag_ok_def chl par)
    show "j \<in> set (conflictMembers env s' r) \<longleftrightarrow> member env s' r j" for r j
      using ok old by (auto simp: dag_ok_def mem memb)
    show "loadConflict env s' j = Some c \<longrightarrow> con_ID c = j \<and> finite (Parents c) \<and> finite (ConflictSetIDs c) \<and>
        con_State c \<in> {Pending, Rejected, Accepted}" for j c
      using ok fin by (auto simp: dag_ok_def load)
  qed
  with run st par memb state show thesis by (rule that)
qed

lemma has_state_confirmationState: "has_state env s st p \<Longrightarrow> confirmationState env s p = st"
  by (auto simp: has_state_def confirmationState_def)

lemma CreateConflict_consistent:
  assumes ok: "dag_ok env s" and con: "consistent env s" and fin: "finite parents" "finite R"
    and new: "\<And>j. \<not> parent env s i j"
    and run: "CreateConflict env i parents R s = (s', created, ev)"
  shows "dag_ok env s' \<and> consistent env s'"
proof (cases "i \<in> stored env s")
  case True
  then have "s' = s" using run by (auto simp: CreateConflict_def stored_def)
  with ok con show ?thesis by simp
next
  case False
  obtain s1 where run1: "CreateConflict env i parents R s = (s1, True, [ConflictCreated i parents R])"
    and st: "stored env s1 = insert i (stored env s)"
    and par: "\<And>p j. parent env s1 p j \<longleftrightarrow> (if j = i then p \<in> parents else parent env s p j)"
    and memb: "\<And>r j. member env s1 r j \<longleftrightarrow> (if j = i then r \<in> R else member env s r j)"
    and state: "\<And>st j. has_state env s1 st j \<longleftrightarrow>
       (if j = i then st = (if born_rejected env s parents R then Rejected else Pending) else has_state env s st j)"
    and ok1: "dag_ok env s1"
    by (rule CreateConflict_relations [OF ok False fin]) (rule that, assumption+)
  have [simp]: "s' = s1" using run run1 by simp
  have down: "has_state env s1 Rejected j" if p: "has_state env s1 Rejected p" "parent env s1 p j" for p j
  proof (cases "j = i")
    case True
    have "born_rejected env s parents R"
      using p True has_state_confirmationState [of s Rejected p]
      by (cases "p = i") (auto simp: state par born_rejected_def IsRejected_def split: if_splits)
    with True show ?thesis by (simp add: state)
  next
    case False
    with p new show ?thesis using consistentD(1) [OF con] by (auto simp: state par split: if_splits)
  qed
  have up: "has_state env s1 Accepted p" if a: "has_state env s1 Accepted j" "parent env s1 p j" "p \<in> stored env s1" for p j
    using a new consistentD(2) [OF con] by (auto simp: state par st split: if_splits)
  have side: "has_state env s1 Rejected k" if a: "has_state env s1 Accepted j" "rival env s1 j k" for j k
  proof -
    have j: "j \<noteq> i" "has_state env s Accepted j" using a(1) by (auto simp: state split: if_splits)
    obtain r where r: "j \<noteq> k" "member env s r j" "member env s1 r k"
      using a(2) j(1) by (auto simp: rival_def memb)
    show ?thesis
    proof (cases "k = i")
      case True
      then have "born_rejected env s parents R" using r j by (auto simp: born_rejected_def memb)
      with True show ?thesis by (simp add: state)
    next
      case False
      then have "rival env s j k" using r by (auto simp: rival_def memb)
      with False j show ?thesis using consistentD(3) [OF con] by (simp add: state)
    qed
  qed
  have "consistent env s1" unfolding consistent_def using down up side by blast
  with ok1 show ?thesis by simp
qed

section \<open>Updating a conflict\<close>

lemma deleteChild_fold:
  "loadConflict env (fold (\<lambda>p s. deleteChild env s p k) ps s) = loadConflict env s"
  "conflictMembers env (fold (\<lambda>p s. deleteChild env s p k) ps s) = conflictMembers env s"
  "set (childConflicts env (fold (\<lambda>p s. deleteChild env s p k) ps s) q) =
     (if q \<in> set ps then set (childConflicts env s q) - {k} else set (childConflicts env s q))"
  by (induction ps arbitrary: s) (auto simp: delete_children)

lemma UpdateConflictParents_result:
  assumes ok: "dag_ok env s" and c: "loadConflict env s i = Some c" and fresh: "p0 \<notin> Parents c" and keep: "p0 \<notin> removed"
  obtains s' where
    "UpdateConflictParents env i removed p0 s =
       (s', True, [ConflictParentsUpdated i p0 removed (insert p0 (Parents c) - removed)])"
    "loadConflict env s' = (loadConflict env s)(i \<mapsto> c\<lparr>Parents := insert p0 (Parents c) - removed\<rparr>)"
    "dag_ok env s'"
proof -
  have cid: "con_ID c = i" and fin: "finite (Parents c)" "finite (ConflictSetIDs c)" and st: "con_State c \<in> {Pending, Rejected, Accepted}" using ok c by (auto simp: dag_ok_def)
  have e1: "set (conflictElems env (insert p0 (Parents c) \<inter> removed)) = insert p0 (Parents c) \<inter> removed"
    and e2: "set (conflictElems env {p0}) = {p0}"
    using enumeratesD [OF conflict_elems] fin by auto
  define s2 where "s2 = createChildConflictReferences env {p0} i
    (removeChildConflictReferences env (insert p0 (Parents c) \<inter> removed) i s)"
  define s3 where "s3 = storeConflict env s2 (SetParents (insert p0 (Parents c) - removed) c)"
  note refs = s2_def createChildConflictReferences_def removeChildConflictReferences_def
  have load2: "loadConflict env s2 = loadConflict env s" by (simp add: refs storeChild_fold deleteChild_fold)
  have load: "loadConflict env s3 = (loadConflict env s)(i \<mapsto> c\<lparr>Parents := insert p0 (Parents c) - removed\<rparr>)"
    by (auto simp: s3_def load_store load2 SetParents_def cid fun_eq_iff)
  have mem: "conflictMembers env s3 = conflictMembers env s"
    by (simp add: s3_def refs storeChild_fold deleteChild_fold)
  have chl: "set (childConflicts env s3 q) =
      (if q = p0 then {i} else {}) \<union>
      (if q \<in> insert p0 (Parents c) \<inter> removed then set (childConflicts env s q) - {i} else set (childConflicts env s q))" for q
    by (auto simp: s3_def refs storeChild_fold deleteChild_fold e1 e2)
  have memb: "member env s3 = member env s" using c by (auto simp: member_def load fun_eq_iff)
  have par: "parent env s3 q j \<longleftrightarrow> (if j = i then q \<in> insert p0 (Parents c) - removed else parent env s q j)" for q j
    by (simp add: parent_def load)
  have "dag_ok env s3"
    unfolding dag_ok_def
  proof (intro conjI allI)
    have "stored env s3 = stored env s" using c by (auto simp: stored_def load)
    then show "finite (stored env s3)" using ok by (simp add: dag_ok_def)
    have "i \<in> set (childConflicts env s q) \<longleftrightarrow> q \<in> Parents c" for q
      using ok c by (auto simp: dag_ok_def parent_def)
    moreover have "j \<in> set (childConflicts env s q) \<longleftrightarrow> parent env s q j" for q j
      using ok by (simp add: dag_ok_def)
    ultimately show "j \<in> set (childConflicts env s3 q) \<longleftrightarrow> parent env s3 q j" for q j
      using fresh keep unfolding chl par by (cases "j = i") auto
    show "j \<in> set (conflictMembers env s3 r) \<longleftrightarrow> member env s3 r j" for r j
      using ok by (simp add: dag_ok_def mem memb)
    show "loadConflict env s3 j = Some d \<longrightarrow> con_ID d = j \<and> finite (Parents d) \<and> finite (ConflictSetIDs d) \<and>
        con_State d \<in> {Pending, Rejected, Accepted}" for j d
      using ok st fin cid by (cases "j = i") (auto simp only: dag_ok_def load fun_upd_same fun_upd_other, auto)
  qed
  moreover have "UpdateConflictParents env i removed p0 s =
      (s3, True, [ConflictParentsUpdated i p0 removed (insert p0 (Parents c) - removed)])"
    using fresh by (simp add: UpdateConflictParents_def c Let_def s2_def s3_def)
  ultimately show thesis using load by (intro that)
qed

lemma UpdateConflictingResources_result:
  assumes ok: "dag_ok env s" and c: "loadConflict env s i = Some c" and R: "finite R"
  obtains s' updated where
    "UpdateConflictingResources env i R s = (s', updated, if updated then [ConflictConflictsUpdated i R] else [])"
    "updated \<longleftrightarrow> R \<noteq> {} \<and> last (resourceElems env R) \<notin> ConflictSetIDs c"
    "loadConflict env s' = (loadConflict env s)(i \<mapsto> c\<lparr>ConflictSetIDs := R \<union> ConflictSetIDs c\<rparr>)"
    "dag_ok env s'"
proof -
  have cid: "con_ID c = i" and fin: "finite (Parents c)" "finite (ConflictSetIDs c)" and st: "con_State c \<in> {Pending, Rejected, Accepted}" using ok c by (auto simp: dag_ok_def)
  have eR: "set (resourceElems env R) = R" using enumeratesD [OF resource_elems R] .
  define s1 where "s1 = fold (\<lambda>r s. storeMember env s r i) (filter (\<lambda>r. r \<notin> ConflictSetIDs c) (resourceElems env R)) s"
  define s2 where "s2 = storeConflict env s1 (c\<lparr>ConflictSetIDs := R \<union> ConflictSetIDs c\<rparr>)"
  have load: "loadConflict env s2 = (loadConflict env s)(i \<mapsto> c\<lparr>ConflictSetIDs := R \<union> ConflictSetIDs c\<rparr>)"
    by (auto simp: s2_def s1_def load_store storeMember_fold cid fun_eq_iff)
  have chl: "childConflicts env s2 = childConflicts env s" by (simp add: s2_def s1_def storeMember_fold)
  have mem: "set (conflictMembers env s2 r) =
      (if r \<in> R - ConflictSetIDs c then {i} else {}) \<union> set (conflictMembers env s r)" for r
    by (auto simp: s2_def s1_def storeMember_fold eR)
  have par: "parent env s2 = parent env s" using c by (auto simp: parent_def load fun_eq_iff)
  have memb: "member env s2 r j \<longleftrightarrow> (if j = i then r \<in> R \<union> ConflictSetIDs c else member env s r j)" for r j
    by (simp add: member_def load)
  have "dag_ok env s2"
    unfolding dag_ok_def
  proof (intro conjI allI)
    have "stored env s2 = stored env s" using c by (auto simp: stored_def load)
    then show "finite (stored env s2)" using ok by (simp add: dag_ok_def)
    show "j \<in> set (childConflicts env s2 p) \<longleftrightarrow> parent env s2 p j" for p j
      using ok by (simp add: dag_ok_def chl par)
    have "i \<in> set (conflictMembers env s r) \<longleftrightarrow> r \<in> ConflictSetIDs c" for r
      using ok c by (auto simp: dag_ok_def member_def)
    moreover have "j \<in> set (conflictMembers env s r) \<longleftrightarrow> member env s r j" for r j
      using ok by (simp add: dag_ok_def)
    ultimately show "j \<in> set (conflictMembers env s2 r) \<longleftrightarrow> member env s2 r j" for r j
      unfolding mem memb by (cases "j = i") auto
    show "loadConflict env s2 j = Some d \<longrightarrow> con_ID d = j \<and> finite (Parents d) \<and> finite (ConflictSetIDs d) \<and>
        con_State d \<in> {Pending, Rejected, Accepted}" for j d
      using ok R st fin cid by (cases "j = i") (auto simp only: dag_ok_def load fun_upd_same fun_upd_other, auto)
  qed
  moreover have "UpdateConflictingResources env i R s =
      (s2, R \<noteq> {} \<and> last (resourceElems env R) \<notin> ConflictSetIDs c,
       if R \<noteq> {} \<and> last (resourceElems env R) \<notin> ConflictSetIDs c then [ConflictConflictsUpdated i R] else [])"
    by (simp add: UpdateConflictingResources_def c addConflictMembers_eq [OF resource_elems R] s1_def s2_def cid)
  ultimately show thesis using load by (intro that) simp_all
qed

lemma UpdateConflictParents_consistent:
  assumes ok: "dag_ok env s" and con: "consistent env s" and keep: "p0 \<notin> removed"
    and down: "has_state env s Rejected p0 \<Longrightarrow> has_state env s Rejected i"
    and up: "has_state env s Accepted i \<Longrightarrow> p0 \<in> stored env s \<Longrightarrow> has_state env s Accepted p0"
    and run: "UpdateConflictParents env i removed p0 s = (s', updated, ev)"
  shows "dag_ok env s' \<and> consistent env s'"
proof (cases "\<exists>c. loadConflict env s i = Some c \<and> p0 \<notin> Parents c")
  case False
  then have "s' = s" using run by (auto simp: UpdateConflictParents_def split: option.splits if_splits)
  with ok con show ?thesis by simp
next
  case True
  then obtain c where c: "loadConflict env s i = Some c" "p0 \<notin> Parents c" by blast
  obtain s1 where run1: "UpdateConflictParents env i removed p0 s =
       (s1, True, [ConflictParentsUpdated i p0 removed (insert p0 (Parents c) - removed)])"
    and load: "loadConflict env s1 = (loadConflict env s)(i \<mapsto> c\<lparr>Parents := insert p0 (Parents c) - removed\<rparr>)"
    and ok1: "dag_ok env s1"
    by (rule UpdateConflictParents_result [OF ok c keep]) (rule that, assumption+)
  have [simp]: "s' = s1" using run run1 by simp
  have state: "has_state env s1 = has_state env s" using c by (auto simp: has_state_def load fun_eq_iff)
  have rivals: "rival env s1 = rival env s" using c by (auto simp: rival_def member_def load fun_eq_iff)
  have st: "stored env s1 = stored env s" using c by (auto simp: stored_def load)
  have par: "parent env s1 p j \<Longrightarrow> parent env s p j \<or> p = p0 \<and> j = i" for p j
    using c by (auto simp: parent_def load split: if_splits)
  have "consistent env s1"
    unfolding consistent_def state rivals st using par down up consistentD [OF con] by blast
  with ok1 show ?thesis by simp
qed

lemma UpdateConflictingResources_consistent:
  assumes ok: "dag_ok env s" and con: "consistent env s" and R: "finite R"
    and side: "\<And>r j. r \<in> R \<Longrightarrow> member env s r j \<Longrightarrow> j \<noteq> i \<Longrightarrow>
       (has_state env s Accepted j \<longrightarrow> has_state env s Rejected i) \<and> (has_state env s Accepted i \<longrightarrow> has_state env s Rejected j)"
    and run: "UpdateConflictingResources env i R s = (s', updated, ev)"
  shows "dag_ok env s' \<and> consistent env s'"
proof (cases "loadConflict env s i")
  case None
  then have "s' = s" using run by (auto simp: UpdateConflictingResources_def)
  with ok con show ?thesis by simp
next
  case (Some c)
  obtain s1 b where run1: "UpdateConflictingResources env i R s = (s1, b, if b then [ConflictConflictsUpdated i R] else [])"
    and load: "loadConflict env s1 = (loadConflict env s)(i \<mapsto> c\<lparr>ConflictSetIDs := R \<union> ConflictSetIDs c\<rparr>)"
    and ok1: "dag_ok env s1"
    by (rule UpdateConflictingResources_result [OF ok Some R]) (rule that, assumption+)
  have [simp]: "s' = s1" using run run1 by simp
  have state: "has_state env s1 = has_state env s" using Some by (auto simp: has_state_def load fun_eq_iff)
  have par: "parent env s1 = parent env s" using Some by (auto simp: parent_def load fun_eq_iff)
  have st: "stored env s1 = stored env s" using Some by (auto simp: stored_def load)
  have rivals: "rival env s1 j k \<Longrightarrow>
      rival env s j k \<or> j \<noteq> k \<and> (j = i \<and> (\<exists>r\<in>R. member env s r k) \<or> k = i \<and> (\<exists>r\<in>R. member env s r j))" for j k
    using Some by (auto simp: rival_def member_def load split: if_splits)
  have "consistent env s1"
    unfolding consistent_def state par st using rivals side consistentD [OF con] by blast
  with ok1 show ?thesis by simp
qed

text \<open>An update of a conflict that is stored keeps the states consistent only if they allow it.\<close>

lemma UpdateConflictParents_exact:
  assumes ok: "dag_ok env s" and con: "consistent env s" and keep: "p0 \<notin> removed" and i: "i \<in> stored env s"
    and run: "UpdateConflictParents env i removed p0 s = (s', updated, ev)"
  shows "consistent env s' \<longleftrightarrow> (has_state env s Rejected p0 \<longrightarrow> has_state env s Rejected i) \<and>
    (has_state env s Accepted i \<longrightarrow> p0 \<in> stored env s \<longrightarrow> has_state env s Accepted p0)"
    (is "_ \<longleftrightarrow> ?guard")
proof
  assume ?guard
  then show "consistent env s'" using UpdateConflictParents_consistent [OF ok con keep _ _ run] by blast
next
  assume con': "consistent env s'"
  obtain c where c: "loadConflict env s i = Some c" using i by (auto simp: stored_def)
  show ?guard
  proof (cases "p0 \<in> Parents c")
    case True
    then have "parent env s p0 i" using c by (simp add: parent_def)
    with consistentD [OF con] show ?thesis by blast
  next
    case False
    obtain s1 where run1: "UpdateConflictParents env i removed p0 s =
         (s1, True, [ConflictParentsUpdated i p0 removed (insert p0 (Parents c) - removed)])"
      and load: "loadConflict env s1 = (loadConflict env s)(i \<mapsto> c\<lparr>Parents := insert p0 (Parents c) - removed\<rparr>)"
      by (rule UpdateConflictParents_result [OF ok c False keep]) (rule that, assumption+)
    have [simp]: "s1 = s'" using run run1 by simp
    have state: "has_state env s' = has_state env s" using c load by (auto simp: has_state_def fun_eq_iff)
    have st: "stored env s' = stored env s" using c load by (auto simp: stored_def)
    have "parent env s' p0 i" using load keep by (simp add: parent_def)
    with consistentD [OF con'] show ?thesis unfolding state st by blast
  qed
qed

lemma UpdateConflictingResources_exact:
  assumes ok: "dag_ok env s" and con: "consistent env s" and R: "finite R" and i: "i \<in> stored env s"
    and run: "UpdateConflictingResources env i R s = (s', updated, ev)"
  shows "consistent env s' \<longleftrightarrow> (\<forall>r\<in>R. \<forall>j. member env s r j \<longrightarrow> j \<noteq> i \<longrightarrow>
    (has_state env s Accepted j \<longrightarrow> has_state env s Rejected i) \<and> (has_state env s Accepted i \<longrightarrow> has_state env s Rejected j))"
    (is "_ \<longleftrightarrow> ?guard")
proof
  assume ?guard
  then show "consistent env s'" using UpdateConflictingResources_consistent [OF ok con R _ run] by blast
next
  assume con': "consistent env s'"
  obtain c where c: "loadConflict env s i = Some c" using i by (auto simp: stored_def)
  obtain s1 b where run1: "UpdateConflictingResources env i R s = (s1, b, if b then [ConflictConflictsUpdated i R] else [])"
    and load: "loadConflict env s1 = (loadConflict env s)(i \<mapsto> c\<lparr>ConflictSetIDs := R \<union> ConflictSetIDs c\<rparr>)"
    by (rule UpdateConflictingResources_result [OF ok c R]) (rule that, assumption+)
  have [simp]: "s1 = s'" using run run1 by simp
  have state: "has_state env s' = has_state env s" using c load by (auto simp: has_state_def fun_eq_iff)
  have "rival env s' i j \<and> rival env s' j i" if "r \<in> R" "member env s r j" "j \<noteq> i" for r j
    using that load by (auto simp: rival_def member_def intro!: exI [of _ r])
  then show ?guard using consistentD(3) [OF con'] unfolding state by blast
qed

lemma SetConflictAccepted_consistent:
  assumes ok: "dag_ok env s" and con: "consistent env s" and run: "SetConflictAccepted env cid s = Some (s', m, ev)"
  shows "dag_ok env s' \<and> consistent env s'"
proof -
  obtain t u n m' ids P Q where run': "SetConflictAccepted env cid s =
      Some (u, m', replicate n (ConflictAccepted cid) @ map ConflictRejected ids)"
    and inv1: "turns_inv env Accepted (\<lambda>i p. parent env s p i) {cid} s t P P"
    and inv2: "turns_inv env Rejected (parent env t) {j. \<exists>i. newly env s t Accepted i \<and> rival env s i j} t u Q Q"
    and ok1: "dag_ok env u"
    by (rule SetConflictAccepted_result [OF ok]) (rule that, assumption+)
  have "s' = u" using run run' by simp
  with accept_reject_consistent [OF con inv1 inv2] ok1 show ?thesis by simp
qed

end

section \<open>Runs of the conflict DAG\<close>

text \<open>
  The guards of a run, which the code does not check: a conflict is created before its children, a new parent is added
  only where that does not contradict the states, and so is a new conflict set.
\<close>

inductive dag_run :: "('c, 'r, 's, 'w, 'v, 'z) conflict_env_scheme \<Rightarrow> 's \<Rightarrow> 's \<Rightarrow> bool" for env s0 where
  start: "dag_run env s0 s0"
| create: "dag_run env s0 s \<Longrightarrow> finite parents \<Longrightarrow> finite R \<Longrightarrow> \<forall>j. \<not> parent env s i j \<Longrightarrow>
    CreateConflict env i parents R s = (s', b, ev) \<Longrightarrow> dag_run env s0 s'"
| parents: "dag_run env s0 s \<Longrightarrow> p \<notin> removed \<Longrightarrow>
    has_state env s Rejected p \<longrightarrow> has_state env s Rejected i \<Longrightarrow>
    has_state env s Accepted i \<longrightarrow> p \<in> stored env s \<longrightarrow> has_state env s Accepted p \<Longrightarrow>
    UpdateConflictParents env i removed p s = (s', b, ev) \<Longrightarrow> dag_run env s0 s'"
| resources: "dag_run env s0 s \<Longrightarrow> finite R \<Longrightarrow>
    \<forall>r\<in>R. \<forall>j. member env s r j \<longrightarrow> j \<noteq> i \<longrightarrow>
      (has_state env s Accepted j \<longrightarrow> has_state env s Rejected i) \<and> (has_state env s Accepted i \<longrightarrow> has_state env s Rejected j) \<Longrightarrow>
    UpdateConflictingResources env i R s = (s', b, ev) \<Longrightarrow> dag_run env s0 s'"
| accept: "dag_run env s0 s \<Longrightarrow> SetConflictAccepted env i s = Some (s', b, ev) \<Longrightarrow> dag_run env s0 s'"

lemma dag_ok_empty: "dag_ok env s \<Longrightarrow> stored env s = {} \<Longrightarrow> consistent env s"
  by (auto simp: consistent_def dest: has_state_stored)

context conflict_storage
begin

lemma dag_run_consistent:
  assumes "dag_run env s0 s" and "dag_ok env s0" and "stored env s0 = {}"
  shows "dag_ok env s \<and> consistent env s"
  using assms(1)
proof induction
  case start
  show ?case using dag_ok_empty [OF assms(2,3)] assms(2) by simp
next
  case (create s parents R i s' b ev)
  then have ok: "dag_ok env s" "consistent env s" by simp_all
  show ?case by (rule CreateConflict_consistent [OF ok create(2,3) _ create(5)]) (use create(4) in simp)
next
  case (parents s p removed i s' b ev)
  then have ok: "dag_ok env s" "consistent env s" by simp_all
  show ?case by (rule UpdateConflictParents_consistent [OF ok parents(2) _ _ parents(5)]) (use parents(3,4) in simp_all)
next
  case (resources s R i s' b ev)
  then have ok: "dag_ok env s" "consistent env s" by simp_all
  show ?case by (rule UpdateConflictingResources_consistent [OF ok resources(2) _ resources(4)]) (use resources(3) in simp)
next
  case (accept s i s' b ev)
  then have ok: "dag_ok env s" "consistent env s" by simp_all
  show ?case by (rule SetConflictAccepted_consistent [OF ok accept(2)])
qed

end

end
