(* ===== verification/ConflictMachine.thy ===== *)
theory ConflictMachine
  imports ConflictProperties
begin

text \<open>
  The properties of the conflict DAG, over the interfaces of the external packages, and a concrete
  environment in which the witnesses run: maps for the three storages and a first-in first-out
  walker.
\<close>

declare accept_loop.simps [code] reject_loop.simps [code]

section \<open>A concrete environment\<close>

type_synonym dag0 = "(nat \<Rightarrow> (nat, nat) Conflict option) \<times> (nat \<Rightarrow> nat list) \<times> (nat \<Rightarrow> nat list)"

definition conflicts0 :: "(nat, nat, dag0, nat list \<times> nat list, nat list \<times> nat list) conflict_env" where
  "conflicts0 =
     \<lparr>loadConflict = fst, storeConflict = (\<lambda>(l, k, m) c. (l(con_ID c \<mapsto> c), k, m)),
      childConflicts = (\<lambda>s. fst (snd s)),
      storeChild = (\<lambda>(l, k, m) p i. (l, k(p := List.insert i (k p)), m)),
      deleteChild = (\<lambda>(l, k, m) p i. (l, k(p := removeAll i (k p)), m)),
      conflictMembers = (\<lambda>s. snd (snd s)),
      storeMember = (\<lambda>(l, k, m) r i. (l, k, m(r := List.insert i (m r)))),
      conflictElems = sorted_list_of_set, resourceElems = sorted_list_of_set,
      newWalk = ([], []), pushWalk = (\<lambda>(q, seen) x. if x \<in> set seen then (q, seen) else (q @ [x], x # seen)),
      nextWalk = (\<lambda>(q, seen). case q of [] \<Rightarrow> None | x # q' \<Rightarrow> Some (x, (q', seen))),
      newSetWalk = ([], []), pushSetWalk = (\<lambda>(q, seen) x. if x \<in> set seen then (q, seen) else (q @ [x], x # seen)),
      nextSetWalk = (\<lambda>(q, seen). case q of [] \<Rightarrow> None | x # q' \<Rightarrow> Some (x, (q', seen))),
      zeroState = OtherState 0, aggregate = (\<lambda>a b. if a = Rejected then a else b)\<rparr>"

interpretation c0: conflict_storage conflicts0 fst "\<lambda>w. set (snd w)"
  by unfold_locales (auto simp: conflicts0_def enumerates_def split: list.splits if_splits)

text \<open>Conflict 2 is the child of 1, and 4 the child of 3; 1 and 3 compete for the resource 10.\<close>

definition empty0 :: dag0 where
  "empty0 = (Map.empty, (\<lambda>_. []), (\<lambda>_. []))"

definition create0 :: "nat \<Rightarrow> nat set \<Rightarrow> nat set \<Rightarrow> dag0 \<Rightarrow> dag0" where
  "create0 i parents R s = fst (CreateConflict conflicts0 i parents R s)"

definition state0 :: dag0 where
  "state0 = create0 4 {3} {11} (create0 3 {} {10} (create0 2 {1} {12} (create0 1 {} {10} empty0)))"

lemmas create0_simps = create0_def CreateConflict_def conflicts0_def empty0_def addConflictMembers_def
  NewConflict_def addConflict_def createChildConflictReferences_def anyParentRejected_def
  anyConflictingConflictAccepted_def forEachConflictingConflictID_def confirmationState_def IsRejected_def
  IsAccepted_def Let_def

lemma load0: "loadConflict conflicts0 state0 =
   [1 \<mapsto> \<lparr>con_ID = 1, Parents = {}, ConflictSetIDs = {10}, con_State = Pending\<rparr>,
    2 \<mapsto> \<lparr>con_ID = 2, Parents = {1}, ConflictSetIDs = {12}, con_State = Pending\<rparr>,
    3 \<mapsto> \<lparr>con_ID = 3, Parents = {}, ConflictSetIDs = {10}, con_State = Pending\<rparr>,
    4 \<mapsto> \<lparr>con_ID = 4, Parents = {3}, ConflictSetIDs = {11}, con_State = Pending\<rparr>]"
  by (simp add: state0_def create0_simps fun_eq_iff)

lemma dag_run0_create:
  assumes "dag_run conflicts0 empty0 s" and "finite parents" and "finite R" and "\<forall>j. \<not> parent conflicts0 s i j"
  shows "dag_run conflicts0 empty0 (create0 i parents R s)"
  by (rule dag_run.create [OF assms, of _ "fst (snd (CreateConflict conflicts0 i parents R s))"
        "snd (snd (CreateConflict conflicts0 i parents R s))"]) (simp add: create0_def)

lemma dag_run0: "dag_run conflicts0 empty0 state0"
  unfolding state0_def
  by (intro dag_run0_create dag_run.start) (simp_all add: parent_def create0_simps)

lemma empty0_ok: "dag_ok conflicts0 empty0" "stored conflicts0 empty0 = {}"
  by (auto simp: dag_ok_def stored_def parent_def member_def empty0_def conflicts0_def)

lemma state0_ok: "dag_ok conflicts0 state0" "consistent conflicts0 state0"
  using c0.dag_run_consistent [OF dag_run0 empty0_ok] by simp_all

text \<open>The relations of the state.\<close>

lemma state0_relations:
  "parent conflicts0 state0 p i \<longleftrightarrow> p = 1 \<and> i = 2 \<or> p = 3 \<and> i = 4"
  "rival conflicts0 state0 i j \<longleftrightarrow> i = 1 \<and> j = 3 \<or> i = 3 \<and> j = 1"
  "stored conflicts0 state0 = {1, 2, 3, 4}"
  "has_state conflicts0 state0 st i \<longleftrightarrow> st = Pending \<and> i \<in> {1, 2, 3, 4}"
  by (auto simp: parent_def rival_def member_def stored_def has_state_def load0)

lemma state0_ancestor: "ancestor conflicts0 state0 a i \<longleftrightarrow> a = i \<or> a = 1 \<and> i = 2 \<or> a = 3 \<and> i = 4"
proof
  assume "ancestor conflicts0 state0 a i"
  then show "a = i \<or> a = 1 \<and> i = 2 \<or> a = 3 \<and> i = 4"
    by (induction rule: rtranclp_induct) (auto simp: state0_relations)
qed (auto simp: state0_relations)

lemma state0_upwards: "upwards conflicts0 state0 2 = {1, 2}"
  unfolding upwards_def state0_relations state0_ancestor by auto

lemma state0_beaten: "beaten conflicts0 state0 2 = {3, 4}"
  unfolding beaten_def state0_upwards state0_relations state0_ancestor by auto

section \<open>Properties\<close>

text \<open>C5: the confirmation states are consistent (the children of a rejected conflict are rejected, the
  parents of an accepted one are accepted, and of two conflicts that compete for a resource never both are accepted) in
  every state that is reached by creating conflicts before their children, accepting any conflicts, and updates
  that do not contradict the states.  The code does not check the latter: an update of the parents or of the conflict sets of
  a stored conflict, made in such a state, leaves the states consistent exactly if it does not contradict them.\<close>

theorem dag_states_consistent:
  assumes "conflict_storage env pending pushed" and "dag_ok env s0" and "stored env s0 = {}" and "dag_run env s0 s"
  shows "consistent env s \<and>
    \<not> (\<exists>i j. rival env s i j \<and> has_state env s Accepted i \<and> has_state env s Accepted j) \<and>
    (\<forall>i removed p s' b ev. i \<in> stored env s \<longrightarrow> p \<notin> removed \<longrightarrow> UpdateConflictParents env i removed p s = (s', b, ev) \<longrightarrow>
      (consistent env s' \<longleftrightarrow> (has_state env s Rejected p \<longrightarrow> has_state env s Rejected i) \<and>
         (has_state env s Accepted i \<longrightarrow> p \<in> stored env s \<longrightarrow> has_state env s Accepted p))) \<and>
    (\<forall>i R s' b ev. i \<in> stored env s \<longrightarrow> finite R \<longrightarrow> UpdateConflictingResources env i R s = (s', b, ev) \<longrightarrow>
      (consistent env s' \<longleftrightarrow> (\<forall>r\<in>R. \<forall>j. member env s r j \<longrightarrow> j \<noteq> i \<longrightarrow>
         (has_state env s Accepted j \<longrightarrow> has_state env s Rejected i) \<and>
         (has_state env s Accepted i \<longrightarrow> has_state env s Rejected j))))"
proof -
  have ok: "dag_ok env s" and con: "consistent env s"
    using conflict_storage.dag_run_consistent [OF assms(1,4,2,3)] by simp_all
  have "\<not> (has_state env s Accepted i \<and> has_state env s Accepted j)" if r: "rival env s i j" for i j
    using consistentD(3) [OF con _ r] has_state_unique [of env s Accepted j Rejected] by auto
  then have "\<not> (\<exists>i j. rival env s i j \<and> has_state env s Accepted i \<and> has_state env s Accepted j)" by blast
  then show ?thesis
    by (intro conjI allI impI con) (assumption |
      rule conflict_storage.UpdateConflictParents_exact [OF assms(1) ok con] conflict_storage.UpdateConflictingResources_exact [OF assms(1) ok con])+
qed

text \<open>Once 2 is accepted, and with it 3 is rejected, making 3 a parent of 2 leaves the states inconsistent.\<close>

lemma accept0_run:
  "case SetConflictAccepted conflicts0 2 state0 of
     Some (s, _) \<Rightarrow> map_option con_State (fst s 2) = Some Accepted \<and> map_option con_State (fst s 3) = Some Rejected
   | None \<Rightarrow> False"
  by code_simp

theorem dag_states_consistent_witness:
  "\<exists>s m ev. SetConflictAccepted conflicts0 2 state0 = Some (s, m, ev) \<and> consistent conflicts0 s \<and>
     \<not> consistent conflicts0 (fst (UpdateConflictParents conflicts0 2 {} 3 s))"
proof -
  obtain s m ev where s: "SetConflictAccepted conflicts0 2 state0 = Some (s, m, ev)"
    and st: "has_state conflicts0 s Accepted 2" "has_state conflicts0 s Rejected 3"
    using accept0_run by (auto simp: has_state_def conflicts0_def split: option.splits)
  obtain s' b ev' where u: "UpdateConflictParents conflicts0 2 {} 3 s = (s', b, ev')" by (metis prod_cases3)
  have "\<not> has_state conflicts0 s Rejected 2" using st(1) has_state_unique [of conflicts0 s Accepted 2 Rejected] by auto
  with dag_states_consistent [OF c0.conflict_storage_axioms empty0_ok dag_run.accept [OF dag_run0 s]] st u has_state_stored [OF st(1)]
  have "consistent conflicts0 s" "\<not> consistent conflicts0 s'" by blast+
  with s u show ?thesis by auto
qed

text \<open>C6: SetConflictAccepted returns, accepts the conflict and its ancestors, rejects the descendants
  of everything that competes with one of these, and leaves the other conflicts as they are, when
  no ancestor descends from a competitor of another.  A rejection is announced exactly once for
  every conflict that becomes rejected.\<close>

theorem SetConflictAccepted_states:
  assumes "conflict_storage env pending pushed" and "dag_ok env s" and "consistent env s"
    and "upwards env s cid \<inter> beaten env s cid = {}"
  shows "\<exists>u m n ids. SetConflictAccepted env cid s =
      Some (u, m, replicate n (ConflictAccepted cid) @ map ConflictRejected ids) \<and>
    (\<forall>i\<in>stored env s. has_state env u
       (if i \<in> upwards env s cid then Accepted else if i \<in> beaten env s cid then Rejected
        else confirmationState env s i) i) \<and>
    distinct ids \<and> set ids = {i \<in> beaten env s cid. \<not> has_state env s Rejected i}"
proof -
  obtain t u n m ids P Q where run: "SetConflictAccepted env cid s =
      Some (u, m, replicate n (ConflictAccepted cid) @ map ConflictRejected ids)"
    and inv1: "turns_inv env Accepted (\<lambda>i p. parent env s p i) {cid} s t P P"
    and inv2: "turns_inv env Rejected (parent env t) {j. \<exists>i. newly env s t Accepted i \<and> rival env s i j} t u Q Q"
    and ids: "distinct ids" "set ids = {i. newly env t u Rejected i}"
    by (rule conflict_storage.SetConflictAccepted_result [OF assms(1,2)]) (rule that, assumption+)
  note states = conflict_storage.accept_reject_states [OF assms(1,3,4) inv1 inv2]
  have all: "has_state env u (if i \<in> upwards env s cid then Accepted else if i \<in> beaten env s cid then Rejected
        else confirmationState env s i) i" if i: "i \<in> stored env s" for i
  proof -
    obtain st where "has_state env s st i" using stored_state [OF i] by blast
    then show ?thesis using states [OF i] conflict_storage.has_state_confirmationState [OF assms(1)] by simp
  qed
  have "set ids = {i \<in> beaten env s cid. \<not> has_state env s Rejected i}"
    unfolding ids(2) conflict_storage.newly_rejected [OF assms(1,3,4) inv1 inv2] ..
  with run all ids(1) show ?thesis by blast
qed

lemma state0_apart: "upwards conflicts0 state0 2 \<inter> beaten conflicts0 state0 2 = {}"
  unfolding state0_upwards state0_beaten by simp

theorem SetConflictAccepted_states_witness:
  "\<exists>u m ev. SetConflictAccepted conflicts0 2 state0 = Some (u, m, ev) \<and> has_state conflicts0 u Accepted 1 \<and>
     has_state conflicts0 u Accepted 2 \<and> has_state conflicts0 u Rejected 3 \<and> has_state conflicts0 u Rejected 4"
proof -
  note h = SetConflictAccepted_states [OF c0.conflict_storage_axioms state0_ok state0_apart]
  obtain u m n ids where run: "SetConflictAccepted conflicts0 2 state0 =
      Some (u, m, replicate n (ConflictAccepted 2) @ map ConflictRejected ids)"
    and states: "\<forall>i\<in>stored conflicts0 state0. has_state conflicts0 u
       (if i \<in> upwards conflicts0 state0 2 then Accepted else if i \<in> beaten conflicts0 state0 2 then Rejected
        else confirmationState conflicts0 state0 i) i"
    using h by (elim exE conjE)
  from states have "has_state conflicts0 u Accepted 1" "has_state conflicts0 u Accepted 2"
    "has_state conflicts0 u Rejected 3" "has_state conflicts0 u Rejected 4"
    by (simp_all add: state0_upwards state0_beaten state0_relations)
  with run show ?thesis by blast
qed

text \<open>C34: an ancestor that is accepted along with a conflict is not announced: the event of every
  acceptance carries the identifier that was passed to SetConflictAccepted, so that no event names
  the ancestor.\<close>

theorem accepted_ancestor_not_announced:
  assumes "conflict_storage env pending pushed" and "dag_ok env s" and "consistent env s"
    and "upwards env s cid \<inter> beaten env s cid = {}"
    and "a \<in> upwards env s cid" and "a \<noteq> cid" and "SetConflictAccepted env cid s = Some (u, m, ev)"
  shows "has_state env u Accepted a \<and> ConflictAccepted a \<notin> set ev"
proof -
  obtain t u' n m' ids P Q where run: "SetConflictAccepted env cid s =
      Some (u', m', replicate n (ConflictAccepted cid) @ map ConflictRejected ids)"
    and inv1: "turns_inv env Accepted (\<lambda>i p. parent env s p i) {cid} s t P P"
    and inv2: "turns_inv env Rejected (parent env t) {j. \<exists>i. newly env s t Accepted i \<and> rival env s i j} t u' Q Q"
    by (rule conflict_storage.SetConflictAccepted_result [OF assms(1,2)]) (rule that, assumption+)
  have "a \<in> stored env s" using assms(5) by (simp add: upwards_def)
  then have "has_state env u' Accepted a"
    using conflict_storage.accept_reject_states [OF assms(1,3,4) inv1 inv2] assms(5) by simp
  with run assms(6,7) show ?thesis by auto
qed

theorem accepted_ancestor_not_announced_witness:
  "\<exists>u m ev. SetConflictAccepted conflicts0 2 state0 = Some (u, m, ev) \<and> has_state conflicts0 u Accepted 1 \<and>
     ConflictAccepted 1 \<notin> set ev"
proof -
  obtain u m ev where run: "SetConflictAccepted conflicts0 2 state0 = Some (u, m, ev)"
    by (rule c0.SetConflictAccepted_result [OF state0_ok(1)]) (rule that, assumption)
  moreover have "1 \<in> upwards conflicts0 state0 2" by (simp add: state0_upwards)
  ultimately show ?thesis
    using accepted_ancestor_not_announced [OF c0.conflict_storage_axioms state0_ok state0_apart _ _ run] by force
qed

text \<open>UpdateConflictingResources joins a conflict to all the given conflict sets, but it reports an
  update, and triggers its event, according to the last of them in the order of iteration: when the
  conflict is a member of that one already, a change goes unannounced.\<close>

theorem UpdateConflictingResources_unannounced:
  assumes "conflict_storage env pending pushed" and "dag_ok env s" and "loadConflict env s i = Some c"
    and "finite R" and "r \<in> R" and "r \<notin> ConflictSetIDs c" and "last (resourceElems env R) \<in> ConflictSetIDs c"
  shows "\<exists>s'. UpdateConflictingResources env i R s = (s', False, []) \<and> member env s' r i \<and> \<not> member env s r i"
proof -
  obtain s' updated where run: "UpdateConflictingResources env i R s =
       (s', updated, if updated then [ConflictConflictsUpdated i R] else [])"
    and upd: "updated \<longleftrightarrow> R \<noteq> {} \<and> last (resourceElems env R) \<notin> ConflictSetIDs c"
    and load: "loadConflict env s' = (loadConflict env s)(i \<mapsto> c\<lparr>ConflictSetIDs := R \<union> ConflictSetIDs c\<rparr>)"
    by (rule conflict_storage.UpdateConflictingResources_result [OF assms(1,2,3,4)]) (rule that, assumption+)
  have "\<not> updated" using upd assms(7) by simp
  with run load assms(3,5,6) show ?thesis by (auto simp: member_def)
qed

theorem UpdateConflictingResources_unannounced_witness:
  "\<exists>s'. UpdateConflictingResources conflicts0 2 {5, 12} state0 = (s', False, []) \<and> member conflicts0 s' 5 2"
proof -
  have "last (resourceElems conflicts0 {5, 12}) = 12" by (simp add: conflicts0_def)
  then show ?thesis
    using UpdateConflictingResources_unannounced [OF c0.conflict_storage_axioms state0_ok(1), of 2
        "\<lparr>con_ID = 2, Parents = {1}, ConflictSetIDs = {12}, con_State = Pending\<rparr>" "{5, 12}" 5]
    by (auto simp: load0)
qed

end
