(* ===== verification/Omv.thy ===== *)
theory Omv
  imports ConflictMachine
begin

text \<open>
  On mesh voting (packages/core/consensus/omv/omv.go): which conflicts a node likes, by the approval
  weight of the conflicts that are connected through conflict sets.

  The weight function is a parameter; weights are a linear order (a float64 that is no NaN).  The
  order on identifiers is that of their bytes, and empty the EmptyTransactionID.  A loop that
  need not end is a partial function into option.
\<close>

section \<open>Conflicts in descending order of weight\<close>

text \<open>
  The comparison that is handed to sort.Slice.  The slice that is sorted lists the
  elements of a set, so that no two are equal and the comparison is a strict order on them.
\<close>

definition weightLess :: "('c :: linorder \<Rightarrow> 'q :: linorder) \<Rightarrow> 'c \<Rightarrow> 'c \<Rightarrow> bool" where
  "weightLess weight i j = (\<not> (weight i < weight j \<or> weight i = weight j \<and> i > j))"

fun sortedInsert :: "('a \<Rightarrow> 'a \<Rightarrow> bool) \<Rightarrow> 'a \<Rightarrow> 'a list \<Rightarrow> 'a list" where
  "sortedInsert lt x [] = [x]"
| "sortedInsert lt x (y # ys) = (if lt x y then x # y # ys else y # sortedInsert lt x ys)"

definition sortSlice :: "('a \<Rightarrow> 'a \<Rightarrow> bool) \<Rightarrow> 'a list \<Rightarrow> 'a list" where
  "sortSlice lt xs = foldr (sortedInsert lt) xs []"

text \<open>The conflicts that forEachConnectedConflictingConflictInDescendingOrder visits, in order.\<close>

definition descendingOrder ::
    "('c :: linorder, 'r, 's, 'w, 'v, 'z) conflict_env_scheme \<Rightarrow> ('c \<Rightarrow> 'q :: linorder) \<Rightarrow> 's \<Rightarrow> 'c \<Rightarrow> 'c list option" where
  "descendingOrder env weight s i =
     map_option (\<lambda>traversed. sortSlice (weightLess weight) (conflictElems env traversed)) (connectedConflicts env s i)"

section \<open>Disliked conflicts\<close>

partial_function (option) dislike_loop ::
    "('c, 'r, 's, 'w, 'v, 'z) conflict_env_scheme \<Rightarrow> 's \<Rightarrow> 'w \<Rightarrow> 'c set \<Rightarrow> 'c set option" where
  "dislike_loop env s rejection disliked =
     (case nextWalk env rejection of
        None \<Rightarrow> Some disliked
      | Some (i, rejection1) \<Rightarrow>
          dislike_loop env s (fold (\<lambda>p w. pushWalk env w p) (childConflicts env s i) rejection1) (insert i disliked))"

definition dislikeRivals ::
    "('c, 'r, 's, 'w, 'v, 'z) conflict_env_scheme \<Rightarrow> 's \<Rightarrow> 'c \<Rightarrow> 'c set \<Rightarrow> 'c set option" where
  "dislikeRivals env s i disliked =
     (if i \<in> disliked then Some disliked
      else dislike_loop env s
             (ForEachConflictingByID env s i (\<lambda>m w. (pushWalk env w m, True)) (newWalk env)) disliked)"

fun dislikeEach ::
    "('c, 'r, 's, 'w, 'v, 'z) conflict_env_scheme \<Rightarrow> 's \<Rightarrow> 'c list \<Rightarrow> 'c set \<Rightarrow> 'c set option" where
  "dislikeEach env s [] disliked = Some disliked"
| "dislikeEach env s (i # is') disliked = Option.bind (dislikeRivals env s i disliked) (dislikeEach env s is')"

definition dislikedConnectedConflictingConflicts ::
    "('c :: linorder, 'r, 's, 'w, 'v, 'z) conflict_env_scheme \<Rightarrow> ('c \<Rightarrow> 'q :: linorder) \<Rightarrow> 's \<Rightarrow> 'c \<Rightarrow> 'c set option" where
  "dislikedConnectedConflictingConflicts env weight s i =
     Option.bind (descendingOrder env weight s i) (\<lambda>ordered. dislikeEach env s ordered {})"

section \<open>Liked conflicts\<close>

text \<open>
  The case of an accepted conflict is empty, and a case of a Go switch does not fall through: it
  goes on to the weights like a pending one.
\<close>

definition conflictPreferred ::
    "('c :: linorder, 'r, 's, 'w, 'v, 'z) conflict_env_scheme \<Rightarrow> 'c \<Rightarrow> ('c \<Rightarrow> 'q :: linorder) \<Rightarrow> 's \<Rightarrow> 'c \<Rightarrow> 'w \<Rightarrow>
     (bool \<times> 'w) option" where
  "conflictPreferred env emptyID weight s i likeWalker =
     (if i = emptyID then Some (True, likeWalker)
      else case loadConflict env s i of
        None \<Rightarrow> Some (True, likeWalker)
      | Some c \<Rightarrow>
          if con_State c = Rejected then Some (False, likeWalker)
          else if con_State c = Confirmed then Some (True, likeWalker)
          else Option.bind (dislikedConnectedConflictingConflicts env weight s i)
            (\<lambda>disliked.
               if i \<notin> disliked
               then Some (True, fold (\<lambda>p w. pushWalk env w p) (conflictElems env (Parents c)) likeWalker)
               else Some (False, likeWalker)))"

partial_function (option) like_loop ::
    "('c :: linorder, 'r, 's, 'w, 'v, 'z) conflict_env_scheme \<Rightarrow> 'c \<Rightarrow> ('c \<Rightarrow> 'q :: linorder) \<Rightarrow> 's \<Rightarrow> 'w \<Rightarrow> bool option" where
  "like_loop env emptyID weight s likeWalker =
     (case nextWalk env likeWalker of
        None \<Rightarrow> Some True
      | Some (i, likeWalker1) \<Rightarrow>
          Option.bind (conflictPreferred env emptyID weight s i likeWalker1)
            (\<lambda>(conflictLiked, likeWalker2).
               if conflictLiked then like_loop env emptyID weight s likeWalker2 else Some False))"

definition ConflictLiked ::
    "('c :: linorder, 'r, 's, 'w, 'v, 'z) conflict_env_scheme \<Rightarrow> 'c \<Rightarrow> ('c \<Rightarrow> 'q :: linorder) \<Rightarrow> 's \<Rightarrow> 'c \<Rightarrow> bool option" where
  "ConflictLiked env emptyID weight s i =
     (if i = emptyID then Some True
      else like_loop env emptyID weight s (pushWalk env (newWalk env) i))"

text \<open>The callback of LikedConflictMember: the liked conflict so far (empty when there is none) and the
  disliked ones.\<close>

definition likeMember ::
    "('c :: linorder, 'r, 's, 'w, 'v, 'z) conflict_env_scheme \<Rightarrow> 'c \<Rightarrow> ('c \<Rightarrow> 'q :: linorder) \<Rightarrow> 's \<Rightarrow> 'c \<Rightarrow>
     'c \<times> 'c set \<Rightarrow> ('c \<times> 'c set) option" where
  "likeMember env emptyID weight s m = (\<lambda>(liked, disliked).
     if liked = emptyID
     then Option.bind (ConflictLiked env emptyID weight s m)
       (\<lambda>l. Some (if l then (m, disliked) else (liked, insert m disliked)))
     else Some (liked, insert m disliked))"

definition LikedConflictMember ::
    "('c :: linorder, 'r, 's, 'w, 'v, 'z) conflict_env_scheme \<Rightarrow> 'c \<Rightarrow> ('c \<Rightarrow> 'q :: linorder) \<Rightarrow> 's \<Rightarrow> 'c \<Rightarrow>
     ('c \<times> 'c set) option" where
  "LikedConflictMember env emptyID weight s i =
     Option.bind (ConflictLiked env emptyID weight s i) (\<lambda>l.
       ForEachConflictingByID env s i (\<lambda>m x. (Option.bind x (likeMember env emptyID weight s m), True))
         (Some (if l then (i, {}) else (emptyID, {i}))))"

end
