(* ===== verification/OmvLaws.thy ===== *)
theory OmvLaws
  imports Omv
begin

text \<open>
  Laws of on mesh voting: its loops end, and what they compute in terms of the relations of
  the conflict DAG.
\<close>

locale vote_storage =
  conflict_storage env pending pushed +
  once_walker "newWalk env" "pushWalk env" "nextWalk env" pending pushed +
  sets: once_walker "newSetWalk env" "pushSetWalk env" "nextSetWalk env" spending spushed
  for env :: "('c :: linorder, 'r, 's, 'w, 'v, 'z) conflict_env_scheme"
    and pending :: "'w \<Rightarrow> 'c list" and pushed :: "'w \<Rightarrow> 'c set"
    and spending :: "'v \<Rightarrow> 'r list" and spushed :: "'v \<Rightarrow> 'r set"

section \<open>Connected conflicts\<close>

definition linked :: "('c, 'r, 's, 'w, 'v, 'z) conflict_env_scheme \<Rightarrow> 's \<Rightarrow> 'c \<Rightarrow> 'c \<Rightarrow> bool" where
  "linked env s i j \<longleftrightarrow> (\<exists>r. member env s r i \<and> member env s r j)"

definition connected :: "('c, 'r, 's, 'w, 'v, 'z) conflict_env_scheme \<Rightarrow> 's \<Rightarrow> 'c \<Rightarrow> 'c set" where
  "connected env s i = {j. (linked env s)\<^sup>*\<^sup>* i j}"

lemma linked_sym: "linked env s i j \<Longrightarrow> linked env s j i"
  by (auto simp: linked_def)

lemma connected_sym: "(linked env s)\<^sup>*\<^sup>* i j \<Longrightarrow> (linked env s)\<^sup>*\<^sup>* j i"
  by (induction rule: rtranclp_induct) (auto intro: linked_sym converse_rtranclp_into_rtranclp)

lemma rival_connected: "rival env s i j \<Longrightarrow> connected env s i = connected env s j"
proof -
  assume "rival env s i j"
  then have "linked env s i j" "linked env s j i" by (auto simp: rival_def linked_def)
  then show ?thesis
    by (auto simp: connected_def intro: converse_rtranclp_into_rtranclp)
qed

lemma member_finite: "dag_ok env s \<Longrightarrow> finite {r. \<exists>i. member env s r i}"
proof -
  assume ok: "dag_ok env s"
  have "{r. \<exists>i. member env s r i} = (\<Union>i\<in>stored env s. {r. member env s r i})"
    by (auto simp: member_def stored_def)
  moreover have "finite {r. member env s r i}" for i
    using ok by (cases "loadConflict env s i") (auto simp: dag_ok_def member_def)
  ultimately show ?thesis using ok by (simp add: dag_ok_def)
qed

lemma connected_finite:
  assumes "dag_ok env s"
  shows "finite (connected env s i)"
proof -
  have "connected env s i \<subseteq> insert i (stored env s)"
  proof
    fix j assume "j \<in> connected env s i"
    then have "(linked env s)\<^sup>*\<^sup>* i j" by (simp add: connected_def)
    then show "j \<in> insert i (stored env s)"
      by cases (auto simp: linked_def member_def stored_def)
  qed
  moreover have "finite (insert i (stored env s))" using assms by (simp add: dag_ok_def)
  ultimately show ?thesis by (rule finite_subset)
qed

context vote_storage
begin

lemma queueConflictSets_eq:
  assumes "dag_ok env s"
  shows "\<exists>rs. queueConflictSets env s m (T, w) = (insert m T, fold (\<lambda>r w. pushSetWalk env w r) rs w) \<and>
    set rs = (if m \<in> T then {} else {r. member env s r m})"
proof (cases "m \<in> T \<or> loadConflict env s m = None")
  case True
  then show ?thesis by (intro exI [of _ "[]"]) (auto simp: queueConflictSets_def member_def)
next
  case False
  then obtain c where c: "loadConflict env s m = Some c" "m \<notin> T" by auto
  then have "finite (ConflictSetIDs c)" using assms by (auto simp: dag_ok_def)
  then have "set (resourceElems env (ConflictSetIDs c)) = {r. member env s r m}"
    using enumeratesD [OF resource_elems] c by (auto simp: member_def)
  with c show ?thesis
    by (intro exI [of _ "resourceElems env (ConflictSetIDs c)"]) (simp add: queueConflictSets_def)
qed

lemma queueConflictSets_fold:
  assumes "dag_ok env s"
  shows "\<exists>rs. fold (queueConflictSets env s) ms (T, w) = (set ms \<union> T, fold (\<lambda>r w. pushSetWalk env w r) rs w) \<and>
    set rs = {r. \<exists>m\<in>set ms - T. member env s r m}"
proof (induction ms arbitrary: T w)
  case Nil
  then show ?case by (intro exI [of _ "[]"]) simp
next
  case (Cons m ms)
  obtain rs where rs: "queueConflictSets env s m (T, w) = (insert m T, fold (\<lambda>r w. pushSetWalk env w r) rs w)"
    "set rs = (if m \<in> T then {} else {r. member env s r m})"
    using queueConflictSets_eq [OF assms] by blast
  obtain rs' where rs': "fold (queueConflictSets env s) ms (insert m T, fold (\<lambda>r w. pushSetWalk env w r) rs w) =
      (set ms \<union> insert m T, fold (\<lambda>r w. pushSetWalk env w r) rs' (fold (\<lambda>r w. pushSetWalk env w r) rs w))"
    "set rs' = {r. \<exists>m'\<in>set ms - insert m T. member env s r m'}"
    using Cons by blast
  have "set (rs @ rs') = {r. \<exists>m'\<in>set (m # ms) - T. member env s r m'}"
    using rs(2) rs'(2) by (cases "m \<in> T") auto
  moreover have "fold (queueConflictSets env s) (m # ms) (T, w) =
      (set (m # ms) \<union> T, fold (\<lambda>r w. pushSetWalk env w r) (rs @ rs') w)"
    using rs(1) rs'(1) by simp
  ultimately show ?case by blast
qed

text \<open>The loop visits the conflict sets of all it has traversed, V are those that are done.\<close>

lemma connected_loop_result:
  assumes ok: "dag_ok env s"
  shows "i \<in> T \<Longrightarrow> T \<subseteq> connected env s i \<Longrightarrow> spushed w = {r. \<exists>m\<in>T. member env s r m} \<Longrightarrow>
    walk_covers spending spushed V w \<Longrightarrow> \<forall>r\<in>V. {j. member env s r j} \<subseteq> T \<Longrightarrow>
    connected_loop env s (T, w) = Some (connected env s i)"
proof (induction "budget spending spushed {r. \<exists>i. member env s r i} w" arbitrary: T w V rule: less_induct)
  case less
  show ?case
  proof (cases "nextSetWalk env w")
    case None
    then have "spushed w \<subseteq> V" using less.prems(4) sets.next_None by (simp add: walk_covers_def)
    then have step: "b \<in> T" if "a \<in> T" "linked env s a b" for a b
      using that less.prems(3,5) by (auto simp: linked_def)
    have "b \<in> T" if "(linked env s)\<^sup>*\<^sup>* i b" for b
      using that by (induction rule: rtranclp_induct) (auto intro: less.prems(1) step)
    then have "T = connected env s i" using less.prems(2) by (auto simp: connected_def)
    then show ?thesis by (subst connected_loop.simps) (simp add: None)
  next
    case (Some x)
    then obtain r w1 where nx: "nextSetWalk env w = Some (r, w1)" by (cases x) auto
    let ?ms = "conflictMembers env s r"
    have ms: "set ?ms = {j. member env s r j}" using ok by (auto simp: dag_ok_def)
    note cov1 = sets.covers_next [OF less.prems(4) nx]
    obtain rs where rs: "fold (queueConflictSets env s) ?ms (T, w1) = (set ?ms \<union> T, fold (\<lambda>r w. pushSetWalk env w r) rs w1)"
      "set rs = {r. \<exists>m\<in>set ?ms - T. member env s r m}"
      using queueConflictSets_fold [OF ok] by blast
    let ?w = "fold (\<lambda>r w. pushSetWalk env w r) rs w1"
    have "budget spending spushed {r. \<exists>i. member env s r i} ?w \<le> budget spending spushed {r. \<exists>i. member env s r i} w1"
      by (rule sets.budget_fold [OF member_finite [OF ok]]) (auto simp: rs(2))
    then have smaller: "budget spending spushed {r. \<exists>i. member env s r i} ?w < budget spending spushed {r. \<exists>i. member env s r i} w"
      using sets.budget_next [OF nx] by (rule le_less_trans)
    obtain m0 where m0: "m0 \<in> T" "member env s r m0" using cov1(3) less.prems(3) by blast
    have link: "linked env s m0 j" if "j \<in> set ?ms" for j using that m0 ms by (auto simp: linked_def)
    have T: "set ?ms \<union> T \<subseteq> connected env s i"
      using m0(1) less.prems(2) link by (auto simp: connected_def intro: rtranclp.rtrancl_into_rtrancl)
    have P: "spushed ?w = {r. \<exists>m\<in>set ?ms \<union> T. member env s r m}"
      using less.prems(3) cov1(2) rs(2) by (auto simp: sets.pushed_fold)
    have V: "\<forall>r\<in>insert r V. {j. member env s r j} \<subseteq> set ?ms \<union> T" using less.prems(5) ms by blast
    have "connected_loop env s (set ?ms \<union> T, ?w) = Some (connected env s i)"
      by (rule less.hyps [OF smaller _ T P sets.covers_fold [OF cov1(1)] V]) (use less.prems(1) in simp)
    then show ?thesis by (subst connected_loop.simps) (simp add: nx rs(1))
  qed
qed

lemma connectedConflicts_eq:
  assumes ok: "dag_ok env s"
  shows "connectedConflicts env s i = Some (connected env s i)"
proof -
  obtain rs where rs: "queueConflictSets env s i ({}, newSetWalk env) =
      ({i}, fold (\<lambda>r w. pushSetWalk env w r) rs (newSetWalk env))" "set rs = {r. member env s r i}"
    using queueConflictSets_eq [OF ok, of i "{}"] by auto
  have "connected_loop env s ({i}, fold (\<lambda>r w. pushSetWalk env w r) rs (newSetWalk env)) = Some (connected env s i)"
    by (rule connected_loop_result [OF ok _ _ _ sets.covers_fold [OF sets.covers_new]])
      (auto simp: connected_def sets.pushed_fold sets.pushed_new rs(2))
  then show ?thesis by (simp add: connectedConflicts_def rs(1))
qed

end

section \<open>Disliked conflicts\<close>

text \<open>
  The order of the votes in what is connected to a conflict, the descendants of what competes with
  a conflict, and the conflicts that the heaviest ones outweigh: a visited conflict that
  is not outweighed already outweighs all these.
\<close>

definition voteOrder ::
    "('c :: linorder, 'r, 's, 'w, 'v, 'z) conflict_env_scheme \<Rightarrow> ('c \<Rightarrow> 'q :: linorder) \<Rightarrow> 's \<Rightarrow> 'c \<Rightarrow> 'c list" where
  "voteOrder env weight s i = sortSlice (weightLess weight) (conflictElems env (connected env s i))"

definition outdone :: "('c, 'r, 's, 'w, 'v, 'z) conflict_env_scheme \<Rightarrow> 's \<Rightarrow> 'c \<Rightarrow> 'c set" where
  "outdone env s i = {j. \<exists>m. rival env s i m \<and> ancestor env s m j}"

fun outweigh :: "('c, 'r, 's, 'w, 'v, 'z) conflict_env_scheme \<Rightarrow> 's \<Rightarrow> 'c list \<Rightarrow> 'c set \<Rightarrow> 'c set" where
  "outweigh env s [] D = D"
| "outweigh env s (i # is') D = outweigh env s is' (if i \<in> D then D else outdone env s i \<union> D)"

definition outweighed ::
    "('c :: linorder, 'r, 's, 'w, 'v, 'z) conflict_env_scheme \<Rightarrow> ('c \<Rightarrow> 'q :: linorder) \<Rightarrow> 's \<Rightarrow> 'c \<Rightarrow> bool" where
  "outweighed env weight s i \<longleftrightarrow> i \<in> outweigh env s (voteOrder env weight s i) {}"

lemma set_sortedInsert: "set (sortedInsert lt x ys) = insert x (set ys)"
  by (induction ys) auto

lemma set_sortSlice: "set (sortSlice lt xs) = set xs"
  unfolding sortSlice_def by (induction xs) (auto simp: set_sortedInsert)

lemma outweigh_mono: "D \<subseteq> outweigh env s is' D"
proof (induction is' arbitrary: D)
  case (Cons i is')
  have "D \<subseteq> (if i \<in> D then D else outdone env s i \<union> D)" by auto
  also have "\<dots> \<subseteq> outweigh env s is' \<dots>" by (rule Cons)
  finally show ?case by simp
qed simp

text \<open>Of two competing conflicts that are visited, one is outweighed.\<close>

lemma outweigh_rivals:
  "i \<in> set is' \<Longrightarrow> rival env s i j \<Longrightarrow> i \<in> outweigh env s is' D \<or> j \<in> outweigh env s is' D"
proof (induction is' arbitrary: D)
  case (Cons k is')
  show ?case
  proof (cases "k = i")
    case True
    have "j \<in> outdone env s i" using Cons.prems(2) by (auto simp: outdone_def)
    then have "i \<in> (if k \<in> D then D else outdone env s k \<union> D) \<or> j \<in> (if k \<in> D then D else outdone env s k \<union> D)"
      using True by auto
    then show ?thesis using outweigh_mono [of "if k \<in> D then D else outdone env s k \<union> D" env s is'] by auto
  next
    case False
    then show ?thesis using Cons by simp
  qed
qed simp

lemma outweigh_first: "rival env s j i \<Longrightarrow> i \<in> outweigh env s (j # is') {}"
  using outweigh_mono [of "outdone env s j" env s is'] by (auto simp: outdone_def)

context vote_storage
begin

lemma dislike_loop_result:
  assumes ok: "dag_ok env s"
  shows "R \<subseteq> pushed w \<Longrightarrow> pushed w \<subseteq> {j. \<exists>m\<in>R. ancestor env s m j} \<Longrightarrow> walk_covers pending pushed V w \<Longrightarrow>
    \<forall>v\<in>V. {k. parent env s v k} \<subseteq> pushed w \<Longrightarrow> V \<subseteq> pushed w \<Longrightarrow> V \<subseteq> D \<Longrightarrow> D \<subseteq> D0 \<union> V \<Longrightarrow> D0 \<subseteq> D \<Longrightarrow>
    dislike_loop env s w D = Some ({j. \<exists>m\<in>R. ancestor env s m j} \<union> D0)"
proof (induction "budget pending pushed (stored env s) w" arbitrary: w V D rule: less_induct)
  case less
  show ?case
  proof (cases "nextWalk env w")
    case None
    then have PV: "pushed w \<subseteq> V" using less.prems(3) next_None by (simp add: walk_covers_def)
    have "j \<in> V" if "m \<in> R" "ancestor env s m j" for m j
      using that(2,1) PV less.prems(1,4) by (induction rule: rtranclp_induct) auto
    then have "D = {j. \<exists>m\<in>R. ancestor env s m j} \<union> D0" using less.prems(2,5,6,7,8) by blast
    then show ?thesis by (subst dislike_loop.simps) (simp add: None)
  next
    case (Some x)
    then obtain i w1 where nx: "nextWalk env w = Some (i, w1)" by (cases x) auto
    note cov1 = covers_next [OF less.prems(3) nx]
    let ?ks = "childConflicts env s i"
    let ?w = "fold (\<lambda>p w. pushWalk env w p) ?ks w1"
    have ks: "set ?ks = {k. parent env s i k}" using ok by (auto simp: dag_ok_def)
    have P: "pushed ?w = {k. parent env s i k} \<union> pushed w" by (simp add: pushed_fold ks cov1(2))
    have fin: "finite (stored env s)" using ok by (simp add: dag_ok_def)
    have "budget pending pushed (stored env s) ?w \<le> budget pending pushed (stored env s) w1"
      by (rule budget_fold [OF fin]) (auto simp: ks intro: parent_stored)
    then have smaller: "budget pending pushed (stored env s) ?w < budget pending pushed (stored env s) w"
      using budget_next [OF nx] by (rule le_less_trans)
    have up: "pushed ?w \<subseteq> {j. \<exists>m\<in>R. ancestor env s m j}"
      using less.prems(2) cov1(3) unfolding P by (auto intro: rtranclp.rtrancl_into_rtrancl)
    have "dislike_loop env s ?w (insert i D) = Some ({j. \<exists>m\<in>R. ancestor env s m j} \<union> D0)"
      by (rule less.hyps [OF smaller _ up covers_fold [OF cov1(1)]])
        (use less.prems cov1(3) in \<open>auto simp: P\<close>)
    then show ?thesis by (subst dislike_loop.simps) (simp add: nx)
  qed
qed

lemma rivals_walk:
  assumes ok: "dag_ok env s"
  shows "\<exists>ms. ForEachConflictingByID env s i (\<lambda>m x. (f m x, True)) x = fold f ms x \<and> set ms = {j. rival env s i j}"
proof (cases "loadConflict env s i")
  case None
  then show ?thesis by (intro exI [of _ "[]"]) (auto simp: ForEachConflictingByID_def rival_def member_def)
next
  case (Some c)
  let ?ms = "concat (map (\<lambda>r. filter (\<lambda>m. m \<noteq> con_ID c) (conflictMembers env s r)) (resourceElems env (ConflictSetIDs c)))"
  have "finite (ConflictSetIDs c)" and "con_ID c = i"
    and "\<And>r j. j \<in> set (conflictMembers env s r) \<longleftrightarrow> member env s r j"
    using ok Some by (auto simp: dag_ok_def)
  then have "set ?ms = {j. rival env s i j}"
    using enumeratesD [OF resource_elems] Some by (auto simp: rival_def) (auto simp: member_def)
  then show ?thesis
    by (intro exI [of _ ?ms]) (simp add: ForEachConflictingByID_def Some forEachConflictingConflictID_def visitSets_all)
qed

lemma dislikeRivals_eq:
  assumes ok: "dag_ok env s"
  shows "dislikeRivals env s i D = Some (if i \<in> D then D else outdone env s i \<union> D)"
proof (cases "i \<in> D")
  case False
  obtain ms where ms: "ForEachConflictingByID env s i (\<lambda>m w. (pushWalk env w m, True)) (newWalk env) =
      fold (\<lambda>m w. pushWalk env w m) ms (newWalk env)" "set ms = {j. rival env s i j}"
    using rivals_walk [OF ok, of i "\<lambda>m w. pushWalk env w m" "newWalk env"] by blast
  let ?w = "fold (\<lambda>m w. pushWalk env w m) ms (newWalk env)"
  have P: "pushed ?w = {j. rival env s i j}" by (simp add: pushed_fold pushed_new ms(2))
  have "dislike_loop env s ?w D = Some ({j. \<exists>m\<in>{j. rival env s i j}. ancestor env s m j} \<union> D)"
    by (rule dislike_loop_result [OF ok _ _ covers_fold [OF covers_new]]) (auto simp: P)
  then show ?thesis using False by (simp add: dislikeRivals_def ms(1) outdone_def)
qed (simp add: dislikeRivals_def)

lemma dislikeEach_eq: "dag_ok env s \<Longrightarrow> dislikeEach env s is' D = Some (outweigh env s is' D)"
  by (induction is' arbitrary: D) (simp_all add: dislikeRivals_eq)

lemma disliked_eq:
  assumes "dag_ok env s"
  shows "dislikedConnectedConflictingConflicts env weight s i = Some (outweigh env s (voteOrder env weight s i) {})"
  using assms by (simp add: dislikedConnectedConflictingConflicts_def descendingOrder_def connectedConflicts_eq
      voteOrder_def dislikeEach_eq)

lemma voteOrder_set: "dag_ok env s \<Longrightarrow> set (voteOrder env weight s i) = connected env s i"
  using enumeratesD [OF conflict_elems connected_finite] by (simp add: voteOrder_def set_sortSlice)

text \<open>Of two competing conflicts at least one is outweighed.\<close>

lemma rivals_outweighed:
  assumes "dag_ok env s" and r: "rival env s i j"
  shows "outweighed env weight s i \<or> outweighed env weight s j"
proof -
  have "voteOrder env weight s i = voteOrder env weight s j"
    using rival_connected [OF r] by (simp add: voteOrder_def)
  moreover have "i \<in> set (voteOrder env weight s i)"
    unfolding voteOrder_set [OF assms(1)] by (simp add: connected_def)
  ultimately show ?thesis
    using outweigh_rivals [OF _ r] by (simp add: outweighed_def)
qed

end

section \<open>Liked conflicts\<close>

text \<open>A conflict is preferred when it is not rejected and, unless confirmed, not outweighed.\<close>

definition preferred ::
    "('c :: linorder, 'r, 's, 'w, 'v, 'z) conflict_env_scheme \<Rightarrow> ('c \<Rightarrow> 'q :: linorder) \<Rightarrow> 's \<Rightarrow> 'c \<Rightarrow> bool" where
  "preferred env weight s i \<longleftrightarrow>
     i \<in> stored env s \<longrightarrow> \<not> has_state env s Rejected i \<and> \<not> outweighed env weight s i"

lemma ancestors_finite:
  assumes "dag_ok env s"
  shows "finite ({p. \<exists>i. parent env s p i} \<union> {i})"
proof -
  have "{p. \<exists>i. parent env s p i} = (\<Union>i\<in>stored env s. {p. parent env s p i})"
    by (auto simp: parent_def stored_def)
  moreover have "finite {p. parent env s p i}" for i
    using assms by (cases "loadConflict env s i") (auto simp: dag_ok_def parent_def)
  ultimately show ?thesis using assms by (simp add: dag_ok_def)
qed

context vote_storage
begin

lemma conflictPreferred_eq:
  assumes ok: "dag_ok env s" and e: "emptyID \<notin> stored env s"
  shows "\<exists>ps. conflictPreferred env emptyID weight s i w =
      Some (preferred env weight s i,
        if preferred env weight s i then fold (\<lambda>p w. pushWalk env w p) ps w else w) \<and> set ps = {p. parent env s p i}"
proof (cases "loadConflict env s i")
  case None
  then show ?thesis
    by (intro exI [of _ "[]"]) (auto simp: conflictPreferred_def preferred_def stored_def parent_def)
next
  case (Some c)
  have c: "finite (Parents c)" "con_State c \<noteq> Confirmed" using ok Some by (fastforce simp: dag_ok_def)+
  have ps: "set (conflictElems env (Parents c)) = {p. parent env s p i}"
    using enumeratesD [OF conflict_elems c(1)] Some by (simp add: parent_def)
  have i: "i \<in> stored env s" "i \<noteq> emptyID" using Some e by (auto simp: stored_def)
  have r: "has_state env s Rejected i \<longleftrightarrow> con_State c = Rejected" using Some by (simp add: has_state_def)
  show ?thesis
    using c i ps
    by (intro exI [of _ "conflictElems env (Parents c)"])
      (simp add: conflictPreferred_def preferred_def Some r disliked_eq [OF ok] outweighed_def)
qed

lemma like_loop_result:
  assumes ok: "dag_ok env s" and e: "emptyID \<notin> stored env s"
  shows "i \<in> pushed w \<Longrightarrow> pushed w \<subseteq> {a. ancestor env s a i} \<Longrightarrow> walk_covers pending pushed V w \<Longrightarrow>
    V \<subseteq> pushed w \<Longrightarrow> \<forall>v\<in>V. preferred env weight s v \<and> {p. parent env s p v} \<subseteq> pushed w \<Longrightarrow>
    like_loop env emptyID weight s w = Some (\<forall>a. ancestor env s a i \<longrightarrow> preferred env weight s a)"
proof (induction "budget pending pushed ({p. \<exists>j. parent env s p j} \<union> {i}) w" arbitrary: w V rule: less_induct)
  case less
  show ?case
  proof (cases "nextWalk env w")
    case None
    then have PV: "pushed w \<subseteq> V" using less.prems(3) next_None by (simp add: walk_covers_def)
    have "a \<in> V" if "ancestor env s a i" for a
      using that by (induction rule: converse_rtranclp_induct) (use PV less.prems(1,5) in auto)
    then have "\<forall>a. ancestor env s a i \<longrightarrow> preferred env weight s a" using less.prems(5) by blast
    then show ?thesis by (subst like_loop.simps) (simp add: None)
  next
    case (Some x)
    then obtain j w1 where nx: "nextWalk env w = Some (j, w1)" by (cases x) auto
    note cov1 = covers_next [OF less.prems(3) nx]
    have j: "ancestor env s j i" using cov1(3) less.prems(2) by blast
    obtain ps where pref: "conflictPreferred env emptyID weight s j w1 =
        Some (preferred env weight s j,
          if preferred env weight s j then fold (\<lambda>p w. pushWalk env w p) ps w1 else w1)"
      and ps: "set ps = {p. parent env s p j}"
      using conflictPreferred_eq [OF ok e] by blast
    show ?thesis
    proof (cases "preferred env weight s j")
      case False
      then show ?thesis using j by (subst like_loop.simps) (auto simp: nx pref)
    next
      case True
      let ?w = "fold (\<lambda>p w. pushWalk env w p) ps w1"
      have P: "pushed ?w = {p. parent env s p j} \<union> pushed w" by (simp add: pushed_fold ps cov1(2))
      have "budget pending pushed ({p. \<exists>j. parent env s p j} \<union> {i}) ?w \<le>
          budget pending pushed ({p. \<exists>j. parent env s p j} \<union> {i}) w1"
        by (rule budget_fold [OF ancestors_finite [OF ok]]) (auto simp: ps)
      then have smaller: "budget pending pushed ({p. \<exists>j. parent env s p j} \<union> {i}) ?w <
          budget pending pushed ({p. \<exists>j. parent env s p j} \<union> {i}) w"
        using budget_next [OF nx] by (rule le_less_trans)
      have up: "pushed ?w \<subseteq> {a. ancestor env s a i}"
        using less.prems(2) j unfolding P by (auto intro: converse_rtranclp_into_rtranclp)
      have "like_loop env emptyID weight s ?w = Some (\<forall>a. ancestor env s a i \<longrightarrow> preferred env weight s a)"
        by (rule less.hyps [OF smaller _ up covers_fold [OF cov1(1)]])
          (use less.prems cov1(3) True in \<open>auto simp: P\<close>)
      then show ?thesis using True by (subst like_loop.simps) (simp add: nx pref)
    qed
  qed
qed

lemma ConflictLiked_eq:
  assumes ok: "dag_ok env s" and e: "emptyID \<notin> stored env s" and i: "i \<noteq> emptyID"
  shows "ConflictLiked env emptyID weight s i = Some (\<forall>a. ancestor env s a i \<longrightarrow> preferred env weight s a)"
proof -
  have "like_loop env emptyID weight s (pushWalk env (newWalk env) i) =
      Some (\<forall>a. ancestor env s a i \<longrightarrow> preferred env weight s a)"
    by (rule like_loop_result [OF ok e _ _ covers_push [OF covers_new]]) (auto simp: push_pushed pushed_new)
  with i show ?thesis by (simp add: ConflictLiked_def)
qed

end

section \<open>The liked member\<close>

text \<open>Once a member is liked, every further one that is visited counts as disliked.\<close>

lemma likeMember_fold_liked:
  "l \<noteq> e \<Longrightarrow> fold (\<lambda>m x. Option.bind x (likeMember env e weight s m)) ms (Some (l, D)) = Some (l, set ms \<union> D)"
  by (induction ms arbitrary: D) (simp_all add: likeMember_def)

lemma likeMember_fold:
  assumes "\<And>m. m \<in> set ms \<Longrightarrow> ConflictLiked env e weight s m = Some (liked m)" and "e \<notin> set ms"
  shows "fold (\<lambda>m x. Option.bind x (likeMember env e weight s m)) ms (Some (e, D)) =
    (case dropWhile (\<lambda>m. \<not> liked m) ms of
       [] \<Rightarrow> Some (e, set ms \<union> D)
     | l # rest \<Rightarrow> Some (l, set (takeWhile (\<lambda>m. \<not> liked m) ms) \<union> set rest \<union> D))"
  using assms
proof (induction ms arbitrary: D)
  case (Cons m ms)
  show ?case
  proof (cases "liked m")
    case True
    then show ?thesis using Cons.prems likeMember_fold_liked [of m e] by (auto simp: likeMember_def)
  next
    case False
    then have "likeMember env e weight s m (e, D) = Some (e, insert m D)"
      using Cons.prems by (simp add: likeMember_def)
    then show ?thesis using Cons False by (simp del: dropWhile_eq_Nil_conv split: list.split)
  qed
qed simp

context vote_storage
begin

text \<open>The list of the rivals that are visited: one that shares two conflict sets occurs twice.\<close>

lemma rivals_walk_repeated:
  assumes ok: "dag_ok env s"
  obtains ms where "\<And>(f :: 'c \<Rightarrow> 'x \<Rightarrow> 'x) x. ForEachConflictingByID env s i (\<lambda>m x. (f m x, True)) x = fold f ms x"
    and "set ms = {j. rival env s i j}"
    and "\<And>r r' m. member env s r i \<Longrightarrow> member env s r' i \<Longrightarrow> r \<noteq> r' \<Longrightarrow> m \<noteq> i \<Longrightarrow> member env s r m \<Longrightarrow> member env s r' m \<Longrightarrow>
      \<exists>as bs cs. ms = as @ m # bs @ m # cs"
proof (cases "loadConflict env s i")
  case None
  then show ?thesis by (intro that [of "[]"]) (auto simp: ForEachConflictingByID_def rival_def member_def)
next
  case (Some c)
  define g where "g = (\<lambda>r. filter (\<lambda>m. m \<noteq> con_ID c) (conflictMembers env s r))"
  let ?rs = "resourceElems env (ConflictSetIDs c)"
  let ?ms = "concat (map g ?rs)"
  have fin: "finite (ConflictSetIDs c)" and cid: "con_ID c = i"
    and mem: "\<And>r j. j \<in> set (conflictMembers env s r) \<longleftrightarrow> member env s r j"
    using ok Some by (auto simp: dag_ok_def)
  have rs: "set ?rs = {r. member env s r i}" and "distinct ?rs"
    using resource_elems fin Some by (auto simp: enumerates_def member_def)
  have g: "set (g r) = {m. m \<noteq> i \<and> member env s r m}" for r by (auto simp: g_def cid mem)
  have twice: "\<exists>as bs cs. ?ms = as @ m # bs @ m # cs"
    if rr: "member env s r i" "member env s r' i" "r \<noteq> r'" and m: "m \<noteq> i" "member env s r m" "member env s r' m" for r r' m
  proof -
    have both: "m \<in> set (g r)" "m \<in> set (g r')" using m g by auto
    have split: "\<exists>as bs cs. concat (map g xs) = as @ m # bs @ m # cs"
      if xs: "xs = us @ q # vs @ q' # ws" and q: "m \<in> set (g q)" and q': "m \<in> set (g q')" for xs us q vs q' ws
    proof -
      obtain a b where ab: "g q = a @ m # b" using q by (meson split_list)
      obtain a' b' where "g q' = a' @ m # b'" using q' by (meson split_list)
      then have "concat (map g xs) = (concat (map g us) @ a) @ m # (b @ concat (map g vs) @ a') @ m # (b' @ concat (map g ws))"
        using xs ab by simp
      then show ?thesis by blast
    qed
    have "r \<in> set ?rs" "r' \<in> set ?rs" using rr rs by auto
    then obtain us vs where u: "?rs = us @ r # vs" "r' \<in> set us \<or> r' \<in> set vs"
      using rr(3) by (metis in_set_conv_decomp set_ConsD Un_iff set_append)
    from u(2) show ?thesis
    proof
      assume "r' \<in> set us"
      then obtain us1 us2 where "us = us1 @ r' # us2" by (meson split_list)
      with u(1) both show ?thesis by (intro split [of _ us1 r' us2 r vs]) auto
    next
      assume "r' \<in> set vs"
      then obtain vs1 vs2 where "vs = vs1 @ r' # vs2" by (meson split_list)
      with u(1) both show ?thesis by (intro split [of _ us r vs1 r' vs2]) auto
    qed
  qed
  show thesis
  proof (rule that [of ?ms])
    show "ForEachConflictingByID env s i (\<lambda>m x. (f m x, True)) x = fold f ?ms x" for f :: "'c \<Rightarrow> 'x \<Rightarrow> 'x" and x
      by (simp add: ForEachConflictingByID_def Some forEachConflictingConflictID_def visitSets_all g_def)
    show "set ?ms = {j. rival env s i j}" using g rs by (auto simp: rival_def)
  qed (rule twice)
qed

end

end
