(* ===== verification/OmvMachine.thy ===== *)
theory OmvMachine
  imports OmvLaws
begin

text \<open>
  The properties of on mesh voting, and its interface interpreted on the concrete environment of the
  conflict DAG.
\<close>

interpretation v0: vote_storage conflicts0 fst "\<lambda>w. set (snd w)" fst "\<lambda>w. set (snd w)"
  by unfold_locales (auto simp: conflicts0_def split: list.splits if_splits)

text \<open>In the state of the witnesses the conflict 3 outweighs its rival 1.\<close>

definition weight0 :: "nat \<Rightarrow> nat" where
  "weight0 i = (if i = 3 then 9 else 5)"

lemma linked0: "linked conflicts0 state0 i j \<longleftrightarrow> i \<in> {1, 3} \<and> j \<in> {1, 3} \<or> i = j \<and> i \<in> {2, 4}"
  by (auto simp: linked_def member_def load0)

lemma connected0: "connected conflicts0 state0 1 = {1, 3}"
proof -
  have "j \<in> {1, 3}" if "(linked conflicts0 state0)\<^sup>*\<^sup>* 1 j" for j
    using that by (induction rule: rtranclp_induct) (auto simp: linked0)
  moreover have "linked conflicts0 state0 1 3" by (simp add: linked0)
  ultimately show ?thesis by (auto simp: connected_def)
qed

lemma connected0_single: "connected conflicts0 state0 2 = {2}"
proof -
  have "j = 2" if "(linked conflicts0 state0)\<^sup>*\<^sup>* 2 j" for j
    using that by (induction rule: rtranclp_induct) (auto simp: linked0)
  then show ?thesis by (auto simp: connected_def)
qed

lemma voteOrder0: "voteOrder conflicts0 weight0 state0 1 = [3, 1]"
  unfolding voteOrder_def connected0
  by (simp add: sortSlice_def conflicts0_def weightLess_def weight0_def del: One_nat_def)

lemma outweighed0: "outweighed conflicts0 weight0 state0 1"
  unfolding outweighed_def voteOrder0 by (rule outweigh_first) (simp add: state0_relations)

section \<open>Properties\<close>

text \<open>C13: ConflictLiked returns for every conflict, and it likes a conflict exactly if neither the conflict nor
  any of its ancestors is rejected or outweighed.  A conflict is outweighed when, going through the
  connected conflicts by descending weight, a conflict that is not outweighed itself competes with
  it or with an ancestor of it.\<close>

theorem ConflictLiked_exact:
  assumes "vote_storage env pending pushed spending spushed" and "dag_ok env s"
    and "emptyID \<notin> stored env s" and "i \<noteq> emptyID"
  shows "ConflictLiked env emptyID weight s i = Some (\<forall>a. ancestor env s a i \<longrightarrow>
    a \<in> stored env s \<longrightarrow> \<not> has_state env s Rejected a \<and>
      a \<notin> outweigh env s (sortSlice (weightLess weight) (conflictElems env (connected env s a))) {})"
  using vote_storage.ConflictLiked_eq [OF assms] by (simp add: preferred_def outweighed_def voteOrder_def)

theorem ConflictLiked_exact_witness: "ConflictLiked conflicts0 0 weight0 state0 2 = Some False"
proof -
  have e: "0 \<notin> stored conflicts0 state0" by (simp add: state0_relations)
  have "ancestor conflicts0 state0 1 2" "1 \<in> stored conflicts0 state0"
    by (simp_all add: state0_ancestor state0_relations)
  with outweighed0 ConflictLiked_exact [OF v0.vote_storage_axioms state0_ok(1) e, of 2 weight0] show ?thesis
    unfolding outweighed_def voteOrder_def by auto
qed

text \<open>C14: what a node likes is one reality: no ancestor of a liked conflict competes with an ancestor
  of a liked conflict (each conflict being an ancestor of itself), whatever the weights are.\<close>

theorem liked_conflicts_compatible:
  assumes "vote_storage env pending pushed spending spushed" and "dag_ok env s" and "emptyID \<notin> stored env s"
    and "ConflictLiked env emptyID weight s i = Some True" and "ConflictLiked env emptyID weight s j = Some True"
    and "ancestor env s a i" and "ancestor env s b j" and "i \<noteq> emptyID" and "j \<noteq> emptyID"
  shows "\<not> rival env s a b"
proof
  assume r: "rival env s a b"
  have "preferred env weight s a" "preferred env weight s b"
    using assms vote_storage.ConflictLiked_eq [OF assms(1,2,3,8), of weight]
      vote_storage.ConflictLiked_eq [OF assms(1,2,3,9), of weight] by simp_all
  moreover have "a \<in> stored env s" "b \<in> stored env s"
    using rival_stored [OF r] rival_stored [OF rival_sym [OF r]] by auto
  ultimately show False
    using vote_storage.rivals_outweighed [OF assms(1,2) r] unfolding preferred_def by blast
qed

theorem liked_conflicts_compatible_witness:
  "ConflictLiked conflicts0 0 (\<lambda>_. 1 :: nat) state0 1 = Some True \<and> \<not> rival conflicts0 state0 1 2"
proof -
  have e: "0 \<notin> stored conflicts0 state0" by (simp add: state0_relations)
  have order: "voteOrder conflicts0 (\<lambda>_. 1 :: nat) state0 1 = [1, 3]"
    unfolding voteOrder_def connected0
    by (simp add: sortSlice_def conflicts0_def weightLess_def del: One_nat_def)
  have "outdone conflicts0 state0 1 = {3, 4}"
    unfolding outdone_def state0_relations state0_ancestor by auto
  then have one: "preferred conflicts0 (\<lambda>_. 1 :: nat) state0 1"
    by (simp add: preferred_def outweighed_def order state0_relations del: One_nat_def)
  have order2: "voteOrder conflicts0 (\<lambda>_. 1 :: nat) state0 2 = [2]"
    unfolding voteOrder_def connected0_single
    by (simp add: sortSlice_def conflicts0_def)
  have "outdone conflicts0 state0 2 = {}" unfolding outdone_def state0_relations by auto
  then have two: "preferred conflicts0 (\<lambda>_. 1 :: nat) state0 2"
    by (simp add: preferred_def outweighed_def order2 state0_relations del: One_nat_def)
  have liked: "ConflictLiked conflicts0 0 (\<lambda>_. 1 :: nat) state0 i = Some True" if "i \<in> {1, 2}" for i
    using that one two v0.ConflictLiked_eq [OF state0_ok(1) e, of i "\<lambda>_. 1 :: nat"]
    by (auto simp: state0_ancestor)
  then show ?thesis
    using liked_conflicts_compatible [OF v0.vote_storage_axioms state0_ok(1) e, of "\<lambda>_. 1 :: nat" 1 2 1 2] by simp
qed

text \<open>C35: an accepted conflict is not exempt from the weights: it is disliked, and with it all its
  descendants, as soon as a rival of it, rejected or not, is the heaviest of the connected
  conflicts.\<close>

theorem accepted_conflict_disliked:
  assumes "vote_storage env pending pushed spending spushed" and "dag_ok env s" and "emptyID \<notin> stored env s"
    and "has_state env s Accepted a" and "rival env s j a" and "descendingOrder env weight s a = Some (j # is')"
    and "ancestor env s a i" and "i \<noteq> emptyID"
  shows "ConflictLiked env emptyID weight s i = Some False"
proof -
  have "voteOrder env weight s a = j # is'"
    using assms(6) vote_storage.connectedConflicts_eq [OF assms(1,2)] by (simp add: descendingOrder_def voteOrder_def)
  then have "outweighed env weight s a" using outweigh_first [OF assms(5)] by (simp add: outweighed_def)
  then have "\<not> preferred env weight s a" using has_state_stored [OF assms(4)] by (simp add: preferred_def)
  with assms(7) show ?thesis using vote_storage.ConflictLiked_eq [OF assms(1,2,3,8), of weight] by auto
qed

theorem accepted_conflict_disliked_witness:
  "\<exists>u m ev. SetConflictAccepted conflicts0 1 state0 = Some (u, m, ev) \<and> has_state conflicts0 u Accepted 1 \<and>
     ConflictLiked conflicts0 0 weight0 u 1 = Some False"
proof -
  obtain t u n m ids P Q where run: "SetConflictAccepted conflicts0 1 state0 =
      Some (u, m, replicate n (ConflictAccepted 1) @ map ConflictRejected ids)"
    and inv1: "turns_inv conflicts0 Accepted (\<lambda>i p. parent conflicts0 state0 p i) {1} state0 t P P"
    and inv2: "turns_inv conflicts0 Rejected (parent conflicts0 t)
        {j. \<exists>i. newly conflicts0 state0 t Accepted i \<and> rival conflicts0 state0 i j} t u Q Q"
    and ok: "dag_ok conflicts0 u"
    by (rule c0.SetConflictAccepted_result [OF state0_ok(1)]) (rule that, assumption+)
  have shape: "same_shape conflicts0 state0 u"
  proof (rule same_shape_trans)
    show "same_shape conflicts0 state0 t" using inv1 by (simp add: turns_inv_def)
    show "same_shape conflicts0 t u" using inv2 by (simp add: turns_inv_def)
  qed
  note rel = same_shape_relations [OF shape]
  have apart: "upwards conflicts0 state0 1 \<inter> beaten conflicts0 state0 1 = {}"
    unfolding beaten_def upwards_def state0_relations state0_ancestor by auto
  have "1 \<in> upwards conflicts0 state0 1" by (simp add: upwards_def state0_relations)
  then have acc: "has_state conflicts0 u Accepted 1"
    using c0.accept_reject_states [OF state0_ok(2) apart inv1 inv2, of 1] by (simp add: state0_relations)
  have "linked conflicts0 u = linked conflicts0 state0" by (simp add: linked_def rel fun_eq_iff)
  then have order: "descendingOrder conflicts0 weight0 u 1 = Some [3, 1]"
    using voteOrder0 unfolding descendingOrder_def v0.connectedConflicts_eq [OF ok] voteOrder_def
    by (simp add: connected_def)
  have "ConflictLiked conflicts0 0 weight0 u 1 = Some False"
    by (rule accepted_conflict_disliked [OF v0.vote_storage_axioms ok _ acc _ order])
      (simp_all add: rel state0_relations)
  with run acc show ?thesis by blast
qed

text \<open>A conflict that shares two conflict sets with another is visited twice by
  LikedConflictMember: when it is the liked one, it is returned both as the liked conflict and
  as a member of the disliked ones.\<close>

theorem liked_member_disliked:
  assumes "vote_storage env pending pushed spending spushed" and "dag_ok env s" and "emptyID \<notin> stored env s"
    and "ConflictLiked env emptyID weight s i = Some False" and "ConflictLiked env emptyID weight s m = Some True"
    and "r \<noteq> r'" and "member env s r i" and "member env s r' i" and "member env s r m" and "member env s r' m"
    and "\<forall>j. rival env s i j \<longrightarrow> j = m" and "i \<noteq> m"
  shows "LikedConflictMember env emptyID weight s i = Some (m, {i, m})"
proof -
  obtain ms where walk: "\<And>f x. ForEachConflictingByID env s i (\<lambda>m (x :: ('a \<times> 'a set) option). (f m x, True)) x = fold f ms x"
    and set: "set ms = {j. rival env s i j}"
    and twice: "\<And>r r' m. member env s r i \<Longrightarrow> member env s r' i \<Longrightarrow> r \<noteq> r' \<Longrightarrow> m \<noteq> i \<Longrightarrow> member env s r m \<Longrightarrow> member env s r' m \<Longrightarrow>
      \<exists>as bs cs. ms = as @ m # bs @ m # cs"
    by (rule vote_storage.rivals_walk_repeated [OF assms(1,2), of i]) (rule that, assumption+)
  obtain as bs cs where split: "ms = as @ m # bs @ m # cs" using twice assms(6-10,12) by metis
  have only: "set ms = {m}" using set split assms(11) by auto
  obtain x xs where ms: "ms = x # xs" "m \<in> set xs" using split by (cases as) auto
  with only have x: "x = m" "set xs = {m}" by auto
  have ne: "m \<noteq> emptyID" using assms(3,9) by (auto simp: member_def stored_def)
  have first: "likeMember env emptyID weight s m (emptyID, {i}) = Some (m, {i})"
    by (simp add: likeMember_def assms(5))
  have "fold (\<lambda>m x. Option.bind x (likeMember env emptyID weight s m)) ms (Some (emptyID, {i})) = Some (m, set xs \<union> {i})"
    by (simp add: ms(1) x(1) first likeMember_fold_liked [OF ne])
  with x(2) show ?thesis
    using assms(4) by (simp add: LikedConflictMember_def walk insert_commute)
qed

definition shared0 :: dag0 where
  "shared0 = create0 3 {} {10, 11} (create0 1 {} {10, 11} empty0)"

lemma shared0_run: "dag_run conflicts0 empty0 shared0"
  unfolding shared0_def by (intro dag_run0_create dag_run.start) (simp_all add: parent_def create0_simps)

lemma load_shared0: "loadConflict conflicts0 shared0 =
   [1 \<mapsto> \<lparr>con_ID = 1, Parents = {}, ConflictSetIDs = {10, 11}, con_State = Pending\<rparr>,
    3 \<mapsto> \<lparr>con_ID = 3, Parents = {}, ConflictSetIDs = {10, 11}, con_State = Pending\<rparr>]"
  by (simp add: shared0_def create0_simps fun_eq_iff insert_commute)

lemma shared0_ok: "dag_ok conflicts0 shared0" "consistent conflicts0 shared0"
  using c0.dag_run_consistent [OF shared0_run empty0_ok] by simp_all

lemma shared0_relations:
  "parent conflicts0 shared0 p i \<longleftrightarrow> False"
  "member conflicts0 shared0 r i \<longleftrightarrow> r \<in> {10, 11} \<and> i \<in> {1, 3}"
  "rival conflicts0 shared0 i j \<longleftrightarrow> i = 1 \<and> j = 3 \<or> i = 3 \<and> j = 1"
  "stored conflicts0 shared0 = {1, 3}"
  "has_state conflicts0 shared0 st i \<longleftrightarrow> st = Pending \<and> i \<in> {1, 3}"
  by (auto simp: parent_def rival_def member_def stored_def has_state_def load_shared0)

lemma shared0_ancestor: "ancestor conflicts0 shared0 a i \<longleftrightarrow> a = i"
  by (auto elim: rtranclp.cases simp: shared0_relations)

lemma shared0_connected: "i \<in> {1, 3} \<Longrightarrow> connected conflicts0 shared0 i = {1, 3}"
proof -
  assume i: "i \<in> {1, 3}"
  have "j \<in> {1, 3}" if "(linked conflicts0 shared0)\<^sup>*\<^sup>* i j" for j
    using that i by (induction rule: rtranclp_induct) (auto simp: linked_def shared0_relations)
  moreover have "linked conflicts0 shared0 i j" if "j \<in> {1, 3}" for j
    using that i by (auto simp: linked_def shared0_relations)
  ultimately show ?thesis by (auto simp: connected_def)
qed

lemma shared0_order: "i \<in> {1, 3} \<Longrightarrow> voteOrder conflicts0 weight0 shared0 i = [3, 1]"
  unfolding voteOrder_def
  by (simp only: shared0_connected) (simp add: sortSlice_def conflicts0_def weightLess_def weight0_def del: One_nat_def)

lemma shared0_liked: "i \<in> {1, 3} \<Longrightarrow> ConflictLiked conflicts0 0 weight0 shared0 i = Some (i = 3)"
proof -
  assume i: "i \<in> {1, 3}"
  have out: "outdone conflicts0 shared0 3 = {1}"
    unfolding outdone_def shared0_relations shared0_ancestor by auto
  have "outweighed conflicts0 weight0 shared0 i \<longleftrightarrow> i = 1"
    unfolding outweighed_def shared0_order [OF i] by (simp add: out del: One_nat_def)
  then have "preferred conflicts0 weight0 shared0 i \<longleftrightarrow> i = 3"
    unfolding preferred_def shared0_relations using i by auto
  moreover have "0 \<notin> stored conflicts0 shared0" "i \<noteq> 0" using i by (auto simp: shared0_relations)
  ultimately show ?thesis
    using v0.ConflictLiked_eq [OF shared0_ok(1), of 0 i weight0] by (simp add: shared0_ancestor)
qed

theorem liked_member_disliked_witness:
  "LikedConflictMember conflicts0 0 weight0 shared0 1 = Some (3, {1, 3})"
  by (rule liked_member_disliked [OF v0.vote_storage_axioms shared0_ok(1), of 0 weight0 1 3 10 11])
    (simp_all add: shared0_relations shared0_liked del: One_nat_def)

end
