(* ===== verification/LedgerModels.thy ===== *)
theory LedgerModels
  imports ConflictProperties
begin

text \<open>
  The metadata that the ledger keeps of transactions and outputs (packages/core/ledger/models.go).

  'c are the identifiers of transactions and of conflicts, 'r those of outputs, 'n those of nodes.
  An AdvancedSet is a set, a time an integer with 0 for the zero time.  A setter
  that records the time takes the reading of the clock as an argument.  The locks of the objects only
  serialise the methods, and SetModified concerns persistence.
\<close>

type_synonym time = int

definition IsZero :: "time \<Rightarrow> bool" where
  "IsZero t = (t = 0)"

section \<open>Transactions\<close>

record ('c, 'r) TransactionMetadata =
  tx_ID :: 'c
  tx_ConflictIDs :: "'c set"
  tx_Booked :: bool
  tx_BookingTime :: time
  tx_InclusionTime :: time
  tx_OutputIDs :: "'r set"
  tx_State :: State
  tx_StateTime :: time

definition NewTransactionMetadata :: "'c \<Rightarrow> ('c, 'r) TransactionMetadata" where
  "NewTransactionMetadata txID =
     \<lparr>tx_ID = txID, tx_ConflictIDs = {}, tx_Booked = False, tx_BookingTime = 0, tx_InclusionTime = 0,
      tx_OutputIDs = {}, tx_State = Pending, tx_StateTime = 0\<rparr>"

definition Tx_SetConflictIDs :: "'c set \<Rightarrow> ('c, 'r) TransactionMetadata \<Rightarrow> ('c, 'r) TransactionMetadata \<times> bool" where
  "Tx_SetConflictIDs conflictIDs t =
     (if tx_ConflictIDs t = conflictIDs then (t, False) else (t\<lparr>tx_ConflictIDs := conflictIDs\<rparr>, True))"

definition Tx_SetBooked :: "bool \<Rightarrow> time \<Rightarrow> ('c, 'r) TransactionMetadata \<Rightarrow> ('c, 'r) TransactionMetadata \<times> bool" where
  "Tx_SetBooked booked now t =
     (if tx_Booked t = booked then (t, False)
      else let t1 = (if booked then t\<lparr>tx_BookingTime := now\<rparr> else t) in (t1\<lparr>tx_Booked := booked\<rparr>, True))"

text \<open>The inclusion time only moves to an earlier time once it is set.\<close>

definition Tx_SetInclusionTime ::
    "time \<Rightarrow> ('c, 'r) TransactionMetadata \<Rightarrow> ('c, 'r) TransactionMetadata \<times> bool \<times> time" where
  "Tx_SetInclusionTime inclusionTime t =
     (if inclusionTime > tx_InclusionTime t \<and> \<not> IsZero (tx_InclusionTime t) then (t, False, tx_InclusionTime t)
      else (t\<lparr>tx_InclusionTime := inclusionTime\<rparr>, True, tx_InclusionTime t))"

definition Tx_SetOutputIDs :: "'r set \<Rightarrow> ('c, 'r) TransactionMetadata \<Rightarrow> ('c, 'r) TransactionMetadata \<times> bool" where
  "Tx_SetOutputIDs outputIDs t =
     (if tx_OutputIDs t = outputIDs then (t, False) else (t\<lparr>tx_OutputIDs := outputIDs\<rparr>, True))"

definition Tx_SetConfirmationState ::
    "State \<Rightarrow> time \<Rightarrow> ('c, 'r) TransactionMetadata \<Rightarrow> ('c, 'r) TransactionMetadata \<times> bool" where
  "Tx_SetConfirmationState st now t =
     (if tx_State t = st then (t, False) else (t\<lparr>tx_State := st, tx_StateTime := now\<rparr>, True))"

definition IsConflicting :: "('c, 'r) TransactionMetadata \<Rightarrow> bool" where
  "IsConflicting t = (tx_ConflictIDs t = {tx_ID t})"

section \<open>Outputs\<close>

record ('c, 'r, 'n) OutputMetadata =
  out_ID :: 'r
  out_ConsensusManaPledgeID :: 'n
  out_AccessManaPledgeID :: 'n
  out_CreationTime :: time
  out_ConflictIDs :: "'c set"
  out_FirstConsumer :: 'c
  out_FirstConsumerForked :: bool
  out_State :: State
  out_StateTime :: time

definition NewOutputMetadata :: "'c \<Rightarrow> 'n \<Rightarrow> 'r \<Rightarrow> ('c, 'r, 'n) OutputMetadata" where
  "NewOutputMetadata emptyTx emptyNode outputID =
     \<lparr>out_ID = outputID, out_ConsensusManaPledgeID = emptyNode, out_AccessManaPledgeID = emptyNode,
      out_CreationTime = 0, out_ConflictIDs = {}, out_FirstConsumer = emptyTx, out_FirstConsumerForked = False,
      out_State = Pending, out_StateTime = 0\<rparr>"

definition Out_SetConsensusManaPledgeID ::
    "'n \<Rightarrow> ('c, 'r, 'n) OutputMetadata \<Rightarrow> ('c, 'r, 'n) OutputMetadata \<times> bool" where
  "Out_SetConsensusManaPledgeID i m =
     (if out_ConsensusManaPledgeID m = i then (m, False) else (m\<lparr>out_ConsensusManaPledgeID := i\<rparr>, True))"

definition Out_SetAccessManaPledgeID ::
    "'n \<Rightarrow> ('c, 'r, 'n) OutputMetadata \<Rightarrow> ('c, 'r, 'n) OutputMetadata \<times> bool" where
  "Out_SetAccessManaPledgeID i m =
     (if out_AccessManaPledgeID m = i then (m, False) else (m\<lparr>out_AccessManaPledgeID := i\<rparr>, True))"

definition Out_SetCreationTime :: "time \<Rightarrow> ('c, 'r, 'n) OutputMetadata \<Rightarrow> ('c, 'r, 'n) OutputMetadata \<times> bool" where
  "Out_SetCreationTime creationTime m =
     (if out_CreationTime m = creationTime then (m, False) else (m\<lparr>out_CreationTime := creationTime\<rparr>, True))"

definition Out_SetConflictIDs :: "'c set \<Rightarrow> ('c, 'r, 'n) OutputMetadata \<Rightarrow> ('c, 'r, 'n) OutputMetadata \<times> bool" where
  "Out_SetConflictIDs conflictIDs m =
     (if out_ConflictIDs m = conflictIDs then (m, False) else (m\<lparr>out_ConflictIDs := conflictIDs\<rparr>, True))"

definition Out_SetConfirmationState ::
    "State \<Rightarrow> time \<Rightarrow> ('c, 'r, 'n) OutputMetadata \<Rightarrow> ('c, 'r, 'n) OutputMetadata \<times> bool" where
  "Out_SetConfirmationState st now m =
     (if out_State m = st then (m, False) else (m\<lparr>out_State := st, out_StateTime := now\<rparr>, True))"

text \<open>The result: whether the consumer conflicts, and the consumer to fork (empty for none).\<close>

definition RegisterBookedConsumer ::
    "'c \<Rightarrow> 'c \<Rightarrow> ('c, 'r, 'n) OutputMetadata \<Rightarrow> ('c, 'r, 'n) OutputMetadata \<times> bool \<times> 'c" where
  "RegisterBookedConsumer emptyTx consumer m =
     (if out_FirstConsumer m = emptyTx then (m\<lparr>out_FirstConsumer := consumer\<rparr>, False, emptyTx)
      else if out_FirstConsumerForked m then (m, True, emptyTx)
      else (m, True, out_FirstConsumer m))"

definition IsSpent :: "'c \<Rightarrow> ('c, 'r, 'n) OutputMetadata \<Rightarrow> bool" where
  "IsSpent emptyTx m = (out_FirstConsumer m \<noteq> emptyTx)"

section \<open>Outputs of a snapshot\<close>

record ('r, 'o, 'n) OutputWithMetadata =
  owm_ID :: 'r
  owm_Output :: 'o
  owm_CreationTime :: time
  owm_ConsensusManaPledgeID :: 'n
  owm_AccessManaPledgeID :: 'n

record ('r, 'o, 'n) EpochDiff =
  diff_Spent :: "('r, 'o, 'n) OutputWithMetadata list"
  diff_Created :: "('r, 'o, 'n) OutputWithMetadata list"

end
