(* ===== verification/Ledger.thy ===== *)
theory Ledger
  imports LedgerModels Utxo
begin

text \<open>
  The ledger (packages/core/ledger: ledger.go, storage.go, utils.go, validator.go, booker.go,
  dataflow.go) on top of the conflict DAG.

  The state is a record with a map for every object storage: the transactions and their metadata, the
  outputs and theirs, the consumers registered under an output in the order of registration,
  the storage of the conflict DAG, the number of readings of the clock, and the log of the events that
  were triggered.  The record ledger_env extends that of the conflict DAG by what the ledger takes
  from elsewhere: the virtual machine, the accessors of a transaction, the order in which
  the consumers of an output are visited, the clock and the options, and the external functions with which the
  identifiers of outputs are printed and parsed.  A walker over outputs is the
  walker over resources of the conflict DAG, as outputs are the resources.

  The handlers of events are attached as asynchronous tasks; they are operations of their own here, and
  a run interleaves them with the others in any order.
\<close>

datatype 'e ledger_error =
    ErrTransactionUnsolid
  | ErrTransactionInvalid "'e option"
  | ErrFatal

datatype ('c, 'r, 'o, 'e) ledger_event =
    TransactionStored 'c
  | TransactionBooked 'c "'o list"
  | TransactionForked 'c "'c set"
  | TransactionConflictIDUpdated 'c 'c "'c set"
  | TransactionInclusionUpdated 'c time time
  | TransactionAccepted 'c
  | TransactionRejected 'c
  | TransactionInvalid 'c "'e ledger_error"
  | LedgerError "'e ledger_error"
  | DagEvent "('c, 'r) dag_event"

record ('c, 'r, 's, 't, 'o, 'n, 'e) ledger =
  transactionStorage :: "'c \<Rightarrow> 't option"
  transactionMetadataStorage :: "'c \<Rightarrow> ('c, 'r) TransactionMetadata option"
  outputStorage :: "'r \<Rightarrow> 'o option"
  outputMetadataStorage :: "'r \<Rightarrow> ('c, 'r, 'n) OutputMetadata option"
  consumerStorage :: "'r \<Rightarrow> ('c \<times> bool) list"
  ConflictDAG :: 's
  clockReads :: nat
  triggered :: "('c, 'r, 'o, 'e) ledger_event list"

record ('c, 'r, 's, 'w, 'v, 't, 'i, 'o, 'n, 'e) ledger_env = "('c, 'r, 's, 'w, 'v) conflict_env" +
  Transaction_ID :: "'t \<Rightarrow> 'c"
  Transaction_Inputs :: "'t \<Rightarrow> 'i list"
  Transaction_PledgeIDs :: "'t \<Rightarrow> 'n \<times> 'n"
  ResolveInput :: "'i \<Rightarrow> 'r"
  ExecuteTransaction :: "'t \<Rightarrow> 'o list \<Rightarrow> 'e + 'o list"
  Output_Identifier :: "'o \<Rightarrow> 'r"
  rangeConsumers :: "('c \<times> bool) list \<Rightarrow> ('c \<times> bool) list"
  clockTime :: "nat \<Rightarrow> time"
  emptyTx :: 'c
  emptyNode :: 'n
  mergeToMaster :: bool
  utxoID :: "'r \<Rightarrow> OutputID"
  fromUtxoID :: "OutputID \<Rightarrow> 'r"
  identifierAlias :: "bytes \<Rightarrow> string"
  outputAliases :: "OutputID \<Rightarrow> string option"
  base58Decode :: "string \<Rightarrow> bytes option"
  newIdentifier :: "bytes \<Rightarrow> bytes"
  nilOutputIDs :: "'r set option"

section \<open>Access to the state\<close>

definition trigger :: "('c, 'r, 'o, 'e) ledger_event \<Rightarrow> ('c, 'r, 's, 't, 'o, 'n, 'e) ledger \<Rightarrow> ('c, 'r, 's, 't, 'o, 'n, 'e) ledger" where
  "trigger ev l = l\<lparr>triggered := triggered l @ [ev]\<rparr>"

text \<open>An operation on the metadata of a transaction or an output that was loaded, with its result.\<close>

definition updateTx ::
    "'c \<Rightarrow> (('c, 'r) TransactionMetadata \<Rightarrow> ('c, 'r) TransactionMetadata \<times> bool) \<Rightarrow> ('c, 'r, 's, 't, 'o, 'n, 'e) ledger \<Rightarrow>
     ('c, 'r, 's, 't, 'o, 'n, 'e) ledger \<times> bool" where
  "updateTx t f l =
     (case transactionMetadataStorage l t of
        None \<Rightarrow> (l, False)
      | Some m \<Rightarrow> (case f m of (m1, b) \<Rightarrow>
          (l\<lparr>transactionMetadataStorage := (transactionMetadataStorage l)(t \<mapsto> m1), clockReads := Suc (clockReads l)\<rparr>, b)))"

definition updateOut ::
    "'r \<Rightarrow> (('c, 'r, 'n) OutputMetadata \<Rightarrow> ('c, 'r, 'n) OutputMetadata \<times> bool) \<Rightarrow> ('c, 'r, 's, 't, 'o, 'n, 'e) ledger \<Rightarrow>
     ('c, 'r, 's, 't, 'o, 'n, 'e) ledger \<times> bool" where
  "updateOut k f l =
     (case outputMetadataStorage l k of
        None \<Rightarrow> (l, False)
      | Some m \<Rightarrow> (case f m of (m1, b) \<Rightarrow>
          (l\<lparr>outputMetadataStorage := (outputMetadataStorage l)(k \<mapsto> m1), clockReads := Suc (clockReads l)\<rparr>, b)))"

text \<open>An operation of the conflict DAG, whose events are triggered.\<close>

definition onDAG ::
    "('s \<Rightarrow> 's \<times> bool \<times> ('c, 'r) dag_event list) \<Rightarrow> ('c, 'r, 's, 't, 'o, 'n, 'e) ledger \<Rightarrow>
     ('c, 'r, 's, 't, 'o, 'n, 'e) ledger \<times> bool" where
  "onDAG f l =
     (case f (ConflictDAG l) of (d, b, evs) \<Rightarrow>
        (l\<lparr>ConflictDAG := d, triggered := triggered l @ map DagEvent evs\<rparr>, b))"

section \<open>Utilities\<close>

definition ResolveInputs :: "('c, 'r, 's, 'w, 'v, 't, 'i, 'o, 'n, 'e, 'z) ledger_env_scheme \<Rightarrow> 'i list \<Rightarrow> 'r set" where
  "ResolveInputs env inputs = set (map (ResolveInput env) inputs)"

definition CachedConsumers ::
    "('c, 'r, 's, 'w, 'v, 't, 'i, 'o, 'n, 'e, 'z) ledger_env_scheme \<Rightarrow> ('c, 'r, 's, 't, 'o, 'n, 'e) ledger \<Rightarrow> 'r \<Rightarrow> ('c \<times> bool) list" where
  "CachedConsumers env l k = rangeConsumers env (consumerStorage l k)"

definition UnprocessedConsumingTransactions ::
    "('c, 'r, 's, 'w, 'v, 't, 'i, 'o, 'n, 'e, 'z) ledger_env_scheme \<Rightarrow> ('c, 'r, 's, 't, 'o, 'n, 'e) ledger \<Rightarrow> 'r set \<Rightarrow> 'c set" where
  "UnprocessedConsumingTransactions env l outputIDs =
     set (concat (map (\<lambda>k. map fst (filter (\<lambda>(_, booked). \<not> booked) (CachedConsumers env l k)))
       (resourceElems env outputIDs)))"

text \<open>
  The walk over consuming transactions.  The callback gets a transaction, the walker and the
  value x that it works on, and may push outputs or stop the walk; consumersOf reads the
  consumers of an output from x.
\<close>

definition visitConsumer ::
    "('c \<Rightarrow> 'v \<Rightarrow> 'x \<Rightarrow> 'v \<times> bool \<times> 'x) \<Rightarrow> 'c \<Rightarrow> 'c set \<times> 'v \<times> bool \<times> 'x \<Rightarrow> 'c set \<times> 'v \<times> bool \<times> 'x" where
  "visitConsumer callback t = (\<lambda>(seen, w, stopped, x).
     if stopped \<or> t \<in> seen then (seen, w, stopped, x)
     else case callback t w x of (w1, stopped1, x1) \<Rightarrow> (insert t seen, w1, stopped1, x1))"

partial_function (option) cone_loop ::
    "('c, 'r, 's, 'w, 'v, 't, 'i, 'o, 'n, 'e, 'z) ledger_env_scheme \<Rightarrow> ('x \<Rightarrow> 'r \<Rightarrow> ('c \<times> bool) list) \<Rightarrow>
     ('c \<Rightarrow> 'v \<Rightarrow> 'x \<Rightarrow> 'v \<times> bool \<times> 'x) \<Rightarrow> 'c set \<times> 'v \<times> bool \<times> 'x \<Rightarrow> 'x option" where
  "cone_loop env consumersOf callback state =
     (case state of (seen, w, stopped, x) \<Rightarrow>
        if stopped then Some x
        else case nextSetWalk env w of
          None \<Rightarrow> Some x
        | Some (k, w1) \<Rightarrow>
            cone_loop env consumersOf callback
              (fold (visitConsumer callback) (map fst (consumersOf x k)) (seen, w1, False, x)))"

definition pushOutputs :: "('c, 'r, 's, 'w, 'v, 'z) conflict_env_scheme \<Rightarrow> 'r set \<Rightarrow> 'v \<Rightarrow> 'v" where
  "pushOutputs env outputIDs w = fold (\<lambda>k w. pushSetWalk env w k) (resourceElems env outputIDs) w"

definition WalkConsumingTransactionID ::
    "('c, 'r, 's, 'w, 'v, 't, 'i, 'o, 'n, 'e, 'z) ledger_env_scheme \<Rightarrow> ('x \<Rightarrow> 'r \<Rightarrow> ('c \<times> bool) list) \<Rightarrow> 'r set \<Rightarrow>
     ('c \<Rightarrow> 'v \<Rightarrow> 'x \<Rightarrow> 'v \<times> bool \<times> 'x) \<Rightarrow> 'x \<Rightarrow> 'x option" where
  "WalkConsumingTransactionID env consumersOf entryPoints callback x =
     (if entryPoints = {} then Some x
      else cone_loop env consumersOf callback ({}, pushOutputs env entryPoints (newSetWalk env), False, x))"

text \<open>
  WalkConsumingTransactionMetadata over the ledger itself: the callback gets the metadata, and returns
  what to push.
\<close>

definition metadataCallback ::
    "('c, 'r, 's, 'w, 'v, 't, 'i, 'o, 'n, 'e, 'z) ledger_env_scheme \<Rightarrow>
     ('c \<Rightarrow> ('c, 'r) TransactionMetadata \<Rightarrow> ('c, 'r, 's, 't, 'o, 'n, 'e) ledger \<Rightarrow> ('c, 'r, 's, 't, 'o, 'n, 'e) ledger \<times> 'r set) \<Rightarrow>
     'c \<Rightarrow> 'v \<Rightarrow> ('c, 'r, 's, 't, 'o, 'n, 'e) ledger \<Rightarrow> 'v \<times> bool \<times> ('c, 'r, 's, 't, 'o, 'n, 'e) ledger" where
  "metadataCallback env callback t w l =
     (case transactionMetadataStorage l t of
        None \<Rightarrow> (w, False, l)
      | Some m \<Rightarrow> (case callback t m l of (l1, ks) \<Rightarrow> (pushOutputs env ks w, False, l1)))"

definition WalkConsumingTransactionMetadata ::
    "('c, 'r, 's, 'w, 'v, 't, 'i, 'o, 'n, 'e, 'z) ledger_env_scheme \<Rightarrow> 'r set \<Rightarrow>
     ('c \<Rightarrow> ('c, 'r) TransactionMetadata \<Rightarrow> ('c, 'r, 's, 't, 'o, 'n, 'e) ledger \<Rightarrow> ('c, 'r, 's, 't, 'o, 'n, 'e) ledger \<times> 'r set) \<Rightarrow>
     ('c, 'r, 's, 't, 'o, 'n, 'e) ledger \<Rightarrow> ('c, 'r, 's, 't, 'o, 'n, 'e) ledger option" where
  "WalkConsumingTransactionMetadata env entryPoints callback l =
     WalkConsumingTransactionID env (CachedConsumers env) entryPoints (metadataCallback env callback) l"

text \<open>The conflicts that share a conflict set with a transaction, and the state of an output.\<close>

definition ConflictingTransactions :: "('c, 'r, 's, 'w, 'v, 't, 'i, 'o, 'n, 'e, 'z) ledger_env_scheme \<Rightarrow> ('c, 'r, 's, 't, 'o, 'n, 'e) ledger \<Rightarrow> 'c \<Rightarrow> 'c set" where
  "ConflictingTransactions env l t =
     (case loadConflict env (ConflictDAG l) t of
        None \<Rightarrow> {}
      | Some c \<Rightarrow> set (concat (map (\<lambda>r. filter (\<lambda>m. m \<noteq> t) (conflictMembers env (ConflictDAG l) r))
          (resourceElems env (ConflictSetIDs c)))))"

definition TransactionConflictIDs :: "('c, 'r, 's, 't, 'o, 'n, 'e) ledger \<Rightarrow> 'c \<Rightarrow> 'e ledger_error + 'c set" where
  "TransactionConflictIDs l t =
     (case transactionMetadataStorage l t of None \<Rightarrow> Inl ErrFatal | Some m \<Rightarrow> Inr (tx_ConflictIDs m))"

definition TransactionConfirmationState :: "('c, 'r, 's, 'w, 'v, 't, 'i, 'o, 'n, 'e, 'z) ledger_env_scheme \<Rightarrow> ('c, 'r, 's, 't, 'o, 'n, 'e) ledger \<Rightarrow> 'c \<Rightarrow> State" where
  "TransactionConfirmationState env l t =
     (case transactionMetadataStorage l t of None \<Rightarrow> zeroState env | Some m \<Rightarrow> tx_State m)"

definition OutputConfirmationState :: "('c, 'r, 's, 'w, 'v, 't, 'i, 'o, 'n, 'e, 'z) ledger_env_scheme \<Rightarrow> ('c, 'r, 's, 't, 'o, 'n, 'e) ledger \<Rightarrow> 'r \<Rightarrow> State" where
  "OutputConfirmationState env l k =
     (case outputMetadataStorage l k of None \<Rightarrow> zeroState env | Some m \<Rightarrow> out_State m)"

text \<open>The transactions that created the inputs of a transaction, by the accessor of the identifier.\<close>

definition ReferencedTransactions ::
    "('c, 'r, 's, 'w, 'v, 't, 'i, 'o, 'n, 'e, 'z) ledger_env_scheme \<Rightarrow> ('r \<Rightarrow> 'c) \<Rightarrow> ('c, 'r, 's, 't, 'o, 'n, 'e) ledger \<Rightarrow> 't \<Rightarrow> 'c set" where
  "ReferencedTransactions env transactionOf l tx =
     set (concat (map (\<lambda>k. case outputStorage l k of Some out \<Rightarrow> [transactionOf (Output_Identifier env out)] | None \<Rightarrow> [])
       (resourceElems env (ResolveInputs env (Transaction_Inputs env tx)))))"

text \<open>
  The conflicts that depend on the given ones: below an accepted conflict those of the transactions in its
  future cone, below another one its children.
\<close>

definition collectConflicts ::
    "('c, 'r, 's, 'w, 'v, 't, 'i, 'o, 'n, 'e, 'z) ledger_env_scheme \<Rightarrow> ('c, 'r, 's, 't, 'o, 'n, 'e) ledger \<Rightarrow> 'c \<Rightarrow> 'v \<Rightarrow> 'c set \<Rightarrow> 'v \<times> bool \<times> 'c set" where
  "collectConflicts env l t v found =
     (case transactionMetadataStorage l t of
        None \<Rightarrow> (v, False, found)
      | Some m \<Rightarrow> (pushOutputs env (tx_OutputIDs m) v, False, found \<union> tx_ConflictIDs m))"

partial_function (option) future_loop ::
    "('c, 'r, 's, 'w, 'v, 't, 'i, 'o, 'n, 'e, 'z) ledger_env_scheme \<Rightarrow> ('c, 'r, 's, 't, 'o, 'n, 'e) ledger \<Rightarrow> 'w \<Rightarrow> 'c set \<Rightarrow> 'c set option" where
  "future_loop env l conflictIDWalker found =
     (case nextWalk env conflictIDWalker of
        None \<Rightarrow> Some found
      | Some (i, w1) \<Rightarrow>
          if IsAccepted (ConfirmationState env (ConflictDAG l) {i})
          then Option.bind
            (case transactionMetadataStorage l i of
               None \<Rightarrow> Some (insert i found)
             | Some m \<Rightarrow> WalkConsumingTransactionID env (\<lambda>_. CachedConsumers env l) (tx_OutputIDs m)
                 (collectConflicts env l) (insert i found))
            (future_loop env l w1)
          else future_loop env l
            (fold (\<lambda>c w. pushWalk env w c) (childConflicts env (ConflictDAG l) i) w1) (insert i found))"

definition ConflictIDsInFutureCone ::
    "('c, 'r, 's, 'w, 'v, 't, 'i, 'o, 'n, 'e, 'z) ledger_env_scheme \<Rightarrow> ('c, 'r, 's, 't, 'o, 'n, 'e) ledger \<Rightarrow> 'c set \<Rightarrow> 'c set option" where
  "ConflictIDsInFutureCone env l conflictIDs =
     future_loop env l (fold (\<lambda>c w. pushWalk env w c) (conflictElems env conflictIDs) (newWalk env)) {}"

section \<open>Data flows\<close>

text \<open>
  The parameters that the commands of a data flow pass on.  Metadata and consumers are objects of the
  storage, kept by their identifiers.
\<close>

record ('r, 't, 'o) dataFlowParams =
  par_Transaction :: 't
  par_HasMetadata :: bool
  par_InputIDs :: "'r set"
  par_Inputs :: "'o list"
  par_InputsMetadata :: "'r list"
  par_Consumers :: "'r list"
  par_Outputs :: "'o list"

definition newDataFlowParams :: "'t \<Rightarrow> ('r, 't, 'o) dataFlowParams" where
  "newDataFlowParams tx =
     \<lparr>par_Transaction = tx, par_HasMetadata = False, par_InputIDs = {}, par_Inputs = [], par_InputsMetadata = [],
      par_Consumers = [], par_Outputs = []\<rparr>"

text \<open>
  The data flows of the external package dataflow: a command gets the parameters and the rest
  of the flow.  Run runs a list of commands, ChainedCommand makes a command of one, and
  both may have a callback for errors.  The outer option is for a walk that need not end.
\<close>

type_synonym ('p, 'l, 'x) flow_result = "('x option \<times> 'l) option"
type_synonym ('p, 'l, 'x) command = "'p \<Rightarrow> ('p \<Rightarrow> 'l \<Rightarrow> ('x option \<times> 'l) option) \<Rightarrow> 'l \<Rightarrow> ('x option \<times> 'l) option"

record ('p, 'l, 'x) dataflow =
  Run :: "('p, 'l, 'x) command list \<Rightarrow> ('x \<Rightarrow> 'p \<Rightarrow> 'l \<Rightarrow> 'l) option \<Rightarrow> 'p \<Rightarrow> 'l \<Rightarrow> ('x option \<times> 'l) option"
  ChainedCommand :: "('p, 'l, 'x) command list \<Rightarrow> ('x \<Rightarrow> 'p \<Rightarrow> 'l \<Rightarrow> 'l) option \<Rightarrow> ('p, 'l, 'x) command"

definition abortFlow :: "'x \<Rightarrow> 'l \<Rightarrow> ('x option \<times> 'l) option" where
  "abortFlow e l = Some (Some e, l)"

section \<open>Storing a transaction\<close>

definition initConsumers :: "('c, 'r, 's, 'w, 'v, 't, 'i, 'o, 'n, 'e, 'z) ledger_env_scheme \<Rightarrow> 'r set \<Rightarrow> 'c \<Rightarrow> ('c, 'r, 's, 't, 'o, 'n, 'e) ledger \<Rightarrow> ('c, 'r, 's, 't, 'o, 'n, 'e) ledger" where
  "initConsumers env outputIDs t l =
     fold (\<lambda>k l. if t \<in> fst ` set (consumerStorage l k) then l
                 else l\<lparr>consumerStorage := (consumerStorage l)(k := consumerStorage l k @ [(t, False)])\<rparr>)
       (resourceElems env outputIDs) l"

definition storeTransactionCommand :: "('c, 'r, 's, 'w, 'v, 't, 'i, 'o, 'n, 'e, 'z) ledger_env_scheme \<Rightarrow> (('r, 't, 'o) dataFlowParams, ('c, 'r, 's, 't, 'o, 'n, 'e) ledger, 'e ledger_error) command" where
  "storeTransactionCommand env p nxt l =
     (let t = Transaction_ID env (par_Transaction p) in
      case transactionMetadataStorage l t of
        Some m \<Rightarrow> if tx_Booked m then Some (None, l) else abortFlow ErrTransactionUnsolid l
      | None \<Rightarrow>
          let l1 = l\<lparr>transactionStorage := (transactionStorage l)(t \<mapsto> par_Transaction p),
                     transactionMetadataStorage := (transactionMetadataStorage l)(t \<mapsto> NewTransactionMetadata t)\<rparr>;
              ids = ResolveInputs env (Transaction_Inputs env (par_Transaction p));
              l2 = initConsumers env ids t l1
          in nxt (p\<lparr>par_HasMetadata := True, par_InputIDs := ids, par_Consumers := resourceElems env ids\<rparr>)
               (trigger (TransactionStored t) l2))"

section \<open>Validation\<close>

definition checkSolidityCommand :: "('c, 'r, 's, 'w, 'v, 't, 'i, 'o, 'n, 'e, 'z) ledger_env_scheme \<Rightarrow> (('r, 't, 'o) dataFlowParams, ('c, 'r, 's, 't, 'o, 'n, 'e) ledger, 'e ledger_error) command" where
  "checkSolidityCommand env p nxt l =
     (let ids = (if par_InputIDs p = {} then ResolveInputs env (Transaction_Inputs env (par_Transaction p)) else par_InputIDs p);
          cachedInputs = map (outputStorage l) (resourceElems env ids);
          inputs = map the (filter (\<lambda>x. x \<noteq> None) cachedInputs)
      in if card (Output_Identifier env ` set inputs) \<noteq> length cachedInputs
         then abortFlow ErrTransactionUnsolid l
         else nxt (p\<lparr>par_InputIDs := ids, par_Inputs := inputs\<rparr>) l)"

fun pushUnrelated :: "('c, 'r, 's, 'w, 'v, 'z) conflict_env_scheme \<Rightarrow> 'r list \<Rightarrow> 'r list \<Rightarrow> 'v \<Rightarrow> 'v \<times> bool \<times> bool" where
  "pushUnrelated env inputs [] w = (w, False, False)"
| "pushUnrelated env inputs (k # ks) w =
     (if k \<in> set inputs then (w, True, True) else pushUnrelated env inputs ks (pushSetWalk env w k))"

definition relatedCallback :: "('c, 'r, 's, 'w, 'v, 't, 'i, 'o, 'n, 'e, 'z) ledger_env_scheme \<Rightarrow> ('c, 'r, 's, 't, 'o, 'n, 'e) ledger \<Rightarrow> 'r list \<Rightarrow> 'c \<Rightarrow> 'v \<Rightarrow> bool \<Rightarrow> 'v \<times> bool \<times> bool" where
  "relatedCallback env l inputs t w related =
     (case transactionMetadataStorage l t of
        None \<Rightarrow> (w, False, related)
      | Some m \<Rightarrow>
          if \<not> tx_Booked m then (w, False, related)
          else if tx_OutputIDs m = {} then (w, False, related)
          else pushUnrelated env inputs (resourceElems env (tx_OutputIDs m)) w)"

definition outputsCausallyRelated :: "('c, 'r, 's, 'w, 'v, 't, 'i, 'o, 'n, 'e, 'z) ledger_env_scheme \<Rightarrow> ('c, 'r, 's, 't, 'o, 'n, 'e) ledger \<Rightarrow> 'r list \<Rightarrow> bool option" where
  "outputsCausallyRelated env l inputs =
     (let spentOutputIDs = set (filter (\<lambda>k. case outputMetadataStorage l k of
                Some m \<Rightarrow> IsSpent (emptyTx env) m | None \<Rightarrow> False) inputs)
      in if spentOutputIDs = {} then Some False
         else WalkConsumingTransactionID env (\<lambda>_. CachedConsumers env l) spentOutputIDs (relatedCallback env l inputs) False)"

definition checkOutputsCausallyRelatedCommand :: "('c, 'r, 's, 'w, 'v, 't, 'i, 'o, 'n, 'e, 'z) ledger_env_scheme \<Rightarrow> (('r, 't, 'o) dataFlowParams, ('c, 'r, 's, 't, 'o, 'n, 'e) ledger, 'e ledger_error) command" where
  "checkOutputsCausallyRelatedCommand env p nxt l =
     (let cached = resourceElems env (par_InputIDs p);
          present = filter (\<lambda>k. outputMetadataStorage l k \<noteq> None) cached
      in if card ((\<lambda>k. out_ID (the (outputMetadataStorage l k))) ` set present) \<noteq> length cached
         then abortFlow ErrFatal l
         else Option.bind (outputsCausallyRelated env l present)
           (\<lambda>related. if related then abortFlow (ErrTransactionInvalid None) l
                       else nxt (p\<lparr>par_InputsMetadata := present\<rparr>) l))"

definition checkTransactionExecutionCommand :: "('c, 'r, 's, 'w, 'v, 't, 'i, 'o, 'n, 'e, 'z) ledger_env_scheme \<Rightarrow> (('r, 't, 'o) dataFlowParams, ('c, 'r, 's, 't, 'o, 'n, 'e) ledger, 'e ledger_error) command" where
  "checkTransactionExecutionCommand env p nxt l =
     (case ExecuteTransaction env (par_Transaction p) (par_Inputs p) of
        Inl e \<Rightarrow> abortFlow (ErrTransactionInvalid (Some e)) l
      | Inr outs \<Rightarrow> nxt (p\<lparr>par_Outputs := outs\<rparr>) l)"

section \<open>Booking\<close>

definition checkAlreadyBookedCommand :: "('c, 'r, 's, 'w, 'v, 't, 'i, 'o, 'n, 'e, 'z) ledger_env_scheme \<Rightarrow> (('r, 't, 'o) dataFlowParams, ('c, 'r, 's, 't, 'o, 'n, 'e) ledger, 'e ledger_error) command" where
  "checkAlreadyBookedCommand env p nxt l =
     (case transactionMetadataStorage l (Transaction_ID env (par_Transaction p)) of
        None \<Rightarrow> abortFlow ErrFatal l
      | Some m \<Rightarrow> if tx_Booked m then Some (None, l) else nxt (p\<lparr>par_HasMetadata := True\<rparr>) l)"

definition determineConflictDetails :: "('c, 'r, 's, 'w, 'v, 't, 'i, 'o, 'n, 'e, 'z) ledger_env_scheme \<Rightarrow> 'c \<Rightarrow> 'r list \<Rightarrow> ('c, 'r, 's, 't, 'o, 'n, 'e) ledger \<Rightarrow> ('c, 'r, 's, 't, 'o, 'n, 'e) ledger \<times> 'r set \<times> 'c set" where
  "determineConflictDetails env t inputs l =
     fold (\<lambda>k (l, conflictingInputIDs, consumersToFork).
             case outputMetadataStorage l k of
               None \<Rightarrow> (l, conflictingInputIDs, consumersToFork)
             | Some m \<Rightarrow>
                 (case RegisterBookedConsumer (emptyTx env) t m of
                    (m1, isConflicting, consumerToFork) \<Rightarrow>
                      (l\<lparr>outputMetadataStorage := (outputMetadataStorage l)(k \<mapsto> m1)\<rparr>,
                       if isConflicting then insert (out_ID m) conflictingInputIDs else conflictingInputIDs,
                       if consumerToFork \<noteq> emptyTx env then insert consumerToFork consumersToFork else consumersToFork)))
       inputs (l, {}, {})"

definition updateConflictsAfterFork ::
    "('c, 'r, 's, 'w, 'v, 't, 'i, 'o, 'n, 'e, 'z) ledger_env_scheme \<Rightarrow> 'c \<Rightarrow> 'c set \<Rightarrow> 'c \<Rightarrow> ('c, 'r) TransactionMetadata \<Rightarrow> ('c, 'r, 's, 't, 'o, 'n, 'e) ledger \<Rightarrow> ('c, 'r, 's, 't, 'o, 'n, 'e) ledger \<times> bool" where
  "updateConflictsAfterFork env forkedConflictID previousParents t m l =
     (if IsConflicting m
      then (fst (onDAG (UpdateConflictParents env (tx_ID m) previousParents forkedConflictID) l), False)
      else if forkedConflictID \<in> tx_ConflictIDs m then (l, False)
      else let newConflictIDs = insert forkedConflictID (tx_ConflictIDs m - previousParents);
               newConflicts = UnconfirmedConflicts env (mergeToMaster env) (ConflictDAG l) newConflictIDs;
               l1 = fold (\<lambda>k l. fst (updateOut k (Out_SetConflictIDs newConflicts) l))
                      (resourceElems env (tx_OutputIDs m)) l;
               l2 = fst (updateTx t (Tx_SetConflictIDs newConflicts) l1)
           in (trigger (TransactionConflictIDUpdated (tx_ID m) forkedConflictID previousParents) l2, True))"

definition propagateForkedConflictToFutureCone ::
    "('c, 'r, 's, 'w, 'v, 't, 'i, 'o, 'n, 'e, 'z) ledger_env_scheme \<Rightarrow> 'r set \<Rightarrow> 'c \<Rightarrow> 'c set \<Rightarrow> ('c, 'r, 's, 't, 'o, 'n, 'e) ledger \<Rightarrow> ('c, 'r, 's, 't, 'o, 'n, 'e) ledger option" where
  "propagateForkedConflictToFutureCone env outputIDs forkedConflictID previousParentConflicts l =
     WalkConsumingTransactionMetadata env outputIDs
       (\<lambda>t m l. case updateConflictsAfterFork env forkedConflictID previousParentConflicts t m l of
          (l1, updated) \<Rightarrow> (l1, if updated then tx_OutputIDs m else {})) l"

definition forkTransaction :: "('c, 'r, 's, 'w, 'v, 't, 'i, 'o, 'n, 'e, 'z) ledger_env_scheme \<Rightarrow> 'c \<Rightarrow> 'r set \<Rightarrow> ('c, 'r, 's, 't, 'o, 'n, 'e) ledger \<Rightarrow> ('c, 'r, 's, 't, 'o, 'n, 'e) ledger option" where
  "forkTransaction env t outputsSpentByConflictingTx l =
     (case transactionStorage l t of
        None \<Rightarrow> Some l
      | Some tx \<Rightarrow>
     (case transactionMetadataStorage l t of
        None \<Rightarrow> Some l
      | Some m \<Rightarrow>
          let conflictingInputs = ResolveInputs env (Transaction_Inputs env tx) \<inter> outputsSpentByConflictingTx;
              parentConflicts = tx_ConflictIDs m
          in case onDAG (CreateConflict env t parentConflicts conflictingInputs) l of
               (l1, created) \<Rightarrow>
                 if \<not> created then Some (fst (onDAG (UpdateConflictingResources env t conflictingInputs) l1))
                 else let l2 = trigger (TransactionForked t parentConflicts) l1;
                          l3 = fst (updateConflictsAfterFork env t parentConflicts t m l2)
                      in propagateForkedConflictToFutureCone env (tx_OutputIDs m) t parentConflicts l3))"

fun forkEach :: "('c, 'r, 's, 'w, 'v, 't, 'i, 'o, 'n, 'e, 'z) ledger_env_scheme \<Rightarrow> 'r set \<Rightarrow> 'c list \<Rightarrow> ('c, 'r, 's, 't, 'o, 'n, 'e) ledger \<Rightarrow> ('c, 'r, 's, 't, 'o, 'n, 'e) ledger option" where
  "forkEach env spent [] l = Some l"
| "forkEach env spent (t # ts) l = Option.bind (forkTransaction env t spent l) (forkEach env spent ts)"

definition inheritConflictIDs :: "('c, 'r, 's, 'w, 'v, 't, 'i, 'o, 'n, 'e, 'z) ledger_env_scheme \<Rightarrow> 'c \<Rightarrow> 'r list \<Rightarrow> ('c, 'r, 's, 't, 'o, 'n, 'e) ledger \<Rightarrow> (('c, 'r, 's, 't, 'o, 'n, 'e) ledger \<times> 'c set) option" where
  "inheritConflictIDs env t inputs l =
     (let parentConflictIDs = UnconfirmedConflicts env (mergeToMaster env) (ConflictDAG l)
            (\<Union>k\<in>set inputs. case outputMetadataStorage l k of Some m \<Rightarrow> out_ConflictIDs m | None \<Rightarrow> {})
      in case determineConflictDetails env t inputs l of
           (l1, conflictingInputIDs, consumersToFork) \<Rightarrow>
             if conflictingInputIDs = {} then Some (l1, parentConflictIDs)
             else map_option (\<lambda>l2. (l2, {t}))
               (forkEach env conflictingInputIDs (conflictElems env consumersToFork)
                 (fst (onDAG (CreateConflict env t parentConflictIDs conflictingInputIDs) l1))))"

definition storeOutputs :: "('c, 'r, 's, 'w, 'v, 't, 'i, 'o, 'n, 'e, 'z) ledger_env_scheme \<Rightarrow> 'o list \<Rightarrow> 'c set \<Rightarrow> 'n \<Rightarrow> 'n \<Rightarrow> ('c, 'r, 's, 't, 'o, 'n, 'e) ledger \<Rightarrow> ('c, 'r, 's, 't, 'o, 'n, 'e) ledger" where
  "storeOutputs env outs conflictIDs consensusPledgeID accessPledgeID l =
     fold (\<lambda>out l.
             let k = Output_Identifier env out;
                 m0 = NewOutputMetadata (emptyTx env) (emptyNode env) k;
                 m1 = fst (Out_SetConflictIDs conflictIDs m0);
                 m2 = fst (Out_SetAccessManaPledgeID accessPledgeID m1);
                 m3 = fst (Out_SetConsensusManaPledgeID consensusPledgeID m2)
             in l\<lparr>outputMetadataStorage := (outputMetadataStorage l)(k \<mapsto> m3),
                  outputStorage := (outputStorage l)(k \<mapsto> out)\<rparr>)
       outs l"

definition setConsumersBooked :: "'c \<Rightarrow> 'r list \<Rightarrow> ('c, 'r, 's, 't, 'o, 'n, 'e) ledger \<Rightarrow> ('c, 'r, 's, 't, 'o, 'n, 'e) ledger" where
  "setConsumersBooked t ks l =
     fold (\<lambda>k l. l\<lparr>consumerStorage := (consumerStorage l)
             (k := map (\<lambda>(t', b). (t', if t' = t then True else b)) (consumerStorage l k))\<rparr>) ks l"

text \<open>
  Outputs.IDs parses the names under which the outputs are collected, and is nil when one of them does not parse.
  What the methods of the external set do when they are called on nil is the parameter nilOutputIDs:
  the set as which nil reads, or None if they panic.
\<close>

definition outputs_IDs ::
    "('c, 'r, 's, 'w, 'v, 't, 'i, 'o, 'n, 'e, 'z) ledger_env_scheme \<Rightarrow> 'o list \<Rightarrow> 'r set option" where
  "outputs_IDs env outs =
     (case IDs_loop (OutputIDFromString (base58Decode env) (newIdentifier env))
             (map (\<lambda>out. OutputID_String (identifierAlias env) (outputAliases env) (utxoID env (Output_Identifier env out))) outs) [] of
        None \<Rightarrow> nilOutputIDs env
      | Some ids \<Rightarrow> Some (fromUtxoID env ` set ids))"

text \<open>A panic is, as a walk that does not end, an operation that does not return: the outer None.\<close>

definition bookTransaction ::
    "('c, 'r, 's, 'w, 'v, 't, 'i, 'o, 'n, 'e, 'z) ledger_env_scheme \<Rightarrow> 't \<Rightarrow> 'r list \<Rightarrow> 'r list \<Rightarrow> 'o list \<Rightarrow> ('c, 'r, 's, 't, 'o, 'n, 'e) ledger \<Rightarrow> ('c, 'r, 's, 't, 'o, 'n, 'e) ledger option" where
  "bookTransaction env tx inputsMetadata consumers outs l =
     (let t = Transaction_ID env tx in
      Option.bind (inheritConflictIDs env t inputsMetadata l) (\<lambda>(l1, conflictIDs).
        let l2 = fst (updateTx t (Tx_SetConflictIDs conflictIDs) l1) in
        Option.bind (outputs_IDs env outs) (\<lambda>outputIDs.
        let l3 = fst (updateTx t (Tx_SetOutputIDs outputIDs) l2);
            (consensusPledgeID, accessPledgeID) = Transaction_PledgeIDs env tx;
            l4 = storeOutputs env outs conflictIDs consensusPledgeID accessPledgeID l3;
            l5 = fst (updateTx t (Tx_SetBooked True (clockTime env (clockReads l4))) l4);
            l6 = setConsumersBooked t consumers l5
        in Some (trigger (TransactionBooked t outs) l6))))"

definition bookTransactionCommand :: "('c, 'r, 's, 'w, 'v, 't, 'i, 'o, 'n, 'e, 'z) ledger_env_scheme \<Rightarrow> (('r, 't, 'o) dataFlowParams, ('c, 'r, 's, 't, 'o, 'n, 'e) ledger, 'e ledger_error) command" where
  "bookTransactionCommand env p nxt l =
     Option.bind (bookTransaction env (par_Transaction p) (par_InputsMetadata p) (par_Consumers p) (par_Outputs p) l) (nxt p)"

section \<open>The flows\<close>

definition handleError :: "('c, 'r, 's, 'w, 'v, 't, 'i, 'o, 'n, 'e, 'z) ledger_env_scheme \<Rightarrow> 'e ledger_error \<Rightarrow> ('r, 't, 'o) dataFlowParams \<Rightarrow> ('c, 'r, 's, 't, 'o, 'n, 'e) ledger \<Rightarrow> ('c, 'r, 's, 't, 'o, 'n, 'e) ledger" where
  "handleError env err p l =
     (case err of
        ErrTransactionUnsolid \<Rightarrow> l
      | ErrTransactionInvalid _ \<Rightarrow> trigger (TransactionInvalid (Transaction_ID env (par_Transaction p)) err) l
      | ErrFatal \<Rightarrow> trigger (LedgerError err) l)"

definition checkTransactionFlow :: "('c, 'r, 's, 'w, 'v, 't, 'i, 'o, 'n, 'e, 'z) ledger_env_scheme \<Rightarrow> (('r, 't, 'o) dataFlowParams, ('c, 'r, 's, 't, 'o, 'n, 'e) ledger, 'e ledger_error) command list" where
  "checkTransactionFlow env =
     [checkSolidityCommand env, checkOutputsCausallyRelatedCommand env, checkTransactionExecutionCommand env]"

definition processTransactionFlow ::
    "(('r, 't, 'o) dataFlowParams, ('c, 'r, 's, 't, 'o, 'n, 'e) ledger, 'e ledger_error) dataflow \<Rightarrow> ('c, 'r, 's, 'w, 'v, 't, 'i, 'o, 'n, 'e, 'z) ledger_env_scheme \<Rightarrow> (('r, 't, 'o) dataFlowParams, ('c, 'r, 's, 't, 'o, 'n, 'e) ledger, 'e ledger_error) command list" where
  "processTransactionFlow flow env =
     [checkAlreadyBookedCommand env, ChainedCommand flow (checkTransactionFlow env) None, bookTransactionCommand env]"

definition storeAndProcessTransactionFlow ::
    "(('r, 't, 'o) dataFlowParams, ('c, 'r, 's, 't, 'o, 'n, 'e) ledger, 'e ledger_error) dataflow \<Rightarrow> ('c, 'r, 's, 'w, 'v, 't, 'i, 'o, 'n, 'e, 'z) ledger_env_scheme \<Rightarrow> (('r, 't, 'o) dataFlowParams, ('c, 'r, 's, 't, 'o, 'n, 'e) ledger, 'e ledger_error) command list" where
  "storeAndProcessTransactionFlow flow env =
     [storeTransactionCommand env, ChainedCommand flow (processTransactionFlow flow env) (Some (handleError env))]"

section \<open>Operations of the ledger\<close>

definition CheckTransaction ::
    "(('r, 't, 'o) dataFlowParams, ('c, 'r, 's, 't, 'o, 'n, 'e) ledger, 'e ledger_error) dataflow \<Rightarrow> ('c, 'r, 's, 'w, 'v, 't, 'i, 'o, 'n, 'e, 'z) ledger_env_scheme \<Rightarrow> 't \<Rightarrow> ('c, 'r, 's, 't, 'o, 'n, 'e) ledger \<Rightarrow> ('e ledger_error option \<times> ('c, 'r, 's, 't, 'o, 'n, 'e) ledger) option" where
  "CheckTransaction flow env tx l = Run flow (checkTransactionFlow env) None (newDataFlowParams tx) l"

definition StoreAndProcessTransaction ::
    "(('r, 't, 'o) dataFlowParams, ('c, 'r, 's, 't, 'o, 'n, 'e) ledger, 'e ledger_error) dataflow \<Rightarrow> ('c, 'r, 's, 'w, 'v, 't, 'i, 'o, 'n, 'e, 'z) ledger_env_scheme \<Rightarrow> 't \<Rightarrow> ('c, 'r, 's, 't, 'o, 'n, 'e) ledger \<Rightarrow> ('e ledger_error option \<times> ('c, 'r, 's, 't, 'o, 'n, 'e) ledger) option" where
  "StoreAndProcessTransaction flow env tx l =
     Run flow (storeAndProcessTransactionFlow flow env) None (newDataFlowParams tx) l"

definition processTransaction ::
    "(('r, 't, 'o) dataFlowParams, ('c, 'r, 's, 't, 'o, 'n, 'e) ledger, 'e ledger_error) dataflow \<Rightarrow> ('c, 'r, 's, 'w, 'v, 't, 'i, 'o, 'n, 'e, 'z) ledger_env_scheme \<Rightarrow> 't \<Rightarrow> ('c, 'r, 's, 't, 'o, 'n, 'e) ledger \<Rightarrow> ('e ledger_error option \<times> ('c, 'r, 's, 't, 'o, 'n, 'e) ledger) option" where
  "processTransaction flow env tx l =
     Run flow (processTransactionFlow flow env) (Some (handleError env)) (newDataFlowParams tx) l"

text \<open>
  The handler of the event TransactionBooked: the unprocessed consumers of the outputs, for each of which it
  submits a task.
\<close>

definition processConsumingTransactions ::
    "('c, 'r, 's, 'w, 'v, 't, 'i, 'o, 'n, 'e, 'z) ledger_env_scheme \<Rightarrow> 'o list \<Rightarrow> ('c, 'r, 's, 't, 'o, 'n, 'e) ledger \<Rightarrow> 'c set option" where
  "processConsumingTransactions env outs l =
     map_option (UnprocessedConsumingTransactions env l) (outputs_IDs env outs)"

text \<open>The task that processConsumingTransactions submits for every unprocessed consumer.\<close>

definition processConsumer ::
    "(('r, 't, 'o) dataFlowParams, ('c, 'r, 's, 't, 'o, 'n, 'e) ledger, 'e ledger_error) dataflow \<Rightarrow> ('c, 'r, 's, 'w, 'v, 't, 'i, 'o, 'n, 'e, 'z) ledger_env_scheme \<Rightarrow> 'c \<Rightarrow> ('c, 'r, 's, 't, 'o, 'n, 'e) ledger \<Rightarrow> ('c, 'r, 's, 't, 'o, 'n, 'e) ledger option" where
  "processConsumer flow env t l =
     (case transactionStorage l t of
        None \<Rightarrow> Some l
      | Some tx \<Rightarrow> map_option snd (processTransaction flow env tx l))"

definition LoadOutputWithMetadata :: "('c, 'r, 's, 'w, 'v, 't, 'i, 'o, 'n, 'e, 'z) ledger_env_scheme \<Rightarrow> ('r, 'o, 'n) OutputWithMetadata \<Rightarrow> ('c, 'r, 's, 't, 'o, 'n, 'e) ledger \<Rightarrow> ('c, 'r, 's, 't, 'o, 'n, 'e) ledger" where
  "LoadOutputWithMetadata env x l =
     (let m0 = NewOutputMetadata (emptyTx env) (emptyNode env) (owm_ID x);
          m1 = fst (Out_SetAccessManaPledgeID (owm_AccessManaPledgeID x) m0);
          m2 = fst (Out_SetConsensusManaPledgeID (owm_ConsensusManaPledgeID x) m1);
          m3 = fst (Out_SetConfirmationState Confirmed (clockTime env (clockReads l)) m2)
      in l\<lparr>outputStorage := (outputStorage l)(Output_Identifier env (owm_Output x) \<mapsto> owm_Output x),
           outputMetadataStorage := (outputMetadataStorage l)(owm_ID x \<mapsto> m3), clockReads := Suc (clockReads l)\<rparr>)"

definition LoadOutputWithMetadatas :: "('c, 'r, 's, 'w, 'v, 't, 'i, 'o, 'n, 'e, 'z) ledger_env_scheme \<Rightarrow> ('r, 'o, 'n) OutputWithMetadata list \<Rightarrow> ('c, 'r, 's, 't, 'o, 'n, 'e) ledger \<Rightarrow> ('c, 'r, 's, 't, 'o, 'n, 'e) ledger" where
  "LoadOutputWithMetadatas env xs l = fold (LoadOutputWithMetadata env) xs l"

definition LoadEpochDiff :: "('c, 'r, 's, 'w, 'v, 't, 'i, 'o, 'n, 'e, 'z) ledger_env_scheme \<Rightarrow> ('r, 'o, 'n) EpochDiff \<Rightarrow> ('c, 'r, 's, 't, 'o, 'n, 'e) ledger \<Rightarrow> ('c, 'r, 's, 't, 'o, 'n, 'e) ledger" where
  "LoadEpochDiff env d l =
     fold (LoadOutputWithMetadata env) (diff_Created d)
       (fold (\<lambda>x l. l\<lparr>outputStorage := (outputStorage l)(owm_ID x := None),
                       outputMetadataStorage := (outputMetadataStorage l)(owm_ID x := None)\<rparr>) (diff_Spent d) l)"

section \<open>Confirmation\<close>

definition setOutputStates :: "('c, 'r, 's, 'w, 'v, 't, 'i, 'o, 'n, 'e, 'z) ledger_env_scheme \<Rightarrow> State \<Rightarrow> 'r set \<Rightarrow> ('c, 'r, 's, 't, 'o, 'n, 'e) ledger \<Rightarrow> ('c, 'r, 's, 't, 'o, 'n, 'e) ledger" where
  "setOutputStates env st outputIDs l =
     fold (\<lambda>k l. fst (updateOut k (Out_SetConfirmationState st (clockTime env (clockReads l))) l))
       (resourceElems env outputIDs) l"

definition triggerAcceptedEvent :: "('c, 'r, 's, 'w, 'v, 't, 'i, 'o, 'n, 'e, 'z) ledger_env_scheme \<Rightarrow> 'c \<Rightarrow> ('c, 'r) TransactionMetadata \<Rightarrow> ('c, 'r, 's, 't, 'o, 'n, 'e) ledger \<Rightarrow> ('c, 'r, 's, 't, 'o, 'n, 'e) ledger \<times> bool" where
  "triggerAcceptedEvent env t m l =
     (if IsZero (tx_InclusionTime m) then (l, False)
      else case updateTx t (Tx_SetConfirmationState Accepted (clockTime env (clockReads l))) l of
        (l1, modified) \<Rightarrow>
          if \<not> modified then (l1, False)
          else (trigger (TransactionAccepted (tx_ID m)) (setOutputStates env Accepted (tx_OutputIDs m) l1), True))"

definition triggerRejectedEvent :: "('c, 'r, 's, 'w, 'v, 't, 'i, 'o, 'n, 'e, 'z) ledger_env_scheme \<Rightarrow> 'c \<Rightarrow> ('c, 'r) TransactionMetadata \<Rightarrow> ('c, 'r, 's, 't, 'o, 'n, 'e) ledger \<Rightarrow> ('c, 'r, 's, 't, 'o, 'n, 'e) ledger \<times> bool" where
  "triggerRejectedEvent env t m l =
     (case updateTx t (Tx_SetConfirmationState Rejected (clockTime env (clockReads l))) l of
        (l1, modified) \<Rightarrow>
          if \<not> modified then (l1, False)
          else (trigger (TransactionRejected (tx_ID m)) (setOutputStates env Rejected (tx_OutputIDs m) l1), True))"

text \<open>
  The walk goes on below a transaction whose event was triggered.  The one for acceptance
  returns early when the conflicts of the consuming transaction ARE accepted.
\<close>

definition acceptConsumer :: "('c, 'r, 's, 'w, 'v, 't, 'i, 'o, 'n, 'e, 'z) ledger_env_scheme \<Rightarrow> 'c \<Rightarrow> ('c, 'r) TransactionMetadata \<Rightarrow> ('c, 'r, 's, 't, 'o, 'n, 'e) ledger \<Rightarrow> ('c, 'r, 's, 't, 'o, 'n, 'e) ledger \<times> 'r set" where
  "acceptConsumer env t m l =
     (if IsAccepted (ConfirmationState env (ConflictDAG l) (tx_ConflictIDs m)) then (l, {})
      else case triggerAcceptedEvent env t m l of
        (l1, accepted) \<Rightarrow> (l1, if accepted then tx_OutputIDs m else {}))"

definition propagateAcceptanceToIncludedTransactions :: "('c, 'r, 's, 'w, 'v, 't, 'i, 'o, 'n, 'e, 'z) ledger_env_scheme \<Rightarrow> 'c \<Rightarrow> ('c, 'r, 's, 't, 'o, 'n, 'e) ledger \<Rightarrow> ('c, 'r, 's, 't, 'o, 'n, 'e) ledger option" where
  "propagateAcceptanceToIncludedTransactions env t l =
     (case transactionMetadataStorage l t of
        None \<Rightarrow> Some l
      | Some m \<Rightarrow>
          (case triggerAcceptedEvent env t m l of
             (l1, accepted) \<Rightarrow>
               if \<not> accepted then Some l1
               else WalkConsumingTransactionMetadata env (tx_OutputIDs m) (acceptConsumer env) l1))"

definition propagatedRejectionToTransactions :: "('c, 'r, 's, 'w, 'v, 't, 'i, 'o, 'n, 'e, 'z) ledger_env_scheme \<Rightarrow> 'c \<Rightarrow> ('c, 'r, 's, 't, 'o, 'n, 'e) ledger \<Rightarrow> ('c, 'r, 's, 't, 'o, 'n, 'e) ledger option" where
  "propagatedRejectionToTransactions env t l =
     (case transactionMetadataStorage l t of
        None \<Rightarrow> Some l
      | Some m \<Rightarrow>
          (case triggerRejectedEvent env t m l of
             (l1, rejected) \<Rightarrow>
               if \<not> rejected then Some l1
               else WalkConsumingTransactionMetadata env (tx_OutputIDs m)
                 (\<lambda>t m l. case triggerRejectedEvent env t m l of
                    (l1, rejected) \<Rightarrow> (l1, if rejected then tx_OutputIDs m else {})) l1))"

definition SetTransactionInclusionTime :: "('c, 'r, 's, 'w, 'v, 't, 'i, 'o, 'n, 'e, 'z) ledger_env_scheme \<Rightarrow> 'c \<Rightarrow> time \<Rightarrow> ('c, 'r, 's, 't, 'o, 'n, 'e) ledger \<Rightarrow> ('c, 'r, 's, 't, 'o, 'n, 'e) ledger" where
  "SetTransactionInclusionTime env t inclusionTime l =
     (case transactionMetadataStorage l t of
        None \<Rightarrow> l
      | Some m \<Rightarrow>
          (case Tx_SetInclusionTime inclusionTime m of
             (m1, updated, previousInclusionTime) \<Rightarrow>
               if \<not> updated then l
               else let l1 = trigger (TransactionInclusionUpdated t inclusionTime previousInclusionTime)
                          (l\<lparr>transactionMetadataStorage := (transactionMetadataStorage l)(t \<mapsto> m1)\<rparr>)
                    in if IsZero previousInclusionTime \<and> IsAccepted (ConfirmationState env (ConflictDAG l1) (tx_ConflictIDs m1))
                       then fst (triggerAcceptedEvent env t m1 l1) else l1))"

section \<open>Pruning\<close>

definition pruneStored :: "('c, 'r, 's, 'w, 'v, 't, 'i, 'o, 'n, 'e, 'z) ledger_env_scheme \<Rightarrow> 'c \<Rightarrow> ('c, 'r) TransactionMetadata \<Rightarrow> ('c, 'r, 's, 't, 'o, 'n, 'e) ledger \<Rightarrow> ('c, 'r, 's, 't, 'o, 'n, 'e) ledger" where
  "pruneStored env t m l =
     (let l1 = (case transactionStorage l t of
            None \<Rightarrow> l
          | Some tx \<Rightarrow>
              (fold (\<lambda>k l. l\<lparr>consumerStorage := (consumerStorage l)(k := filter (\<lambda>(t', _). t' \<noteq> t) (consumerStorage l k))\<rparr>)
                 (resourceElems env (ResolveInputs env (Transaction_Inputs env tx))) l)
                \<lparr>transactionStorage := (transactionStorage l)(t := None)\<rparr>)
      in fold (\<lambda>k l. l\<lparr>outputStorage := (outputStorage l)(k := None),
                        outputMetadataStorage := (outputMetadataStorage l)(k := None)\<rparr>)
           (resourceElems env (tx_OutputIDs m)) l1)"

partial_function (option) prune_loop :: "('c, 'r, 's, 'w, 'v, 't, 'i, 'o, 'n, 'e, 'z) ledger_env_scheme \<Rightarrow> bool \<Rightarrow> 'w \<Rightarrow> ('c, 'r, 's, 't, 'o, 'n, 'e) ledger \<Rightarrow> ('c, 'r, 's, 't, 'o, 'n, 'e) ledger option" where
  "prune_loop env pruneFutureCone futureConeWalker l =
     (case nextWalk env futureConeWalker of
        None \<Rightarrow> Some l
      | Some (t, w1) \<Rightarrow>
          (case transactionMetadataStorage l t of
             None \<Rightarrow> prune_loop env pruneFutureCone w1 l
           | Some m \<Rightarrow>
               let l1 = pruneStored env t m l in
               Option.bind
                 (if pruneFutureCone
                  then WalkConsumingTransactionID env (\<lambda>_. CachedConsumers env l1) (tx_OutputIDs m)
                         (\<lambda>t' v w. (v, False, pushWalk env w t')) w1
                  else Some w1)
                 (\<lambda>w2. prune_loop env pruneFutureCone w2
                    (l1\<lparr>transactionMetadataStorage := (transactionMetadataStorage l1)(t := None)\<rparr>))))"

definition PruneTransaction :: "('c, 'r, 's, 'w, 'v, 't, 'i, 'o, 'n, 'e, 'z) ledger_env_scheme \<Rightarrow> 'c \<Rightarrow> bool \<Rightarrow> ('c, 'r, 's, 't, 'o, 'n, 'e) ledger \<Rightarrow> ('c, 'r, 's, 't, 'o, 'n, 'e) ledger option" where
  "PruneTransaction env t pruneFutureCone l =
     prune_loop env pruneFutureCone (pushWalk env (newWalk env) t) l"

section \<open>Accepting a conflict through the ledger\<close>

definition acceptConflict :: "('c, 'r, 's, 'w, 'v, 't, 'i, 'o, 'n, 'e, 'z) ledger_env_scheme \<Rightarrow> 'c \<Rightarrow> ('c, 'r, 's, 't, 'o, 'n, 'e) ledger \<Rightarrow> ('c, 'r, 's, 't, 'o, 'n, 'e) ledger option" where
  "acceptConflict env t l =
     map_option (\<lambda>(d, _, evs). l\<lparr>ConflictDAG := d, triggered := triggered l @ map DagEvent evs\<rparr>)
       (SetConflictAccepted env t (ConflictDAG l))"

end
