(* ===== verification/LedgerLaws.thy ===== *)
theory LedgerLaws
  imports Ledger
begin

text \<open>
  Laws of the ledger: the interfaces it uses, the walk over the future cone, the invariant of
  the ledger, and that forking keeps it.
\<close>

section \<open>Interfaces\<close>

locale ledger_storage =
  conflict_storage env pending pushed +
  sets: once_walker "newSetWalk env" "pushSetWalk env" "nextSetWalk env" spending spushed
  for env :: "('c, 'r, 's, 'w, 'v, 't, 'i, 'o, 'n, 'e, 'z) ledger_env_scheme"
    and pending :: "'w \<Rightarrow> 'c list" and pushed :: "'w \<Rightarrow> 'c set"
    and spending :: "'v \<Rightarrow> 'r list" and spushed :: "'v \<Rightarrow> 'r set" +
  fixes creator :: "'r \<Rightarrow> 'c"
  assumes range_consumers: "set (rangeConsumers env cs) = set cs"
    and outputs_created: "ExecuteTransaction env tx inputs = Inr outs \<Longrightarrow> out \<in> set outs \<Longrightarrow>
      creator (Output_Identifier env out) = Transaction_ID env tx"
    and base58_parenthesis: "CHR ''('' \<in> set s \<Longrightarrow> base58Decode env s = None"
    and nil_reads_empty: "nilOutputIDs env = Some {}"
begin

text \<open>
  The identifiers of a collection of outputs are always empty: nil for a collection that holds an output, as
  no name of an output parses, and nil reads as the empty set.
\<close>

lemma outputs_IDs_empty: "outputs_IDs env outs = Some {}"
proof (cases "outs = []")
  case True
  then show ?thesis by (simp add: outputs_IDs_def)
next
  case False
  then have "IDs_loop (OutputIDFromString (base58Decode env) (newIdentifier env))
      (map (\<lambda>out. OutputID_String (identifierAlias env) (outputAliases env) (utxoID env (Output_Identifier env out))) outs) [] = None"
    by (intro IDs_loop_None) (auto simp: parse_String_None [OF base58_parenthesis])
  then show ?thesis by (simp add: outputs_IDs_def nil_reads_empty)
qed

end

text \<open>Data flows: every command gets the rest of the flow, and an error is handed to the callback.\<close>

fun chain :: "('p, 'l, 'x) command list \<Rightarrow> ('p \<Rightarrow> 'l \<Rightarrow> ('x option \<times> 'l) option) \<Rightarrow> 'p \<Rightarrow> 'l \<Rightarrow> ('x option \<times> 'l) option" where
  "chain [] nxt p l = nxt p l"
| "chain (c # cs) nxt p l = c p (chain cs nxt) l"

lemma chain_Nil [simp]: "chain [] nxt = nxt"
  by (simp add: fun_eq_iff)

lemma chain_Cons: "chain (c # cs) nxt = (\<lambda>p. c p (chain cs nxt))"
  by (simp add: fun_eq_iff)

definition on_error :: "('x \<Rightarrow> 'p \<Rightarrow> 'l \<Rightarrow> 'l) option \<Rightarrow> 'p \<Rightarrow> ('x option \<times> 'l) option \<Rightarrow> ('x option \<times> 'l) option" where
  "on_error callback p r =
     map_option (\<lambda>(err, l). (err, case (err, callback) of (Some e, Some f) \<Rightarrow> f e p l | _ \<Rightarrow> l)) r"

locale data_flow =
  fixes flow :: "('p, 'l, 'x) dataflow"
  assumes chained: "ChainedCommand flow cs callback p nxt l = on_error callback p (chain cs nxt p l)"
    and run: "Run flow cs callback p l = on_error callback p (chain cs (\<lambda>_ l. Some (None, l)) p l)"

section \<open>The future cone\<close>

context ledger_storage
begin

text \<open>
  The walk ends when the callback pushes within a finite set of outputs.  It keeps the invariant I of
  the callback, and Q holds afterwards of every transaction that consumes one of the outputs.
\<close>

lemma visitConsumers_result:
  assumes fin: "finite U"
    and step: "\<And>t w x. t \<in> T \<Longrightarrow> I x \<Longrightarrow> \<exists>ks x'. callback t w x = (fold (\<lambda>k w. pushSetWalk env w k) ks w, False, x') \<and>
      set ks \<subseteq> U \<and> I x' \<and> Q t x' \<and> (\<forall>t'. Q t' x \<longrightarrow> Q t' x')"
  shows "set ts \<subseteq> T \<Longrightarrow> I x \<Longrightarrow> \<forall>t\<in>seen. Q t x \<Longrightarrow> walk_covers spending spushed V w \<Longrightarrow>
    \<exists>w' x'. fold (visitConsumer callback) ts (seen, w, False, x) = (set ts \<union> seen, w', False, x') \<and> I x' \<and>
      (\<forall>t\<in>set ts \<union> seen. Q t x') \<and> walk_covers spending spushed V w' \<and> spushed w \<subseteq> spushed w' \<and>
      budget spending spushed U w' \<le> budget spending spushed U w"
proof (induction ts arbitrary: seen w x)
  case (Cons t ts)
  show ?case
  proof (cases "t \<in> seen")
    case True
    then have "visitConsumer callback t (seen, w, False, x) = (seen, w, False, x)" by (simp add: visitConsumer_def)
    with Cons.IH [OF _ Cons.prems(2,3,4)] Cons.prems(1) True show ?thesis by (simp add: insert_absorb)
  next
    case False
    obtain ks x' where c: "callback t w x = (fold (\<lambda>k w. pushSetWalk env w k) ks w, False, x')"
      and ks: "set ks \<subseteq> U" and x': "I x'" "Q t x'" "\<forall>t'. Q t' x \<longrightarrow> Q t' x'"
      using step [of t x w] Cons.prems(1,2) by auto
    let ?w = "fold (\<lambda>k w. pushSetWalk env w k) ks w"
    have q: "\<forall>t\<in>insert t seen. Q t x'" using x'(2,3) Cons.prems(3) by blast
    have sub: "set ts \<subseteq> T" using Cons.prems(1) by simp
    from Cons.IH [OF sub x'(1) q sets.covers_fold [OF Cons.prems(4), of ks]]
    obtain w'' x'' where rest: "fold (visitConsumer callback) ts (insert t seen, ?w, False, x') =
        (set ts \<union> insert t seen, w'', False, x'')" "I x''" "\<forall>t\<in>set ts \<union> insert t seen. Q t x''"
      "walk_covers spending spushed V w''" "spushed ?w \<subseteq> spushed w''"
      "budget spending spushed U w'' \<le> budget spending spushed U ?w"
      by blast
    have "visitConsumer callback t (seen, w, False, x) = (insert t seen, ?w, False, x')"
      using False by (simp add: visitConsumer_def c)
    moreover have "spushed w \<subseteq> spushed ?w" by (simp add: sets.pushed_fold)
    moreover have "budget spending spushed U ?w \<le> budget spending spushed U w" by (rule sets.budget_fold [OF fin ks])
    ultimately show ?thesis
      using rest by (intro exI [of _ w''] exI [of _ x'']) auto
  qed
qed simp

lemma cone_loop_result:
  assumes fin: "finite U" and cons: "\<And>x k. I x \<Longrightarrow> fst ` set (consumersOf x k) = C k"
    and step: "\<And>t w x. t \<in> T \<Longrightarrow> I x \<Longrightarrow> \<exists>ks x'. callback t w x = (fold (\<lambda>k w. pushSetWalk env w k) ks w, False, x') \<and>
      set ks \<subseteq> U \<and> I x' \<and> Q t x' \<and> (\<forall>t'. Q t' x \<longrightarrow> Q t' x')"
    and T: "\<And>k. C k \<subseteq> T"
  shows "I x \<Longrightarrow> \<forall>t\<in>seen. Q t x \<Longrightarrow> walk_covers spending spushed V w \<Longrightarrow> \<forall>k\<in>V. C k \<subseteq> seen \<Longrightarrow>
    \<exists>x'. cone_loop env consumersOf callback (seen, w, False, x) = Some x' \<and> I x' \<and>
      (\<forall>k\<in>spushed w. \<forall>t\<in>C k. Q t x')"
proof (induction "budget spending spushed U w" arbitrary: seen w x V rule: less_induct)
  case less
  show ?case
  proof (cases "nextSetWalk env w")
    case None
    then have "spushed w \<subseteq> V" using less.prems(3) sets.next_None by (simp add: walk_covers_def)
    then have "\<forall>k\<in>spushed w. \<forall>t\<in>C k. Q t x" using less.prems(2,4) by blast
    then show ?thesis using less.prems(1) by (subst cone_loop.simps) (simp add: None)
  next
    case (Some y)
    then obtain k w1 where nx: "nextSetWalk env w = Some (k, w1)" by (cases y) auto
    note cov1 = sets.covers_next [OF less.prems(3) nx]
    let ?ts = "map fst (consumersOf x k)"
    have ts: "set ?ts = C k" using cons [OF less.prems(1)] by simp
    then have "set ?ts \<subseteq> T" using T by simp
    from visitConsumers_result [OF fin step this less.prems(1,2) cov1(1)]
    obtain w' x' where v: "fold (visitConsumer callback) ?ts (seen, w1, False, x) = (set ?ts \<union> seen, w', False, x')"
      "I x'" "\<forall>t\<in>set ?ts \<union> seen. Q t x'" "walk_covers spending spushed (insert k V) w'" "spushed w1 \<subseteq> spushed w'"
      "budget spending spushed U w' \<le> budget spending spushed U w1" by blast
    have smaller: "budget spending spushed U w' < budget spending spushed U w"
      using v(6) sets.budget_next [OF nx] by (rule le_less_trans)
    have V: "\<forall>k'\<in>insert k V. C k' \<subseteq> set ?ts \<union> seen" using less.prems(4) ts by blast
    have "\<exists>x''. cone_loop env consumersOf callback (set ?ts \<union> seen, w', False, x') = Some x'' \<and> I x'' \<and>
      (\<forall>k\<in>spushed w'. \<forall>t\<in>C k. Q t x'')"
      by (rule less.hyps [OF smaller v(2,3,4) V])
    then obtain x'' where "cone_loop env consumersOf callback (set ?ts \<union> seen, w', False, x') = Some x''" "I x''"
      "\<forall>k\<in>spushed w'. \<forall>t\<in>C k. Q t x''" by blast
    moreover have "cone_loop env consumersOf callback (seen, w, False, x) =
        cone_loop env consumersOf callback (set ?ts \<union> seen, w', False, x')"
      by (subst cone_loop.simps) (simp add: nx v(1))
    ultimately show ?thesis using v(5) cov1(2) by auto
  qed
qed

lemma pushOutputs_pushed: "finite A \<Longrightarrow> spushed (pushOutputs env A w) = A \<union> spushed w"
  by (simp add: pushOutputs_def sets.pushed_fold enumeratesD [OF resource_elems])

end

section \<open>What the ledger relies on in the conflict DAG\<close>

definition dag_grows :: "('c, 'r, 's, 'w, 'v, 'z) conflict_env_scheme \<Rightarrow> 's \<Rightarrow> 's \<Rightarrow> bool" where
  "dag_grows env d d' \<longleftrightarrow> (\<forall>r i. member env d r i \<longrightarrow> member env d' r i) \<and> stored env d \<subseteq> stored env d'"

lemma dag_grows_refl [simp]: "dag_grows env d d"
  by (simp add: dag_grows_def)

lemma dag_grows_trans: "dag_grows env d d' \<Longrightarrow> dag_grows env d' d'' \<Longrightarrow> dag_grows env d d''"
  by (auto simp: dag_grows_def)

context conflict_storage
begin

lemma CreateConflict_grows:
  assumes ok: "dag_ok env d" and fin: "finite P" "finite R" and run: "CreateConflict env i P R d = (d', created, ev)"
  shows "dag_ok env d'" and "dag_grows env d d'" and "stored env d' = insert i (stored env d)"
    and "created \<longleftrightarrow> i \<notin> stored env d" and "created \<Longrightarrow> r \<in> R \<Longrightarrow> member env d' r i"
proof -
  have "dag_ok env d' \<and> dag_grows env d d' \<and> stored env d' = insert i (stored env d) \<and>
    (created \<longleftrightarrow> i \<notin> stored env d) \<and> (created \<longrightarrow> (\<forall>r\<in>R. member env d' r i))"
  proof (cases "i \<in> stored env d")
    case True
    then have "d' = d" "\<not> created" using run by (auto simp: CreateConflict_def stored_def)
    with ok True show ?thesis by auto
  next
    case False
    obtain d1 where run1: "CreateConflict env i P R d = (d1, True, [ConflictCreated i P R])"
      and st: "stored env d1 = insert i (stored env d)"
      and memb: "\<And>r j. member env d1 r j \<longleftrightarrow> (if j = i then r \<in> R else member env d r j)"
      and ok1: "dag_ok env d1"
      by (rule CreateConflict_relations [OF ok False fin]) (rule that, assumption+)
    have "d' = d1" "created" using run run1 by simp_all
    moreover have "\<not> member env d r i" for r using False by (auto simp: member_def stored_def)
    ultimately show ?thesis using ok1 st False by (auto simp: dag_grows_def memb)
  qed
  then show "dag_ok env d'" "dag_grows env d d'" "stored env d' = insert i (stored env d)"
    "created \<longleftrightarrow> i \<notin> stored env d" "created \<Longrightarrow> r \<in> R \<Longrightarrow> member env d' r i" by auto
qed

lemma UpdateConflictingResources_grows:
  assumes ok: "dag_ok env d" and R: "finite R" and run: "UpdateConflictingResources env i R d = (d', updated, ev)"
  shows "dag_ok env d'" and "dag_grows env d d'" and "stored env d' = stored env d"
    and "i \<in> stored env d \<Longrightarrow> r \<in> R \<Longrightarrow> member env d' r i"
proof -
  have "dag_ok env d' \<and> dag_grows env d d' \<and> stored env d' = stored env d \<and> (i \<in> stored env d \<longrightarrow> (\<forall>r\<in>R. member env d' r i))"
  proof (cases "loadConflict env d i")
    case None
    then have "d' = d" using run by (auto simp: UpdateConflictingResources_def)
    with ok None show ?thesis by (simp add: stored_def)
  next
    case (Some c)
    obtain d1 b where run1: "UpdateConflictingResources env i R d = (d1, b, if b then [ConflictConflictsUpdated i R] else [])"
      and load: "loadConflict env d1 = (loadConflict env d)(i \<mapsto> c\<lparr>ConflictSetIDs := R \<union> ConflictSetIDs c\<rparr>)"
      and ok1: "dag_ok env d1"
      by (rule UpdateConflictingResources_result [OF ok Some R]) (rule that, assumption+)
    have "d' = d1" using run run1 by simp
    moreover have "stored env d1 = stored env d" using Some by (auto simp: stored_def load)
    moreover have "member env d1 r j" if "member env d r j" for r j
      using that Some by (auto simp: member_def load)
    moreover have "member env d1 r i" if "r \<in> R" for r using that by (auto simp: member_def load)
    ultimately show ?thesis using ok1 by (auto simp: dag_grows_def)
  qed
  then show "dag_ok env d'" "dag_grows env d d'" "stored env d' = stored env d"
    "i \<in> stored env d \<Longrightarrow> r \<in> R \<Longrightarrow> member env d' r i" by auto
qed

lemma UpdateConflictParents_grows:
  assumes ok: "dag_ok env d" and keep: "p0 \<notin> removed" and run: "UpdateConflictParents env i removed p0 d = (d', updated, ev)"
  shows "dag_ok env d'" and "dag_grows env d d'" and "stored env d' = stored env d"
proof -
  have "dag_ok env d' \<and> dag_grows env d d' \<and> stored env d' = stored env d"
  proof (cases "\<exists>c. loadConflict env d i = Some c \<and> p0 \<notin> Parents c")
    case False
    then have "d' = d" using run by (auto simp: UpdateConflictParents_def split: option.splits if_splits)
    with ok show ?thesis by simp
  next
    case True
    then obtain c where c: "loadConflict env d i = Some c" "p0 \<notin> Parents c" by blast
    obtain d1 where run1: "UpdateConflictParents env i removed p0 d =
         (d1, True, [ConflictParentsUpdated i p0 removed (insert p0 (Parents c) - removed)])"
      and load: "loadConflict env d1 = (loadConflict env d)(i \<mapsto> c\<lparr>Parents := insert p0 (Parents c) - removed\<rparr>)"
      and ok1: "dag_ok env d1"
      by (rule UpdateConflictParents_result [OF ok c keep]) (rule that, assumption+)
    have "d' = d1" using run run1 by simp
    moreover have "stored env d1 = stored env d" using c by (auto simp: stored_def load)
    moreover have "member env d1 r j" if "member env d r j" for r j
      using that c by (auto simp: member_def load)
    ultimately show ?thesis using ok1 by (auto simp: dag_grows_def)
  qed
  then show "dag_ok env d'" "dag_grows env d d'" "stored env d' = stored env d" by auto
qed

lemma UnconfirmedConflicts_subset: "finite A \<Longrightarrow> UnconfirmedConflicts env merge d A \<subseteq> A"
  using enumeratesD [OF conflict_elems] by (auto simp: UnconfirmedConflicts_def)

end

section \<open>The invariant\<close>

definition booked :: "('c, 'r, 's, 't, 'o, 'n, 'e) ledger \<Rightarrow> 'c set" where
  "booked l = {t. \<exists>m. transactionMetadataStorage l t = Some m \<and> tx_Booked m}"

definition spends ::
    "('c, 'r, 's, 'w, 'v, 't, 'i, 'o, 'n, 'e, 'z) ledger_env_scheme \<Rightarrow> ('c, 'r, 's, 't, 'o, 'n, 'e) ledger \<Rightarrow> 'c \<Rightarrow> 'r \<Rightarrow> bool" where
  "spends env l t k \<longleftrightarrow> (\<exists>tx. transactionStorage l t = Some tx \<and> k \<in> ResolveInputs env (Transaction_Inputs env tx))"

text \<open>X are the transactions that are being booked.  No transaction ever lists an output.\<close>

definition tx_ok ::
    "('c, 'r, 's, 'w, 'v, 't, 'i, 'o, 'n, 'e, 'z) ledger_env_scheme \<Rightarrow> ('c, 'r, 's, 't, 'o, 'n, 'e) ledger \<Rightarrow>
     'c \<Rightarrow> ('c, 'r) TransactionMetadata \<Rightarrow> bool" where
  "tx_ok env l t m \<longleftrightarrow> tx_ID m = t \<and> t \<noteq> emptyTx env \<and> tx_OutputIDs m = {} \<and>
     (\<exists>tx. transactionStorage l t = Some tx \<and> Transaction_ID env tx = t)"

definition out_ok ::
    "('c, 'r, 's, 'w, 'v, 't, 'i, 'o, 'n, 'e, 'z) ledger_env_scheme \<Rightarrow> ('r \<Rightarrow> 'c) \<Rightarrow> 'c set \<Rightarrow> ('c, 'r, 's, 't, 'o, 'n, 'e) ledger \<Rightarrow>
     'r \<Rightarrow> 'c \<Rightarrow> bool \<Rightarrow> bool" where
  "out_ok env creator X l k first forked \<longleftrightarrow> \<not> forked \<and>
     (creator k \<in> dom (transactionMetadataStorage l) \<longrightarrow> creator k \<in> booked l) \<and>
     (first \<noteq> emptyTx env \<longrightarrow> spends env l first k \<and> first \<in> booked l \<union> X)"

definition spend_ok ::
    "('c, 'r, 's, 'w, 'v, 't, 'i, 'o, 'n, 'e, 'z) ledger_env_scheme \<Rightarrow> ('c, 'r, 's, 't, 'o, 'n, 'e) ledger \<Rightarrow> 'c \<Rightarrow> 'r \<Rightarrow> bool" where
  "spend_ok env l t k \<longleftrightarrow> (\<exists>m. outputMetadataStorage l k = Some m \<and> out_FirstConsumer m \<noteq> emptyTx env \<and>
     (out_FirstConsumer m = t \<or>
        member env (ConflictDAG l) k t \<and> member env (ConflictDAG l) k (out_FirstConsumer m)))"

definition ledger_inv ::
    "('c, 'r, 's, 'w, 'v, 't, 'i, 'o, 'n, 'e, 'z) ledger_env_scheme \<Rightarrow> ('r \<Rightarrow> 'c) \<Rightarrow> 'c set \<Rightarrow> ('c, 'r, 's, 't, 'o, 'n, 'e) ledger \<Rightarrow> bool" where
  "ledger_inv env creator X l \<longleftrightarrow>
     dag_ok env (ConflictDAG l) \<and> stored env (ConflictDAG l) \<subseteq> booked l \<union> X \<and>
     finite (dom (transactionMetadataStorage l)) \<and>
     (\<forall>t m. transactionMetadataStorage l t = Some m \<longrightarrow> tx_ok env l t m \<and> tx_ConflictIDs m \<subseteq> stored env (ConflictDAG l)) \<and>
     (\<forall>k m. outputMetadataStorage l k = Some m \<longrightarrow>
        out_ID m = k \<and> out_ok env creator X l k (out_FirstConsumer m) (out_FirstConsumerForked m) \<and>
        out_ConflictIDs m \<subseteq> stored env (ConflictDAG l)) \<and>
     (\<forall>t\<in>booked l. \<forall>k. spends env l t k \<longrightarrow> spend_ok env l t k)"

lemma ledger_invD:
  assumes "ledger_inv env creator X l"
  shows "dag_ok env (ConflictDAG l)" and "stored env (ConflictDAG l) \<subseteq> booked l \<union> X"
    and "finite (dom (transactionMetadataStorage l))"
    and "transactionMetadataStorage l t = Some m \<Longrightarrow> tx_ok env l t m"
    and "transactionMetadataStorage l t = Some m \<Longrightarrow> tx_ConflictIDs m \<subseteq> stored env (ConflictDAG l)"
    and "outputMetadataStorage l k = Some om \<Longrightarrow> out_ID om = k"
    and "outputMetadataStorage l k = Some om \<Longrightarrow> out_ok env creator X l k (out_FirstConsumer om) (out_FirstConsumerForked om)"
    and "outputMetadataStorage l k = Some om \<Longrightarrow> out_ConflictIDs om \<subseteq> stored env (ConflictDAG l)"
    and "t \<in> booked l \<Longrightarrow> spends env l t k \<Longrightarrow> spend_ok env l t k"
  using assms unfolding ledger_inv_def by blast+

text \<open>An operation that only extends the conflicts and changes conflict identifiers.\<close>

definition ledger_grows ::
    "('c, 'r, 's, 'w, 'v, 't, 'i, 'o, 'n, 'e, 'z) ledger_env_scheme \<Rightarrow> ('c, 'r, 's, 't, 'o, 'n, 'e) ledger \<Rightarrow>
     ('c, 'r, 's, 't, 'o, 'n, 'e) ledger \<Rightarrow> bool" where
  "ledger_grows env l l' \<longleftrightarrow>
     transactionStorage l' = transactionStorage l \<and> outputStorage l' = outputStorage l \<and>
     consumerStorage l' = consumerStorage l \<and>
     (\<forall>t. map_option (\<lambda>m. (tx_ID m, tx_Booked m, tx_OutputIDs m)) (transactionMetadataStorage l' t) =
          map_option (\<lambda>m. (tx_ID m, tx_Booked m, tx_OutputIDs m)) (transactionMetadataStorage l t)) \<and>
     (\<forall>k. map_option (\<lambda>m. (out_ID m, out_FirstConsumer m, out_FirstConsumerForked m)) (outputMetadataStorage l' k) =
          map_option (\<lambda>m. (out_ID m, out_FirstConsumer m, out_FirstConsumerForked m)) (outputMetadataStorage l k)) \<and>
     dag_grows env (ConflictDAG l) (ConflictDAG l')"

lemma ledger_grows_refl [simp]: "ledger_grows env l l"
  by (simp add: ledger_grows_def)

lemma ledger_grows_trans: "ledger_grows env l l' \<Longrightarrow> ledger_grows env l' l'' \<Longrightarrow> ledger_grows env l l''"
  unfolding ledger_grows_def by (auto intro: dag_grows_trans)

lemma ledger_growsD:
  assumes "ledger_grows env l l'"
  shows "map_option (\<lambda>m. (tx_ID m, tx_Booked m, tx_OutputIDs m)) (transactionMetadataStorage l' t) =
      map_option (\<lambda>m. (tx_ID m, tx_Booked m, tx_OutputIDs m)) (transactionMetadataStorage l t)"
    and "map_option (\<lambda>m. (out_ID m, out_FirstConsumer m, out_FirstConsumerForked m)) (outputMetadataStorage l' k) =
      map_option (\<lambda>m. (out_ID m, out_FirstConsumer m, out_FirstConsumerForked m)) (outputMetadataStorage l k)"
    and "transactionStorage l' = transactionStorage l" and "consumerStorage l' = consumerStorage l"
    and "dag_grows env (ConflictDAG l) (ConflictDAG l')"
  using assms by (simp_all add: ledger_grows_def)

lemma ledger_grows_tx:
  assumes "ledger_grows env l l'" and "transactionMetadataStorage l' t = Some m'"
  obtains m where "transactionMetadataStorage l t = Some m" "tx_ID m = tx_ID m'" "tx_Booked m = tx_Booked m'"
    "tx_OutputIDs m = tx_OutputIDs m'"
  using ledger_growsD(1) [OF assms(1), of t] assms(2) that
  by (cases "transactionMetadataStorage l t") auto

lemma ledger_grows_out:
  assumes "ledger_grows env l l'" and "outputMetadataStorage l' k = Some m'"
  obtains m where "outputMetadataStorage l k = Some m" "out_ID m = out_ID m'" "out_FirstConsumer m = out_FirstConsumer m'"
    "out_FirstConsumerForked m = out_FirstConsumerForked m'"
  using ledger_growsD(2) [OF assms(1), of k] assms(2) that
  by (cases "outputMetadataStorage l k") auto

lemma ledger_grows_same:
  assumes "ledger_grows env l l'"
  shows "booked l' = booked l" and "dom (transactionMetadataStorage l') = dom (transactionMetadataStorage l)"
    and "spends env l' = spends env l" and "transactionStorage l' = transactionStorage l"
proof -
  have meta: "map_option (\<lambda>m. (tx_ID m, tx_Booked m, tx_OutputIDs m)) (transactionMetadataStorage l' t) =
      map_option (\<lambda>m. (tx_ID m, tx_Booked m, tx_OutputIDs m)) (transactionMetadataStorage l t)" for t
    using assms by (simp add: ledger_grows_def)
  have "t \<in> booked l' \<longleftrightarrow> t \<in> booked l" for t
    using meta [of t] by (cases "transactionMetadataStorage l t"; cases "transactionMetadataStorage l' t") (auto simp: booked_def)
  then show "booked l' = booked l" by blast
  have "t \<in> dom (transactionMetadataStorage l') \<longleftrightarrow> t \<in> dom (transactionMetadataStorage l)" for t
    using meta [of t] by (cases "transactionMetadataStorage l t"; cases "transactionMetadataStorage l' t") auto
  then show "dom (transactionMetadataStorage l') = dom (transactionMetadataStorage l)" by blast
  show "transactionStorage l' = transactionStorage l" using assms by (simp add: ledger_grows_def)
  then show "spends env l' = spends env l" by (simp add: spends_def fun_eq_iff)
qed

lemma spend_ok_grows:
  assumes grow: "ledger_grows env l l'" and ok: "spend_ok env l t k"
  shows "spend_ok env l' t k"
proof -
  obtain m where m: "outputMetadataStorage l k = Some m" "out_FirstConsumer m \<noteq> emptyTx env"
      "out_FirstConsumer m = t \<or> member env (ConflictDAG l) k t \<and> member env (ConflictDAG l) k (out_FirstConsumer m)"
    using ok by (auto simp: spend_ok_def)
  have "map_option (\<lambda>m. (out_ID m, out_FirstConsumer m, out_FirstConsumerForked m)) (outputMetadataStorage l' k) =
      Some (out_ID m, out_FirstConsumer m, out_FirstConsumerForked m)"
    using grow m(1) by (simp add: ledger_grows_def)
  then obtain m' where "outputMetadataStorage l' k = Some m'" "out_FirstConsumer m' = out_FirstConsumer m" by auto
  moreover have "dag_grows env (ConflictDAG l) (ConflictDAG l')" using grow by (simp add: ledger_grows_def)
  ultimately show ?thesis using m(2,3) by (auto simp: spend_ok_def dag_grows_def)
qed

lemma ledger_inv_grows:
  assumes inv: "ledger_inv env creator X l" and grow: "ledger_grows env l l'" and ok: "dag_ok env (ConflictDAG l')"
    and st: "stored env (ConflictDAG l') \<subseteq> booked l \<union> X"
    and tx: "\<And>t m. transactionMetadataStorage l' t = Some m \<Longrightarrow> tx_ConflictIDs m \<subseteq> stored env (ConflictDAG l')"
    and out: "\<And>k m. outputMetadataStorage l' k = Some m \<Longrightarrow> out_ConflictIDs m \<subseteq> stored env (ConflictDAG l')"
  shows "ledger_inv env creator X l'"
proof -
  note same = ledger_grows_same [OF grow]
  have "tx_ok env l' t m'" if m': "transactionMetadataStorage l' t = Some m'" for t m'
  proof -
    obtain m where "transactionMetadataStorage l t = Some m" "tx_ID m = tx_ID m'" "tx_Booked m = tx_Booked m'"
      "tx_OutputIDs m = tx_OutputIDs m'"
      by (rule ledger_grows_tx [OF grow m'])
    with ledger_invD(4) [OF inv, of t m] show ?thesis by (simp add: tx_ok_def same)
  qed
  moreover have "out_ID m' = k \<and> out_ok env creator X l' k (out_FirstConsumer m') (out_FirstConsumerForked m')"
    if m': "outputMetadataStorage l' k = Some m'" for k m'
  proof -
    obtain m where "outputMetadataStorage l k = Some m" "out_ID m = out_ID m'" "out_FirstConsumer m = out_FirstConsumer m'"
      "out_FirstConsumerForked m = out_FirstConsumerForked m'"
      by (rule ledger_grows_out [OF grow m'])
    with ledger_invD(6,7) [OF inv, of k m] show ?thesis by (simp add: out_ok_def same)
  qed
  ultimately show ?thesis
    using ok st tx out ledger_invD(3,9) [OF inv] spend_ok_grows [OF grow] unfolding ledger_inv_def same by blast
qed

end
