(* ===== verification/ForkLaws.thy ===== *)
theory ForkLaws
  imports LedgerLaws
begin

text \<open>
  Forking a transaction keeps the invariant of the ledger, ends, and makes the transaction a member of
  the conflict sets of the outputs that it spends.
\<close>

definition ledger_keeps ::
    "('c, 'r, 's, 'w, 'v, 't, 'i, 'o, 'n, 'e, 'z) ledger_env_scheme \<Rightarrow> ('r \<Rightarrow> 'c) \<Rightarrow> 'c set \<Rightarrow> ('c, 'r, 's, 't, 'o, 'n, 'e) ledger \<Rightarrow>
     ('c, 'r, 's, 't, 'o, 'n, 'e) ledger \<Rightarrow> bool" where
  "ledger_keeps env creator X l l' \<longleftrightarrow> ledger_inv env creator X l' \<and> ledger_grows env l l'"

lemma ledger_keeps_refl: "ledger_inv env creator X l \<Longrightarrow> ledger_keeps env creator X l l"
  by (simp add: ledger_keeps_def)

lemma ledger_keeps_trans:
  "ledger_keeps env creator X l l' \<Longrightarrow> ledger_keeps env creator X l' l'' \<Longrightarrow> ledger_keeps env creator X l l''"
  unfolding ledger_keeps_def using ledger_grows_trans by blast

lemma ledger_keepsD:
  assumes "ledger_keeps env creator X l l'"
  shows "ledger_inv env creator X l'" and "ledger_grows env l l'" and "dag_grows env (ConflictDAG l) (ConflictDAG l')"
  using assms by (simp_all add: ledger_keeps_def ledger_grows_def)

lemma keeps_dag:
  assumes inv: "ledger_inv env creator X l" and ok: "dag_ok env d" and grow: "dag_grows env (ConflictDAG l) d"
    and st: "stored env d \<subseteq> booked l \<union> X"
  shows "ledger_keeps env creator X l (l\<lparr>ConflictDAG := d, triggered := evs\<rparr>)"
proof -
  have sub: "stored env (ConflictDAG l) \<subseteq> stored env d" using grow by (simp add: dag_grows_def)
  have tx: "tx_ConflictIDs m \<subseteq> stored env d" if "transactionMetadataStorage l t = Some m" for t m
    using ledger_invD(5) [OF inv that] sub by blast
  have out: "out_ConflictIDs m \<subseteq> stored env d" if "outputMetadataStorage l k = Some m" for k m
    using ledger_invD(8) [OF inv that] sub by blast
  have "ledger_grows env l (l\<lparr>ConflictDAG := d, triggered := evs\<rparr>)" using grow by (simp add: ledger_grows_def)
  moreover have "ledger_inv env creator X (l\<lparr>ConflictDAG := d, triggered := evs\<rparr>)"
    by (rule ledger_inv_grows [OF inv calculation]) (simp_all add: ok st tx out)
  ultimately show ?thesis by (simp add: ledger_keeps_def)
qed

lemma keeps_trigger: "ledger_inv env creator X l \<Longrightarrow> ledger_keeps env creator X l (trigger ev l)"
  using keeps_dag [of env creator X l "ConflictDAG l" "triggered l @ [ev]"] ledger_invD(1,2) [of env creator X l]
  by (simp add: trigger_def)

lemma keeps_updateTx:
  assumes inv: "ledger_inv env creator X l"
    and f: "\<And>m. transactionMetadataStorage l t = Some m \<Longrightarrow> tx_ID (fst (f m)) = tx_ID m \<and> tx_Booked (fst (f m)) = tx_Booked m \<and>
      tx_OutputIDs (fst (f m)) = tx_OutputIDs m \<and> tx_ConflictIDs (fst (f m)) \<subseteq> stored env (ConflictDAG l)"
  shows "ledger_keeps env creator X l (fst (updateTx t f l))"
proof (cases "transactionMetadataStorage l t")
  case None
  with inv show ?thesis by (simp add: updateTx_def ledger_keeps_refl)
next
  case (Some m)
  obtain m1 b where m1: "f m = (m1, b)" by (cases "f m")
  let ?l = "l\<lparr>transactionMetadataStorage := (transactionMetadataStorage l)(t \<mapsto> m1), clockReads := Suc (clockReads l)\<rparr>"
  note f1 = f [OF Some, unfolded m1 fst_conv]
  have grow: "ledger_grows env l ?l" using f1 Some by (simp add: ledger_grows_def)
  moreover have "ledger_inv env creator X ?l"
    by (rule ledger_inv_grows [OF inv grow])
      (use f1 ledger_invD(1,2,5,8) [OF inv] in \<open>auto split: if_splits dest: set_mp\<close>)
  ultimately show ?thesis by (simp add: updateTx_def Some m1 ledger_keeps_def)
qed

lemma keeps_updateOut:
  assumes inv: "ledger_inv env creator X l"
    and f: "\<And>m. outputMetadataStorage l k = Some m \<Longrightarrow> out_ID (fst (f m)) = out_ID m \<and>
      out_FirstConsumer (fst (f m)) = out_FirstConsumer m \<and> out_FirstConsumerForked (fst (f m)) = out_FirstConsumerForked m \<and>
      out_ConflictIDs (fst (f m)) \<subseteq> stored env (ConflictDAG l)"
  shows "ledger_keeps env creator X l (fst (updateOut k f l))"
proof (cases "outputMetadataStorage l k")
  case None
  with inv show ?thesis by (simp add: updateOut_def ledger_keeps_refl)
next
  case (Some m)
  obtain m1 b where m1: "f m = (m1, b)" by (cases "f m")
  let ?l = "l\<lparr>outputMetadataStorage := (outputMetadataStorage l)(k \<mapsto> m1), clockReads := Suc (clockReads l)\<rparr>"
  note f1 = f [OF Some, unfolded m1 fst_conv]
  have grow: "ledger_grows env l ?l" using f1 Some by (simp add: ledger_grows_def)
  moreover have "ledger_inv env creator X ?l"
    by (rule ledger_inv_grows [OF inv grow])
      (use f1 ledger_invD(1,2,5,8) [OF inv] in \<open>auto split: if_splits dest: set_mp\<close>)
  ultimately show ?thesis by (simp add: updateOut_def Some m1 ledger_keeps_def)
qed

lemma keeps_outputs:
  assumes "ledger_inv env creator X l"
    and "\<And>l' k m. ledger_keeps env creator X l l' \<Longrightarrow> outputMetadataStorage l' k = Some m \<Longrightarrow>
      out_ID (fst (f l' m)) = out_ID m \<and> out_FirstConsumer (fst (f l' m)) = out_FirstConsumer m \<and>
      out_FirstConsumerForked (fst (f l' m)) = out_FirstConsumerForked m \<and>
      out_ConflictIDs (fst (f l' m)) \<subseteq> stored env (ConflictDAG l')"
  shows "ledger_keeps env creator X l (fold (\<lambda>k l. fst (updateOut k (f l) l)) ks l)"
  using assms
proof (induction ks arbitrary: l)
  case (Cons k ks)
  have step: "ledger_keeps env creator X l (fst (updateOut k (f l) l))"
    by (rule keeps_updateOut [OF Cons.prems(1)]) (use Cons.prems(2) [OF ledger_keeps_refl [OF Cons.prems(1)]] in blast)
  have "ledger_keeps env creator X (fst (updateOut k (f l) l))
      (fold (\<lambda>k l. fst (updateOut k (f l) l)) ks (fst (updateOut k (f l) l)))"
    using Cons.IH [OF ledger_keepsD(1) [OF step]] Cons.prems(2) [OF ledger_keeps_trans [OF step]] by blast
  with ledger_keeps_trans [OF step] show ?case by simp
qed (simp add: ledger_keeps_refl)

context ledger_storage
begin

text \<open>The outputs of all transactions, among which a walk stays.\<close>

lemma all_outputs_finite:
  assumes "ledger_inv env creator X l"
  shows "finite (\<Union>t\<in>dom (transactionMetadataStorage l). case transactionMetadataStorage l t of Some m \<Rightarrow> tx_OutputIDs m | None \<Rightarrow> {})"
  using ledger_invD(3) [OF assms] ledger_invD(4) [OF assms] by (auto simp: tx_ok_def)

lemma WalkConsumingTransactionMetadata_result:
  assumes inv: "ledger_inv env creator X l" and A: "finite A" and start: "I l"
    and grow: "\<And>x. I x \<Longrightarrow> ledger_grows env l x"
    and none: "\<And>t x. I x \<Longrightarrow> transactionMetadataStorage x t = None \<Longrightarrow> Q t x"
    and step: "\<And>t m x. I x \<Longrightarrow> transactionMetadataStorage x t = Some m \<Longrightarrow>
      I (fst (callback t m x)) \<and> snd (callback t m x) \<subseteq> tx_OutputIDs m \<and> Q t (fst (callback t m x)) \<and>
      (\<forall>t'. Q t' x \<longrightarrow> Q t' (fst (callback t m x)))"
  shows "\<exists>x. WalkConsumingTransactionMetadata env A callback l = Some x \<and> I x \<and>
    (\<forall>k\<in>A. \<forall>t\<in>fst ` set (consumerStorage l k). Q t x)"
proof (cases "A = {}")
  case True
  with start show ?thesis by (simp add: WalkConsumingTransactionMetadata_def WalkConsumingTransactionID_def)
next
  case False
  define U where "U = (\<Union>t\<in>dom (transactionMetadataStorage l).
      case transactionMetadataStorage l t of Some m \<Rightarrow> tx_OutputIDs m | None \<Rightarrow> {})"
  have fin: "finite U" unfolding U_def by (rule all_outputs_finite [OF inv])
  have cons: "fst ` set (CachedConsumers env x k) = fst ` set (consumerStorage l k)" if "I x" for x k
    using ledger_growsD(4) [OF grow [OF that]] by (simp add: CachedConsumers_def range_consumers)
  have call: "\<exists>ks x'. metadataCallback env callback t w x = (fold (\<lambda>k w. pushSetWalk env w k) ks w, False, x') \<and>
      set ks \<subseteq> U \<and> I x' \<and> Q t x' \<and> (\<forall>t'. Q t' x \<longrightarrow> Q t' x')" if x: "I x" for t w x
  proof (cases "transactionMetadataStorage x t")
    case None
    with none [OF x None] x show ?thesis by (intro exI [of _ "[]"] exI [of _ x]) (simp add: metadataCallback_def)
  next
    case (Some m)
    obtain x' B where c: "callback t m x = (x', B)" by (cases "callback t m x")
    obtain m0 where m0: "transactionMetadataStorage l t = Some m0" "tx_OutputIDs m0 = tx_OutputIDs m"
      by (rule ledger_grows_tx [OF grow [OF x] Some]) (rule that, assumption+)
    have "B \<subseteq> tx_OutputIDs m" using step [OF x Some] c by simp
    moreover have "tx_OutputIDs m \<subseteq> U"
    proof
      fix k assume "k \<in> tx_OutputIDs m"
      then show "k \<in> U" unfolding U_def by (intro UN_I [of t]) (use m0 in auto)
    qed
    ultimately have B: "B \<subseteq> U" by (rule order.trans)
    then have "set (resourceElems env B) \<subseteq> U" using enumeratesD [OF resource_elems] finite_subset [OF B fin] by simp
    then show ?thesis using step [OF x Some] c
      by (intro exI [of _ "resourceElems env B"] exI [of _ x']) (simp add: metadataCallback_def Some pushOutputs_def)
  qed
  have cov: "walk_covers spending spushed {} (pushOutputs env A (newSetWalk env))"
    unfolding pushOutputs_def by (rule sets.covers_fold [OF sets.covers_new])
  have "\<exists>x'. cone_loop env (CachedConsumers env) (metadataCallback env callback)
      ({}, pushOutputs env A (newSetWalk env), False, l) = Some x' \<and> I x' \<and>
      (\<forall>k\<in>spushed (pushOutputs env A (newSetWalk env)). \<forall>t\<in>fst ` set (consumerStorage l k). Q t x')"
    by (rule cone_loop_result [where U = U and T = UNIV and Q = Q, OF fin cons call _ start _ cov]) simp_all
  then show ?thesis
    using False pushOutputs_pushed [OF A, of "newSetWalk env"]
    by (simp add: WalkConsumingTransactionMetadata_def WalkConsumingTransactionID_def sets.pushed_new)
qed

section \<open>Forking\<close>

lemma keeps_CreateConflict:
  assumes inv: "ledger_inv env creator X l" and fin: "finite P" "finite R" and i: "i \<in> booked l \<union> X"
    and run: "onDAG (CreateConflict env i P R) l = (l', created)"
  shows "ledger_keeps env creator X l l'" and "stored env (ConflictDAG l') = insert i (stored env (ConflictDAG l))"
    and "created \<longleftrightarrow> i \<notin> stored env (ConflictDAG l)"
    and "created \<Longrightarrow> r \<in> R \<Longrightarrow> member env (ConflictDAG l') r i"
    and "transactionMetadataStorage l' = transactionMetadataStorage l"
proof -
  obtain d evs where c: "CreateConflict env i P R (ConflictDAG l) = (d, created, evs)"
    and l': "l' = l\<lparr>ConflictDAG := d, triggered := triggered l @ map DagEvent evs\<rparr>"
    using run by (auto simp: onDAG_def split: prod.splits)
  note d = CreateConflict_grows [OF ledger_invD(1) [OF inv] fin c]
  have "stored env d \<subseteq> booked l \<union> X" using d(3) ledger_invD(2) [OF inv] i by auto
  with keeps_dag [OF inv d(1,2)] show "ledger_keeps env creator X l l'" by (simp add: l')
  show "stored env (ConflictDAG l') = insert i (stored env (ConflictDAG l))"
    "created \<longleftrightarrow> i \<notin> stored env (ConflictDAG l)"
    "created \<Longrightarrow> r \<in> R \<Longrightarrow> member env (ConflictDAG l') r i"
    "transactionMetadataStorage l' = transactionMetadataStorage l"
    using d(3-5) by (simp_all add: l')
qed

lemma keeps_UpdateConflictingResources:
  assumes inv: "ledger_inv env creator X l" and R: "finite R"
    and run: "onDAG (UpdateConflictingResources env i R) l = (l', updated)"
  shows "ledger_keeps env creator X l l'"
    and "i \<in> stored env (ConflictDAG l) \<Longrightarrow> r \<in> R \<Longrightarrow> member env (ConflictDAG l') r i"
proof -
  obtain d evs where c: "UpdateConflictingResources env i R (ConflictDAG l) = (d, updated, evs)"
    and l': "l' = l\<lparr>ConflictDAG := d, triggered := triggered l @ map DagEvent evs\<rparr>"
    using run by (auto simp: onDAG_def split: prod.splits)
  note d = UpdateConflictingResources_grows [OF ledger_invD(1) [OF inv] R c]
  have "stored env d \<subseteq> booked l \<union> X" using d(3) ledger_invD(2) [OF inv] by simp
  with keeps_dag [OF inv d(1,2)] show "ledger_keeps env creator X l l'" by (simp add: l')
  show "i \<in> stored env (ConflictDAG l) \<Longrightarrow> r \<in> R \<Longrightarrow> member env (ConflictDAG l') r i"
    using d(4) by (simp add: l')
qed

lemma keeps_UpdateConflictParents:
  assumes inv: "ledger_inv env creator X l" and keep: "p \<notin> removed"
  shows "ledger_keeps env creator X l (fst (onDAG (UpdateConflictParents env i removed p) l))"
proof -
  obtain d b evs where c: "UpdateConflictParents env i removed p (ConflictDAG l) = (d, b, evs)"
    by (metis prod_cases3)
  note d = UpdateConflictParents_grows [OF ledger_invD(1) [OF inv] keep c]
  have "stored env d \<subseteq> booked l \<union> X" using d(3) ledger_invD(2) [OF inv] by simp
  with keeps_dag [OF inv d(1,2)] show ?thesis by (simp add: onDAG_def c)
qed

lemma conflicts_finite: "ledger_inv env creator X l \<Longrightarrow> finite (stored env (ConflictDAG l))"
  using ledger_invD(1) by (auto simp: dag_ok_def)

lemma keeps_updateConflictsAfterFork:
  assumes inv: "ledger_inv env creator X l" and m: "transactionMetadataStorage l t = Some m"
    and f: "f \<in> stored env (ConflictDAG l)" "f \<notin> prev"
  shows "ledger_keeps env creator X l (fst (updateConflictsAfterFork env f prev t m l))"
proof -
  consider (conflicting) "IsConflicting m" | (has) "\<not> IsConflicting m" "f \<in> tx_ConflictIDs m"
    | (update) "\<not> IsConflicting m" "f \<notin> tx_ConflictIDs m" by blast
  then show ?thesis
  proof cases
    case conflicting
    then show ?thesis using keeps_UpdateConflictParents [OF inv f(2)] by (simp add: updateConflictsAfterFork_def)
  next
    case has
    then show ?thesis using ledger_keeps_refl [OF inv] by (simp add: updateConflictsAfterFork_def)
  next
    case update
    define C where "C = UnconfirmedConflicts env (mergeToMaster env) (ConflictDAG l) (insert f (tx_ConflictIDs m - prev))"
    have sub: "insert f (tx_ConflictIDs m - prev) \<subseteq> stored env (ConflictDAG l)"
      using ledger_invD(5) [OF inv m] f by blast
    then have C: "C \<subseteq> stored env (ConflictDAG l)"
      using UnconfirmedConflicts_subset [OF finite_subset [OF sub conflicts_finite [OF inv]]] unfolding C_def by blast
    have grow: "C \<subseteq> stored env (ConflictDAG l')" if "ledger_keeps env creator X l l'" for l'
      using C ledger_keepsD(3) [OF that] by (auto simp: dag_grows_def)
    define l1 where "l1 = fold (\<lambda>k l. fst (updateOut k (Out_SetConflictIDs C) l)) (resourceElems env (tx_OutputIDs m)) l"
    have k1: "ledger_keeps env creator X l l1"
      unfolding l1_def
      by (rule keeps_outputs [OF inv, where f = "\<lambda>_. Out_SetConflictIDs C"]) (use grow in \<open>auto simp: Out_SetConflictIDs_def\<close>)
    have k2: "ledger_keeps env creator X l1 (fst (updateTx t (Tx_SetConflictIDs C) l1))"
      by (rule keeps_updateTx [OF ledger_keepsD(1) [OF k1]]) (use grow [OF k1] in \<open>auto simp: Tx_SetConflictIDs_def\<close>)
    note k3 = keeps_trigger [OF ledger_keepsD(1) [OF k2], of "TransactionConflictIDUpdated (tx_ID m) f prev"]
    show ?thesis
      using ledger_keeps_trans [OF ledger_keeps_trans [OF k1 k2] k3] update
      by (simp add: updateConflictsAfterFork_def Let_def C_def l1_def)
  qed
qed

lemma propagateForked_keeps:
  assumes inv: "ledger_inv env creator X l" and A: "finite A" and f: "f \<in> stored env (ConflictDAG l)" "f \<notin> prev"
  shows "\<exists>l'. propagateForkedConflictToFutureCone env A f prev l = Some l' \<and> ledger_keeps env creator X l l'"
proof -
  have "\<exists>l'. propagateForkedConflictToFutureCone env A f prev l = Some l' \<and> ledger_keeps env creator X l l' \<and>
      (\<forall>k\<in>A. \<forall>t\<in>fst ` set (consumerStorage l k). True)"
    unfolding propagateForkedConflictToFutureCone_def
  proof (rule WalkConsumingTransactionMetadata_result
      [where I = "ledger_keeps env creator X l" and Q = "\<lambda>_ _. True", OF inv A ledger_keeps_refl [OF inv]])
    fix t m x assume x: "ledger_keeps env creator X l x" and m: "transactionMetadataStorage x t = Some m"
    have "f \<in> stored env (ConflictDAG x)" using f(1) ledger_keepsD(3) [OF x] by (auto simp: dag_grows_def)
    from keeps_updateConflictsAfterFork [OF ledger_keepsD(1) [OF x] m this f(2)]
    have "ledger_keeps env creator X l (fst (updateConflictsAfterFork env f prev t m x))"
      by (rule ledger_keeps_trans [OF x])
    then show "ledger_keeps env creator X l (fst (case updateConflictsAfterFork env f prev t m x of
          (l1, updated) \<Rightarrow> (l1, if updated then tx_OutputIDs m else {}))) \<and>
        snd (case updateConflictsAfterFork env f prev t m x of
          (l1, updated) \<Rightarrow> (l1, if updated then tx_OutputIDs m else {})) \<subseteq> tx_OutputIDs m \<and> True \<and> (\<forall>t'. True \<longrightarrow> True)"
      by (simp add: case_prod_unfold)
  qed (auto dest: ledger_keepsD(2))
  then show ?thesis by blast
qed

lemma forkTransaction_keeps:
  assumes inv: "ledger_inv env creator X l" and t: "t \<in> booked l \<union> X" and S: "finite S"
  shows "\<exists>l'. forkTransaction env t S l = Some l' \<and> ledger_keeps env creator X l l' \<and>
    (t \<in> dom (transactionMetadataStorage l) \<longrightarrow> (\<forall>k\<in>S. spends env l t k \<longrightarrow> member env (ConflictDAG l') k t))"
proof (cases "transactionStorage l t = None \<or> transactionMetadataStorage l t = None")
  case True
  then have "forkTransaction env t S l = Some l" by (auto simp: forkTransaction_def split: option.split)
  moreover have "t \<in> dom (transactionMetadataStorage l) \<Longrightarrow> \<not> spends env l t k" for k
    using True by (auto simp: spends_def)
  ultimately show ?thesis using ledger_keeps_refl [OF inv] by blast
next
  case False
  then obtain tx m where tx: "transactionStorage l t = Some tx" and m: "transactionMetadataStorage l t = Some m" by auto
  define R where "R = ResolveInputs env (Transaction_Inputs env tx) \<inter> S"
  have R: "finite R" using S by (simp add: R_def)
  have P: "finite (tx_ConflictIDs m)"
    using ledger_invD(5) [OF inv m] conflicts_finite [OF inv] finite_subset by blast
  have k: "r \<in> R" if "r \<in> S" "spends env l t r" for r using that by (auto simp: R_def spends_def tx)
  obtain l1 created where c: "onDAG (CreateConflict env t (tx_ConflictIDs m) R) l = (l1, created)" by fastforce
  note k1 = keeps_CreateConflict [OF inv P R t c]
  show ?thesis
  proof (cases created)
    case False
    obtain l2 b where u: "onDAG (UpdateConflictingResources env t R) l1 = (l2, b)" by fastforce
    note k2 = keeps_UpdateConflictingResources [OF ledger_keepsD(1) [OF k1(1)] R u]
    have "t \<in> stored env (ConflictDAG l1)" using k1(2) by simp
    then have mem: "\<forall>k\<in>S. spends env l t k \<longrightarrow> member env (ConflictDAG l2) k t" using k2(2) k by blast
    moreover have "forkTransaction env t S l = Some l2"
      using False c u by (simp add: forkTransaction_def tx m R_def Let_def)
    ultimately show ?thesis using ledger_keeps_trans [OF k1(1) k2(1)] by blast
  next
    case True
    have "t \<notin> tx_ConflictIDs m" using k1(3) True ledger_invD(5) [OF inv m] by blast
    note fork = this
    note k2 = keeps_trigger [OF ledger_keepsD(1) [OF k1(1)], of "TransactionForked t (tx_ConflictIDs m)"]
    let ?l2 = "trigger (TransactionForked t (tx_ConflictIDs m)) l1"
    have st2: "t \<in> stored env (ConflictDAG ?l2)" using k1(2) by (simp add: trigger_def)
    have m2: "transactionMetadataStorage ?l2 t = Some m" using k1(5) m by (simp add: trigger_def)
    note k3 = keeps_updateConflictsAfterFork [OF ledger_keepsD(1) [OF k2] m2 st2 fork]
    let ?l3 = "fst (updateConflictsAfterFork env t (tx_ConflictIDs m) t m ?l2)"
    have st3: "t \<in> stored env (ConflictDAG ?l3)" using st2 ledger_keepsD(3) [OF k3] by (auto simp: dag_grows_def)
    have fin: "finite (tx_OutputIDs m)" using ledger_invD(4) [OF inv m] by (simp add: tx_ok_def)
    obtain l4 where l4: "propagateForkedConflictToFutureCone env (tx_OutputIDs m) t (tx_ConflictIDs m) ?l3 = Some l4"
      and k4: "ledger_keeps env creator X ?l3 l4"
      using propagateForked_keeps [OF ledger_keepsD(1) [OF k3] fin st3 fork] by blast
    have k14: "ledger_keeps env creator X l1 l4" by (rule ledger_keeps_trans [OF ledger_keeps_trans [OF k2 k3] k4])
    have "member env (ConflictDAG l4) r t" if "r \<in> S" "spends env l t r" for r
      using k1(4) [OF True k [OF that]] ledger_keepsD(3) [OF k14] by (auto simp: dag_grows_def)
    moreover have "forkTransaction env t S l = Some l4"
      using True c l4 by (simp add: forkTransaction_def tx m R_def Let_def)
    ultimately show ?thesis using ledger_keeps_trans [OF k1(1) k14] by blast
  qed
qed

lemma forkEach_keeps:
  assumes "ledger_inv env creator X l" and "set ts \<subseteq> booked l \<union> X" and S: "finite S"
  shows "\<exists>l'. forkEach env S ts l = Some l' \<and> ledger_keeps env creator X l l' \<and>
    (\<forall>t\<in>set ts. t \<in> dom (transactionMetadataStorage l) \<longrightarrow> (\<forall>k\<in>S. spends env l t k \<longrightarrow> member env (ConflictDAG l') k t))"
  using assms(1,2)
proof (induction ts arbitrary: l)
  case Nil
  then show ?case by (simp add: ledger_keeps_refl)
next
  case (Cons t ts)
  obtain l1 where l1: "forkTransaction env t S l = Some l1" "ledger_keeps env creator X l l1"
    "t \<in> dom (transactionMetadataStorage l) \<Longrightarrow> \<forall>k\<in>S. spends env l t k \<longrightarrow> member env (ConflictDAG l1) k t"
    using forkTransaction_keeps [OF Cons.prems(1) _ S, of t] Cons.prems(2) by auto
  note same = ledger_grows_same [OF ledger_keepsD(2) [OF l1(2)]]
  obtain l2 where l2: "forkEach env S ts l1 = Some l2" "ledger_keeps env creator X l1 l2"
    "\<forall>t\<in>set ts. t \<in> dom (transactionMetadataStorage l) \<longrightarrow> (\<forall>k\<in>S. spends env l t k \<longrightarrow> member env (ConflictDAG l2) k t)"
    using Cons.IH [OF ledger_keepsD(1) [OF l1(2)]] Cons.prems(2) same by auto
  have "t \<in> dom (transactionMetadataStorage l) \<Longrightarrow> \<forall>k\<in>S. spends env l t k \<longrightarrow> member env (ConflictDAG l2) k t"
    using l1(3) ledger_keepsD(3) [OF l2(2)] by (auto simp: dag_grows_def)
  then show ?case using l1(1) l2 ledger_keeps_trans [OF l1(2) l2(2)] by auto
qed

end

end
