(* ===== verification/BookLaws.thy ===== *)
theory BookLaws
  imports ForkLaws
begin

text \<open>
  Booking a transaction ends, keeps the invariant of the ledger, and turns every output that the
  transaction shares with another one into a conflict set that has both as members.
\<close>

section \<open>Registering the consumer\<close>

definition register ::
    "'c \<Rightarrow> 'c \<Rightarrow> 'r set \<Rightarrow> ('r \<Rightarrow> ('c, 'r, 'n) OutputMetadata option) \<Rightarrow> 'r \<Rightarrow> ('c, 'r, 'n) OutputMetadata option" where
  "register e t ks om k =
     (if k \<in> ks then map_option (\<lambda>m. if out_FirstConsumer m = e then m\<lparr>out_FirstConsumer := t\<rparr> else m) (om k) else om k)"

definition spent_inputs :: "'c \<Rightarrow> 'r set \<Rightarrow> ('r \<Rightarrow> ('c, 'r, 'n) OutputMetadata option) \<Rightarrow> 'r set" where
  "spent_inputs e ks om = {k \<in> ks. \<exists>m. om k = Some m \<and> out_FirstConsumer m \<noteq> e}"

definition consumers_of_spent :: "'c \<Rightarrow> 'r set \<Rightarrow> ('r \<Rightarrow> ('c, 'r, 'n) OutputMetadata option) \<Rightarrow> 'c set" where
  "consumers_of_spent e ks om = {f. f \<noteq> e \<and> (\<exists>k\<in>ks. \<exists>m. om k = Some m \<and> out_FirstConsumer m = f)}"

lemma consumers_of_spent_insert:
  "om k = Some m \<Longrightarrow> consumers_of_spent e (insert k ks) om =
     (if out_FirstConsumer m \<noteq> e then {out_FirstConsumer m} else {}) \<union> consumers_of_spent e ks om"
  by (auto simp: consumers_of_spent_def)

lemma consumers_of_spent_upd: "k \<notin> ks \<Longrightarrow> consumers_of_spent e ks (om(k := x)) = consumers_of_spent e ks om"
proof -
  assume k: "k \<notin> ks"
  have "(om(k := x)) q = om q" if "q \<in> ks" for q using that k by auto
  then show ?thesis unfolding consumers_of_spent_def by (auto cong: bex_cong)
qed

lemma determineConflictDetails_fold:
  assumes "distinct ks" and "\<And>k m. outputMetadataStorage l k = Some m \<Longrightarrow> out_ID m = k \<and> \<not> out_FirstConsumerForked m"
  shows "fold (\<lambda>k (l, conflictingInputIDs, consumersToFork).
             case outputMetadataStorage l k of
               None \<Rightarrow> (l, conflictingInputIDs, consumersToFork)
             | Some m \<Rightarrow>
                 (case RegisterBookedConsumer (emptyTx env) t m of
                    (m1, isConflicting, consumerToFork) \<Rightarrow>
                      (l\<lparr>outputMetadataStorage := (outputMetadataStorage l)(k \<mapsto> m1)\<rparr>,
                       if isConflicting then insert (out_ID m) conflictingInputIDs else conflictingInputIDs,
                       if consumerToFork \<noteq> emptyTx env then insert consumerToFork consumersToFork else consumersToFork)))
       ks (l, C, F) =
     (l\<lparr>outputMetadataStorage := register (emptyTx env) t (set ks) (outputMetadataStorage l)\<rparr>,
      spent_inputs (emptyTx env) (set ks) (outputMetadataStorage l) \<union> C,
      consumers_of_spent (emptyTx env) (set ks) (outputMetadataStorage l) \<union> F)"
  (is "fold ?f ks (l, C, F) = _")
  using assms
proof (induction ks arbitrary: l C F)
  case Nil
  then show ?case by (simp add: register_def [abs_def] spent_inputs_def consumers_of_spent_def)
next
  case (Cons k ks)
  let ?e = "emptyTx env"
  show ?case
  proof (cases "outputMetadataStorage l k")
    case None
    have "register ?e t (set ks) (outputMetadataStorage l) = register ?e t (set (k # ks)) (outputMetadataStorage l)"
      using None by (auto simp: register_def fun_eq_iff)
    moreover have "spent_inputs ?e (set ks) (outputMetadataStorage l) = spent_inputs ?e (set (k # ks)) (outputMetadataStorage l)"
      "consumers_of_spent ?e (set ks) (outputMetadataStorage l) = consumers_of_spent ?e (set (k # ks)) (outputMetadataStorage l)"
      using None by (auto simp: spent_inputs_def consumers_of_spent_def)
    ultimately show ?thesis using Cons.IH [where l = l and C = C and F = F] Cons.prems None by simp
  next
    case (Some m)
    note m = Cons.prems(2) [OF Some]
    define m1 where "m1 = (if out_FirstConsumer m = ?e then m\<lparr>out_FirstConsumer := t\<rparr> else m)"
    define l1 where "l1 = l\<lparr>outputMetadataStorage := (outputMetadataStorage l)(k \<mapsto> m1)\<rparr>"
    define C1 where "C1 = (if out_FirstConsumer m \<noteq> ?e then insert k C else C)"
    define F1 where "F1 = (if out_FirstConsumer m \<noteq> ?e then insert (out_FirstConsumer m) F else F)"
    have step: "?f k (l, C, F) = (l1, C1, F1)"
      using m by (simp add: Some RegisterBookedConsumer_def m1_def l1_def C1_def F1_def)
    have om1: "outputMetadataStorage l1 q = (if q = k then Some m1 else outputMetadataStorage l q)" for q by (simp add: l1_def)
    have ids: "\<And>q n. outputMetadataStorage l1 q = Some n \<Longrightarrow> out_ID n = q \<and> \<not> out_FirstConsumerForked n"
      using Cons.prems(2) m by (auto simp: om1 m1_def split: if_splits)
    have k: "k \<notin> set ks" and d: "distinct ks" using Cons.prems(1) by auto
    have "register ?e t (set ks) (outputMetadataStorage l1) = register ?e t (set (k # ks)) (outputMetadataStorage l)"
      using k by (auto simp: register_def om1 m1_def Some fun_eq_iff)
    moreover have "spent_inputs ?e (set ks) (outputMetadataStorage l1) \<union> C1 = spent_inputs ?e (set (k # ks)) (outputMetadataStorage l) \<union> C"
      using k by (auto simp: spent_inputs_def C1_def om1 Some)
    moreover have "consumers_of_spent ?e (set ks) (outputMetadataStorage l1) \<union> F1 =
        consumers_of_spent ?e (set (k # ks)) (outputMetadataStorage l) \<union> F"
      using k by (simp add: l1_def consumers_of_spent_upd consumers_of_spent_insert [where om = "outputMetadataStorage l" and k = k, OF Some] F1_def)
    moreover have "fold ?f (k # ks) (l, C, F) = fold ?f ks (l1, C1, F1)" by (simp only: fold_simps step)
    moreover have "fold ?f ks (l1, C1, F1) = (l1\<lparr>outputMetadataStorage := register ?e t (set ks) (outputMetadataStorage l1)\<rparr>,
        spent_inputs ?e (set ks) (outputMetadataStorage l1) \<union> C1,
        consumers_of_spent ?e (set ks) (outputMetadataStorage l1) \<union> F1)"
      by (rule Cons.IH [OF d]) (rule ids)
    ultimately show ?thesis by (simp only: l1_def) simp
  qed
qed

lemma determineConflictDetails_eq:
  assumes "distinct ks" and "ledger_inv env creator X l"
  shows "determineConflictDetails env t ks l =
     (l\<lparr>outputMetadataStorage := register (emptyTx env) t (set ks) (outputMetadataStorage l)\<rparr>,
      spent_inputs (emptyTx env) (set ks) (outputMetadataStorage l),
      consumers_of_spent (emptyTx env) (set ks) (outputMetadataStorage l))"
proof -
  have "\<And>k m. outputMetadataStorage l k = Some m \<Longrightarrow> out_ID m = k \<and> \<not> out_FirstConsumerForked m"
    using ledger_invD(6,7) [OF assms(2)] by (simp add: out_ok_def)
  from determineConflictDetails_fold [OF assms(1) this, where env = env and t = t and C = "{}" and F = "{}"]
  show ?thesis unfolding determineConflictDetails_def by simp
qed

text \<open>The invariant while t is being booked.\<close>

lemma register_inv:
  assumes inv: "ledger_inv env creator {} l" and t: "t \<notin> booked l" "t \<noteq> emptyTx env"
    and ks: "\<And>k. k \<in> ks \<Longrightarrow> spends env l t k"
  shows "ledger_inv env creator {t} (l\<lparr>outputMetadataStorage := register (emptyTx env) t ks (outputMetadataStorage l)\<rparr>)"
    (is "ledger_inv env creator {t} ?l")
proof -
  have same: "booked ?l = booked l" "spends env ?l = spends env l"
    by (simp_all add: booked_def spends_def fun_eq_iff)
  have out: "\<exists>m0. outputMetadataStorage l k = Some m0 \<and> out_ID m = out_ID m0 \<and> out_ConflictIDs m = out_ConflictIDs m0 \<and>
      out_FirstConsumerForked m = out_FirstConsumerForked m0 \<and>
      (out_FirstConsumer m = out_FirstConsumer m0 \<or> k \<in> ks \<and> out_FirstConsumer m = t \<and> out_FirstConsumer m0 = emptyTx env)"
    if "outputMetadataStorage ?l k = Some m" for k m
    using that by (auto simp: register_def split: if_splits)
  have tx: "tx_ok env ?l t' m" if "transactionMetadataStorage ?l t' = Some m" for t' m
    using ledger_invD(4) [OF inv, of t' m] that by (simp add: tx_ok_def)
  have ook: "out_ID m = k \<and> out_ok env creator {t} ?l k (out_FirstConsumer m) (out_FirstConsumerForked m) \<and>
      out_ConflictIDs m \<subseteq> stored env (ConflictDAG ?l)" if m: "outputMetadataStorage ?l k = Some m" for k m
  proof -
    obtain m0 where m0: "outputMetadataStorage l k = Some m0" "out_ID m = out_ID m0" "out_ConflictIDs m = out_ConflictIDs m0"
      "out_FirstConsumerForked m = out_FirstConsumerForked m0"
      "out_FirstConsumer m = out_FirstConsumer m0 \<or> k \<in> ks \<and> out_FirstConsumer m = t \<and> out_FirstConsumer m0 = emptyTx env"
      using out [OF m] by blast
    with ledger_invD(6,7,8) [OF inv m0(1)] ks show ?thesis by (auto simp: out_ok_def same)
  qed
  have sok: "spend_ok env ?l t' k" if "t' \<in> booked ?l" "spends env ?l t' k" for t' k
  proof -
    have "spend_ok env l t' k" using ledger_invD(9) [OF inv] that by (simp add: same)
    then show ?thesis by (auto simp: spend_ok_def register_def)
  qed
  have "stored env (ConflictDAG ?l) \<subseteq> booked ?l \<union> {t}" using ledger_invD(2) [OF inv] unfolding same by auto
  moreover have "dag_ok env (ConflictDAG ?l)" "finite (dom (transactionMetadataStorage ?l))"
    using ledger_invD(1,3) [OF inv] by simp_all
  moreover have "tx_ConflictIDs m \<subseteq> stored env (ConflictDAG ?l)" if "transactionMetadataStorage ?l t' = Some m" for t' m
    using ledger_invD(5) [OF inv] that by simp
  ultimately show ?thesis using tx ook sok unfolding ledger_inv_def by blast
qed

section \<open>Inheriting the conflicts\<close>

context ledger_storage
begin

lemma inheritConflictIDs_result:
  assumes inv: "ledger_inv env creator {} l" and t: "t \<notin> booked l" "t \<noteq> emptyTx env"
    and inputs: "distinct inputs" "\<And>k. spends env l t k \<longleftrightarrow> k \<in> set inputs" "\<And>k. k \<in> set inputs \<Longrightarrow> outputMetadataStorage l k \<noteq> None"
  shows "\<exists>l' cs. inheritConflictIDs env t inputs l = Some (l', cs) \<and>
    ledger_keeps env creator {t} (l\<lparr>outputMetadataStorage := register (emptyTx env) t (set inputs) (outputMetadataStorage l)\<rparr>) l' \<and>
    cs \<subseteq> stored env (ConflictDAG l') \<and> (\<forall>k\<in>set inputs. spend_ok env l' t k)"
proof -
  let ?e = "emptyTx env"
  define l1 where "l1 = l\<lparr>outputMetadataStorage := register ?e t (set inputs) (outputMetadataStorage l)\<rparr>"
  define C where "C = spent_inputs ?e (set inputs) (outputMetadataStorage l)"
  define F where "F = consumers_of_spent ?e (set inputs) (outputMetadataStorage l)"
  define A where "A = (\<Union>k\<in>set inputs. case outputMetadataStorage l k of Some m \<Rightarrow> out_ConflictIDs m | None \<Rightarrow> {})"
  define P where "P = UnconfirmedConflicts env (mergeToMaster env) (ConflictDAG l) A"
  have inv1: "ledger_inv env creator {t} l1"
    unfolding l1_def by (rule register_inv [OF inv t]) (simp add: inputs(2))
  have same1: "booked l1 = booked l" "spends env l1 = spends env l" "ConflictDAG l1 = ConflictDAG l"
    "transactionMetadataStorage l1 = transactionMetadataStorage l"
    by (simp_all add: l1_def booked_def spends_def fun_eq_iff)
  have "(case outputMetadataStorage l k of Some m \<Rightarrow> out_ConflictIDs m | None \<Rightarrow> {}) \<subseteq> stored env (ConflictDAG l)" for k
    using ledger_invD(8) [OF inv, of k] by (simp split: option.split)
  then have A: "A \<subseteq> stored env (ConflictDAG l)" unfolding A_def by blast
  have finA: "finite A" by (rule finite_subset [OF A conflicts_finite [OF inv]])
  have P: "P \<subseteq> stored env (ConflictDAG l)" "finite P"
    using UnconfirmedConflicts_subset [OF finA] A finA finite_subset unfolding P_def by blast+
  have first: "\<exists>m. outputMetadataStorage l1 k = Some m \<and> out_FirstConsumer m \<noteq> ?e \<and>
      (out_FirstConsumer m = t \<and> k \<notin> C \<or> k \<in> C \<and> out_FirstConsumer m \<in> F \<and> spends env l (out_FirstConsumer m) k \<and>
         out_FirstConsumer m \<in> booked l)" if k: "k \<in> set inputs" for k
  proof -
    obtain m where m: "outputMetadataStorage l k = Some m" using inputs(3) [OF k] by auto
    show ?thesis
    proof (cases "out_FirstConsumer m = ?e")
      case True
      then show ?thesis using m k t(2) by (auto simp: l1_def register_def C_def spent_inputs_def)
    next
      case False
      with ledger_invD(7) [OF inv m] have "spends env l (out_FirstConsumer m) k" "out_FirstConsumer m \<in> booked l"
        by (simp_all add: out_ok_def)
      with False show ?thesis using m k by (auto simp: l1_def register_def C_def F_def spent_inputs_def consumers_of_spent_def)
    qed
  qed
  have det: "determineConflictDetails env t inputs l = (l1, C, F)"
    unfolding l1_def C_def F_def by (rule determineConflictDetails_eq [OF inputs(1) inv])
  show ?thesis
  proof (cases "C = {}")
    case True
    then have "spend_ok env l1 t k" if "k \<in> set inputs" for k using first [OF that] by (auto simp: spend_ok_def)
    moreover have "inheritConflictIDs env t inputs l = Some (l1, P)"
      using True by (simp add: inheritConflictIDs_def det P_def A_def)
    ultimately show ?thesis using P(1) ledger_keeps_refl [OF inv1] unfolding l1_def [symmetric] same1 by (intro exI [of _ l1] exI [of _ P]) (simp add: same1)
  next
    case False
    have finC: "finite C" by (simp add: C_def spent_inputs_def)
    have "F \<subseteq> (\<lambda>k. out_FirstConsumer (the (outputMetadataStorage l k))) ` set inputs"
    proof
      fix f assume "f \<in> F"
      then obtain k m where k: "k \<in> set inputs" and m: "outputMetadataStorage l k = Some m" "out_FirstConsumer m = f"
        by (auto simp: F_def consumers_of_spent_def)
      from k show "f \<in> (\<lambda>k. out_FirstConsumer (the (outputMetadataStorage l k))) ` set inputs"
        by (rule rev_image_eqI) (simp add: m)
    qed
    then have finF: "finite F" by (rule finite_subset) simp
    have F: "f \<in> booked l" if "f \<in> F" for f
      using that ledger_invD(7) [OF inv] by (auto simp: F_def consumers_of_spent_def out_ok_def)
    obtain l2 created where c: "onDAG (CreateConflict env t P C) l1 = (l2, created)" by fastforce
    note k2 = keeps_CreateConflict [OF inv1 P(2) finC _ c]
    have k2': "ledger_keeps env creator {t} l1 l2" by (rule k2(1)) simp
    have st2: "t \<in> stored env (ConflictDAG l2)" using k2(2) by simp
    have "t \<notin> stored env (ConflictDAG l)" using ledger_invD(2) [OF inv] t(1) by blast
    then have mem2: "member env (ConflictDAG l2) k t" if "k \<in> C" for k
      using k2(3,4) that by (simp add: same1)
    note same2 = ledger_grows_same [OF ledger_keepsD(2) [OF k2']]
    have eF: "set (conflictElems env F) = F" using enumeratesD [OF conflict_elems finF] .
    have sub: "set (conflictElems env F) \<subseteq> booked l2 \<union> {t}" using F unfolding eF same2 same1 by blast
    obtain l3 where l3: "forkEach env C (conflictElems env F) l2 = Some l3" "ledger_keeps env creator {t} l2 l3"
      "\<forall>f\<in>F. f \<in> dom (transactionMetadataStorage l) \<longrightarrow> (\<forall>k\<in>C. spends env l f k \<longrightarrow> member env (ConflictDAG l3) k f)"
      using forkEach_keeps [OF ledger_keepsD(1) [OF k2'] sub finC] unfolding eF same2 same1 by blast
    have k13: "ledger_keeps env creator {t} l1 l3" by (rule ledger_keeps_trans [OF k2' l3(2)])
    have dom: "f \<in> dom (transactionMetadataStorage l)" if "f \<in> booked l" for f using that by (auto simp: booked_def)
    have "spend_ok env l3 t k" if k: "k \<in> set inputs" for k
    proof -
      obtain m where m: "outputMetadataStorage l1 k = Some m" "out_FirstConsumer m \<noteq> ?e"
        "out_FirstConsumer m = t \<and> k \<notin> C \<or> k \<in> C \<and> out_FirstConsumer m \<in> F \<and> spends env l (out_FirstConsumer m) k \<and>
         out_FirstConsumer m \<in> booked l" using first [OF k] by blast
      obtain m' where m': "outputMetadataStorage l3 k = Some m'" "out_FirstConsumer m' = out_FirstConsumer m"
        using ledger_growsD(2) [OF ledger_keepsD(2) [OF k13], of k] m(1) by auto
      have "member env (ConflictDAG l3) k t" if "k \<in> C"
        using mem2 [OF that] ledger_keepsD(3) [OF l3(2)] by (auto simp: dag_grows_def)
      then show ?thesis using m(2,3) m' l3(3) dom by (auto simp: spend_ok_def)
    qed
    moreover have "{t} \<subseteq> stored env (ConflictDAG l3)" using st2 ledger_keepsD(3) [OF l3(2)] by (auto simp: dag_grows_def)
    moreover have "inheritConflictIDs env t inputs l = Some (l3, {t})"
      using False c l3(1) by (simp add: inheritConflictIDs_def det P_def [symmetric] A_def [symmetric])
    ultimately show ?thesis using k13 unfolding l1_def [symmetric] by blast
  qed
qed

end

section \<open>Booking\<close>

lemma storeOutputs_meta:
  "outputMetadataStorage (storeOutputs env outs cs con acc l) k =
     (if k \<in> Output_Identifier env ` set outs
      then Some (NewOutputMetadata (emptyTx env) (emptyNode env) k
             \<lparr>out_ConflictIDs := cs, out_AccessManaPledgeID := acc, out_ConsensusManaPledgeID := con\<rparr>)
      else outputMetadataStorage l k)"
  unfolding storeOutputs_def
  by (induction outs arbitrary: l) (auto simp: Let_def Out_SetConflictIDs_def Out_SetAccessManaPledgeID_def
      Out_SetConsensusManaPledgeID_def NewOutputMetadata_def)

lemma storeOutputs_same:
  "transactionStorage (storeOutputs env outs cs con acc l) = transactionStorage l"
  "transactionMetadataStorage (storeOutputs env outs cs con acc l) = transactionMetadataStorage l"
  "ConflictDAG (storeOutputs env outs cs con acc l) = ConflictDAG l"
  "consumerStorage (storeOutputs env outs cs con acc l) = consumerStorage l"
  unfolding storeOutputs_def by (induction outs arbitrary: l) (simp_all add: Let_def)

lemma setConsumersBooked_same:
  "transactionStorage (setConsumersBooked t ks l) = transactionStorage l"
  "transactionMetadataStorage (setConsumersBooked t ks l) = transactionMetadataStorage l"
  "outputMetadataStorage (setConsumersBooked t ks l) = outputMetadataStorage l"
  "ConflictDAG (setConsumersBooked t ks l) = ConflictDAG l"
  unfolding setConsumersBooked_def by (induction ks arbitrary: l) simp_all

lemma setConsumersBooked_Nil [simp]: "setConsumersBooked t [] l = l"
  by (simp add: setConsumersBooked_def)

text \<open>Once t is marked as booked and its outputs are there, the invariant holds without exception.\<close>

lemma finish_inv:
  assumes inv: "ledger_inv env creator {t} l" and m: "transactionMetadataStorage l t = Some m" "\<not> tx_Booked m"
    and m': "tx_ID m' = t" "tx_Booked m'" "tx_OutputIDs m' = {}" "tx_ConflictIDs m' \<subseteq> stored env (ConflictDAG l)"
    and ids: "\<And>k. k \<in> ids \<Longrightarrow> creator k = t"
    and spend: "\<And>k. spends env l t k \<Longrightarrow> spend_ok env l t k"
    and l': "transactionStorage l' = transactionStorage l" "ConflictDAG l' = ConflictDAG l"
      "transactionMetadataStorage l' = (transactionMetadataStorage l)(t \<mapsto> m')"
      "\<And>k. k \<in> ids \<Longrightarrow> \<exists>om. outputMetadataStorage l' k = Some om \<and> out_ID om = k \<and> out_FirstConsumer om = emptyTx env \<and>
         \<not> out_FirstConsumerForked om \<and> out_ConflictIDs om \<subseteq> stored env (ConflictDAG l)"
      "\<And>k. k \<notin> ids \<Longrightarrow> outputMetadataStorage l' k = outputMetadataStorage l k"
  shows "ledger_inv env creator {} l' \<and> booked l' = insert t (booked l)"
proof -
  have booked: "booked l' = insert t (booked l)" using m'(2) by (auto simp: booked_def l'(3))
  have same: "spends env l' = spends env l" by (simp add: spends_def l'(1) fun_eq_iff)
  have "t \<notin> booked l" using m by (simp add: booked_def)
  then have new: "k \<notin> ids" if "outputMetadataStorage l k = Some om" for k om
    using ledger_invD(7) [OF inv that] ids m(1) by (auto simp: out_ok_def)
  have dom: "dom (transactionMetadataStorage l') = dom (transactionMetadataStorage l)"
    using m(1) unfolding l'(3) by auto
  have tx: "tx_ok env l' s n \<and> tx_ConflictIDs n \<subseteq> stored env (ConflictDAG l')" if n: "transactionMetadataStorage l' s = Some n" for s n
  proof (cases "s = t")
    case True
    then show ?thesis using n m' ledger_invD(4) [OF inv m(1)] by (simp add: tx_ok_def l'(1,2,3))
  next
    case False
    then show ?thesis using n ledger_invD(4,5) [OF inv, of s n] by (simp add: tx_ok_def l'(1,2,3))
  qed
  have out: "out_ID om = k \<and> out_ok env creator {} l' k (out_FirstConsumer om) (out_FirstConsumerForked om) \<and>
      out_ConflictIDs om \<subseteq> stored env (ConflictDAG l')" if om: "outputMetadataStorage l' k = Some om" for k om
  proof (cases "k \<in> ids")
    case True
    then show ?thesis using om l'(4) [OF True] ids [OF True] by (auto simp: out_ok_def booked l'(2))
  next
    case False
    then have "outputMetadataStorage l k = Some om" using om l'(5) by simp
    from ledger_invD(6,7,8) [OF inv this] show ?thesis by (auto simp: out_ok_def booked dom same l'(2))
  qed
  have sok: "spend_ok env l' s k" if "s \<in> booked l'" "spends env l' s k" for s k
  proof -
    have "spend_ok env l s k" using that spend ledger_invD(9) [OF inv, of s k] unfolding booked same by blast
    then show ?thesis using new l'(5) by (fastforce simp: spend_ok_def l'(2))
  qed
  have "ledger_inv env creator {} l'"
    unfolding ledger_inv_def using tx out sok ledger_invD(1,2,3) [OF inv] unfolding booked dom l'(2) by blast
  with booked show ?thesis by simp
qed

context ledger_storage
begin

lemma bookTransaction_result:
  assumes inv: "ledger_inv env creator {} l"
    and tx: "transactionStorage l t = Some tx" "Transaction_ID env tx = t" and m: "transactionMetadataStorage l t = Some m" "\<not> tx_Booked m"
    and inputs: "distinct inputs" "set inputs = ResolveInputs env (Transaction_Inputs env tx)"
      "\<And>k. k \<in> set inputs \<Longrightarrow> outputMetadataStorage l k \<noteq> None"
    and outs: "\<And>out. out \<in> set outs \<Longrightarrow> creator (Output_Identifier env out) = t"
  shows "\<exists>l'. bookTransaction env tx inputs consumers outs l = Some l' \<and> ledger_inv env creator {} l' \<and>
    booked l' = insert t (booked l) \<and> transactionStorage l' = transactionStorage l \<and>
    dag_grows env (ConflictDAG l) (ConflictDAG l') \<and>
    dom (transactionMetadataStorage l') = dom (transactionMetadataStorage l) \<and>
    (consumers = [] \<longrightarrow> consumerStorage l' = consumerStorage l)"
proof -
  have t: "t \<notin> booked l" "t \<noteq> emptyTx env" using m ledger_invD(4) [OF inv m(1)] by (simp_all add: booked_def tx_ok_def)
  have spends: "spends env l t k \<longleftrightarrow> k \<in> set inputs" for k using tx(1) inputs(2) by (simp add: spends_def)
  define l0 where "l0 = l\<lparr>outputMetadataStorage := register (emptyTx env) t (set inputs) (outputMetadataStorage l)\<rparr>"
  obtain l1 cs where inh: "inheritConflictIDs env t inputs l = Some (l1, cs)" and k1: "ledger_keeps env creator {t} l0 l1"
    and cs: "cs \<subseteq> stored env (ConflictDAG l1)" and spend1: "\<And>k. k \<in> set inputs \<Longrightarrow> spend_ok env l1 t k"
    using inheritConflictIDs_result [OF inv t inputs(1) spends inputs(3)] unfolding l0_def by blast
  have inv1: "ledger_inv env creator {t} l1" and grow1: "ledger_grows env l0 l1" using k1 by (simp_all add: ledger_keeps_def)
  have same0: "booked l0 = booked l" "spends env l0 = spends env l" "ConflictDAG l0 = ConflictDAG l"
    "transactionMetadataStorage l0 = transactionMetadataStorage l" "transactionStorage l0 = transactionStorage l"
    "consumerStorage l0 = consumerStorage l"
    by (simp_all add: l0_def booked_def spends_def fun_eq_iff)
  note same1 = ledger_grows_same [OF grow1, unfolded same0]
  obtain m1 where m1: "transactionMetadataStorage l1 t = Some m1" "tx_ID m1 = tx_ID m" "tx_Booked m1 = tx_Booked m"
    using ledger_growsD(1) [OF grow1, of t] m(1) unfolding same0 by auto
  define cons acc where "cons = fst (Transaction_PledgeIDs env tx)" and "acc = snd (Transaction_PledgeIDs env tx)"
  define l2 where "l2 = fst (updateTx t (Tx_SetConflictIDs cs) l1)"
  define l3 where "l3 = fst (updateTx t (Tx_SetOutputIDs {}) l2)"
  define l4 where "l4 = storeOutputs env outs cs cons acc l3"
  define l5 where "l5 = fst (updateTx t (Tx_SetBooked True (clockTime env (clockReads l4))) l4)"
  define l6 where "l6 = trigger (TransactionBooked t outs) (setConsumersBooked t consumers l5)"
  have run: "bookTransaction env tx inputs consumers outs l = Some l6"
    by (simp add: bookTransaction_def tx(2) inh Let_def outputs_IDs_empty l6_def l5_def l4_def l3_def l2_def cons_def acc_def case_prod_unfold)
  define m5 where "m5 = m1\<lparr>tx_ConflictIDs := cs, tx_OutputIDs := {},
    tx_BookingTime := clockTime env (clockReads l4), tx_Booked := True\<rparr>"
  have meta2: "transactionMetadataStorage l2 = (transactionMetadataStorage l1)(t \<mapsto> m1\<lparr>tx_ConflictIDs := cs\<rparr>)"
    by (auto simp: l2_def updateTx_def m1(1) Tx_SetConflictIDs_def)
  have meta3: "transactionMetadataStorage l3 = (transactionMetadataStorage l1)
      (t \<mapsto> m1\<lparr>tx_ConflictIDs := cs, tx_OutputIDs := {}\<rparr>)"
    by (auto simp: l3_def updateTx_def meta2 Tx_SetOutputIDs_def)
  have meta4: "transactionMetadataStorage l4 = transactionMetadataStorage l3" by (simp add: l4_def storeOutputs_same)
  have meta5: "transactionMetadataStorage l5 = (transactionMetadataStorage l1)(t \<mapsto> m5)"
    using m(2) m1(3) by (auto simp: l5_def updateTx_def meta4 meta3 Tx_SetBooked_def m5_def Let_def)
  have upd: "transactionStorage (fst (updateTx t f x)) = transactionStorage x" "ConflictDAG (fst (updateTx t f x)) = ConflictDAG x"
    "outputMetadataStorage (fst (updateTx t f x)) = outputMetadataStorage x" "consumerStorage (fst (updateTx t f x)) = consumerStorage x"
    for f and x :: "('c, 'r, 's, 't, 'o, 'n, 'e) ledger"
    by (simp_all add: updateTx_def split: option.split prod.split)
  have rest: "transactionStorage l6 = transactionStorage l1" "ConflictDAG l6 = ConflictDAG l1"
    "transactionMetadataStorage l6 = (transactionMetadataStorage l1)(t \<mapsto> m5)"
    "outputMetadataStorage l6 = outputMetadataStorage l4" "consumers = [] \<Longrightarrow> consumerStorage l6 = consumerStorage l1"
    by (simp_all add: l6_def trigger_def setConsumersBooked_same meta5)
      (simp_all add: l5_def l4_def l3_def l2_def upd storeOutputs_same)
  have out4: "outputMetadataStorage l4 k = (if k \<in> Output_Identifier env ` set outs
      then Some (NewOutputMetadata (emptyTx env) (emptyNode env) k
             \<lparr>out_ConflictIDs := cs, out_AccessManaPledgeID := acc, out_ConsensusManaPledgeID := cons\<rparr>)
      else outputMetadataStorage l1 k)" for k
    unfolding l4_def storeOutputs_meta by (simp add: l3_def l2_def upd)
  have "ledger_inv env creator {} l6 \<and> booked l6 = insert t (booked l1)"
  proof (rule finish_inv [where t = t and l = l1 and m = m1 and m' = m5 and ids = "Output_Identifier env ` set outs", OF inv1 m1(1)])
    show "\<not> tx_Booked m1" using m1(3) m(2) by simp
    show "tx_ID m5 = t" using m1(2) ledger_invD(4) [OF inv m(1)] by (simp add: m5_def tx_ok_def)
    show "tx_ConflictIDs m5 \<subseteq> stored env (ConflictDAG l1)" by (simp add: m5_def cs)
    show "spend_ok env l1 t k" if "spends env l1 t k" for k using that spend1 spends unfolding same1 by simp
    show "\<exists>om. outputMetadataStorage l6 k = Some om \<and> out_ID om = k \<and> out_FirstConsumer om = emptyTx env \<and>
         \<not> out_FirstConsumerForked om \<and> out_ConflictIDs om \<subseteq> stored env (ConflictDAG l1)"
      if "k \<in> Output_Identifier env ` set outs" for k
      using that cs unfolding rest out4 by (simp add: NewOutputMetadata_def)
  qed (use outs in \<open>auto simp: m5_def rest out4\<close>)
  moreover have "dag_grows env (ConflictDAG l) (ConflictDAG l6)"
    using ledger_growsD(5) [OF grow1] unfolding same0 rest .
  moreover have "transactionStorage l6 = transactionStorage l" unfolding rest same1 ..
  moreover have "dom (transactionMetadataStorage l6) = dom (transactionMetadataStorage l)"
    using m1(1) unfolding rest same1(2) [symmetric] by auto
  moreover have "consumers = [] \<longrightarrow> consumerStorage l6 = consumerStorage l"
    using rest(5) ledger_growsD(4) [OF grow1] unfolding same0 by simp
  ultimately show ?thesis using run unfolding same1(1) by blast
qed

end

end
