(* ===== verification/RelatedLaws.thy ===== *)
theory RelatedLaws
  imports BookLaws
begin

text \<open>
  The check for causally related outputs ends and is exact: it answers whether, from a spent input,
  booked transactions lead to another input.
\<close>

text \<open>The outputs of a booked transaction, and the step from an output to those of its consumers.\<close>

definition created :: "('c, 'r, 's, 't, 'o, 'n, 'e) ledger \<Rightarrow> 'c \<Rightarrow> 'r set" where
  "created l t = (case transactionMetadataStorage l t of Some m \<Rightarrow> if tx_Booked m then tx_OutputIDs m else {} | None \<Rightarrow> {})"

definition leads_to :: "('c, 'r, 's, 't, 'o, 'n, 'e) ledger \<Rightarrow> 'r \<Rightarrow> 'r \<Rightarrow> bool" where
  "leads_to l k k' \<longleftrightarrow> (\<exists>t\<in>fst ` set (consumerStorage l k). k' \<in> created l t)"

lemma pushUnrelated_eq:
  "(\<exists>w'. pushUnrelated env inputs ks w = (w', True, True) \<and> (\<exists>k\<in>set ks. k \<in> set inputs)) \<or>
   pushUnrelated env inputs ks w = (fold (\<lambda>k w. pushSetWalk env w k) ks w, False, False) \<and> set ks \<inter> set inputs = {}"
  by (induction ks arbitrary: w) auto

lemma visitConsumer_stopped: "fold (visitConsumer callback) ts (seen, w, True, x) = (seen, w, True, x)"
  by (induction ts) (simp_all add: visitConsumer_def)

context ledger_storage
begin

lemma relatedCallback_cases:
  assumes "finite (created l t)"
  shows "(\<exists>w'. relatedCallback env l inputs t w False = (w', True, True) \<and> created l t \<inter> set inputs \<noteq> {}) \<or>
    (\<exists>ks. relatedCallback env l inputs t w False = (fold (\<lambda>k w. pushSetWalk env w k) ks w, False, False) \<and>
       set ks = created l t \<and> created l t \<inter> set inputs = {})"
proof (cases "created l t = {}")
  case True
  then have "relatedCallback env l inputs t w False = (w, False, False)"
    by (auto simp: relatedCallback_def created_def split: option.splits if_splits)
  with True show ?thesis by (intro disjI2 exI [of _ "[]"]) simp
next
  case False
  then obtain m where m: "transactionMetadataStorage l t = Some m" "tx_Booked m" "tx_OutputIDs m \<noteq> {}"
    by (auto simp: created_def split: option.splits if_splits)
  have c: "created l t = tx_OutputIDs m" using m by (simp add: created_def)
  have e: "set (resourceElems env (tx_OutputIDs m)) = tx_OutputIDs m" using enumeratesD [OF resource_elems] assms c by simp
  have call: "relatedCallback env l inputs t w False = pushUnrelated env inputs (resourceElems env (tx_OutputIDs m)) w"
    using m by (simp add: relatedCallback_def)
  show ?thesis
    using pushUnrelated_eq [of env inputs "resourceElems env (tx_OutputIDs m)" w] unfolding call c e by (auto simp: e)
qed

text \<open>Visiting the consumers of one output: a hit stops the walk, otherwise all they created is pushed.\<close>

lemma related_visit:
  assumes fin: "\<And>t. finite (created l t)"
  shows "(\<exists>seen' w'. fold (visitConsumer (relatedCallback env l inputs)) ts (seen, w, False, False) = (seen', w', True, True) \<and>
      (\<exists>t\<in>set ts. created l t \<inter> set inputs \<noteq> {})) \<or>
    (\<exists>ks. fold (visitConsumer (relatedCallback env l inputs)) ts (seen, w, False, False) =
        (set ts \<union> seen, fold (\<lambda>k w. pushSetWalk env w k) ks w, False, False) \<and>
      set ks = (\<Union>t\<in>set ts - seen. created l t) \<and> (\<forall>t\<in>set ts - seen. created l t \<inter> set inputs = {}))"
proof (induction ts arbitrary: seen w)
  case Nil
  then show ?case by (intro disjI2 exI [of _ "[]"]) simp
next
  case (Cons t ts)
  let ?f = "fold (visitConsumer (relatedCallback env l inputs))"
  show ?case
  proof (cases "t \<in> seen")
    case True
    then have "?f (t # ts) (seen, w, False, False) = ?f ts (seen, w, False, False)" by (simp add: visitConsumer_def)
    moreover have "set (t # ts) - seen = set ts - seen" "set (t # ts) \<union> seen = set ts \<union> seen" using True by auto
    ultimately show ?thesis using Cons.IH [of seen w] by auto
  next
    case False
    from relatedCallback_cases [OF fin [of t], where inputs = inputs and w = w] show ?thesis
    proof
      assume "\<exists>w'. relatedCallback env l inputs t w False = (w', True, True) \<and> created l t \<inter> set inputs \<noteq> {}"
      then obtain w' where "relatedCallback env l inputs t w False = (w', True, True)" "created l t \<inter> set inputs \<noteq> {}" by blast
      then have "?f (t # ts) (seen, w, False, False) = (insert t seen, w', True, True)"
        using False by (simp add: visitConsumer_def [of _ t] visitConsumer_stopped)
      then show ?thesis using \<open>created l t \<inter> set inputs \<noteq> {}\<close> by auto
    next
      assume "\<exists>ks. relatedCallback env l inputs t w False = (fold (\<lambda>k w. pushSetWalk env w k) ks w, False, False) \<and>
         set ks = created l t \<and> created l t \<inter> set inputs = {}"
      then obtain ks where ks: "relatedCallback env l inputs t w False = (fold (\<lambda>k w. pushSetWalk env w k) ks w, False, False)"
        "set ks = created l t" "created l t \<inter> set inputs = {}" by blast
      let ?w = "fold (\<lambda>k w. pushSetWalk env w k) ks w"
      have step: "?f (t # ts) (seen, w, False, False) = ?f ts (insert t seen, ?w, False, False)"
        using False ks(1) by (simp add: visitConsumer_def)
      from Cons.IH [of "insert t seen" ?w] show ?thesis
      proof
        assume "\<exists>seen' w'. ?f ts (insert t seen, ?w, False, False) = (seen', w', True, True) \<and>
          (\<exists>t\<in>set ts. created l t \<inter> set inputs \<noteq> {})"
        then show ?thesis unfolding step by auto
      next
        assume "\<exists>ks'. ?f ts (insert t seen, ?w, False, False) =
            (set ts \<union> insert t seen, fold (\<lambda>k w. pushSetWalk env w k) ks' ?w, False, False) \<and>
          set ks' = (\<Union>t'\<in>set ts - insert t seen. created l t') \<and> (\<forall>t'\<in>set ts - insert t seen. created l t' \<inter> set inputs = {})"
        then obtain ks' where r: "?f ts (insert t seen, ?w, False, False) =
            (set ts \<union> insert t seen, fold (\<lambda>k w. pushSetWalk env w k) ks' ?w, False, False)"
          "set ks' = (\<Union>t'\<in>set ts - insert t seen. created l t')" "\<forall>t'\<in>set ts - insert t seen. created l t' \<inter> set inputs = {}"
          by blast
        have "set (ks @ ks') = (\<Union>t'\<in>set (t # ts) - seen. created l t')" using r(2) ks(2) False by auto
        moreover have "\<forall>t'\<in>set (t # ts) - seen. created l t' \<inter> set inputs = {}" using r(3) ks(3) by auto
        moreover have "?f (t # ts) (seen, w, False, False) =
            (set (t # ts) \<union> seen, fold (\<lambda>k w. pushSetWalk env w k) (ks @ ks') w, False, False)"
          unfolding step using r(1) by simp
        ultimately show ?thesis by blast
      qed
    qed
  qed
qed

lemma related_loop:
  assumes fin: "\<And>t. finite (created l t)" "finite U" "\<And>t. created l t \<subseteq> U"
  shows "R \<subseteq> spushed w \<Longrightarrow> spushed w \<subseteq> {k. \<exists>k0\<in>R. (leads_to l)\<^sup>*\<^sup>* k0 k} \<Longrightarrow> walk_covers spending spushed V w \<Longrightarrow>
    V \<subseteq> spushed w \<Longrightarrow> \<forall>k\<in>V. fst ` set (consumerStorage l k) \<subseteq> seen \<Longrightarrow>
    \<forall>t\<in>seen. created l t \<subseteq> spushed w \<and> created l t \<inter> set inputs = {} \<Longrightarrow>
    cone_loop env (\<lambda>_. CachedConsumers env l) (relatedCallback env l inputs) (seen, w, False, False) =
      Some (\<exists>k0\<in>R. \<exists>k\<in>set inputs. (leads_to l)\<^sup>+\<^sup>+ k0 k)"
proof (induction "budget spending spushed U w" arbitrary: seen w V rule: less_induct)
  case less
  show ?case
  proof (cases "nextSetWalk env w")
    case None
    then have PV: "spushed w \<subseteq> V" using less.prems(3) sets.next_None by (simp add: walk_covers_def)
    have step: "k' \<in> V" if kk: "k \<in> V" "leads_to l k k'" for k k'
    proof -
      obtain t where "t \<in> fst ` set (consumerStorage l k)" "k' \<in> created l t" using kk(2) by (auto simp: leads_to_def)
      then show ?thesis using kk(1) less.prems(5,6) PV by blast
    qed
    have closed: "k \<in> V" if k0: "k0 \<in> R" "(leads_to l)\<^sup>*\<^sup>* k0 k" for k0 k
      using k0(2,1) by (induction rule: rtranclp_induct) (use PV less.prems(1) step in blast)+
    have "\<not> (leads_to l)\<^sup>+\<^sup>+ k0 k" if k0: "k0 \<in> R" and k: "k \<in> set inputs" for k0 k
    proof
      assume "(leads_to l)\<^sup>+\<^sup>+ k0 k"
      then obtain k1 where "(leads_to l)\<^sup>*\<^sup>* k0 k1" "leads_to l k1 k" by (blast elim: tranclp.cases intro: tranclp_into_rtranclp)
      with closed [OF k0] less.prems(5,6) k show False by (fastforce simp: leads_to_def)
    qed
    then show ?thesis by (subst cone_loop.simps) (auto simp: None)
  next
    case (Some y)
    then obtain k w1 where nx: "nextSetWalk env w = Some (k, w1)" by (cases y) auto
    note cov1 = sets.covers_next [OF less.prems(3) nx]
    let ?ts = "map fst (CachedConsumers env l k)"
    have ts: "set ?ts = fst ` set (consumerStorage l k)" by (simp add: CachedConsumers_def range_consumers)
    obtain k0 where k0: "k0 \<in> R" "(leads_to l)\<^sup>*\<^sup>* k0 k" using cov1(3) less.prems(2) by blast
    from related_visit [OF fin(1), of inputs ?ts seen w1] show ?thesis
    proof
      assume "\<exists>seen' w'. fold (visitConsumer (relatedCallback env l inputs)) ?ts (seen, w1, False, False) = (seen', w', True, True) \<and>
        (\<exists>t\<in>set ?ts. created l t \<inter> set inputs \<noteq> {})"
      then obtain seen' w' t k' where r: "fold (visitConsumer (relatedCallback env l inputs)) ?ts (seen, w1, False, False) = (seen', w', True, True)"
        and t: "t \<in> set ?ts" "k' \<in> created l t" "k' \<in> set inputs" by blast
      have "leads_to l k k'" using t ts unfolding leads_to_def by blast
      with k0 have "(leads_to l)\<^sup>+\<^sup>+ k0 k'" by (simp add: rtranclp_into_tranclp1)
      moreover have "cone_loop env (\<lambda>_. CachedConsumers env l) (relatedCallback env l inputs) (seen, w, False, False) = Some True"
        by (subst cone_loop.simps) (simp add: nx r, subst cone_loop.simps, simp)
      ultimately show ?thesis using k0(1) t(3) by auto
    next
      assume "\<exists>ks. fold (visitConsumer (relatedCallback env l inputs)) ?ts (seen, w1, False, False) =
          (set ?ts \<union> seen, fold (\<lambda>k w. pushSetWalk env w k) ks w1, False, False) \<and>
        set ks = (\<Union>t\<in>set ?ts - seen. created l t) \<and> (\<forall>t\<in>set ?ts - seen. created l t \<inter> set inputs = {})"
      then obtain ks where r: "fold (visitConsumer (relatedCallback env l inputs)) ?ts (seen, w1, False, False) =
          (set ?ts \<union> seen, fold (\<lambda>k w. pushSetWalk env w k) ks w1, False, False)"
        and ks: "set ks = (\<Union>t\<in>set ?ts - seen. created l t)" and no: "\<forall>t\<in>set ?ts - seen. created l t \<inter> set inputs = {}" by blast
      let ?w = "fold (\<lambda>k w. pushSetWalk env w k) ks w1"
      have P: "spushed ?w = set ks \<union> spushed w" by (simp add: sets.pushed_fold cov1(2))
      have "set ks \<subseteq> U" using ks fin(3) by blast
      then have "budget spending spushed U ?w \<le> budget spending spushed U w1" by (rule sets.budget_fold [OF fin(2)])
      then have smaller: "budget spending spushed U ?w < budget spending spushed U w"
        using sets.budget_next [OF nx] by (rule le_less_trans)
      have "leads_to l k k'" if "k' \<in> set ks" for k' using that ks ts by (auto simp: leads_to_def)
      then have up: "spushed ?w \<subseteq> {k. \<exists>k0\<in>R. (leads_to l)\<^sup>*\<^sup>* k0 k}"
        using less.prems(2) k0 unfolding P by (auto intro: rtranclp.rtrancl_into_rtrancl)
      have V: "\<forall>k'\<in>insert k V. fst ` set (consumerStorage l k') \<subseteq> set ?ts \<union> seen" using less.prems(5) ts by blast
      have seen: "\<forall>t\<in>set ?ts \<union> seen. created l t \<subseteq> spushed ?w \<and> created l t \<inter> set inputs = {}"
        using less.prems(6) no ks unfolding P by blast
      have sub: "R \<subseteq> spushed ?w" "insert k V \<subseteq> spushed ?w" using less.prems(1,4) cov1(3) unfolding P by auto
      have "cone_loop env (\<lambda>_. CachedConsumers env l) (relatedCallback env l inputs) (set ?ts \<union> seen, ?w, False, False) =
          Some (\<exists>k0\<in>R. \<exists>k\<in>set inputs. (leads_to l)\<^sup>+\<^sup>+ k0 k)"
        by (rule less.hyps [OF smaller sub(1) up sets.covers_fold [OF cov1(1)] sub(2) V seen])
      then show ?thesis by (subst cone_loop.simps) (simp add: nx r)
    qed
  qed
qed

lemma outputsCausallyRelated_eq:
  assumes dom: "finite (dom (transactionMetadataStorage l))"
    and ids: "\<And>t m. transactionMetadataStorage l t = Some m \<Longrightarrow> finite (tx_OutputIDs m)"
  shows "outputsCausallyRelated env l inputs =
    Some (\<exists>k0\<in>set inputs. \<exists>k\<in>set inputs. (\<exists>m. outputMetadataStorage l k0 = Some m \<and> IsSpent (emptyTx env) m) \<and>
      (leads_to l)\<^sup>+\<^sup>+ k0 k)"
proof -
  define R where "R = set (filter (\<lambda>k. case outputMetadataStorage l k of Some m \<Rightarrow> IsSpent (emptyTx env) m | None \<Rightarrow> False) inputs)"
  have R: "R = {k \<in> set inputs. \<exists>m. outputMetadataStorage l k = Some m \<and> IsSpent (emptyTx env) m}"
    by (auto simp: R_def split: option.splits)
  have fin: "finite R" by (simp add: R_def)
  define U where "U = (\<Union>t\<in>dom (transactionMetadataStorage l).
      case transactionMetadataStorage l t of Some m \<Rightarrow> tx_OutputIDs m | None \<Rightarrow> {})"
  have finU: "finite U" unfolding U_def using dom ids by (auto split: option.split)
  have finC: "finite (created l t)" for t using ids by (auto simp: created_def split: option.split)
  have U: "created l t \<subseteq> U" for t by (auto simp: U_def created_def split: option.splits if_splits)
  have P: "spushed (pushOutputs env R (newSetWalk env)) = R"
    by (simp add: pushOutputs_pushed [OF fin] sets.pushed_new)
  have cov: "walk_covers spending spushed {} (pushOutputs env R (newSetWalk env))"
    unfolding pushOutputs_def by (rule sets.covers_fold [OF sets.covers_new])
  have "cone_loop env (\<lambda>_. CachedConsumers env l) (relatedCallback env l inputs)
      ({}, pushOutputs env R (newSetWalk env), False, False) = Some (\<exists>k0\<in>R. \<exists>k\<in>set inputs. (leads_to l)\<^sup>+\<^sup>+ k0 k)"
    by (rule related_loop [OF finC finU U _ _ cov]) (auto simp: P)
  then have "outputsCausallyRelated env l inputs = Some (\<exists>k0\<in>R. \<exists>k\<in>set inputs. (leads_to l)\<^sup>+\<^sup>+ k0 k)"
    unfolding outputsCausallyRelated_def Let_def R_def [symmetric] WalkConsumingTransactionID_def by auto
  then show ?thesis unfolding R by auto
qed

text \<open>As no transaction lists an output, the check never finds related outputs.\<close>

lemma outputsCausallyRelated_False:
  assumes inv: "ledger_inv env creator X l"
  shows "outputsCausallyRelated env l inputs = Some False"
proof -
  have ids: "tx_OutputIDs m = {}" if "transactionMetadataStorage l t = Some m" for t m
    using ledger_invD(4) [OF inv that] by (simp add: tx_ok_def)
  then have "\<not> leads_to l k k'" for k k' by (auto simp: leads_to_def created_def split: option.splits)
  then have "\<not> (leads_to l)\<^sup>+\<^sup>+ k k'" for k k' by (meson tranclpD)
  then show ?thesis using outputsCausallyRelated_eq [of l inputs] ledger_invD(3) [OF inv] ids by auto
qed

end

end
