(* ===== verification/BookFrame.thy ===== *)
theory BookFrame
  imports RelatedLaws
begin

text \<open>
  How far booking a transaction reaches: forking changes the metadata of the forked transactions, and neither
  their outputs nor the transactions that consume these.
\<close>

definition no_outputs :: "('c, 'r, 's, 't, 'o, 'n, 'e) ledger \<Rightarrow> bool" where
  "no_outputs l \<longleftrightarrow> (\<forall>t m. transactionMetadataStorage l t = Some m \<longrightarrow> tx_OutputIDs m = {})"

text \<open>Only the metadata of the transactions in F changes, and no conflict identifiers of an output that is stored.\<close>

definition reaches_only ::
    "'c set \<Rightarrow> ('c, 'r, 's, 't, 'o, 'n, 'e) ledger \<Rightarrow> ('c, 'r, 's, 't, 'o, 'n, 'e) ledger \<Rightarrow> bool" where
  "reaches_only F l l' \<longleftrightarrow>
     (\<forall>k m. outputMetadataStorage l k = Some m \<longrightarrow>
        (\<exists>m'. outputMetadataStorage l' k = Some m' \<and> out_ConflictIDs m' = out_ConflictIDs m)) \<and>
     (\<forall>s. s \<notin> F \<longrightarrow> transactionMetadataStorage l' s = transactionMetadataStorage l s)"

lemma reaches_only_refl [simp]: "reaches_only F l l"
  by (simp add: reaches_only_def)

lemma reaches_only_trans: "reaches_only F l l1 \<Longrightarrow> reaches_only G l1 l2 \<Longrightarrow> reaches_only (F \<union> G) l l2"
  unfolding reaches_only_def by (metis UnI1 UnI2)

lemma reaches_only_mono: "reaches_only F l l' \<Longrightarrow> F \<subseteq> G \<Longrightarrow> reaches_only G l l'"
  unfolding reaches_only_def by blast

lemma reaches_only_same:
  "outputMetadataStorage l1 = outputMetadataStorage l \<Longrightarrow>
   (\<And>s. s \<notin> F \<Longrightarrow> transactionMetadataStorage l1 s = transactionMetadataStorage l s) \<Longrightarrow> reaches_only F l l1"
  by (simp add: reaches_only_def)

lemma onDAG_same:
  "outputMetadataStorage (fst (onDAG f l)) = outputMetadataStorage l"
  "transactionMetadataStorage (fst (onDAG f l)) = transactionMetadataStorage l"
  by (simp_all add: onDAG_def split: prod.split)

lemma updateTx_SetConflictIDs:
  "outputMetadataStorage (fst (updateTx t (Tx_SetConflictIDs C) l)) = outputMetadataStorage l"
  "s \<noteq> t \<Longrightarrow> transactionMetadataStorage (fst (updateTx t (Tx_SetConflictIDs C) l)) s = transactionMetadataStorage l s"
  "no_outputs l \<Longrightarrow> no_outputs (fst (updateTx t (Tx_SetConflictIDs C) l))"
  by (auto simp: updateTx_def Tx_SetConflictIDs_def no_outputs_def split: option.splits if_splits)

context ledger_storage
begin

lemma resourceElems_empty: "resourceElems env {} = []"
  using enumeratesD [OF resource_elems, of "{}"] by simp

lemma updateConflictsAfterFork_frame:
  assumes "no_outputs l" and "tx_OutputIDs m = {}"
  shows "reaches_only {t} l (fst (updateConflictsAfterFork env i P t m l)) \<and>
    no_outputs (fst (updateConflictsAfterFork env i P t m l))"
proof -
  let ?C = "UnconfirmedConflicts env (mergeToMaster env) (ConflictDAG l) (insert i (tx_ConflictIDs m - P))"
  let ?l = "fst (updateTx t (Tx_SetConflictIDs ?C) l)"
  have "reaches_only {t} l ?l" by (rule reaches_only_same) (simp_all add: updateTx_SetConflictIDs)
  then have "reaches_only {t} l (trigger ev ?l)" for ev by (simp add: reaches_only_def trigger_def)
  moreover have "no_outputs (trigger ev ?l)" for ev
    using updateTx_SetConflictIDs(3) [OF assms(1)] by (simp add: no_outputs_def trigger_def)
  moreover have "reaches_only {t} l (fst (onDAG f l)) \<and> no_outputs (fst (onDAG f l))" for f
    using assms(1) by (simp add: reaches_only_def no_outputs_def onDAG_same)
  ultimately show ?thesis
    using assms by (simp add: updateConflictsAfterFork_def Let_def resourceElems_empty)
qed

lemma forkTransaction_frame:
  assumes none: "no_outputs l" and run: "forkTransaction env t spent l = Some l'"
  shows "reaches_only {t} l l' \<and> no_outputs l'"
proof (cases "transactionStorage l t")
  case None
  then show ?thesis using assms by (simp add: forkTransaction_def)
next
  case (Some tx)
  note tx = this
  show ?thesis
  proof (cases "transactionMetadataStorage l t")
    case None
    then show ?thesis using assms tx by (simp add: forkTransaction_def)
  next
    case (Some m)
    have m: "tx_OutputIDs m = {}" using none Some by (simp add: no_outputs_def)
    let ?R = "ResolveInputs env (Transaction_Inputs env tx) \<inter> spent"
    obtain l1 created where c: "onDAG (CreateConflict env t (tx_ConflictIDs m) ?R) l = (l1, created)" by fastforce
    have l1: "outputMetadataStorage l1 = outputMetadataStorage l" "transactionMetadataStorage l1 = transactionMetadataStorage l"
      using onDAG_same [of "CreateConflict env t (tx_ConflictIDs m) ?R" l] by (simp_all add: c)
    show ?thesis
    proof (cases created)
      case False
      then have "l' = fst (onDAG (UpdateConflictingResources env t ?R) l1)"
        using run by (simp add: forkTransaction_def tx Some c)
      then show ?thesis using none by (auto simp: onDAG_same l1 no_outputs_def intro!: reaches_only_same)
    next
      case True
      let ?l2 = "trigger (TransactionForked t (tx_ConflictIDs m)) l1"
      have l': "l' = fst (updateConflictsAfterFork env t (tx_ConflictIDs m) t m ?l2)"
        using run True by (simp add: forkTransaction_def tx Some c m propagateForkedConflictToFutureCone_def Let_def
            WalkConsumingTransactionMetadata_def WalkConsumingTransactionID_def)
      have l2: "no_outputs ?l2" "reaches_only {t} l ?l2"
        using none by (auto simp: no_outputs_def trigger_def l1 intro!: reaches_only_same)
      from updateConflictsAfterFork_frame [OF l2(1) m, of t t "tx_ConflictIDs m"] reaches_only_trans [OF l2(2)] show ?thesis
        unfolding l' by fastforce
    qed
  qed
qed

lemma forkEach_frame:
  "no_outputs l \<Longrightarrow> forkEach env spent ts l = Some l' \<Longrightarrow> reaches_only (set ts) l l' \<and> no_outputs l'"
proof (induction ts arbitrary: l)
  case (Cons t ts)
  obtain l1 where l1: "forkTransaction env t spent l = Some l1" "forkEach env spent ts l1 = Some l'"
    using Cons.prems(2) by (auto simp: bind_eq_Some_conv)
  note f1 = forkTransaction_frame [OF Cons.prems(1) l1(1)]
  show ?case using Cons.IH [OF _ l1(2)] f1 reaches_only_trans [of "{t}" l l1 "set ts" l'] by simp
qed simp

lemma inheritConflictIDs_frame:
  assumes inv: "ledger_inv env creator {} l" and d: "distinct inputs"
    and run: "inheritConflictIDs env t inputs l = Some (l', cs)"
  shows "reaches_only {s. s \<in> booked l \<and> (\<exists>k\<in>set inputs. spends env l s k)} l l' \<and> no_outputs l'"
proof -
  let ?e = "emptyTx env" and ?S = "{s. s \<in> booked l \<and> (\<exists>k\<in>set inputs. spends env l s k)}"
  define l1 where "l1 = l\<lparr>outputMetadataStorage := register ?e t (set inputs) (outputMetadataStorage l)\<rparr>"
  define C where "C = spent_inputs ?e (set inputs) (outputMetadataStorage l)"
  define F where "F = consumers_of_spent ?e (set inputs) (outputMetadataStorage l)"
  have det: "determineConflictDetails env t inputs l = (l1, C, F)"
    unfolding l1_def C_def F_def by (rule determineConflictDetails_eq [OF d inv])
  have none: "no_outputs l" using ledger_invD(4) [OF inv] by (auto simp: no_outputs_def tx_ok_def)
  have "reaches_only {} l l1" by (auto simp: reaches_only_def l1_def register_def)
  then have r1: "reaches_only {} l l1" "no_outputs l1" using none by (simp_all add: no_outputs_def l1_def)
  have FS: "F \<subseteq> ?S" using ledger_invD(7) [OF inv] by (auto simp: F_def consumers_of_spent_def out_ok_def)
  have "F \<subseteq> (\<lambda>k. out_FirstConsumer (the (outputMetadataStorage l k))) ` set inputs"
    by (force simp: F_def consumers_of_spent_def)
  then have "finite F" by (rule finite_subset) simp
  then have F: "set (conflictElems env F) = F" using enumeratesD [OF conflict_elems] by blast
  show ?thesis
  proof (cases "C = {}")
    case True
    then have "l' = l1" using run by (simp add: inheritConflictIDs_def det)
    then show ?thesis using r1 reaches_only_mono [OF r1(1), of ?S] by simp
  next
    case False
    let ?P = "UnconfirmedConflicts env (mergeToMaster env) (ConflictDAG l)
      (\<Union>k\<in>set inputs. case outputMetadataStorage l k of Some m \<Rightarrow> out_ConflictIDs m | None \<Rightarrow> {})"
    let ?l2 = "fst (onDAG (CreateConflict env t ?P C) l1)"
    have fork: "forkEach env C (conflictElems env F) ?l2 = Some l'"
      using run False by (auto simp: inheritConflictIDs_def det)
    have r2: "reaches_only {} l1 ?l2" "no_outputs ?l2"
      using r1(2) by (auto simp: onDAG_same no_outputs_def intro!: reaches_only_same)
    note f = forkEach_frame [OF r2(2) fork, unfolded F]
    have "reaches_only ({} \<union> {} \<union> F) l l'"
      by (rule reaches_only_trans [OF reaches_only_trans [OF r1(1) r2(1)] conjunct1 [OF f]])
    then show ?thesis using f reaches_only_mono [OF _ FS] by simp
  qed
qed

text \<open>Booking changes the transaction itself and the booked ones that share an input with it.\<close>

lemma bookTransaction_frame:
  assumes inv: "ledger_inv env creator {} l"
    and m: "transactionMetadataStorage l t = Some m" "\<not> tx_Booked m" and tx: "Transaction_ID env tx = t"
    and d: "distinct inputs" and outs: "\<And>out. out \<in> set outs \<Longrightarrow> creator (Output_Identifier env out) = t"
    and run: "bookTransaction env tx inputs consumers outs l = Some l'"
  shows "reaches_only ({s. s \<in> booked l \<and> (\<exists>k\<in>set inputs. spends env l s k)} \<union> {t}) l l'"
proof -
  obtain l1 cs where inh: "inheritConflictIDs env t inputs l = Some (l1, cs)"
    using run by (auto simp: bookTransaction_def tx Let_def bind_eq_Some_conv)
  have upd: "outputMetadataStorage (fst (updateTx t f x)) = outputMetadataStorage x"
    "s \<noteq> t \<Longrightarrow> transactionMetadataStorage (fst (updateTx t f x)) s = transactionMetadataStorage x s"
    for f s and x :: "('c, 'r, 's, 't, 'o, 'n, 'e) ledger"
    by (simp_all add: updateTx_def split: option.split prod.split)
  let ?ids = "Output_Identifier env ` set outs"
  have new: "k \<notin> ?ids" if k: "outputMetadataStorage l k = Some om" for k om
  proof
    assume "k \<in> ?ids"
    then have "creator k = t" using outs by auto
    moreover have "t \<in> dom (transactionMetadataStorage l)" using m(1) by auto
    ultimately have "t \<in> booked l" using ledger_invD(7) [OF inv k] by (simp add: out_ok_def)
    then show False using m by (simp add: booked_def)
  qed
  have meta: "transactionMetadataStorage l' s = transactionMetadataStorage l1 s" if "s \<noteq> t" for s
    using run that by (auto simp: bookTransaction_def tx Let_def inh outputs_IDs_empty trigger_def setConsumersBooked_same
        storeOutputs_same upd split: prod.splits)
  have old: "outputMetadataStorage l' k = outputMetadataStorage l1 k" if "k \<notin> ?ids" for k
    using run that by (auto simp: bookTransaction_def tx Let_def inh outputs_IDs_empty trigger_def setConsumersBooked_same
        storeOutputs_meta upd split: prod.splits)
  have "reaches_only {s. s \<in> booked l \<and> (\<exists>k\<in>set inputs. spends env l s k)} l l1"
    using inheritConflictIDs_frame [OF inv d inh] by blast
  then show ?thesis unfolding reaches_only_def using meta old new by auto
qed

end

end
