(* ===== verification/LedgerFlow.thy ===== *)
theory LedgerFlow
  imports BookFrame
begin

text \<open>
  The data flows return and keep the invariant of the ledger, and so do the other operations; the runs of
  the ledger.
\<close>

lemma ledger_inv_cong:
  assumes "transactionStorage l' = transactionStorage l" and "transactionMetadataStorage l' = transactionMetadataStorage l"
    and "outputMetadataStorage l' = outputMetadataStorage l" and "ConflictDAG l' = ConflictDAG l"
  shows "ledger_inv env creator X l' \<longleftrightarrow> ledger_inv env creator X l"
  using assms by (simp add: ledger_inv_def booked_def tx_ok_def out_ok_def spends_def spend_ok_def)

text \<open>
  What a flow of the ledger guarantees: it returns, keeps the invariant, and forgets nothing that is booked.
  It books at most the transaction t that it works on, and reaches only the booked transactions that share an input
  with t.  A quiet one, which has not been given the consumers, leaves these as they are.
\<close>

definition sharing ::
    "('c, 'r, 's, 'w, 'v, 't, 'i, 'o, 'n, 'e, 'z) ledger_env_scheme \<Rightarrow> ('c, 'r, 's, 't, 'o, 'n, 'e) ledger \<Rightarrow> 'c \<Rightarrow> 'c set" where
  "sharing env l t = insert t {s. s \<in> booked l \<and> (\<exists>k. spends env l s k \<and> spends env l t k)}"

definition flow_result ::
    "('c, 'r, 's, 'w, 'v, 't, 'i, 'o, 'n, 'e, 'z) ledger_env_scheme \<Rightarrow> ('r \<Rightarrow> 'c) \<Rightarrow> bool \<Rightarrow> 'c \<Rightarrow> ('c, 'r, 's, 't, 'o, 'n, 'e) ledger \<Rightarrow>
     ('e ledger_error option \<times> ('c, 'r, 's, 't, 'o, 'n, 'e) ledger) option \<Rightarrow> bool" where
  "flow_result env creator quiet t l r \<longleftrightarrow> (\<exists>err l'. r = Some (err, l') \<and> ledger_inv env creator {} l' \<and> booked l \<subseteq> booked l' \<and>
     dag_grows env (ConflictDAG l) (ConflictDAG l') \<and> transactionStorage l' = transactionStorage l \<and>
     (quiet \<longrightarrow> consumerStorage l' = consumerStorage l) \<and> booked l' \<subseteq> insert t (booked l) \<and> reaches_only (sharing env l t) l l')"

lemma flow_result_same: "ledger_inv env creator {} l \<Longrightarrow> flow_result env creator quiet t l (Some (err, l))"
  by (auto simp: flow_result_def)

lemma flow_result_abort: "ledger_inv env creator {} l \<Longrightarrow> flow_result env creator quiet t l (abortFlow err l)"
  by (simp add: abortFlow_def flow_result_same)

lemma handleError_same:
  "transactionStorage (handleError env e p l) = transactionStorage l"
  "transactionMetadataStorage (handleError env e p l) = transactionMetadataStorage l"
  "outputMetadataStorage (handleError env e p l) = outputMetadataStorage l"
  "ConflictDAG (handleError env e p l) = ConflictDAG l"
  "consumerStorage (handleError env e p l) = consumerStorage l"
  by (simp_all add: handleError_def trigger_def split: ledger_error.split)

lemma on_error_None: "on_error None p r = r"
  by (cases r) (auto simp: on_error_def split: option.split)

lemma flow_result_error:
  assumes "flow_result env creator quiet t l r"
  shows "flow_result env creator quiet t l (on_error (Some (handleError env)) p r)"
proof -
  obtain err l' where r: "r = Some (err, l')" and res: "ledger_inv env creator {} l'" "booked l \<subseteq> booked l'"
    "dag_grows env (ConflictDAG l) (ConflictDAG l')" "transactionStorage l' = transactionStorage l"
    "quiet \<longrightarrow> consumerStorage l' = consumerStorage l" "booked l' \<subseteq> insert t (booked l)" "reaches_only (sharing env l t) l l'"
    using assms unfolding flow_result_def by blast
  show ?thesis
  proof (cases err)
    case None
    then show ?thesis using assms r by (simp add: on_error_def)
  next
    case (Some e)
    let ?l = "handleError env e p l'"
    have "ledger_inv env creator {} ?l" using ledger_inv_cong [of ?l l' env creator "{}"] res(1) by (simp add: handleError_same)
    moreover have "on_error (Some (handleError env)) p r = Some (err, ?l)" by (simp add: r Some on_error_def)
    moreover have "booked l \<subseteq> booked ?l" "dag_grows env (ConflictDAG l) (ConflictDAG ?l)" "transactionStorage ?l = transactionStorage l"
      "quiet \<longrightarrow> consumerStorage ?l = consumerStorage l" "booked ?l \<subseteq> insert t (booked l)" "reaches_only (sharing env l t) l ?l"
      using res by (simp_all add: booked_def reaches_only_def handleError_same)
    ultimately show ?thesis unfolding flow_result_def by (intro exI [of _ err] exI [of _ ?l] conjI)
  qed
qed

lemma card_image_all:
  assumes "card (f ` set (filter P xs)) = length xs"
  shows "filter P xs = xs"
proof -
  have "card (f ` set (filter P xs)) \<le> card (set (filter P xs))" by (rule card_image_le) simp
  also have "\<dots> \<le> length (filter P xs)" by (rule card_length)
  finally have "\<not> length (filter P xs) < length xs" using assms by simp
  then have "P x" if "x \<in> set xs" for x using length_filter_less [of x xs P] that by argo
  then show ?thesis by (simp add: filter_id_conv)
qed

context ledger_storage
begin

lemma ResolveInputs_elems:
  "set (resourceElems env (ResolveInputs env inputs)) = ResolveInputs env inputs"
  "distinct (resourceElems env (ResolveInputs env inputs))"
proof -
  have "finite (ResolveInputs env inputs)" by (simp add: ResolveInputs_def)
  then show "set (resourceElems env (ResolveInputs env inputs)) = ResolveInputs env inputs"
    "distinct (resourceElems env (ResolveInputs env inputs))"
    using resource_elems by (auto simp: enumerates_def)
qed

text \<open>Checking and booking a transaction that is stored and not booked.\<close>

lemma check_and_book:
  fixes p :: "('r, 't, 'o) dataFlowParams"
  assumes inv: "ledger_inv env creator {} l"
    and tx: "transactionStorage l t = Some tx" "Transaction_ID env tx = t" and m: "transactionMetadataStorage l t = Some m" "\<not> tx_Booked m"
    and p: "par_Transaction p = tx" "par_InputIDs p \<in> {{}, ResolveInputs env (Transaction_Inputs env tx)}"
    and quiet: "quiet \<Longrightarrow> par_Consumers p = []"
  shows "flow_result env creator quiet t l (chain (checkTransactionFlow env) (chain [bookTransactionCommand env] (\<lambda>_ l. Some (None, l))) p l)"
proof -
  let ?ids = "ResolveInputs env (Transaction_Inputs env tx)"
  let ?elems = "resourceElems env ?ids"
  let ?final = "chain [bookTransactionCommand env] (\<lambda>_ l. Some (None, l))"
  have ids: "(if par_InputIDs p = {} then ?ids else par_InputIDs p) = ?ids" using p(2) by auto
  define ins where "ins = map the (filter (\<lambda>x. x \<noteq> None) (map (outputStorage l) ?elems))"
  define p1 where "p1 = p\<lparr>par_InputIDs := ?ids, par_Inputs := ins\<rparr>"
  define present where "present = filter (\<lambda>k. outputMetadataStorage l k \<noteq> None) ?elems"
  define p2 where "p2 = p1\<lparr>par_InputsMetadata := present\<rparr>"
  have run1: "chain (checkTransactionFlow env) ?final p l =
      (if card (Output_Identifier env ` set ins) \<noteq> length ?elems then abortFlow ErrTransactionUnsolid l
       else checkOutputsCausallyRelatedCommand env p1 (\<lambda>p. checkTransactionExecutionCommand env p ?final) l)"
    by (simp only: checkTransactionFlow_def chain_Cons chain_Nil checkSolidityCommand_def p(1) Let_def ids length_map ins_def p1_def)
  have par1: "par_InputIDs p1 = ?ids" by (simp add: p1_def)
  have run2: "checkOutputsCausallyRelatedCommand env p1 (\<lambda>p. checkTransactionExecutionCommand env p ?final) l =
      (if card ((\<lambda>k. out_ID (the (outputMetadataStorage l k))) ` set present) \<noteq> length ?elems then abortFlow ErrFatal l
       else Option.bind (outputsCausallyRelated env l present)
         (\<lambda>related. if related then abortFlow (ErrTransactionInvalid None) l
                     else checkTransactionExecutionCommand env p2 ?final l))"
    by (simp only: checkOutputsCausallyRelatedCommand_def Let_def par1 present_def p2_def)
  show ?thesis
  proof (cases "card (Output_Identifier env ` set ins) \<noteq> length ?elems \<or>
      card ((\<lambda>k. out_ID (the (outputMetadataStorage l k))) ` set present) \<noteq> length ?elems")
    case True
    then show ?thesis using flow_result_abort [OF inv] unfolding run1 run2 by auto
  next
    case False
    then have all: "present = ?elems" unfolding present_def using card_image_all by blast
    have exec: "flow_result env creator quiet t l (checkTransactionExecutionCommand env p2 ?final l)"
    proof (cases "ExecuteTransaction env tx ins")
      case (Inl e)
      then show ?thesis using flow_result_abort [OF inv] p(1)
        by (simp add: checkTransactionExecutionCommand_def p2_def p1_def)
    next
      case (Inr outs)
      have inputs: "distinct present" "set present = ?ids" "\<And>k. k \<in> set present \<Longrightarrow> outputMetadataStorage l k \<noteq> None"
      proof -
        show "distinct present" "set present = ?ids" unfolding all by (rule ResolveInputs_elems)+
        show "outputMetadataStorage l k \<noteq> None" if "k \<in> set present" for k using that by (simp add: present_def)
      qed
      obtain l' where l': "bookTransaction env tx present (par_Consumers p) outs l = Some l'" "ledger_inv env creator {} l'"
        "booked l' = insert t (booked l)" "transactionStorage l' = transactionStorage l"
        "dag_grows env (ConflictDAG l) (ConflictDAG l')" "par_Consumers p = [] \<longrightarrow> consumerStorage l' = consumerStorage l"
        using bookTransaction_result [OF inv tx m inputs, of outs "par_Consumers p"] outputs_created [OF Inr] tx(2) by blast
      have reach0: "reaches_only ({s. s \<in> booked l \<and> (\<exists>k\<in>set present. spends env l s k)} \<union> {t}) l l'"
        by (rule bookTransaction_frame [OF inv m tx(2) inputs(1) _ l'(1)]) (use outputs_created [OF Inr] tx(2) in simp)
      have "spends env l t k \<longleftrightarrow> k \<in> set present" for k using inputs(2) tx(1) by (simp add: spends_def)
      then have reach: "reaches_only (sharing env l t) l l'"
        by (intro reaches_only_mono [OF reach0]) (auto simp: sharing_def)
      have "checkTransactionExecutionCommand env p2 ?final l = Some (None, l')"
        using p(1) Inr l'(1) by (simp add: checkTransactionExecutionCommand_def bookTransactionCommand_def p2_def p1_def)
      then show ?thesis unfolding flow_result_def using l' quiet reach by blast
    qed
    then show ?thesis
      using False flow_result_abort [OF inv] unfolding run1 run2 outputsCausallyRelated_False [OF inv] by simp
  qed
qed

lemma processTransaction_result:
  fixes p :: "('r, 't, 'o) dataFlowParams"
  assumes flow: "data_flow flow" and inv: "ledger_inv env creator {} l" and tx: "transactionStorage l t = Some tx" "Transaction_ID env tx = t"
    and p: "par_Transaction p = tx" "par_InputIDs p \<in> {{}, ResolveInputs env (Transaction_Inputs env tx)}"
    and quiet: "quiet \<Longrightarrow> par_Consumers p = []"
  shows "flow_result env creator quiet t l (chain (processTransactionFlow flow env) (\<lambda>_ l. Some (None, l)) p l)"
proof (cases "transactionMetadataStorage l t")
  case None
  then show ?thesis using flow_result_abort [OF inv] p(1) tx(2)
    by (simp add: processTransactionFlow_def checkAlreadyBookedCommand_def)
next
  case (Some m)
  let ?p = "p\<lparr>par_HasMetadata := True\<rparr>"
  have run: "chain (processTransactionFlow flow env) (\<lambda>_ l. Some (None, l)) p l =
     (if tx_Booked m then Some (None, l)
      else chain (checkTransactionFlow env) (chain [bookTransactionCommand env] (\<lambda>_ l. Some (None, l))) ?p l)"
    using p(1) tx(2) Some
    by (simp add: processTransactionFlow_def checkAlreadyBookedCommand_def data_flow.chained [OF flow] on_error_None)
  show ?thesis
    using check_and_book [OF inv tx Some, of ?p quiet] p quiet flow_result_same [OF inv] unfolding run by simp
qed

lemma processConsumer_result:
  assumes flow: "data_flow flow" and inv: "ledger_inv env creator {} l" and known: "t \<in> dom (transactionMetadataStorage l)"
  shows "\<exists>l'. processConsumer flow env t l = Some l' \<and> ledger_inv env creator {} l' \<and> booked l \<subseteq> booked l' \<and>
    dag_grows env (ConflictDAG l) (ConflictDAG l') \<and> consumerStorage l' = consumerStorage l"
proof -
  obtain tx where tx: "transactionStorage l t = Some tx" "Transaction_ID env tx = t"
  proof -
    obtain m where "transactionMetadataStorage l t = Some m" using known by auto
    from ledger_invD(4) [OF inv this] show thesis using that by (auto simp: tx_ok_def)
  qed
  have "flow_result env creator True t l (processTransaction flow env tx l)"
    unfolding processTransaction_def data_flow.run [OF flow]
    by (rule flow_result_error, rule processTransaction_result [OF flow inv tx]) (simp_all add: newDataFlowParams_def)
  then obtain err l' where "processTransaction flow env tx l = Some (err, l')" "ledger_inv env creator {} l'" "booked l \<subseteq> booked l'"
    "dag_grows env (ConflictDAG l) (ConflictDAG l')" "consumerStorage l' = consumerStorage l"
    unfolding flow_result_def by blast
  then show ?thesis by (simp add: processConsumer_def tx(1))
qed

lemma initConsumers_same:
  "transactionStorage (initConsumers env ids t l) = transactionStorage l"
  "transactionMetadataStorage (initConsumers env ids t l) = transactionMetadataStorage l"
  "outputMetadataStorage (initConsumers env ids t l) = outputMetadataStorage l"
  "ConflictDAG (initConsumers env ids t l) = ConflictDAG l"
proof -
  have "transactionStorage (fold f ks l) = transactionStorage l \<and> transactionMetadataStorage (fold f ks l) = transactionMetadataStorage l \<and>
      outputMetadataStorage (fold f ks l) = outputMetadataStorage l \<and> ConflictDAG (fold f ks l) = ConflictDAG l"
    if f: "f = (\<lambda>k l. if t \<in> fst ` set (consumerStorage l k) then l
                 else l\<lparr>consumerStorage := (consumerStorage l)(k := consumerStorage l k @ [(t, False)])\<rparr>)" for f ks
    by (induction ks arbitrary: l) (simp_all add: f)
  then show "transactionStorage (initConsumers env ids t l) = transactionStorage l"
    "transactionMetadataStorage (initConsumers env ids t l) = transactionMetadataStorage l"
    "outputMetadataStorage (initConsumers env ids t l) = outputMetadataStorage l"
    "ConflictDAG (initConsumers env ids t l) = ConflictDAG l"
    by (simp_all add: initConsumers_def)
qed

text \<open>A new transaction is stored without touching what is there.\<close>

lemma store_inv:
  assumes inv: "ledger_inv env creator {} l" and t: "transactionMetadataStorage l t = None" "t \<noteq> emptyTx env" "Transaction_ID env tx = t"
    and fresh: "\<And>k. k \<in> dom (outputMetadataStorage l) \<Longrightarrow> creator k \<noteq> t"
    and l': "transactionStorage l' = (transactionStorage l)(t \<mapsto> tx)" "outputMetadataStorage l' = outputMetadataStorage l"
      "transactionMetadataStorage l' = (transactionMetadataStorage l)(t \<mapsto> NewTransactionMetadata t)" "ConflictDAG l' = ConflictDAG l"
  shows "ledger_inv env creator {} l'" and "booked l' = booked l"
proof -
  have t_new: "t \<notin> booked l" using t(1) by (simp add: booked_def)
  show booked: "booked l' = booked l" using t(1) by (auto simp: booked_def l'(3) NewTransactionMetadata_def)
  have same: "spends env l' s k \<longleftrightarrow> spends env l s k" if "s \<in> booked l" for s k
    using that t_new by (auto simp: spends_def l'(1))
  have tx: "tx_ok env l' s n \<and> tx_ConflictIDs n \<subseteq> stored env (ConflictDAG l')" if n: "transactionMetadataStorage l' s = Some n" for s n
  proof (cases "s = t")
    case True
    then show ?thesis using n t by (auto simp: l' tx_ok_def NewTransactionMetadata_def)
  next
    case False
    then show ?thesis using n ledger_invD(4,5) [OF inv, of s n] by (simp add: tx_ok_def l')
  qed
  have out: "out_ID om = k \<and> out_ok env creator {} l' k (out_FirstConsumer om) (out_FirstConsumerForked om) \<and>
      out_ConflictIDs om \<subseteq> stored env (ConflictDAG l')" if om: "outputMetadataStorage l' k = Some om" for k om
  proof -
    have om': "outputMetadataStorage l k = Some om" using om by (simp add: l')
    have "creator k \<noteq> t" using fresh om' by blast
    with ledger_invD(6,7,8) [OF inv om'] same show ?thesis by (auto simp: out_ok_def booked l' split: if_splits)
  qed
  have "spend_ok env l' s k" if "s \<in> booked l'" "spends env l' s k" for s k
    using that ledger_invD(9) [OF inv, of s k] same by (simp add: booked spend_ok_def l')
  moreover have "finite (dom (transactionMetadataStorage l'))" using ledger_invD(3) [OF inv] by (simp add: l')
  ultimately show "ledger_inv env creator {} l'"
    using tx out ledger_invD(1,2) [OF inv] unfolding ledger_inv_def booked l'(4) by blast
qed

lemma StoreAndProcessTransaction_result:
  assumes flow: "data_flow flow" and inv: "ledger_inv env creator {} l" and t: "Transaction_ID env tx = t" "t \<noteq> emptyTx env"
    and fresh: "\<And>k. t \<notin> dom (transactionMetadataStorage l) \<Longrightarrow> k \<in> dom (outputMetadataStorage l) \<Longrightarrow> creator k \<noteq> t"
  shows "\<exists>err l'. StoreAndProcessTransaction flow env tx l = Some (err, l') \<and> ledger_inv env creator {} l' \<and>
    booked l \<subseteq> booked l' \<and> dag_grows env (ConflictDAG l) (ConflictDAG l') \<and>
    (t \<in> dom (transactionMetadataStorage l) \<longrightarrow> err = (if t \<in> booked l then None else Some ErrTransactionUnsolid) \<and> l' = l) \<and>
    booked l' \<subseteq> insert t (booked l) \<and>
    reaches_only (insert t {s. s \<in> booked l \<and> (\<exists>k\<in>ResolveInputs env (Transaction_Inputs env tx). spends env l s k)}) l l'"
proof (cases "transactionMetadataStorage l t")
  case (Some m)
  then have "StoreAndProcessTransaction flow env tx l = (if tx_Booked m then Some (None, l) else abortFlow ErrTransactionUnsolid l)"
    by (simp add: StoreAndProcessTransaction_def data_flow.run [OF flow] on_error_None storeAndProcessTransactionFlow_def
        storeTransactionCommand_def newDataFlowParams_def t(1))
  moreover have "t \<in> booked l \<longleftrightarrow> tx_Booked m" using Some by (simp add: booked_def)
  ultimately show ?thesis using inv by (auto simp: abortFlow_def)
next
  case None
  let ?ids = "ResolveInputs env (Transaction_Inputs env tx)"
  define l1 where "l1 = l\<lparr>transactionStorage := (transactionStorage l)(t \<mapsto> tx),
    transactionMetadataStorage := (transactionMetadataStorage l)(t \<mapsto> NewTransactionMetadata t)\<rparr>"
  define l2 where "l2 = trigger (TransactionStored t) (initConsumers env ?ids t l1)"
  define p where "p = (newDataFlowParams tx :: ('r, 't, 'o) dataFlowParams)
    \<lparr>par_HasMetadata := True, par_InputIDs := ?ids, par_Consumers := resourceElems env ?ids\<rparr>"
  have run: "StoreAndProcessTransaction flow env tx l =
      on_error (Some (handleError env)) p (chain (processTransactionFlow flow env) (\<lambda>_ l. Some (None, l)) p l2)"
    by (simp add: StoreAndProcessTransaction_def data_flow.run [OF flow] on_error_None storeAndProcessTransactionFlow_def
        storeTransactionCommand_def newDataFlowParams_def t(1) None Let_def data_flow.chained [OF flow] l1_def l2_def p_def)
  have l2: "transactionStorage l2 = (transactionStorage l)(t \<mapsto> tx)" "outputMetadataStorage l2 = outputMetadataStorage l"
      "transactionMetadataStorage l2 = (transactionMetadataStorage l)(t \<mapsto> NewTransactionMetadata t)" "ConflictDAG l2 = ConflictDAG l"
    by (simp_all add: l2_def l1_def trigger_def initConsumers_same)
  have "t \<notin> dom (transactionMetadataStorage l)" using None by auto
  from store_inv [OF inv None t(2,1) fresh [OF this] l2] have inv2: "ledger_inv env creator {} l2" "booked l2 = booked l" by blast+
  have tx2: "transactionStorage l2 t = Some tx" by (simp add: l2)
  have "flow_result env creator False t l2 (on_error (Some (handleError env)) p (chain (processTransactionFlow flow env) (\<lambda>_ l. Some (None, l)) p l2))"
    by (rule flow_result_error, rule processTransaction_result [OF flow inv2(1) tx2 t(1)]) (simp_all add: p_def newDataFlowParams_def)
  then obtain err l' where res: "StoreAndProcessTransaction flow env tx l = Some (err, l')" "ledger_inv env creator {} l'"
      "booked l \<subseteq> booked l'" "dag_grows env (ConflictDAG l) (ConflictDAG l')" "booked l' \<subseteq> insert t (booked l)"
    and reach: "reaches_only (sharing env l2 t) l2 l'"
    unfolding run [symmetric] flow_result_def inv2(2) l2(4) by blast
  have "sharing env l2 t \<subseteq> insert t {s. s \<in> booked l \<and> (\<exists>k\<in>?ids. spends env l s k)}"
    by (auto simp: sharing_def inv2(2) spends_def l2(1) split: if_splits)
  then have "reaches_only (insert t {s. s \<in> booked l \<and> (\<exists>k\<in>?ids. spends env l s k)}) l2 l'"
    by (rule reaches_only_mono [OF reach])
  then have "reaches_only (insert t {s. s \<in> booked l \<and> (\<exists>k\<in>?ids. spends env l s k)}) l l'"
    unfolding reaches_only_def l2(2,3) by simp
  with res None show ?thesis by auto
qed

end

end
