(* ===== verification/LedgerRuns.thy ===== *)
theory LedgerRuns
  imports LedgerFlow
begin

text \<open>
  Confirmation, pruning and the loading of outputs keep the invariant of the ledger as well, and so
  every run of the ledger does.
\<close>

section \<open>Confirmation\<close>

text \<open>Changing confirmation states and times keeps what the invariant is about.\<close>

lemma keeps_SetConfirmationState:
  assumes "ledger_inv env creator X l"
  shows "ledger_keeps env creator X l (fst (updateTx t (Tx_SetConfirmationState st now) l))"
  by (rule keeps_updateTx [OF assms])
    (use ledger_invD(5) [OF assms] in \<open>auto simp: Tx_SetConfirmationState_def\<close>)

lemma keeps_setOutputStates:
  assumes "ledger_inv env creator X l"
  shows "ledger_keeps env creator X l (setOutputStates env st ks l)"
  unfolding setOutputStates_def
proof (rule keeps_outputs [OF assms])
  fix l' k m assume "ledger_keeps env creator X l l'" and m: "outputMetadataStorage l' k = Some m"
  then have "ledger_inv env creator X l'" by (simp add: ledger_keepsD)
  from ledger_invD(8) [OF this m]
  show "out_ID (fst (Out_SetConfirmationState st (clockTime env (clockReads l')) m)) = out_ID m \<and>
      out_FirstConsumer (fst (Out_SetConfirmationState st (clockTime env (clockReads l')) m)) = out_FirstConsumer m \<and>
      out_FirstConsumerForked (fst (Out_SetConfirmationState st (clockTime env (clockReads l')) m)) = out_FirstConsumerForked m \<and>
      out_ConflictIDs (fst (Out_SetConfirmationState st (clockTime env (clockReads l')) m)) \<subseteq> stored env (ConflictDAG l')"
    by (simp add: Out_SetConfirmationState_def)
qed

lemma keeps_stateEvent:
  assumes inv: "ledger_inv env creator X l"
    and r: "r = (case updateTx t (Tx_SetConfirmationState st now) l of
      (l1, modified) \<Rightarrow> if \<not> modified then (l1, False) else (trigger ev (setOutputStates env st ks l1), True))"
  shows "ledger_keeps env creator X l (fst r)"
proof -
  obtain l1 b where u: "updateTx t (Tx_SetConfirmationState st now) l = (l1, b)" by fastforce
  have k1: "ledger_keeps env creator X l l1" using keeps_SetConfirmationState [OF inv, of t st now] by (simp add: u)
  note k2 = keeps_setOutputStates [OF ledger_keepsD(1) [OF k1], of st ks]
  note k3 = keeps_trigger [OF ledger_keepsD(1) [OF k2], of ev]
  show ?thesis using k1 ledger_keeps_trans [OF ledger_keeps_trans [OF k1 k2] k3] by (simp add: r u)
qed

lemma triggerAcceptedEvent_keeps:
  assumes "ledger_inv env creator X l"
  shows "ledger_keeps env creator X l (fst (triggerAcceptedEvent env t m l))"
  using keeps_stateEvent [OF assms refl] ledger_keeps_refl [OF assms] by (simp add: triggerAcceptedEvent_def)

lemma triggerRejectedEvent_keeps:
  assumes "ledger_inv env creator X l"
  shows "ledger_keeps env creator X l (fst (triggerRejectedEvent env t m l))"
  unfolding triggerRejectedEvent_def by (rule keeps_stateEvent [OF assms refl])

lemma acceptConsumer_keeps:
  assumes "ledger_inv env creator X l"
  shows "ledger_keeps env creator X l (fst (acceptConsumer env t m l))"
  using triggerAcceptedEvent_keeps [OF assms] ledger_keeps_refl [OF assms]
  by (simp add: acceptConsumer_def case_prod_unfold)

context ledger_storage
begin

text \<open>A walk whose callback keeps the ledger and pushes outputs of the transaction.\<close>

lemma walk_keeps:
  assumes inv: "ledger_inv env creator X l" and A: "finite A"
    and step: "\<And>t m x. ledger_inv env creator X x \<Longrightarrow>
      ledger_keeps env creator X x (fst (callback t m x)) \<and> snd (callback t m x) \<subseteq> tx_OutputIDs m"
  shows "\<exists>l'. WalkConsumingTransactionMetadata env A callback l = Some l' \<and> ledger_keeps env creator X l l'"
proof -
  have "\<exists>l'. WalkConsumingTransactionMetadata env A callback l = Some l' \<and> ledger_keeps env creator X l l' \<and>
      (\<forall>k\<in>A. \<forall>t\<in>fst ` set (consumerStorage l k). True)"
  proof (rule WalkConsumingTransactionMetadata_result
      [where I = "ledger_keeps env creator X l" and Q = "\<lambda>_ _. True", OF inv A ledger_keeps_refl [OF inv]])
    fix t m x assume x: "ledger_keeps env creator X l x"
    from step [OF ledger_keepsD(1) [OF x]] ledger_keeps_trans [OF x]
    show "ledger_keeps env creator X l (fst (callback t m x)) \<and> snd (callback t m x) \<subseteq> tx_OutputIDs m \<and> True \<and> (\<forall>t'. True \<longrightarrow> True)"
      by blast
  qed (auto dest: ledger_keepsD(2))
  then show ?thesis by blast
qed

lemma propagateAcceptance_keeps:
  assumes inv: "ledger_inv env creator X l"
  shows "\<exists>l'. propagateAcceptanceToIncludedTransactions env t l = Some l' \<and> ledger_keeps env creator X l l'"
proof (cases "transactionMetadataStorage l t")
  case None
  with inv show ?thesis by (simp add: propagateAcceptanceToIncludedTransactions_def ledger_keeps_refl)
next
  case (Some m)
  obtain l1 b where a: "triggerAcceptedEvent env t m l = (l1, b)" by fastforce
  have k1: "ledger_keeps env creator X l l1" using triggerAcceptedEvent_keeps [OF inv, of t m] by (simp add: a)
  have fin: "finite (tx_OutputIDs m)" using ledger_invD(4) [OF inv Some] by (simp add: tx_ok_def)
  have "\<exists>l'. WalkConsumingTransactionMetadata env (tx_OutputIDs m) (acceptConsumer env) l1 = Some l' \<and>
      ledger_keeps env creator X l1 l'"
    by (rule walk_keeps [OF ledger_keepsD(1) [OF k1] fin], intro conjI acceptConsumer_keeps)
      (auto simp: acceptConsumer_def case_prod_unfold)
  then show ?thesis
    using k1 ledger_keeps_trans [OF k1] by (auto simp: propagateAcceptanceToIncludedTransactions_def Some a)
qed

lemma propagatedRejection_keeps:
  assumes inv: "ledger_inv env creator X l"
  shows "\<exists>l'. propagatedRejectionToTransactions env t l = Some l' \<and> ledger_keeps env creator X l l'"
proof (cases "transactionMetadataStorage l t")
  case None
  with inv show ?thesis by (simp add: propagatedRejectionToTransactions_def ledger_keeps_refl)
next
  case (Some m)
  obtain l1 b where a: "triggerRejectedEvent env t m l = (l1, b)" by fastforce
  have k1: "ledger_keeps env creator X l l1" using triggerRejectedEvent_keeps [OF inv, of t m] by (simp add: a)
  have fin: "finite (tx_OutputIDs m)" using ledger_invD(4) [OF inv Some] by (simp add: tx_ok_def)
  have "\<exists>l'. WalkConsumingTransactionMetadata env (tx_OutputIDs m) (\<lambda>t m l. case triggerRejectedEvent env t m l of
          (l1, rejected) \<Rightarrow> (l1, if rejected then tx_OutputIDs m else {})) l1 = Some l' \<and> ledger_keeps env creator X l1 l'"
    by (rule walk_keeps [OF ledger_keepsD(1) [OF k1] fin]) (simp add: case_prod_unfold triggerRejectedEvent_keeps)
  then show ?thesis
    using k1 ledger_keeps_trans [OF k1] by (auto simp: propagatedRejectionToTransactions_def Some a)
qed

end

lemma SetTransactionInclusionTime_keeps:
  assumes inv: "ledger_inv env creator X l"
  shows "ledger_keeps env creator X l (SetTransactionInclusionTime env t now l)"
proof (cases "transactionMetadataStorage l t")
  case None
  with inv show ?thesis by (simp add: SetTransactionInclusionTime_def ledger_keeps_refl)
next
  case (Some m)
  obtain m1 b old where s: "Tx_SetInclusionTime now m = (m1, b, old)" by (metis prod_cases3)
  have m1: "tx_ID m1 = tx_ID m" "tx_Booked m1 = tx_Booked m" "tx_OutputIDs m1 = tx_OutputIDs m" "tx_ConflictIDs m1 = tx_ConflictIDs m"
    using s by (auto simp: Tx_SetInclusionTime_def split: if_splits)
  let ?l = "l\<lparr>transactionMetadataStorage := (transactionMetadataStorage l)(t \<mapsto> m1)\<rparr>"
  have grow: "ledger_grows env l ?l" using m1 Some by (simp add: ledger_grows_def)
  moreover have "ledger_inv env creator X ?l"
    by (rule ledger_inv_grows [OF inv grow]) (use m1 Some ledger_invD(1,2,5,8) [OF inv] in \<open>auto split: if_splits dest: set_mp\<close>)
  ultimately have k1: "ledger_keeps env creator X l ?l" by (simp add: ledger_keeps_def)
  note k2 = ledger_keeps_trans [OF k1 keeps_trigger [OF ledger_keepsD(1) [OF k1], of "TransactionInclusionUpdated t now old"]]
  note k3 = ledger_keeps_trans [OF k2 triggerAcceptedEvent_keeps [OF ledger_keepsD(1) [OF k2], of t m1]]
  show ?thesis using k2 k3 ledger_keeps_refl [OF inv] by (simp add: SetTransactionInclusionTime_def Some s Let_def)
qed

context ledger_storage
begin

lemma acceptConflict_keeps:
  assumes inv: "ledger_inv env creator X l"
  shows "\<exists>l'. acceptConflict env t l = Some l' \<and> ledger_keeps env creator X l l'"
proof -
  obtain d u b n ids P Q where run: "SetConflictAccepted env t (ConflictDAG l) =
       Some (u, b, replicate n (ConflictAccepted t) @ map ConflictRejected ids)"
    and i1: "turns_inv env Accepted (\<lambda>i p. parent env (ConflictDAG l) p i) {t} (ConflictDAG l) d P P"
    and i2: "turns_inv env Rejected (parent env d) {j. \<exists>i. newly env (ConflictDAG l) d Accepted i \<and> rival env (ConflictDAG l) i j} d u Q Q"
    and ok: "dag_ok env u"
    by (rule SetConflictAccepted_result [OF ledger_invD(1) [OF inv]]) (rule that, assumption+)
  have "same_shape env (ConflictDAG l) d" "same_shape env d u" using i1 i2 by (simp_all add: turns_inv_def)
  then have same: "member env u = member env (ConflictDAG l)" "stored env u = stored env (ConflictDAG l)"
    by (simp_all add: same_shape_relations)
  then have "dag_grows env (ConflictDAG l) u" "stored env u \<subseteq> booked l \<union> X"
    using ledger_invD(2) [OF inv] by (simp_all add: dag_grows_def)
  from keeps_dag [OF inv ok this] show ?thesis by (simp add: acceptConflict_def run)
qed

end

section \<open>Pruning and loading\<close>

lemma drop_consumer_same:
  assumes "l' = fold (\<lambda>k l. l\<lparr>consumerStorage := (consumerStorage l)(k := P (consumerStorage l k))\<rparr>) ks l"
  shows "transactionStorage l' = transactionStorage l" and "transactionMetadataStorage l' = transactionMetadataStorage l"
    and "outputMetadataStorage l' = outputMetadataStorage l" and "ConflictDAG l' = ConflictDAG l"
proof -
  have "transactionStorage l' = transactionStorage l \<and> transactionMetadataStorage l' = transactionMetadataStorage l \<and>
      outputMetadataStorage l' = outputMetadataStorage l \<and> ConflictDAG l' = ConflictDAG l"
    unfolding assms by (induction ks arbitrary: l) simp_all
  then show "transactionStorage l' = transactionStorage l" "transactionMetadataStorage l' = transactionMetadataStorage l"
    "outputMetadataStorage l' = outputMetadataStorage l" "ConflictDAG l' = ConflictDAG l" by simp_all
qed

text \<open>Forgetting a transaction that is not booked.\<close>

lemma forget_inv:
  assumes inv: "ledger_inv env creator {} l" and t: "t \<notin> booked l"
    and l': "transactionStorage l' = (transactionStorage l)(t := None)" "outputMetadataStorage l' = outputMetadataStorage l"
      "transactionMetadataStorage l' = (transactionMetadataStorage l)(t := None)" "ConflictDAG l' = ConflictDAG l"
  shows "ledger_inv env creator {} l'" and "booked l' = booked l"
proof -
  show booked: "booked l' = booked l" using t by (auto simp: booked_def l'(3))
  have same: "spends env l' s k \<longleftrightarrow> spends env l s k" if "s \<in> booked l" for s k
    using that t by (auto simp: spends_def l'(1))
  have tx: "tx_ok env l' s n \<and> tx_ConflictIDs n \<subseteq> stored env (ConflictDAG l')" if n: "transactionMetadataStorage l' s = Some n" for s n
    using n ledger_invD(4,5) [OF inv, of s n] by (auto simp: tx_ok_def l' split: if_splits)
  have out: "out_ID om = k \<and> out_ok env creator {} l' k (out_FirstConsumer om) (out_FirstConsumerForked om) \<and>
      out_ConflictIDs om \<subseteq> stored env (ConflictDAG l')" if om: "outputMetadataStorage l' k = Some om" for k om
  proof -
    have "outputMetadataStorage l k = Some om" using om by (simp add: l')
    from ledger_invD(6,7,8) [OF inv this] same show ?thesis by (auto simp: out_ok_def booked l' split: if_splits)
  qed
  have "spend_ok env l' s k" if "s \<in> booked l'" "spends env l' s k" for s k
    using that ledger_invD(9) [OF inv, of s k] same by (simp add: booked spend_ok_def l')
  moreover have "finite (dom (transactionMetadataStorage l'))" using ledger_invD(3) [OF inv] by (simp add: l')
  ultimately show "ledger_inv env creator {} l'"
    using tx out ledger_invD(1,2) [OF inv] unfolding ledger_inv_def booked l'(4) by blast
qed

context ledger_storage
begin

lemma PruneTransaction_result:
  assumes inv: "ledger_inv env creator {} l" and t: "t \<notin> booked l"
  shows "\<exists>l'. PruneTransaction env t cone l = Some l' \<and> ledger_inv env creator {} l' \<and> booked l' = booked l \<and>
    ConflictDAG l' = ConflictDAG l"
proof -
  have p: "pending (pushWalk env (newWalk env) t) = [t]"
    using push_pending [of "newWalk env" t] by (simp add: pending_new pushed_new)
  then have "nextWalk env (pushWalk env (newWalk env) t) \<noteq> None" using next_None by simp
  then obtain i w1 where "nextWalk env (pushWalk env (newWalk env) t) = Some (i, w1)" by auto
  with next_Some [OF this] p have nx: "nextWalk env (pushWalk env (newWalk env) t) = Some (t, w1)" "pending w1 = []" by simp_all
  have stop: "prune_loop env c w1 l' = Some l'" for c l'
    using next_None [of w1] nx(2) by (subst prune_loop.simps) simp
  show ?thesis
  proof (cases "transactionMetadataStorage l t")
    case None
    have "PruneTransaction env t cone l = Some l"
      unfolding PruneTransaction_def by (subst prune_loop.simps) (simp add: nx None stop)
    with inv show ?thesis by blast
  next
    case (Some m)
    have m: "tx_OutputIDs m = {}" using ledger_invD(4) [OF inv Some] t Some by (auto simp: tx_ok_def booked_def)
    obtain tx where tx: "transactionStorage l t = Some tx" using ledger_invD(4) [OF inv Some] by (auto simp: tx_ok_def)
    have e: "resourceElems env {} = []" using enumeratesD [OF resource_elems, of "{}"] by simp
    let ?l1 = "fold (\<lambda>k l. l\<lparr>consumerStorage := (consumerStorage l)(k := filter (\<lambda>(t', _). t' \<noteq> t) (consumerStorage l k))\<rparr>)
                 (resourceElems env (ResolveInputs env (Transaction_Inputs env tx))) l"
    note same = drop_consumer_same [OF refl [of ?l1]]
    let ?l' = "?l1\<lparr>transactionStorage := (transactionStorage ?l1)(t := None),
      transactionMetadataStorage := (transactionMetadataStorage ?l1)(t := None)\<rparr>"
    have same1: "transactionStorage ?l1 = transactionStorage l" by (rule same)
    have run: "PruneTransaction env t cone l = Some ?l'"
      unfolding PruneTransaction_def
      by (subst prune_loop.simps) (simp add: nx Some stop pruneStored_def tx m e Let_def WalkConsumingTransactionID_def same1)
    have "ledger_inv env creator {} ?l'" "booked ?l' = booked l"
      by (rule forget_inv [OF inv t]; simp add: same)+
    then show ?thesis using run same(4) by simp
  qed
qed

end

lemma load_inv:
  assumes inv: "ledger_inv env creator {} l"
    and new: "outputMetadataStorage l (owm_ID x) = None" "creator (owm_ID x) \<notin> dom (transactionMetadataStorage l)"
  shows "ledger_inv env creator {} (LoadOutputWithMetadata env x l)" and "booked (LoadOutputWithMetadata env x l) = booked l"
    and "ConflictDAG (LoadOutputWithMetadata env x l) = ConflictDAG l"
proof -
  let ?l = "LoadOutputWithMetadata env x l" and ?k = "owm_ID x"
  obtain om where om: "outputMetadataStorage ?l = (outputMetadataStorage l)(?k \<mapsto> om)" "out_ID om = ?k"
    "out_FirstConsumer om = emptyTx env" "\<not> out_FirstConsumerForked om" "out_ConflictIDs om = {}"
    by (simp add: LoadOutputWithMetadata_def Let_def NewOutputMetadata_def Out_SetAccessManaPledgeID_def
        Out_SetConsensusManaPledgeID_def Out_SetConfirmationState_def)
  have l': "transactionStorage ?l = transactionStorage l" "transactionMetadataStorage ?l = transactionMetadataStorage l"
    "ConflictDAG ?l = ConflictDAG l"
    by (simp_all add: LoadOutputWithMetadata_def Let_def)
  show booked: "booked ?l = booked l" by (simp add: booked_def l')
  have same: "spends env ?l s k \<longleftrightarrow> spends env l s k" for s k by (simp add: spends_def l')
  have tx: "tx_ok env ?l s n \<and> tx_ConflictIDs n \<subseteq> stored env (ConflictDAG ?l)" if "transactionMetadataStorage ?l s = Some n" for s n
    using that ledger_invD(4,5) [OF inv, of s n] by (simp add: tx_ok_def l')
  have out: "out_ID m = k \<and> out_ok env creator {} ?l k (out_FirstConsumer m) (out_FirstConsumerForked m) \<and>
      out_ConflictIDs m \<subseteq> stored env (ConflictDAG ?l)" if m: "outputMetadataStorage ?l k = Some m" for k m
  proof (cases "k = ?k")
    case True
    then show ?thesis using m om new(2) by (simp add: out_ok_def l')
  next
    case False
    then have "outputMetadataStorage l k = Some m" using m om(1) by simp
    from ledger_invD(6,7,8) [OF inv this] show ?thesis by (simp add: out_ok_def booked same l')
  qed
  have "spend_ok env ?l s k" if s: "s \<in> booked l" "spends env l s k" for s k
  proof -
    have ok: "spend_ok env l s k" by (rule ledger_invD(9) [OF inv s])
    then have "k \<noteq> ?k" using new(1) by (auto simp: spend_ok_def)
    with ok show ?thesis by (simp add: spend_ok_def l' om(1))
  qed
  with tx out ledger_invD(1,2,3) [OF inv] show "ledger_inv env creator {} ?l"
    unfolding ledger_inv_def booked same l' by blast
  show "ConflictDAG ?l = ConflictDAG l" by (rule l')
qed

section \<open>Runs of the ledger\<close>

text \<open>
  A run interleaves the operations and the tasks of the event handlers in any order.  An identifier of an output contains
  that of its transaction, and so a new transaction has not created an output that is stored.  Outputs are
  loaded once.  The transactions that are pruned are those that are not booked, as the handler of the event
  TransactionInvalid does; the tasks for consumers are those that the handler of a booking submits.
\<close>

inductive ledger_run ::
    "('c, 'r, 's, 'w, 'v, 't, 'i, 'o, 'n, 'e, 'z) ledger_env_scheme \<Rightarrow>
     (('r, 't, 'o) dataFlowParams, ('c, 'r, 's, 't, 'o, 'n, 'e) ledger, 'e ledger_error) dataflow \<Rightarrow> ('r \<Rightarrow> 'c) \<Rightarrow>
     ('c, 'r, 's, 't, 'o, 'n, 'e) ledger \<Rightarrow> ('c, 'r, 's, 't, 'o, 'n, 'e) ledger \<Rightarrow> bool"
  for env flow creator l0 where
  start: "ledger_run env flow creator l0 l0"
| store: "ledger_run env flow creator l0 l \<Longrightarrow> Transaction_ID env tx = t \<Longrightarrow> t \<noteq> emptyTx env \<Longrightarrow>
    (\<And>k. t \<notin> dom (transactionMetadataStorage l) \<Longrightarrow> k \<in> dom (outputMetadataStorage l) \<Longrightarrow> creator k \<noteq> t) \<Longrightarrow>
    StoreAndProcessTransaction flow env tx l = Some (err, l') \<Longrightarrow> ledger_run env flow creator l0 l'"
| process: "ledger_run env flow creator l0 l \<Longrightarrow> TransactionBooked s outs \<in> set (triggered l) \<Longrightarrow>
    processConsumingTransactions env outs l = Some tasks \<Longrightarrow> t \<in> tasks \<Longrightarrow> t \<in> dom (transactionMetadataStorage l) \<Longrightarrow>
    processConsumer flow env t l = Some l' \<Longrightarrow> ledger_run env flow creator l0 l'"
| accept: "ledger_run env flow creator l0 l \<Longrightarrow> acceptConflict env t l = Some l' \<Longrightarrow> ledger_run env flow creator l0 l'"
| propagate: "ledger_run env flow creator l0 l \<Longrightarrow> propagateAcceptanceToIncludedTransactions env t l = Some l' \<Longrightarrow>
    ledger_run env flow creator l0 l'"
| reject: "ledger_run env flow creator l0 l \<Longrightarrow> propagatedRejectionToTransactions env t l = Some l' \<Longrightarrow>
    ledger_run env flow creator l0 l'"
| inclusion: "ledger_run env flow creator l0 l \<Longrightarrow> ledger_run env flow creator l0 (SetTransactionInclusionTime env t now l)"
| prune: "ledger_run env flow creator l0 l \<Longrightarrow> t \<notin> booked l \<Longrightarrow> PruneTransaction env t cone l = Some l' \<Longrightarrow>
    ledger_run env flow creator l0 l'"
| load: "ledger_run env flow creator l0 l \<Longrightarrow> outputMetadataStorage l (owm_ID x) = None \<Longrightarrow>
    creator (owm_ID x) \<notin> dom (transactionMetadataStorage l) \<Longrightarrow> ledger_run env flow creator l0 (LoadOutputWithMetadata env x l)"

context ledger_storage
begin

lemma ledger_run_inv:
  assumes flow: "data_flow flow" and run: "ledger_run env flow creator l0 l" and start: "ledger_inv env creator {} l0"
  shows "ledger_inv env creator {} l \<and> booked l0 \<subseteq> booked l"
  using run
proof induction
  case start
  then show ?case using assms(3) by simp
next
  case (store l tx t err l')
  then have inv: "ledger_inv env creator {} l" by simp
  show ?case using StoreAndProcessTransaction_result [OF flow inv store.hyps(2,3,4)] store.hyps(5) store.IH by fastforce
next
  case (process l s outs tasks t l')
  then show ?case using processConsumer_result [OF flow _ process.hyps(5)] by fastforce
next
  case (accept l t l')
  then show ?case using acceptConflict_keeps [of "{}" l t] ledger_keepsD(1,2) ledger_grows_same(1) by fastforce
next
  case (propagate l t l')
  then show ?case using propagateAcceptance_keeps [of "{}" l t] ledger_keepsD(1,2) ledger_grows_same(1) by fastforce
next
  case (reject l t l')
  then show ?case using propagatedRejection_keeps [of "{}" l t] ledger_keepsD(1,2) ledger_grows_same(1) by fastforce
next
  case (inclusion l t now)
  then show ?case using SetTransactionInclusionTime_keeps [where creator = creator and X = "{}" and env = env and l = l and t = t and now = now] ledger_keepsD(1,2) ledger_grows_same(1) by fastforce
next
  case (prune l t cone l')
  then show ?case using PruneTransaction_result [of l t cone] by fastforce
next
  case (load l x)
  have inv: "ledger_inv env creator {} l" using load.IH by simp
  from load_inv [where creator = creator, OF inv load.hyps(2,3)] load.IH show ?case by blast
qed

text \<open>In a state that keeps the invariant, two booked transactions that spend the same output are rivals.\<close>

lemma double_spend_members:
  assumes inv: "ledger_inv env creator {} l" and t: "t1 \<in> booked l" "t2 \<in> booked l" "t1 \<noteq> t2"
    and k: "spends env l t1 k" "spends env l t2 k"
  shows "member env (ConflictDAG l) k t1 \<and> member env (ConflictDAG l) k t2"
proof -
  obtain m where m: "outputMetadataStorage l k = Some m"
    and s1: "out_FirstConsumer m = t1 \<or> member env (ConflictDAG l) k t1 \<and> member env (ConflictDAG l) k (out_FirstConsumer m)"
    using ledger_invD(9) [OF inv t(1) k(1)] by (auto simp: spend_ok_def)
  have s2: "out_FirstConsumer m = t2 \<or> member env (ConflictDAG l) k t2 \<and> member env (ConflictDAG l) k (out_FirstConsumer m)"
    using ledger_invD(9) [OF inv t(2) k(2)] m by (auto simp: spend_ok_def)
  from s1 s2 t(3) show ?thesis by auto
qed

end

end
