(* ===== verification/AcceptLaws.thy ===== *)
theory AcceptLaws
  imports LedgerRuns
begin

text \<open>
  What the propagation of acceptance and of rejection changes: as no transaction lists an output, the state
  of the transaction itself, and no output and no other transaction.
\<close>

text \<open>A state is set and its event triggered, for a transaction without outputs.\<close>

definition changes_alone ::
    "State \<Rightarrow> bool \<Rightarrow> 'c \<Rightarrow> ('c, 'r, 's, 't, 'o, 'n, 'e) ledger \<Rightarrow> ('c, 'r, 's, 't, 'o, 'n, 'e) ledger \<Rightarrow> bool" where
  "changes_alone st enabled t l l' \<longleftrightarrow> outputMetadataStorage l' = outputMetadataStorage l \<and>
     consumerStorage l' = consumerStorage l \<and> ConflictDAG l' = ConflictDAG l \<and>
     (\<forall>s. s \<noteq> t \<longrightarrow> transactionMetadataStorage l' s = transactionMetadataStorage l s) \<and>
     (\<forall>m. transactionMetadataStorage l t = Some m \<longrightarrow> (\<exists>m'. transactionMetadataStorage l' t = Some m' \<and>
        tx_State m' = (if enabled then st else tx_State m)))"

lemma changes_alone_refl: "\<not> enabled \<Longrightarrow> changes_alone st enabled t l l"
  by (simp add: changes_alone_def)

lemma changes_alone_updateTx:
  "changes_alone st True t l (fst (updateTx t (Tx_SetConfirmationState st now) l))"
  by (auto simp: changes_alone_def updateTx_def Tx_SetConfirmationState_def split: option.split)

lemma changes_alone_trigger: "changes_alone st enabled t l l' \<Longrightarrow> changes_alone st enabled t l (trigger ev l')"
  by (simp add: changes_alone_def trigger_def)

context ledger_storage
begin

lemma setOutputStates_empty: "setOutputStates env st {} l = l"
  using enumeratesD [OF resource_elems, of "{}"] by (simp add: setOutputStates_def)

lemma triggerAcceptedEvent_alone:
  assumes "tx_OutputIDs m = {}"
  shows "changes_alone Accepted (\<not> IsZero (tx_InclusionTime m)) t l (fst (triggerAcceptedEvent env t m l))"
  using changes_alone_updateTx [of Accepted t l "clockTime env (clockReads l)"] assms
  by (auto simp: triggerAcceptedEvent_def setOutputStates_empty case_prod_unfold changes_alone_refl intro: changes_alone_trigger)

lemma triggerRejectedEvent_alone:
  assumes "tx_OutputIDs m = {}"
  shows "changes_alone Rejected True t l (fst (triggerRejectedEvent env t m l))"
  using changes_alone_updateTx [of Rejected t l "clockTime env (clockReads l)"] assms
  by (auto simp: triggerRejectedEvent_def setOutputStates_empty case_prod_unfold intro: changes_alone_trigger)

lemma propagateAcceptance_alone:
  assumes inv: "ledger_inv env creator X l" and m: "transactionMetadataStorage l t = Some m"
  shows "\<exists>l'. propagateAcceptanceToIncludedTransactions env t l = Some l' \<and>
    changes_alone Accepted (\<not> IsZero (tx_InclusionTime m)) t l l'"
proof -
  have o: "tx_OutputIDs m = {}" using ledger_invD(4) [OF inv m] by (simp add: tx_ok_def)
  then have "propagateAcceptanceToIncludedTransactions env t l = Some (fst (triggerAcceptedEvent env t m l))"
    by (simp add: propagateAcceptanceToIncludedTransactions_def m WalkConsumingTransactionMetadata_def
        WalkConsumingTransactionID_def case_prod_unfold)
  with triggerAcceptedEvent_alone [OF o] show ?thesis by simp
qed

lemma propagatedRejection_alone:
  assumes inv: "ledger_inv env creator X l" and m: "transactionMetadataStorage l t = Some m"
  shows "\<exists>l'. propagatedRejectionToTransactions env t l = Some l' \<and> changes_alone Rejected True t l l'"
proof -
  have o: "tx_OutputIDs m = {}" using ledger_invD(4) [OF inv m] by (simp add: tx_ok_def)
  then have "propagatedRejectionToTransactions env t l = Some (fst (triggerRejectedEvent env t m l))"
    by (simp add: propagatedRejectionToTransactions_def m WalkConsumingTransactionMetadata_def
        WalkConsumingTransactionID_def case_prod_unfold)
  with triggerRejectedEvent_alone [OF o] show ?thesis by simp
qed

text \<open>The handler of a booking never finds a consumer to process.\<close>

lemma processConsumingTransactions_empty: "processConsumingTransactions env outs l = Some {}"
  using enumeratesD [OF resource_elems, of "{}"]
  by (simp add: processConsumingTransactions_def outputs_IDs_empty UnprocessedConsumingTransactions_def)

end

end
