(* ===== verification/LedgerMachine.thy ===== *)
theory LedgerMachine
  imports AcceptLaws OmvMachine
begin

text \<open>
  The properties of the ledger over the interfaces of the external packages, and a concrete environment
  in which the witnesses run: numbers for all identifiers, where the output k is created by the
  transaction k div 10 and a transaction t creates the output 10 * t.
\<close>

declare cone_loop.simps [code] prune_loop.simps [code]

section \<open>A concrete environment\<close>

definition ledger0 ::
    "(nat, nat, dag0, nat list \<times> nat list, nat list \<times> nat list, nat \<times> nat list, nat, nat, nat, unit) ledger_env" where
  "ledger0 = conflict_env.extend conflicts0
     (ledger_env.fields fst snd (\<lambda>_. (7, 8)) (\<lambda>i. i)
       (\<lambda>tx ins. if ins = [] then Inl () else Inr [10 * fst tx]) (\<lambda>out. out) (\<lambda>cs. cs) (\<lambda>n. 1 + int n) 0 0 True
       (\<lambda>k. NewOutputID EmptyTransactionID (of_nat k)) (\<lambda>i. unat (Index i)) (\<lambda>_. ''11'') Map.empty
       (\<lambda>s. if CHR ''('' \<in> set s then None else Some []) (\<lambda>b. b) (Some {}))"

definition creator0 :: "nat \<Rightarrow> nat" where
  "creator0 k = k div 10"

lemmas ledger0_simps = ledger0_def conflicts0_def conflict_env.defs ledger_env.defs creator0_def

interpretation g0: ledger_storage ledger0 fst "\<lambda>w. set (snd w)" fst "\<lambda>w. set (snd w)" creator0
  by unfold_locales (auto simp: ledger0_simps enumerates_def split: list.splits if_splits)

definition flow0 :: "('p, 'l, 'x) dataflow" where
  "flow0 = \<lparr>Run = (\<lambda>cs callback p l. on_error callback p (chain cs (\<lambda>_ l. Some (None, l)) p l)),
            ChainedCommand = (\<lambda>cs callback p nxt l. on_error callback p (chain cs nxt p l))\<rparr>"

interpretation f0: data_flow flow0
  by unfold_locales (simp_all add: flow0_def)

definition empty_ledger :: "'s \<Rightarrow> ('c, 'r, 's, 't, 'o, 'n, 'e) ledger" where
  "empty_ledger d =
     \<lparr>transactionStorage = Map.empty, transactionMetadataStorage = Map.empty, outputStorage = Map.empty,
      outputMetadataStorage = Map.empty, consumerStorage = (\<lambda>_. []), ConflictDAG = d, clockReads = 0, triggered = []\<rparr>"


section \<open>A concrete run\<close>

text \<open>
  An output 5 is loaded, the transactions 1 and 2 both spend it, and the transaction 3 spends the output of 1.
  The definitions are executed by the simplifier.
\<close>

type_synonym ledger_state0 = "(nat, nat, dag0, nat \<times> nat list, nat, nat, unit) ledger"

definition genesis0 :: ledger_state0 where
  "genesis0 = LoadOutputWithMetadata ledger0
     \<lparr>owm_ID = 5, owm_Output = 5, owm_CreationTime = 1, owm_ConsensusManaPledgeID = 1, owm_AccessManaPledgeID = 1\<rparr>
     (empty_ledger empty0)"

definition tx_booked0 :: "nat \<Rightarrow> nat set \<Rightarrow> time \<Rightarrow> (nat, nat) TransactionMetadata" where
  "tx_booked0 t conflictIDs bookingTime =
     \<lparr>tx_ID = t, tx_ConflictIDs = conflictIDs, tx_Booked = True, tx_BookingTime = bookingTime, tx_InclusionTime = 0,
      tx_OutputIDs = {}, tx_State = Pending, tx_StateTime = 0\<rparr>"

definition out_new0 :: "nat \<Rightarrow> nat set \<Rightarrow> (nat, nat, nat) OutputMetadata" where
  "out_new0 k conflictIDs =
     \<lparr>out_ID = k, out_ConsensusManaPledgeID = 7, out_AccessManaPledgeID = 8, out_CreationTime = 0,
      out_ConflictIDs = conflictIDs, out_FirstConsumer = 0, out_FirstConsumerForked = False, out_State = Pending,
      out_StateTime = 0\<rparr>"

definition out_genesis0 :: "(nat, nat, nat) OutputMetadata" where
  "out_genesis0 =
     \<lparr>out_ID = 5, out_ConsensusManaPledgeID = 1, out_AccessManaPledgeID = 1, out_CreationTime = 0, out_ConflictIDs = {},
      out_FirstConsumer = 1, out_FirstConsumerForked = False, out_State = Confirmed, out_StateTime = 1\<rparr>"

definition ledger1 :: ledger_state0 where
  "ledger1 =
     \<lparr>transactionStorage = [1 \<mapsto> (1, [5])], transactionMetadataStorage = [1 \<mapsto> tx_booked0 1 {} 4],
      outputStorage = [5 \<mapsto> 5, 10 \<mapsto> 10], outputMetadataStorage = [5 \<mapsto> out_genesis0, 10 \<mapsto> out_new0 10 {}],
      consumerStorage = (\<lambda>_. [])(5 := [(1, True)]), ConflictDAG = empty0, clockReads = 4,
      triggered = [TransactionStored 1, TransactionBooked 1 [10]]\<rparr>"

definition ledger2 :: ledger_state0 where
  "ledger2 =
     \<lparr>transactionStorage = [1 \<mapsto> (1, [5]), 2 \<mapsto> (2, [5])],
      transactionMetadataStorage = [1 \<mapsto> tx_booked0 1 {1} 4, 2 \<mapsto> tx_booked0 2 {2} 8],
      outputStorage = [5 \<mapsto> 5, 10 \<mapsto> 10, 20 \<mapsto> 20],
      outputMetadataStorage = [10 \<mapsto> out_new0 10 {}, 5 \<mapsto> out_genesis0, 20 \<mapsto> out_new0 20 {2}],
      consumerStorage = (\<lambda>_. [])(5 := [(1, True), (2, True)]),
      ConflictDAG = ([2 \<mapsto> \<lparr>con_ID = 2, Parents = {}, ConflictSetIDs = {5}, con_State = Pending\<rparr>,
         1 \<mapsto> \<lparr>con_ID = 1, Parents = {}, ConflictSetIDs = {5}, con_State = Pending\<rparr>], (\<lambda>_. []), (\<lambda>_. [])(5 := [1, 2])),
      clockReads = 8,
      triggered = [TransactionStored 1, TransactionBooked 1 [10], TransactionStored 2,
        DagEvent (ConflictCreated 2 {} {5}), DagEvent (ConflictCreated 1 {} {5}), TransactionForked 1 {},
        TransactionConflictIDUpdated 1 1 {}, TransactionBooked 2 [20]]\<rparr>"

definition ledger3 :: ledger_state0 where
  "ledger3 = ledger2
     \<lparr>transactionStorage := [1 \<mapsto> (1, [5]), 2 \<mapsto> (2, [5]), 3 \<mapsto> (3, [10])],
      transactionMetadataStorage := [1 \<mapsto> tx_booked0 1 {1} 4, 2 \<mapsto> tx_booked0 2 {2} 8, 3 \<mapsto> tx_booked0 3 {} 11],
      outputStorage := [5 \<mapsto> 5, 10 \<mapsto> 10, 20 \<mapsto> 20, 30 \<mapsto> 30],
      outputMetadataStorage := [5 \<mapsto> out_genesis0, 20 \<mapsto> out_new0 20 {2},
         10 \<mapsto> (out_new0 10 {})\<lparr>out_FirstConsumer := 3\<rparr>, 30 \<mapsto> out_new0 30 {}],
      consumerStorage := (\<lambda>_. [])(5 := [(1, True), (2, True)], 10 := [(3, True)]), clockReads := 11,
      triggered := triggered ledger2 @ [TransactionStored 3, TransactionBooked 3 [30]]\<rparr>"

lemmas ledger0_states = genesis0_def ledger1_def ledger2_def ledger3_def tx_booked0_def out_new0_def out_genesis0_def

lemmas booking0_simps = on_error_def newDataFlowParams_def storeTransactionCommand_def checkAlreadyBookedCommand_def
  StoreAndProcessTransaction_def storeAndProcessTransactionFlow_def processTransactionFlow_def checkTransactionFlow_def flow0_def
  checkSolidityCommand_def checkOutputsCausallyRelatedCommand_def checkTransactionExecutionCommand_def bookTransactionCommand_def
  outputsCausallyRelated_def WalkConsumingTransactionID_def pushOutputs_def relatedCallback_def visitConsumer_def CachedConsumers_def
  ResolveInputs_def initConsumers_def NewTransactionMetadata_def trigger_def IsSpent_def abortFlow_def handleError_def
  bookTransaction_def inheritConflictIDs_def UnconfirmedConflicts_def determineConflictDetails_def RegisterBookedConsumer_def
  forkTransaction_def onDAG_def updateTx_def updateOut_def Tx_SetConflictIDs_def Tx_SetOutputIDs_def Tx_SetBooked_def
  storeOutputs_def NewOutputMetadata_def Out_SetConflictIDs_def Out_SetAccessManaPledgeID_def Out_SetConsensusManaPledgeID_def
  setConsumersBooked_def IsConflicting_def updateConflictsAfterFork_def propagateForkedConflictToFutureCone_def
  WalkConsumingTransactionMetadata_def metadataCallback_def Out_SetConfirmationState_def LoadOutputWithMetadata_def Let_def
  empty_ledger_def cone_loop.simps processConsumer_def processTransaction_def

lemmas run0_simps = ledger0_states booking0_simps ledger0_simps create0_simps
  outputs_IDs_def parse_String_None

lemma store0_1: "StoreAndProcessTransaction flow0 ledger0 (1, [5]) genesis0 = Some (None, ledger1)"
  by (simp add: run0_simps del: set_filter One_nat_def)

lemma store0_2: "StoreAndProcessTransaction flow0 ledger0 (2, [5]) ledger1 = Some (None, ledger2)"
  by (simp add: run0_simps del: set_filter One_nat_def)

lemma store0_3: "StoreAndProcessTransaction flow0 ledger0 (3, [10]) ledger2 = Some (None, ledger3)"
  by (simp add: run0_simps del: set_filter One_nat_def)

lemma run0_genesis: "ledger_run ledger0 flow0 creator0 (empty_ledger empty0) genesis0"
  unfolding genesis0_def by (rule ledger_run.load [OF ledger_run.start]) (simp_all add: empty_ledger_def)

lemma run0_1: "ledger_run ledger0 flow0 creator0 (empty_ledger empty0) ledger1"
  by (rule ledger_run.store [OF run0_genesis _ _ _ store0_1, where t = 1])
    (auto simp: run0_simps split: if_splits)

lemma run0_2: "ledger_run ledger0 flow0 creator0 (empty_ledger empty0) ledger2"
  by (rule ledger_run.store [OF run0_1 _ _ _ store0_2, where t = 2])
    (auto simp: ledger0_simps ledger1_def split: if_splits)

lemma run0_3: "ledger_run ledger0 flow0 creator0 (empty_ledger empty0) ledger3"
  by (rule ledger_run.store [OF run0_2 _ _ _ store0_3, where t = 3])
    (auto simp: ledger0_simps ledger2_def split: if_splits)

lemma empty_ledger_inv:
  assumes "dag_ok env d" and "stored env d = {}"
  shows "ledger_inv env creator {} (empty_ledger d)"
  using assms by (simp add: ledger_inv_def booked_def empty_ledger_def)

lemma empty0_ledger: "dag_ok ledger0 empty0" "stored ledger0 empty0 = {}"
  by (auto simp: dag_ok_def stored_def parent_def member_def empty0_def ledger0_simps)

text \<open>The invariant in every state that a run reaches.\<close>

lemma run_ledger_inv:
  assumes "ledger_storage env pending pushed spending spushed creator" and "data_flow flow"
    and "dag_ok env d" and "stored env d = {}" and "ledger_run env flow creator (empty_ledger d) l"
  shows "ledger_inv env creator {} l"
  using ledger_storage.ledger_run_inv [OF assms(1,2,5) empty_ledger_inv [OF assms(3,4)]] by blast

section \<open>Properties\<close>






text \<open>The transaction 1 spends 5 and creates 10, 3 spends 10 and creates 30, and 4 spends both 30 and 5.\<close>

lemma store0_4_run:
  "case StoreAndProcessTransaction flow0 ledger0 (4, [30, 5]) ledger3 of
     Some (None, l) \<Rightarrow> (case transactionMetadataStorage l 4 of Some m \<Rightarrow> tx_Booked m | None \<Rightarrow> False)
   | _ \<Rightarrow> False"
  by code_simp

lemma store0_4: "\<exists>l. StoreAndProcessTransaction flow0 ledger0 (4, [30, 5]) ledger3 = Some (None, l) \<and> 4 \<in> booked l"
  using store0_4_run by (auto simp: booked_def split: option.splits prod.splits)





text \<open>The transaction 3 arrives before the transaction 1 whose output it spends.\<close>

definition early0 :: ledger_state0 where
  "early0 =
     \<lparr>transactionStorage = [3 \<mapsto> (3, [10])], transactionMetadataStorage = [3 \<mapsto> NewTransactionMetadata 3],
      outputStorage = [5 \<mapsto> 5], outputMetadataStorage = [5 \<mapsto> out_genesis0\<lparr>out_FirstConsumer := 0\<rparr>],
      consumerStorage = (\<lambda>_. [])(10 := [(3, False)]), ConflictDAG = empty0, clockReads = 1,
      triggered = [TransactionStored 3]\<rparr>"

definition solid0 :: ledger_state0 where
  "solid0 =
     \<lparr>transactionStorage = [3 \<mapsto> (3, [10]), 1 \<mapsto> (1, [5])],
      transactionMetadataStorage = [3 \<mapsto> NewTransactionMetadata 3, 1 \<mapsto> tx_booked0 1 {} 4],
      outputStorage = [5 \<mapsto> 5, 10 \<mapsto> 10], outputMetadataStorage = [5 \<mapsto> out_genesis0, 10 \<mapsto> out_new0 10 {}],
      consumerStorage = (\<lambda>_. [])(10 := [(3, False)], 5 := [(1, True)]), ConflictDAG = empty0, clockReads = 4,
      triggered = [TransactionStored 3, TransactionStored 1, TransactionBooked 1 [10]]\<rparr>"

lemma early0_eq:
  "StoreAndProcessTransaction flow0 ledger0 (3, [10]) genesis0 = Some (Some ErrTransactionUnsolid, early0)"
  by (simp add: early0_def run0_simps del: set_filter One_nat_def)

lemma solid0_run: "StoreAndProcessTransaction flow0 ledger0 (1, [5]) early0 = Some (None, solid0)"
  by (simp add: early0_def solid0_def run0_simps del: set_filter One_nat_def)

lemma solid0_eq:
  "consumerStorage solid0 10 = [(3, False)]" "3 \<in> dom (transactionMetadataStorage solid0)" "3 \<notin> booked solid0"
  by (simp_all add: solid0_def booked_def NewTransactionMetadata_def)

lemma run0_solid: "ledger_run ledger0 flow0 creator0 (empty_ledger empty0) solid0"
proof -
  have "ledger_run ledger0 flow0 creator0 (empty_ledger empty0) early0"
    by (rule ledger_run.store [OF run0_genesis _ _ _ early0_eq, where t = 3])
      (auto simp: run0_simps split: if_splits)
  then show ?thesis
    by (rule ledger_run.store [OF _ _ _ _ solid0_run, where t = 1]) (auto simp: ledger0_simps early0_def split: if_splits)
qed



text \<open>The conflict of transaction 1 is accepted, and 1 and its consumer 3, which depends on that conflict, are included.\<close>

definition included0 :: ledger_state0 where
  "included0 = SetTransactionInclusionTime ledger0 1 50 ledger3"

definition accepted0 :: ledger_state0 where
  "accepted0 = the (acceptConflict ledger0 1 included0)"

lemmas accepting0_simps = SetTransactionInclusionTime_def Tx_SetInclusionTime_def IsZero_def ConfirmationState_def acceptConflict_def
  SetConflictAccepted_def setConfirmationState_def pushConflicting_def accept_loop.simps reject_loop.simps

lemma accepted0_eq:
  "acceptConflict ledger0 1 included0 = Some accepted0"
  "transactionMetadataStorage accepted0 1 = Some ((tx_booked0 1 {1} 4)\<lparr>tx_InclusionTime := 50\<rparr>)"
  "transactionMetadataStorage accepted0 3 = Some (tx_booked0 3 {} 11)"
  "outputMetadataStorage accepted0 10 = Some ((out_new0 10 {})\<lparr>out_FirstConsumer := 3\<rparr>)"
  by (simp_all add: accepted0_def included0_def accepting0_simps run0_simps del: set_filter One_nat_def)


end
