(* ===== verification/Blocks.thy ===== *)
theory Blocks
  imports MarkerManager LedgerModels
begin

text \<open>
  Blocks, their parents and their metadata (packages/core/mesh_old/block.go).

  'b are the identifiers of blocks, 't the transactions, 'c the identifiers of conflicts.  A set
  of block identifiers is a set, the map from a type of parents to such a set an association list with
  distinct keys, and the order in which Go ranges over either of them a parameter.  A payload is
  either a transaction or something else.  An array of bytes is a list of bytes.  A time is an
  integer, in nanoseconds, with 0 for the zero time; a setter that reads the clock takes the
  reading as an argument.
\<close>

section \<open>Parents\<close>

type_synonym ParentsType = "8 word"

abbreviation UndefinedParentType :: ParentsType where "UndefinedParentType \<equiv> 0"
abbreviation StrongParentType :: ParentsType where "StrongParentType \<equiv> 1"
abbreviation WeakParentType :: ParentsType where "WeakParentType \<equiv> 2"
abbreviation ShallowLikeParentType :: ParentsType where "ShallowLikeParentType \<equiv> 3"

definition LastValidBlockType :: ParentsType where
  "LastValidBlockType = ShallowLikeParentType"

definition MinStrongParentsCount :: nat where
  "MinStrongParentsCount = 1"

type_synonym 'b ParentBlockIDs = "(ParentsType \<times> 'b set) list"

definition parentsOf :: "'b ParentBlockIDs \<Rightarrow> ParentsType \<Rightarrow> 'b set" where
  "parentsOf p parentType = (case map_of p parentType of Some blockIDs \<Rightarrow> blockIDs | None \<Rightarrow> {})"

definition Parents_Add :: "ParentsType \<Rightarrow> 'b \<Rightarrow> 'b ParentBlockIDs \<Rightarrow> 'b ParentBlockIDs" where
  "Parents_Add parentType blockID p = AList.update parentType (insert blockID (parentsOf p parentType)) p"

definition Parents_AddStrong :: "'b \<Rightarrow> 'b ParentBlockIDs \<Rightarrow> 'b ParentBlockIDs" where
  "Parents_AddStrong blockID p = Parents_Add StrongParentType blockID p"

definition Parents_AddAll :: "ParentsType \<Rightarrow> 'b set \<Rightarrow> 'b ParentBlockIDs \<Rightarrow> 'b ParentBlockIDs" where
  "Parents_AddAll parentType blockIDs p = AList.update parentType (parentsOf p parentType \<union> blockIDs) p"

definition Parents_IsEmpty :: "'b ParentBlockIDs \<Rightarrow> bool" where
  "Parents_IsEmpty p = (p = [])"

definition Parents_Clone :: "('b ParentBlockIDs \<Rightarrow> 'b ParentBlockIDs) \<Rightarrow> 'b ParentBlockIDs \<Rightarrow> 'b ParentBlockIDs" where
  "Parents_Clone rangeParents p =
     fold (\<lambda>(parentType, blockIDs). Parents_AddAll parentType blockIDs) (rangeParents p) []"

datatype parents_error = ErrNoStrongParents | ErrBlockTypeIsUnknown | ErrConflictingReferenceAcrossBlocks

definition areReferencesConflictingAcrossBlocks :: "'b ParentBlockIDs \<Rightarrow> bool" where
  "areReferencesConflictingAcrossBlocks p =
     (parentsOf p WeakParentType \<inter> parentsOf p StrongParentType \<noteq> {} \<or>
      parentsOf p WeakParentType \<inter> parentsOf p ShallowLikeParentType \<noteq> {})"

definition validateParentBlockIDs :: "'b ParentBlockIDs \<Rightarrow> parents_error option" where
  "validateParentBlockIDs p =
     (if p = [] \<or> map_of p StrongParentType = None \<or> card (parentsOf p StrongParentType) < MinStrongParentsCount
      then Some ErrNoStrongParents
      else if list_ex (\<lambda>(parentsType, _). parentsType > LastValidBlockType) p then Some ErrBlockTypeIsUnknown
      else if areReferencesConflictingAcrossBlocks p then Some ErrConflictingReferenceAcrossBlocks
      else None)"

section \<open>Blocks\<close>

datatype 't payload = TransactionPayload 't | OtherPayload

record ('b, 't) Block =
  blk_ID :: 'b
  blk_Version :: "8 word"
  blk_Parents :: "'b ParentBlockIDs"
  IssuerPublicKey :: pubkey
  IssuingTime :: time
  SequenceNumber :: "64 word"
  Payload :: "'t payload"
  ECRecordEI :: int
  ECR :: bytes
  PrevEC :: bytes
  LatestConfirmedEpoch :: int
  Nonce :: "64 word"
  blk_Signature :: bytes

record 'b block_env =
  emptyBlockID :: 'b
  rangeBlockIDs :: "'b set \<Rightarrow> 'b list"
  rangeParents :: "'b ParentBlockIDs \<Rightarrow> 'b ParentBlockIDs"

definition ParentsByType :: "('b, 't) Block \<Rightarrow> ParentsType \<Rightarrow> 'b set" where
  "ParentsByType blk parentType = parentsOf (blk_Parents blk) parentType"

text \<open>The parents in the order in which ForEachParent visits them.\<close>

definition parentList :: "('b, 'z) block_env_scheme \<Rightarrow> ('b, 't) Block \<Rightarrow> (ParentsType \<times> 'b) list" where
  "parentList env blk =
     concat (map (\<lambda>(parentType, parents). map (Pair parentType) (rangeBlockIDs env parents))
       (rangeParents env (blk_Parents blk)))"

definition ForEachParent ::
    "('b, 'z) block_env_scheme \<Rightarrow> ('b, 't) Block \<Rightarrow> (ParentsType \<Rightarrow> 'b \<Rightarrow> 'x \<Rightarrow> 'x) \<Rightarrow> 'x \<Rightarrow> 'x" where
  "ForEachParent env blk consumer x = fold (\<lambda>(parentType, parentID). consumer parentType parentID) (parentList env blk) x"

fun forEachUntil :: "('b \<Rightarrow> 'x \<Rightarrow> 'x \<times> bool) \<Rightarrow> 'b list \<Rightarrow> 'x \<Rightarrow> 'x" where
  "forEachUntil consumer [] x = x"
| "forEachUntil consumer (b # bs) x =
     (case consumer b x of (x1, go) \<Rightarrow> if go then forEachUntil consumer bs x1 else x1)"

definition ForEachParentByType ::
    "('b, 'z) block_env_scheme \<Rightarrow> ('b, 't) Block \<Rightarrow> ParentsType \<Rightarrow> ('b \<Rightarrow> 'x \<Rightarrow> 'x \<times> bool) \<Rightarrow> 'x \<Rightarrow> 'x" where
  "ForEachParentByType env blk parentType consumer x =
     forEachUntil consumer (rangeBlockIDs env (ParentsByType blk parentType)) x"

definition ParentsCountByType :: "('b, 't) Block \<Rightarrow> ParentsType \<Rightarrow> 8 word" where
  "ParentsCountByType blk parentType = of_nat (card (ParentsByType blk parentType))"

section \<open>Metadata of blocks\<close>

record ('b, 'c) BlockMetadata =
  meta_ID :: 'b
  ReceivedTime :: time
  SolidificationTime :: time
  Solid :: bool
  meta_StructureDetails :: "StructureDetails option"
  AddedConflictIDs :: "'c set"
  SubtractedConflictIDs :: "'c set"
  Scheduled :: bool
  ScheduledTime :: time
  Booked :: bool
  BookedTime :: time
  ObjectivelyInvalid :: bool
  meta_State :: State
  meta_StateTime :: time
  DiscardedTime :: time
  QueuedTime :: time
  SubjectivelyInvalid :: bool

text \<open>The zero value of confirmation.State is a parameter.\<close>

definition zeroMetadata :: "State \<Rightarrow> 'b \<Rightarrow> ('b, 'c) BlockMetadata" where
  "zeroMetadata zs blockID =
     \<lparr>meta_ID = blockID, ReceivedTime = 0, SolidificationTime = 0, Solid = False, meta_StructureDetails = None,
      AddedConflictIDs = {}, SubtractedConflictIDs = {}, Scheduled = False, ScheduledTime = 0, Booked = False,
      BookedTime = 0, ObjectivelyInvalid = False, meta_State = zs, meta_StateTime = 0, DiscardedTime = 0,
      QueuedTime = 0, SubjectivelyInvalid = False\<rparr>"

definition NewBlockMetadata :: "time \<Rightarrow> 'b \<Rightarrow> ('b, 'c) BlockMetadata" where
  "NewBlockMetadata now blockID = (zeroMetadata Pending blockID)\<lparr>ReceivedTime := now\<rparr>"

definition SetSolid :: "time \<Rightarrow> bool \<Rightarrow> ('b, 'c) BlockMetadata \<Rightarrow> ('b, 'c) BlockMetadata \<times> bool" where
  "SetSolid now solid m =
     (if Solid m = solid then (m, False) else (m\<lparr>SolidificationTime := now, Solid := solid\<rparr>, True))"

definition SetStructureDetails ::
    "StructureDetails \<Rightarrow> ('b, 'c) BlockMetadata \<Rightarrow> ('b, 'c) BlockMetadata \<times> bool" where
  "SetStructureDetails details m =
     (case meta_StructureDetails m of
        Some _ \<Rightarrow> (m, False)
      | None \<Rightarrow> (m\<lparr>meta_StructureDetails := Some details\<rparr>, True))"

definition SetAddedConflictIDs :: "'c set \<Rightarrow> ('b, 'c) BlockMetadata \<Rightarrow> ('b, 'c) BlockMetadata \<times> bool" where
  "SetAddedConflictIDs added m =
     (if AddedConflictIDs m = added then (m, False) else (m\<lparr>AddedConflictIDs := added\<rparr>, True))"

definition AddConflictID :: "'c \<Rightarrow> ('b, 'c) BlockMetadata \<Rightarrow> ('b, 'c) BlockMetadata \<times> bool" where
  "AddConflictID conflictID m =
     (if conflictID \<in> AddedConflictIDs m then (m, False)
      else (m\<lparr>AddedConflictIDs := insert conflictID (AddedConflictIDs m)\<rparr>, True))"

definition SetSubtractedConflictIDs :: "'c set \<Rightarrow> ('b, 'c) BlockMetadata \<Rightarrow> ('b, 'c) BlockMetadata \<times> bool" where
  "SetSubtractedConflictIDs subtracted m =
     (if SubtractedConflictIDs m = subtracted then (m, False) else (m\<lparr>SubtractedConflictIDs := subtracted\<rparr>, True))"

definition SetScheduled :: "time \<Rightarrow> bool \<Rightarrow> ('b, 'c) BlockMetadata \<Rightarrow> ('b, 'c) BlockMetadata \<times> bool" where
  "SetScheduled now scheduled m =
     (if Scheduled m = scheduled then (m, False) else (m\<lparr>Scheduled := scheduled, ScheduledTime := now\<rparr>, True))"

definition SetDiscardedTime :: "time \<Rightarrow> ('b, 'c) BlockMetadata \<Rightarrow> ('b, 'c) BlockMetadata" where
  "SetDiscardedTime discardedTime m = m\<lparr>DiscardedTime := discardedTime\<rparr>"

definition SetQueuedTime :: "time \<Rightarrow> ('b, 'c) BlockMetadata \<Rightarrow> ('b, 'c) BlockMetadata" where
  "SetQueuedTime queuedTime m = m\<lparr>QueuedTime := queuedTime\<rparr>"

definition SetBooked :: "time \<Rightarrow> bool \<Rightarrow> ('b, 'c) BlockMetadata \<Rightarrow> ('b, 'c) BlockMetadata \<times> bool" where
  "SetBooked now booked m =
     (if Booked m = booked then (m, False) else (m\<lparr>Booked := booked, BookedTime := now\<rparr>, True))"

definition SetObjectivelyInvalid :: "bool \<Rightarrow> ('b, 'c) BlockMetadata \<Rightarrow> ('b, 'c) BlockMetadata \<times> bool" where
  "SetObjectivelyInvalid invalid m =
     (if ObjectivelyInvalid m = invalid then (m, False) else (m\<lparr>ObjectivelyInvalid := invalid\<rparr>, True))"

definition SetSubjectivelyInvalid :: "bool \<Rightarrow> ('b, 'c) BlockMetadata \<Rightarrow> ('b, 'c) BlockMetadata \<times> bool" where
  "SetSubjectivelyInvalid invalid m =
     (if SubjectivelyInvalid m = invalid then (m, False) else (m\<lparr>SubjectivelyInvalid := invalid\<rparr>, True))"

definition SetConfirmationState :: "time \<Rightarrow> State \<Rightarrow> ('b, 'c) BlockMetadata \<Rightarrow> ('b, 'c) BlockMetadata \<times> bool" where
  "SetConfirmationState now st m =
     (if meta_State m = st then (m, False) else (m\<lparr>meta_State := st, meta_StateTime := now\<rparr>, True))"

end
