(* ===== verification/Votes.thy ===== *)
theory Votes
  imports MarkerManager ConflictProperties
begin

text \<open>
  The votes that the approval weight rests on (packages/core/mesh_old/approvalweightmanager.models.go).

  'c are the identifiers of conflicts, 'n those of nodes.  A set of voters is a set.  The latest votes of a voter on the
  markers of a sequence are a threshold map in the upper mode, whose operations are fields of the record
  vote_map; the locale vote_thresholds states what the package documents.
\<close>

datatype Opinion = UndefinedOpinion | OpinionConfirmed | OpinionRejected

type_synonym VotePower = "64 word"

section \<open>Votes on conflicts\<close>

record ('c, 'n) ConflictVote =
  vote_Voter :: 'n
  vote_ConflictID :: 'c
  vote_Opinion :: Opinion
  vote_Power :: VotePower

definition NewConflictVote :: "'n \<Rightarrow> VotePower \<Rightarrow> 'c \<Rightarrow> Opinion \<Rightarrow> ('c, 'n) ConflictVote" where
  "NewConflictVote voter votePower conflictID opinion =
     \<lparr>vote_Voter = voter, vote_ConflictID = conflictID, vote_Opinion = opinion, vote_Power = votePower\<rparr>"

definition WithOpinion :: "Opinion \<Rightarrow> ('c, 'n) ConflictVote \<Rightarrow> ('c, 'n) ConflictVote" where
  "WithOpinion opinion v =
     \<lparr>vote_Voter = vote_Voter v, vote_ConflictID = vote_ConflictID v, vote_Opinion = opinion, vote_Power = vote_Power v\<rparr>"

definition WithConflictID :: "'c \<Rightarrow> ('c, 'n) ConflictVote \<Rightarrow> ('c, 'n) ConflictVote" where
  "WithConflictID conflictID v =
     \<lparr>vote_Voter = vote_Voter v, vote_ConflictID = conflictID, vote_Opinion = vote_Opinion v, vote_Power = vote_Power v\<rparr>"

text \<open>The latest votes of one voter, by conflict.\<close>

type_synonym ('c, 'n) LatestConflictVotes = "'c \<Rightarrow> ('c, 'n) ConflictVote option"

definition LatestConflictVotes_Store ::
    "('c, 'n) ConflictVote \<Rightarrow> ('c, 'n) LatestConflictVotes \<Rightarrow> ('c, 'n) LatestConflictVotes \<times> bool" where
  "LatestConflictVotes_Store vote l =
     (case l (vote_ConflictID vote) of
        Some currentVote \<Rightarrow> if vote_Power currentVote \<ge> vote_Power vote then (l, False)
                            else (l(vote_ConflictID vote \<mapsto> vote), True)
      | None \<Rightarrow> (l(vote_ConflictID vote \<mapsto> vote), True))"

section \<open>Voters and weights of conflicts\<close>

definition AddVoter :: "'n \<Rightarrow> 'n set \<Rightarrow> 'n set \<times> bool" where
  "AddVoter voter voters = (insert voter voters, voter \<notin> voters)"

definition DeleteVoter :: "'n \<Rightarrow> 'n set \<Rightarrow> 'n set \<times> bool" where
  "DeleteVoter voter voters = (voters - {voter}, voter \<in> voters)"

text \<open>
  A float64 is NaN or an extended value; rnd rounds the result of an operation on finite values.  There is one
  zero: the weights are not negative, and the sign of a zero could only show in a division by it.
\<close>

datatype float64 = NaN | Num fval

fun fadd :: "(rat \<Rightarrow> rat) \<Rightarrow> float64 \<Rightarrow> float64 \<Rightarrow> float64" where
  "fadd rnd (Num (Fin a)) (Num (Fin b)) = Num (Fin (rnd (a + b)))"
| "fadd rnd (Num (Fin _)) y = y"
| "fadd rnd x (Num (Fin _)) = x"
| "fadd rnd x y = (if x = y then x else NaN)"

fun fdiv :: "(rat \<Rightarrow> rat) \<Rightarrow> float64 \<Rightarrow> float64 \<Rightarrow> float64" where
  "fdiv rnd (Num (Fin a)) (Num (Fin b)) =
     (if b = 0 then (if a = 0 then NaN else if a > 0 then Num PosInf else Num NegInf) else Num (Fin (rnd (a / b))))"
| "fdiv rnd (Num (Fin _)) (Num _) = Num (Fin 0)"
| "fdiv rnd (Num PosInf) (Num (Fin b)) = (if b < 0 then Num NegInf else Num PosInf)"
| "fdiv rnd (Num NegInf) (Num (Fin b)) = (if b < 0 then Num PosInf else Num NegInf)"
| "fdiv rnd _ _ = NaN"

fun fge :: "float64 \<Rightarrow> float64 \<Rightarrow> bool" where
  "fge (Num a) (Num b) = (b \<le> a)"
| "fge _ _ = False"

fun feq :: "float64 \<Rightarrow> float64 \<Rightarrow> bool" where
  "feq (Num a) (Num b) = (a = b)"
| "feq _ _ = False"

definition SetWeight :: "float64 \<Rightarrow> float64 \<Rightarrow> float64 \<times> bool" where
  "SetWeight weight w = (if feq weight w then (w, False) else (weight, True))"

section \<open>Votes on markers\<close>

record 't vote_map =
  vm_New :: 't
  vm_Get :: "'t \<Rightarrow> index \<Rightarrow> VotePower option"
  vm_Set :: "'t \<Rightarrow> index \<Rightarrow> VotePower \<Rightarrow> 't"
  vm_Delete :: "'t \<Rightarrow> index \<Rightarrow> 't"
  vm_MaxKey :: "'t \<Rightarrow> index option"
  vm_Ceiling :: "'t \<Rightarrow> index \<Rightarrow> (index \<times> VotePower) option"
  vm_Floor :: "'t \<Rightarrow> index \<Rightarrow> (index \<times> VotePower) option"

definition ceiling_entry :: "(index \<Rightarrow> 'v option) \<Rightarrow> index \<Rightarrow> index \<Rightarrow> 'v \<Rightarrow> bool" where
  "ceiling_entry m k j v \<longleftrightarrow> m j = Some v \<and> k \<le> j \<and> (\<forall>i. m i \<noteq> None \<longrightarrow> k \<le> i \<longrightarrow> j \<le> i)"

definition floor_entry :: "(index \<Rightarrow> 'v option) \<Rightarrow> index \<Rightarrow> index \<Rightarrow> 'v \<Rightarrow> bool" where
  "floor_entry m k j v \<longleftrightarrow> m j = Some v \<and> j \<le> k \<and> (\<forall>i. m i \<noteq> None \<longrightarrow> i \<le> k \<longrightarrow> i \<le> j)"

locale vote_thresholds =
  fixes vm :: "('t, 'z) vote_map_scheme" and stored :: "'t \<Rightarrow> index \<Rightarrow> VotePower option"
  assumes vm_new: "stored (vm_New vm) k = None"
    and vm_set: "stored (vm_Set vm t k v) = (stored t)(k \<mapsto> v)"
    and vm_delete: "stored (vm_Delete vm t k) = (stored t)(k := None)"
    and vm_ceiling: "vm_Ceiling vm t k = Some (j, v) \<longleftrightarrow> ceiling_entry (stored t) k j v"
    and vm_floor: "vm_Floor vm t k = Some (j, v) \<longleftrightarrow> floor_entry (stored t) k j v"
    and vm_get: "vm_Get vm t k = map_option snd (vm_Ceiling vm t k)"
    and vm_max: "vm_MaxKey vm t = Some k \<longleftrightarrow> stored t k \<noteq> None \<and> (\<forall>i. stored t i \<noteq> None \<longrightarrow> i \<le> k)"

definition LatestMarkerVotes_Power :: "('t, 'z) vote_map_scheme \<Rightarrow> 't \<Rightarrow> index \<Rightarrow> VotePower option" where
  "LatestMarkerVotes_Power vm l i = vm_Get vm l i"

text \<open>The loop removes the predecessors with a lower power; the argument index - 1 of Floor wraps at 0.\<close>

partial_function (option) drop_lower :: "('t, 'z) vote_map_scheme \<Rightarrow> index \<Rightarrow> VotePower \<Rightarrow> 't \<Rightarrow> 't option" where
  "drop_lower vm i votePower l =
     (case vm_Floor vm l (i - 1) of
        None \<Rightarrow> Some l
      | Some (floorKey, floorValue) \<Rightarrow>
          if floorValue < votePower then drop_lower vm i votePower (vm_Delete vm l floorKey) else Some l)"

definition LatestMarkerVotes_Store ::
    "('t, 'z) vote_map_scheme \<Rightarrow> index \<Rightarrow> VotePower \<Rightarrow> 't \<Rightarrow> ('t \<times> bool \<times> index) option" where
  "LatestMarkerVotes_Store vm i votePower l =
     (let previousHighestIndex = (case vm_MaxKey vm l of Some k \<Rightarrow> k | None \<Rightarrow> 0)
      in if (case vm_Ceiling vm l i of Some (_, ceilingValue) \<Rightarrow> votePower < ceilingValue | None \<Rightarrow> False)
         then Some (l, False, previousHighestIndex)
         else map_option (\<lambda>l1. (l1, True, previousHighestIndex)) (drop_lower vm i votePower (vm_Set vm l i votePower)))"

declare drop_lower.simps [code]

end
