(* ===== verification/MeshStorage.thy ===== *)
theory MeshStorage
  imports Blocks Votes
begin

text \<open>
  The storage of the mesh (packages/core/mesh_old/storage.go) and the walks over it (utils.go).

  The state is a record with a map for every object storage that is read by identifier, and a list for those
  that are iterated: the children, the missing blocks and the attachments, an entry at most once and in the
  order in which the storage iterates over them.  The log of the events that the components of
  the mesh trigger, and the number of readings of the clock, belong to the state as well.  The
  handlers that are hooked to an event run at once, those that are attached run as tasks.
\<close>

type_synonym ChildType = "8 word"

abbreviation StrongChild :: ChildType where "StrongChild \<equiv> 0"
abbreviation WeakChild :: ChildType where "WeakChild \<equiv> 1"
abbreviation ShallowLikeChild :: ChildType where "ShallowLikeChild \<equiv> 2"

text \<open>A type that is not in the map reads as the zero value.\<close>

definition ParentTypeToChildType :: "ParentsType \<Rightarrow> ChildType" where
  "ParentTypeToChildType parentType =
     (case map_of [(StrongParentType, StrongChild), (WeakParentType, WeakChild), (ShallowLikeParentType, ShallowLikeChild)]
        parentType of Some c \<Rightarrow> c | None \<Rightarrow> 0)"

record 'b Child =
  child_ReferencedBlockID :: 'b
  child_Type :: ChildType
  child_BlockID :: 'b

definition NewChild :: "ChildType \<Rightarrow> 'b \<Rightarrow> 'b \<Rightarrow> 'b Child" where
  "NewChild childType referencedBlockID childBlockID =
     \<lparr>child_ReferencedBlockID = referencedBlockID, child_Type = childType, child_BlockID = childBlockID\<rparr>"

datatype ('b, 'c) mesh_event =
    BlockStored 'b
  | BlockRemoved 'b
  | MissingBlockStored 'b
  | BlockSolid 'b
  | BlockMissing 'b
  | BlockInvalid 'b
  | RequestIssued 'b
  | RequestStarted 'b
  | RequestStopped 'b
  | RequestFailed 'b
  | BlockOrphaned 'b
  | AllChildrenOrphaned 'b
  | BlockBooked 'b
  | BlockConflictUpdated 'b 'c
  | MarkerConflictAdded Marker 'c
  | BookerError 'b
  | BlockProcessed 'b
  | ConflictWeightChanged 'c float64
  | MarkerWeightChanged Marker float64
  | BlockAccepted 'b

record ('b, 't, 'c) mesh =
  blockStorage :: "'b \<Rightarrow> ('b, 't) Block option"
  blockMetadataStorage :: "'b \<Rightarrow> ('b, 'c) BlockMetadata option"
  childStorage :: "'b Child list"
  missingBlockStorage :: "'b list"
  attachmentStorage :: "('c \<times> 'b) list"
  markerBlockMapping :: "SequenceID \<times> index \<Rightarrow> 'b option"
  meshReads :: nat
  meshEvents :: "('b, 'c) mesh_event list"

record 'b mesh_env = "'b block_env" +
  meshTime :: "nat \<Rightarrow> time"
  undefinedState :: State
  GenesisNode :: "pubkey option"
  MaxRequestThreshold :: int

text \<open>The nanoseconds of a minute, and the start of the unix time, counted from the zero time.\<close>

definition minute :: time where
  "minute = 60000000000"

definition unixZero :: time where
  "unixZero = 62135596800000000000"

definition unix :: "time \<Rightarrow> int" where
  "unix t = (t - unixZero) div 1000000000"

definition emit :: "('b, 'c) mesh_event \<Rightarrow> ('b, 't, 'c, 'z) mesh_scheme \<Rightarrow> ('b, 't, 'c, 'z) mesh_scheme" where
  "emit e s = s\<lparr>meshEvents := meshEvents s @ [e]\<rparr>"

definition readClock ::
    "('b, 'y) mesh_env_scheme \<Rightarrow> ('b, 't, 'c, 'z) mesh_scheme \<Rightarrow> time \<times> ('b, 't, 'c, 'z) mesh_scheme" where
  "readClock env s = (meshTime env (meshReads s), s\<lparr>meshReads := Suc (meshReads s)\<rparr>)"

definition putMetadata ::
    "('b, 'c) BlockMetadata \<Rightarrow> ('b, 't, 'c, 'z) mesh_scheme \<Rightarrow> ('b, 't, 'c, 'z) mesh_scheme" where
  "putMetadata m s = s\<lparr>blockMetadataStorage := (blockMetadataStorage s)(meta_ID m \<mapsto> m)\<rparr>"

section \<open>Storing and deleting blocks\<close>

definition storeGenesis ::
    "('b, 'y) mesh_env_scheme \<Rightarrow> ('b, 't, 'c, 'z) mesh_scheme \<Rightarrow> ('b, 't, 'c, 'z) mesh_scheme" where
  "storeGenesis env s =
     (case blockMetadataStorage s (emptyBlockID env) of
        Some _ \<Rightarrow> s
      | None \<Rightarrow> case readClock env s of (now, s1) \<Rightarrow>
          putMetadata ((zeroMetadata (undefinedState env) (emptyBlockID env))
            \<lparr>SolidificationTime := now - 20 * minute, Solid := True,
             meta_StructureDetails := Some NewStructureDetails, Scheduled := True, Booked := True\<rparr>) s1)"

definition storeChildOf :: "'b \<Rightarrow> ParentsType \<Rightarrow> 'b \<Rightarrow> ('b, 't, 'c, 'z) mesh_scheme \<Rightarrow> ('b, 't, 'c, 'z) mesh_scheme" where
  "storeChildOf blockID parentType parentID s =
     s\<lparr>childStorage := List.insert (NewChild (ParentTypeToChildType parentType) parentID blockID) (childStorage s)\<rparr>"

text \<open>
  StoreBlock up to the event BlockStored.  Its result says whether a missing block arrived,
  and whether the block is new: the handlers hooked to the two events run next (see the next theory).
\<close>

definition storeNewBlock ::
    "('b, 'y) mesh_env_scheme \<Rightarrow> ('b, 't) Block \<Rightarrow> ('b, 't, 'c, 'z) mesh_scheme \<Rightarrow> ('b, 't, 'c, 'z) mesh_scheme" where
  "storeNewBlock env blk s =
     ForEachParent env blk (storeChildOf (blk_ID blk)) (s\<lparr>blockStorage := (blockStorage s)(blk_ID blk \<mapsto> blk)\<rparr>)"

definition StoreBlock ::
    "('b, 'y) mesh_env_scheme \<Rightarrow> ('b \<Rightarrow> ('b, 't, 'c, 'z) mesh_scheme \<Rightarrow> ('b, 't, 'c, 'z) mesh_scheme) \<Rightarrow>
     (('b, 't) Block \<Rightarrow> ('b, 't, 'c, 'z) mesh_scheme \<Rightarrow> ('b, 't, 'c, 'z) mesh_scheme) \<Rightarrow>
     ('b, 't) Block \<Rightarrow> ('b, 't, 'c, 'z) mesh_scheme \<Rightarrow> ('b, 't, 'c, 'z) mesh_scheme" where
  "StoreBlock env onMissingBlockStored onBlockStored blk s =
     (case readClock env s of (now, s1) \<Rightarrow>
      case blockMetadataStorage s1 (blk_ID blk) of
        Some _ \<Rightarrow> s1
      | None \<Rightarrow>
          let s2 = storeNewBlock env blk (putMetadata (NewBlockMetadata now (blk_ID blk)) s1);
              s3 = (if blk_ID blk \<in> set (missingBlockStorage s2)
                    then onMissingBlockStored (blk_ID blk) (emit (MissingBlockStored (blk_ID blk))
                           (s2\<lparr>missingBlockStorage := removeAll (blk_ID blk) (missingBlockStorage s2)\<rparr>))
                    else s2)
          in onBlockStored blk (emit (BlockStored (blk_ID blk)) s3))"

definition Children :: "'b \<Rightarrow> ChildType option \<Rightarrow> ('b, 't, 'c, 'z) mesh_scheme \<Rightarrow> 'b Child list" where
  "Children blockID optionalChildType s =
     filter (\<lambda>c. child_ReferencedBlockID c = blockID \<and>
       (case optionalChildType of Some t \<Rightarrow> child_Type c = t | None \<Rightarrow> True)) (childStorage s)"

definition StoreMissingBlock :: "'b \<Rightarrow> ('b, 't, 'c, 'z) mesh_scheme \<Rightarrow> ('b, 't, 'c, 'z) mesh_scheme \<times> bool" where
  "StoreMissingBlock blockID s =
     (if blockID \<in> set (missingBlockStorage s) then (s, False)
      else (s\<lparr>missingBlockStorage := missingBlockStorage s @ [blockID]\<rparr>, True))"

definition DeleteMissingBlock :: "'b \<Rightarrow> ('b, 't, 'c, 'z) mesh_scheme \<Rightarrow> ('b, 't, 'c, 'z) mesh_scheme" where
  "DeleteMissingBlock blockID s = s\<lparr>missingBlockStorage := removeAll blockID (missingBlockStorage s)\<rparr>"

definition StoreAttachment :: "'c \<Rightarrow> 'b \<Rightarrow> ('b, 't, 'c, 'z) mesh_scheme \<Rightarrow> ('b, 't, 'c, 'z) mesh_scheme \<times> bool" where
  "StoreAttachment transactionID blockID s =
     (if (transactionID, blockID) \<in> set (attachmentStorage s) then (s, False)
      else (s\<lparr>attachmentStorage := attachmentStorage s @ [(transactionID, blockID)]\<rparr>, True))"

definition Attachments :: "'c \<Rightarrow> ('b, 't, 'c, 'z) mesh_scheme \<Rightarrow> 'b list" where
  "Attachments transactionID s = map snd (filter (\<lambda>(t, _). t = transactionID) (attachmentStorage s))"

definition AttachmentBlockIDs :: "'c \<Rightarrow> ('b, 't, 'c, 'z) mesh_scheme \<Rightarrow> 'b set" where
  "AttachmentBlockIDs transactionID s = set (Attachments transactionID s)"

definition IsTransactionAttachedByBlock :: "'c \<Rightarrow> 'b \<Rightarrow> ('b, 't, 'c, 'z) mesh_scheme \<Rightarrow> bool" where
  "IsTransactionAttachedByBlock transactionID blockID s = ((transactionID, blockID) \<in> set (attachmentStorage s))"

definition deleteChildOf :: "ParentsType \<Rightarrow> 'b \<Rightarrow> 'b \<Rightarrow> ('b, 't, 'c, 'z) mesh_scheme \<Rightarrow> ('b, 't, 'c, 'z) mesh_scheme" where
  "deleteChildOf parentType parentID approvingBlock s =
     s\<lparr>childStorage := removeAll (NewChild (ParentTypeToChildType parentType) parentID approvingBlock) (childStorage s)\<rparr>"

definition DeleteBlock ::
    "('b, 'y) mesh_env_scheme \<Rightarrow> 'b \<Rightarrow> ('b, 't, 'c, 'z) mesh_scheme \<Rightarrow> ('b, 't, 'c, 'z) mesh_scheme" where
  "DeleteBlock env blockID s =
     (case blockStorage s blockID of
        None \<Rightarrow> s
      | Some blk \<Rightarrow>
          let s1 = ForEachParent env blk (\<lambda>parentType parentID. deleteChildOf parentType parentID blockID) s
          in emit (BlockRemoved blockID)
               (s1\<lparr>blockMetadataStorage := (blockMetadataStorage s1)(blockID := None),
                   blockStorage := (blockStorage s1)(blockID := None)\<rparr>))"

definition StoreMarkerBlockMapping :: "Marker \<Rightarrow> 'b \<Rightarrow> ('b, 't, 'c, 'z) mesh_scheme \<Rightarrow> ('b, 't, 'c, 'z) mesh_scheme" where
  "StoreMarkerBlockMapping marker blockID s =
     s\<lparr>markerBlockMapping := (markerBlockMapping s)((marker_SequenceID marker, marker_Index marker) \<mapsto> blockID)\<rparr>"

section \<open>Walks\<close>

definition ApprovingBlockIDs :: "'b \<Rightarrow> ChildType option \<Rightarrow> ('b, 't, 'c, 'z) mesh_scheme \<Rightarrow> 'b set" where
  "ApprovingBlockIDs blockID optionalChildType s = child_BlockID ` set (Children blockID optionalChildType s)"

definition ComputeIfTransaction :: "'b \<Rightarrow> ('t \<Rightarrow> 'c) \<Rightarrow> ('b, 't, 'c, 'z) mesh_scheme \<Rightarrow> 'c option" where
  "ComputeIfTransaction blockID transactionID s =
     (case blockStorage s blockID of
        Some blk \<Rightarrow> (case Payload blk of TransactionPayload tx \<Rightarrow> Some (transactionID tx) | OtherPayload \<Rightarrow> None)
      | None \<Rightarrow> None)"

text \<open>FirstAttachment: the oldest of the attachments whose block is stored; the unix time 0 reads as none.\<close>

definition firstAttachmentOf ::
    "('b, 't, 'c, 'z) mesh_scheme \<Rightarrow> 'b \<Rightarrow> time \<times> 'b \<Rightarrow> time \<times> 'b" where
  "firstAttachmentOf s blockID = (\<lambda>(oldest, oldestID).
     case blockStorage s blockID of
       Some blk \<Rightarrow> if unix oldest = 0 \<or> IssuingTime blk < oldest then (IssuingTime blk, blk_ID blk) else (oldest, oldestID)
     | None \<Rightarrow> (oldest, oldestID))"

definition FirstAttachment ::
    "('b, 'y) mesh_env_scheme \<Rightarrow> 'c \<Rightarrow> ('b, 't, 'c, 'z) mesh_scheme \<Rightarrow> (time \<times> 'b) option" where
  "FirstAttachment env transactionID s =
     (if Attachments transactionID s = [] then None
      else Some (fold (firstAttachmentOf s) (Attachments transactionID s) (unixZero, emptyBlockID env)))"

end
