(* ===== verification/Solidifier.thy ===== *)
theory Solidifier
  imports MeshStorage
begin

text \<open>
  Solidification, the requests of missing blocks and the tracking of orphaned blocks
  (packages/core/mesh_old: solidifier.go, requester.go, orphanagemanager.go).

  A handler attached to an event, and what is submitted to the event loop, is a task that waits in the state; a run
  executes the waiting tasks in any order.  A request that is scheduled is the number of times that it was
  issued again; its timer may fire at any time.  The difference of two times does not saturate here, which it does in Go
  only beyond the bounds that it is compared with.
\<close>

datatype 'b mesh_task =
    ProcessChildrenTask 'b
  | SolidifyTask 'b
  | CountChildrenTask 'b
  | UncountTask 'b

record ('b, 't, 'c) solid_mesh = "('b, 't, 'c) mesh" +
  scheduledRequests :: "'b \<Rightarrow> int option"
  strongChildCounters :: "'b \<Rightarrow> int option"
  meshTasks :: "'b mesh_task list"

definition minParentsTimeDifference :: time where
  "minParentsTimeDifference = 0"

definition maxParentsTimeDifference :: time where
  "maxParentsTimeDifference = 30 * minute"

section \<open>Requests\<close>

definition StartRequest :: "'b \<Rightarrow> ('b, 't, 'c, 'z) solid_mesh_scheme \<Rightarrow> ('b, 't, 'c, 'z) solid_mesh_scheme" where
  "StartRequest i s =
     (case scheduledRequests s i of
        Some _ \<Rightarrow> s
      | None \<Rightarrow> emit (RequestIssued i) (emit (RequestStarted i) (s\<lparr>scheduledRequests := (scheduledRequests s)(i \<mapsto> 0)\<rparr>)))"

definition StopRequest :: "'b \<Rightarrow> ('b, 't, 'c, 'z) solid_mesh_scheme \<Rightarrow> ('b, 't, 'c, 'z) solid_mesh_scheme" where
  "StopRequest i s =
     (case scheduledRequests s i of
        None \<Rightarrow> s
      | Some _ \<Rightarrow> emit (RequestStopped i) (s\<lparr>scheduledRequests := (scheduledRequests s)(i := None)\<rparr>))"

definition reRequest ::
    "('b, 'y) mesh_env_scheme \<Rightarrow> 'b \<Rightarrow> int \<Rightarrow> ('b, 't, 'c, 'z) solid_mesh_scheme \<Rightarrow> ('b, 't, 'c, 'z) solid_mesh_scheme" where
  "reRequest env i n s =
     (let s1 = emit (RequestIssued i) s
      in case scheduledRequests s1 i of
           None \<Rightarrow> s1
         | Some _ \<Rightarrow>
             if n + 1 > MaxRequestThreshold env
             then DeleteMissingBlock i (emit (RequestFailed i) (s1\<lparr>scheduledRequests := (scheduledRequests s1)(i := None)\<rparr>))
             else s1\<lparr>scheduledRequests := (scheduledRequests s1)(i \<mapsto> n + 1)\<rparr>)"

section \<open>Solidification\<close>

definition RetrieveMissingBlock ::
    "'b \<Rightarrow> ('b, 't, 'c, 'z) solid_mesh_scheme \<Rightarrow> ('b, 't, 'c, 'z) solid_mesh_scheme \<times> bool" where
  "RetrieveMissingBlock blockID s =
     (case blockMetadataStorage s blockID of
        Some _ \<Rightarrow> (s, False)
      | None \<Rightarrow> case StoreMissingBlock blockID s of (s1, isNew) \<Rightarrow>
          if isNew then (StartRequest blockID (emit (BlockMissing blockID) s1), True) else (s1, False))"

definition isBlockMarkedAsSolid ::
    "('b, 'y) mesh_env_scheme \<Rightarrow> 'b \<Rightarrow> ('b, 't, 'c, 'z) solid_mesh_scheme \<Rightarrow> ('b, 't, 'c, 'z) solid_mesh_scheme \<times> bool" where
  "isBlockMarkedAsSolid env blockID s =
     (if blockID = emptyBlockID env then (s, True)
      else case RetrieveMissingBlock blockID s of (s1, missing) \<Rightarrow>
        if missing then (s1, False)
        else (s1, case blockMetadataStorage s1 blockID of Some m \<Rightarrow> Solid m | None \<Rightarrow> False))"

definition isBlockSolid ::
    "('b, 'y) mesh_env_scheme \<Rightarrow> ('b, 't) Block \<Rightarrow> ('b, 'c) BlockMetadata \<Rightarrow> ('b, 't, 'c, 'z) solid_mesh_scheme \<Rightarrow>
     ('b, 't, 'c, 'z) solid_mesh_scheme \<times> bool" where
  "isBlockSolid env blk m s =
     (if Solid m then (s, True)
      else ForEachParent env blk
        (\<lambda>_ parentID (s, solid). case isBlockMarkedAsSolid env parentID s of (s1, b) \<Rightarrow> (s1, b \<and> solid)) (s, True))"

definition timely :: "time \<Rightarrow> bool" where
  "timely timeDifference \<longleftrightarrow> minParentsTimeDifference \<le> timeDifference \<and> timeDifference \<le> maxParentsTimeDifference"

definition isParentBlockValid ::
    "('b, 't, 'c, 'z) solid_mesh_scheme \<Rightarrow> ('b, 't) Block \<Rightarrow> ('b, 't) Block \<Rightarrow> bool" where
  "isParentBlockValid s parentBlock childBlock =
     (if \<not> timely (IssuingTime childBlock - IssuingTime parentBlock) then False
      else case blockMetadataStorage s (blk_ID parentBlock) of Some m \<Rightarrow> \<not> ObjectivelyInvalid m | None \<Rightarrow> False)"

definition checkParent ::
    "('b, 'y) mesh_env_scheme \<Rightarrow> ('b, 't, 'c, 'z) solid_mesh_scheme \<Rightarrow> ('b, 't) Block \<Rightarrow> ParentsType \<Rightarrow> 'b \<Rightarrow> bool \<Rightarrow> bool" where
  "checkParent env s blk parentType parentID valid =
     (if \<not> valid then valid
      else if parentID = emptyBlockID env
      then (case GenesisNode env of
              Some k \<Rightarrow> k = IssuerPublicKey blk
            | None \<Rightarrow> (case blockMetadataStorage s parentID of
                         Some m \<Rightarrow> timely (IssuingTime blk - SolidificationTime m)
                       | None \<Rightarrow> valid))
      else case blockStorage s parentID of
             None \<Rightarrow> valid
           | Some parentBlock \<Rightarrow>
               if parentType = ShallowLikeParentType \<and> Payload parentBlock = OtherPayload then False
               else isParentBlockValid s parentBlock blk)"

definition areParentBlocksValid ::
    "('b, 'y) mesh_env_scheme \<Rightarrow> ('b, 't, 'c, 'z) solid_mesh_scheme \<Rightarrow> ('b, 't) Block \<Rightarrow> bool" where
  "areParentBlocksValid env s blk = ForEachParent env blk (checkParent env s blk) True"

definition checkBlockSolidity ::
    "('b, 'y) mesh_env_scheme \<Rightarrow> ('b, 't) Block \<Rightarrow> ('b, 'c) BlockMetadata \<Rightarrow> ('b, 't, 'c, 'z) solid_mesh_scheme \<Rightarrow>
     ('b, 't, 'c, 'z) solid_mesh_scheme \<times> bool" where
  "checkBlockSolidity env blk m s =
     (if Solid m then (s, False)
      else case isBlockSolid env blk m s of (s1, solid) \<Rightarrow>
        if \<not> solid then (s1, False)
        else if \<not> areParentBlocksValid env s1 blk
        then (case SetObjectivelyInvalid True m of (m1, modified) \<Rightarrow>
                (if modified then emit (BlockInvalid (blk_ID blk)) (putMetadata m1 s1) else s1, False))
        else case readClock env s1 of (now, s2) \<Rightarrow>
          (case SetSolid now True m of (m1, modified) \<Rightarrow> (putMetadata m1 s2, modified)))"

text \<open>The event BlockSolid is handled by two tasks of these components.\<close>

definition solidify ::
    "('b, 'y) mesh_env_scheme \<Rightarrow> ('b, 't) Block \<Rightarrow> ('b, 't, 'c, 'z) solid_mesh_scheme \<Rightarrow> ('b, 't, 'c, 'z) solid_mesh_scheme" where
  "solidify env blk s =
     (case blockMetadataStorage s (blk_ID blk) of
        None \<Rightarrow> s
      | Some m \<Rightarrow> case checkBlockSolidity env blk m s of (s1, became) \<Rightarrow>
          if became
          then emit (BlockSolid (blk_ID blk))
                 (s1\<lparr>meshTasks := meshTasks s1 @ [ProcessChildrenTask (blk_ID blk), CountChildrenTask (blk_ID blk)]\<rparr>)
          else s1)"

definition Solidify ::
    "('b, 'y) mesh_env_scheme \<Rightarrow> 'b \<Rightarrow> ('b, 't, 'c, 'z) solid_mesh_scheme \<Rightarrow> ('b, 't, 'c, 'z) solid_mesh_scheme" where
  "Solidify env blockID s = (case blockStorage s blockID of Some blk \<Rightarrow> solidify env blk s | None \<Rightarrow> s)"

definition processChildren :: "'b \<Rightarrow> ('b, 't, 'c, 'z) solid_mesh_scheme \<Rightarrow> ('b, 't, 'c, 'z) solid_mesh_scheme" where
  "processChildren blockID s =
     s\<lparr>meshTasks := meshTasks s @ map (\<lambda>c. SolidifyTask (child_BlockID c)) (Children blockID None s)\<rparr>"

section \<open>Orphaned blocks\<close>

definition strongChildCounter :: "('b, 't, 'c, 'z) solid_mesh_scheme \<Rightarrow> 'b \<Rightarrow> int" where
  "strongChildCounter s blockID = (case strongChildCounters s blockID of Some n \<Rightarrow> n | None \<Rightarrow> 0)"

definition increaseStrongChildCounter ::
    "'b \<Rightarrow> ('b, 't, 'c, 'z) solid_mesh_scheme \<Rightarrow> ('b, 't, 'c, 'z) solid_mesh_scheme" where
  "increaseStrongChildCounter blockID s =
     s\<lparr>strongChildCounters := (strongChildCounters s)(blockID \<mapsto> strongChildCounter s blockID + 1)\<rparr>"

definition decreaseStrongChildCounter ::
    "'b \<Rightarrow> ('b, 't, 'c, 'z) solid_mesh_scheme \<Rightarrow> ('b, 't, 'c, 'z) solid_mesh_scheme" where
  "decreaseStrongChildCounter blockID s =
     (let n = strongChildCounter s blockID - 1
      in if n = 0
         then (let s1 = s\<lparr>strongChildCounters := (strongChildCounters s)(blockID := None)\<rparr>
               in case blockStorage s1 blockID of Some _ \<Rightarrow> emit (AllChildrenOrphaned blockID) s1 | None \<Rightarrow> s1)
         else s\<lparr>strongChildCounters := (strongChildCounters s)(blockID \<mapsto> n)\<rparr>)"

definition OrphanBlock ::
    "('b, 'y) mesh_env_scheme \<Rightarrow> 'b \<Rightarrow> ('b, 't, 'c, 'z) solid_mesh_scheme \<Rightarrow> ('b, 't, 'c, 'z) solid_mesh_scheme" where
  "OrphanBlock env blockID s =
     (case blockStorage s blockID of
        Some blk \<Rightarrow> fold decreaseStrongChildCounter (rangeBlockIDs env (ParentsByType blk StrongParentType))
                      (emit (BlockOrphaned blockID) s)
      | None \<Rightarrow> s)"

definition countStrongParents ::
    "('b, 'y) mesh_env_scheme \<Rightarrow> 'b \<Rightarrow> ('b, 't, 'c, 'z) solid_mesh_scheme \<Rightarrow> ('b, 't, 'c, 'z) solid_mesh_scheme" where
  "countStrongParents env blockID s =
     (case blockStorage s blockID of
        Some blk \<Rightarrow> fold increaseStrongChildCounter (rangeBlockIDs env (ParentsByType blk StrongParentType)) s
      | None \<Rightarrow> s)"

definition uncountAccepted :: "'b \<Rightarrow> ('b, 't, 'c, 'z) solid_mesh_scheme \<Rightarrow> ('b, 't, 'c, 'z) solid_mesh_scheme" where
  "uncountAccepted blockID s = s\<lparr>strongChildCounters := (strongChildCounters s)(blockID := None)\<rparr>"

section \<open>Runs\<close>

fun runTask ::
    "('b, 'y) mesh_env_scheme \<Rightarrow> 'b mesh_task \<Rightarrow> ('b, 't, 'c, 'z) solid_mesh_scheme \<Rightarrow> ('b, 't, 'c, 'z) solid_mesh_scheme" where
  "runTask env (ProcessChildrenTask b) s = processChildren b s"
| "runTask env (SolidifyTask b) s = Solidify env b s"
| "runTask env (CountChildrenTask b) s = countStrongParents env b s"
| "runTask env (UncountTask b) s = uncountAccepted b s"

definition receiveBlock ::
    "('b, 'y) mesh_env_scheme \<Rightarrow> ('b, 't) Block \<Rightarrow> ('b, 't, 'c, 'z) solid_mesh_scheme \<Rightarrow> ('b, 't, 'c, 'z) solid_mesh_scheme" where
  "receiveBlock env = StoreBlock env StopRequest (solidify env)"

end
