(* ===== verification/SolidLaws.thy ===== *)
theory SolidLaws
  imports Solidifier
begin

text \<open>
  Laws of solidification: what a check of a block does, the invariant of the solid blocks and of the waiting
  tasks, and that of the requests.
\<close>

text \<open>What Go promises of a range over a map: every entry is visited.\<close>

locale block_ranges =
  fixes env :: "('b, 'y) mesh_env_scheme"
  assumes range_blocks: "enumerates (rangeBlockIDs env)"
    and range_parents: "set (rangeParents env p) = set p"

definition parents_of :: "('b, 't) Block \<Rightarrow> (ParentsType \<times> 'b) set" where
  "parents_of blk = {(t, p). \<exists>ps. (t, ps) \<in> set (blk_Parents blk) \<and> p \<in> ps}"

definition sane_block :: "('b, 't) Block \<Rightarrow> bool" where
  "sane_block blk \<longleftrightarrow> (\<forall>(t, ps)\<in>set (blk_Parents blk). finite ps)"

definition is_solid :: "('b, 't, 'c, 'z) mesh_scheme \<Rightarrow> 'b \<Rightarrow> bool" where
  "is_solid s b \<longleftrightarrow> (\<exists>m. blockMetadataStorage s b = Some m \<and> Solid m)"

context block_ranges
begin

lemma parentList_set: "sane_block blk \<Longrightarrow> set (parentList env blk) = parents_of blk"
proof -
  assume sane: "sane_block blk"
  have elems: "set (rangeBlockIDs env ps) = ps" if "(t, ps) \<in> set (blk_Parents blk)" for t ps
  proof -
    have "finite ps" using that sane unfolding sane_block_def by blast
    then show ?thesis by (rule enumeratesD [OF range_blocks])
  qed
  show ?thesis
  proof (intro set_eqI)
    fix x :: "ParentsType \<times> 'b"
    obtain t p where x: "x = (t, p)" by (cases x)
    have "x \<in> set (parentList env blk) \<longleftrightarrow> (\<exists>ps. (t, ps) \<in> set (blk_Parents blk) \<and> p \<in> set (rangeBlockIDs env ps))"
      by (auto simp: parentList_def range_parents x split: prod.splits)
    then show "x \<in> set (parentList env blk) \<longleftrightarrow> x \<in> parents_of blk"
      using elems by (auto simp: parents_of_def x)
  qed
qed

end

section \<open>Checking a block\<close>

text \<open>A check of the parents only changes the missing blocks, their requests and the events.\<close>

definition same_blocks :: "('b, 't, 'c, 'z) solid_mesh_scheme \<Rightarrow> ('b, 't, 'c, 'z) solid_mesh_scheme \<Rightarrow> bool" where
  "same_blocks s t \<longleftrightarrow> blockStorage t = blockStorage s \<and> blockMetadataStorage t = blockMetadataStorage s \<and>
     childStorage t = childStorage s \<and> meshTasks t = meshTasks s"

text \<open>Exactly the missing blocks are requested, and none of them is known.\<close>

definition requests_ok :: "('b, 't, 'c, 'z) solid_mesh_scheme \<Rightarrow> bool" where
  "requests_ok s \<longleftrightarrow> (\<forall>i. i \<in> set (missingBlockStorage s) \<longleftrightarrow> scheduledRequests s i \<noteq> None) \<and>
     (\<forall>i\<in>set (missingBlockStorage s). blockMetadataStorage s i = None)"

text \<open>A block is known, missing, or was given up.\<close>

definition asked_for :: "('b, 't, 'c, 'z) solid_mesh_scheme \<Rightarrow> 'b \<Rightarrow> bool" where
  "asked_for s p \<longleftrightarrow> blockMetadataStorage s p \<noteq> None \<or> p \<in> set (missingBlockStorage s) \<or> RequestFailed p \<in> set (meshEvents s)"

lemma emit_simps [simp]:
  "blockStorage (emit e s) = blockStorage s" "blockMetadataStorage (emit e s) = blockMetadataStorage s"
  "childStorage (emit e s) = childStorage s" "missingBlockStorage (emit e s) = missingBlockStorage s"
  "meshEvents (emit e s) = meshEvents s @ [e]"
  by (simp_all add: emit_def)

lemma emit_solid_simps [simp]:
  "scheduledRequests (emit e s) = scheduledRequests s" "meshTasks (emit e s) = meshTasks s"
  by (simp_all add: emit_def)

lemma StartRequest_simps [simp]:
  "same_blocks s (StartRequest i s)" "missingBlockStorage (StartRequest i s) = missingBlockStorage s"
  "dom (scheduledRequests (StartRequest i s)) = insert i (dom (scheduledRequests s))"
  "set (meshEvents s) \<subseteq> set (meshEvents (StartRequest i s))"
  by (auto simp: StartRequest_def same_blocks_def split: option.splits)

lemma same_blocks_refl [simp]: "same_blocks s s"
  by (simp add: same_blocks_def)

lemma same_blocks_trans: "same_blocks s t \<Longrightarrow> same_blocks t u \<Longrightarrow> same_blocks s u"
  by (simp add: same_blocks_def)

lemma same_blocks_solid: "same_blocks s t \<Longrightarrow> is_solid t p \<longleftrightarrow> is_solid s p"
  by (simp add: same_blocks_def is_solid_def)

definition marked :: "('b, 't, 'c, 'z) solid_mesh_scheme \<Rightarrow> ('b, 't, 'c, 'z) solid_mesh_scheme \<Rightarrow> bool" where
  "marked s t \<longleftrightarrow> same_blocks s t \<and> (requests_ok s \<longrightarrow> requests_ok t) \<and> (\<forall>q. asked_for s q \<longrightarrow> asked_for t q)"

lemma marked_refl [simp]: "marked s s"
  by (simp add: marked_def)

lemma marked_trans: "marked s t \<Longrightarrow> marked t u \<Longrightarrow> marked s u"
  unfolding marked_def using same_blocks_trans by blast

lemma RetrieveMissingBlock_marked:
  assumes "RetrieveMissingBlock p s = (t, missing)"
  shows "marked s t" and "asked_for t p" and "missing \<Longrightarrow> blockMetadataStorage s p = None"
  using assms
  by (auto simp: RetrieveMissingBlock_def StoreMissingBlock_def marked_def requests_ok_def asked_for_def same_blocks_def
      StartRequest_def split: option.splits if_splits)

lemma isBlockMarkedAsSolid_result:
  assumes "isBlockMarkedAsSolid env p s = (t, b)"
  shows "marked s t" and "b \<longleftrightarrow> p = emptyBlockID env \<or> is_solid s p" and "p = emptyBlockID env \<or> asked_for t p"
proof -
  obtain u missing where r: "RetrieveMissingBlock p s = (u, missing)" by (cases "RetrieveMissingBlock p s")
  note u = RetrieveMissingBlock_marked [OF r]
  have same: "blockMetadataStorage u = blockMetadataStorage s" using u(1) by (simp add: marked_def same_blocks_def)
  show "marked s t" "b \<longleftrightarrow> p = emptyBlockID env \<or> is_solid s p" "p = emptyBlockID env \<or> asked_for t p"
    using assms u
    by (auto simp: isBlockMarkedAsSolid_def r is_solid_def same split: if_splits option.splits)
qed

lemma fold_marked:
  "fold (\<lambda>(pt, p) (s, solid). case isBlockMarkedAsSolid env p s of (s1, b) \<Rightarrow> (s1, b \<and> solid)) ps (s, acc) = (t, b) \<Longrightarrow>
   marked s t \<and> (b \<longleftrightarrow> acc \<and> (\<forall>(pt, p)\<in>set ps. p = emptyBlockID env \<or> is_solid s p)) \<and>
   (\<forall>(pt, p)\<in>set ps. p = emptyBlockID env \<or> asked_for t p)"
proof (induction ps arbitrary: s acc)
  case (Cons x ps)
  obtain pt p where x: "x = (pt, p)" by (cases x)
  obtain s1 c where r: "isBlockMarkedAsSolid env p s = (s1, c)" by (cases "isBlockMarkedAsSolid env p s")
  note m = isBlockMarkedAsSolid_result [OF r]
  have same: "is_solid s1 q \<longleftrightarrow> is_solid s q" for q using m(1) by (simp add: marked_def same_blocks_solid)
  have IH: "marked s1 t" "b \<longleftrightarrow> (c \<and> acc) \<and> (\<forall>(pt, p)\<in>set ps. p = emptyBlockID env \<or> is_solid s1 p)"
    "\<forall>(pt, p)\<in>set ps. p = emptyBlockID env \<or> asked_for t p"
    using Cons.IH [of s1 "c \<and> acc"] Cons.prems by (simp_all add: x r)
  have "p = emptyBlockID env \<or> asked_for t p" using m(3) IH(1) by (auto simp: marked_def)
  then show ?case using IH m(2) marked_trans [OF m(1) IH(1)] by (auto simp: x same)
qed simp

context block_ranges
begin

lemma isBlockSolid_result:
  assumes "sane_block blk" and "isBlockSolid env blk m s = (t, b)" and "\<not> Solid m"
  shows "marked s t" and "b \<longleftrightarrow> (\<forall>(pt, p)\<in>parents_of blk. p = emptyBlockID env \<or> is_solid s p)"
    and "\<forall>(pt, p)\<in>parents_of blk. p = emptyBlockID env \<or> asked_for t p"
proof -
  have "fold (\<lambda>(pt, p) (s, solid). case isBlockMarkedAsSolid env p s of (s1, b) \<Rightarrow> (s1, b \<and> solid))
      (parentList env blk) (s, True) = (t, b)"
    using assms(2,3) by (simp add: isBlockSolid_def ForEachParent_def case_prod_unfold)
  from fold_marked [OF this] show "marked s t"
    and "b \<longleftrightarrow> (\<forall>(pt, p)\<in>parents_of blk. p = emptyBlockID env \<or> is_solid s p)"
    and "\<forall>(pt, p)\<in>parents_of blk. p = emptyBlockID env \<or> asked_for t p"
    by (simp_all add: parentList_set [OF assms(1)])
qed

end

section \<open>Admissible blocks\<close>

text \<open>What a parent has to satisfy; gt is the time at which the genesis became solid.\<close>

definition parent_fits ::
    "('b, 'y) mesh_env_scheme \<Rightarrow> time \<Rightarrow> ('b \<Rightarrow> ('b, 't) Block option) \<Rightarrow> ('b, 't) Block \<Rightarrow> ParentsType \<Rightarrow> 'b \<Rightarrow> bool" where
  "parent_fits env gt B blk t p \<longleftrightarrow>
     (if p = emptyBlockID env
      then (case GenesisNode env of Some k \<Rightarrow> k = IssuerPublicKey blk | None \<Rightarrow> timely (IssuingTime blk - gt))
      else (\<exists>q. B p = Some q \<and> (t = ShallowLikeParentType \<longrightarrow> Payload q \<noteq> OtherPayload) \<and>
              timely (IssuingTime blk - IssuingTime q)))"

text \<open>A block is admissible when its parents fit and are admissible themselves, down to the genesis.\<close>

inductive admissible ::
    "('b, 'y) mesh_env_scheme \<Rightarrow> time \<Rightarrow> ('b \<Rightarrow> ('b, 't) Block option) \<Rightarrow> 'b \<Rightarrow> bool"
  for env gt B where
  admissible: "B b = Some blk \<Longrightarrow> (\<And>t p. (t, p) \<in> parents_of blk \<Longrightarrow> parent_fits env gt B blk t p) \<Longrightarrow>
    (\<And>t p. (t, p) \<in> parents_of blk \<Longrightarrow> p \<noteq> emptyBlockID env \<Longrightarrow> admissible env gt B p) \<Longrightarrow> admissible env gt B b"

lemma parent_fits_mono: "B \<subseteq>\<^sub>m B' \<Longrightarrow> parent_fits env gt B blk t p \<Longrightarrow> parent_fits env gt B' blk t p"
  by (auto simp: parent_fits_def map_le_def dom_def split: if_splits)

lemma admissible_mono:
  assumes "admissible env gt B b" and "B \<subseteq>\<^sub>m B'"
  shows "admissible env gt B' b"
  using assms(1)
proof (induction rule: admissible.induct)
  case (admissible b blk)
  have "B' b = Some blk" using admissible.hyps(1) assms(2) by (metis domI map_le_def)
  then show ?case
    by (rule admissible.intros) (auto intro: parent_fits_mono [OF assms(2)] admissible.hyps admissible.IH)
qed

section \<open>The invariant of solidification\<close>

text \<open>
  ready: the parents of a block are solid and nothing was decided about the block yet.  Then a
  task that looks at the block is waiting; solid_inv leaves out the blocks of a set X.
\<close>

definition parents_solid :: "('b, 'y) mesh_env_scheme \<Rightarrow> ('b, 't, 'c, 'z) mesh_scheme \<Rightarrow> ('b, 't) Block \<Rightarrow> bool" where
  "parents_solid env s blk \<longleftrightarrow> (\<forall>(t, p)\<in>parents_of blk. p = emptyBlockID env \<or> is_solid s p)"

definition parents_fit ::
    "('b, 'y) mesh_env_scheme \<Rightarrow> time \<Rightarrow> ('b \<Rightarrow> ('b, 't) Block option) \<Rightarrow> ('b, 't) Block \<Rightarrow> bool" where
  "parents_fit env gt B blk \<longleftrightarrow> (\<forall>(t, p)\<in>parents_of blk. parent_fits env gt B blk t p)"

definition ready :: "('b, 'y) mesh_env_scheme \<Rightarrow> ('b, 't, 'c, 'z) mesh_scheme \<Rightarrow> 'b \<Rightarrow> bool" where
  "ready env s b \<longleftrightarrow> (\<exists>blk m. blockStorage s b = Some blk \<and> blockMetadataStorage s b = Some m \<and> \<not> Solid m \<and>
     \<not> ObjectivelyInvalid m \<and> parents_solid env s blk)"

definition awaited :: "('b, 't, 'c, 'z) solid_mesh_scheme \<Rightarrow> 'b \<Rightarrow> bool" where
  "awaited s b \<longleftrightarrow> SolidifyTask b \<in> set (meshTasks s) \<or>
     (\<exists>blk t p. blockStorage s b = Some blk \<and> (t, p) \<in> parents_of blk \<and> ProcessChildrenTask p \<in> set (meshTasks s))"

definition blocks_inv :: "('b, 'y) mesh_env_scheme \<Rightarrow> time \<Rightarrow> ('b, 't, 'c, 'z) mesh_scheme \<Rightarrow> bool" where
  "blocks_inv env gt s \<longleftrightarrow>
     (\<forall>i blk. blockStorage s i = Some blk \<longrightarrow> blk_ID blk = i \<and> i \<noteq> emptyBlockID env \<and> sane_block blk \<and>
        blockMetadataStorage s i \<noteq> None \<and>
        (\<forall>(t, p)\<in>parents_of blk. NewChild (ParentTypeToChildType t) p i \<in> set (childStorage s))) \<and>
     (\<forall>i m. blockMetadataStorage s i = Some m \<longrightarrow> meta_ID m = i \<and>
        (i = emptyBlockID env \<longrightarrow> Solid m \<and> SolidificationTime m = gt) \<and>
        (i \<noteq> emptyBlockID env \<longrightarrow> blockStorage s i \<noteq> None \<and>
           (Solid m \<longrightarrow> \<not> ObjectivelyInvalid m \<and> admissible env gt (blockStorage s) i) \<and>
           (ObjectivelyInvalid m \<longrightarrow> (\<forall>blk. blockStorage s i = Some blk \<longrightarrow>
              parents_solid env s blk \<and> \<not> parents_fit env gt (blockStorage s) blk)))) \<and>
     blockMetadataStorage s (emptyBlockID env) \<noteq> None"

definition solid_inv :: "('b, 'y) mesh_env_scheme \<Rightarrow> time \<Rightarrow> 'b set \<Rightarrow> ('b, 't, 'c, 'z) solid_mesh_scheme \<Rightarrow> bool" where
  "solid_inv env gt X s \<longleftrightarrow> blocks_inv env gt s \<and> (\<forall>b. b \<notin> X \<longrightarrow> ready env s b \<longrightarrow> awaited s b)"

lemma blocks_invD:
  assumes "blocks_inv env gt s"
  shows "blockStorage s i = Some blk \<Longrightarrow> blk_ID blk = i"
    and "blockStorage s i = Some blk \<Longrightarrow> i \<noteq> emptyBlockID env"
    and "blockStorage s i = Some blk \<Longrightarrow> sane_block blk"
    and "blockStorage s i = Some blk \<Longrightarrow> \<exists>m. blockMetadataStorage s i = Some m \<and> meta_ID m = i"
    and "blockStorage s i = Some blk \<Longrightarrow> (t, p) \<in> parents_of blk \<Longrightarrow>
      NewChild (ParentTypeToChildType t) p i \<in> set (childStorage s)"
    and "blockMetadataStorage s i = Some m \<Longrightarrow> meta_ID m = i"
    and "blockMetadataStorage s i = Some m \<Longrightarrow> i \<noteq> emptyBlockID env \<Longrightarrow> \<exists>blk. blockStorage s i = Some blk"
    and "blockMetadataStorage s i = Some m \<Longrightarrow> Solid m \<Longrightarrow> i \<noteq> emptyBlockID env \<Longrightarrow>
      \<not> ObjectivelyInvalid m \<and> admissible env gt (blockStorage s) i"
    and "blockMetadataStorage s i = Some m \<Longrightarrow> ObjectivelyInvalid m \<Longrightarrow> i \<noteq> emptyBlockID env \<Longrightarrow>
      blockStorage s i = Some blk \<Longrightarrow> parents_solid env s blk \<and> \<not> parents_fit env gt (blockStorage s) blk"
    and "\<exists>m. blockMetadataStorage s (emptyBlockID env) = Some m \<and> Solid m \<and> SolidificationTime m = gt"
  using assms unfolding blocks_inv_def by (blast | fastforce)+

lemma same_blocks_inv:
  assumes "same_blocks s t"
  shows "blocks_inv env gt t = blocks_inv env gt s" and "ready env t b = ready env s b" and "awaited t b = awaited s b"
  using assms by (simp_all add: same_blocks_def blocks_inv_def ready_def awaited_def is_solid_def parents_solid_def)

text \<open>When the parents are solid, their check is exact.\<close>

lemma fold_checkParent:
  "fold (\<lambda>(t, p). checkParent env s blk t p) ps v \<longleftrightarrow> v \<and> (\<forall>(t, p)\<in>set ps. checkParent env s blk t p True)"
proof (induction ps arbitrary: v)
  case (Cons x ps)
  then show ?case by (cases x, cases v) (auto simp: checkParent_def)
qed simp

lemma checkParent_fits:
  assumes inv: "blocks_inv env gt s" and p: "p = emptyBlockID env \<or> is_solid s p"
  shows "checkParent env s blk t p True \<longleftrightarrow> parent_fits env gt (blockStorage s) blk t p"
proof (cases "p = emptyBlockID env")
  case True
  then show ?thesis using blocks_invD(10) [OF inv] by (auto simp: checkParent_def parent_fits_def split: option.splits)
next
  case False
  then obtain m where m: "blockMetadataStorage s p = Some m" "Solid m" using p by (auto simp: is_solid_def)
  obtain q where q: "blockStorage s p = Some q" using blocks_invD(7) [OF inv m(1) False] by blast
  have "blk_ID q = p" "\<not> ObjectivelyInvalid m" using blocks_invD(1,8) [OF inv] q m False by blast+
  then show ?thesis using False m q by (auto simp: checkParent_def parent_fits_def isParentBlockValid_def)
qed

context block_ranges
begin

lemma areParentBlocksValid_fits:
  assumes "blocks_inv env gt s" and "sane_block blk"
    and "parents_solid env s blk"
  shows "areParentBlocksValid env s blk \<longleftrightarrow> parents_fit env gt (blockStorage s) blk"
proof -
  have "areParentBlocksValid env s blk \<longleftrightarrow> (\<forall>(t, p)\<in>parents_of blk. checkParent env s blk t p True)"
    by (simp add: areParentBlocksValid_def ForEachParent_def fold_checkParent parentList_set [OF assms(2)])
  also have "\<dots> \<longleftrightarrow> parents_fit env gt (blockStorage s) blk"
    using assms(3) checkParent_fits [OF assms(1)] unfolding parents_solid_def parents_fit_def by fastforce
  finally show ?thesis .
qed

end

lemma admissible_iff:
  assumes inv: "blocks_inv env gt s" and blk: "blockStorage s b = Some blk"
    and solid: "parents_solid env s blk"
  shows "admissible env gt (blockStorage s) b \<longleftrightarrow> parents_fit env gt (blockStorage s) blk"
proof
  assume "admissible env gt (blockStorage s) b"
  then show "parents_fit env gt (blockStorage s) blk"
    by cases (auto simp: blk parents_fit_def)
next
  assume fits: "parents_fit env gt (blockStorage s) blk"
  have "admissible env gt (blockStorage s) p" if "(t, p) \<in> parents_of blk" "p \<noteq> emptyBlockID env" for t p
  proof -
    have "is_solid s p" using solid that unfolding parents_solid_def by blast
    then obtain m where "blockMetadataStorage s p = Some m" "Solid m" by (auto simp: is_solid_def)
    then show ?thesis using blocks_invD(8) [OF inv] that(2) by blast
  qed
  with fits blk show "admissible env gt (blockStorage s) b" unfolding parents_fit_def by (blast intro: admissible.intros)
qed

end
