(* ===== verification/SolidRuns.thy ===== *)
theory SolidRuns
  imports SolidLaws
begin

text \<open>
  Every operation keeps the invariants of solidification and of the requests, and the runs of all of
  them: blocks that arrive, waiting tasks in any order, timers, orphaned and accepted blocks.
\<close>

section \<open>Solidifying a block\<close>

lemma putMetadata_simps [simp]:
  "blockStorage (putMetadata m s) = blockStorage s" "childStorage (putMetadata m s) = childStorage s"
  "missingBlockStorage (putMetadata m s) = missingBlockStorage s" "meshEvents (putMetadata m s) = meshEvents s"
  "blockMetadataStorage (putMetadata m s) = (blockMetadataStorage s)(meta_ID m \<mapsto> m)"
  by (simp_all add: putMetadata_def)

lemma putMetadata_solid_simps [simp]:
  "scheduledRequests (putMetadata m s) = scheduledRequests s" "meshTasks (putMetadata m s) = meshTasks s"
  by (simp_all add: putMetadata_def)

lemma is_solid_put: "is_solid (putMetadata m s) p \<longleftrightarrow> (if p = meta_ID m then Solid m else is_solid s p)"
  by (simp add: is_solid_def)

lemma put_blocks_inv:
  assumes inv: "blocks_inv env gt s" and blk: "blockStorage s b = Some blk" and m: "meta_ID m = b"
    and st: "Solid m \<Longrightarrow> \<not> ObjectivelyInvalid m \<and> admissible env gt (blockStorage s) b"
      "ObjectivelyInvalid m \<Longrightarrow> parents_solid env s blk \<and> \<not> parents_fit env gt (blockStorage s) blk"
      "is_solid s b \<Longrightarrow> Solid m"
  shows "blocks_inv env gt (putMetadata m s)"
proof -
  have b: "b \<noteq> emptyBlockID env" "emptyBlockID env \<noteq> b" using blocks_invD(2) [OF inv blk] by auto
  have solid: "parents_solid env (putMetadata m s) blk'" if "parents_solid env s blk'" for blk'
    using that st(3) m unfolding parents_solid_def is_solid_put by (auto split: prod.splits)
  show ?thesis
    unfolding blocks_inv_def putMetadata_simps
    using inv m st blk b solid by (auto simp: blocks_inv_def split: if_splits)
qed

lemma blocks_inv_tasks [simp]:
  "blocks_inv env gt (s\<lparr>meshTasks := ts\<rparr>) = blocks_inv env gt s" "ready env (s\<lparr>meshTasks := ts\<rparr>) b = ready env s b"
  by (simp_all add: blocks_inv_def ready_def is_solid_def parents_solid_def)

lemma blocks_inv_emit [simp]:
  "blocks_inv env gt (emit e s) = blocks_inv env gt s" "ready env (emit e s) b = ready env s b"
  "is_solid (emit e s) p = is_solid s p"
  by (simp_all add: blocks_inv_def ready_def is_solid_def parents_solid_def)

lemma blocks_inv_clock [simp]:
  "blocks_inv env gt (s\<lparr>meshReads := n\<rparr>) = blocks_inv env gt s" "ready env (s\<lparr>meshReads := n\<rparr>) b = ready env s b"
  "is_solid (s\<lparr>meshReads := n\<rparr>) p = is_solid s p"
  by (simp_all add: blocks_inv_def ready_def is_solid_def parents_solid_def)

text \<open>A block that is not ready any more needs no task; one that became solid wakes its children.\<close>

lemma solid_inv_same:
  assumes "solid_inv env gt X s" and "same_blocks s t"
  shows "solid_inv env gt X t"
  using assms(1) by (simp add: solid_inv_def same_blocks_inv [OF assms(2)])

lemma solid_inv_drop:
  assumes "solid_inv env gt {b} s" and "\<not> ready env s b"
  shows "solid_inv env gt {} s"
  using assms by (auto simp: solid_inv_def)

lemma awaited_emit [simp]: "awaited (emit e s) b = awaited s b"
  by (simp add: awaited_def)

lemma solid_inv_emit [simp]: "solid_inv env gt X (emit e s) = solid_inv env gt X s"
  by (simp add: solid_inv_def)

lemma mark_invalid_inv:
  assumes inv: "solid_inv env gt {b} s" and blk: "blockStorage s b = Some blk" and m: "blockMetadataStorage s b = Some m"
    and "\<not> Solid m" and "parents_solid env s blk" "\<not> parents_fit env gt (blockStorage s) blk"
  shows "solid_inv env gt {} (putMetadata (m\<lparr>ObjectivelyInvalid := True\<rparr>) s)"
proof -
  let ?t = "putMetadata (m\<lparr>ObjectivelyInvalid := True\<rparr>) s"
  have b: "blocks_inv env gt s" using inv by (simp add: solid_inv_def)
  have id: "meta_ID m = b" using blocks_invD(6) [OF b m] .
  have "blocks_inv env gt ?t" by (rule put_blocks_inv [OF b blk]) (use assms(4-6) id m in \<open>simp_all add: is_solid_def\<close>)
  moreover have solid: "is_solid ?t p \<longleftrightarrow> is_solid s p" for p
    using assms(4) m by (simp add: is_solid_put id) (simp add: is_solid_def)
  have "awaited ?t c" if "ready env ?t c" for c
  proof -
    have "c \<noteq> b" using that by (auto simp: ready_def id)
    then have "ready env s c" using that by (auto simp: ready_def id solid parents_solid_def)
    then have "awaited s c" using inv \<open>c \<noteq> b\<close> by (simp add: solid_inv_def)
    then show ?thesis by (simp add: awaited_def)
  qed
  ultimately show ?thesis by (simp add: solid_inv_def)
qed

lemma mark_solid_inv:
  assumes inv: "solid_inv env gt {b} s" and blk: "blockStorage s b = Some blk" and m: "blockMetadataStorage s b = Some m"
    and st: "\<not> Solid m" "\<not> ObjectivelyInvalid m" and adm: "admissible env gt (blockStorage s) b"
  shows "solid_inv env gt {} ((putMetadata (m\<lparr>SolidificationTime := now, Solid := True\<rparr>) s)
    \<lparr>meshTasks := meshTasks s @ ProcessChildrenTask b # ts\<rparr>)"
proof -
  let ?u = "putMetadata (m\<lparr>SolidificationTime := now, Solid := True\<rparr>) s"
  let ?t = "?u\<lparr>meshTasks := meshTasks s @ ProcessChildrenTask b # ts\<rparr>"
  have b: "blocks_inv env gt s" using inv by (simp add: solid_inv_def)
  have id: "meta_ID m = b" using blocks_invD(6) [OF b m] .
  have "blocks_inv env gt ?u" by (rule put_blocks_inv [OF b blk]) (use st adm id in simp_all)
  moreover have "awaited ?t c" if r: "ready env ?u c" for c
  proof -
    from r obtain blk' m' where c: "blockStorage s c = Some blk'" "blockMetadataStorage ?u c = Some m'"
        "\<not> Solid m'" "\<not> ObjectivelyInvalid m'" "\<forall>(t, p)\<in>parents_of blk'. p = emptyBlockID env \<or> is_solid ?u p"
      unfolding ready_def parents_solid_def by auto
    have cb: "c \<noteq> b" using c(2,3) by (auto simp: id)
    show ?thesis
    proof (cases "\<exists>t. (t, b) \<in> parents_of blk'")
      case True
      then show ?thesis using c(1) by (auto simp: awaited_def)
    next
      case False
      have "is_solid s p" if p: "(t, p) \<in> parents_of blk'" "p \<noteq> emptyBlockID env" for t p
      proof -
        have "p \<noteq> b" using False p(1) by blast
        moreover have "is_solid ?u p" using c(5) p by blast
        ultimately show ?thesis by (simp add: is_solid_put id)
      qed
      then have "ready env s c" using c(1-4) cb by (auto simp: ready_def id parents_solid_def)
      then have "awaited s c" using inv cb by (simp add: solid_inv_def)
      then show ?thesis by (auto simp: awaited_def)
    qed
  qed
  ultimately show ?thesis by (simp add: solid_inv_def)
qed

context block_ranges
begin

lemma solidify_inv:
  assumes inv: "solid_inv env gt {b} s" and blk: "blockStorage s b = Some blk"
  shows "solid_inv env gt {} (solidify env blk s)"
proof -
  have bi: "blocks_inv env gt s" using inv by (simp add: solid_inv_def)
  have id: "blk_ID blk = b" and sane: "sane_block blk" using blocks_invD(1,3) [OF bi blk] .
  obtain m where m: "blockMetadataStorage s b = Some m" "meta_ID m = b" using blocks_invD(4) [OF bi blk] by blast
  show ?thesis
  proof (cases "Solid m")
    case True
    then have "solidify env blk s = s" by (simp add: solidify_def id m checkBlockSolidity_def)
    moreover have "\<not> ready env s b" using True m by (simp add: ready_def)
    ultimately show ?thesis using solid_inv_drop [OF inv] by simp
  next
    case False
    obtain s1 ok where r: "isBlockSolid env blk m s = (s1, ok)" by (cases "isBlockSolid env blk m s")
    note res = isBlockSolid_result [OF sane r False]
    have same: "same_blocks s s1" using res(1) by (simp add: marked_def)
    have inv1: "solid_inv env gt {b} s1" using solid_inv_same [OF inv same] .
    have st: "blockStorage s1 = blockStorage s" "blockMetadataStorage s1 = blockMetadataStorage s"
      "is_solid s1 p = is_solid s p" for p
      using same by (simp_all add: same_blocks_def is_solid_def)
    show ?thesis
    proof (cases ok)
      case False
      then have "\<not> ready env s1 b" using res(2) blk by (auto simp: ready_def st parents_solid_def)
      with False \<open>\<not> Solid m\<close> show ?thesis
        using solid_inv_drop [OF inv1] by (simp add: solidify_def id m checkBlockSolidity_def r)
    next
      case True
      have bi1: "blocks_inv env gt s1" using inv1 by (simp add: solid_inv_def)
      have par: "parents_solid env s1 blk" using res(2) True by (simp add: st parents_solid_def)
      have blk1: "blockStorage s1 b = Some blk" and m1: "blockMetadataStorage s1 b = Some m" by (simp_all add: st blk m)
      note valid = areParentBlocksValid_fits [OF bi1 sane par]
      show ?thesis
      proof (cases "areParentBlocksValid env s1 blk")
        case True
        then have adm: "admissible env gt (blockStorage s1) b" using valid admissible_iff [OF bi1 blk1 par] by simp
        have oi: "\<not> ObjectivelyInvalid m"
          using blocks_invD(9) [OF bi1 m1 _ blocks_invD(2) [OF bi1 blk1] blk1] True valid by blast
        obtain now s2 where now: "readClock env s1 = (now, s2)" "s2 = s1\<lparr>meshReads := Suc (meshReads s1)\<rparr>"
          by (simp add: readClock_def)
        have "solid_inv env gt {b} s2" using inv1 by (simp add: now solid_inv_def awaited_def)
        then have "solid_inv env gt {} ((putMetadata (m\<lparr>SolidificationTime := now, Solid := True\<rparr>) s2)
            \<lparr>meshTasks := meshTasks s2 @ ProcessChildrenTask b # [CountChildrenTask b]\<rparr>)"
          by (rule mark_solid_inv) (use blk1 m1 \<open>\<not> Solid m\<close> oi adm in \<open>simp_all add: now\<close>)
        then show ?thesis
          using True \<open>ok\<close> \<open>\<not> Solid m\<close> by (simp add: solidify_def id m checkBlockSolidity_def r now(1) SetSolid_def)
      next
        case False
        then have nfit: "\<not> parents_fit env gt (blockStorage s1) blk" using valid by simp
        note inv2 = mark_invalid_inv [OF inv1 blk1 m1 \<open>\<not> Solid m\<close> par nfit]
        have nr: "solid_inv env gt {} s1" if "ObjectivelyInvalid m"
          using solid_inv_drop [OF inv1] that m1 by (simp add: ready_def)
        show ?thesis
          using False \<open>ok\<close> \<open>\<not> Solid m\<close> inv2 nr
          by (simp add: solidify_def id m checkBlockSolidity_def r SetObjectivelyInvalid_def)
      qed
    qed
  qed
qed

end

section \<open>Requests\<close>

definition asked_inv :: "('b, 'y) mesh_env_scheme \<Rightarrow> 'b set \<Rightarrow> ('b, 't, 'c, 'z) solid_mesh_scheme \<Rightarrow> bool" where
  "asked_inv env X s \<longleftrightarrow> (\<forall>b blk m. b \<notin> X \<longrightarrow> blockStorage s b = Some blk \<longrightarrow> blockMetadataStorage s b = Some m \<longrightarrow>
     \<not> Solid m \<longrightarrow> \<not> ObjectivelyInvalid m \<longrightarrow> (\<forall>(t, p)\<in>parents_of blk. p = emptyBlockID env \<or> asked_for s p))"

text \<open>The whole state: the blocks of X are about to be checked.\<close>

definition mesh_inv :: "('b, 'y) mesh_env_scheme \<Rightarrow> time \<Rightarrow> 'b set \<Rightarrow> ('b, 't, 'c, 'z) solid_mesh_scheme \<Rightarrow> bool" where
  "mesh_inv env gt X s \<longleftrightarrow> solid_inv env gt X s \<and> requests_ok s \<and> asked_inv env X s"

lemma mesh_invD:
  assumes "mesh_inv env gt X s"
  shows "solid_inv env gt X s" and "blocks_inv env gt s" and "requests_ok s" and "asked_inv env X s"
  using assms by (auto simp: mesh_inv_def solid_inv_def)

text \<open>What a step may do to the other blocks.\<close>

lemma asked_inv_step:
  assumes "asked_inv env X s" and "blockStorage t = blockStorage s" and "\<And>q. asked_for s q \<Longrightarrow> asked_for t q"
    and "\<And>b m. b \<notin> Y \<Longrightarrow> blockMetadataStorage t b = Some m \<Longrightarrow> \<not> Solid m \<Longrightarrow> \<not> ObjectivelyInvalid m \<Longrightarrow>
      b \<notin> X \<and> blockMetadataStorage s b = Some m"
  shows "asked_inv env Y t"
  using assms unfolding asked_inv_def by (simp add: case_prod_unfold) blast

lemma requests_ok_put:
  assumes "requests_ok s" and "blockMetadataStorage s (meta_ID m) \<noteq> None"
  shows "requests_ok (putMetadata m s)"
  using assms by (auto simp: requests_ok_def)

lemma asked_for_put [intro]: "asked_for s q \<Longrightarrow> asked_for (putMetadata m s) q"
  by (auto simp: asked_for_def)

lemma asked_for_emit [intro]: "asked_for s q \<Longrightarrow> asked_for (emit e s) q"
  by (auto simp: asked_for_def)

lemma request_simps [simp]:
  "requests_ok (emit e s) = requests_ok s" "requests_ok (s\<lparr>meshTasks := ts\<rparr>) = requests_ok s"
  "requests_ok (s\<lparr>meshReads := n\<rparr>) = requests_ok s"
  "asked_for (s\<lparr>meshTasks := ts\<rparr>) q = asked_for s q" "asked_for (s\<lparr>meshReads := n\<rparr>) q = asked_for s q"
  by (simp_all add: requests_ok_def asked_for_def)

text \<open>
  A check of a block is a check of its parents, after which the block is unchanged, or is
  solid or invalid.
\<close>

definition checked :: "'b \<Rightarrow> ('b, 't, 'c, 'z) solid_mesh_scheme \<Rightarrow> ('b, 't, 'c, 'z) solid_mesh_scheme \<Rightarrow> bool" where
  "checked b s t \<longleftrightarrow> blockStorage t = blockStorage s \<and> (requests_ok s \<longrightarrow> requests_ok t) \<and>
     (\<forall>q. asked_for s q \<longrightarrow> asked_for t q) \<and>
     (\<forall>c m. blockMetadataStorage t c = Some m \<longrightarrow> \<not> Solid m \<longrightarrow> \<not> ObjectivelyInvalid m \<longrightarrow>
        blockMetadataStorage s c = Some m)"

lemma marked_checked: "marked s t \<Longrightarrow> checked b s t"
  by (simp add: marked_def checked_def same_blocks_def)

context block_ranges
begin

lemma solidify_checked:
  fixes s :: "('b, 't, 'c, 'z) solid_mesh_scheme"
  assumes bi: "blocks_inv env gt s" and blk: "blockStorage s b = Some blk"
  shows "checked b s (solidify env blk s)"
    and "\<And>m. blockMetadataStorage s b = Some m \<Longrightarrow> \<not> Solid m \<Longrightarrow>
      \<forall>(t, p)\<in>parents_of blk. p = emptyBlockID env \<or> asked_for (solidify env blk s) p"
proof -
  have id: "blk_ID blk = b" and sane: "sane_block blk" using blocks_invD(1,3) [OF bi blk] .
  obtain m where m: "blockMetadataStorage s b = Some m" "meta_ID m = b" using blocks_invD(4) [OF bi blk] by blast
  have "checked b s (solidify env blk s) \<and>
    (\<not> Solid m \<longrightarrow> (\<forall>(t, p)\<in>parents_of blk. p = emptyBlockID env \<or> asked_for (solidify env blk s) p))"
  proof (cases "Solid m")
    case True
    then have "solidify env blk s = s" by (simp add: solidify_def id m checkBlockSolidity_def)
    then show ?thesis using True by (simp add: checked_def)
  next
    case False
    obtain s1 ok where r: "isBlockSolid env blk m s = (s1, ok)" by (cases "isBlockSolid env blk m s")
    note res = isBlockSolid_result [OF sane r False]
    have m1: "blockMetadataStorage s1 b = Some m" using res(1) m by (simp add: marked_def same_blocks_def)
    have ch: "checked b s s1" using res(1) by (rule marked_checked)
    have put: "checked b s (putMetadata m' u)"
      if "meta_ID m' = b" "Solid m' \<or> ObjectivelyInvalid m'" "u = s1 \<or> (\<exists>n. u = s1\<lparr>meshReads := n\<rparr>)"
      for m' and u :: "('b, 't, 'c, 'z) solid_mesh_scheme"
      using ch that m1 by (auto simp: checked_def intro: requests_ok_put)
    have res3: "\<forall>(t, p)\<in>parents_of blk. p = emptyBlockID env \<or> asked_for u p"
      if "\<And>q. asked_for s1 q \<Longrightarrow> asked_for u q" for u :: "('b, 't, 'c, 'z) solid_mesh_scheme"
      using res(3) that by fastforce
    show ?thesis
    proof (cases "ok \<and> areParentBlocksValid env s1 blk")
      case True
      define u where "u = putMetadata (m\<lparr>SolidificationTime := fst (readClock env s1), Solid := True\<rparr>) (snd (readClock env s1))"
      have eq: "solidify env blk s = emit (BlockSolid b)
          (u\<lparr>meshTasks := meshTasks u @ [ProcessChildrenTask b, CountChildrenTask b]\<rparr>)"
        using True False
        by (simp add: solidify_def id m checkBlockSolidity_def r SetSolid_def readClock_def u_def)
      have "checked b s u" unfolding u_def by (rule put) (auto simp: m readClock_def)
      moreover have "asked_for u q" if "asked_for s1 q" for q
        using that by (auto simp: u_def readClock_def)
      ultimately show ?thesis unfolding eq using False
        by (auto simp: checked_def intro!: res3)
    next
      case bad: False
      show ?thesis
      proof (cases ok)
        case True
        have eq: "solidify env blk s = (if ObjectivelyInvalid m then s1
            else emit (BlockInvalid b) (putMetadata (m\<lparr>ObjectivelyInvalid := True\<rparr>) s1))"
          using True bad False by (simp add: solidify_def id m checkBlockSolidity_def r SetObjectivelyInvalid_def)
        have "checked b s (putMetadata (m\<lparr>ObjectivelyInvalid := True\<rparr>) s1)" by (rule put) (auto simp: m)
        then show ?thesis unfolding eq using ch by (auto simp: checked_def intro!: res3)
      next
        case nok: False
        then have "solidify env blk s = s1" using False by (simp add: solidify_def id m checkBlockSolidity_def r)
        then show ?thesis using ch res3 by simp
      qed
    qed
  qed
  then show "checked b s (solidify env blk s)"
    and "\<And>m. blockMetadataStorage s b = Some m \<Longrightarrow> \<not> Solid m \<Longrightarrow>
      \<forall>(t, p)\<in>parents_of blk. p = emptyBlockID env \<or> asked_for (solidify env blk s) p"
    using m by simp_all
qed

lemma solidify_mesh_inv:
  assumes inv: "mesh_inv env gt {b} s" and blk: "blockStorage s b = Some blk"
  shows "mesh_inv env gt {} (solidify env blk s)"
proof -
  let ?t = "solidify env blk s"
  note bi = mesh_invD(2) [OF inv]
  note ch = solidify_checked [OF bi blk]
  have solid: "solid_inv env gt {} ?t" using solidify_inv [OF mesh_invD(1) [OF inv] blk] .
  have "asked_inv env {} ?t"
    unfolding asked_inv_def
  proof (intro allI impI)
    fix c blk' m assume c: "blockStorage ?t c = Some blk'" "blockMetadataStorage ?t c = Some m" "\<not> Solid m"
      "\<not> ObjectivelyInvalid m"
    have old: "blockStorage s c = Some blk'" "blockMetadataStorage s c = Some m"
      using c ch(1) unfolding checked_def by auto
    show "\<forall>(t, p)\<in>parents_of blk'. p = emptyBlockID env \<or> asked_for ?t p"
    proof (cases "c = b")
      case True
      then show ?thesis using ch(2) old c blk by auto
    next
      case False
      then have "\<forall>(t, p)\<in>parents_of blk'. p = emptyBlockID env \<or> asked_for s p"
        using mesh_invD(4) [OF inv] old c unfolding asked_inv_def by blast
      then show ?thesis using ch(1) unfolding checked_def by fastforce
    qed
  qed
  moreover have "requests_ok ?t" using ch(1) mesh_invD(3) [OF inv] by (simp add: checked_def)
  ultimately show ?thesis using solid by (simp add: mesh_inv_def)
qed

end

end
