(* ===== verification/SolidMachine.thy ===== *)
theory SolidMachine
  imports SolidRuns
begin

text \<open>
  The runs of solidification and their properties.
\<close>

section \<open>A block arrives\<close>

lemma fold_storeChildOf:
  "fold (\<lambda>(t, p). storeChildOf b t p) ps s =
     s\<lparr>childStorage := fold (\<lambda>(t, p). List.insert (NewChild (ParentTypeToChildType t) p b)) ps (childStorage s)\<rparr>"
  by (induction ps arbitrary: s) (auto simp: storeChildOf_def)

lemma fold_insert_set:
  "set (fold (\<lambda>(t, p). List.insert (f t p)) ps cs) = (\<lambda>(t, p). f t p) ` set ps \<union> set cs"
  by (induction ps arbitrary: cs) auto

lemma storeNewBlock_fields:
  "blockStorage (storeNewBlock env blk s) = (blockStorage s)(blk_ID blk \<mapsto> blk)"
  "blockMetadataStorage (storeNewBlock env blk s) = blockMetadataStorage s"
  "missingBlockStorage (storeNewBlock env blk s) = missingBlockStorage s"
  "meshEvents (storeNewBlock env blk s) = meshEvents s"
  "set (childStorage (storeNewBlock env blk s)) =
     (\<lambda>(t, p). NewChild (ParentTypeToChildType t) p (blk_ID blk)) ` set (parentList env blk) \<union> set (childStorage s)"
  by (simp_all add: storeNewBlock_def ForEachParent_def fold_storeChildOf fold_insert_set)

lemma storeNewBlock_solid_fields:
  "scheduledRequests (storeNewBlock env blk s) = scheduledRequests s"
  "meshTasks (storeNewBlock env blk s) = meshTasks s"
  by (simp_all add: storeNewBlock_def ForEachParent_def fold_storeChildOf)

text \<open>The state after a new block was stored and before it is checked.\<close>

definition arrived ::
    "('b, 'y) mesh_env_scheme \<Rightarrow> ('b, 't) Block \<Rightarrow> ('b, 't, 'c, 'z) solid_mesh_scheme \<Rightarrow> ('b, 't, 'c, 'z) solid_mesh_scheme \<Rightarrow> bool" where
  "arrived env blk s t \<longleftrightarrow>
     blockStorage t = (blockStorage s)(blk_ID blk \<mapsto> blk) \<and>
     (\<exists>now. blockMetadataStorage t = (blockMetadataStorage s)(blk_ID blk \<mapsto> NewBlockMetadata now (blk_ID blk))) \<and>
     set (childStorage t) = (\<lambda>(t, p). NewChild (ParentTypeToChildType t) p (blk_ID blk)) ` set (parentList env blk) \<union> set (childStorage s) \<and>
     set (missingBlockStorage t) = set (missingBlockStorage s) - {blk_ID blk} \<and>
     (requests_ok s \<longrightarrow> scheduledRequests t = (scheduledRequests s)(blk_ID blk := None)) \<and>
     meshTasks t = meshTasks s \<and> set (meshEvents s) \<subseteq> set (meshEvents t)"

lemma StoreBlock_arrived:
  assumes "blockMetadataStorage s (blk_ID blk) = None"
  obtains t where "receiveBlock env blk s = solidify env blk t" "arrived env blk s t"
proof -
  let ?s2 = "storeNewBlock env blk (putMetadata (NewBlockMetadata (meshTime env (meshReads s)) (blk_ID blk))
    (s\<lparr>meshReads := Suc (meshReads s)\<rparr>))"
  let ?s3 = "if blk_ID blk \<in> set (missingBlockStorage ?s2)
    then StopRequest (blk_ID blk) (emit (MissingBlockStored (blk_ID blk))
           (?s2\<lparr>missingBlockStorage := removeAll (blk_ID blk) (missingBlockStorage ?s2)\<rparr>))
    else ?s2"
  have eq: "receiveBlock env blk s = solidify env blk (emit (BlockStored (blk_ID blk)) ?s3)"
    using assms by (simp add: receiveBlock_def StoreBlock_def readClock_def Let_def)
  have id: "meta_ID (NewBlockMetadata now i) = i" for now i
    by (simp add: NewBlockMetadata_def zeroMetadata_def)
  have "arrived env blk s (emit (BlockStored (blk_ID blk)) ?s3)"
    by (auto simp: arrived_def storeNewBlock_fields storeNewBlock_solid_fields StopRequest_def id requests_ok_def
        fun_upd_idem split: option.splits)
  with eq show thesis by (rule that)
qed

lemma is_solid_arrived:
  assumes "arrived env blk s t" and "blockMetadataStorage s (blk_ID blk) = None"
  shows "is_solid t p = is_solid s p"
proof -
  obtain now where "blockMetadataStorage t = (blockMetadataStorage s)(blk_ID blk \<mapsto> NewBlockMetadata now (blk_ID blk))"
    using assms(1) by (auto simp: arrived_def)
  then show ?thesis using assms(2) by (simp add: is_solid_def NewBlockMetadata_def zeroMetadata_def)
qed

context block_ranges
begin

lemma arrived_blocks_inv:
  assumes inv: "blocks_inv env gt s" and a: "arrived env blk s t" and new: "blockMetadataStorage s (blk_ID blk) = None"
    and sane: "sane_block blk"
  shows "blocks_inv env gt t"
proof -
  let ?b = "blk_ID blk"
  obtain now where md: "blockMetadataStorage t = (blockMetadataStorage s)(?b \<mapsto> NewBlockMetadata now ?b)"
    using a by (auto simp: arrived_def)
  have B: "blockStorage t = (blockStorage s)(?b \<mapsto> blk)"
    and ch: "set (childStorage t) = (\<lambda>(t, p). NewChild (ParentTypeToChildType t) p ?b) ` parents_of blk \<union> set (childStorage s)"
    using a by (simp_all add: arrived_def parentList_set [OF sane])
  have nb: "blockStorage s ?b = None" using blocks_invD(4) [OF inv, of ?b] new by (cases "blockStorage s ?b") auto
  have ne: "?b \<noteq> emptyBlockID env" using blocks_invD(10) [OF inv] new by auto
  have le: "blockStorage s \<subseteq>\<^sub>m blockStorage t" using nb by (auto simp: B map_le_def)
  have new_meta: "meta_ID (NewBlockMetadata now ?b) = ?b" "\<not> Solid (NewBlockMetadata now ?b)"
      "\<not> ObjectivelyInvalid (NewBlockMetadata now ?b)"
    by (simp_all add: NewBlockMetadata_def zeroMetadata_def)
  have solid: "parents_solid env t blk' = parents_solid env s blk'" for blk'
    by (simp add: parents_solid_def is_solid_arrived [OF a new])
  have fit: "parents_fit env gt (blockStorage t) blk' \<longleftrightarrow> parents_fit env gt (blockStorage s) blk'"
    if ps: "parents_solid env s blk'" for blk'
  proof -
    have "parent_fits env gt (blockStorage t) blk' pt p \<longleftrightarrow> parent_fits env gt (blockStorage s) blk' pt p"
      if "(pt, p) \<in> parents_of blk'" for pt p
    proof -
      have "p = emptyBlockID env \<or> is_solid s p" using ps that by (auto simp: parents_solid_def)
      then have "p = emptyBlockID env \<or> p \<noteq> ?b" using new by (auto simp: is_solid_def)
      then show ?thesis by (auto simp: parent_fits_def B)
    qed
    then show ?thesis by (auto simp: parents_fit_def)
  qed
  show ?thesis
    unfolding blocks_inv_def
  proof (intro conjI allI impI)
    fix i blk' assume i: "blockStorage t i = Some blk'"
    show "blk_ID blk' = i" "i \<noteq> emptyBlockID env" "sane_block blk'" "blockMetadataStorage t i \<noteq> None"
      using i blocks_invD(1-4) [OF inv, of i blk'] sane ne by (auto simp: B md split: if_splits)
    show "\<forall>(pt, p)\<in>parents_of blk'. NewChild (ParentTypeToChildType pt) p i \<in> set (childStorage t)"
      using i blocks_invD(5) [OF inv, of i blk'] by (auto simp: B ch split: if_splits)
  next
    fix i m assume i: "blockMetadataStorage t i = Some m"
    show "meta_ID m = i" using i blocks_invD(6) [OF inv, of i m] new_meta by (auto simp: md split: if_splits)
    show "Solid m" "SolidificationTime m = gt" if "i = emptyBlockID env"
      using i that ne blocks_invD(10) [OF inv] by (auto simp: md split: if_splits)
    { assume ie: "i \<noteq> emptyBlockID env"
      show "blockStorage t i \<noteq> None" using i blocks_invD(7) [OF inv _ ie] by (auto simp: md B split: if_splits)
      { assume m: "Solid m"
        have "blockMetadataStorage s i = Some m" using i m new_meta by (auto simp: md split: if_splits)
        from blocks_invD(8) [OF inv this m ie] show "\<not> ObjectivelyInvalid m" "admissible env gt (blockStorage t) i"
          using admissible_mono [OF _ le] by blast+ }
      { fix blk' assume m: "ObjectivelyInvalid m" and blk': "blockStorage t i = Some blk'"
        have old: "blockMetadataStorage s i = Some m" "i \<noteq> ?b" using i m new_meta by (auto simp: md split: if_splits)
        have "blockStorage s i = Some blk'" using blk' old(2) by (simp add: B)
        from blocks_invD(9) [OF inv old(1) m ie this]
        show "parents_solid env t blk'" "\<not> parents_fit env gt (blockStorage t) blk'" using solid fit by blast+ } }
  next
    show "blockMetadataStorage t (emptyBlockID env) \<noteq> None" using blocks_invD(10) [OF inv] by (auto simp: md)
  qed
qed

lemma arrived_mesh_inv:
  assumes inv: "mesh_inv env gt {} s" and a: "arrived env blk s t" and new: "blockMetadataStorage s (blk_ID blk) = None"
    and sane: "sane_block blk"
  shows "mesh_inv env gt {blk_ID blk} t"
proof -
  let ?b = "blk_ID blk"
  note bi = mesh_invD(2) [OF inv]
  obtain now where md: "blockMetadataStorage t = (blockMetadataStorage s)(?b \<mapsto> NewBlockMetadata now ?b)"
    using a by (auto simp: arrived_def)
  have B: "blockStorage t = (blockStorage s)(?b \<mapsto> blk)" and mi: "set (missingBlockStorage t) = set (missingBlockStorage s) - {?b}"
    and sr: "scheduledRequests t = (scheduledRequests s)(?b := None)" and ts: "meshTasks t = meshTasks s"
    and ev: "set (meshEvents s) \<subseteq> set (meshEvents t)"
    using a mesh_invD(3) [OF inv] by (simp_all add: arrived_def)
  have asked: "asked_for t q" if "asked_for s q" for q
    using that ev by (auto simp: asked_for_def md mi)
  have "awaited t c" if "c \<noteq> ?b" "ready env t c" for c
  proof -
    have "ready env s c"
      using that by (auto simp: ready_def B md parents_solid_def is_solid_arrived [OF a new])
    then have "awaited s c" using mesh_invD(1) [OF inv] by (simp add: solid_inv_def)
    then show ?thesis using that(1) by (simp add: awaited_def ts B)
  qed
  then have "solid_inv env gt {?b} t"
    using arrived_blocks_inv [OF bi a new sane] by (simp add: solid_inv_def)
  moreover have "requests_ok t"
    using mesh_invD(3) [OF inv] by (auto simp: requests_ok_def mi sr md)
  moreover have "asked_inv env {?b} t"
    unfolding asked_inv_def
  proof (intro allI impI)
    fix c blk' m assume c: "c \<notin> {?b}" "blockStorage t c = Some blk'" "blockMetadataStorage t c = Some m" "\<not> Solid m"
      "\<not> ObjectivelyInvalid m"
    then have "\<forall>(pt, p)\<in>parents_of blk'. p = emptyBlockID env \<or> asked_for s p"
      using mesh_invD(4) [OF inv] by (simp add: asked_inv_def B md)
    then show "\<forall>(pt, p)\<in>parents_of blk'. p = emptyBlockID env \<or> asked_for t p" using asked by fastforce
  qed
  ultimately show ?thesis by (simp add: mesh_inv_def)
qed

lemma receiveBlock_inv:
  assumes inv: "mesh_inv env gt {} s" and sane: "sane_block blk"
  shows "mesh_inv env gt {} (receiveBlock env blk s)"
proof (cases "blockMetadataStorage s (blk_ID blk)")
  case None
  obtain t where t: "receiveBlock env blk s = solidify env blk t" "arrived env blk s t"
    using StoreBlock_arrived [OF None] .
  have "blockStorage t (blk_ID blk) = Some blk" using t(2) by (simp add: arrived_def)
  then show ?thesis unfolding t(1) by (rule solidify_mesh_inv [OF arrived_mesh_inv [OF inv t(2) None sane]])
next
  case (Some m)
  then have "receiveBlock env blk s = s\<lparr>meshReads := Suc (meshReads s)\<rparr>"
    by (simp add: receiveBlock_def StoreBlock_def readClock_def)
  moreover have "mesh_inv env gt {} (s\<lparr>meshReads := Suc (meshReads s)\<rparr>)"
    using inv by (simp add: mesh_inv_def solid_inv_def awaited_def asked_inv_def)
  ultimately show ?thesis by simp
qed

end

section \<open>The other steps\<close>

lemma mesh_inv_cong:
  assumes "mesh_inv env gt X s" and "same_blocks s t" and "scheduledRequests t = scheduledRequests s"
    and "missingBlockStorage t = missingBlockStorage s" and "set (meshEvents s) \<subseteq> set (meshEvents t)"
  shows "mesh_inv env gt X t"
proof -
  have "asked_for s q \<Longrightarrow> asked_for t q" for q
    using assms(2,4,5) by (auto simp: asked_for_def same_blocks_def)
  then have "asked_inv env X t"
    using mesh_invD(4) [OF assms(1)] assms(2) unfolding asked_inv_def same_blocks_def by fastforce
  then show ?thesis
    using mesh_invD(3) [OF assms(1)] solid_inv_same [OF mesh_invD(1) [OF assms(1)] assms(2)] assms(2-4)
    by (simp add: mesh_inv_def requests_ok_def same_blocks_def)
qed

text \<open>The counters of the strong children are independent of everything else.\<close>

definition counts :: "('b, 't, 'c, 'z) solid_mesh_scheme \<Rightarrow> ('b, 't, 'c, 'z) solid_mesh_scheme \<Rightarrow> bool" where
  "counts s t \<longleftrightarrow> same_blocks s t \<and> scheduledRequests t = scheduledRequests s \<and>
     missingBlockStorage t = missingBlockStorage s \<and> set (meshEvents s) \<subseteq> set (meshEvents t)"

lemma counts_refl [simp]: "counts s s"
  by (simp add: counts_def)

lemma counts_trans: "counts s t \<Longrightarrow> counts t u \<Longrightarrow> counts s u"
  by (auto simp: counts_def same_blocks_def)

lemma counts_fold:
  assumes "\<And>x s. counts s (f x s)"
  shows "counts s (fold f xs s)"
  by (induction xs arbitrary: s) (auto intro: counts_trans assms)

lemma counts_inv: "counts s t \<Longrightarrow> mesh_inv env gt X s \<Longrightarrow> mesh_inv env gt X t"
  unfolding counts_def by (rule mesh_inv_cong) auto

lemma counter_counts:
  "counts s (emit e s)" "counts s (increaseStrongChildCounter b s)" "counts s (decreaseStrongChildCounter b s)"
  "counts s (uncountAccepted b s)"
  by (auto simp: counts_def same_blocks_def increaseStrongChildCounter_def decreaseStrongChildCounter_def
      uncountAccepted_def Let_def split: option.splits)

lemma orphan_counts: "counts s (OrphanBlock env b s)" "counts s (countStrongParents env b s)"
  by (auto simp: OrphanBlock_def countStrongParents_def split: option.splits
      intro: counts_trans [OF counter_counts(1)] counts_fold counter_counts)

text \<open>The tasks.\<close>

lemma asked_inv_tasks [simp]: "asked_inv env X (s\<lparr>meshTasks := ts\<rparr>) = asked_inv env X s"
  by (simp add: asked_inv_def)

lemma take_task:
  assumes inv: "mesh_inv env gt {} s" and tasks: "meshTasks s = xs @ t # ys"
    and rest: "\<And>b. b \<notin> X \<Longrightarrow> ready env s b \<Longrightarrow> awaited s b \<Longrightarrow> awaited (s\<lparr>meshTasks := xs @ ys @ zs\<rparr>) b"
  shows "mesh_inv env gt X (s\<lparr>meshTasks := xs @ ys @ zs\<rparr>)"
proof -
  have "asked_inv env X s" using mesh_invD(4) [OF inv] by (simp add: asked_inv_def)
  then show ?thesis
    using mesh_invD(1,3) [OF inv] rest by (simp add: mesh_inv_def solid_inv_def)
qed

context block_ranges
begin

lemma runTask_inv:
  assumes inv: "mesh_inv env gt {} s" and tasks: "meshTasks s = xs @ t # ys"
  shows "mesh_inv env gt {} (runTask env t (s\<lparr>meshTasks := xs @ ys\<rparr>))"
proof -
  let ?s = "s\<lparr>meshTasks := xs @ ys\<rparr>"
  have other: "mesh_inv env gt {} ?s" if "\<And>b. t \<noteq> SolidifyTask b \<and> t \<noteq> ProcessChildrenTask b"
    using take_task [OF inv tasks, of "{}" "[]"] that by (auto simp: awaited_def tasks)
  show ?thesis
  proof (cases t)
    case (ProcessChildrenTask p)
    let ?ts = "map (\<lambda>c. SolidifyTask (child_BlockID c)) (Children p None ?s)"
    have "awaited (s\<lparr>meshTasks := xs @ ys @ ?ts\<rparr>) c" if c: "ready env s c" "awaited s c" for c
    proof -
      obtain blk where blk: "blockStorage s c = Some blk" using c(1) by (auto simp: ready_def)
      have "SolidifyTask c \<in> set ?ts" if "(pt, p) \<in> parents_of blk" for pt
      proof -
        have "NewChild (ParentTypeToChildType pt) p c \<in> set (Children p None ?s)"
          using blocks_invD(5) [OF mesh_invD(2) [OF inv] blk that] by (simp add: Children_def NewChild_def)
        then show ?thesis by (force simp: NewChild_def)
      qed
      then show ?thesis using c(2) blk by (auto simp: awaited_def tasks ProcessChildrenTask)
    qed
    then have "mesh_inv env gt {} (s\<lparr>meshTasks := xs @ ys @ ?ts\<rparr>)" using take_task [OF inv tasks] by blast
    then show ?thesis by (simp add: ProcessChildrenTask processChildren_def Children_def)
  next
    case (SolidifyTask b)
    have "awaited (s\<lparr>meshTasks := xs @ ys @ []\<rparr>) c" if "c \<notin> {b}" "awaited s c" for c
      using that by (auto simp: awaited_def tasks SolidifyTask)
    then have b: "mesh_inv env gt {b} ?s" using take_task [OF inv tasks, of "{b}" "[]"] by simp
    show ?thesis
    proof (cases "blockStorage s b")
      case None
      then have "solid_inv env gt {} ?s" using solid_inv_drop [OF mesh_invD(1) [OF b]] by (simp add: ready_def)
      moreover have "asked_inv env {} ?s"
        unfolding asked_inv_def
      proof (intro allI impI)
        fix c blk m assume c: "blockStorage ?s c = Some blk" "blockMetadataStorage ?s c = Some m" "\<not> Solid m"
          "\<not> ObjectivelyInvalid m"
        then have "c \<notin> {b}" using None by auto
        with c show "\<forall>(t, p)\<in>parents_of blk. p = emptyBlockID env \<or> asked_for ?s p"
          using mesh_invD(4) [OF b] unfolding asked_inv_def by blast
      qed
      ultimately have "mesh_inv env gt {} ?s" using mesh_invD(3) [OF b] by (simp add: mesh_inv_def)
      then show ?thesis by (simp add: SolidifyTask Solidify_def None)
    next
      case (Some blk)
      then show ?thesis using solidify_mesh_inv [OF b] by (simp add: SolidifyTask Solidify_def)
    qed
  next
    case (CountChildrenTask b)
    then show ?thesis using counts_inv [OF orphan_counts(2) other] by simp
  next
    case (UncountTask b)
    then show ?thesis using counts_inv [OF counter_counts(4) other] by simp
  qed
qed

end

lemma reRequest_inv: "mesh_inv env gt {} s \<Longrightarrow> mesh_inv env gt {} (reRequest env i n s)"
proof -
  assume inv: "mesh_inv env gt {} s"
  let ?t = "reRequest env i n s"
  have same: "same_blocks s ?t" by (simp add: reRequest_def same_blocks_def DeleteMissingBlock_def Let_def split: option.splits)
  have ok: "requests_ok ?t" using mesh_invD(3) [OF inv]
    by (auto simp: reRequest_def requests_ok_def DeleteMissingBlock_def Let_def split: option.splits)
  have "asked_for s q \<Longrightarrow> asked_for ?t q" for q
    by (auto simp: reRequest_def asked_for_def DeleteMissingBlock_def Let_def split: option.splits)
  then have "asked_inv env {} ?t"
    using mesh_invD(4) [OF inv] same unfolding asked_inv_def same_blocks_def by fastforce
  with ok solid_inv_same [OF mesh_invD(1) [OF inv] same] show ?thesis by (simp add: mesh_inv_def)
qed

section \<open>Runs\<close>

definition newMesh :: "('b, 't, 'c) solid_mesh" where
  "newMesh = \<lparr>blockStorage = Map.empty, blockMetadataStorage = Map.empty, childStorage = [], missingBlockStorage = [],
     attachmentStorage = [], markerBlockMapping = Map.empty, meshReads = 0, meshEvents = [],
     scheduledRequests = Map.empty, strongChildCounters = Map.empty, meshTasks = []\<rparr>"

inductive solid_run :: "('b, 'y) mesh_env_scheme \<Rightarrow> ('b, 't, 'c) solid_mesh \<Rightarrow> bool" for env where
  start: "solid_run env (storeGenesis env newMesh)"
| receive: "solid_run env s \<Longrightarrow> sane_block blk \<Longrightarrow> solid_run env (receiveBlock env blk s)"
| task: "solid_run env s \<Longrightarrow> meshTasks s = xs @ t # ys \<Longrightarrow> solid_run env (runTask env t (s\<lparr>meshTasks := xs @ ys\<rparr>))"
| timer: "solid_run env s \<Longrightarrow> solid_run env (reRequest env i n s)"
| orphan: "solid_run env s \<Longrightarrow> solid_run env (OrphanBlock env b s)"
| accepted: "solid_run env s \<Longrightarrow> solid_run env (s\<lparr>meshTasks := meshTasks s @ [UncountTask b]\<rparr>)"

definition genesisTime :: "('b, 'y) mesh_env_scheme \<Rightarrow> time" where
  "genesisTime env = meshTime env 0 - 20 * minute"

lemma genesis_inv: "mesh_inv env (genesisTime env) {} (storeGenesis env newMesh)"
  by (auto simp: storeGenesis_def newMesh_def readClock_def mesh_inv_def solid_inv_def blocks_inv_def ready_def
      requests_ok_def asked_inv_def genesisTime_def zeroMetadata_def putMetadata_def)

context block_ranges
begin

lemma solid_run_inv:
  assumes "solid_run env s"
  shows "mesh_inv env (genesisTime env) {} s"
  using assms
proof (induction rule: solid_run.induct)
  case (accepted s b)
  then have "mesh_inv env (genesisTime env) {} (s\<lparr>meshTasks := meshTasks s @ [UncountTask b]\<rparr>)"
    by (auto simp: mesh_inv_def solid_inv_def awaited_def)
  then show ?case .
qed (auto intro: genesis_inv receiveBlock_inv runTask_inv reRequest_inv counts_inv [OF orphan_counts(1)])

end

section \<open>Properties\<close>

text \<open>C10: every solid block is admissible: its parents are stored, fit (times, types, the issuer of a
  child of the genesis) and are solid themselves, down to the genesis.  When no task is waiting, every
  admissible block is solid, whatever the order in which the blocks arrived.\<close>

theorem solid_blocks_admissible:
  assumes "block_ranges env" and "solid_run env s"
  shows "(\<forall>b. is_solid s b \<longrightarrow> b = emptyBlockID env \<or> admissible env (genesisTime env) (blockStorage s) b) \<and>
    (meshTasks s = [] \<longrightarrow> (\<forall>b. admissible env (genesisTime env) (blockStorage s) b \<longrightarrow> is_solid s b))"
proof -
  note inv = block_ranges.solid_run_inv [OF assms]
  note bi = mesh_invD(2) [OF inv]
  have "is_solid s b" if "meshTasks s = []" and "admissible env (genesisTime env) (blockStorage s) b" for b
    using that(2)
  proof (induction rule: admissible.induct)
    case (admissible b blk)
    have ps: "parents_solid env s blk" using admissible.IH by (auto simp: parents_solid_def)
    have fit: "parents_fit env (genesisTime env) (blockStorage s) blk" using admissible.hyps by (auto simp: parents_fit_def)
    obtain m where m: "blockMetadataStorage s b = Some m" using blocks_invD(4) [OF bi admissible.hyps(1)] by blast
    have "\<not> ObjectivelyInvalid m"
      using blocks_invD(9) [OF bi m _ blocks_invD(2) [OF bi admissible.hyps(1)] admissible.hyps(1)] fit by blast
    moreover have "\<not> ready env s b"
      using mesh_invD(1) [OF inv] that(1) by (auto simp: solid_inv_def awaited_def)
    ultimately show ?case using m ps admissible.hyps(1) by (auto simp: ready_def is_solid_def)
  qed
  moreover have "b = emptyBlockID env \<or> admissible env (genesisTime env) (blockStorage s) b" if "is_solid s b" for b
    using that blocks_invD(8) [OF bi] by (auto simp: is_solid_def)
  ultimately show ?thesis by blast
qed

text \<open>C25: the blocks that are requested are exactly the missing ones, no missing block is known, and an
  unknown parent of a block that is neither solid nor invalid is missing, unless its request was given up.\<close>

theorem requests_match_missing:
  assumes "block_ranges env" and "solid_run env s"
  shows "dom (scheduledRequests s) = set (missingBlockStorage s) \<and>
    dom (blockMetadataStorage s) \<inter> set (missingBlockStorage s) = {} \<and>
    (\<forall>b blk m t p. blockStorage s b = Some blk \<longrightarrow> blockMetadataStorage s b = Some m \<longrightarrow>
       \<not> Solid m \<and> \<not> ObjectivelyInvalid m \<longrightarrow> (t, p) \<in> parents_of blk \<longrightarrow> p \<notin> dom (blockMetadataStorage s) \<longrightarrow>
       p \<in> set (missingBlockStorage s) \<or> RequestFailed p \<in> set (meshEvents s))"
proof -
  note inv = block_ranges.solid_run_inv [OF assms]
  have ok: "\<And>i. i \<in> set (missingBlockStorage s) \<longleftrightarrow> scheduledRequests s i \<noteq> None"
    "\<And>i. i \<in> set (missingBlockStorage s) \<Longrightarrow> blockMetadataStorage s i = None"
    using mesh_invD(3) [OF inv] by (auto simp: requests_ok_def)
  have "p \<in> set (missingBlockStorage s) \<or> RequestFailed p \<in> set (meshEvents s)"
    if "blockStorage s b = Some blk" "blockMetadataStorage s b = Some m" "\<not> Solid m \<and> \<not> ObjectivelyInvalid m"
      "(t, p) \<in> parents_of blk" "p \<notin> dom (blockMetadataStorage s)" for b blk m t p
  proof -
    have "p = emptyBlockID env \<or> asked_for s p"
      using mesh_invD(4) [OF inv] that(1-4) unfolding asked_inv_def by blast
    then show ?thesis using that(5) blocks_invD(10) [OF mesh_invD(2) [OF inv]] by (auto simp: asked_for_def)
  qed
  moreover have "dom (scheduledRequests s) = set (missingBlockStorage s)" using ok(1) by auto
  moreover have "dom (blockMetadataStorage s) \<inter> set (missingBlockStorage s) = {}" using ok(2) by auto
  ultimately show ?thesis by blast
qed

section \<open>A concrete run\<close>

text \<open>Block 2 arrives before its parent 1, which is then requested; after the tasks both are solid.\<close>

definition mesh0 :: "nat mesh_env" where
  "mesh0 = \<lparr>emptyBlockID = 0, rangeBlockIDs = sorted_list_of_set, rangeParents = id, meshTime = (\<lambda>n. int n * minute),
     undefinedState = OtherState 0, GenesisNode = None, MaxRequestThreshold = 500\<rparr>"

interpretation bm0: block_ranges mesh0
  by unfold_locales (simp_all add: mesh0_def enumerates_def)

definition block0 :: "nat \<Rightarrow> nat ParentBlockIDs \<Rightarrow> time \<Rightarrow> (nat, unit) Block" where
  "block0 i parents t = \<lparr>blk_ID = i, blk_Version = 1, blk_Parents = parents, IssuerPublicKey = [], IssuingTime = t,
     SequenceNumber = 0, Payload = OtherPayload, ECRecordEI = 0, ECR = [], PrevEC = [], LatestConfirmedEpoch = 0,
     Nonce = 0, blk_Signature = []\<rparr>"

definition late0 :: "(nat, unit, nat) solid_mesh" where
  "late0 = receiveBlock mesh0 (block0 2 [(StrongParentType, {1})] 0) (storeGenesis mesh0 newMesh)"

definition both0 :: "(nat, unit, nat) solid_mesh" where
  "both0 = receiveBlock mesh0 (block0 1 [(StrongParentType, {0})] 0) late0"

fun drain :: "('b, 'y) mesh_env_scheme \<Rightarrow> nat \<Rightarrow> ('b, 't, 'c) solid_mesh \<Rightarrow> ('b, 't, 'c) solid_mesh" where
  "drain env 0 s = s"
| "drain env (Suc n) s =
     (case meshTasks s of [] \<Rightarrow> s | t # ts \<Rightarrow> drain env n (runTask env t (s\<lparr>meshTasks := ts\<rparr>)))"

lemma solid_run_drain: "solid_run env s \<Longrightarrow> solid_run env (drain env n s)"
proof (induction n arbitrary: s)
  case (Suc n)
  then show ?case
  proof (cases "meshTasks s")
    case (Cons t ts)
    then show ?thesis using Suc.IH [OF solid_run.task [OF Suc.prems, of "[]" t ts]] by simp
  qed simp
qed simp

lemma late0_run: "solid_run mesh0 late0"
  unfolding late0_def by (rule solid_run.receive [OF solid_run.start]) (simp add: sane_block_def block0_def)

lemma both0_run: "solid_run mesh0 (drain mesh0 10 both0)"
  unfolding both0_def
  by (rule solid_run_drain, rule solid_run.receive [OF late0_run]) (simp add: sane_block_def block0_def)

lemma empty_mesh0 [simp]: "emptyBlockID mesh0 = 0"
  by (simp add: mesh0_def)

lemma both0_values:
  "map_option Solid (blockMetadataStorage (drain mesh0 10 both0) 2) = Some True" "meshTasks (drain mesh0 10 both0) = []"
  "missingBlockStorage late0 = [1]"
  by code_simp+

theorem solid_blocks_admissible_witness:
  "admissible mesh0 (genesisTime mesh0) (blockStorage (drain mesh0 10 both0)) 2 \<and> meshTasks (drain mesh0 10 both0) = []"
proof -
  have "is_solid (drain mesh0 10 both0) 2" using both0_values(1) by (auto simp: is_solid_def)
  then show ?thesis
    using solid_blocks_admissible [OF bm0.block_ranges_axioms both0_run] both0_values(2) by auto
qed

theorem requests_match_missing_witness: "dom (scheduledRequests late0) = {1}"
  using requests_match_missing [OF bm0.block_ranges_axioms late0_run] both0_values(3) by simp

section \<open>Parents of the undefined type\<close>

text \<open>C39: a parent of the undefined type 0 passes the validation, although its error says that the types range from
  1 to 3, and the block is then stored as a strong child of a block that is not among its strong parents.\<close>

theorem undefined_parent_stored_as_strong:
  assumes "block_ranges env" and "blk_Parents blk = [(StrongParentType, {a}), (UndefinedParentType, {b})]" and "a \<noteq> b"
  shows "validateParentBlockIDs (blk_Parents blk) = None \<and> b \<notin> ParentsByType blk StrongParentType \<and>
    blk_ID blk \<in> ApprovingBlockIDs b (Some StrongChild) (storeNewBlock env blk s)"
proof -
  have sane: "sane_block blk" by (simp add: sane_block_def assms(2))
  have "(UndefinedParentType, b) \<in> set (parentList env blk)"
    unfolding block_ranges.parentList_set [OF assms(1) sane] by (auto simp: parents_of_def assms(2))
  then have "NewChild StrongChild b (blk_ID blk) \<in> set (childStorage (storeNewBlock env blk s))"
    unfolding storeNewBlock_fields by (force simp: ParentTypeToChildType_def)
  then have "blk_ID blk \<in> ApprovingBlockIDs b (Some StrongChild) (storeNewBlock env blk s)"
    by (force simp: ApprovingBlockIDs_def Children_def NewChild_def)
  then show ?thesis using assms(3)
    by (simp add: assms(2) validateParentBlockIDs_def parentsOf_def areReferencesConflictingAcrossBlocks_def
        MinStrongParentsCount_def LastValidBlockType_def ParentsByType_def)
qed

definition odd0 :: "(nat, unit) Block" where
  "odd0 = block0 3 [(StrongParentType, {1}), (UndefinedParentType, {2})] 0"

theorem undefined_parent_stored_as_strong_witness:
  "validateParentBlockIDs (blk_Parents odd0) = None \<and>
   blk_ID odd0 \<in> ApprovingBlockIDs 2 (Some StrongChild) (storeNewBlock mesh0 odd0 (newMesh :: (nat, unit, nat) solid_mesh))"
proof -
  have parents: "blk_Parents odd0 = [(StrongParentType, {1}), (UndefinedParentType, {2})]"
    by (simp add: odd0_def block0_def)
  show ?thesis
    using undefined_parent_stored_as_strong [OF bm0.block_ranges_axioms parents,
      of "newMesh :: (nat, unit, nat) solid_mesh"] by simp
qed

end
