(* ===== verification/VoteLaws.thy ===== *)
theory VoteLaws
  imports Votes
begin

text \<open>
  Laws of the votes on markers: what a sequence of stores leaves in the threshold map of a voter.
\<close>

section \<open>Threshold maps of votes\<close>

text \<open>The powers do not grow with the index; the value that Get returns is then the greatest above its argument.\<close>

definition falling :: "(index \<Rightarrow> VotePower option) \<Rightarrow> bool" where
  "falling m \<longleftrightarrow> (\<forall>i j a b. m i = Some a \<longrightarrow> m j = Some b \<longrightarrow> i \<le> j \<longrightarrow> b \<le> a)"

lemma fallingD: "falling m \<Longrightarrow> m i = Some a \<Longrightarrow> m j = Some b \<Longrightarrow> i \<le> j \<Longrightarrow> b \<le> a"
  unfolding falling_def by blast

lemma falling_sub: "falling m \<Longrightarrow> (\<And>j v. m' j = Some v \<Longrightarrow> m j = Some v) \<Longrightarrow> falling m'"
  unfolding falling_def by blast

lemma ceiling_exists:
  fixes m :: "index \<Rightarrow> 'v option"
  assumes "m i \<noteq> None" and "k \<le> i"
  obtains j v where "ceiling_entry m k j v"
proof -
  let ?K = "{j. k \<le> j \<and> m j \<noteq> None}"
  have fin: "finite ?K" by simp
  have ne: "?K \<noteq> {}" using assms by auto
  have "Min ?K \<in> ?K" using Min_in [OF fin ne] .
  moreover have "\<forall>j\<in>?K. Min ?K \<le> j" using Min_le [OF fin] by blast
  ultimately obtain v where "ceiling_entry m k (Min ?K) v" by (auto simp: ceiling_entry_def)
  then show thesis by (rule that)
qed

lemma floor_exists:
  fixes m :: "index \<Rightarrow> 'v option"
  assumes "m i \<noteq> None" and "i \<le> k"
  obtains j v where "floor_entry m k j v"
proof -
  let ?K = "{j. j \<le> k \<and> m j \<noteq> None}"
  have fin: "finite ?K" by simp
  have ne: "?K \<noteq> {}" using assms by auto
  have "Max ?K \<in> ?K" using Max_in [OF fin ne] .
  moreover have "\<forall>j\<in>?K. j \<le> Max ?K" using Max_ge [OF fin] by blast
  ultimately obtain v where "floor_entry m k (Max ?K) v" by (auto simp: floor_entry_def)
  then show thesis by (rule that)
qed

lemma le_pred: "i \<noteq> 0 \<Longrightarrow> j \<le> i - 1 \<longleftrightarrow> j < i" for i j :: index
  by (simp add: word_le_nat_alt word_less_nat_alt unat_minus_one) (use unat_gt_0 [of i] in linarith)

text \<open>A map that is falling, with the votes at or above an index.\<close>

definition reads :: "(index \<Rightarrow> VotePower option) \<Rightarrow> index \<Rightarrow> VotePower option \<Rightarrow> bool" where
  "reads m k r \<longleftrightarrow>
     (case r of
        None \<Rightarrow> \<forall>j. k \<le> j \<longrightarrow> m j = None
      | Some v \<Rightarrow> (\<exists>j. k \<le> j \<and> m j = Some v) \<and> (\<forall>j w. k \<le> j \<longrightarrow> m j = Some w \<longrightarrow> w \<le> v))"

lemma reads_cong: "reads m k r \<Longrightarrow> (\<And>j. k \<le> j \<Longrightarrow> m' j = m j) \<Longrightarrow> reads m' k r"
  by (cases r) (auto simp: reads_def)

context vote_thresholds
begin

lemma get_reads:
  assumes "falling (stored t)"
  shows "reads (stored t) k (vm_Get vm t k)"
proof (cases "vm_Ceiling vm t k")
  case None
  have "stored t j = None" if le: "k \<le> j" for j
  proof (rule ccontr)
    assume "stored t j \<noteq> None"
    from ceiling_exists [where m = "stored t" and i = j, OF this le] obtain i v where "ceiling_entry (stored t) k i v" .
    then show False using None vm_ceiling [of t k i v] by simp
  qed
  then show ?thesis by (simp add: vm_get None reads_def)
next
  case (Some jv)
  obtain j v where jv: "jv = (j, v)" by (cases jv)
  then have c: "ceiling_entry (stored t) k j v" using Some vm_ceiling by blast
  have "w \<le> v" if "k \<le> i" "stored t i = Some w" for i w
    using fallingD [OF assms, of j v i w] c that by (auto simp: ceiling_entry_def)
  then show ?thesis using c by (auto simp: vm_get Some jv reads_def ceiling_entry_def)
qed

text \<open>The loop of Store ends and removes exactly the lower powers below the index.\<close>

lemma drop_lower_result:
  assumes "falling (\<lambda>j. if j < i then stored t j else None)" and "i \<noteq> 0"
  shows "\<exists>u. drop_lower vm i p t = Some u \<and>
    (\<forall>j. stored u j = (if j < i \<and> (\<exists>v. stored t j = Some v \<and> v < p) then None else stored t j))"
  using assms(1)
proof (induction "card {j. stored t j \<noteq> None}" arbitrary: t rule: less_induct)
  case less
  show ?case
  proof (cases "vm_Floor vm t (i - 1)")
    case None
    have "stored t j = None" if lt: "j < i" for j
    proof (rule ccontr)
      assume ne: "stored t j \<noteq> None"
      have "j \<le> i - 1" using le_pred [OF assms(2)] lt by simp
      from floor_exists [where m = "stored t" and i = j, OF ne this] obtain k v where "floor_entry (stored t) (i - 1) k v" .
      then show False using None vm_floor [of t "i - 1" k v] by simp
    qed
    then show ?thesis by (subst drop_lower.simps) (auto simp: None)
  next
    case (Some kv)
    obtain k v where kv: "kv = (k, v)" by (cases kv)
    have f: "floor_entry (stored t) (i - 1) k v" using Some kv vm_floor by blast
    have k: "stored t k = Some v" "k < i" and top: "\<And>j. stored t j \<noteq> None \<Longrightarrow> j < i \<Longrightarrow> j \<le> k"
      using f le_pred [OF assms(2)] by (auto simp: floor_entry_def)
    show ?thesis
    proof (cases "v < p")
      case False
      have "\<not> w < p" if "j < i" "stored t j = Some w" for j w
        using fallingD [OF less.prems, of j w k v] k top [of j] that False by auto
      then show ?thesis by (subst drop_lower.simps) (auto simp: Some kv False)
    next
      case True
      let ?t = "vm_Delete vm t k"
      have st: "stored ?t = (stored t)(k := None)" by (rule vm_delete)
      have "{j. stored ?t j \<noteq> None} \<subset> {j. stored t j \<noteq> None}" using k(1) by (auto simp: st)
      then have less_card: "card {j. stored ?t j \<noteq> None} < card {j. stored t j \<noteq> None}" by (intro psubset_card_mono) simp_all
      have "falling (\<lambda>j. if j < i then stored ?t j else None)"
        by (rule falling_sub [OF less.prems]) (auto simp: st split: if_splits)
      from less.hyps [OF less_card this] obtain u where u: "drop_lower vm i p ?t = Some u"
        "\<forall>j. stored u j = (if j < i \<and> (\<exists>v. stored ?t j = Some v \<and> v < p) then None else stored ?t j)" by auto
      moreover have "drop_lower vm i p t = drop_lower vm i p ?t"
        by (subst drop_lower.simps) (simp add: Some kv True)
      ultimately show ?thesis using k True u by (auto simp: st)
    qed
  qed
qed

definition taken :: "index \<Rightarrow> VotePower \<Rightarrow> (index \<Rightarrow> VotePower option) \<Rightarrow> (index \<Rightarrow> VotePower option) \<Rightarrow> bool" where
  "taken i p m m' \<longleftrightarrow> (\<forall>j. m' j = (if j = i then Some p else if j < i \<and> (\<exists>v. m j = Some v \<and> v < p) then None else m j))"

lemma Store_result:
  assumes "falling (stored t)" and "i \<noteq> 0"
  shows "\<exists>u isNew h. LatestMarkerVotes_Store vm i p t = Some (u, isNew, h) \<and> falling (stored u) \<and>
    (if \<exists>j v. i \<le> j \<and> stored t j = Some v \<and> p < v then u = t else taken i p (stored t) (stored u))"
proof (cases "\<exists>j v. i \<le> j \<and> stored t j = Some v \<and> p < v")
  case True
  then obtain j v where j: "i \<le> j" "stored t j = Some v" "p < v" by blast
  then have ne: "stored t j \<noteq> None" by simp
  from ceiling_exists [where m = "stored t" and i = j, OF ne j(1)] obtain k w where c: "ceiling_entry (stored t) i k w" .
  then have "p < w" using fallingD [OF assms(1), of k w j v] j by (auto simp: ceiling_entry_def)
  moreover have "vm_Ceiling vm t i = Some (k, w)" using c vm_ceiling by blast
  ultimately show ?thesis using True assms(1) by (auto simp: LatestMarkerVotes_Store_def Let_def)
next
  case False
  have no: "\<not> (case vm_Ceiling vm t i of Some (_, w) \<Rightarrow> p < w | None \<Rightarrow> False)"
  proof (cases "vm_Ceiling vm t i")
    case (Some kw)
    obtain k w where kw: "kw = (k, w)" by (cases kw)
    then have "ceiling_entry (stored t) i k w" using Some vm_ceiling by blast
    then show ?thesis using False by (auto simp: Some kw ceiling_entry_def)
  qed simp
  let ?t = "vm_Set vm t i p"
  have st: "stored ?t = (stored t)(i \<mapsto> p)" by (rule vm_set)
  have "falling (\<lambda>j. if j < i then stored ?t j else None)"
    by (rule falling_sub [OF assms(1)]) (auto simp: st split: if_splits)
  from drop_lower_result [OF this assms(2), of p] obtain u where u: "drop_lower vm i p ?t = Some u"
    "\<forall>j. stored u j = (if j < i \<and> (\<exists>v. stored ?t j = Some v \<and> v < p) then None else stored ?t j)" by blast
  have m: "stored u j = (if j = i then Some p else if j < i \<and> (\<exists>v. stored t j = Some v \<and> v < p) then None else stored t j)" for j
    using u(2) by (auto simp: st)
  have "b \<le> a" if "stored u j = Some a" "stored u k = Some b" "j \<le> k" for j k a b
  proof (cases "k = i \<or> j = i")
    case True
    then show ?thesis using that False by (auto simp: m not_less split: if_splits)
  next
    case no: False
    then show ?thesis using that fallingD [OF assms(1), of j a k b] by (auto simp: m split: if_splits)
  qed
  then have "falling (stored u)" unfolding falling_def by blast
  then show ?thesis using no False u(1) m by (auto simp: LatestMarkerVotes_Store_def Let_def taken_def)
qed

lemma Store_reads:
  assumes "falling (stored t)" and "i \<noteq> 0" and "LatestMarkerVotes_Store vm i p t = Some (u, isNew, h)"
  shows "falling (stored u)"
    and "vm_Get vm u k = (if k \<le> i then Some (case vm_Get vm t k of Some v \<Rightarrow> max v p | None \<Rightarrow> p) else vm_Get vm t k)"
proof -
  have res: "falling (stored u)" "if \<exists>j v. i \<le> j \<and> stored t j = Some v \<and> p < v then u = t else taken i p (stored t) (stored u)"
    using Store_result [OF assms(1,2), of p] assms(3) by auto
  show "falling (stored u)" by (rule res(1))
  have ru: "reads (stored u) k (vm_Get vm u k)" and rt: "reads (stored t) k (vm_Get vm t k)"
    using get_reads res(1) assms(1) by blast+
  have unique: "r = r'" if "reads m k r" "reads m k r'" for m r r'
    using that by (cases r; cases r') (auto simp: reads_def intro: antisym)
  let ?r = "if k \<le> i then Some (case vm_Get vm t k of Some v \<Rightarrow> max v p | None \<Rightarrow> p) else vm_Get vm t k"
  have "reads (stored u) k ?r"
  proof (cases "\<exists>j v. i \<le> j \<and> stored t j = Some v \<and> p < v")
    case True
    then obtain j v where j: "i \<le> j" "stored t j = Some v" "p < v" by blast
    have "?r = vm_Get vm t k"
    proof (cases "k \<le> i")
      case le: True
      obtain w where "vm_Get vm t k = Some w" "v \<le> w"
        using rt j(2) order_trans [OF le j(1)] by (cases "vm_Get vm t k") (auto simp: reads_def)
      then show ?thesis using le j(3) by (auto simp: max_def)
    qed simp
    then show ?thesis using res(2) True rt by simp
  next
    case False
    then have m: "stored u j = (if j = i then Some p else if j < i \<and> (\<exists>v. stored t j = Some v \<and> v < p) then None else stored t j)" for j
      using res(2) unfolding if_not_P [OF False] taken_def by blast
    show ?thesis
    proof (cases "k \<le> i")
      case False
      then have "reads (stored u) k (vm_Get vm t k)" by (intro reads_cong [OF rt]) (auto simp: m)
      then show ?thesis using False by simp
    next
      case le: True
      show ?thesis
      proof (cases "vm_Get vm t k")
        case None
        then show ?thesis using rt le by (auto simp: reads_def m)
      next
        case (Some v)
        have some: "(\<exists>j. k \<le> j \<and> stored t j = Some v)" and all: "\<And>j w. k \<le> j \<Longrightarrow> stored t j = Some w \<Longrightarrow> w \<le> v"
          using rt by (auto simp: Some reads_def)
        have "w \<le> max v p" if j: "k \<le> j" "stored u j = Some w" for j w
        proof -
          have "w = p \<or> stored t j = Some w" using j(2) by (simp add: m split: if_splits)
          then show ?thesis using all [OF j(1), of w] by (auto simp: le_max_iff_disj)
        qed
        moreover have "\<exists>j. k \<le> j \<and> stored u j = Some (max v p)"
        proof (cases "p < v")
          case True
          obtain j where "k \<le> j" "stored t j = Some v" using some by blast
          then show ?thesis using False True by (intro exI [of _ j]) (auto simp: m max_def not_less)
        next
          case False
          then show ?thesis using le by (intro exI [of _ i]) (auto simp: m max_def)
        qed
        ultimately show ?thesis using le by (simp add: reads_def Some)
      qed
    qed
  qed
  then show "vm_Get vm u k = ?r" using unique ru by blast
qed

end

section \<open>Sequences of votes\<close>

fun storeVotes :: "('t, 'z) vote_map_scheme \<Rightarrow> (index \<times> VotePower) list \<Rightarrow> 't \<Rightarrow> 't option" where
  "storeVotes vm [] t = Some t"
| "storeVotes vm ((i, p) # votes) t =
     (case LatestMarkerVotes_Store vm i p t of Some (u, _, _) \<Rightarrow> storeVotes vm votes u | None \<Rightarrow> None)"

text \<open>The greatest power among the votes at or above an index.\<close>

definition strongest :: "(index \<times> VotePower) set \<Rightarrow> index \<Rightarrow> VotePower option" where
  "strongest votes k = (let P = snd ` {v \<in> votes. k \<le> fst v} in if P = {} then None else Some (Max P))"

lemma strongest_insert:
  assumes "finite votes"
  shows "strongest (insert (i, p) votes) k =
    (if k \<le> i then Some (case strongest votes k of Some v \<Rightarrow> max v p | None \<Rightarrow> p) else strongest votes k)"
proof -
  let ?P = "snd ` {v \<in> votes. k \<le> fst v}"
  have "snd ` {v \<in> insert (i, p) votes. k \<le> fst v} = (if k \<le> i then insert p ?P else ?P)" by force
  moreover have "(if insert p P = {} then None else Some (Max (insert p P))) =
      Some (case (if P = {} then None else Some (Max P)) of Some v \<Rightarrow> max v p | None \<Rightarrow> p)" if "finite P" for P
    using that by (cases "P = {}") (simp_all add: max.commute)
  moreover have "finite ?P" using assms by simp
  ultimately show ?thesis unfolding strongest_def Let_def by presburger
qed

context vote_thresholds
begin

lemma storeVotes_strongest:
  assumes "\<forall>(i, p)\<in>set votes. i \<noteq> 0" and "falling (stored t)" and "finite done" and "\<And>k. vm_Get vm t k = strongest done k"
  shows "\<exists>u. storeVotes vm votes t = Some u \<and> (\<forall>k. vm_Get vm u k = strongest (done \<union> set votes) k)"
  using assms
proof (induction votes arbitrary: t "done")
  case (Cons x votes)
  obtain i p where x: "x = (i, p)" by (cases x)
  have i: "i \<noteq> 0" using Cons.prems(1) by (simp add: x)
  obtain u isNew h where u: "LatestMarkerVotes_Store vm i p t = Some (u, isNew, h)"
    using Store_result [OF Cons.prems(2) i] by blast
  have "vm_Get vm u k = strongest (insert (i, p) done) k" for k
    using Store_reads(2) [OF Cons.prems(2) i u] Cons.prems(4) by (simp add: strongest_insert [OF Cons.prems(3)])
  then have "\<exists>w. storeVotes vm votes u = Some w \<and> (\<forall>k. vm_Get vm w k = strongest (insert (i, p) done \<union> set votes) k)"
    using Cons.prems Store_reads(1) [OF Cons.prems(2) i u] by (intro Cons.IH) auto
  then show ?case by (simp add: x u)
qed simp

end

section \<open>A concrete map\<close>

definition votes0 :: "(index \<times> VotePower) list vote_map" where
  "votes0 =
     (let ceil = (\<lambda>t k. case filter (\<lambda>e. k \<le> fst e) t of [] \<Rightarrow> None
                 | es \<Rightarrow> let j = Min (set (map fst es)) in map_option (Pair j) (map_of t j))
      in \<lparr>vm_New = [], vm_Get = (\<lambda>t k. map_option snd (ceil t k)), vm_Set = (\<lambda>t k v. AList.update k v t),
          vm_Delete = (\<lambda>t k. AList.delete k t),
          vm_MaxKey = (\<lambda>t. if t = [] then None else Some (Max (set (map fst t)))), vm_Ceiling = ceil,
          vm_Floor = (\<lambda>t k. case filter (\<lambda>e. fst e \<le> k) t of [] \<Rightarrow> None
                 | es \<Rightarrow> let j = Max (set (map fst es)) in map_option (Pair j) (map_of t j))\<rparr>)"

lemma keys_filter: "j \<in> fst ` {e \<in> set t. P (fst e)} \<longleftrightarrow> map_of t j \<noteq> None \<and> P j"
  by (force simp: map_of_eq_None_iff)

lemma ceiling0:
  "(case filter (\<lambda>e. k \<le> fst e) t of [] \<Rightarrow> None
    | es \<Rightarrow> let j = Min (set (map fst es)) in map_option (Pair j) (map_of t j)) = Some (j, v) \<longleftrightarrow>
   ceiling_entry (map_of t) k j v" (is "?c = _ \<longleftrightarrow> _")
proof -
  let ?J = "fst ` {e \<in> set t. k \<le> fst e}"
  have J: "\<And>j. j \<in> ?J \<longleftrightarrow> map_of t j \<noteq> None \<and> k \<le> j" by (rule keys_filter)
  have c: "?c = (if ?J = {} then None else map_option (Pair (Min ?J)) (map_of t (Min ?J)))"
    by (auto simp: Let_def filter_empty_conv image_iff simp flip: set_filter split: list.split)
  show ?thesis
  proof (cases "?J = {}")
    case True
    then have "?c = None" using c by simp
    moreover have "\<not> ceiling_entry (map_of t) k j v" using J [of j] True by (auto simp: ceiling_entry_def)
    ultimately show ?thesis by simp
  next
    case False
    have fin: "finite ?J" by simp
    have opt: "Min ?J \<in> ?J" "\<And>i. i \<in> ?J \<Longrightarrow> Min ?J \<le> i"
      using Min_in [OF fin False] Min_le [OF fin] by auto
    have "?c = Some (j, v) \<longleftrightarrow> j = Min ?J \<and> map_of t j = Some v" using False unfolding c by auto
    also have "\<dots> \<longleftrightarrow> ceiling_entry (map_of t) k j v"
    proof
      assume "j = Min ?J \<and> map_of t j = Some v"
      then show "ceiling_entry (map_of t) k j v" using opt J unfolding ceiling_entry_def by blast
    next
      assume e: "ceiling_entry (map_of t) k j v"
      have v: "map_of t j = Some v" using e by (simp add: ceiling_entry_def)
      have jJ: "j \<in> ?J" using e J unfolding ceiling_entry_def by auto
      have "j \<le> Min ?J" using e J [of "Min ?J"] opt(1) unfolding ceiling_entry_def by blast
      with opt(2) [OF jJ] v show "j = Min ?J \<and> map_of t j = Some v" by (blast intro: order.antisym)
    qed
    finally show ?thesis .
  qed
qed

lemma floor0:
  "(case filter (\<lambda>e. fst e \<le> k) t of [] \<Rightarrow> None
    | es \<Rightarrow> let j = Max (set (map fst es)) in map_option (Pair j) (map_of t j)) = Some (j, v) \<longleftrightarrow>
   floor_entry (map_of t) k j v" (is "?c = _ \<longleftrightarrow> _")
proof -
  let ?J = "fst ` {e \<in> set t. fst e \<le> k}"
  have J: "\<And>j. j \<in> ?J \<longleftrightarrow> map_of t j \<noteq> None \<and> j \<le> k" by (rule keys_filter)
  have c: "?c = (if ?J = {} then None else map_option (Pair (Max ?J)) (map_of t (Max ?J)))"
    by (auto simp: Let_def filter_empty_conv image_iff simp flip: set_filter split: list.split)
  show ?thesis
  proof (cases "?J = {}")
    case True
    then have "?c = None" using c by simp
    moreover have "\<not> floor_entry (map_of t) k j v" using J [of j] True by (auto simp: floor_entry_def)
    ultimately show ?thesis by simp
  next
    case False
    have fin: "finite ?J" by simp
    have opt: "Max ?J \<in> ?J" "\<And>i. i \<in> ?J \<Longrightarrow> i \<le> Max ?J"
      using Max_in [OF fin False] Max_ge [OF fin] by auto
    have "?c = Some (j, v) \<longleftrightarrow> j = Max ?J \<and> map_of t j = Some v" using False unfolding c by auto
    also have "\<dots> \<longleftrightarrow> floor_entry (map_of t) k j v"
    proof
      assume "j = Max ?J \<and> map_of t j = Some v"
      then show "floor_entry (map_of t) k j v" using opt J unfolding floor_entry_def by blast
    next
      assume e: "floor_entry (map_of t) k j v"
      have v: "map_of t j = Some v" using e by (simp add: floor_entry_def)
      have jJ: "j \<in> ?J" using e J unfolding floor_entry_def by auto
      have "Max ?J \<le> j" using e J [of "Max ?J"] opt(1) unfolding floor_entry_def by blast
      with opt(2) [OF jJ] v show "j = Max ?J \<and> map_of t j = Some v" by (blast intro: order.antisym)
    qed
    finally show ?thesis .
  qed
qed


lemma max_key0: "(if t = [] then None else Some (Max (set (map fst t)))) = Some k \<longleftrightarrow>
    map_of t k \<noteq> None \<and> (\<forall>i. map_of t i \<noteq> None \<longrightarrow> i \<le> k)" for t :: "(index \<times> VotePower) list"
proof -
  have keys: "\<And>i. map_of t i \<noteq> None \<longleftrightarrow> i \<in> fst ` set t" by (simp add: map_of_eq_None_iff)
  have "Max (fst ` set t) = k \<longleftrightarrow> k \<in> fst ` set t \<and> (\<forall>i\<in>fst ` set t. i \<le> k)" if "t \<noteq> []"
    by (rule Max_eq_iff) (use that in simp_all)
  then show ?thesis unfolding keys by (cases "t = []") auto
qed

interpretation vt0: vote_thresholds votes0 map_of
proof
  fix t :: "(index \<times> VotePower) list" and k j v
  show "map_of (vm_New votes0) k = None" by (simp add: votes0_def Let_def)
  show "map_of (vm_Set votes0 t k v) = (map_of t)(k \<mapsto> v)" by (simp add: votes0_def Let_def update_conv')
  show "map_of (vm_Delete votes0 t k) = (map_of t)(k := None)" by (simp add: votes0_def Let_def delete_conv')
  show "vm_Ceiling votes0 t k = Some (j, v) \<longleftrightarrow> ceiling_entry (map_of t) k j v"
    using ceiling0 [where t = t and k = k and j = j and v = v] by (simp add: votes0_def Let_def)
  show "vm_Floor votes0 t k = Some (j, v) \<longleftrightarrow> floor_entry (map_of t) k j v"
    using floor0 [where t = t and k = k and j = j and v = v] by (simp add: votes0_def Let_def)
  show "vm_Get votes0 t k = map_option snd (vm_Ceiling votes0 t k)" by (simp add: votes0_def Let_def)
  show "vm_MaxKey votes0 t = Some k \<longleftrightarrow> map_of t k \<noteq> None \<and> (\<forall>i. map_of t i \<noteq> None \<longrightarrow> i \<le> k)"
    using max_key0 [where t = t and k = k] by (simp add: votes0_def Let_def)
qed

text \<open>C23: storing votes on the markers of a sequence returns, and the power read for a marker is then the greatest of
  the powers of the votes at or above it, in whatever order they arrived (for indexes other than 0, of the genesis).\<close>

theorem marker_votes_exact:
  assumes "vote_thresholds vm content" and "\<forall>(i, p)\<in>set votes. i \<noteq> 0"
  shows "\<exists>u. storeVotes vm votes (vm_New vm) = Some u \<and>
    (\<forall>k. LatestMarkerVotes_Power vm u k = strongest (set votes) k)"
proof -
  have none: "content (vm_New vm) k = None" for k by (rule vote_thresholds.vm_new [OF assms(1)])
  have fall: "falling (content (vm_New vm))" by (simp add: falling_def none)
  have "vm_Get vm (vm_New vm) k = strongest {} k" for k
    using vote_thresholds.get_reads [OF assms(1) fall, of k]
    by (cases "vm_Get vm (vm_New vm) k") (simp_all add: reads_def none strongest_def)
  from vote_thresholds.storeVotes_strongest [OF assms(1,2) fall _ this] show ?thesis
    by (simp add: LatestMarkerVotes_Power_def)
qed

theorem marker_votes_exact_witness:
  "\<exists>u. storeVotes votes0 [(3, 7), (5, 4), (2, 9), (4, 7)] (vm_New votes0) = Some u \<and>
     LatestMarkerVotes_Power votes0 u 3 = Some 7"
proof -
  let ?votes = "[(3, 7), (5, 4), (2, 9), (4, 7)] :: (index \<times> VotePower) list"
  have "\<forall>(i, p)\<in>set ?votes. i \<noteq> 0" by simp
  from marker_votes_exact [OF vt0.vote_thresholds_axioms this]
  obtain u where "storeVotes votes0 ?votes (vm_New votes0) = Some u"
    "\<forall>k. LatestMarkerVotes_Power votes0 u k = strongest (set ?votes) k" by blast
  moreover have "strongest (set ?votes) 3 = Some 7" by code_simp
  ultimately show ?thesis by metis
qed

end
