(* ===== verification/MarkersMapper.thy ===== *)
theory MarkersMapper
  imports MeshStorage Ledger
begin

text \<open>
  The conflicts of markers (packages/core/mesh_old: markersmanager.go, markersmanager.models.go).

  Every sequence has a threshold map in the lower mode from indexes to sets of conflicts; its operations are the
  record conflict_map, and the locale conflict_thresholds states what the package documents.  The mappings, and the manager
  of the markers, extend the state of the mesh.  A function that meets an error or a panic returns Inl.  What a nil set of
  conflicts contributes to another set, when the mapping of a sequence is absent, is the parameter nilConflicts.
\<close>

record ('x, 'c) conflict_map =
  cm_New :: 'x
  cm_Get :: "'x \<Rightarrow> index \<Rightarrow> 'c set option"
  cm_Set :: "'x \<Rightarrow> index \<Rightarrow> 'c set \<Rightarrow> 'x"
  cm_Delete :: "'x \<Rightarrow> index \<Rightarrow> 'x"
  cm_Floor :: "'x \<Rightarrow> index \<Rightarrow> (index \<times> 'c set) option"
  cm_Ceiling :: "'x \<Rightarrow> index \<Rightarrow> (index \<times> 'c set) option"

locale conflict_thresholds =
  fixes cm :: "('x, 'c, 'z) conflict_map_scheme" and mapped :: "'x \<Rightarrow> index \<Rightarrow> 'c set option"
  assumes cm_new: "mapped (cm_New cm) k = None"
    and cm_set: "mapped (cm_Set cm t k v) = (mapped t)(k \<mapsto> v)"
    and cm_delete: "mapped (cm_Delete cm t k) = (mapped t)(k := None)"
    and cm_floor: "cm_Floor cm t k = Some (j, v) \<longleftrightarrow>
      mapped t j = Some v \<and> j \<le> k \<and> (\<forall>i. mapped t i \<noteq> None \<longrightarrow> i \<le> k \<longrightarrow> i \<le> j)"
    and cm_ceiling: "cm_Ceiling cm t k = Some (j, v) \<longleftrightarrow>
      mapped t j = Some v \<and> k \<le> j \<and> (\<forall>i. mapped t i \<noteq> None \<longrightarrow> k \<le> i \<longrightarrow> j \<le> i)"
    and cm_get: "cm_Get cm t k = map_option snd (cm_Floor cm t k)"

datatype booker_error = FatalError | Panicked panic

fun lift_go :: "'a go \<Rightarrow> booker_error + 'a" where
  "lift_go (Inl p) = Inl (Panicked p)"
| "lift_go (Inr x) = Inr x"

record ('b, 'tm, 'u, 'q, 'x, 'c, 'wb) booker_env = "'b mesh_env" +
  markersEnv :: "('tm, 'u, 'q) manager_env"
  conflictMap :: "('x, 'c) conflict_map"
  nilConflicts :: "booker_error + 'c set"
  IncreaseMarkersIndex :: "SequenceID \<Rightarrow> index \<Rightarrow> bool"
  newBlockWalk :: 'wb
  pushBlockWalk :: "'wb \<Rightarrow> 'b \<Rightarrow> 'wb"
  nextBlockWalk :: "'wb \<Rightarrow> ('b \<times> 'wb) option"

record ('b, 't, 'c, 'x, 'q) booker_mesh = "('b, 't, 'c) mesh" +
  conflictMappings :: "SequenceID \<Rightarrow> 'x option"
  markersManager :: "'q Manager"

section \<open>The mapping of a sequence\<close>

definition Mapping_ConflictIDs :: "('x, 'c, 'z) conflict_map_scheme \<Rightarrow> 'x \<Rightarrow> index \<Rightarrow> booker_error + 'c set" where
  "Mapping_ConflictIDs cm t i =
     (case cm_Get cm t i of
        None \<Rightarrow> Inl (Panicked (Raised ''tried to retrieve the ConflictID of unknown marker''))
      | Some conflictIDs \<Rightarrow> Inr conflictIDs)"

definition mappingOf ::
    "('b, 'tm, 'u, 'q, 'x, 'c, 'wb, 'y) booker_env_scheme \<Rightarrow> SequenceID \<Rightarrow> ('b, 't, 'c, 'x, 'q, 'z) booker_mesh_scheme \<Rightarrow> 'x" where
  "mappingOf env sequenceID s =
     (case conflictMappings s sequenceID of Some t \<Rightarrow> t | None \<Rightarrow> cm_New (conflictMap env))"

definition updateMapping ::
    "('b, 'tm, 'u, 'q, 'x, 'c, 'wb, 'y) booker_env_scheme \<Rightarrow> SequenceID \<Rightarrow> ('x \<Rightarrow> 'x) \<Rightarrow>
     ('b, 't, 'c, 'x, 'q, 'z) booker_mesh_scheme \<Rightarrow> ('b, 't, 'c, 'x, 'q, 'z) booker_mesh_scheme" where
  "updateMapping env sequenceID f s =
     s\<lparr>conflictMappings := (conflictMappings s)(sequenceID \<mapsto> f (mappingOf env sequenceID s))\<rparr>"

definition setConflictIDMapping ::
    "('b, 'tm, 'u, 'q, 'x, 'c, 'wb, 'y) booker_env_scheme \<Rightarrow> Marker \<Rightarrow> 'c set \<Rightarrow>
     ('b, 't, 'c, 'x, 'q, 'z) booker_mesh_scheme \<Rightarrow> ('b, 't, 'c, 'x, 'q, 'z) booker_mesh_scheme" where
  "setConflictIDMapping env marker conflictIDs =
     updateMapping env (marker_SequenceID marker) (\<lambda>t. cm_Set (conflictMap env) t (marker_Index marker) conflictIDs)"

definition deleteConflictIDMapping ::
    "('b, 'tm, 'u, 'q, 'x, 'c, 'wb, 'y) booker_env_scheme \<Rightarrow> Marker \<Rightarrow>
     ('b, 't, 'c, 'x, 'q, 'z) booker_mesh_scheme \<Rightarrow> ('b, 't, 'c, 'x, 'q, 'z) booker_mesh_scheme" where
  "deleteConflictIDMapping env marker =
     updateMapping env (marker_SequenceID marker) (\<lambda>t. cm_Delete (conflictMap env) t (marker_Index marker))"

text \<open>Floor and Ceiling store an empty mapping where there is none.\<close>

definition Mapper_Floor ::
    "('b, 'tm, 'u, 'q, 'x, 'c, 'wb, 'y) booker_env_scheme \<Rightarrow> Marker \<Rightarrow> ('b, 't, 'c, 'x, 'q, 'z) booker_mesh_scheme \<Rightarrow>
     ('b, 't, 'c, 'x, 'q, 'z) booker_mesh_scheme \<times> (index \<times> 'c set) option" where
  "Mapper_Floor env marker s =
     (updateMapping env (marker_SequenceID marker) id s,
      cm_Floor (conflictMap env) (mappingOf env (marker_SequenceID marker) s) (marker_Index marker))"

definition Mapper_Ceiling ::
    "('b, 'tm, 'u, 'q, 'x, 'c, 'wb, 'y) booker_env_scheme \<Rightarrow> Marker \<Rightarrow> ('b, 't, 'c, 'x, 'q, 'z) booker_mesh_scheme \<Rightarrow>
     ('b, 't, 'c, 'x, 'q, 'z) booker_mesh_scheme \<times> (index \<times> 'c set) option" where
  "Mapper_Ceiling env marker s =
     (updateMapping env (marker_SequenceID marker) id s,
      cm_Ceiling (conflictMap env) (mappingOf env (marker_SequenceID marker) s) (marker_Index marker))"

section \<open>The conflicts of markers\<close>

definition Mapper_ConflictIDs ::
    "('b, 'tm, 'u, 'q, 'x, 'c, 'wb, 'y) booker_env_scheme \<Rightarrow> Marker \<Rightarrow> ('b, 't, 'c, 'x, 'q, 'z) booker_mesh_scheme \<Rightarrow>
     booker_error + 'c set" where
  "Mapper_ConflictIDs env marker s =
     (case conflictMappings s (marker_SequenceID marker) of
        None \<Rightarrow> nilConflicts env
      | Some t \<Rightarrow> Mapping_ConflictIDs (conflictMap env) t (marker_Index marker))"

text \<open>The argument unconfirmed stands for ConflictDAG.UnconfirmedConflicts in the current state of the ledger.\<close>

definition SetConflictIDs ::
    "('b, 'tm, 'u, 'q, 'x, 'c, 'wb, 'y) booker_env_scheme \<Rightarrow> ('c set \<Rightarrow> 'c set) \<Rightarrow> Marker \<Rightarrow> 'c set \<Rightarrow>
     ('b, 't, 'c, 'x, 'q, 'z) booker_mesh_scheme \<Rightarrow> ('b, 't, 'c, 'x, 'q, 'z) booker_mesh_scheme \<times> bool" where
  "SetConflictIDs env unconfirmed marker conflictIDs s =
     (case Mapper_Floor env marker s of
        (s1, Some (floorMarker, floorConflictIDs)) \<Rightarrow>
          if floorConflictIDs = conflictIDs then (s1, False)
          else let s2 = (if floorMarker = marker_Index marker
                         then deleteConflictIDMapping env (NewMarker (marker_SequenceID marker) floorMarker) s1 else s1)
               in (setConflictIDMapping env marker (unconfirmed conflictIDs) s2, True)
      | (s1, None) \<Rightarrow> (setConflictIDMapping env marker (unconfirmed conflictIDs) s1, True))"

text \<open>NewConflictMarkersMapper maps the marker of the genesis to no conflicts.\<close>

definition NewConflictMarkersMapper ::
    "('b, 'tm, 'u, 'q, 'x, 'c, 'wb, 'y) booker_env_scheme \<Rightarrow> ('c set \<Rightarrow> 'c set) \<Rightarrow> SequenceID option \<Rightarrow> 'q \<Rightarrow> 64 word \<Rightarrow>
     ('b, 't, 'c, 'x, 'q, 'z) booker_mesh_scheme \<Rightarrow> ('b, 't, 'c, 'x, 'q, 'z) booker_mesh_scheme" where
  "NewConflictMarkersMapper env unconfirmed storedCounter storage maxDistance s =
     fst (SetConflictIDs env unconfirmed (NewMarker 0 0) {}
       (s\<lparr>markersManager := NewManager (markersEnv env) storedCounter storage maxDistance\<rparr>))"

definition Mapper_BlockID ::
    "('b, 'y) mesh_env_scheme \<Rightarrow> Marker \<Rightarrow> ('b, 't, 'c, 'z) mesh_scheme \<Rightarrow> 'b" where
  "Mapper_BlockID env marker s =
     (case markerBlockMapping s (marker_SequenceID marker, marker_Index marker) of Some b \<Rightarrow> b | None \<Rightarrow> emptyBlockID env)"

text \<open>InheritStructureDetails; None is a walk that does not end.\<close>

definition Mapper_InheritStructureDetails ::
    "('b, 'tm, 'u, 'q, 'x, 'c, 'wb, 'y) booker_env_scheme \<Rightarrow> 'b \<Rightarrow> StructureDetails list \<Rightarrow>
     ('b, 't, 'c, 'x, 'q, 'z) booker_mesh_scheme \<Rightarrow>
     (panic + ('b, 't, 'c, 'x, 'q, 'z) booker_mesh_scheme \<times> StructureDetails \<times> bool) option" where
  "Mapper_InheritStructureDetails env blockID details s =
     map_option (\<lambda>r. bindE r (\<lambda>(mgr, newDetails, newSequenceCreated).
         let s1 = s\<lparr>markersManager := mgr\<rparr>
         in if IsPastMarker newDetails
            then bindE (Markers_Marker (PastMarkers newDetails))
              (\<lambda>marker. ok (StoreMarkerBlockMapping marker blockID s1, newDetails, newSequenceCreated))
            else ok (s1, newDetails, newSequenceCreated)))
       (InheritStructureDetails (markersEnv env) (markersManager s) details (IncreaseMarkersIndex env))"

text \<open>
  ForEachConflictIDMapping: the mapped markers above an index, in order; the index + 1 wraps after the greatest index.
\<close>

partial_function (option) mapped_loop ::
    "('x, 'c, 'z) conflict_map_scheme \<Rightarrow> 'x \<Rightarrow> SequenceID \<Rightarrow> index \<Rightarrow> Marker list option" where
  "mapped_loop cm t sequenceID i =
     (case cm_Ceiling cm t (i + 1) of
        None \<Rightarrow> Some []
      | Some (j, _) \<Rightarrow> Option.bind (mapped_loop cm t sequenceID j) (\<lambda>ms. Some (NewMarker sequenceID j # ms)))"

definition ForEachConflictIDMapping ::
    "('b, 'tm, 'u, 'q, 'x, 'c, 'wb, 'y) booker_env_scheme \<Rightarrow> SequenceID \<Rightarrow> index \<Rightarrow> (Marker \<Rightarrow> 'a \<Rightarrow> 'a) \<Rightarrow>
     ('b, 't, 'c, 'x, 'q, 'z) booker_mesh_scheme \<Rightarrow> 'a \<Rightarrow> 'a option" where
  "ForEachConflictIDMapping env sequenceID thresholdIndex callback s a =
     map_option (\<lambda>ms. fold callback ms a)
       (mapped_loop (conflictMap env) (mappingOf env sequenceID s) sequenceID thresholdIndex)"

definition ForEachMarkerReferencingMarker ::
    "('b, 'tm, 'u, 'q, 'x, 'c, 'wb, 'y) booker_env_scheme \<Rightarrow> Marker \<Rightarrow> (Marker \<Rightarrow> 'a \<Rightarrow> 'a) \<Rightarrow>
     ('b, 't, 'c, 'x, 'q, 'z) booker_mesh_scheme \<Rightarrow> 'a \<Rightarrow> 'a" where
  "ForEachMarkerReferencingMarker env referencedMarker callback s a =
     (case Manager_Sequence (markersEnv env) (markersManager s) (marker_SequenceID referencedMarker) of
        None \<Rightarrow> a
      | Some sequence \<Rightarrow>
          fst (Markers_ForEachSorted (markersEnv env)
            (Sequence_ReferencingMarkers (markersEnv env) sequence (marker_Index referencedMarker))
            (\<lambda>sequenceID i a. (if sequenceID = marker_SequenceID referencedMarker then a
                               else callback (NewMarker sequenceID i) a, True)) a))"

declare mapped_loop.simps [code]

end
