(* ===== verification/Booker.thy ===== *)
theory Booker
  imports MarkersMapper
begin

text \<open>
  Booking a block: which conflicts it inherits from its parents and its payload, where they are
  kept, and how a forked conflict is propagated to the blocks and markers above it
  (packages/core/mesh_old/booker.go).

  lenv and l are the environment and the state of the ledger, which booking only reads.  The results are an
  error or a value; None is a walk that does not end.  The mutexes only serialise the operations.
  The handlers of the approval weight manager that are hooked to the events do not touch what
  the booker reads: they follow from the log of the events.
\<close>

definition bindO :: "('e + 'a) option \<Rightarrow> ('a \<Rightarrow> ('e + 'b) option) \<Rightarrow> ('e + 'b) option" where
  "bindO m f = (case m of None \<Rightarrow> None | Some (Inl e) \<Rightarrow> Some (Inl e) | Some (Inr x) \<Rightarrow> f x)"

abbreviation unconfirmedOf where
  "unconfirmedOf lenv l \<equiv> UnconfirmedConflicts lenv (mergeToMaster lenv) (ConflictDAG l)"

section \<open>The conflicts of a block\<close>

definition PayloadConflictIDs where
  "PayloadConflictIDs lenv l s blockID =
     (case blockStorage s blockID of
        None \<Rightarrow> {}
      | Some blk \<Rightarrow> (case Payload blk of
            OtherPayload \<Rightarrow> {}
          | TransactionPayload tx \<Rightarrow>
              (case transactionMetadataStorage l (Transaction_ID lenv tx) of
                 None \<Rightarrow> {}
               | Some m \<Rightarrow> unconfirmedOf lenv l (tx_ConflictIDs m))))"

definition conflictIDsFromStructureDetails ::
    "('b, 'tm, 'u, 'q, 'x, 'c, 'wb, 'y) booker_env_scheme \<Rightarrow> StructureDetails option \<Rightarrow>
     ('b, 't, 'c, 'x, 'q, 'z) booker_mesh_scheme \<Rightarrow> booker_error + 'c set" where
  "conflictIDsFromStructureDetails env details s =
     (case details of
        None \<Rightarrow> Inl FatalError
      | Some d \<Rightarrow>
          fst (Markers_ForEach (markersEnv env) (Some (PastMarkers d))
            (\<lambda>sequenceID i r. (bindE r (\<lambda>found. bindE (Mapper_ConflictIDs env (NewMarker sequenceID i) s)
               (\<lambda>conflictIDs. Inr (found \<union> conflictIDs))), True)) (Inr {})))"

definition blockBookingDetails ::
    "('b, 'tm, 'u, 'q, 'x, 'c, 'wb, 'y) booker_env_scheme \<Rightarrow> ('b, 't, 'c, 'x, 'q, 'z) booker_mesh_scheme \<Rightarrow> 'b \<Rightarrow>
     booker_error + StructureDetails option \<times> 'c set \<times> 'c set" where
  "blockBookingDetails env s blockID =
     (case blockMetadataStorage s blockID of
        None \<Rightarrow> Inl FatalError
      | Some m \<Rightarrow>
          bindE (conflictIDsFromStructureDetails env (meta_StructureDetails m) s)
            (\<lambda>past. Inr (meta_StructureDetails m, past, past \<union> AddedConflictIDs m - SubtractedConflictIDs m)))"

definition BlockConflictIDs ::
    "('b, 'tm, 'u, 'q, 'x, 'c, 'wb, 'y) booker_env_scheme \<Rightarrow> ('b, 't, 'c, 'x, 'q, 'z) booker_mesh_scheme \<Rightarrow> 'b \<Rightarrow>
     booker_error + 'c set" where
  "BlockConflictIDs env s blockID =
     (if blockID = emptyBlockID env then Inr {}
      else bindE (blockBookingDetails env s blockID) (\<lambda>(_, _, conflictIDs). Inr conflictIDs))"

definition conflictIDsFromMetadata ::
    "('b, 'tm, 'u, 'q, 'x, 'c, 'wb, 'y) booker_env_scheme \<Rightarrow> ('b, 'c) BlockMetadata \<Rightarrow>
     ('b, 't, 'c, 'x, 'q, 'z) booker_mesh_scheme \<Rightarrow> booker_error + 'c set" where
  "conflictIDsFromMetadata env m s =
     bindE (conflictIDsFromStructureDetails env (meta_StructureDetails m) s)
       (\<lambda>past. Inr (past \<union> AddedConflictIDs m - SubtractedConflictIDs m))"

section \<open>What a block inherits\<close>

definition collectStrongParent ::
    "('b, 'tm, 'u, 'q, 'x, 'c, 'wb, 'y) booker_env_scheme \<Rightarrow> ('b, 't, 'c, 'x, 'q, 'z) booker_mesh_scheme \<Rightarrow> 'b \<Rightarrow>
     booker_error + StructureDetails list \<times> 'c set \<times> 'c set \<Rightarrow> (booker_error + StructureDetails list \<times> 'c set \<times> 'c set) \<times> bool" where
  "collectStrongParent env s parentID acc =
     (let r = bindE acc (\<lambda>(details, pastMarkersConflictIDs, conflictIDs).
          bindE (blockBookingDetails env s parentID) (\<lambda>(d, past, inherited).
            Inr (details @ (case d of Some d \<Rightarrow> [d] | None \<Rightarrow> []), pastMarkersConflictIDs \<union> past, conflictIDs \<union> inherited)))
      in (r, case r of Inl _ \<Rightarrow> False | Inr _ \<Rightarrow> True))"

definition collectStrongParentsBookingDetails ::
    "('b, 'tm, 'u, 'q, 'x, 'c, 'wb, 'y) booker_env_scheme \<Rightarrow> ('b, 't, 'c, 'x, 'q, 'z) booker_mesh_scheme \<Rightarrow> ('b, 't) Block \<Rightarrow>
     booker_error + StructureDetails list \<times> 'c set \<times> 'c set" where
  "collectStrongParentsBookingDetails env s blk =
     ForEachParentByType env blk StrongParentType (collectStrongParent env s) (Inr ([], {}, {}))"

text \<open>The conflicts of a transaction; an error of the ledger is fatal.\<close>

definition transactionConflicts where
  "transactionConflicts l t = (case TransactionConflictIDs l t of Inl _ \<Rightarrow> Inl FatalError | Inr conflictIDs \<Rightarrow> Inr conflictIDs)"

definition collectDisliked where
  "collectDisliked lenv l t disliked =
     fold (\<lambda>conflicting r. bindE r (\<lambda>found. bindE (transactionConflicts l conflicting) (\<lambda>conflictIDs. Inr (found \<union> conflictIDs))))
       (conflictElems lenv (ConflictingTransactions lenv l t)) (Inr disliked)"

definition collectLikedParent where
  "collectLikedParent lenv l s parentID acc =
     (let r = bindE acc (\<lambda>(liked, disliked).
          case blockStorage s parentID of
            None \<Rightarrow> Inl FatalError
          | Some blk \<Rightarrow> (case Payload blk of
                OtherPayload \<Rightarrow> Inl FatalError
              | TransactionPayload tx \<Rightarrow>
                  bindE (transactionConflicts l (Transaction_ID lenv tx)) (\<lambda>conflictIDs.
                  bindE (collectDisliked lenv l (Transaction_ID lenv tx) disliked) (\<lambda>disliked1.
                    Inr (liked \<union> conflictIDs, disliked1)))))
      in (r, case r of Inl _ \<Rightarrow> False | Inr _ \<Rightarrow> True))"

definition collectShallowLikedParentsConflictIDs where
  "collectShallowLikedParentsConflictIDs env lenv l s blk =
     ForEachParentByType env blk ShallowLikeParentType (collectLikedParent lenv l s) (Inr ({}, {}))"

definition collectWeakParent where
  "collectWeakParent lenv l s parentID acc =
     (let r = bindE acc (\<lambda>found.
          case blockStorage s parentID of
            None \<Rightarrow> Inl FatalError
          | Some blk \<Rightarrow> (case Payload blk of
                OtherPayload \<Rightarrow> Inr found
              | TransactionPayload tx \<Rightarrow>
                  bindE (transactionConflicts l (Transaction_ID lenv tx)) (\<lambda>conflictIDs. Inr (found \<union> conflictIDs))))
      in (r, case r of Inl _ \<Rightarrow> False | Inr _ \<Rightarrow> True))"

definition collectWeakParentsConflictIDs where
  "collectWeakParentsConflictIDs env lenv l s blk =
     ForEachParentByType env blk WeakParentType (collectWeakParent lenv l s) (Inr {})"

definition determineBookingDetails where
  "determineBookingDetails env lenv l s blk =
     bindO (Some (collectStrongParentsBookingDetails env s blk)) (\<lambda>(details, pastMarkersConflictIDs, strong).
     bindO (Some (collectWeakParentsConflictIDs env lenv l s blk)) (\<lambda>weak.
     bindO (Some (collectShallowLikedParentsConflictIDs env lenv l s blk)) (\<lambda>(liked, disliked).
       map_option (\<lambda>cone. Inr (details, pastMarkersConflictIDs,
           unconfirmedOf lenv l (PayloadConflictIDs lenv l s (blk_ID blk) \<union> strong \<union> weak \<union> liked - cone)))
         (ConflictIDsInFutureCone lenv l disliked))))"

section \<open>Booking\<close>

definition setStructureDetails where
  "setStructureDetails blockID details s =
     (case blockMetadataStorage s blockID of Some m \<Rightarrow> putMetadata (fst (SetStructureDetails details m)) s | None \<Rightarrow> s)"

definition setDifferences where
  "setDifferences blockID added subtracted s =
     (case blockMetadataStorage s blockID of
        None \<Rightarrow> s
      | Some m \<Rightarrow>
          let m1 = (if added \<noteq> {} then fst (SetAddedConflictIDs added m) else m);
              m2 = (if subtracted \<noteq> {} then fst (SetSubtractedConflictIDs subtracted m1) else m1)
          in putMetadata m2 s)"

text \<open>Where the inherited conflicts are kept; the result is the error, if any, and the state.\<close>

definition keepConflicts where
  "keepConflicts env unconfirmed blockID details newSequenceCreated inherited s =
     (let atMarker = (\<lambda>s. case Markers_Marker (PastMarkers details) of
            Inl p \<Rightarrow> (Some (Panicked p), s)
          | Inr marker \<Rightarrow> (None, fst (SetConflictIDs env unconfirmed marker inherited s)))
      in if newSequenceCreated then atMarker s
         else case conflictIDsFromStructureDetails env (Some details) s of
                Inl e \<Rightarrow> (Some e, s)
              | Inr past \<Rightarrow>
                  if inherited - past = {} \<and> past - inherited = {} then (None, s)
                  else if IsPastMarker details then atMarker s
                  else (None, setDifferences blockID (inherited - past) (past - inherited) s))"

definition Booker_inheritConflictIDs where
  "Booker_inheritConflictIDs env lenv l blk s =
     Option.bind (determineBookingDetails env lenv l s blk) (\<lambda>r.
       case r of
         Inl e \<Rightarrow> Some (Some e, s)
       | Inr (details, _, inherited) \<Rightarrow>
           map_option (\<lambda>r. case r of
               Inl p \<Rightarrow> (Some (Panicked p), s)
             | Inr (s1, newDetails, newSequenceCreated) \<Rightarrow>
                 keepConflicts env (unconfirmedOf lenv l) (blk_ID blk) newDetails newSequenceCreated inherited
                   (setStructureDetails (blk_ID blk) newDetails s1))
             (Mapper_InheritStructureDetails env (blk_ID blk) details s))"

definition markBooked where
  "markBooked env blockID s =
     (case blockMetadataStorage s blockID of
        None \<Rightarrow> s
      | Some m \<Rightarrow> case readClock env s of (now, s1) \<Rightarrow> putMetadata (fst (SetBooked now True m)) s1)"

definition BookBlock where
  "BookBlock env lenv l blk s =
     map_option (\<lambda>(e, s1). case e of
         Some e \<Rightarrow> (Some e, s1)
       | None \<Rightarrow> (None, emit (BlockBooked (blk_ID blk)) (markBooked env (blk_ID blk) s1)))
       (Booker_inheritConflictIDs env lenv l blk s)"

definition readyForBooking ::
    "('b, 'y) mesh_env_scheme \<Rightarrow> ('b, 't) Block \<Rightarrow> ('b, 'c) BlockMetadata \<Rightarrow> ('b, 't, 'c, 'z) mesh_scheme \<Rightarrow> bool" where
  "readyForBooking env blk m s =
     (if \<not> Solid m \<or> Booked m then False
      else ForEachParent env blk
        (\<lambda>_ parentID ready. case blockMetadataStorage s parentID of Some p \<Rightarrow> ready \<and> Booked p | None \<Rightarrow> ready) True)"

section \<open>Forks\<close>

definition updateBlockConflicts where
  "updateBlockConflicts env m addedConflict parentConflicts s =
     bindE (conflictIDsFromMetadata env m s) (\<lambda>conflictIDs.
       if \<not> parentConflicts \<subseteq> conflictIDs then Inr (s, False)
       else case AddConflictID addedConflict m of (m1, modified) \<Rightarrow>
              if \<not> modified then Inr (s, False) else Inr (putMetadata m1 s, True))"

definition forkSingleMarker where
  "forkSingleMarker env unconfirmed currentMarker newConflictID removedConflictIDs s markerWalker =
     bindO (Some (Mapper_ConflictIDs env currentMarker s)) (\<lambda>conflictIDs.
       if \<not> removedConflictIDs \<subseteq> conflictIDs \<or> newConflictID \<in> conflictIDs then Some (Inr (s, markerWalker))
       else case SetConflictIDs env unconfirmed currentMarker (insert newConflictID conflictIDs) s of (s1, updated) \<Rightarrow>
         if \<not> updated then Some (Inr (s1, markerWalker))
         else let s2 = emit (MarkerConflictAdded currentMarker newConflictID) s1
              in map_option (\<lambda>w1. Inr (s2, ForEachMarkerReferencingMarker env currentMarker
                     (\<lambda>m w. pushMarker (markersEnv env) w m) s2 w1))
                   (ForEachConflictIDMapping env (marker_SequenceID currentMarker) (marker_Index currentMarker)
                     (\<lambda>m w. pushMarker (markersEnv env) w m) s2 markerWalker))"

partial_function (option) marker_cone_loop ::
    "('b, 'tm, 'u, 'q, 'x, 'c, 'wb, 'y) booker_env_scheme \<Rightarrow> ('c set \<Rightarrow> 'c set) \<Rightarrow> 'c \<Rightarrow> 'c set \<Rightarrow>
     ('b, 't, 'c, 'x, 'q, 'z) booker_mesh_scheme \<Rightarrow> 'u \<Rightarrow> (booker_error + ('b, 't, 'c, 'x, 'q, 'z) booker_mesh_scheme) option" where
  "marker_cone_loop env unconfirmed conflictID removedConflictIDs s markerWalker =
     (case nextMarker (markersEnv env) markerWalker of
        None \<Rightarrow> Some (Inr s)
      | Some (currentMarker, w1) \<Rightarrow>
          Option.bind (forkSingleMarker env unconfirmed currentMarker conflictID removedConflictIDs s w1) (\<lambda>r.
            case r of
              Inl e \<Rightarrow> Some (Inl e)
            | Inr (s1, w2) \<Rightarrow> marker_cone_loop env unconfirmed conflictID removedConflictIDs s1 w2))"

definition propagateForkedTransactionToMarkerFutureCone where
  "propagateForkedTransactionToMarkerFutureCone env unconfirmed marker conflictID removedConflictIDs s =
     marker_cone_loop env unconfirmed conflictID removedConflictIDs s
       (pushMarker (markersEnv env) (newWalker (markersEnv env)) marker)"

definition propagateForkedConflict where
  "propagateForkedConflict env unconfirmed m addedConflictID removedConflictIDs s =
     (if \<not> Booked m then Some (Inr (s, False))
      else case meta_StructureDetails m of
             None \<Rightarrow> Some (Inl (Panicked NilDereference))
           | Some d \<Rightarrow>
               if IsPastMarker d
               then bindO (Some (lift_go (Markers_Marker (PastMarkers d)))) (\<lambda>marker.
                    bindO (propagateForkedTransactionToMarkerFutureCone env unconfirmed marker addedConflictID removedConflictIDs s)
                      (\<lambda>s1. Some (Inr (s1, True))))
               else Some (updateBlockConflicts env m addedConflictID removedConflictIDs s))"

partial_function (option) block_cone_loop ::
    "('b, 'tm, 'u, 'q, 'x, 'c, 'wb, 'y) booker_env_scheme \<Rightarrow> ('c set \<Rightarrow> 'c set) \<Rightarrow> 'c \<Rightarrow> 'c set \<Rightarrow>
     ('b, 't, 'c, 'x, 'q, 'z) booker_mesh_scheme \<Rightarrow> 'wb \<Rightarrow> (booker_error option \<times> ('b, 't, 'c, 'x, 'q, 'z) booker_mesh_scheme) option" where
  "block_cone_loop env unconfirmed addedConflictID removedConflictIDs s blockWalker =
     (case nextBlockWalk env blockWalker of
        None \<Rightarrow> Some (None, s)
      | Some (blockID, w1) \<Rightarrow>
          (case blockMetadataStorage s blockID of
             None \<Rightarrow> block_cone_loop env unconfirmed addedConflictID removedConflictIDs s w1
           | Some m \<Rightarrow>
               Option.bind (propagateForkedConflict env unconfirmed m addedConflictID removedConflictIDs s) (\<lambda>r.
                 case r of
                   Inl e \<Rightarrow> Some (Some e, s)
                 | Inr (s1, updated) \<Rightarrow>
                     if \<not> updated then block_cone_loop env unconfirmed addedConflictID removedConflictIDs s1 w1
                     else let s2 = emit (BlockConflictUpdated (meta_ID m) addedConflictID) s1
                          in block_cone_loop env unconfirmed addedConflictID removedConflictIDs s2
                               (fold (\<lambda>b w. pushBlockWalk env w b)
                                 (rangeBlockIDs env (ApprovingBlockIDs (meta_ID m) (Some StrongChild) s2)) w1))))"

definition PropagateForkedConflict where
  "PropagateForkedConflict env unconfirmed transactionID addedConflictID removedConflictIDs s =
     block_cone_loop env unconfirmed addedConflictID removedConflictIDs s
       (fold (\<lambda>b w. pushBlockWalk env w b) (rangeBlockIDs env (AttachmentBlockIDs transactionID s)) (newBlockWalk env))"

declare marker_cone_loop.simps [code] block_cone_loop.simps [code]

end
