(* ===== verification/ApprovalWeight.thy ===== *)
theory ApprovalWeight
  imports Booker ConflictProperties
begin

text \<open>
  The approval weight manager (packages/core/mesh_old/approvalweightmanager.go): which node supports which
  conflict and which marker, and how much weight that is.

  The state extends that of the booker by the storages of the votes.  An object that is absent reads as a new
  one, except for the voters of a conflict, where voterSupportsAllConflicts tells the two apart.  cenv and d are the environment
  and the state of the conflict DAG, which is only read.  The weights of the voters, which
  change over time, are an argument, and so is the oracle: the first unconfirmed index of a sequence.
\<close>

record ('b, 'tm, 'u, 'q, 'x, 'c, 'wb, 'n, 'mv) approval_env = "('b, 'tm, 'u, 'q, 'x, 'c, 'wb) booker_env" +
  newNodeID :: "pubkey \<Rightarrow> 'n"
  emptyConflictID :: 'c
  voteMap :: "'mv vote_map"
  roundFloat :: "rat \<Rightarrow> rat"
  rangeVoters :: "'n set \<Rightarrow> 'n list"
  rangePowers :: "('n \<times> VotePower) list \<Rightarrow> ('n \<times> VotePower) list"

record ('b, 'n) weights =
  weightOfBlock :: "'b \<Rightarrow> float64 \<times> float64"
  activeWeights :: "'n \<Rightarrow> float64"
  totalWeight :: float64

record ('b, 't, 'c, 'x, 'q, 'n, 'mv) approval_mesh = "('b, 't, 'c, 'x, 'q) booker_mesh" +
  latestConflictVotes :: "'n \<Rightarrow> ('c, 'n) LatestConflictVotes"
  conflictVoters :: "'c \<Rightarrow> 'n set option"
  conflictWeights :: "'c \<Rightarrow> float64"
  latestMarkerVotes :: "SequenceID \<Rightarrow> ('n \<times> 'mv) list"

definition minVoterWeight :: rat where
  "minVoterWeight = 1 / 10 ^ 15"

definition isRelevantVoter where
  "isRelevantVoter env w blk =
     (case weightOfBlock w (blk_ID blk) of (voterWeight, totalW) \<Rightarrow>
        fge (fdiv (roundFloat env) voterWeight totalW) (Num (Fin (roundFloat env minVoterWeight))))"

section \<open>Weights\<close>

definition WeightOfConflict ::
    "'c \<Rightarrow> ('b, 't, 'c, 'x, 'q, 'n, 'mv, 'z) approval_mesh_scheme \<Rightarrow> float64" where
  "WeightOfConflict conflictID s = conflictWeights s conflictID"

definition VotersOfConflict :: "'c \<Rightarrow> ('b, 't, 'c, 'x, 'q, 'n, 'mv, 'z) approval_mesh_scheme \<Rightarrow> 'n set" where
  "VotersOfConflict conflictID s = (case conflictVoters s conflictID of Some voters \<Rightarrow> voters | None \<Rightarrow> {})"

definition sumWeights where
  "sumWeights env w voters = fold (\<lambda>voter sum. fadd (roundFloat env) sum (activeWeights w voter)) voters (Num (Fin 0))"

definition markerVotes where
  "markerVotes env marker s =
     concat (map (\<lambda>(voter, votes). case LatestMarkerVotes_Power (voteMap env) votes (marker_Index marker) of
         None \<Rightarrow> []
       | Some lastPower \<Rightarrow> [(voter, lastPower)]) (latestMarkerVotes s (marker_SequenceID marker)))"

definition WeightOfMarker where
  "WeightOfMarker env w marker s =
     fdiv (roundFloat env) (sumWeights env w (map fst (rangePowers env (markerVotes env marker s)))) (totalWeight w)"

definition updateConflictWeight where
  "updateConflictWeight env w conflictID s =
     (let newConflictWeight = fdiv (roundFloat env)
            (sumWeights env w (rangeVoters env (VotersOfConflict conflictID s))) (totalWeight w)
      in case SetWeight newConflictWeight (conflictWeights s conflictID) of (weight, modified) \<Rightarrow>
           if \<not> modified then s
           else emit (ConflictWeightChanged conflictID newConflictWeight)
                  (s\<lparr>conflictWeights := (conflictWeights s)(conflictID := weight)\<rparr>))"

section \<open>Votes of a block on conflicts\<close>

definition voteWithHigherPower ::
    "('b, 't, 'c, 'x, 'q, 'n, 'mv, 'z) approval_mesh_scheme \<Rightarrow> ('c, 'n) ConflictVote \<Rightarrow> ('c, 'n) ConflictVote option \<times> bool" where
  "voteWithHigherPower s vote =
     (let existing = latestConflictVotes s (vote_Voter vote) (vote_ConflictID vote)
      in (existing, case existing of Some e \<Rightarrow> vote_Power e > vote_Power vote | None \<Rightarrow> False))"

definition identicalVoteWithHigherPowerExists ::
    "('b, 't, 'c, 'x, 'q, 'n, 'mv, 'z) approval_mesh_scheme \<Rightarrow> ('c, 'n) ConflictVote \<Rightarrow> bool" where
  "identicalVoteWithHigherPowerExists s vote =
     (case voteWithHigherPower s vote of
        (Some e, True) \<Rightarrow> vote_Opinion vote = vote_Opinion e
      | _ \<Rightarrow> False)"

text \<open>The conflicts and their ancestors.  The second result of the code is always false, and is not used.\<close>

partial_function (option) determineConflictsToAdd ::
    "('c, 'r, 's, 'w, 'v, 'y) conflict_env_scheme \<Rightarrow> 's \<Rightarrow> 'c list \<Rightarrow> 'c set \<Rightarrow> 'c set option" where
  "determineConflictsToAdd cenv d conflictIDs addedConflicts =
     (case conflictIDs of
        [] \<Rightarrow> Some addedConflicts
      | currentConflictID # rest \<Rightarrow>
          (case loadConflict cenv d currentConflictID of
             None \<Rightarrow> determineConflictsToAdd cenv d rest (insert currentConflictID addedConflicts)
           | Some conflict \<Rightarrow>
               Option.bind (determineConflictsToAdd cenv d (conflictElems cenv (Parents conflict)) {}) (\<lambda>addedOfParents.
                 determineConflictsToAdd cenv d rest (insert currentConflictID (addedConflicts \<union> addedOfParents)))))"

partial_function (option) revoke_loop ::
    "('c, 'r, 's, 'w, 'v, 'y) conflict_env_scheme \<Rightarrow> 's \<Rightarrow> 'c set \<Rightarrow> 'c set \<Rightarrow> 'w \<Rightarrow> 'c set \<Rightarrow> ('c set \<times> bool) option" where
  "revoke_loop cenv d addedConflicts votedConflicts subTractionWalker revokedConflicts =
     (case nextWalk cenv subTractionWalker of
        None \<Rightarrow> Some (revokedConflicts, False)
      | Some (currentConflictID, w1) \<Rightarrow>
          if currentConflictID \<in> addedConflicts \<or> currentConflictID \<in> votedConflicts then Some (revokedConflicts, True)
          else revoke_loop cenv d addedConflicts votedConflicts
                 (fold (\<lambda>c w. pushWalk cenv w c) (childConflicts cenv d currentConflictID) w1)
                 (insert currentConflictID revokedConflicts))"

definition determineConflictsToRevoke ::
    "('c, 'r, 's, 'w, 'v, 'y) conflict_env_scheme \<Rightarrow> 's \<Rightarrow> 'c set \<Rightarrow> 'c set \<Rightarrow> ('c set \<times> bool) option" where
  "determineConflictsToRevoke cenv d addedConflicts votedConflicts =
     revoke_loop cenv d addedConflicts votedConflicts
       (fold (\<lambda>i w. ForEachConflictingByID cenv d i (\<lambda>c w. (pushWalk cenv w c, True)) w)
         (conflictElems cenv addedConflicts) (newWalk cenv)) {}"

definition conflictingVoteWithHigherPower where
  "conflictingVoteWithHigherPower cenv d s vote votedConflictID =
     ForEachConflictingByID cenv d votedConflictID (\<lambda>c found.
       let e = identicalVoteWithHigherPowerExists s (WithOpinion OpinionConfirmed (WithConflictID c vote)) in (e, \<not> e)) False"

definition determineVotes where
  "determineVotes cenv d s votedConflictIDs vote =
     Option.bind
       (fold (\<lambda>i r. Option.bind r (\<lambda>added.
            if conflictingVoteWithHigherPower cenv d s vote i then Some added
            else map_option (\<lambda>A. added \<union> A) (determineConflictsToAdd cenv d [i] {})))
          (conflictElems cenv votedConflictIDs) (Some {}))
       (\<lambda>added. map_option (\<lambda>(revoked, isInvalid). (added, revoked, isInvalid))
          (determineConflictsToRevoke cenv d added votedConflictIDs))"

definition addVoterToConflict where
  "addVoterToConflict env w conflictID vote s =
     (if (case latestConflictVotes s (vote_Voter vote) conflictID of Some e \<Rightarrow> vote_Power e < vote_Power vote | None \<Rightarrow> True)
      then updateConflictWeight env w conflictID
        (s\<lparr>latestConflictVotes := (latestConflictVotes s)
             (vote_Voter vote := fst (LatestConflictVotes_Store vote (latestConflictVotes s (vote_Voter vote)))),
           conflictVoters := (conflictVoters s)
             (conflictID \<mapsto> fst (AddVoter (vote_Voter vote) (VotersOfConflict conflictID s)))\<rparr>)
      else s)"

definition revokeVoterFromConflict where
  "revokeVoterFromConflict env w conflictID vote s =
     (if (case latestConflictVotes s (vote_Voter vote) conflictID of Some e \<Rightarrow> vote_Power e < vote_Power vote | None \<Rightarrow> True)
      then updateConflictWeight env w conflictID
        (s\<lparr>latestConflictVotes := (latestConflictVotes s)
             (vote_Voter vote := fst (LatestConflictVotes_Store vote (latestConflictVotes s (vote_Voter vote)))),
           conflictVoters := (conflictVoters s)
             (conflictID \<mapsto> fst (DeleteVoter (vote_Voter vote) (VotersOfConflict conflictID s)))\<rparr>)
      else s)"

text \<open>The votes that a block casts: the added conflicts are confirmed, then the revoked ones rejected.\<close>

definition castVotes where
  "castVotes env cenv w vote added revoked s =
     fold (\<lambda>i. revokeVoterFromConflict env w i (WithConflictID i (WithOpinion OpinionRejected vote))) (conflictElems cenv revoked)
       (fold (\<lambda>i. addVoterToConflict env w i (WithConflictID i (WithOpinion OpinionConfirmed vote))) (conflictElems cenv added) s)"

definition setSubjectivelyInvalid where
  "setSubjectivelyInvalid blockID s =
     (case blockMetadataStorage s blockID of Some m \<Rightarrow> putMetadata (fst (SetSubjectivelyInvalid True m)) s | None \<Rightarrow> s)"

definition blockVote where
  "blockVote env blk = NewConflictVote (newNodeID env (IssuerPublicKey blk)) (SequenceNumber blk) (emptyConflictID env) UndefinedOpinion"

definition updateConflictVoters where
  "updateConflictVoters env cenv d w blk s =
     bindO (Some (BlockConflictIDs env s (blk_ID blk))) (\<lambda>conflictsOfBlock.
       map_option (\<lambda>(added, revoked, isInvalid).
           if isInvalid then Inr (setSubjectivelyInvalid (blk_ID blk) s)
           else if \<not> isRelevantVoter env w blk then Inr s
           else Inr (castVotes env cenv w (blockVote env blk) added revoked s))
         (determineVotes cenv d s conflictsOfBlock (blockVote env blk)))"

section \<open>Votes of a block on markers\<close>

definition triggerMarkerWeight where
  "triggerMarkerWeight env w currentMarker s =
     (if Mapper_BlockID env currentMarker s = emptyBlockID env then s
      else emit (MarkerWeightChanged currentMarker (WeightOfMarker env w currentMarker s)) s)"

partial_function (option) marker_weights_loop where
  "marker_weights_loop env w sequenceID i rangeEndIndex s =
     (if i \<le> rangeEndIndex
      then marker_weights_loop env w sequenceID (i + 1) rangeEndIndex (triggerMarkerWeight env w (NewMarker sequenceID i) s)
      else Some s)"

definition updateMarkerWeights where
  "updateMarkerWeights env w oracle sequenceID rangeStartIndex rangeEndIndex s =
     marker_weights_loop env w sequenceID
       (if rangeStartIndex \<le> (1 :: index) then oracle sequenceID else rangeStartIndex) rangeEndIndex s"

definition markerVotesOf where
  "markerVotesOf env sequenceID voter s =
     (case map_of (latestMarkerVotes s sequenceID) voter of Some votes \<Rightarrow> votes | None \<Rightarrow> vm_New (voteMap env))"

definition pushReferenced where
  "pushReferenced env marker s walk =
     (case Manager_Sequence (markersEnv env) (markersManager s) (marker_SequenceID marker) of
        None \<Rightarrow> walk
      | Some sequence \<Rightarrow>
          fst (Markers_ForEach (markersEnv env)
            (Some (Sequence_ReferencedMarkers (markersEnv env) sequence (marker_Index marker)))
            (\<lambda>sequenceID i w. (pushMarker (markersEnv env) w (NewMarker sequenceID i), True)) walk))"

definition addVoteToMarker where
  "addVoteToMarker env w oracle marker blk s walk =
     (if oracle (marker_SequenceID marker) \<ge> marker_Index marker then Some (s, walk)
      else let sequenceID = marker_SequenceID marker; voter = newNodeID env (IssuerPublicKey blk)
           in Option.bind (LatestMarkerVotes_Store (voteMap env) (marker_Index marker) (SequenceNumber blk)
                (markerVotesOf env sequenceID voter s)) (\<lambda>(votes, isNew, previousHighestIndex).
                if \<not> isNew then Some (s, walk)
                else let s1 = s\<lparr>latestMarkerVotes := (latestMarkerVotes s)
                                (sequenceID := AList.update voter votes (latestMarkerVotes s sequenceID))\<rparr>
                     in map_option (\<lambda>s2. (s2, pushReferenced env marker s2 walk))
                          (if marker_Index marker > previousHighestIndex
                           then updateMarkerWeights env w oracle sequenceID (previousHighestIndex + 1) (marker_Index marker) s1
                           else Some s1)))"

partial_function (option) support_loop where
  "support_loop env w oracle blk s supportWalker =
     (case nextMarker (markersEnv env) supportWalker of
        None \<Rightarrow> Some s
      | Some (marker, w1) \<Rightarrow>
          Option.bind (addVoteToMarker env w oracle marker blk s w1) (\<lambda>(s1, w2). support_loop env w oracle blk s1 w2))"

definition updateSequenceVoters where
  "updateSequenceVoters env w oracle blk s =
     (if \<not> isRelevantVoter env w blk then Some (Inr s)
      else case blockMetadataStorage s (blk_ID blk) of
             None \<Rightarrow> Some (Inr s)
           | Some m \<Rightarrow> (case meta_StructureDetails m of
               None \<Rightarrow> Some (Inl (Panicked NilDereference))
             | Some details \<Rightarrow>
                 map_option Inr (support_loop env w oracle blk s
                   (pushMarkers (markersEnv env) (PastMarkers details) (newWalker (markersEnv env))))))"

definition processBookedBlock where
  "processBookedBlock env cenv d w oracle blockID s =
     (case blockStorage s blockID of
        None \<Rightarrow> Some (Inr s)
      | Some blk \<Rightarrow>
          bindO (updateConflictVoters env cenv d w blk s) (\<lambda>s1.
          bindO (updateSequenceVoters env w oracle blk s1) (\<lambda>s2. Some (Inr (emit (BlockProcessed blockID) s2)))))"

section \<open>Forks\<close>

definition voterSupportsAllConflicts where
  "voterSupportsAllConflicts cenv voter conflictIDs s =
     list_all (\<lambda>i. case conflictVoters s i of Some voters \<Rightarrow> voter \<in> voters | None \<Rightarrow> True) (conflictElems cenv conflictIDs)"

definition addSupportToForkedConflictVoters where
  "addSupportToForkedConflictVoters cenv voter forkedConflictID parentConflictIDs sequenceNumber s =
     (if \<not> voterSupportsAllConflicts cenv voter parentConflictIDs s then (s, False)
      else case LatestConflictVotes_Store (NewConflictVote voter sequenceNumber forkedConflictID OpinionConfirmed)
             (latestConflictVotes s voter) of
        (votes, supportAdded) \<Rightarrow>
          let s1 = s\<lparr>latestConflictVotes := (latestConflictVotes s)(voter := votes)\<rparr>
          in if \<not> supportAdded then (s1, False)
             else case AddVoter voter (VotersOfConflict forkedConflictID s1) of (voters, added) \<Rightarrow>
               (s1\<lparr>conflictVoters := (conflictVoters s1)(forkedConflictID \<mapsto> voters)\<rparr>, added))"

text \<open>ConflictVoters is computed if absent: an empty set of voters is stored.\<close>

definition ensureVoters where
  "ensureVoters conflictID s = s\<lparr>conflictVoters := (conflictVoters s)(conflictID \<mapsto> VotersOfConflict conflictID s)\<rparr>"

definition processForkedBlock where
  "processForkedBlock env cenv d w blockID forkedConflictID s =
     (case blockStorage s blockID of
        None \<Rightarrow> s
      | Some blk \<Rightarrow>
          let s1 = ensureVoters forkedConflictID s
          in case loadConflict cenv d forkedConflictID of
               None \<Rightarrow> s1
             | Some forkedConflict \<Rightarrow>
                 (case addSupportToForkedConflictVoters cenv (newNodeID env (IssuerPublicKey blk)) forkedConflictID
                    (Parents forkedConflict) (SequenceNumber blk) s1 of
                    (s2, added) \<Rightarrow> if added then updateConflictWeight env w forkedConflictID s2 else s2))"

definition processForkedMarker where
  "processForkedMarker env cenv d w marker forkedConflictID s =
     (let s1 = ensureVoters forkedConflictID s
      in case loadConflict cenv d forkedConflictID of
           None \<Rightarrow> s1
         | Some forkedConflict \<Rightarrow>
             (case fold (\<lambda>(voter, sequenceNumber) (s, updated).
                  case addSupportToForkedConflictVoters cenv voter forkedConflictID (Parents forkedConflict) sequenceNumber s of
                    (s2, added) \<Rightarrow> (s2, updated \<or> added))
                (rangePowers env (markerVotes env marker s1)) (s1, False) of
                (s2, updated) \<Rightarrow> if updated then updateConflictWeight env w forkedConflictID s2 else s2))"

declare determineConflictsToAdd.simps [code] revoke_loop.simps [code] marker_weights_loop.simps [code] support_loop.simps [code]

end
