(* ===== verification/Acceptance.thy ===== *)
theory Acceptance
  imports ApprovalWeight
begin

text \<open>
  The acceptance gadget (packages/core/consensus/acceptance/gadget.go): it turns the approval weight of markers and
  conflicts into confirmation states, and accepts the past cone of an accepted marker.

  The state extends that of the approval weight manager by the last confirmed markers.  lenv and l are the environment and the
  state of the ledger.  The order of the external type confirmation.State is the function stateRank.  The handlers
  attached to the event BlockAccepted are asynchronous, and not part of these operations.
\<close>

record ('b, 'tm, 'u, 'q, 'x, 'c, 'wb, 'n, 'mv) gadget_env = "('b, 'tm, 'u, 'q, 'x, 'c, 'wb, 'n, 'mv) approval_env" +
  pushedBlockWalk :: "'wb \<Rightarrow> 'b \<Rightarrow> bool"
  BlockTransFunc :: "float64 \<Rightarrow> State"
  ConflictTransFunc :: "'c \<Rightarrow> float64 \<Rightarrow> State"
  stateRank :: "State \<Rightarrow> nat"

record ('b, 't, 'c, 'x, 'q, 'n, 'mv) gadget_mesh = "('b, 't, 'c, 'x, 'q, 'n, 'mv) approval_mesh" +
  lastConfirmedMarkers :: "SequenceID \<Rightarrow> index option"

definition acceptanceThreshold :: "('b, 'tm, 'u, 'q, 'x, 'c, 'wb, 'n, 'mv, 'y) approval_env_scheme \<Rightarrow> float64" where
  "acceptanceThreshold env = Num (Fin (roundFloat env (67 / 100)))"

definition DefaultBlockTranslation ::
    "('b, 'tm, 'u, 'q, 'x, 'c, 'wb, 'n, 'mv, 'y) approval_env_scheme \<Rightarrow> float64 \<Rightarrow> State" where
  "DefaultBlockTranslation env aw = (if fge aw (acceptanceThreshold env) then Accepted else Pending)"

definition DefaultConflictTranslation ::
    "('b, 'tm, 'u, 'q, 'x, 'c, 'wb, 'n, 'mv, 'y) approval_env_scheme \<Rightarrow> 'c \<Rightarrow> float64 \<Rightarrow> State" where
  "DefaultConflictTranslation env conflictID aw = (if fge aw (acceptanceThreshold env) then Accepted else Pending)"

section \<open>What is confirmed\<close>

definition IsBlockConfirmed :: "'b \<Rightarrow> ('b, 't, 'c, 'z) mesh_scheme \<Rightarrow> bool" where
  "IsBlockConfirmed blkID s = (case blockMetadataStorage s blkID of Some m \<Rightarrow> IsAccepted (meta_State m) | None \<Rightarrow> False)"

definition IsMarkerConfirmed :: "('b, 'y) mesh_env_scheme \<Rightarrow> Marker \<Rightarrow> ('b, 't, 'c, 'z) mesh_scheme \<Rightarrow> bool" where
  "IsMarkerConfirmed env marker s =
     (let blockID = Mapper_BlockID env marker s
      in if blockID = emptyBlockID env then False
         else (case blockMetadataStorage s blockID of Some m \<Rightarrow> IsAccepted (meta_State m) | None \<Rightarrow> False))"

definition IsConflictConfirmed where
  "IsConflictConfirmed lenv conflictID l = IsAccepted (ConfirmationState lenv (ConflictDAG l) {conflictID})"

definition IsTransactionConfirmed where
  "IsTransactionConfirmed transactionID l =
     (case transactionMetadataStorage l transactionID of Some m \<Rightarrow> IsAccepted (tx_State m) | None \<Rightarrow> False)"

text \<open>The loop tests the marker at the index first; the index wraps after the greatest one.\<close>

partial_function (option) first_unconfirmed_loop ::
    "('b, 'y) mesh_env_scheme \<Rightarrow> SequenceID \<Rightarrow> index \<Rightarrow> ('b, 't, 'c, 'x, 'q, 'n, 'mv, 'z) gadget_mesh_scheme \<Rightarrow>
     (('b, 't, 'c, 'x, 'q, 'n, 'mv, 'z) gadget_mesh_scheme \<times> index) option" where
  "first_unconfirmed_loop env sequenceID i s =
     (if \<not> IsMarkerConfirmed env (NewMarker sequenceID i) s then Some (s, i)
      else first_unconfirmed_loop env sequenceID (i + 1)
             (s\<lparr>lastConfirmedMarkers := (lastConfirmedMarkers s)(sequenceID \<mapsto> i)\<rparr>))"

definition FirstUnconfirmedMarkerIndex where
  "FirstUnconfirmedMarkerIndex env sequenceID s =
     (case lastConfirmedMarkers s sequenceID of
        Some i \<Rightarrow> Some (s, i + 1)
      | None \<Rightarrow> first_unconfirmed_loop env sequenceID
          (case Manager_Sequence (markersEnv env) (markersManager s) sequenceID of Some sequence \<Rightarrow> seq_lowest sequence | None \<Rightarrow> 0) s)"

section \<open>Accepting blocks\<close>

text \<open>A missing key of the map reads as 0.\<close>

definition setMarkerConfirmed ::
    "Marker \<Rightarrow> ('b, 't, 'c, 'x, 'q, 'n, 'mv, 'z) gadget_mesh_scheme \<Rightarrow>
     ('b, 't, 'c, 'x, 'q, 'n, 'mv, 'z) gadget_mesh_scheme \<times> bool" where
  "setMarkerConfirmed marker s =
     (if (case lastConfirmedMarkers s (marker_SequenceID marker) of Some i \<Rightarrow> i | None \<Rightarrow> 0) > marker_Index marker then (s, False)
      else (s\<lparr>lastConfirmedMarkers := (lastConfirmedMarkers s)(marker_SequenceID marker \<mapsto> marker_Index marker)\<rparr>, True))"

definition setBlockConfirmationState where
  "setBlockConfirmationState env lenv blk m st s l =
     (if meta_State m = st then (s, l, False)
      else case readClock env s of (now, s1) \<Rightarrow>
        let s2 = putMetadata (fst (SetConfirmationState now st m)) s1
        in if IsAccepted st
           then (emit (BlockAccepted (blk_ID blk)) s2,
                 (case Payload blk of
                    TransactionPayload tx \<Rightarrow> SetTransactionInclusionTime lenv (Transaction_ID lenv tx) (IssuingTime blk) l
                  | OtherPayload \<Rightarrow> l), True)
           else (s2, l, True))"

text \<open>The strong parents are pushed, the others are collected.\<close>

definition queueParents where
  "queueParents env blk walk weakParents =
     ForEachParent env blk
       (\<lambda>parentType parentID (w, weak).
          if parentType = StrongParentType then (pushBlockWalk env w parentID, weak) else (w, insert parentID weak))
       (walk, weakParents)"

partial_function (option) past_cone_loop where
  "past_cone_loop env lenv st strongParentWalker weakParents s l =
     (case nextBlockWalk env strongParentWalker of
        None \<Rightarrow> Some (strongParentWalker, weakParents, s, l)
      | Some (blockID, w1) \<Rightarrow>
          if blockID = emptyBlockID env then past_cone_loop env lenv st w1 weakParents s l
          else (case blockMetadataStorage s blockID of
             None \<Rightarrow> past_cone_loop env lenv st w1 weakParents s l
           | Some m \<Rightarrow>
               if stateRank env (meta_State m) \<ge> stateRank env st then past_cone_loop env lenv st w1 weakParents s l
               else (case blockStorage s blockID of
                  None \<Rightarrow> past_cone_loop env lenv st w1 weakParents s l
                | Some blk \<Rightarrow>
                    (case setBlockConfirmationState env lenv blk m st s l of
                       (s1, l1, modified) \<Rightarrow>
                         if \<not> modified then past_cone_loop env lenv st w1 weakParents s1 l1
                         else (case queueParents env blk w1 weakParents of
                           (w2, weak1) \<Rightarrow> past_cone_loop env lenv st w2 weak1 s1 l1)))))"

definition acceptWeakParent where
  "acceptWeakParent env lenv st walk weakParent = (\<lambda>(s, l).
     if pushedBlockWalk env walk weakParent then (s, l)
     else case blockMetadataStorage s weakParent of
            None \<Rightarrow> (s, l)
          | Some m \<Rightarrow>
              if stateRank env (meta_State m) \<ge> stateRank env st then (s, l)
              else (case blockStorage s weakParent of
                      None \<Rightarrow> (s, l)
                    | Some blk \<Rightarrow> (case setBlockConfirmationState env lenv blk m st s l of (s1, l1, _) \<Rightarrow> (s1, l1))))"

definition propagateConfirmationStateToBlockPastCone where
  "propagateConfirmationStateToBlockPastCone env lenv blockID st s l =
     map_option (\<lambda>(walk, weakParents, s1, l1).
         fold (acceptWeakParent env lenv st walk) (rangeBlockIDs env weakParents) (s1, l1))
       (past_cone_loop env lenv st (pushBlockWalk env (newBlockWalk env) blockID) {} s l)"

definition HandleMarker where
  "HandleMarker env lenv marker aw s l =
     (let st = BlockTransFunc env aw
      in if st = Pending then Some (s, l)
         else let blockID = Mapper_BlockID env marker s
              in case blockMetadataStorage s blockID of
                   None \<Rightarrow> Some (s, l)
                 | Some m \<Rightarrow>
                     if stateRank env st \<le> stateRank env (meta_State m) then Some (s, l)
                     else propagateConfirmationStateToBlockPastCone env lenv blockID st
                            (if IsAccepted st then fst (setMarkerConfirmed marker s) else s) l)"

definition HandleConflict where
  "HandleConflict env lenv conflictID aw l =
     (if IsAccepted (ConflictTransFunc env conflictID aw) then acceptConflict lenv conflictID l else Some l)"

declare first_unconfirmed_loop.simps [code] past_cone_loop.simps [code]

end
