(* ===== verification/AcceptanceLaws.thy ===== *)
theory AcceptanceLaws
  imports Acceptance SolidLaws
begin

text \<open>
  What the propagation of a confirmation state to the past cone of a block does: it returns, and it reaches
  exactly the blocks on paths of strong parents through blocks of a lower state, and the other parents of those.
\<close>

locale gadget_walks = block_ranges env + walker "newBlockWalk env" "pushBlockWalk env" "nextBlockWalk env" pending pushed
  for env :: "('b, 'tm, 'u, 'q, 'x, 'c, 'wb, 'n, 'mv, 'z) gadget_env_scheme"
    and pending :: "'wb \<Rightarrow> 'b list" and pushed :: "'wb \<Rightarrow> 'b set" +
  assumes pushed_by: "pushedBlockWalk env w b \<longleftrightarrow> b \<in> pushed w"

section \<open>The blocks that are reached\<close>

text \<open>Blocks and metadata are stored under their identifiers.\<close>

definition stored_ok :: "('b, 't, 'c, 'z) mesh_scheme \<Rightarrow> bool" where
  "stored_ok s \<longleftrightarrow> (\<forall>b m. blockMetadataStorage s b = Some m \<longrightarrow> meta_ID m = b) \<and>
     (\<forall>b blk. blockStorage s b = Some blk \<longrightarrow> blk_ID blk = b \<and> sane_block blk)"

definition lower_state ::
    "('b, 'tm, 'u, 'q, 'x, 'c, 'wb, 'n, 'mv, 'y) gadget_env_scheme \<Rightarrow> State \<Rightarrow> ('b, 't, 'c, 'z) mesh_scheme \<Rightarrow> 'b \<Rightarrow> bool" where
  "lower_state env st s b \<longleftrightarrow> b \<noteq> emptyBlockID env \<and> blockStorage s b \<noteq> None \<and>
     (\<exists>m. blockMetadataStorage s b = Some m \<and> stateRank env (meta_State m) < stateRank env st)"

definition strong_parent :: "('b, 't, 'c, 'z) mesh_scheme \<Rightarrow> 'b \<Rightarrow> 'b \<Rightarrow> bool" where
  "strong_parent s p b \<longleftrightarrow> (\<exists>blk. blockStorage s b = Some blk \<and> (StrongParentType, p) \<in> parents_of blk)"

definition other_parent :: "('b, 't, 'c, 'z) mesh_scheme \<Rightarrow> 'b \<Rightarrow> 'b \<Rightarrow> bool" where
  "other_parent s p b \<longleftrightarrow>
     (\<exists>blk t. blockStorage s b = Some blk \<and> (t, p) \<in> parents_of blk \<and> t \<noteq> StrongParentType)"

definition cone_path ::
    "('b, 'tm, 'u, 'q, 'x, 'c, 'wb, 'n, 'mv, 'y) gadget_env_scheme \<Rightarrow> State \<Rightarrow> ('b, 't, 'c, 'z) mesh_scheme \<Rightarrow> 'b \<Rightarrow> 'b \<Rightarrow> bool" where
  "cone_path env st s = (\<lambda>b p. lower_state env st s b \<and> strong_parent s p b)\<^sup>*\<^sup>*"

definition strong_cone ::
    "('b, 'tm, 'u, 'q, 'x, 'c, 'wb, 'n, 'mv, 'y) gadget_env_scheme \<Rightarrow> State \<Rightarrow> ('b, 't, 'c, 'z) mesh_scheme \<Rightarrow> 'b \<Rightarrow> 'b set" where
  "strong_cone env st s b = {p. cone_path env st s b p \<and> lower_state env st s p}"

definition accepted_cone ::
    "('b, 'tm, 'u, 'q, 'x, 'c, 'wb, 'n, 'mv, 'y) gadget_env_scheme \<Rightarrow> State \<Rightarrow> ('b, 't, 'c, 'z) mesh_scheme \<Rightarrow> 'b \<Rightarrow> 'b set" where
  "accepted_cone env st s b = strong_cone env st s b \<union>
     {p. lower_state env st s p \<and> (\<exists>x\<in>strong_cone env st s b. other_parent s p x)}"

text \<open>The state t is the state s in which the blocks xs, and no others, got the confirmation state, one after the other.\<close>

definition confirms :: "State \<Rightarrow> 'b list \<Rightarrow> ('b, 't, 'c, 'z) mesh_scheme \<Rightarrow> ('b, 't, 'c, 'z) mesh_scheme \<Rightarrow> bool" where
  "confirms st xs s t \<longleftrightarrow> distinct xs \<and> blockStorage t = blockStorage s \<and>
     (\<forall>b. b \<notin> set xs \<longrightarrow> blockMetadataStorage t b = blockMetadataStorage s b) \<and>
     (\<forall>b\<in>set xs. \<exists>m now. blockMetadataStorage s b = Some m \<and>
        blockMetadataStorage t b = Some (m\<lparr>meta_State := st, meta_StateTime := now\<rparr>)) \<and>
     meshEvents t = meshEvents s @ (if IsAccepted st then map BlockAccepted xs else [])"

text \<open>The inclusion times that the ledger gets.\<close>

definition include_blocks where
  "include_blocks lenv st s xs l =
     (if IsAccepted st
      then fold (\<lambda>b l. case blockStorage s b of
                   Some blk \<Rightarrow> (case Payload blk of
                     TransactionPayload tx \<Rightarrow> SetTransactionInclusionTime lenv (Transaction_ID lenv tx) (IssuingTime blk) l
                   | OtherPayload \<Rightarrow> l)
                 | None \<Rightarrow> l) xs l
      else l)"

lemma confirms_refl: "confirms st [] s s"
  by (simp add: confirms_def)

lemma confirms_lower:
  assumes "confirms st xs s t"
  shows "lower_state env st t b \<longleftrightarrow> lower_state env st s b \<and> b \<notin> set xs"
proof (cases "b \<in> set xs")
  case True
  then obtain m now where "blockMetadataStorage t b = Some (m\<lparr>meta_State := st, meta_StateTime := now\<rparr>)"
    using assms unfolding confirms_def by blast
  then show ?thesis using True by (simp add: lower_state_def)
next
  case False
  then show ?thesis using assms by (simp add: confirms_def lower_state_def)
qed

lemma setBlockConfirmationState_confirms:
  assumes s: "stored_ok s" and t: "confirms st xs s t" and b: "lower_state env st t b"
    and m: "blockMetadataStorage t b = Some m" and blk: "blockStorage t b = Some blk"
    and r: "setBlockConfirmationState env lenv blk m st t (include_blocks lenv st s xs l) = (u, l', modified)"
  shows "modified" and "confirms st (xs @ [b]) s u" and "l' = include_blocks lenv st s (xs @ [b]) l"
proof -
  have "b \<notin> set xs" using b confirms_lower [OF t] by blast
  moreover have ms: "blockMetadataStorage s b = Some m" and blks: "blockStorage s b = Some blk"
    using t m blk calculation by (auto simp: confirms_def)
  moreover have "meta_ID m = b" "blk_ID blk = b" using s ms blks by (auto simp: stored_ok_def)
  moreover have "meta_State m \<noteq> st" using b m by (auto simp: lower_state_def)
  ultimately show "modified" and "confirms st (xs @ [b]) s u" and "l' = include_blocks lenv st s (xs @ [b]) l"
    using r t
    by (auto simp: setBlockConfirmationState_def readClock_def putMetadata_def SetConfirmationState_def Let_def confirms_def
        include_blocks_def emit_def split: if_splits)
qed

lemma finite_parents: "sane_block blk \<Longrightarrow> finite (parents_of blk)"
proof -
  assume "sane_block blk"
  then have "finite (\<Union>(t, ps)\<in>set (blk_Parents blk). Pair t ` ps)" by (auto simp: sane_block_def)
  moreover have "parents_of blk = (\<Union>(t, ps)\<in>set (blk_Parents blk). Pair t ` ps)" by (auto simp: parents_of_def)
  ultimately show ?thesis by simp
qed

section \<open>The walk\<close>

context gadget_walks
begin

lemma queueParents_result:
  assumes "queueParents env blk w weak = (w', weak')" and "sane_block blk"
  shows "pushed w' = pushed w \<union> {p. (StrongParentType, p) \<in> parents_of blk}"
    and "weak' = weak \<union> {p. \<exists>t. (t, p) \<in> parents_of blk \<and> t \<noteq> StrongParentType}"
    and "set (pending w) \<subseteq> set (pending w')" and "pushed w' \<subseteq> pushed w \<union> set (pending w')"
    and "set (pending w') \<subseteq> set (pending w) \<union> pushed w'"
proof -
  let ?f = "\<lambda>(parentType, parentID) (w, weak).
    if parentType = StrongParentType then (pushBlockWalk env w parentID, weak) else (w, insert parentID weak)"
  have fold: "pushed w' = pushed w \<union> {p. (StrongParentType, p) \<in> set ps} \<and>
      weak' = weak \<union> {p. \<exists>t. (t, p) \<in> set ps \<and> t \<noteq> StrongParentType} \<and> set (pending w) \<subseteq> set (pending w') \<and>
      pushed w' \<subseteq> pushed w \<union> set (pending w') \<and> set (pending w') \<subseteq> set (pending w) \<union> pushed w'"
    if "fold ?f ps (w, weak) = (w', weak')" for ps w' weak'
    using that
  proof (induction ps arbitrary: w' weak' rule: rev_induct)
    case (snoc x ps)
    obtain w1 weak1 where f: "fold ?f ps (w, weak) = (w1, weak1)" by (cases "fold ?f ps (w, weak)")
    note IH = snoc.IH [OF f]
    obtain t p where x: "x = (t, p)" by (cases x)
    show ?case
    proof (cases "t = StrongParentType")
      case True
      then have w': "w' = pushBlockWalk env w1 p" "weak' = weak1" using snoc.prems f by (simp_all add: x)
      then show ?thesis using IH push_pending [of w1 p] True by (auto simp: push_pushed x)
    next
      case False
      then have "w' = w1" "weak' = insert p weak1" using snoc.prems f by (simp_all add: x)
      then show ?thesis using IH False by (auto simp: x)
    qed
  qed simp
  have "fold ?f (parentList env blk) (w, weak) = (w', weak')"
    using assms(1) by (simp add: queueParents_def ForEachParent_def case_prod_unfold)
  from fold [OF this] show "pushed w' = pushed w \<union> {p. (StrongParentType, p) \<in> parents_of blk}"
    and "weak' = weak \<union> {p. \<exists>t. (t, p) \<in> parents_of blk \<and> t \<noteq> StrongParentType}"
    and "set (pending w) \<subseteq> set (pending w')" and "pushed w' \<subseteq> pushed w \<union> set (pending w')"
    and "set (pending w') \<subseteq> set (pending w) \<union> pushed w'"
    unfolding parentList_set [OF assms(2)] by auto
qed

text \<open>
  The invariant of the walk: it confirmed the blocks xs, pushed their strong parents, collected their
  others, and what was pushed is pending, or confirmed, or cannot be confirmed.
\<close>

definition cone_inv ::
    "State \<Rightarrow> ('b, 't, 'c, 'v) mesh_scheme \<Rightarrow> 'b \<Rightarrow> 'b list \<Rightarrow> 'wb \<Rightarrow> 'b set \<Rightarrow> ('b, 't, 'c, 'v) mesh_scheme \<Rightarrow> bool" where
  "cone_inv st s b xs w weak t \<longleftrightarrow> confirms st xs s t \<and> set xs \<subseteq> {x. lower_state env st s x} \<and> set xs \<subseteq> pushed w \<and>
     pushed w = insert b {p. \<exists>x\<in>set xs. strong_parent s p x} \<and> weak = {p. \<exists>x\<in>set xs. other_parent s p x} \<and>
     set (pending w) \<subseteq> pushed w \<and> pushed w \<subseteq> {p. cone_path env st s b p} \<and>
     (\<forall>p\<in>pushed w. p \<in> set (pending w) \<or> \<not> lower_state env st s p \<or> p \<in> set xs)"

lemma cone_inv_skip:
  assumes "cone_inv st s b xs w weak t" and "nextBlockWalk env w = Some (p, w1)" and "\<not> lower_state env st t p"
  shows "cone_inv st s b xs w1 weak t"
proof -
  note nx = next_Some [OF assms(2)]
  have "\<not> lower_state env st s p \<or> p \<in> set xs"
    using assms(1,3) confirms_lower [of st xs s t env p] by (auto simp: cone_inv_def)
  then show ?thesis using assms(1) nx by (auto simp: cone_inv_def)
qed

lemma cone_inv_confirm:
  assumes inv: "cone_inv st s b xs w weak t" and nx: "nextBlockWalk env w = Some (p, w1)" and s: "stored_ok s"
    and p: "lower_state env st t p" and u: "confirms st (xs @ [p]) s u" and blk: "blockStorage s p = Some blk"
    and q: "queueParents env blk w1 weak = (w2, weak1)"
  shows "cone_inv st s b (xs @ [p]) w2 weak1 u"
proof -
  note n = next_Some [OF nx]
  have sane: "sane_block blk" using s blk by (auto simp: stored_ok_def)
  note q' = queueParents_result [OF q sane]
  have strong: "{x. (StrongParentType, x) \<in> parents_of blk} = {x. strong_parent s x p}"
    and other: "{x. \<exists>t. (t, x) \<in> parents_of blk \<and> t \<noteq> StrongParentType} = {x. other_parent s x p}"
    using blk by (auto simp: strong_parent_def other_parent_def)
  have low: "lower_state env st s p" using p confirms_lower [of st xs s t env p] inv by (auto simp: cone_inv_def)
  have pw: "p \<in> pushed w" using inv n by (auto simp: cone_inv_def)
  have reach: "cone_path env st s b x" if "strong_parent s x p" for x
  proof -
    have "cone_path env st s b p" using inv pw by (auto simp: cone_inv_def)
    then show ?thesis using low that unfolding cone_path_def by (auto intro: rtranclp.rtrancl_into_rtrancl)
  qed
  show ?thesis
    unfolding cone_inv_def
  proof (intro conjI)
    show "confirms st (xs @ [p]) s u" by (rule u)
    show "set (xs @ [p]) \<subseteq> {x. lower_state env st s x}" using inv low by (auto simp: cone_inv_def)
    show "set (xs @ [p]) \<subseteq> pushed w2" using inv pw q'(1) n by (auto simp: cone_inv_def)
    show "pushed w2 = insert b {x. \<exists>y\<in>set (xs @ [p]). strong_parent s x y}"
      using inv q'(1) n unfolding strong cone_inv_def by auto
    show "weak1 = {x. \<exists>y\<in>set (xs @ [p]). other_parent s x y}" using inv q'(2) unfolding other cone_inv_def by auto
    show "set (pending w2) \<subseteq> pushed w2" using inv q'(1,5) n unfolding cone_inv_def by auto
    show "pushed w2 \<subseteq> {x. cone_path env st s b x}" using inv q'(1) n reach unfolding strong cone_inv_def by auto
    show "\<forall>x\<in>pushed w2. x \<in> set (pending w2) \<or> \<not> lower_state env st s x \<or> x \<in> set (xs @ [p])"
      using inv q'(1,3,4) n unfolding cone_inv_def by (auto 4 3)
  qed
qed

lemma past_cone_loop_result:
  assumes s: "stored_ok s" and fin: "finite {x. lower_state env st s x}" and inv: "cone_inv st s b xs w weak t"
  shows "\<exists>w' xs' t'. past_cone_loop env lenv st w weak t (include_blocks lenv st s xs l) =
      Some (w', {p. \<exists>x\<in>set xs'. other_parent s p x}, t', include_blocks lenv st s xs' l) \<and>
    cone_inv st s b xs' w' {p. \<exists>x\<in>set xs'. other_parent s p x} t' \<and> pending w' = []"
  using inv
proof (induction "(card ({x. lower_state env st s x} - set xs), length (pending w))" arbitrary: xs w weak t
    rule: wf_induct_rule [OF wf_measures [of "[fst, snd]"]])
  case (1 xs w weak t)
  have weak: "weak = {p. \<exists>x\<in>set xs. other_parent s p x}" using 1(2) by (simp add: cone_inv_def)
  show ?case
  proof (cases "nextBlockWalk env w")
    case None
    then have "pending w = []" using next_None by blast
    then show ?thesis using 1(2) by (auto simp: past_cone_loop.simps [of env lenv st w] None weak)
  next
    case (Some pw)
    obtain p w1 where nx: "nextBlockWalk env w = Some (p, w1)" using Some by (cases pw) auto
    show ?thesis
    proof (cases "lower_state env st t p")
      case False
      note inv1 = cone_inv_skip [OF 1(2) nx False]
      have "past_cone_loop env lenv st w weak t (include_blocks lenv st s xs l) =
          past_cone_loop env lenv st w1 weak t (include_blocks lenv st s xs l)"
        using False by (auto simp: past_cone_loop.simps [of env lenv st w] nx lower_state_def not_le split: option.split)
      moreover have "length (pending w1) < length (pending w)" using next_length [OF nx] by simp
      ultimately show ?thesis using 1(1) [OF _ inv1] by simp
    next
      case True
      then obtain m blk where m: "blockMetadataStorage t p = Some m" and blk: "blockStorage t p = Some blk"
        and p: "p \<noteq> emptyBlockID env" "stateRank env (meta_State m) < stateRank env st"
        by (auto simp: lower_state_def)
      have c: "confirms st xs s t" using 1(2) by (simp add: cone_inv_def)
      have blks: "blockStorage s p = Some blk" using c blk by (simp add: confirms_def)
      obtain u l' modified where r: "setBlockConfirmationState env lenv blk m st t (include_blocks lenv st s xs l) = (u, l', modified)"
        by (cases "setBlockConfirmationState env lenv blk m st t (include_blocks lenv st s xs l)")
      note u = setBlockConfirmationState_confirms [OF s c True m blk r]
      obtain w2 weak1 where q: "queueParents env blk w1 weak = (w2, weak1)" by (cases "queueParents env blk w1 weak")
      note inv2 = cone_inv_confirm [OF 1(2) nx s True u(2) blks q]
      have "past_cone_loop env lenv st w weak t (include_blocks lenv st s xs l) =
          past_cone_loop env lenv st w2 weak1 u (include_blocks lenv st s (xs @ [p]) l)"
        using p u by (simp add: past_cone_loop.simps [of env lenv st w] nx m blk r q)
      moreover have "card ({x. lower_state env st s x} - set (xs @ [p])) < card ({x. lower_state env st s x} - set xs)"
      proof (rule psubset_card_mono)
        show "finite ({x. lower_state env st s x} - set xs)" using fin by simp
        have "p \<in> {x. lower_state env st s x} - set xs" using True confirms_lower [OF c, of env p] by simp
        then show "{x. lower_state env st s x} - set (xs @ [p]) \<subset> {x. lower_state env st s x} - set xs" by auto
      qed
      ultimately show ?thesis using 1(1) [OF _ inv2] by simp
    qed
  qed
qed

text \<open>At the end of the walk, exactly the strong cone is confirmed.\<close>

lemma cone_inv_end:
  assumes "cone_inv st s b xs w weak t" and "pending w = []"
  shows "set xs = strong_cone env st s b"
    and "p \<in> pushed w \<Longrightarrow> lower_state env st s p \<Longrightarrow> p \<in> set xs"
proof -
  have all: "p \<in> set xs" if "p \<in> pushed w" "lower_state env st s p" for p
    using assms that by (auto simp: cone_inv_def)
  have in_pushed: "p \<in> pushed w" if "cone_path env st s b p" for p
    using that unfolding cone_path_def
  proof (induction rule: rtranclp_induct)
    case base
    then show ?case using assms(1) by (simp add: cone_inv_def)
  next
    case (step y z)
    then have "y \<in> set xs" using all by blast
    then show ?case using step(2) assms(1) by (auto simp: cone_inv_def)
  qed
  show "set xs = strong_cone env st s b"
    using assms(1) all in_pushed by (auto simp: strong_cone_def cone_inv_def)
  show "p \<in> pushed w \<Longrightarrow> lower_state env st s p \<Longrightarrow> p \<in> set xs" by (rule all)
qed

section \<open>The weak parents\<close>

lemma acceptWeakParents_result:
  assumes s: "stored_ok s" and g: "blockStorage s (emptyBlockID env) = None" and t: "confirms st xs s t" and ps: "distinct ps"
    and r: "fold (acceptWeakParent env lenv st w) ps (t, include_blocks lenv st s xs l) = (u, l')"
    and w: "\<And>p. p \<in> pushed w \<Longrightarrow> lower_state env st s p \<Longrightarrow> p \<in> set xs"
  shows "\<exists>ys. confirms st (xs @ ys) s u \<and> l' = include_blocks lenv st s (xs @ ys) l \<and>
    set xs \<union> set ys = set xs \<union> {p \<in> set ps. lower_state env st s p}"
  using t ps r w
proof (induction ps arbitrary: xs t)
  case (Cons p ps)
  show ?case
  proof (cases "p \<notin> pushed w \<and> lower_state env st t p")
    case False
    have step: "acceptWeakParent env lenv st w p (t, include_blocks lenv st s xs l) = (t, include_blocks lenv st s xs l)"
      using False g Cons.prems(1)
      by (auto simp: acceptWeakParent_def pushed_by lower_state_def confirms_def not_le split: option.split)
    obtain ys where "confirms st (xs @ ys) s u" "l' = include_blocks lenv st s (xs @ ys) l"
      "set xs \<union> set ys = set xs \<union> {p \<in> set ps. lower_state env st s p}"
      using Cons.IH [OF Cons.prems(1)] Cons.prems(2,3,4) step by auto
    moreover have "lower_state env st s p \<Longrightarrow> p \<in> set xs"
      using False Cons.prems(4) confirms_lower [OF Cons.prems(1), of env p] by blast
    ultimately show ?thesis by (intro exI [of _ ys]) auto
  next
    case True
    then obtain m blk where m: "blockMetadataStorage t p = Some m" and blk: "blockStorage t p = Some blk"
      and low: "stateRank env (meta_State m) < stateRank env st"
      by (auto simp: lower_state_def)
    obtain v l1 modified where r: "setBlockConfirmationState env lenv blk m st t (include_blocks lenv st s xs l) = (v, l1, modified)"
      by (cases "setBlockConfirmationState env lenv blk m st t (include_blocks lenv st s xs l)")
    have lt: "lower_state env st t p" using True by simp
    note v = setBlockConfirmationState_confirms [OF s Cons.prems(1) lt m blk r]
    have step: "acceptWeakParent env lenv st w p (t, include_blocks lenv st s xs l) = (v, include_blocks lenv st s (xs @ [p]) l)"
      using True low by (simp add: acceptWeakParent_def pushed_by m blk r v(3))
    have "fold (acceptWeakParent env lenv st w) ps (v, include_blocks lenv st s (xs @ [p]) l) = (u, l')"
      using Cons.prems(3) step by simp
    then obtain ys where "confirms st ((xs @ [p]) @ ys) s u" "l' = include_blocks lenv st s ((xs @ [p]) @ ys) l"
      "set (xs @ [p]) \<union> set ys = set (xs @ [p]) \<union> {p \<in> set ps. lower_state env st s p}"
      using Cons.IH [OF v(2)] Cons.prems(2,4) by auto
    moreover have "lower_state env st s p" using True confirms_lower [OF Cons.prems(1)] by blast
    ultimately show ?thesis by (intro exI [of _ "p # ys"]) auto
  qed
qed (auto intro!: exI [of _ "[]"])

lemma propagate_result:
  assumes s: "stored_ok s" and g: "blockStorage s (emptyBlockID env) = None" and fin: "finite (dom (blockMetadataStorage s))"
  shows "\<exists>s' xs. propagateConfirmationStateToBlockPastCone env lenv b st s l = Some (s', include_blocks lenv st s xs l) \<and>
    confirms st xs s s' \<and> set xs = accepted_cone env st s b"
proof -
  have fin1: "finite {x. lower_state env st s x}"
    by (rule finite_subset [OF _ fin]) (auto simp: lower_state_def)
  let ?w = "pushBlockWalk env (newBlockWalk env) b"
  have pend: "pending ?w = [b]" and push: "pushed ?w = {b}"
    using push_pending [of "newBlockWalk env" b] by (auto simp: pending_new pushed_new push_pushed)
  have "cone_inv st s b [] ?w {} s"
    by (simp add: cone_inv_def confirms_refl pend push cone_path_def)
  from past_cone_loop_result [OF s fin1 this, of lenv l] obtain w xs t where
    loop: "past_cone_loop env lenv st ?w {} s (include_blocks lenv st s [] l) =
      Some (w, {p. \<exists>x\<in>set xs. other_parent s p x}, t, include_blocks lenv st s xs l)"
    and inv: "cone_inv st s b xs w {p. \<exists>x\<in>set xs. other_parent s p x} t" and e: "pending w = []"
    by auto
  let ?weak = "{p. \<exists>x\<in>set xs. other_parent s p x}"
  have empty: "include_blocks lenv st s [] l = l" by (simp add: include_blocks_def)
  have conf: "confirms st xs s t" using inv by (simp add: cone_inv_def)
  have finw: "finite ?weak"
  proof -
    have "finite {p. other_parent s p x}" for x
    proof (cases "blockStorage s x")
      case (Some blk)
      then have "finite (snd ` parents_of blk)" using s by (auto simp: stored_ok_def finite_parents)
      moreover have "{p. other_parent s p x} \<subseteq> snd ` parents_of blk" using Some by (force simp: other_parent_def)
      ultimately show ?thesis by (rule rev_finite_subset)
    qed (simp add: other_parent_def)
    moreover have "?weak = (\<Union>x\<in>set xs. {p. other_parent s p x})" by auto
    ultimately show ?thesis by simp
  qed
  obtain u l' where f: "fold (acceptWeakParent env lenv st w) (rangeBlockIDs env ?weak) (t, include_blocks lenv st s xs l) = (u, l')"
    by (cases "fold (acceptWeakParent env lenv st w) (rangeBlockIDs env ?weak) (t, include_blocks lenv st s xs l)")
  have ps: "distinct (rangeBlockIDs env ?weak)" "set (rangeBlockIDs env ?weak) = ?weak"
    using range_blocks finw by (simp_all add: enumerates_def)
  obtain ys where ys: "confirms st (xs @ ys) s u" "l' = include_blocks lenv st s (xs @ ys) l"
    "set xs \<union> set ys = set xs \<union> {p \<in> ?weak. lower_state env st s p}"
    using acceptWeakParents_result [OF s g conf ps(1) f cone_inv_end(2) [OF inv e]] unfolding ps(2) by blast
  have "set (xs @ ys) = accepted_cone env st s b"
    using ys(3) cone_inv_end(1) [OF inv e] by (auto simp: accepted_cone_def)
  moreover have "propagateConfirmationStateToBlockPastCone env lenv b st s l = Some (u, include_blocks lenv st s (xs @ ys) l)"
    using loop f ys(2) by (simp add: propagateConfirmationStateToBlockPastCone_def empty)
  ultimately show ?thesis using ys(1) by blast
qed

end

end
