(* ===== verification/MarkerConflicts.thy ===== *)
theory MarkerConflicts
  imports MarkersMapper VoteLaws MarkerMachine SolidMachine
begin

text \<open>
  What the mapping of markers to conflicts means: the conflicts of a marker are those of the nearest mapped index at or
  below it, setting them reaches up to the next mapped index, and the iteration visits every later mapping once.
\<close>

definition nearest :: "(index \<Rightarrow> 'a option) \<Rightarrow> index \<Rightarrow> 'a option \<Rightarrow> bool" where
  "nearest m k r =
     (case r of None \<Rightarrow> \<forall>j\<le>k. m j = None
      | Some v \<Rightarrow> \<exists>j\<le>k. m j = Some v \<and> (\<forall>i. j < i \<longrightarrow> i \<le> k \<longrightarrow> m i = None))"

lemma nearest_unique:
  assumes "nearest m k r" and "nearest m k r'"
  shows "r = r'"
proof (cases r)
  case None
  then show ?thesis using assms by (cases r') (auto simp: nearest_def)
next
  case (Some v)
  then obtain j where j: "j \<le> k" "m j = Some v" "\<forall>i. j < i \<longrightarrow> i \<le> k \<longrightarrow> m i = None"
    using assms(1) by (auto simp: nearest_def)
  obtain v' where v': "r' = Some v'" using assms(2) j by (cases r') (auto simp: nearest_def)
  then obtain j' where j': "j' \<le> k" "m j' = Some v'" "\<forall>i. j' < i \<longrightarrow> i \<le> k \<longrightarrow> m i = None"
    using assms(2) by (auto simp: nearest_def)
  have "\<not> j < j'" and "\<not> j' < j" using j j' by auto
  then have "j = j'" by simp
  then show ?thesis using j(2) j'(2) Some v' by simp
qed

context conflict_thresholds
begin

lemma get_nearest: "nearest (mapped t) k (cm_Get cm t k)"
proof (cases "cm_Floor cm t k")
  case (Some jv)
  obtain j v where jv: "jv = (j, v)" by (cases jv)
  then have "mapped t j = Some v \<and> j \<le> k \<and> (\<forall>i. mapped t i \<noteq> None \<longrightarrow> i \<le> k \<longrightarrow> i \<le> j)" using Some cm_floor by blast
  then show ?thesis unfolding cm_get Some jv nearest_def by (auto intro!: exI [of _ j] simp: not_less [symmetric])
next
  case None
  have "mapped t j = None" if "j \<le> k" for j
  proof (rule ccontr)
    assume "mapped t j \<noteq> None"
    from floor_exists [where m = "mapped t" and i = j, OF this that] obtain i v where "floor_entry (mapped t) k i v" .
    then have "cm_Floor cm t k = Some (i, v)" unfolding cm_floor floor_entry_def by blast
    then show False using None by simp
  qed
  then show ?thesis by (simp add: cm_get None nearest_def)
qed

lemma get_eq: "cm_Get cm t k = r \<longleftrightarrow> nearest (mapped t) k r"
  using get_nearest nearest_unique by metis

lemma get_set:
  "cm_Get cm (cm_Set cm t i c) k =
     (if i \<le> k \<and> (\<forall>j. i < j \<longrightarrow> j \<le> k \<longrightarrow> mapped t j = None) then Some c else cm_Get cm t k)"
proof -
  show ?thesis
  proof (cases "i \<le> k \<and> (\<forall>j. i < j \<longrightarrow> j \<le> k \<longrightarrow> mapped t j = None)")
    case True
    then show ?thesis unfolding if_P [OF True] get_eq nearest_def cm_set by (auto intro!: exI [of _ i])
  next
    case False
    have "nearest ((mapped t)(i \<mapsto> c)) k (cm_Get cm t k)"
    proof (cases "i \<le> k")
      case False
      then show ?thesis using get_nearest [of t k] unfolding nearest_def by (auto split: option.splits)
    next
      case True
      then obtain j where j: "i < j" "j \<le> k" "mapped t j \<noteq> None" using False by blast
      obtain v where v: "cm_Get cm t k = Some v" using get_nearest [of t k] j by (cases "cm_Get cm t k") (auto simp: nearest_def)
      then obtain l where l: "l \<le> k" "mapped t l = Some v" "\<forall>i. l < i \<longrightarrow> i \<le> k \<longrightarrow> mapped t i = None"
        using get_nearest [of t k] by (auto simp: nearest_def)
      have "j \<le> l" using l(3) j(2,3) by (meson not_less)
      then have "i < l" using j(1) by simp
      then show ?thesis using l by (auto simp: v nearest_def intro!: exI [of _ l])
    qed
    then show ?thesis using False unfolding if_not_P [OF False] get_eq cm_set by simp
  qed
qed

lemma get_delete_set: "cm_Get cm (cm_Set cm (cm_Delete cm t i) i c) k = cm_Get cm (cm_Set cm t i c) k"
  unfolding get_eq [of _ k "cm_Get cm (cm_Set cm t i c) k"]
  using get_nearest [of "cm_Set cm t i c" k] by (simp add: cm_set cm_delete)

lemma get_floor: "cm_Floor cm t k = Some (j, v) \<Longrightarrow> cm_Get cm t k = Some v"
  by (simp add: cm_get)

text \<open>The loop visits the mapped indexes above its start in ascending order, unless the greatest index is mapped.\<close>

lemma mapped_loop_visits:
  assumes "mapped t (- 1) = None" and "i \<noteq> - 1"
  shows "mapped_loop cm t sid i = Some (map (NewMarker sid) (sorted_list_of_set {j. i < j \<and> mapped t j \<noteq> None}))"
  using assms(2)
proof (induction "card {j. i < j \<and> mapped t j \<noteq> None}" arbitrary: i rule: less_induct)
  case less
  let ?J = "{j. i < j \<and> mapped t j \<noteq> None}"
  have above: "i + 1 \<le> j \<longleftrightarrow> i < j" for j
    using less.prems by (simp add: inc_less_eq_iff)
  show ?case
  proof (cases "cm_Ceiling cm t (i + 1)")
    case None
    have "?J = {}"
    proof (rule ccontr)
      assume "?J \<noteq> {}"
      then obtain j where "mapped t j \<noteq> None" "i + 1 \<le> j" using above by auto
      from ceiling_exists [where m = "mapped t" and i = j, OF this] obtain l v where "ceiling_entry (mapped t) (i + 1) l v" .
      then have "cm_Ceiling cm t (i + 1) = Some (l, v)" unfolding cm_ceiling ceiling_entry_def by blast
      then show False using None by simp
    qed
    then have "mapped_loop cm t sid i = Some [] \<and> ?J = {}" by (simp add: mapped_loop.simps [of cm t sid i] None)
    then show ?thesis by (metis list.simps(8) sorted_list_of_set_empty)
  next
    case (Some jv)
    obtain j v where jv: "jv = (j, v)" by (cases jv)
    have c: "mapped t j = Some v" "i < j" "\<And>l. mapped t l \<noteq> None \<Longrightarrow> i < l \<Longrightarrow> j \<le> l"
      using Some unfolding jv cm_ceiling above by auto
    let ?K = "{l. j < l \<and> mapped t l \<noteq> None}"
    have J: "?J = insert j ?K"
    proof (rule set_eqI)
      fix l
      show "l \<in> ?J \<longleftrightarrow> l \<in> insert j ?K" using c(1,2) c(3) [of l] by (cases "l = j") auto
    qed
    have "card ?K < card ?J" unfolding J by simp
    moreover have "j \<noteq> - 1" using assms(1) c(1) by auto
    ultimately have IH: "mapped_loop cm t sid j = Some (map (NewMarker sid) (sorted_list_of_set ?K))" by (rule less.hyps)
    have "sorted_list_of_set ?J = j # sorted_list_of_set ?K"
    proof -
      have least: "Min ?J = j" using c by (intro Min_eqI) auto
      have rest: "?J - {j} = ?K" unfolding J by auto
      have "?J \<noteq> {}" and "finite ?J" using J by (blast, simp)
      from sorted_list_of_set_nonempty [OF this(2,1)] show ?thesis by (simp only: least rest)
    qed
    then show ?thesis by (simp add: mapped_loop.simps [of cm t sid i] Some jv IH)
  qed
qed

end

section \<open>A concrete map\<close>

definition conflictMap0 :: "((index \<times> nat set) list, nat) conflict_map" where
  "conflictMap0 =
     (let floor = (\<lambda>t k. case filter (\<lambda>e. fst e \<le> k) t of [] \<Rightarrow> None
                 | es \<Rightarrow> let j = Max (set (map fst es)) in map_option (Pair j) (map_of t j))
      in \<lparr>cm_New = [], cm_Get = (\<lambda>t k. map_option snd (floor t k)), cm_Set = (\<lambda>t k v. AList.update k v t),
          cm_Delete = (\<lambda>t k. AList.delete k t), cm_Floor = floor,
          cm_Ceiling = (\<lambda>t k. case filter (\<lambda>e. k \<le> fst e) t of [] \<Rightarrow> None
                 | es \<Rightarrow> let j = Min (set (map fst es)) in map_option (Pair j) (map_of t j))\<rparr>)"

interpretation cm0: conflict_thresholds conflictMap0 map_of
proof
  fix t :: "(index \<times> nat set) list" and k j v
  show "map_of (cm_New conflictMap0) k = None" by (simp add: conflictMap0_def Let_def)
  show "map_of (cm_Set conflictMap0 t k v) = (map_of t)(k \<mapsto> v)" by (simp add: conflictMap0_def Let_def update_conv')
  show "map_of (cm_Delete conflictMap0 t k) = (map_of t)(k := None)" by (simp add: conflictMap0_def Let_def delete_conv')
  show "cm_Floor conflictMap0 t k = Some (j, v) \<longleftrightarrow>
      map_of t j = Some v \<and> j \<le> k \<and> (\<forall>i. map_of t i \<noteq> None \<longrightarrow> i \<le> k \<longrightarrow> i \<le> j)"
    using floor0 [where t = t and k = k and j = j and v = v] by (simp add: conflictMap0_def Let_def floor_entry_def)
  show "cm_Ceiling conflictMap0 t k = Some (j, v) \<longleftrightarrow>
      map_of t j = Some v \<and> k \<le> j \<and> (\<forall>i. map_of t i \<noteq> None \<longrightarrow> k \<le> i \<longrightarrow> j \<le> i)"
    using ceiling0 [where t = t and k = k and j = j and v = v] by (simp add: conflictMap0_def Let_def ceiling_entry_def)
  show "cm_Get conflictMap0 t k = map_option snd (cm_Floor conflictMap0 t k)" by (simp add: conflictMap0_def Let_def)
qed

section \<open>Properties\<close>

lemma SetConflictIDs_mappings:
  "SetConflictIDs env unconfirmed (NewMarker sid i) c s =
     (s', updated) \<Longrightarrow>
   conflictMappings s' = (conflictMappings s)(sid \<mapsto>
     (let cm = conflictMap env; t = mappingOf env sid s; new = (\<lambda>t. cm_Set cm t i (unconfirmed c))
      in case cm_Floor cm t i of
           None \<Rightarrow> new t
         | Some (j, f) \<Rightarrow> if f = c then t else if j = i then new (cm_Delete cm t i) else new t)) \<and>
   updated = (map_option snd (cm_Floor (conflictMap env) (mappingOf env sid s) i) \<noteq> Some c)"
  by (cases "cm_Floor (conflictMap env) (mappingOf env sid s) i")
    (auto simp: SetConflictIDs_def Mapper_Floor_def setConflictIDMapping_def deleteConflictIDMapping_def updateMapping_def
      NewMarker_def mappingOf_def Let_def split: if_splits)

lemma Mapper_ConflictIDs_mapped:
  "conflictMappings s sid \<noteq> None \<Longrightarrow>
   Mapper_ConflictIDs env (NewMarker sid k) s = Mapping_ConflictIDs (conflictMap env) (mappingOf env sid s) k"
  by (auto simp: Mapper_ConflictIDs_def NewMarker_def mappingOf_def)

lemma Mapping_ConflictIDs_unmapped:
  assumes "conflict_thresholds (conflictMap env) mapped" and "conflictMappings s sid = None"
  shows "Mapping_ConflictIDs (conflictMap env) (mappingOf env sid s) k =
    Inl (Panicked (Raised ''tried to retrieve the ConflictID of unknown marker''))"
proof -
  have "nearest (mapped (mappingOf env sid s)) k None"
    using conflict_thresholds.cm_new [OF assms(1)] by (simp add: nearest_def mappingOf_def assms(2))
  then have "cm_Get (conflictMap env) (mappingOf env sid s) k = None"
    by (simp add: conflict_thresholds.get_eq [OF assms(1)])
  then show ?thesis by (simp add: Mapping_ConflictIDs_def)
qed

lemma SetConflictIDs_reads:
  assumes "conflict_thresholds (conflictMap env) mapped"
    and "SetConflictIDs env unconfirmed (NewMarker sid i) conflictIDs s = (s', updated)"
  shows "updated = (Mapping_ConflictIDs (conflictMap env) (mappingOf env sid s) i \<noteq> Inr conflictIDs)"
    and "Mapper_ConflictIDs env (NewMarker sid k) s' =
      (if updated \<and> i \<le> k \<and> (\<forall>j. i < j \<longrightarrow> j \<le> k \<longrightarrow> mapped (mappingOf env sid s) j = None)
       then Inr (unconfirmed conflictIDs)
       else Mapping_ConflictIDs (conflictMap env) (mappingOf env sid s) k)"
    and "sid' \<noteq> sid \<Longrightarrow> Mapper_ConflictIDs env (NewMarker sid' k) s' = Mapper_ConflictIDs env (NewMarker sid' k) s"
proof -
  let ?cm = "conflictMap env" and ?t = "mappingOf env sid s"
  let ?c = "if i \<le> k \<and> (\<forall>j. i < j \<longrightarrow> j \<le> k \<longrightarrow> mapped ?t j = None) then Some (unconfirmed conflictIDs) else cm_Get ?cm ?t k"
  note set = conflict_thresholds.get_set [OF assms(1)] and del = conflict_thresholds.get_delete_set [OF assms(1)]
  note m = SetConflictIDs_mappings [OF assms(2)]
  have upd: "updated = (cm_Get ?cm ?t i \<noteq> Some conflictIDs)"
    using m by (simp add: conflict_thresholds.cm_get [OF assms(1)])
  obtain u where u: "conflictMappings s' = (conflictMappings s)(sid \<mapsto> u)"
    and get: "cm_Get ?cm u k = (if updated then ?c else cm_Get ?cm ?t k)"
  proof (rule that)
    show "conflictMappings s' = (conflictMappings s)(sid \<mapsto> the (conflictMappings s' sid))" using m by simp
    have "cm_Get ?cm (the (conflictMappings s' sid)) k =
        (if updated then cm_Get ?cm (cm_Set ?cm ?t i (unconfirmed conflictIDs)) k else cm_Get ?cm ?t k)"
      using m by (cases "cm_Floor ?cm ?t i") (simp_all add: Let_def del split: prod.splits)
    then show "cm_Get ?cm (the (conflictMappings s' sid)) k = (if updated then ?c else cm_Get ?cm ?t k)"
      by (simp only: set)
  qed
  show "updated = (Mapping_ConflictIDs ?cm ?t i \<noteq> Inr conflictIDs)"
    using upd by (cases "cm_Get ?cm ?t i") (simp_all add: Mapping_ConflictIDs_def)
  show "Mapper_ConflictIDs env (NewMarker sid k) s' =
    (if updated \<and> i \<le> k \<and> (\<forall>j. i < j \<longrightarrow> j \<le> k \<longrightarrow> mapped ?t j = None) then Inr (unconfirmed conflictIDs)
     else Mapping_ConflictIDs ?cm ?t k)"
    by (cases "updated \<and> i \<le> k \<and> (\<forall>j. i < j \<longrightarrow> j \<le> k \<longrightarrow> mapped ?t j = None)")
      (auto simp: Mapper_ConflictIDs_def NewMarker_def u Mapping_ConflictIDs_def get)
  show "sid' \<noteq> sid \<Longrightarrow> Mapper_ConflictIDs env (NewMarker sid' k) s' = Mapper_ConflictIDs env (NewMarker sid' k) s"
    by (simp add: Mapper_ConflictIDs_def NewMarker_def u)
qed

text \<open>C26: setting the conflicts of a marker changes what is read for it and for the later markers of its sequence up to the
  next mapped one, to the unconfirmed of the given conflicts; it does so exactly if the marker did not have the
  given conflicts already.  Every other marker reads as before, with one exception: for a sequence without a
  mapping, whose markers all read as nil before, the markers below the given one have no entry in the new mapping,
  and reading them panics.\<close>

theorem marker_conflicts_updated:
  assumes "conflict_thresholds (conflictMap env) mapped"
    and "SetConflictIDs env unconfirmed (NewMarker sid i) conflictIDs s = (s', updated)"
  shows "updated = (conflictMappings s sid = None \<or> Mapper_ConflictIDs env (NewMarker sid i) s \<noteq> Inr conflictIDs) \<and>
    Mapper_ConflictIDs env (NewMarker sid k) s' =
      (if updated \<and> i \<le> k \<and> (\<forall>j. i < j \<longrightarrow> j \<le> k \<longrightarrow> mapped (mappingOf env sid s) j = None)
       then Inr (unconfirmed conflictIDs)
       else if conflictMappings s sid = None then Inl (Panicked (Raised ''tried to retrieve the ConflictID of unknown marker''))
       else Mapper_ConflictIDs env (NewMarker sid k) s) \<and>
    (sid' \<noteq> sid \<longrightarrow> Mapper_ConflictIDs env (NewMarker sid' k) s' = Mapper_ConflictIDs env (NewMarker sid' k) s)"
proof -
  note reads = SetConflictIDs_reads [OF assms] and none = Mapping_ConflictIDs_unmapped [OF assms(1)]
  show ?thesis
  proof (cases "conflictMappings s sid = None")
    case True
    then show ?thesis using reads(1,3) by (simp add: reads(2) none [OF True])
  next
    case False
    then have mapped: "(conflictMappings s sid = None) = False" by blast
    show ?thesis using reads(1)
      by (simp only: reads(2) Mapper_ConflictIDs_mapped [OF False] mapped if_False simp_thms) (intro impI reads(3))
  qed
qed

text \<open>The iteration over the mappings of a sequence above an index returns, and visits every mapped marker above
  the index once and in ascending order, unless the greatest index is mapped.\<close>

theorem conflict_mappings_visited:
  assumes "conflict_thresholds (conflictMap env) mapped" and "mapped (mappingOf env sid s) (- 1) = None" and "i \<noteq> - 1"
  shows "ForEachConflictIDMapping env sid i (\<lambda>m ms. ms @ [m]) s [] =
    Some (map (NewMarker sid) (sorted_list_of_set {j. i < j \<and> mapped (mappingOf env sid s) j \<noteq> None}))"
proof -
  have "fold (\<lambda>m ms. ms @ [m]) xs acc = acc @ xs" for acc xs :: "Marker list" by (induction xs arbitrary: acc) simp_all
  then show ?thesis
    using conflict_thresholds.mapped_loop_visits [OF assms(1,2,3)] by (simp add: ForEachConflictIDMapping_def)
qed

section \<open>A concrete sequence\<close>

definition booker0 :: "(nat, list_thresholds, Marker list \<times> Marker list, sequence_map, (index \<times> nat set) list, nat,
    nat list \<times> nat list) booker_env" where
  "booker0 = mesh_env.extend mesh0 (booker_env.fields markers0 conflictMap0 (Inl (Panicked NilDereference))
     (\<lambda>_ _. True) ([], []) (\<lambda>(q, seen) b. if b \<in> set seen then (q, seen) else (q @ [b], b # seen))
     (\<lambda>(q, seen). case q of [] \<Rightarrow> None | b # q' \<Rightarrow> Some (b, (q', seen))))"

definition booking0 :: "(nat, unit, nat, (index \<times> nat set) list, sequence_map) booker_mesh" where
  "booking0 = mesh.extend (mesh.truncate (newMesh :: (nat, unit, nat) solid_mesh))
     (booker_mesh.fields [7 \<mapsto> [(2, {10}), (5, {10, 11})]] (manager0 9))"

lemma booker0_map: "conflictMap booker0 = conflictMap0"
  by (simp add: booker0_def mesh_env.defs booker_env.defs)

lemma booking0_map: "mappingOf booker0 7 booking0 = [(2, {10}), (5, {10, 11})]"
  by (simp add: mappingOf_def booking0_def mesh.defs booker_mesh.defs)

theorem marker_conflicts_updated_witness:
  "\<exists>s'. SetConflictIDs booker0 id (NewMarker 7 3) {10, 12} booking0 = (s', True) \<and>
     Mapper_ConflictIDs booker0 (NewMarker 7 4) s' = Inr {10, 12} \<and>
     Mapper_ConflictIDs booker0 (NewMarker 7 2) s' = Inr {10} \<and>
     Mapper_ConflictIDs booker0 (NewMarker 7 6) s' = Inr {10, 11}"
proof -
  obtain s' updated where s': "SetConflictIDs booker0 id (NewMarker 7 3) {10, 12} booking0 = (s', updated)" by fastforce
  have cm: "conflict_thresholds (conflictMap booker0) map_of"
    unfolding booker0_map by (rule cm0.conflict_thresholds_axioms)
  note read = marker_conflicts_updated [OF cm s', unfolded booking0_map]
  have old: "Mapper_ConflictIDs booker0 (NewMarker 7 3) booking0 = Inr {10}"
    "Mapper_ConflictIDs booker0 (NewMarker 7 2) booking0 = Inr {10}"
    "Mapper_ConflictIDs booker0 (NewMarker 7 6) booking0 = Inr {10, 11}" and some: "conflictMappings booking0 7 \<noteq> None"
    by code_simp+
  have "{10} \<noteq> ({10, 12} :: nat set)" by auto
  then have upd: "updated" using read by (simp add: old)
  have between: "\<not> (j = 2 \<or> j = 5)" if "3 < j" "j \<le> 4" for j :: index using that by auto
  have no: "\<forall>j. 3 < j \<longrightarrow> j \<le> 4 \<longrightarrow> map_of [(2 :: index, {10 :: nat}), (5, {10, 11})] j = None"
    using between by auto
  show ?thesis
    using s' upd some read [where k = 4] read [where k = 2] read [where k = 6] no
    by (auto simp: old intro!: exI [of _ s'])
qed

theorem conflict_mappings_visited_witness:
  "ForEachConflictIDMapping booker0 7 2 (\<lambda>m ms. ms @ [m]) booking0 [] = Some [NewMarker 7 5]"
proof -
  have cm: "conflict_thresholds (conflictMap booker0) map_of"
    unfolding booker0_map by (rule cm0.conflict_thresholds_axioms)
  have "{j. (2 :: index) < j \<and> map_of [(2 :: index, {10 :: nat}), (5, {10, 11})] j \<noteq> None} = {5}" by auto
  then show ?thesis
    using conflict_mappings_visited [OF cm, where s = booking0 and sid = 7 and i = 2] by (simp add: booking0_map)
qed

end
