(* ===== verification/AcceptanceMachine.thy ===== *)
theory AcceptanceMachine
  imports AcceptanceLaws MarkerConflicts LedgerMachine
begin

text \<open>
  The properties of the acceptance gadget: what one propagation accepts, what is true of the accepted blocks in
  every run, and the index of the first unconfirmed marker.
\<close>

section \<open>Runs\<close>

definition emptyGadget ::
    "'q Manager \<Rightarrow> ('b, 't, 'c, 'x, 'q, 'n, 'mv) gadget_mesh" where
  "emptyGadget mgr = \<lparr>blockStorage = Map.empty, blockMetadataStorage = Map.empty, childStorage = [], missingBlockStorage = [],
     attachmentStorage = [], markerBlockMapping = Map.empty, meshReads = 0, meshEvents = [], conflictMappings = Map.empty,
     markersManager = mgr, latestConflictVotes = (\<lambda>_. Map.empty), conflictVoters = Map.empty,
     conflictWeights = (\<lambda>_. Num (Fin 0)), latestMarkerVotes = (\<lambda>_. []), lastConfirmedMarkers = Map.empty\<rparr>"

text \<open>
  Blocks are stored after their parents, markers are mapped to blocks, the ledger changes in any way, and the weights of
  markers are handled in any order.
\<close>

inductive gadget_run ::
    "('b, 'tm, 'u, 'q, 'x, 'c, 'wb, 'n, 'mv, 'y) gadget_env_scheme \<Rightarrow> _ \<Rightarrow> ('b, 't, 'c, 'x, 'q, 'n, 'mv) gadget_mesh \<Rightarrow> _ \<Rightarrow> bool"
  for env lenv where
  start: "gadget_run env lenv (storeGenesis env (emptyGadget mgr)) l"
| store: "gadget_run env lenv s l \<Longrightarrow> sane_block blk \<Longrightarrow> blk_ID blk \<noteq> emptyBlockID env \<Longrightarrow>
    \<forall>t p. (t, p) \<in> parents_of blk \<longrightarrow> blockMetadataStorage s p \<noteq> None \<Longrightarrow>
    gadget_run env lenv (StoreBlock env (\<lambda>_ s. s) (\<lambda>_ s. s) blk s) l"
| mapping: "gadget_run env lenv s l \<Longrightarrow> gadget_run env lenv (StoreMarkerBlockMapping marker b s) l"
| ledger: "gadget_run env lenv s l \<Longrightarrow> gadget_run env lenv s l'"
| handle: "gadget_run env lenv s l \<Longrightarrow> HandleMarker env lenv marker aw s l = Some (s', l') \<Longrightarrow> gadget_run env lenv s' l'"

definition past_ok ::
    "('b, 'y) mesh_env_scheme \<Rightarrow> ('b, 't, 'c, 'z) mesh_scheme \<Rightarrow> 'b \<Rightarrow> bool" where
  "past_ok env s b \<longleftrightarrow>
     (\<forall>p. strong_parent s p b \<or> other_parent s p b \<longrightarrow> p = emptyBlockID env \<or> IsBlockConfirmed p s) \<or>
     (\<exists>c. IsBlockConfirmed c s \<and> other_parent s b c)"

definition gadget_inv :: "('b, 'y) mesh_env_scheme \<Rightarrow> ('b, 't, 'c, 'z) mesh_scheme \<Rightarrow> bool" where
  "gadget_inv env s \<longleftrightarrow> stored_ok s \<and> blockStorage s (emptyBlockID env) = None \<and> finite (dom (blockMetadataStorage s)) \<and>
     (\<forall>b blk. blockStorage s b = Some blk \<longrightarrow> blockMetadataStorage s b \<noteq> None \<and>
        (\<forall>t p. (t, p) \<in> parents_of blk \<longrightarrow> blockMetadataStorage s p \<noteq> None)) \<and>
     (\<forall>b m. blockMetadataStorage s b = Some m \<longrightarrow> b \<noteq> emptyBlockID env \<longrightarrow>
        blockStorage s b \<noteq> None \<and> meta_State m \<in> {Pending, Accepted}) \<and>
     (\<forall>b. IsBlockConfirmed b s \<longrightarrow> past_ok env s b)"

lemma parents_cong:
  assumes "blockStorage t b = blockStorage s b"
  shows "strong_parent t p b = strong_parent s p b" and "other_parent t p b = other_parent s p b"
  using assms by (simp_all add: strong_parent_def other_parent_def)

lemma gadget_inv_start: "gadget_inv env (storeGenesis env (emptyGadget mgr))"
  by (auto simp: gadget_inv_def storeGenesis_def emptyGadget_def readClock_def putMetadata_def zeroMetadata_def stored_ok_def
      past_ok_def strong_parent_def other_parent_def)

lemma StoreBlock_blocks:
  "blockStorage (StoreBlock env (\<lambda>_ s. s) (\<lambda>_ s. s) blk s) =
     (if blockMetadataStorage s (blk_ID blk) = None then (blockStorage s)(blk_ID blk \<mapsto> blk) else blockStorage s)"
  "blockMetadataStorage (StoreBlock env (\<lambda>_ s. s) (\<lambda>_ s. s) blk s) =
     (if blockMetadataStorage s (blk_ID blk) = None
      then (blockMetadataStorage s)(blk_ID blk \<mapsto> NewBlockMetadata (meshTime env (meshReads s)) (blk_ID blk))
      else blockMetadataStorage s)"
proof -
  have fold: "blockStorage (ForEachParent env blk (storeChildOf i) s) = blockStorage s \<and>
      blockMetadataStorage (ForEachParent env blk (storeChildOf i) s) = blockMetadataStorage s \<and>
      missingBlockStorage (ForEachParent env blk (storeChildOf i) s) = missingBlockStorage s" for i and s :: "('a, 'b, 'c, 'd) mesh_scheme"
  proof -
    have "blockStorage (fold (\<lambda>(t, p). storeChildOf i t p) ps s) = blockStorage s \<and>
      blockMetadataStorage (fold (\<lambda>(t, p). storeChildOf i t p) ps s) = blockMetadataStorage s \<and>
      missingBlockStorage (fold (\<lambda>(t, p). storeChildOf i t p) ps s) = missingBlockStorage s" for ps
      by (induction ps arbitrary: s) (auto simp: storeChildOf_def)
    then show ?thesis by (simp add: ForEachParent_def)
  qed
  have id: "meta_ID (NewBlockMetadata now i) = i" for now i by (simp add: NewBlockMetadata_def zeroMetadata_def)
  show "blockStorage (StoreBlock env (\<lambda>_ s. s) (\<lambda>_ s. s) blk s) =
     (if blockMetadataStorage s (blk_ID blk) = None then (blockStorage s)(blk_ID blk \<mapsto> blk) else blockStorage s)"
    "blockMetadataStorage (StoreBlock env (\<lambda>_ s. s) (\<lambda>_ s. s) blk s) =
     (if blockMetadataStorage s (blk_ID blk) = None
      then (blockMetadataStorage s)(blk_ID blk \<mapsto> NewBlockMetadata (meshTime env (meshReads s)) (blk_ID blk))
      else blockMetadataStorage s)"
    by (auto simp: StoreBlock_def readClock_def storeNewBlock_def fold putMetadata_def Let_def id split: option.split)
qed

lemma gadget_inv_store:
  assumes inv: "gadget_inv env s" and blk: "sane_block blk" "blk_ID blk \<noteq> emptyBlockID env"
    and known: "\<forall>t p. (t, p) \<in> parents_of blk \<longrightarrow> blockMetadataStorage s p \<noteq> None"
  shows "gadget_inv env (StoreBlock env (\<lambda>_ s. s) (\<lambda>_ s. s) blk s)" (is "gadget_inv env ?t")
proof (cases "blockMetadataStorage s (blk_ID blk)")
  case (Some m)
  then have "blockStorage ?t = blockStorage s" "blockMetadataStorage ?t = blockMetadataStorage s"
    by (simp_all add: StoreBlock_blocks)
  then show ?thesis using inv
    by (simp add: gadget_inv_def stored_ok_def past_ok_def strong_parent_def other_parent_def IsBlockConfirmed_def)
next
  case None
  let ?i = "blk_ID blk"
  have b: "blockStorage ?t = (blockStorage s)(?i \<mapsto> blk)"
    and m: "blockMetadataStorage ?t = (blockMetadataStorage s)(?i \<mapsto> NewBlockMetadata (meshTime env (meshReads s)) ?i)"
    using None by (simp_all add: StoreBlock_blocks)
  have conf: "IsBlockConfirmed x ?t \<longleftrightarrow> IsBlockConfirmed x s" for x
    using None by (simp add: IsBlockConfirmed_def m NewBlockMetadata_def zeroMetadata_def IsAccepted_def)
  have new: "\<not> IsBlockConfirmed ?i s" using None by (simp add: IsBlockConfirmed_def)
  have same: "strong_parent ?t p x = strong_parent s p x" "other_parent ?t p x = other_parent s p x" if "x \<noteq> ?i" for p x
    using that by (intro parents_cong; simp add: b)+
  have "past_ok env ?t x" if "IsBlockConfirmed x s" for x
  proof -
    have "past_ok env s x" using inv that by (simp add: gadget_inv_def)
    moreover have "x \<noteq> ?i" using new that by blast
    ultimately show ?thesis using new same conf unfolding past_ok_def by metis
  qed
  then show ?thesis using inv blk known None
    by (auto simp: gadget_inv_def conf b m stored_ok_def NewBlockMetadata_def zeroMetadata_def)
qed

lemma gadget_inv_cong:
  assumes "blockStorage t = blockStorage s" and "blockMetadataStorage t = blockMetadataStorage s"
  shows "gadget_inv env t = gadget_inv env s"
  using assms by (simp add: gadget_inv_def stored_ok_def past_ok_def strong_parent_def other_parent_def IsBlockConfirmed_def)

text \<open>The state accepts the translations of weights and the order of the confirmation states.\<close>

definition translates :: "('b, 'tm, 'u, 'q, 'x, 'c, 'wb, 'n, 'mv, 'y) gadget_env_scheme \<Rightarrow> bool" where
  "translates env \<longleftrightarrow> (\<forall>aw. BlockTransFunc env aw \<in> {Pending, Accepted}) \<and> stateRank env Pending < stateRank env Accepted"

lemma confirms_accepted:
  assumes "confirms Accepted xs s t"
  shows "IsBlockConfirmed b t \<longleftrightarrow> IsBlockConfirmed b s \<or> b \<in> set xs"
proof (cases "b \<in> set xs")
  case True
  then obtain m now where "blockMetadataStorage t b = Some (m\<lparr>meta_State := Accepted, meta_StateTime := now\<rparr>)"
    using assms unfolding confirms_def by blast
  then show ?thesis using True by (simp add: IsBlockConfirmed_def IsAccepted_def)
next
  case False
  then show ?thesis using assms by (simp add: confirms_def IsBlockConfirmed_def)
qed

lemma gadget_inv_confirms:
  assumes inv: "gadget_inv env s" and tr: "translates env" and c: "confirms Accepted xs s t"
    and xs: "set xs = accepted_cone env Accepted s b"
  shows "gadget_inv env t"
proof -
  have blocks: "blockStorage t = blockStorage s" using c by (simp add: confirms_def)
  have meta: "\<exists>n. blockMetadataStorage s x = Some n \<and> meta_ID m = meta_ID n \<and>
      (meta_State m = meta_State n \<or> meta_State m = Accepted)" if "blockMetadataStorage t x = Some m" for x m
  proof (cases "x \<in> set xs")
    case True
    then obtain n now where "blockMetadataStorage s x = Some n" "blockMetadataStorage t x = Some (n\<lparr>meta_State := Accepted, meta_StateTime := now\<rparr>)"
      using c unfolding confirms_def by blast
    then show ?thesis using that by auto
  next
    case False
    then show ?thesis using c that by (simp add: confirms_def)
  qed
  have dom: "dom (blockMetadataStorage t) = dom (blockMetadataStorage s)"
  proof (intro set_eqI)
    fix x
    show "x \<in> dom (blockMetadataStorage t) \<longleftrightarrow> x \<in> dom (blockMetadataStorage s)"
      using c by (cases "x \<in> set xs") (auto simp: confirms_def domIff)
  qed
  have known: "blockMetadataStorage t x \<noteq> None \<longleftrightarrow> blockMetadataStorage s x \<noteq> None" for x
    using dom by (auto simp: domIff set_eq_iff)
  have same: "strong_parent t = strong_parent s" "other_parent t = other_parent s"
    using parents_cong blocks by (simp_all add: fun_eq_iff strong_parent_def other_parent_def)
  have closed: "p = emptyBlockID env \<or> IsBlockConfirmed p t" if x: "x \<in> strong_cone env Accepted s b"
    and p: "strong_parent s p x \<or> other_parent s p x" for x p
  proof (cases "p = emptyBlockID env \<or> IsBlockConfirmed p s")
    case True
    then show ?thesis using confirms_accepted [OF c] by blast
  next
    case False
    obtain m where m: "blockMetadataStorage s p = Some m"
      using inv p unfolding gadget_inv_def strong_parent_def other_parent_def by blast
    then have "blockStorage s p \<noteq> None" "meta_State m = Pending"
      using inv False by (auto simp: gadget_inv_def IsBlockConfirmed_def IsAccepted_def)
    then have low: "lower_state env Accepted s p" using m False tr by (simp add: lower_state_def translates_def)
    have "p \<in> accepted_cone env Accepted s b"
    proof (cases "strong_parent s p x")
      case True
      then have "cone_path env Accepted s b p"
        using x by (auto simp: strong_cone_def cone_path_def intro: rtranclp.rtrancl_into_rtrancl)
      then show ?thesis using low by (simp add: accepted_cone_def strong_cone_def)
    next
      case False
      then show ?thesis using low x p by (auto simp: accepted_cone_def)
    qed
    then show ?thesis using confirms_accepted [OF c] xs by blast
  qed
  have past: "past_ok env t x" if x: "IsBlockConfirmed x t" for x
  proof (cases "x \<in> set xs")
    case False
    then have "past_ok env s x" using x inv confirms_accepted [OF c] by (auto simp: gadget_inv_def)
    then show ?thesis using confirms_accepted [OF c] unfolding past_ok_def same by blast
  next
    case True
    then consider "x \<in> strong_cone env Accepted s b" | c where "c \<in> strong_cone env Accepted s b" "other_parent s x c"
      unfolding xs accepted_cone_def by blast
    then show ?thesis
    proof cases
      case 1
      then show ?thesis using closed unfolding past_ok_def same by blast
    next
      case (2 y)
      then have "IsBlockConfirmed y t" using confirms_accepted [OF c] xs by (auto simp: accepted_cone_def)
      then show ?thesis using 2 unfolding past_ok_def same by blast
    qed
  qed
  show ?thesis
    unfolding gadget_inv_def blocks known
  proof (intro conjI)
    have ok: "stored_ok s" using inv by (simp add: gadget_inv_def)
    then show "stored_ok t" using meta blocks unfolding stored_ok_def by metis
    show "\<forall>b m. blockMetadataStorage t b = Some m \<longrightarrow> b \<noteq> emptyBlockID env \<longrightarrow>
        blockStorage s b \<noteq> None \<and> meta_State m \<in> {Pending, Accepted}"
    proof (intro allI impI)
      fix x m assume m: "blockMetadataStorage t x = Some m" and x: "x \<noteq> emptyBlockID env"
      obtain n where n: "blockMetadataStorage s x = Some n" "meta_State m = meta_State n \<or> meta_State m = Accepted"
        using meta [OF m] by blast
      then have "blockStorage s x \<noteq> None \<and> meta_State n \<in> {Pending, Accepted}" using inv x by (simp add: gadget_inv_def)
      then show "blockStorage s x \<noteq> None \<and> meta_State m \<in> {Pending, Accepted}" using n(2) by auto
    qed
  qed (use inv dom past in \<open>simp_all add: gadget_inv_def\<close>)
qed

lemma lower_not_confirmed:
  assumes "gadget_inv env s" and "translates env"
  shows "lower_state env Accepted s b \<longleftrightarrow> b \<noteq> emptyBlockID env \<and> blockStorage s b \<noteq> None \<and> \<not> IsBlockConfirmed b s"
proof (cases "b \<noteq> emptyBlockID env \<and> blockStorage s b \<noteq> None")
  case True
  then obtain m where "blockMetadataStorage s b = Some m" "meta_State m \<in> {Pending, Accepted}"
    using assms(1) unfolding gadget_inv_def by blast
  then show ?thesis using True assms(2) by (auto simp: lower_state_def translates_def IsBlockConfirmed_def IsAccepted_def)
qed (auto simp: lower_state_def)

lemma accepted_cone_none:
  assumes "\<not> lower_state env st s b"
  shows "accepted_cone env st s b = {}"
proof -
  have "p = b" if "cone_path env st s b p" for p
    using that assms unfolding cone_path_def by (auto elim: converse_rtranclpE)
  then show ?thesis using assms by (auto simp: accepted_cone_def strong_cone_def)
qed

lemma HandleMarker_confirms:
  fixes env :: "('b, 'tm, 'u, 'q, 'x, 'c, 'wb, 'n, 'mv, 'y) gadget_env_scheme"
    and s :: "('b, 't, 'c, 'x, 'q, 'n, 'mv, 'z) gadget_mesh_scheme"
  assumes w: "gadget_walks env pending pushed" and inv: "gadget_inv env s" and st: "BlockTransFunc env aw = Accepted"
  shows "\<exists>s' l' xs. HandleMarker env lenv marker aw s l = Some (s', l') \<and> confirms Accepted xs s s' \<and>
    set xs = accepted_cone env Accepted s (Mapper_BlockID env marker s)"
proof -
  let ?b = "Mapper_BlockID env marker s" and ?s = "fst (setMarkerConfirmed marker s)"
  have acc: "IsAccepted Accepted" by (simp add: IsAccepted_def)
  show ?thesis
  proof (cases "\<exists>m. blockMetadataStorage s ?b = Some m \<and> \<not> stateRank env Accepted \<le> stateRank env (meta_State m)")
    case False
    then have "\<not> lower_state env Accepted s ?b" by (auto simp: lower_state_def not_less)
    moreover have "HandleMarker env lenv marker aw s l = Some (s, l)"
      using False by (auto simp: HandleMarker_def Let_def st split: option.split)
    ultimately show ?thesis by (auto simp: accepted_cone_none intro!: exI [of _ "[]"] confirms_refl)
  next
    case True
    then obtain m where m: "blockMetadataStorage s ?b = Some m" and low: "\<not> stateRank env Accepted \<le> stateRank env (meta_State m)"
      by blast
    have same: "blockStorage ?s = blockStorage s" "blockMetadataStorage ?s = blockMetadataStorage s" "meshEvents ?s = meshEvents s"
      by (simp_all add: setMarkerConfirmed_def)
    have ok: "stored_ok ?s" "blockStorage ?s (emptyBlockID env) = None" "finite (dom (blockMetadataStorage ?s))"
      using inv by (simp_all add: gadget_inv_def stored_ok_def same)
    obtain t xs where t: "propagateConfirmationStateToBlockPastCone env lenv ?b Accepted ?s l =
        Some (t, include_blocks lenv Accepted ?s xs l)"
      and c: "confirms Accepted xs ?s t" and xs: "set xs = accepted_cone env Accepted ?s ?b"
      using gadget_walks.propagate_result [OF w ok] by blast
    have "HandleMarker env lenv marker aw s l = Some (t, include_blocks lenv Accepted ?s xs l)"
      using low t by (simp add: HandleMarker_def Let_def st m acc)
    moreover have "confirms Accepted xs s t" using c by (simp add: confirms_def same)
    moreover have "lower_state env Accepted ?s = lower_state env Accepted s" "strong_parent ?s = strong_parent s"
      "other_parent ?s = other_parent s"
      by (simp_all add: fun_eq_iff lower_state_def same strong_parent_def other_parent_def)
    then have "accepted_cone env Accepted ?s ?b = accepted_cone env Accepted s ?b"
      by (simp add: accepted_cone_def strong_cone_def cone_path_def)
    ultimately show ?thesis using xs by blast
  qed
qed

lemma HandleMarker_inv:
  fixes env :: "('b, 'tm, 'u, 'q, 'x, 'c, 'wb, 'n, 'mv, 'y) gadget_env_scheme"
    and s :: "('b, 't, 'c, 'x, 'q, 'n, 'mv, 'z) gadget_mesh_scheme"
  assumes w: "gadget_walks env pending pushed" and inv: "gadget_inv env s" and tr: "translates env"
    and h: "HandleMarker env lenv marker aw s l = Some (s', l')"
  shows "gadget_inv env s'"
proof (cases "BlockTransFunc env aw = Pending")
  case True
  then show ?thesis using h inv by (simp add: HandleMarker_def)
next
  case False
  then have "BlockTransFunc env aw = Accepted" using tr by (auto simp: translates_def)
  from HandleMarker_confirms [OF w inv this, of lenv marker l] h
  show ?thesis using gadget_inv_confirms [OF inv tr] by fastforce
qed

lemma gadget_run_inv:
  fixes env :: "('b, 'tm, 'u, 'q, 'x, 'c, 'wb, 'n, 'mv, 'y) gadget_env_scheme"
    and s :: "('b, 't, 'c, 'x, 'q, 'n, 'mv) gadget_mesh"
  assumes "gadget_walks env pending pushed" and "translates env" and "gadget_run env lenv s l"
  shows "gadget_inv env s"
  using assms(3)
proof induction
  case (start mgr l)
  show ?case by (rule gadget_inv_start)
next
  case (store s l blk)
  show ?case by (rule gadget_inv_store [OF store.IH store.hyps(2-4)])
next
  case (mapping s l marker b)
  have "gadget_inv env (StoreMarkerBlockMapping marker b s) = gadget_inv env s"
    by (rule gadget_inv_cong) (simp_all add: StoreMarkerBlockMapping_def)
  then show ?case using mapping.IH by simp
next
  case (handle s l marker aw s' l')
  show ?case by (rule HandleMarker_inv [OF assms(1) handle.IH assms(2) handle.hyps(2)])
qed

section \<open>Properties of the past cone\<close>

text \<open>C12: the propagation of a confirmation state returns.  It confirms the block, the blocks on paths of strong parents
  through blocks of a lower state, and the other parents of those, each once and with one event, leaves every other
  block as it is, and gives the ledger the inclusion times of their transactions in the same order.\<close>

theorem past_cone_confirmed_exactly:
  assumes "gadget_walks env pending pushed" and "stored_ok s" and "blockStorage s (emptyBlockID env) = None"
    and "finite (dom (blockMetadataStorage s))"
  shows "\<exists>s' xs. propagateConfirmationStateToBlockPastCone env lenv b st s l = Some (s', include_blocks lenv st s xs l) \<and>
    confirms st xs s s' \<and> set xs = accepted_cone env st s b"
  using gadget_walks.propagate_result [OF assms] .

text \<open>C11: in every run of the gadget, the parents of an accepted block are accepted, unless the block
  is a weak or shallow like parent of an accepted block (the genesis has no state of its own).\<close>

theorem accepted_blocks_past:
  assumes "gadget_walks env pending pushed" and "translates env" and "gadget_run env lenv s l" and "IsBlockConfirmed b s"
  shows "(\<forall>p. strong_parent s p b \<or> other_parent s p b \<longrightarrow> p = emptyBlockID env \<or> IsBlockConfirmed p s) \<or>
    (\<exists>c. IsBlockConfirmed c s \<and> other_parent s b c)"
  using gadget_run_inv [OF assms(1-3)] assms(4) by (simp add: gadget_inv_def past_ok_def)

text \<open>C40: a block that was accepted as a weak parent hides its past: when a later block on top of it is
  accepted, the walk stops at it, and its pending strong parent stays pending in this step although it is in the past
  cone of an accepted marker.\<close>

theorem weak_acceptance_hides_past:
  assumes "gadget_walks env pending pushed" and "translates env" and "gadget_run env lenv s l"
    and "IsBlockConfirmed x s" and "strong_parent s p x" and "p \<noteq> emptyBlockID env" and "\<not> IsBlockConfirmed p s"
    and "Mapper_BlockID env marker s = b" and "b \<notin> {p, emptyBlockID env}" and "blockStorage s b \<noteq> None"
    and "\<forall>q. (strong_parent s q b \<longrightarrow> q = x) \<and> \<not> other_parent s q b" and "BlockTransFunc env aw = Accepted"
  shows "\<exists>s' l'. HandleMarker env lenv marker aw s l = Some (s', l') \<and> IsBlockConfirmed b s' \<and>
    IsBlockConfirmed x s' \<and> \<not> IsBlockConfirmed p s'"
proof -
  note inv = gadget_run_inv [OF assms(1-3)]
  obtain s' l' xs where h: "HandleMarker env lenv marker aw s l = Some (s', l')" and c: "confirms Accepted xs s s'"
    and xs: "set xs = accepted_cone env Accepted s b"
    using HandleMarker_confirms [OF assms(1) inv assms(12), of lenv marker l] assms(8) by auto
  note low = lower_not_confirmed [OF inv assms(2)]
  have path: "q = b \<or> q = x" if "cone_path env Accepted s b q" for q
    using that unfolding cone_path_def
  proof (induction rule: rtranclp_induct)
    case (step y z)
    then have "y = b" using low [of y] assms(4) by auto
    then show ?case using step(2) assms(11) by blast
  qed simp
  have "strong_cone env Accepted s b \<subseteq> {b}" using path low [of x] assms(4) by (auto simp: strong_cone_def)
  then have sub: "accepted_cone env Accepted s b \<subseteq> {b}" using assms(11) by (auto simp: accepted_cone_def)
  have "IsBlockConfirmed b s \<or> b \<in> accepted_cone env Accepted s b"
    using low [of b] assms(9,10) by (auto simp: accepted_cone_def strong_cone_def cone_path_def)
  moreover have "p \<notin> set xs" using sub assms(9) xs by auto
  ultimately show ?thesis using h confirms_accepted [OF c] assms(4,7) xs by blast
qed

section \<open>The first unconfirmed marker\<close>

lemma IsMarkerConfirmed_last [simp]:
  "IsMarkerConfirmed env m (s\<lparr>lastConfirmedMarkers := f\<rparr>) = IsMarkerConfirmed env m s"
  by (simp add: IsMarkerConfirmed_def Mapper_BlockID_def)

lemma first_unconfirmed_loop_result:
  assumes "\<forall>j<k. IsMarkerConfirmed env (NewMarker sid (i + of_nat j)) s"
    and "\<not> IsMarkerConfirmed env (NewMarker sid (i + of_nat k)) s"
  shows "first_unconfirmed_loop env sid i s =
    Some (if k = 0 then s else s\<lparr>lastConfirmedMarkers := (lastConfirmedMarkers s)(sid \<mapsto> i + of_nat k - 1)\<rparr>, i + of_nat k)"
  using assms
proof (induction k arbitrary: i s)
  case 0
  then show ?case by (simp add: first_unconfirmed_loop.simps [of env sid i s])
next
  case (Suc k)
  let ?s = "s\<lparr>lastConfirmedMarkers := (lastConfirmedMarkers s)(sid \<mapsto> i)\<rparr>"
  have "\<forall>j<k. IsMarkerConfirmed env (NewMarker sid (i + 1 + of_nat j)) ?s"
  proof (intro allI impI)
    fix j assume "j < k"
    then show "IsMarkerConfirmed env (NewMarker sid (i + 1 + of_nat j)) ?s"
      using Suc.prems(1) [rule_format, of "Suc j"] by (simp add: add.assoc)
  qed
  moreover have "\<not> IsMarkerConfirmed env (NewMarker sid (i + 1 + of_nat k)) ?s"
    using Suc.prems(2) by (simp add: add.assoc)
  ultimately have "first_unconfirmed_loop env sid (i + 1) ?s =
      Some (if k = 0 then ?s else ?s\<lparr>lastConfirmedMarkers := (lastConfirmedMarkers ?s)(sid \<mapsto> i + 1 + of_nat k - 1)\<rparr>, i + 1 + of_nat k)"
    by (rule Suc.IH)
  moreover have "IsMarkerConfirmed env (NewMarker sid i) s" using Suc.prems(1) [rule_format, of 0] by simp
  ultimately show ?case
    by (cases "k = 0") (simp_all add: first_unconfirmed_loop.simps [of env sid i s] add.commute add.left_commute)
qed

lemma FirstUnconfirmedMarkerIndex_recorded:
  "lastConfirmedMarkers s sid = Some i \<Longrightarrow> FirstUnconfirmedMarkerIndex env sid s = Some (s, i + 1)"
  by (simp add: FirstUnconfirmedMarkerIndex_def)

lemma setMarkerConfirmed_recorded:
  "lastConfirmedMarkers (fst (setMarkerConfirmed (NewMarker sid i) s)) sid =
     Some (case lastConfirmedMarkers s sid of Some r \<Rightarrow> max r i | None \<Rightarrow> i)"
  by (cases "lastConfirmedMarkers s sid") (auto simp: setMarkerConfirmed_def NewMarker_def max_def)

text \<open>Without a recorded index the search ends at the first marker that is not confirmed and records its predecessor.\<close>

lemma FirstUnconfirmedMarkerIndex_search:
  assumes "lastConfirmedMarkers s sid = None"
    and "Manager_Sequence (markersEnv env) (markersManager s) sid = Some sequence"
    and "\<not> IsMarkerConfirmed env (NewMarker sid (seq_lowest sequence + of_nat n)) s"
  shows "\<exists>s' k. FirstUnconfirmedMarkerIndex env sid s = Some (s', seq_lowest sequence + of_nat k) \<and>
    FirstUnconfirmedMarkerIndex env sid s' = Some (s', seq_lowest sequence + of_nat k) \<and> k \<le> n \<and>
    (\<forall>j<k. IsMarkerConfirmed env (NewMarker sid (seq_lowest sequence + of_nat j)) s) \<and>
    \<not> IsMarkerConfirmed env (NewMarker sid (seq_lowest sequence + of_nat k)) s"
proof -
  let ?P = "\<lambda>k. \<not> IsMarkerConfirmed env (NewMarker sid (seq_lowest sequence + of_nat k)) s"
  define k where "k = (LEAST k. ?P k)"
  have k: "?P k" and le: "k \<le> n" and least: "\<forall>j<k. IsMarkerConfirmed env (NewMarker sid (seq_lowest sequence + of_nat j)) s"
    using LeastI [of ?P, OF assms(3)] Least_le [of ?P, OF assms(3)] not_less_Least [of _ ?P] unfolding k_def by blast+
  note loop = first_unconfirmed_loop_result [OF least k]
  let ?i = "seq_lowest sequence + of_nat k"
  let ?s = "if k = 0 then s else s\<lparr>lastConfirmedMarkers := (lastConfirmedMarkers s)(sid \<mapsto> ?i - 1)\<rparr>"
  have first: "FirstUnconfirmedMarkerIndex env sid s = Some (?s, ?i)"
    using loop by (simp add: FirstUnconfirmedMarkerIndex_def assms(1,2))
  moreover have "FirstUnconfirmedMarkerIndex env sid ?s = Some (?s, ?i)"
    using first by (cases "k = 0") (simp_all add: FirstUnconfirmedMarkerIndex_def)
  ultimately show ?thesis using k le least by blast
qed

text \<open>C24: what FirstUnconfirmedMarkerIndex returns.  For a sequence with a recorded index it is the successor of
  that index, whatever the state of the markers.  Without one it is the first index at or above the lowest one of
  the sequence whose marker is not confirmed, if there is one.  The same index is returned when it is called
  again, and the approval weight manager ignores the votes for the marker of exactly this index (its oracle is read once
  per call).  After setMarkerConfirmed it is the successor of the greater of the recorded and the given index, although
  lower markers may not be confirmed.\<close>

theorem first_unconfirmed_exact:
  assumes "Manager_Sequence (markersEnv env) (markersManager s) sid = Some sequence"
    and "\<not> IsMarkerConfirmed env (NewMarker sid (seq_lowest sequence + of_nat n)) s"
  shows "\<exists>s' i. FirstUnconfirmedMarkerIndex env sid s = Some (s', i) \<and> FirstUnconfirmedMarkerIndex env sid s' = Some (s', i) \<and>
    (case lastConfirmedMarkers s sid of
       Some r \<Rightarrow> s' = s \<and> i = r + 1
     | None \<Rightarrow> \<exists>k\<le>n. i = seq_lowest sequence + of_nat k \<and> \<not> IsMarkerConfirmed env (NewMarker sid i) s \<and>
         (\<forall>j<k. IsMarkerConfirmed env (NewMarker sid (seq_lowest sequence + of_nat j)) s)) \<and>
    (\<forall>w oracle blk t walk. oracle sid = i \<longrightarrow>
       addVoteToMarker env w oracle (NewMarker sid i) blk t walk = Some (t, walk)) \<and>
    (\<forall>j u. u = fst (setMarkerConfirmed (NewMarker sid j) s) \<longrightarrow> FirstUnconfirmedMarkerIndex env sid u =
       Some (u, (case lastConfirmedMarkers s sid of Some r \<Rightarrow> max r j | None \<Rightarrow> j) + 1))"
proof -
  have votes: "orc sid = i \<Longrightarrow> addVoteToMarker env w orc (NewMarker sid i) blk t walk = Some (t, walk)"
    for w orc blk t walk i
    by (simp add: addVoteToMarker_def NewMarker_def)
  note set = FirstUnconfirmedMarkerIndex_recorded [OF setMarkerConfirmed_recorded]
  show ?thesis
  proof (cases "lastConfirmedMarkers s sid")
    case (Some r)
    note first = FirstUnconfirmedMarkerIndex_recorded [OF Some]
    show ?thesis
      by (rule exI [of _ s], rule exI [of _ "r + 1"]) (simp add: first Some votes set)
  next
    case None
    from FirstUnconfirmedMarkerIndex_search [OF None assms] obtain s' k where
      "FirstUnconfirmedMarkerIndex env sid s = Some (s', seq_lowest sequence + of_nat k)"
      "FirstUnconfirmedMarkerIndex env sid s' = Some (s', seq_lowest sequence + of_nat k)" "k \<le> n"
      "\<forall>j<k. IsMarkerConfirmed env (NewMarker sid (seq_lowest sequence + of_nat j)) s"
      "\<not> IsMarkerConfirmed env (NewMarker sid (seq_lowest sequence + of_nat k)) s" by blast
    then show ?thesis
      by (intro exI [of _ s'] exI [of _ "seq_lowest sequence + of_nat k"])
        (auto simp: None votes set)
  qed
qed

section \<open>A concrete run\<close>

text \<open>
  The block 2 is a strong child of 1, the block 3 has the weak parent 2, and the block 4 is a strong child of 2.  The marker of
  3 is accepted first, then that of 4: the block 1 stays pending.
\<close>

definition gadget0 :: "(nat, list_thresholds, Marker list \<times> Marker list, sequence_map, (index \<times> nat set) list, nat,
    nat list \<times> nat list, pubkey, (index \<times> VotePower) list) gadget_env" where
  "gadget0 = approval_env.extend
     (booker_env.extend booker0 (approval_env.fields id 0 votes0 id (\<lambda>_. []) id))
     (gadget_env.fields (\<lambda>w b. b \<in> set (snd w)) (\<lambda>aw. if fge aw (Num (Fin (67 / 100))) then Accepted else Pending)
       (\<lambda>_ _. Pending) (\<lambda>st. case st of Rejected \<Rightarrow> 1 | Pending \<Rightarrow> 2 | Accepted \<Rightarrow> 3 | Confirmed \<Rightarrow> 4 | OtherState n \<Rightarrow> 0))"

lemmas gadget0_simps = gadget0_def booker0_def mesh0_def mesh_env.defs booker_env.defs approval_env.defs gadget_env.defs

interpretation ga0: gadget_walks gadget0 fst "\<lambda>w. set (snd w)"
  by unfold_locales (auto simp: gadget0_simps enumerates_def split: list.splits if_splits)

lemma gadget0_translates: "translates gadget0"
  by (simp add: translates_def gadget0_simps)

lemma empty_gadget0 [simp]: "emptyBlockID gadget0 = 0"
  by (simp add: gadget0_simps)

definition gblock0 :: "nat \<Rightarrow> nat ParentBlockIDs \<Rightarrow> (nat, nat \<times> nat list) Block" where
  "gblock0 i parents = \<lparr>blk_ID = i, blk_Version = 1, blk_Parents = parents, IssuerPublicKey = [], IssuingTime = 0,
     SequenceNumber = 0, Payload = OtherPayload, ECRecordEI = 0, ECR = [], PrevEC = [], LatestConfirmedEpoch = 0,
     Nonce = 0, blk_Signature = []\<rparr>"

type_synonym gadget_state0 = "(nat, nat \<times> nat list, nat, (index \<times> nat set) list, sequence_map, pubkey,
    (index \<times> VotePower) list) gadget_mesh"

definition put0 :: "nat \<Rightarrow> nat ParentBlockIDs \<Rightarrow> gadget_state0 \<Rightarrow> gadget_state0" where
  "put0 i parents = StoreBlock gadget0 (\<lambda>_ s. s) (\<lambda>_ s. s) (gblock0 i parents)"

definition stored0 :: gadget_state0 where
  "stored0 = StoreMarkerBlockMapping (NewMarker 0 2) 4 (StoreMarkerBlockMapping (NewMarker 0 1) 3
     (put0 4 [(StrongParentType, {2})] (put0 3 [(StrongParentType, {0}), (WeakParentType, {2})]
       (put0 2 [(StrongParentType, {1})] (put0 1 [(StrongParentType, {0})] (storeGenesis gadget0 (emptyGadget (manager0 9))))))))"

definition weak0 :: gadget_state0 where
  "weak0 = (case HandleMarker gadget0 ledger0 (NewMarker 0 1) (Num (Fin 1)) stored0 genesis0 of Some (s, _) \<Rightarrow> s | None \<Rightarrow> stored0)"

lemma put0_known: "dom (blockMetadataStorage (put0 i parents s)) = insert i (dom (blockMetadataStorage s))"
  by (auto simp: put0_def StoreBlock_blocks gblock0_def)

lemma put0_run:
  assumes "gadget_run gadget0 ledger0 s l" and "i \<noteq> 0"
    and "\<forall>(t, ps)\<in>set parents. finite ps \<and> ps \<subseteq> dom (blockMetadataStorage s)"
  shows "gadget_run gadget0 ledger0 (put0 i parents s) l"
  unfolding put0_def
proof (rule gadget_run.store [OF assms(1)])
  show "sane_block (gblock0 i parents)" using assms(3) by (auto simp: sane_block_def gblock0_def)
  show "blk_ID (gblock0 i parents) \<noteq> emptyBlockID gadget0" using assms(2) by (simp add: gblock0_def)
  show "\<forall>t p. (t, p) \<in> parents_of (gblock0 i parents) \<longrightarrow> blockMetadataStorage s p \<noteq> None"
    using assms(3) unfolding parents_of_def by (fastforce simp: gblock0_def)
qed

lemma genesis0_known: "dom (blockMetadataStorage (storeGenesis gadget0 (emptyGadget (manager0 9) :: gadget_state0))) = {0}"
  by (auto simp: storeGenesis_def emptyGadget_def readClock_def putMetadata_def zeroMetadata_def)

lemma stored0_run: "gadget_run gadget0 ledger0 stored0 genesis0"
  unfolding stored0_def
  by (intro gadget_run.mapping put0_run gadget_run.start; simp add: put0_known genesis0_known)

lemma weak0_result: "\<exists>l. HandleMarker gadget0 ledger0 (NewMarker 0 1) (Num (Fin 1)) stored0 genesis0 = Some (weak0, l)"
proof -
  have st: "BlockTransFunc gadget0 (Num (Fin 1)) = Accepted" by (simp add: gadget0_simps)
  have inv: "gadget_inv gadget0 stored0" by (rule gadget_run_inv [OF ga0.gadget_walks_axioms gadget0_translates stored0_run])
  obtain s' l' where "HandleMarker gadget0 ledger0 (NewMarker 0 1) (Num (Fin 1)) stored0 genesis0 = Some (s', l')"
    using HandleMarker_confirms [OF ga0.gadget_walks_axioms inv st, where lenv = ledger0 and marker = "NewMarker 0 1" and l = genesis0]
    by blast
  then show ?thesis by (simp add: weak0_def)
qed

lemma weak0_run: "\<exists>l. gadget_run gadget0 ledger0 weak0 l"
  using weak0_result gadget_run.handle [OF stored0_run] by blast

lemma weak0_values:
  "IsBlockConfirmed 3 weak0" "IsBlockConfirmed 2 weak0" "\<not> IsBlockConfirmed 1 weak0"
  "Mapper_BlockID gadget0 (NewMarker 0 2) weak0 = 4" "blockStorage weak0 4 = Some (gblock0 4 [(StrongParentType, {2})])"
  "blockStorage weak0 2 = Some (gblock0 2 [(StrongParentType, {1})])"
  by code_simp+

lemma weak0_parents:
  "strong_parent weak0 p 2 \<longleftrightarrow> p = 1" "strong_parent weak0 p 4 \<longleftrightarrow> p = 2" "\<not> other_parent weak0 p 4"
  by (auto simp: strong_parent_def other_parent_def weak0_values parents_of_def gblock0_def)

theorem weak_acceptance_hides_past_witness:
  "\<exists>s' l'. HandleMarker gadget0 ledger0 (NewMarker 0 2) (Num (Fin 1)) weak0 genesis0 = Some (s', l') \<and>
     IsBlockConfirmed 4 s' \<and> IsBlockConfirmed 2 s' \<and> \<not> IsBlockConfirmed 1 s'"
proof -
  obtain l where "gadget_run gadget0 ledger0 weak0 l" using weak0_run by blast
  then have run: "gadget_run gadget0 ledger0 weak0 genesis0" by (rule gadget_run.ledger)
  have st: "BlockTransFunc gadget0 (Num (Fin 1)) = Accepted" by (simp add: gadget0_simps)
  show ?thesis
    by (rule weak_acceptance_hides_past [OF ga0.gadget_walks_axioms gadget0_translates run weak0_values(2) _ _ weak0_values(3,4) _ _ _ st])
      (simp_all add: weak0_parents weak0_values)
qed

theorem accepted_blocks_past_witness: "IsBlockConfirmed 2 weak0 \<and> (\<exists>c. IsBlockConfirmed c weak0 \<and> other_parent weak0 2 c)"
proof -
  obtain l where run: "gadget_run gadget0 ledger0 weak0 l" using weak0_run by blast
  show ?thesis
    using accepted_blocks_past [OF ga0.gadget_walks_axioms gadget0_translates run weak0_values(2)] weak0_parents(1) weak0_values
    by auto
qed

theorem past_cone_confirmed_exactly_witness:
  "\<exists>s' xs l'. propagateConfirmationStateToBlockPastCone gadget0 ledger0 3 Accepted stored0 genesis0 = Some (s', l') \<and>
     confirms Accepted xs stored0 s' \<and> set xs = accepted_cone gadget0 Accepted stored0 3 \<and> 3 \<in> set xs"
proof -
  have inv: "gadget_inv gadget0 stored0" by (rule gadget_run_inv [OF ga0.gadget_walks_axioms gadget0_translates stored0_run])
  have "blockStorage stored0 3 \<noteq> None" "\<not> IsBlockConfirmed 3 stored0" by code_simp+
  then have "lower_state gadget0 Accepted stored0 3" by (simp add: lower_not_confirmed [OF inv gadget0_translates])
  then have "3 \<in> accepted_cone gadget0 Accepted stored0 3" by (simp add: accepted_cone_def strong_cone_def cone_path_def)
  moreover have "stored_ok stored0" "blockStorage stored0 (emptyBlockID gadget0) = None" "finite (dom (blockMetadataStorage stored0))"
    using inv by (simp_all add: gadget_inv_def)
  ultimately show ?thesis
    using past_cone_confirmed_exactly [OF ga0.gadget_walks_axioms, of stored0 ledger0 3 Accepted genesis0] by auto
qed

definition unrecorded0 :: gadget_state0 where
  "unrecorded0 = StoreMarkerBlockMapping (NewMarker 0 0) 3 (weak0\<lparr>lastConfirmedMarkers := Map.empty\<rparr>)"

text \<open>
  The markers 0 and 1 are confirmed and 2 is not: the search takes two steps.  Once the marker 5 is recorded, 6 is returned
  although 2 is still not confirmed.
\<close>

theorem first_unconfirmed_exact_witness:
  "(\<exists>s'. FirstUnconfirmedMarkerIndex gadget0 0 unrecorded0 = Some (s', 2) \<and>
     FirstUnconfirmedMarkerIndex gadget0 0 s' = Some (s', 2)) \<and>
   (\<exists>u. setMarkerConfirmed (NewMarker 0 5) unrecorded0 = (u, True) \<and>
     FirstUnconfirmedMarkerIndex gadget0 0 u = Some (u, 6) \<and> \<not> IsMarkerConfirmed gadget0 (NewMarker 0 2) u)"
proof -
  let ?s = unrecorded0 and ?q = "\<lparr>seq_ID = 0, referenced = [], referencing = [], seq_lowest = 0, seq_highest = 9\<rparr>"
  have q: "Manager_Sequence (markersEnv gadget0) (markersManager ?s) 0 = Some ?q"
    and c: "IsMarkerConfirmed gadget0 (NewMarker 0 0) ?s" "IsMarkerConfirmed gadget0 (NewMarker 0 1) ?s"
      "\<not> IsMarkerConfirmed gadget0 (NewMarker 0 2) ?s" by code_simp+
  have none: "lastConfirmedMarkers ?s 0 = None" by (simp add: unrecorded0_def StoreMarkerBlockMapping_def)
  have n: "\<not> IsMarkerConfirmed gadget0 (NewMarker 0 (seq_lowest ?q + of_nat 2)) ?s" using c(3) by simp
  note first = first_unconfirmed_exact [OF q n, unfolded none option.case]
  from first obtain s' i k where s': "FirstUnconfirmedMarkerIndex gadget0 0 ?s = Some (s', i)"
    "FirstUnconfirmedMarkerIndex gadget0 0 s' = Some (s', i)" and i: "i = of_nat k" "k \<le> 2"
    "\<not> IsMarkerConfirmed gadget0 (NewMarker 0 i) ?s" by auto
  have "k = 0 \<or> k = 1 \<or> k = 2" using i(2) by auto
  then have "i = 2" using i(1,3) c(1,2) by auto
  moreover have "fst (setMarkerConfirmed (NewMarker 0 5) ?s) = ?s\<lparr>lastConfirmedMarkers := (lastConfirmedMarkers ?s)(0 \<mapsto> 5)\<rparr>"
    and "snd (setMarkerConfirmed (NewMarker 0 5) ?s)"
    by (simp_all add: setMarkerConfirmed_def NewMarker_def none)
  moreover have "FirstUnconfirmedMarkerIndex gadget0 0 (fst (setMarkerConfirmed (NewMarker 0 5) ?s)) =
      Some (fst (setMarkerConfirmed (NewMarker 0 5) ?s), 6)"
    using first by auto
  ultimately show ?thesis using s' c(3) by (auto simp: prod_eq_iff)
qed

end
