(* ===== verification/Spec2Isabelle.thy ===== *)
theory Spec2Isabelle
  imports SchedulerMachine OutputLaws OutputCodecInst MarkerMachine OmvMachine LedgerMachine SolidMachine VoteLaws AcceptanceMachine
begin

text \<open>
  A verification library of the core of Zipp, a node of a DAG ledger written in Go.

  THE PROGRAM.  A block carries a transaction.  The mesh (packages/core/mesh_old) schedules blocks, books them
  with markers (packages/core/markers) and gossips them.  The ledger (packages/core/ledger) stores and books the
  transactions, executes them in a virtual machine (ledger/vm/devnetvm) and keeps double spends as conflicts of a
  DAG (packages/core/conflictdag).  The voting (packages/core/consensus/omv) decides which conflicts a node likes.
  Everything that is persistent is an object storage of the external module zipp.foundation, and components
  notify each other by events.

  THE PARTS, in the order in which their theories import each other.

  Prelude has the results of computations that may panic (the type go), Go's checked slices and maps, and the
  lemma collections; Foundation the interfaces of zipp.foundation that several parts use, the locales walker,
  once_walker (every element at most once) and object_store.

  1. The scheduler.  GoHeap and Ring model container/heap and container/ring of the standard library; NodeQueue and
  BufferQueue are schedulerutils/nodequeue.go and bufferqueue.go; Scheduler is scheduler.go with
  schedulerutils/accessmanacache.go.  BufferQueueLaws and SchedulerLaws have the invariants bq_inv and sch_inv, and what every
  operation does to the blocks, the ring and the deficits.  SchedulerMachine has the states that sequences of
  operations reach (sched_reach).  The ring is shown to refine a round robin list, a round of the scheduler to choose
  the first of the nodes that need the fewest rounds, and no operation to loop, nor to panic but for the submission of a
  block that is submitted already.  Conversions of floating point numbers to int64 saturate (to_int64).

  2. The ledger VM.  Balances (color.go and the arithmetic of utils.go), Addresses (address.go, signature.go, unlockblock.go), Utxo
  (ledger/utxo/types.go), Outputs (output.go, transaction.go), Unlock (the methods UnlockValid), UnlockGraph (the cycle
  check), VM (utils.go, vm.go: the validation and execution of a transaction), OutputCodec (the hand-written
  serialization of output.go).  BalanceLaws, UnlockLaws, VMLaws, OutputLaws and OutputCodecInst have their lemmas and
  VMProperties the properties: funds are conserved, every input is authorised by a signature, aliases are continued by
  legal transitions, and the inputs on which the code panics.

  3. The markers.  Markers is models.go, MarkerManager is manager.go.  NormalizeLaws, ReferenceLaws, MarkerLaws and
  MarkerProperties have the laws of the walk of normalizeMarkers, whose walker visits a marker at most once, of the references of
  a sequence and of the cached bounds; MarkerMachine the runs of the manager, in which every marker is assigned once.

  4. The conflict DAG.  ConflictDAG is conflictdag.go, utils.go and types.go.  ConflictLaws and ConflictProperties have the
  well-formedness (dag_ok), the consistency of the confirmation states, and what accepting a conflict does to its
  ancestors, its competitors and their descendants; ConflictMachine the properties over all runs (dag_run).  The runs
  guard the updates of parents and of conflict sets, which the code does not; what an unguarded update does to the
  consistency is part of the property.

  5. The voting.  Omv is omv.go.  OmvLaws characterises what a node likes by the relations of the conflict DAG, OmvMachine
  states that it is one reality.

  6. The ledger.  LedgerModels is models.go, Ledger is ledger.go, storage.go, utils.go, validator.go, booker.go and
  dataflow.go over the conflict DAG.  LedgerLaws has the interfaces, the walk over the future cone and the invariant
  ledger_inv; ForkLaws, BookLaws, RelatedLaws, BookFrame, LedgerFlow, AcceptLaws and LedgerRuns show that every operation returns,
  keeps it and what it leaves alone; LedgerMachine has the properties over all runs (ledger_run): double spends always compete
  in the conflict DAG, whatever the order of arrival.  The booking records the outputs of a transaction as outputs.IDs(), which
  parses the printed names of their identifiers and is nil for every transaction with outputs (outputs_IDs).  What the methods of
  the external set do with nil is the field nilOutputIDs of the environment: it reads as a set, or they panic.  The
  locale ledger_storage assumes that it reads as the empty one, and under this reading LedgerMachine shows what is lost:
  forks, acceptance and rejection stay at the transaction, related inputs are not found, and a transaction that arrives before
  its inputs is not booked.

  7. The mesh.  Blocks is block.go, MeshStorage is storage.go, utils.go and events.go, Solidifier is solidifier.go, requester.go and
  orphanagemanager.go (packages/core/mesh_old).  SolidLaws and SolidRuns have the invariant of a run in which blocks
  arrive in any order, timers fire and waiting tasks run in any order (solid_run); SolidMachine the properties: solid blocks are
  exactly the admissible ones when no task waits, and the requested blocks are the missing ones.  Votes
  (approvalweightmanager.models.go) and VoteLaws are the votes on markers and conflicts; MarkersMapper (markersmanager.go,
  markersmanager.models.go) and MarkerConflicts the conflicts of markers; Booker is booker.go over the markers and the ledger,
  and ApprovalWeight is approvalweightmanager.go.  Acceptance is packages/core/consensus/acceptance/gadget.go: AcceptanceLaws shows that the
  propagation to the past cone of a block returns and which blocks it confirms, AcceptanceMachine what is true of the
  accepted blocks in every run (gadget_run) and why a block accepted as a weak parent hides its past.

  HOW CODE CORRESPONDS TO DEFINITIONS.  A struct is a record, an enumeration or an interface with a closed set of
  implementations a datatype, a method a function that gets the old and returns the new state.  Panics are the type go, error
  results sums or options of their own.  Index, SequenceID, balances and sizes are machine words where they wrap; the deficits
  are exact rationals, as the code uses big.Rat.  The confirmation oracle of the votes is an argument that is fixed
  during a call.  A Go map whose order is visible is an association list, and that order a
  parameter.  The state of the object storages of the conflict DAG and of the sequences is a type parameter with
  laws; those of the ledger are maps.  Mutexes only serialise operations: each operation is atomic in the runs, and the
  handlers that are attached as asynchronous tasks are operations of their own, taken in any order.

  PARAMETERS.  Code that is not in this repository is a field of an environment record: crypto and vm_env (hashes, signatures, the
  reflective serializer), orderedmap and outputmap, codec (marshalutil), marker_env and manager_env (threshold maps, the
  storage of sequences, the walker), conflict_env (object storages, set iteration, walkers, confirmation.State),
  ledger_env (the virtual machine, accessors of transactions, the clock), dataflow (the chaining of commands),
  block_env and mesh_env (identifiers of blocks, the clock, options), booker_env and approval_env (threshold maps of votes and
  conflicts, walkers, orders of iteration).  What the
  code relies on is the assumptions of a locale, and every locale is interpreted on a concrete instance: the
  witnesses run on conflicts0, ledger0, the marker environment of MarkerMachine and the codec of OutputCodecInst.
  Further parameters are the hash newID of a node, orders of iteration (ord, rng), the rounding rnd of the one floating point
  division, the confirmation oracle and the retrievers of mana.

  LOOPS.  A loop over a ring gets fuel, the number of cells of the store (ring_fresh), and is shown never to run out of it.
  The drop loop of the buffer gets the excess of blocks over the maximum, each iteration removing one.  considerQueue
  gets the length of the inbox, as it only pops.  The search of UnlockGraph gets one more than the number of vertices, as
  it marks a vertex before it descends.  The walks over markers, conflicts and transactions are partial functions
  into option; that they return is proved (by the budget of a once_walker, the number of conflicts whose state is still to
  change, or the number of outputs of known transactions) and part of the properties.

  WHAT IS NOT MODELLED.  The list of components in the manifest names every file.  Within the modelled parts: the
  reflective serialization (serix), locks and goroutines, the persistence and shutdown of the storages, the conversion to strings,
  and the event wiring of the scheduler (Setup, the main loop and its ticker).  The states of the ledger that
  ledger_run reaches prune only transactions that are not booked, which is what the handler of invalid transactions does.
  Outside: the parsing and the network (input and output over libp2p), the plugins, clients and tools (assembly, web interfaces,
  command lines), mana (floating point vectors), notarization and snapshots (external Merkle trees, streams).

  PLAN.  Next are the composition of the booker with the ledger (the functions book and processBookedTransaction of booker.go)
  and the epoch identifiers and commitments (packages/core/epoch).
\<close>

end
